(* ===== verification/Flx_Prelude.thy ===== *)
theory Flx_Prelude
  imports Main "HOL-Library.Word" "HOL-Library.Sublist"
begin

text \<open>
  Shared vocabulary of the development: machine-integer names, the outcome of a
  fallible or panicking Rust computation, and list operations that several
  components use (indexed removal, first matching element, de-duplication).
  The theorem collections declared here gather the facts component proofs pass
  to \<open>simp\<close> and \<open>auto\<close> as a group.
\<close>

named_theorems outcome_simps
named_theorems str_simps
named_theorems inv_intros

type_synonym u8 = "8 word"
type_synonym u16 = "16 word"
type_synonym u64 = "64 word"

lemma u8_less [simp]: "unat (w :: u8) < 256"
  using unsigned_less [of w, where 'a = nat] by simp

lemma u16_less [simp]: "unat (w :: u16) < 65536"
  using unsigned_less [of w, where 'a = nat] by simp

section \<open>Outcomes\<close>

text \<open>
  \<open>Ok\<close> and \<open>Err\<close> are the two arms of Rust's \<open>Result\<close>; \<open>Panic\<close> is a panic
  (a slice index out of range, an arithmetic overflow check). A model that keeps
  the panic as a value lets a theorem say that it is never reached.
\<close>

datatype ('a, 'e) outcome = Ok 'a | Err 'e | Panic

fun and_then :: "('a, 'e) outcome \<Rightarrow> ('a \<Rightarrow> ('b, 'e) outcome) \<Rightarrow> ('b, 'e) outcome" where
  "and_then (Ok x) f = f x"
| "and_then (Err e) f = Err e"
| "and_then Panic f = Panic"

definition ok_or :: "'e \<Rightarrow> 'a option \<Rightarrow> ('a, 'e) outcome" where
  "ok_or e x = (case x of None \<Rightarrow> Err e | Some y \<Rightarrow> Ok y)"

fun ok_opt :: "('a, 'e) outcome \<Rightarrow> 'a option" where
  "ok_opt (Ok x) = Some x"
| "ok_opt (Err e) = None"
| "ok_opt Panic = None"

lemma and_then_eq_Ok [outcome_simps]:
  "and_then m f = Ok y \<longleftrightarrow> (\<exists>x. m = Ok x \<and> f x = Ok y)"
  by (cases m) auto

lemma and_then_eq_Panic [outcome_simps]:
  "and_then m f = Panic \<longleftrightarrow> m = Panic \<or> (\<exists>x. m = Ok x \<and> f x = Panic)"
  by (cases m) auto

lemma and_then_eq_Err [outcome_simps]:
  "and_then m f = Err e \<longleftrightarrow> m = Err e \<or> (\<exists>x. m = Ok x \<and> f x = Err e)"
  by (cases m) auto

lemma and_then_assoc: "and_then (and_then m f) g = and_then m (\<lambda>x. and_then (f x) g)"
  by (cases m) auto

lemma ok_or_simps [simp]: "ok_or e None = Err e" "ok_or e (Some x) = Ok x"
  by (simp_all add: ok_or_def)

lemma ok_or_iffs [outcome_simps]:
  "ok_or e x = Ok y \<longleftrightarrow> x = Some y"
  "ok_or e x = Err e' \<longleftrightarrow> x = None \<and> e' = e"
  "ok_or e x \<noteq> Panic"
  by (cases x; auto)+

lemma ok_opt_eq_Some [outcome_simps]: "ok_opt m = Some x \<longleftrightarrow> m = Ok x"
  by (cases m) auto

text \<open>Two-armed results, where the code cannot panic, are sums: \<open>Inl\<close> is the error.\<close>

fun res_bind :: "'e + 'a \<Rightarrow> ('a \<Rightarrow> 'e + 'b) \<Rightarrow> 'e + 'b" where
  "res_bind (Inl e) f = Inl e"
| "res_bind (Inr x) f = f x"

lemma res_bind_eq_Inr [outcome_simps]:
  "res_bind m f = Inr y \<longleftrightarrow> (\<exists>x. m = Inr x \<and> f x = Inr y)"
  by (cases m) auto

section \<open>Lists\<close>

text \<open>\<open>Vec::swap_remove\<close>: the last element takes the place of the removed one.\<close>

definition swap_remove :: "'a list \<Rightarrow> nat \<Rightarrow> 'a list" where
  "swap_remove xs i = butlast (xs[i := last xs])"

lemma length_swap_remove [simp]: "length (swap_remove xs i) = length xs - 1"
  by (simp add: swap_remove_def)

lemma swap_remove_last: "swap_remove (xs @ [x]) (length xs) = xs"
  by (simp add: swap_remove_def)

lemma swap_remove_inner:
  "i < length xs \<Longrightarrow> swap_remove (xs @ [x]) i = xs[i := x]"
  by (simp add: swap_remove_def list_update_append)

lemma swap_remove_split:
  assumes "i < length xs"
  obtains ys x where "xs = ys @ [x]" and "i = length ys" and "swap_remove xs i = ys"
  | ys x where "xs = ys @ [x]" and "i < length ys" and "swap_remove xs i = ys[i := x]"
proof (cases xs rule: rev_cases)
  case Nil
  then show ?thesis using assms by simp
next
  case (snoc ys x)
  then show ?thesis
    using assms that swap_remove_last [of ys x] swap_remove_inner [of i ys x]
    by (cases "i = length ys") auto
qed

lemma set_swap_remove_subset: "i < length xs \<Longrightarrow> set (swap_remove xs i) \<subseteq> set xs"
  by (erule swap_remove_split) (auto dest: set_update_subset_insert [THEN subsetD])

lemma distinct_swap_remove:
  assumes "distinct (map f xs)" and "i < length xs"
  shows "distinct (map f (swap_remove xs i))"
  using assms(2)
proof (cases rule: swap_remove_split)
  case (1 ys x)
  then show ?thesis using assms(1) by simp
next
  case (2 ys x)
  have "distinct ((map f ys)[i := f x])"
    using assms(1) 2 by (intro distinct_list_update) auto
  then show ?thesis using 2 by (simp add: map_update)
qed

lemma set_swap_remove:
  assumes "distinct xs" and "i < length xs"
  shows "set (swap_remove xs i) = set xs - {xs ! i}"
  using assms(2)
proof (cases rule: swap_remove_split)
  case (1 ys x)
  then show ?thesis using assms by (auto simp: nth_append)
next
  case (2 ys x)
  then have d: "distinct ys" "x \<notin> set ys" using assms by auto
  have "set (ys[i := x]) = insert x (set ys - {ys ! i})"
    using d(1) 2 by (simp add: set_update_distinct)
  moreover have "ys ! i \<noteq> x" using d 2 nth_mem by metis
  ultimately show ?thesis using 2 d by (auto simp: nth_append)
qed

text \<open>The position of the first element that satisfies a predicate (\<open>Iterator::position\<close>).\<close>

fun position :: "('a \<Rightarrow> bool) \<Rightarrow> 'a list \<Rightarrow> nat option" where
  "position p [] = None"
| "position p (x # xs) = (if p x then Some 0 else map_option Suc (position p xs))"

lemma position_eq_None: "position p xs = None \<longleftrightarrow> (\<forall>x \<in> set xs. \<not> p x)"
  by (induction xs) auto

lemma position_Some:
  "position p xs = Some i \<Longrightarrow> i < length xs \<and> p (xs ! i) \<and> (\<forall>j < i. \<not> p (xs ! j))"
proof (induction xs arbitrary: i)
  case Nil
  then show ?case by simp
next
  case (Cons x xs)
  show ?case
  proof (cases "p x")
    case True
    with Cons.prems show ?thesis by simp
  next
    case False
    with Cons.prems obtain k where k: "position p xs = Some k" "i = Suc k" by auto
    with Cons.IH [OF k(1)] False show ?thesis
      by (auto simp: less_Suc_eq_0_disj)
  qed
qed

lemma position_eq_Some:
  "position p xs = Some i \<longleftrightarrow> i < length xs \<and> p (xs ! i) \<and> (\<forall>j < i. \<not> p (xs ! j))"
proof
  assume r: "i < length xs \<and> p (xs ! i) \<and> (\<forall>j < i. \<not> p (xs ! j))"
  then have "position p xs \<noteq> None" by (auto simp: position_eq_None)
  then obtain k where k: "position p xs = Some k" by blast
  from position_Some [OF this] r have "k = i" by (metis linorder_neqE_nat)
  with k show "position p xs = Some i" by simp
qed (rule position_Some)

text \<open>Keeping the first occurrence of each element, in order (\<open>Vec::retain\<close> with a seen list).\<close>

fun dedup_seen :: "'a list \<Rightarrow> 'a list \<Rightarrow> 'a list" where
  "dedup_seen seen [] = []"
| "dedup_seen seen (x # xs) =
     (if x \<in> set seen then dedup_seen seen xs else x # dedup_seen (seen @ [x]) xs)"

lemma set_dedup_seen: "set (dedup_seen seen xs) = set xs - set seen"
  by (induction xs arbitrary: seen) auto

lemma distinct_dedup_seen: "distinct (dedup_seen seen xs)"
  by (induction xs arbitrary: seen) (auto simp: set_dedup_seen)

lemma dedup_seen_append:
  "dedup_seen seen (xs @ ys) = dedup_seen seen xs @ dedup_seen (seen @ dedup_seen seen xs) ys"
  by (induction xs arbitrary: seen) auto

lemma subseq_dedup_seen: "subseq (dedup_seen seen xs) xs"
  by (induction xs arbitrary: seen) auto

end
