(* ===== verification/Rust_Str.thy ===== *)
theory Rust_Str
  imports Flx_Prelude "HOL-Library.Char_ord"
begin

text \<open>
  The part of Rust's string library the program relies on. A \<open>str\<close> is a list of
  bytes (\<^typ>\<open>char\<close> is an 8-bit value), which for a Rust string is its UTF-8
  encoding; lengths count bytes, as \<open>str::len\<close> does. Trimming removes the code
  points with the Unicode property \<open>White_Space\<close>, given by their encodings.
  Splitting, searching, ASCII case folding, the integer parsers of \<open>FromStr\<close> and
  \<open>Ipv4Addr\<close> parsing and printing follow the documentation of \<open>std\<close>.
\<close>

section \<open>Characters\<close>

definition byte :: "char \<Rightarrow> nat" where
  "byte c = of_char c"

definition is_digit :: "char \<Rightarrow> bool" where
  "is_digit c \<longleftrightarrow> 48 \<le> byte c \<and> byte c \<le> 57"

definition is_graphic :: "char \<Rightarrow> bool" where
  "is_graphic c \<longleftrightarrow> 33 \<le> byte c \<and> byte c \<le> 126"

definition is_alpha :: "char \<Rightarrow> bool" where
  "is_alpha c \<longleftrightarrow> 65 \<le> byte c \<and> byte c \<le> 90 \<or> 97 \<le> byte c \<and> byte c \<le> 122"

text \<open>\<open>u8::is_ascii_whitespace\<close>: space, tab, line feed, form feed, carriage return.\<close>

definition is_ascii_ws :: "char \<Rightarrow> bool" where
  "is_ascii_ws c \<longleftrightarrow> byte c \<in> {32, 9, 10, 12, 13}"

definition lower_char :: "char \<Rightarrow> char" where
  "lower_char c = (if 65 \<le> byte c \<and> byte c \<le> 90 then char_of (byte c + 32) else c)"

definition lower :: "string \<Rightarrow> string" where
  "lower s = map lower_char s"

definition eq_ignore_case :: "string \<Rightarrow> string \<Rightarrow> bool" where
  "eq_ignore_case a b \<longleftrightarrow> lower a = lower b"

lemma byte_less [simp]: "byte c < 256"
  by (simp add: byte_def)

lemma byte_inject: "byte c = byte d \<longleftrightarrow> c = d"
  by (simp add: byte_def)

lemma byte_char_of [simp]: "n < 256 \<Longrightarrow> byte (char_of n) = n"
  by (simp add: byte_def)

lemma char_of_byte [simp]: "char_of (byte c) = c"
  by (simp add: byte_def)

lemma byte_Char [simp]:
  "byte (Char b0 b1 b2 b3 b4 b5 b6 b7) = of_char (Char b0 b1 b2 b3 b4 b5 b6 b7)"
  by (simp add: byte_def)

lemma char_of_eq_iff [simp]:
  "n < 256 \<Longrightarrow> char_of n = c \<longleftrightarrow> n = byte c"
  "n < 256 \<Longrightarrow> c = char_of n \<longleftrightarrow> n = byte c"
  by (metis byte_char_of byte_inject)+

lemma lower_char_idem [simp]: "lower_char (lower_char c) = lower_char c"
  by (auto simp: lower_char_def)

lemma lower_idem [simp]: "lower (lower s) = lower s"
  by (simp add: lower_def comp_def)

lemma is_digit_graphic: "is_digit c \<Longrightarrow> is_graphic c"
  by (simp add: is_digit_def is_graphic_def)

section \<open>Searching and splitting\<close>

text \<open>\<open>str::find\<close> on a substring: the index of its first occurrence.\<close>

fun find_str :: "'a list \<Rightarrow> 'a list \<Rightarrow> nat option" where
  "find_str pat [] = (if pat = [] then Some 0 else None)"
| "find_str pat (c # s) =
     (if prefix pat (c # s) then Some 0 else map_option Suc (find_str pat s))"

definition contains :: "'a list \<Rightarrow> 'a list \<Rightarrow> bool" where
  "contains s pat \<longleftrightarrow> find_str pat s \<noteq> None"

lemma contains_sublist: "contains s pat \<longleftrightarrow> sublist pat s"
  by (induction s) (auto simp: contains_def sublist_Cons_right)

lemma find_str_Some: "find_str pat s = Some i \<Longrightarrow> prefix pat (drop i s) \<and> i + length pat \<le> length s"
proof (induction s arbitrary: i)
  case Nil
  then show ?case by (simp split: if_splits)
next
  case (Cons c s)
  then show ?case by (auto split: if_splits dest!: prefix_length_le)
qed

lemma find_str_least: "find_str pat s = Some i \<Longrightarrow> j < i \<Longrightarrow> \<not> prefix pat (drop j s)"
proof (induction s arbitrary: i j)
  case Nil
  then show ?case by (simp split: if_splits)
next
  case (Cons c s)
  show ?case
  proof (cases "prefix pat (c # s)")
    case True
    with Cons.prems show ?thesis by simp
  next
    case False
    with Cons.prems obtain k where "find_str pat s = Some k" "i = Suc k" by auto
    with Cons.IH [of k "j - 1"] Cons.prems(2) False show ?thesis by (cases j) auto
  qed
qed

definition strip_prefix :: "'a list \<Rightarrow> 'a list \<Rightarrow> 'a list option" where
  "strip_prefix pat s = (if prefix pat s then Some (drop (length pat) s) else None)"

lemma strip_prefix_append [simp]: "strip_prefix pat (pat @ s) = Some s"
  by (simp add: strip_prefix_def)

lemma strip_prefix_eq_Some: "strip_prefix pat s = Some r \<longleftrightarrow> s = pat @ r"
  by (auto simp: strip_prefix_def prefix_def)

text \<open>\<open>str::split\<close> on a set of one-byte separators: never empty.\<close>

fun split_by :: "('a \<Rightarrow> bool) \<Rightarrow> 'a list \<Rightarrow> 'a list list" where
  "split_by p [] = [[]]"
| "split_by p (c # s) =
     (if p c then [] # split_by p s
      else (case split_by p s of [] \<Rightarrow> [[c]] | w # ws \<Rightarrow> (c # w) # ws))"

lemma split_by_ne [simp]: "split_by p s \<noteq> []"
  by (cases s) (auto split: list.splits)

lemma split_by_none: "\<forall>c \<in> set s. \<not> p c \<Longrightarrow> split_by p s = [s]"
  by (induction s) auto

lemma split_by_append:
  "\<forall>c \<in> set s. \<not> p c \<Longrightarrow> p d \<Longrightarrow> split_by p (s @ d # r) = s # split_by p r"
  by (induction s) auto

lemma hd_split_by: "hd (split_by p s) = takeWhile (\<lambda>c. \<not> p c) s"
proof (induction s)
  case Nil
  then show ?case by simp
next
  case (Cons c s)
  then show ?case by (cases "split_by p s") auto
qed

lemma split_by_pieces: "w \<in> set (split_by p s) \<Longrightarrow> c \<in> set w \<Longrightarrow> \<not> p c \<and> c \<in> set s"
  by (induction s arbitrary: w) (fastforce split: if_splits list.splits)+

fun join :: "'a list \<Rightarrow> 'a list list \<Rightarrow> 'a list" where
  "join sep [] = []"
| "join sep [w] = w"
| "join sep (w # ws) = w @ sep @ join sep ws"

lemma join_Cons: "ws \<noteq> [] \<Longrightarrow> join sep (w # ws) = w @ sep @ join sep ws"
  by (cases ws) auto

lemma join_split_by: "join [d] (split_by ((=) d) s) = s"
proof (induction s)
  case Nil
  then show ?case by simp
next
  case (Cons c s)
  show ?case
  proof (cases "split_by ((=) d) s")
    case Nil
    then show ?thesis by simp
  next
    case (Cons w ws)
    with Cons.IH show ?thesis by (cases ws) auto
  qed
qed

lemma split_by_join:
  "ws \<noteq> [] \<Longrightarrow> \<forall>w \<in> set ws. d \<notin> set w \<Longrightarrow> split_by ((=) d) (join [d] ws) = ws"
proof (induction ws)
  case Nil
  then show ?case by simp
next
  case (Cons w ws)
  show ?case
  proof (cases "ws = []")
    case True
    with Cons.prems show ?thesis by (auto intro!: split_by_none)
  next
    case False
    with Cons show ?thesis
      using split_by_append [of w "(=) d" d "join [d] ws"] by (auto simp: join_Cons)
  qed
qed

text \<open>\<open>str::split_once\<close> and \<open>rsplit_once\<close> on one byte, and \<open>split_once\<close> on a substring.\<close>

definition split_once :: "'a \<Rightarrow> 'a list \<Rightarrow> ('a list \<times> 'a list) option" where
  "split_once d s =
     (if d \<in> set s then Some (takeWhile (\<lambda>c. c \<noteq> d) s, tl (dropWhile (\<lambda>c. c \<noteq> d) s)) else None)"

definition rsplit_once :: "'a \<Rightarrow> 'a list \<Rightarrow> ('a list \<times> 'a list) option" where
  "rsplit_once d s = map_option (\<lambda>(a, b). (rev b, rev a)) (split_once d (rev s))"

definition split_once_str :: "'a list \<Rightarrow> 'a list \<Rightarrow> ('a list \<times> 'a list) option" where
  "split_once_str pat s = map_option (\<lambda>i. (take i s, drop (i + length pat) s)) (find_str pat s)"

lemma split_once_None [simp]: "split_once d s = None \<longleftrightarrow> d \<notin> set s"
  by (simp add: split_once_def)

lemma split_once_append: "d \<notin> set a \<Longrightarrow> split_once d (a @ d # b) = Some (a, b)"
  by (induction a) (auto simp: split_once_def)

lemma split_once_eq_Some: "split_once d s = Some (a, b) \<longleftrightarrow> s = a @ d # b \<and> d \<notin> set a"
proof
  assume "split_once d s = Some (a, b)"
  moreover from this have "d \<in> set s" by (auto simp: split_once_def split: if_splits)
  then obtain u v where uv: "s = u @ d # v" "d \<notin> set u" by (meson split_list_first)
  ultimately show "s = a @ d # b \<and> d \<notin> set a"
    using split_once_append [OF uv(2), of v] by simp
qed (auto simp: split_once_append)

lemma rsplit_once_None [simp]: "rsplit_once d s = None \<longleftrightarrow> d \<notin> set s"
  by (simp add: rsplit_once_def)

lemma split_once_notin [simp]: "d \<notin> set s \<Longrightarrow> split_once d s = None"
  "d \<notin> set s \<Longrightarrow> rsplit_once d s = None"
  by simp_all

lemma rsplit_once_eq_Some: "rsplit_once d s = Some (a, b) \<longleftrightarrow> s = a @ d # b \<and> d \<notin> set b"
proof -
  have "rsplit_once d s = Some (a, b) \<longleftrightarrow> split_once d (rev s) = Some (rev b, rev a)"
    by (auto simp: rsplit_once_def)
  also have "\<dots> \<longleftrightarrow> s = a @ d # b \<and> d \<notin> set b"
    by (simp add: split_once_eq_Some rev_swap)
  finally show ?thesis .
qed

lemma find_str_no_head: "d \<notin> set s \<Longrightarrow> find_str (d # pat) s = None"
  by (induction s) auto

lemma split_once_str_none: "d \<notin> set s \<Longrightarrow> split_once_str (d # pat) s = None"
  by (simp add: split_once_str_def find_str_no_head)

end
