(* ===== verification/Rust_Parse.thy ===== *)
theory Rust_Parse
  imports Rust_Str
begin

text \<open>
  Trimming, the decimal parsers and printers of \<open>std\<close>, IPv4 addresses and UTF-8
  decoding, over the byte strings of \<open>Rust_Str\<close>. The main facts are the round
  trips: a printed number or address parses back, and the only text that parses to
  an IPv4 address is its printed form.
\<close>

section \<open>Trimming\<close>

text \<open>The UTF-8 encodings of the code points with property \<open>White_Space\<close>.\<close>

definition ws_encodings :: "string list" where
  "ws_encodings = map (map char_of)
     [[9], [10], [11], [12], [13], [32 :: nat], [194, 133], [194, 160], [225, 154, 128],
      [226, 128, 128], [226, 128, 129], [226, 128, 130], [226, 128, 131], [226, 128, 132],
      [226, 128, 133], [226, 128, 134], [226, 128, 135], [226, 128, 136], [226, 128, 137],
      [226, 128, 138], [226, 128, 168], [226, 128, 169], [226, 128, 175], [226, 129, 159],
      [227, 128, 128]]"

function strip_any :: "'a list list \<Rightarrow> 'a list \<Rightarrow> 'a list" where
  "strip_any ps s =
     (case find (\<lambda>w. w \<noteq> [] \<and> prefix w s) ps of
        None \<Rightarrow> s
      | Some w \<Rightarrow> strip_any ps (drop (length w) s))"
  by pat_completeness auto
termination
  by (relation "measure (\<lambda>(ps, s). length s)")
    (auto simp: find_Some_iff prefix_def)

declare strip_any.simps [simp del]

definition trim_start :: "string \<Rightarrow> string" where
  "trim_start s = strip_any ws_encodings s"

definition trim_end :: "string \<Rightarrow> string" where
  "trim_end s = rev (strip_any (map rev ws_encodings) (rev s))"

definition trim :: "string \<Rightarrow> string" where
  "trim s = trim_end (trim_start s)"

text \<open>\<open>str::split_whitespace\<close>: the maximal runs between white-space code points.\<close>

function split_ws_from :: "string \<Rightarrow> string \<Rightarrow> string list" where
  "split_ws_from acc s =
     (case find (\<lambda>w. w \<noteq> [] \<and> prefix w s) ws_encodings of
        Some w \<Rightarrow> (if acc = [] then [] else [acc]) @ split_ws_from [] (drop (length w) s)
      | None \<Rightarrow> (case s of [] \<Rightarrow> (if acc = [] then [] else [acc])
                | c # r \<Rightarrow> split_ws_from (acc @ [c]) r))"
  by pat_completeness auto
termination
  by (relation "measure (\<lambda>(acc, s). length s)")
    (auto simp: find_Some_iff prefix_def)

declare split_ws_from.simps [simp del]

definition split_whitespace :: "string \<Rightarrow> string list" where
  "split_whitespace s = split_ws_from [] s"

lemma strip_any_stop: "(\<And>w. w \<in> set ps \<Longrightarrow> w \<noteq> [] \<Longrightarrow> \<not> prefix w s) \<Longrightarrow> strip_any ps s = s"
  by (subst strip_any.simps) (auto simp: find_Some_iff split: option.splits)

lemma strip_any_fixed: "find (\<lambda>w. w \<noteq> [] \<and> prefix w (strip_any ps s)) ps = None"
proof (induction ps s rule: strip_any.induct)
  case (1 ps s)
  then show ?case
    by (cases "find (\<lambda>w. w \<noteq> [] \<and> prefix w s) ps") (simp_all add: strip_any.simps [of ps s])
qed

lemma strip_any_idem: "strip_any ps (strip_any ps s) = strip_any ps s"
  using strip_any_fixed [of ps s] by (subst strip_any.simps) simp

lemma strip_any_suffix: "suffix (strip_any ps s) s"
proof (induction ps s rule: strip_any.induct)
  case (1 ps s)
  show ?case
  proof (cases "find (\<lambda>w. w \<noteq> [] \<and> prefix w s) ps")
    case None
    then show ?thesis by (simp add: strip_any.simps [of ps s])
  next
    case (Some w)
    with 1 have "suffix (strip_any ps (drop (length w) s)) (drop (length w) s)" by simp
    then have "suffix (strip_any ps (drop (length w) s)) s"
      using suffix_drop suffix_order.trans by blast
    with Some show ?thesis by (simp add: strip_any.simps [of ps s])
  qed
qed

lemma ws_hd_not_graphic: "w \<in> set ws_encodings \<Longrightarrow> w \<noteq> [] \<and> \<not> is_graphic (hd w) \<and> \<not> is_graphic (last w)"
  by (auto simp: ws_encodings_def is_graphic_def)

lemma trim_start_graphic: "s = [] \<or> is_graphic (hd s) \<Longrightarrow> trim_start s = s"
proof -
  assume a: "s = [] \<or> is_graphic (hd s)"
  have "\<not> prefix w s" if "w \<in> set ws_encodings" for w
    using ws_hd_not_graphic [OF that] a by (cases s; cases w) auto
  then show ?thesis unfolding trim_start_def by (intro strip_any_stop) auto
qed

lemma trim_end_graphic: "s = [] \<or> is_graphic (last s) \<Longrightarrow> trim_end s = s"
proof -
  assume a: "s = [] \<or> is_graphic (last s)"
  have "\<not> prefix w (rev s)" if "w \<in> set (map rev ws_encodings)" for w
  proof -
    from that obtain v where v: "v \<in> set ws_encodings" "w = rev v" by auto
    show ?thesis
      using ws_hd_not_graphic [OF v(1)] a v(2)
      by (cases s rule: rev_cases; cases v rule: rev_cases) auto
  qed
  then have "strip_any (map rev ws_encodings) (rev s) = rev s" by (intro strip_any_stop) auto
  then show ?thesis by (simp add: trim_end_def)
qed

lemma trim_graphic: "s = [] \<or> is_graphic (hd s) \<and> is_graphic (last s) \<Longrightarrow> trim s = s"
  by (auto simp: trim_def trim_start_graphic trim_end_graphic)

lemma trim_all_graphic: "\<forall>c \<in> set s. is_graphic c \<Longrightarrow> trim s = s"
  by (cases "s = []") (auto intro!: trim_graphic)

lemma trim_leading_space:
  assumes "s = [] \<or> is_graphic (hd s) \<and> is_graphic (last s)"
  shows "trim (CHR '' '' # s) = s"
proof -
  have "find (\<lambda>w. w \<noteq> [] \<and> prefix w (CHR '' '' # s)) ws_encodings = Some [CHR '' '']"
    by (simp add: ws_encodings_def)
  then have "trim_start (CHR '' '' # s) = trim_start s"
    by (simp add: trim_start_def strip_any.simps [of _ "CHR '' '' # s"])
  then show ?thesis using assms by (auto simp: trim_def trim_start_graphic trim_end_graphic)
qed

section \<open>Decimal numbers\<close>

definition digit_val :: "char \<Rightarrow> nat" where
  "digit_val c = byte c - 48"

definition digit_char :: "nat \<Rightarrow> char" where
  "digit_char d = char_of (48 + d)"

definition dec_val :: "string \<Rightarrow> nat" where
  "dec_val s = foldl (\<lambda>n c. 10 * n + digit_val c) 0 s"

fun show_nat :: "nat \<Rightarrow> string" where
  "show_nat n = (if n < 10 then [digit_char n] else show_nat (n div 10) @ [digit_char (n mod 10)])"

declare show_nat.simps [simp del]

definition show_int :: "int \<Rightarrow> string" where
  "show_int i = (if i < 0 then CHR ''-'' # show_nat (nat (- i)) else show_nat (nat i))"

text \<open>
  \<open>FromStr\<close> for the unsigned integers: an optional \<open>+\<close>, then at least one digit,
  and \<open>None\<close> when the value reaches \<open>bound\<close> (\<open>2 ^ 16\<close> for \<open>u16\<close>). Leading
  zeros are accepted.
\<close>

definition parse_uint :: "nat \<Rightarrow> string \<Rightarrow> nat option" where
  "parse_uint bound s =
     (let ds = (case s of [] \<Rightarrow> [] | c # r \<Rightarrow> if c = CHR ''+'' then r else s)
      in if ds \<noteq> [] \<and> list_all is_digit ds \<and> dec_val ds < bound then Some (dec_val ds) else None)"

definition parse_u16 :: "string \<Rightarrow> u16 option" where
  "parse_u16 s = map_option of_nat (parse_uint (2 ^ 16) s)"

definition parse_usize :: "string \<Rightarrow> nat option" where
  "parse_usize s = parse_uint (2 ^ 64) s"

text \<open>\<open>i64::from_str\<close> on a text that is an optional \<open>-\<close> and digits.\<close>

definition parse_i64 :: "string \<Rightarrow> int option" where
  "parse_i64 s =
     (let neg = (s \<noteq> [] \<and> hd s = CHR ''-'');
          ds = (if s \<noteq> [] \<and> (hd s = CHR ''-'' \<or> hd s = CHR ''+'') then tl s else s);
          v = (if neg then - int (dec_val ds) else int (dec_val ds))
      in if ds \<noteq> [] \<and> list_all is_digit ds \<and> - (2 ^ 63) \<le> v \<and> v < 2 ^ 63 then Some v else None)"

lemma digit_val_char [simp]: "d < 10 \<Longrightarrow> digit_val (digit_char d) = d"
  by (simp add: digit_val_def digit_char_def)

lemma is_digit_digit_char [simp]: "d < 10 \<Longrightarrow> is_digit (digit_char d)"
  by (simp add: is_digit_def digit_char_def)

lemma digit_char_val [simp]: "is_digit c \<Longrightarrow> digit_char (digit_val c) = c"
  by (simp add: is_digit_def digit_char_def digit_val_def)

lemma digit_val_less [simp]: "is_digit c \<Longrightarrow> digit_val c < 10"
  unfolding is_digit_def digit_val_def by linarith

lemma digit_char_0: "digit_char 0 = CHR ''0''"
  by (simp add: digit_char_def)

lemma digit_chars [str_simps]:
  "digit_char 0 = CHR ''0''" "digit_char 1 = CHR ''1''" "digit_char 2 = CHR ''2''"
  "digit_char 3 = CHR ''3''" "digit_char 4 = CHR ''4''" "digit_char 5 = CHR ''5''"
  "digit_char 6 = CHR ''6''" "digit_char 7 = CHR ''7''" "digit_char 8 = CHR ''8''"
  "digit_char 9 = CHR ''9''" "digit_char (Suc 0) = CHR ''1''"
  by (simp_all add: digit_char_def)

lemma dec_val_snoc [simp]: "dec_val (s @ [c]) = 10 * dec_val s + digit_val c"
  by (simp add: dec_val_def)

lemma dec_val_Nil [simp]: "dec_val [] = 0"
  by (simp add: dec_val_def)

lemma show_nat_ne [simp]: "show_nat n \<noteq> []"
  by (subst show_nat.simps) simp

lemma show_nat_digits: "list_all is_digit (show_nat n)"
proof (induction n rule: show_nat.induct)
  case (1 n)
  then show ?case by (subst show_nat.simps) auto
qed

lemma set_show_nat: "c \<in> set (show_nat n) \<Longrightarrow> is_digit c"
  using show_nat_digits by (simp add: list_all_iff)

lemma dec_val_show_nat [simp]: "dec_val (show_nat n) = n"
proof (induction n rule: show_nat.induct)
  case (1 n)
  show ?case
  proof (cases "n < 10")
    case True
    then show ?thesis
      using dec_val_snoc [of "[]" "digit_char n"] by (simp add: show_nat.simps [of n])
  next
    case False
    with 1 have "dec_val (show_nat (n div 10)) = n div 10" by simp
    with False show ?thesis by (simp add: show_nat.simps [of n])
  qed
qed

lemma show_nat_inject [simp]: "show_nat m = show_nat n \<longleftrightarrow> m = n"
  by (metis dec_val_show_nat)

lemma not_digit_show_nat: "\<not> is_digit c \<Longrightarrow> c \<notin> set (show_nat n)"
  using set_show_nat by blast

lemma show_nat_hd: "is_digit (hd (show_nat n))"
  using set_show_nat [of "hd (show_nat n)" n] by simp

lemma show_nat_graphic: "\<forall>c \<in> set (show_nat n). is_graphic c"
  using set_show_nat is_digit_graphic by blast

lemma trim_show_nat [simp]: "trim (show_nat n) = show_nat n"
  by (rule trim_all_graphic) (rule show_nat_graphic)

lemma parse_uint_show_nat: "n < b \<Longrightarrow> parse_uint b (show_nat n) = Some n"
proof -
  assume "n < b"
  have "hd (show_nat n) \<noteq> CHR ''+''"
    using show_nat_hd [of n] by (auto simp: is_digit_def byte_def)
  then have "(case show_nat n of [] \<Rightarrow> [] | c # r \<Rightarrow> if c = CHR ''+'' then r else show_nat n) = show_nat n"
    by (cases "show_nat n") auto
  with \<open>n < b\<close> show ?thesis by (simp add: parse_uint_def show_nat_digits)
qed

lemma parse_uint_less: "parse_uint b s = Some n \<Longrightarrow> n < b"
  by (auto simp: parse_uint_def Let_def split: if_splits)

lemma parse_u16_show [simp]: "parse_u16 (show_nat (unat p)) = Some p"
  using parse_uint_show_nat [of "unat p" "2 ^ 16"] by (simp add: parse_u16_def)

text \<open>A text of digits without a leading zero is the printed form of its value.\<close>

lemma show_nat_dec_val:
  "ds \<noteq> [] \<Longrightarrow> list_all is_digit ds \<Longrightarrow> length ds = 1 \<or> hd ds \<noteq> CHR ''0'' \<Longrightarrow>
   show_nat (dec_val ds) = ds"
proof (induction ds rule: rev_induct)
  case Nil
  then show ?case by simp
next
  case (snoc c ds)
  show ?case
  proof (cases "ds = []")
    case True
    with snoc.prems show ?thesis
      using dec_val_snoc [of "[]" c] by (simp add: show_nat.simps)
  next
    case False
    with snoc.prems have lead: "hd ds \<noteq> CHR ''0''" and dig: "list_all is_digit ds" by auto
    have pos: "0 < dec_val ds"
    proof (rule ccontr)
      assume "\<not> 0 < dec_val ds"
      moreover have "show_nat (dec_val ds) = ds"
        using snoc.IH False dig lead by blast
      ultimately have "ds = [digit_char 0]" by (simp add: show_nat.simps)
      with lead show False by (simp add: digit_char_0)
    qed
    have "show_nat (dec_val ds) = ds" using snoc.IH False dig lead by blast
    with pos snoc.prems show ?thesis
      by (simp add: show_nat.simps [of "10 * dec_val ds + digit_val c"])
  qed
qed

section \<open>IPv4 addresses\<close>

datatype ipv4 = Ipv4 u8 u8 u8 u8

fun octets :: "ipv4 \<Rightarrow> u8 list" where
  "octets (Ipv4 a b c d) = [a, b, c, d]"

fun show_ipv4 :: "ipv4 \<Rightarrow> string" where
  "show_ipv4 (Ipv4 a b c d) =
     join ''.'' [show_nat (unat a), show_nat (unat b), show_nat (unat c), show_nat (unat d)]"

text \<open>
  One group of \<open>Ipv4Addr::from_str\<close>: one to three digits, no leading zero, at most 255.
\<close>

definition parse_octet :: "string \<Rightarrow> u8 option" where
  "parse_octet s =
     (if s \<noteq> [] \<and> list_all is_digit s \<and> length s \<le> 3 \<and> (length s = 1 \<or> hd s \<noteq> CHR ''0'') \<and>
         dec_val s \<le> 255
      then Some (of_nat (dec_val s)) else None)"

definition parse_ipv4 :: "string \<Rightarrow> ipv4 option" where
  "parse_ipv4 s =
     (case map parse_octet (split_by ((=) CHR ''.'') s) of
        [Some a, Some b, Some c, Some d] \<Rightarrow> Some (Ipv4 a b c d)
      | _ \<Rightarrow> None)"

lemma show_nat_len3: "n < 1000 \<Longrightarrow> length (show_nat n) \<le> 3"
  by (simp add: show_nat.simps [of n] show_nat.simps [of "n div 10"] show_nat.simps [of "n div 10 div 10"])

lemma show_nat_no_lead: "length (show_nat n) = 1 \<or> hd (show_nat n) \<noteq> CHR ''0''"
proof (induction n rule: show_nat.induct)
  case (1 n)
  show ?case
  proof (cases "n < 10")
    case True
    then show ?thesis by (simp add: show_nat.simps [of n])
  next
    case False
    show ?thesis
    proof (cases "length (show_nat (n div 10)) = 1")
      case True
      then have small: "n div 10 < 10"
        by (simp add: show_nat.simps [of "n div 10"] split: if_splits)
      moreover have "digit_char (n div 10) \<noteq> CHR ''0''"
        using False small digit_val_char [of "n div 10"] by (auto simp: digit_val_def byte_def)
      ultimately show ?thesis using False
        by (simp add: show_nat.simps [of n] show_nat.simps [of "n div 10"])
    next
      case len: False
      with 1 False show ?thesis by (simp add: show_nat.simps [of n])
    qed
  qed
qed

lemma parse_octet_show [simp]: "parse_octet (show_nat (unat a)) = Some a"
proof -
  have "unat a \<le> 255" using u8_less [of a] by linarith
  then show ?thesis
    using show_nat_no_lead [of "unat a"] show_nat_len3 [of "unat a"]
    by (simp add: parse_octet_def show_nat_digits)
qed

lemma parse_octet_canonical: "parse_octet s = Some a \<Longrightarrow> show_nat (unat a) = s"
proof -
  assume a: "parse_octet s = Some a"
  then have s: "s \<noteq> []" "list_all is_digit s" "length s = 1 \<or> hd s \<noteq> CHR ''0''" "dec_val s \<le> 255"
    "a = of_nat (dec_val s)" by (auto simp: parse_octet_def split: if_splits)
  then have "unat a = dec_val s" by (simp add: unat_of_nat)
  with show_nat_dec_val [OF s(1-3)] show ?thesis by simp
qed

lemma dot_not_digit: "CHR ''.'' \<notin> set (show_nat n)"
  by (rule not_digit_show_nat) (simp add: is_digit_def byte_def)

lemma split_show_ipv4:
  "split_by ((=) CHR ''.'') (show_ipv4 (Ipv4 a b c d)) =
     [show_nat (unat a), show_nat (unat b), show_nat (unat c), show_nat (unat d)]"
  unfolding show_ipv4.simps by (rule split_by_join) (auto simp: dot_not_digit)

lemma parse_show_ipv4 [simp]: "parse_ipv4 (show_ipv4 ip) = Some ip"
  by (cases ip) (simp only: parse_ipv4_def split_show_ipv4, simp)

lemma parse_ipv4_canonical:
  assumes "parse_ipv4 s = Some ip"
  shows "show_ipv4 ip = s"
proof -
  obtain a b c d where ip: "ip = Ipv4 a b c d" by (cases ip)
  from assms have m: "map parse_octet (split_by ((=) CHR ''.'') s) = [Some a, Some b, Some c, Some d]"
    unfolding parse_ipv4_def ip by (auto split: list.splits option.splits)
  then obtain p q r t where sp: "split_by ((=) CHR ''.'') s = [p, q, r, t]"
    and o: "parse_octet p = Some a" "parse_octet q = Some b" "parse_octet r = Some c" "parse_octet t = Some d"
    by auto
  have "show_ipv4 ip = join ''.'' (split_by ((=) CHR ''.'') s)"
    unfolding ip sp show_ipv4.simps using o by (simp add: parse_octet_canonical)
  then show ?thesis by (simp only: join_split_by)
qed

lemma show_ipv4_graphic: "\<forall>c \<in> set (show_ipv4 ip). is_graphic c"
proof -
  have "is_graphic CHR ''.''" by (simp add: is_graphic_def byte_def)
  then show ?thesis using show_nat_graphic by (cases ip) auto
qed

lemma set_show_ipv4: "c \<in> set (show_ipv4 ip) \<Longrightarrow> is_digit c \<or> c = CHR ''.''"
  by (cases ip) (auto dest: set_show_nat)

lemma show_ipv4_ne [simp]: "show_ipv4 ip \<noteq> []"
  by (cases ip) simp

end
