(* ===== verification/Text_Codec.thy ===== *)
theory Text_Codec
  imports Rust_Parse
begin

text \<open>
  The contract between a printer (\<open>Display\<close>) and a parser (\<open>FromStr\<close>): what is
  printed parses back. A canonical codec also accepts nothing but printed forms.
  Both are interfaces; the numbers and addresses of \<open>Rust_Parse\<close> are interpreted
  here, the program's own types in their theories.
\<close>

locale text_codec =
  fixes pretty :: "'a \<Rightarrow> string"
    and parse :: "string \<Rightarrow> 'a option"
  assumes parse_pretty: "parse (pretty x) = Some x"
begin

lemma pretty_inject: "pretty x = pretty y \<longleftrightarrow> x = y"
  by (metis option.inject parse_pretty)

lemma inj_pretty: "inj pretty"
  by (rule injI) (simp add: pretty_inject)

lemma range_pretty_parses: "s \<in> range pretty \<Longrightarrow> parse s \<noteq> None"
  by (auto simp: parse_pretty)

lemma map_parse_pretty: "map parse (map pretty xs) = map Some xs"
  by (simp add: parse_pretty)

end

locale canonical_codec = text_codec +
  assumes pretty_parse: "parse s = Some x \<Longrightarrow> pretty x = s"
begin

lemma parse_eq_Some: "parse s = Some x \<longleftrightarrow> s = pretty x"
  using parse_pretty pretty_parse by auto

lemma dom_parse: "dom parse = range pretty"
  by (auto simp: parse_eq_Some)

lemma parse_inj: "parse s = Some x \<Longrightarrow> parse t = Some x \<Longrightarrow> s = t"
  by (simp add: parse_eq_Some)

lemma parse_None: "parse s = None \<longleftrightarrow> s \<notin> range pretty"
  using dom_parse by blast

end

interpretation ipv4: canonical_codec show_ipv4 parse_ipv4
  by unfold_locales (auto simp: parse_ipv4_canonical)

interpretation u8_dec: canonical_codec "\<lambda>w. show_nat (unat w)" parse_octet
  by unfold_locales (auto simp: parse_octet_canonical)

interpretation u16_dec: text_codec "\<lambda>w. show_nat (unat w)" parse_u16
  by unfold_locales simp

end
