(* ===== verification/Protocol_Model.thy ===== *)
theory Protocol_Model
  imports Text_Codec
begin

text \<open>
  Protocols and anonymity levels (\<open>src/proxy/models.rs\<close>, error type of
  \<open>src/error.rs\<close>): the rank of a level, the printed form of a protocol and the
  parser of the type syntax (\<open>HTTP:Elite\<close>, \<open>CONNECT:25\<close>).
\<close>

datatype anonymity = Elite | Transparent | Anonymous | Unknown

fun rank :: "anonymity \<Rightarrow> nat" where
  "rank Transparent = 0"
| "rank Anonymous = 1"
| "rank Elite = 2"
| "rank Unknown = 3"

text \<open>The code orders levels by their rank.\<close>

lemma rank_inject [simp]: "rank a = rank b \<longleftrightarrow> a = b"
  by (cases a; cases b) auto

instantiation anonymity :: linorder
begin

definition less_eq_anonymity :: "anonymity \<Rightarrow> anonymity \<Rightarrow> bool" where
  "less_eq_anonymity a b \<longleftrightarrow> rank a \<le> rank b"

definition less_anonymity :: "anonymity \<Rightarrow> anonymity \<Rightarrow> bool" where
  "less_anonymity a b \<longleftrightarrow> rank a < rank b"

instance
  by standard (auto simp: less_eq_anonymity_def less_anonymity_def)

end

lemma rank_le_3: "rank a \<le> 3"
  by (cases a) auto

lemma Unknown_greatest: "a \<le> Unknown"
  by (simp add: less_eq_anonymity_def rank_le_3)

datatype protocol = Http anonymity | Https anonymity | Socks4 | Socks5 | Connect u16

datatype protocol_parse_error =
    UnknownProtocol string
  | UnknownAnonymity string
  | InvalidConnectPort string

section \<open>Printing\<close>

fun show_protocol :: "protocol \<Rightarrow> string" where
  "show_protocol (Http Unknown) = ''HTTP''"
| "show_protocol (Http Elite) = ''HTTP: Elite''"
| "show_protocol (Http Transparent) = ''HTTP: Transparent''"
| "show_protocol (Http Anonymous) = ''HTTP: Anonymous''"
| "show_protocol (Https Unknown) = ''HTTPS''"
| "show_protocol (Https Elite) = ''HTTPS: Elite''"
| "show_protocol (Https Transparent) = ''HTTPS: Transparent''"
| "show_protocol (Https Anonymous) = ''HTTPS: Anonymous''"
| "show_protocol Socks4 = ''SOCKS4''"
| "show_protocol Socks5 = ''SOCKS5''"
| "show_protocol (Connect port) = ''CONNECT:'' @ show_nat (unat port)"

section \<open>Parsing\<close>

definition parse_anonymity :: "string option \<Rightarrow> protocol_parse_error + anonymity" where
  "parse_anonymity qualifier =
     (case map_option trim qualifier of
        None \<Rightarrow> Inr Unknown
      | Some level \<Rightarrow>
          if level = [] then Inr Unknown
          else if eq_ignore_case level ''transparent'' then Inr Transparent
          else if eq_ignore_case level ''anonymous'' then Inr Anonymous
          else if eq_ignore_case level ''elite'' then Inr Elite
          else Inl (UnknownAnonymity level))"

definition parse_protocol :: "string \<Rightarrow> protocol_parse_error + protocol" where
  "parse_protocol s =
     (let parts = split_by ((=) CHR '':'') s;
          head = hd parts;
          next_part = (case tl parts of [] \<Rightarrow> None | q # _ \<Rightarrow> Some q)
      in if head = ''HTTP'' then res_bind (parse_anonymity next_part) (\<lambda>a. Inr (Http a))
         else if head = ''HTTPS'' then res_bind (parse_anonymity next_part) (\<lambda>a. Inr (Https a))
         else if head = ''SOCKS4'' then Inr Socks4
         else if head = ''SOCKS5'' then Inr Socks5
         else if head = ''CONNECT''
           then (case Option.bind next_part parse_u16 of
                   Some port \<Rightarrow> Inr (Connect port)
                 | None \<Rightarrow> Inl (InvalidConnectPort s))
         else Inl (UnknownProtocol s))"

definition parse_protocol_opt :: "string \<Rightarrow> protocol option" where
  "parse_protocol_opt s = (case parse_protocol s of Inl _ \<Rightarrow> None | Inr p \<Rightarrow> Some p)"

section \<open>Round trips\<close>

lemma parse_anonymity_lower:
  "lower (trim q) = lower (trim q') \<Longrightarrow> trim q \<noteq> [] \<Longrightarrow> parse_anonymity (Some q) = Inr a \<Longrightarrow>
   parse_anonymity (Some q') = Inr a"
  by (auto simp: parse_anonymity_def eq_ignore_case_def lower_def split: if_splits)

lemma parse_anonymity_space:
  "w \<noteq> [] \<Longrightarrow> is_graphic (hd w) \<Longrightarrow> is_graphic (last w) \<Longrightarrow>
   parse_anonymity (Some (CHR '' '' # w)) = parse_anonymity (Some w)"
  by (simp add: parse_anonymity_def trim_leading_space trim_graphic)

lemma parse_level_names [simp]:
  "parse_anonymity (Some ''Elite'') = Inr Elite"
  "parse_anonymity (Some ''Transparent'') = Inr Transparent"
  "parse_anonymity (Some ''Anonymous'') = Inr Anonymous"
  by (simp_all add: parse_anonymity_def trim_graphic is_graphic_def eq_ignore_case_def lower_def
      lower_char_def)

lemma parse_level_names_spaced [simp]:
  "parse_anonymity (Some '' Elite'') = Inr Elite"
  "parse_anonymity (Some '' Transparent'') = Inr Transparent"
  "parse_anonymity (Some '' Anonymous'') = Inr Anonymous"
  by (simp_all add: parse_anonymity_space is_graphic_def)

lemma parse_anonymity_None [simp]: "parse_anonymity None = Inr Unknown"
  by (simp add: parse_anonymity_def)

lemma split_connect:
  "split_by ((=) CHR '':'') (''CONNECT:'' @ show_nat n) = [''CONNECT'', show_nat n]"
proof -
  have "split_by ((=) CHR '':'') (''CONNECT'' @ CHR '':'' # show_nat n) =
      ''CONNECT'' # split_by ((=) CHR '':'') (show_nat n)"
    by (rule split_by_append) auto
  moreover have "\<not> is_digit CHR '':''" by (simp add: is_digit_def)
  then have "split_by ((=) CHR '':'') (show_nat n) = [show_nat n]"
    using not_digit_show_nat by (intro split_by_none) auto
  ultimately show ?thesis by simp
qed

lemma parse_show_protocol: "parse_protocol (show_protocol p) = Inr p"
proof (cases p)
  case (Http a)
  then show ?thesis by (cases a) (simp_all add: parse_protocol_def)
next
  case (Https a)
  then show ?thesis by (cases a) (simp_all add: parse_protocol_def)
next
  case (Connect port)
  then show ?thesis
    using split_connect [of "unat port"] by (simp add: parse_protocol_def del: append_Cons)
qed (simp_all add: parse_protocol_def)

interpretation protocol: text_codec show_protocol parse_protocol_opt
  by unfold_locales (simp add: parse_protocol_opt_def parse_show_protocol)

end
