(* ===== verification/Parsers_Text.thy ===== *)
theory Parsers_Text
  imports Protocol_Model
begin

text \<open>
  The text-level parsers of \<open>src/providers/parsers.rs\<close>: protocol labels, anonymity
  labels, ports and the \<open>ip:port\<close> rows of plain-text feeds, with the visitor loop
  over the lines of a body.
\<close>

section \<open>Labels and ports\<close>

definition protocol_from_str :: "string \<Rightarrow> protocol option" where
  "protocol_from_str raw =
     (let r = lower (trim raw)
      in if r = ''http'' then Some (Http Unknown)
         else if r = ''https'' \<or> r = ''ssl'' then Some (Https Unknown)
         else if r = ''socks4'' then Some Socks4
         else if r = ''socks5'' then Some Socks5
         else None)"

definition anonymity_from_str :: "string \<Rightarrow> anonymity" where
  "anonymity_from_str raw =
     (let r = lower (trim raw)
      in if contains r ''elite'' \<or> contains r ''high'' then Elite
         else if contains r ''anonymous'' then Anonymous
         else if contains r ''transparent'' then Transparent
         else Unknown)"

definition valid_port :: "u16 \<Rightarrow> u16 option" where
  "valid_port port = (if port \<noteq> 0 then Some port else None)"

definition decode_plain_ip :: "string \<Rightarrow> ipv4 option" where
  "decode_plain_ip raw = parse_ipv4 (trim raw)"

definition parse_port :: "string \<Rightarrow> u16 option" where
  "parse_port text =
     (let trimmed = trim text
      in case parse_u16 trimmed of
           Some port \<Rightarrow> valid_port port
         | None \<Rightarrow>
             (case split_whitespace trimmed of
                [] \<Rightarrow> None
              | ws \<Rightarrow> Option.bind (parse_u16 (trim (last ws))) valid_port))"

section \<open>Rows\<close>

definition row_end :: "char \<Rightarrow> bool" where
  "row_end c \<longleftrightarrow> c \<in> {CHR '' '', char_of (9 :: nat), CHR ''#'', CHR '','', CHR ''|''}"

definition parse_pair :: "string \<Rightarrow> (ipv4 \<times> u16) option" where
  "parse_pair text =
     (let head = trim (hd (split_by row_end (trim text)));
          host = trim (case split_once_str ''//'' head of
                     Some (scheme, rest) \<Rightarrow>
                       if suffix '':'' scheme
                       then hd (split_by (\<lambda>c. c = CHR ''/'' \<or> c = CHR ''?'') rest)
                       else scheme
                   | None \<Rightarrow> head)
      in case split_by ((=) CHR '':'') host of
           ip_text # port_text # _ \<Rightarrow>
             Option.bind (parse_ipv4 (trim ip_text)) (\<lambda>ip.
               Option.bind (Option.bind (parse_u16 (trim port_text)) valid_port) (\<lambda>port.
                 Some (ip, port)))
         | _ \<Rightarrow> None)"

type_synonym parsed_proxy = "ipv4 \<times> u16 \<times> protocol option"

text \<open>
  A visitor is a function on its own state that says whether to go on; the loop stops
  at the first row it refuses.
\<close>

fun visit_rows :: "('s \<Rightarrow> 'r \<Rightarrow> 's \<times> bool) \<Rightarrow> 's \<Rightarrow> 'r list \<Rightarrow> 's" where
  "visit_rows visit st [] = st"
| "visit_rows visit st (row # rows) =
     (case visit st row of (st', go) \<Rightarrow> if go then visit_rows visit st' rows else st')"

text \<open>\<open>str::lines\<close>: split at line feeds, a final empty line and a carriage return before
  the line feed dropped.\<close>

definition strip_cr :: "string \<Rightarrow> string" where
  "strip_cr l = (if l \<noteq> [] \<and> last l = char_of (13 :: nat) then butlast l else l)"

definition lines_of :: "string \<Rightarrow> string list" where
  "lines_of body =
     (let ls = split_by ((=) (char_of (10 :: nat))) body
      in map strip_cr (butlast ls) @ (if last ls = [] then [] else [last ls]))"

definition strip_bom :: "string \<Rightarrow> string" where
  "strip_bom body =
     (case strip_prefix (map char_of [239 :: nat, 187, 191]) body of Some r \<Rightarrow> r | None \<Rightarrow> body)"

definition plaintext_rows :: "string \<Rightarrow> parsed_proxy list" where
  "plaintext_rows body =
     List.map_filter (\<lambda>line. map_option (\<lambda>(ip, port). (ip, port, None)) (parse_pair line))
       (lines_of (strip_bom body))"

definition visit_plaintext :: "string \<Rightarrow> ('s \<Rightarrow> parsed_proxy \<Rightarrow> 's \<times> bool) \<Rightarrow> 's \<Rightarrow> 's" where
  "visit_plaintext body visit st = visit_rows visit st (plaintext_rows body)"

section \<open>What a row parser accepts\<close>

lemma protocol_from_str_cases:
  "protocol_from_str raw = Some p \<Longrightarrow> p \<in> {Http Unknown, Https Unknown, Socks4, Socks5}"
  by (auto simp: protocol_from_str_def Let_def split: if_splits)

lemma valid_port_Some [simp]: "valid_port p = Some q \<longleftrightarrow> p = q \<and> p \<noteq> 0"
  by (auto simp: valid_port_def)

lemma parse_port_nonzero: "parse_port text = Some p \<Longrightarrow> p \<noteq> 0"
  by (auto simp: parse_port_def Let_def split: option.splits list.splits bind_splits)

lemma parse_pair_port: "parse_pair text = Some (ip, port) \<Longrightarrow> port \<noteq> 0"
  by (auto simp: parse_pair_def Let_def split: list.splits bind_splits)

definition show_endpoint :: "ipv4 \<Rightarrow> u16 \<Rightarrow> string" where
  "show_endpoint ip port = show_ipv4 ip @ '':'' @ show_nat (unat port)"

lemma set_show_endpoint:
  "c \<in> set (show_endpoint ip port) \<Longrightarrow> is_digit c \<or> c = CHR ''.'' \<or> c = CHR '':''"
  by (auto simp: show_endpoint_def dest: set_show_ipv4 set_show_nat)

lemma show_endpoint_graphic: "\<forall>c \<in> set (show_endpoint ip port). is_graphic c"
  using set_show_endpoint is_digit_graphic
  by (fastforce simp: is_graphic_def)

lemma show_endpoint_ne [simp]: "show_endpoint ip port \<noteq> []"
  by (simp add: show_endpoint_def)

lemma endpoint_no_at: "CHR ''@'' \<notin> set (show_endpoint ip port)"
  using set_show_endpoint [of "CHR ''@''"] by (auto simp: is_digit_def)

lemma endpoint_no_row_end: "\<forall>c \<in> set (show_endpoint ip port). \<not> row_end c"
  using set_show_endpoint by (fastforce simp: row_end_def is_digit_def)

lemma split_endpoint:
  "split_by ((=) CHR '':'') (show_endpoint ip port) = [show_ipv4 ip, show_nat (unat port)]"
proof -
  have colon: "\<not> is_digit CHR '':''" by (simp add: is_digit_def)
  have "split_by ((=) CHR '':'') (show_ipv4 ip @ CHR '':'' # show_nat (unat port)) =
      show_ipv4 ip # split_by ((=) CHR '':'') (show_nat (unat port))"
    using set_show_ipv4 [of "CHR '':''" ip] colon by (intro split_by_append) auto
  moreover have "split_by ((=) CHR '':'') (show_nat (unat port)) = [show_nat (unat port)]"
    using not_digit_show_nat [OF colon] by (intro split_by_none) auto
  ultimately show ?thesis by (simp add: show_endpoint_def)
qed

lemma parse_pair_endpoint:
  assumes "port \<noteq> 0"
  shows "parse_pair (show_endpoint ip port) = Some (ip, port)"
proof -
  have t: "trim (show_endpoint ip port) = show_endpoint ip port"
    by (rule trim_all_graphic) (rule show_endpoint_graphic)
  have r: "split_by row_end (show_endpoint ip port) = [show_endpoint ip port]"
    by (rule split_by_none) (rule endpoint_no_row_end)
  have "CHR ''/'' \<notin> set (show_endpoint ip port)"
    using set_show_endpoint [of "CHR ''/''"] by (auto simp: is_digit_def)
  then have s: "split_once_str ''//'' (show_endpoint ip port) = None"
    by (rule split_once_str_none)
  have i: "trim (show_ipv4 ip) = show_ipv4 ip"
    by (rule trim_all_graphic) (rule show_ipv4_graphic)
  show ?thesis
    using assms by (simp add: parse_pair_def t r s split_endpoint i valid_port_def)
qed

text \<open>
  Soundness: the address comes from a dotted quad that stands in the row as it is, so no
  row is read as an address it does not contain.
\<close>

lemma trim_sublist: "sublist (trim s) s"
proof -
  have e: "prefix (trim_end s) s" for s
    using strip_any_suffix [of "map rev ws_encodings" "rev s"]
    by (simp add: trim_end_def suffix_to_prefix)
  have "suffix (trim_start s) s" by (simp add: trim_start_def strip_any_suffix)
  with e [of "trim_start s"] show ?thesis
    by (auto simp: trim_def intro: sublist_order.order_trans)
qed

lemma split_by_sublist: "w \<in> set (split_by p s) \<Longrightarrow> sublist w s"
proof (induction s arbitrary: w)
  case Nil
  then show ?case by simp
next
  case (Cons c s)
  obtain v vs where sp: "split_by p s = v # vs" by (cases "split_by p s") auto
  have "prefix v s"
    using hd_split_by [of p s] sp by (simp add: takeWhile_is_prefix)
  then have "sublist (c # v) (c # s)" by (simp add: prefix_imp_sublist)
  moreover have "sublist u (c # s)" if "u \<in> set (split_by p s)" for u
    using Cons.IH [OF that] by (simp add: sublist_Cons_right)
  ultimately show ?case using Cons.prems sp by (auto split: if_splits)
qed

lemma parse_pair_sound:
  assumes "parse_pair text = Some (ip, port)"
  shows "sublist (show_ipv4 ip) text"
proof -
  define head where "head = trim (hd (split_by row_end (trim text)))"
  define core where "core = (case split_once_str ''//'' head of
      Some (scheme, rest) \<Rightarrow>
        if suffix '':'' scheme then hd (split_by (\<lambda>c. c = CHR ''/'' \<or> c = CHR ''?'') rest)
        else scheme
    | None \<Rightarrow> head)"
  obtain ip_text port_text more where fields: "split_by ((=) CHR '':'') (trim core) = ip_text # port_text # more"
    and ip: "parse_ipv4 (trim ip_text) = Some ip"
    using assms unfolding parse_pair_def Let_def head_def [symmetric] core_def [symmetric]
    by (auto split: list.splits bind_splits)
  have "sublist (hd (split_by row_end (trim text))) (trim text)"
    by (rule split_by_sublist) (rule hd_in_set [OF split_by_ne])
  then have h: "sublist head text"
    unfolding head_def using trim_sublist sublist_order.order_trans by blast
  have c: "sublist core head"
  proof (cases "split_once_str ''//'' head")
    case None
    then show ?thesis by (simp add: core_def)
  next
    case (Some p)
    obtain scheme rest where p: "p = (scheme, rest)" by (cases p)
    from Some p obtain i where i: "scheme = take i head" "rest = drop (i + 2) head"
      by (auto simp: split_once_str_def)
    have "sublist (hd (split_by (\<lambda>c. c = CHR ''/'' \<or> c = CHR ''?'') rest)) rest"
      by (rule split_by_sublist) (rule hd_in_set [OF split_by_ne])
    moreover have "sublist rest head" "sublist scheme head"
      unfolding i by (auto intro: suffix_imp_sublist suffix_drop prefix_imp_sublist take_is_prefix)
    ultimately show ?thesis
      using Some p by (auto simp: core_def intro: sublist_order.order_trans)
  qed
  have "sublist ip_text (trim core)"
    by (rule split_by_sublist [of _ "(=) CHR '':''"]) (simp add: fields)
  moreover have "show_ipv4 ip = trim ip_text"
    using ip by (rule parse_ipv4_canonical)
  ultimately show ?thesis
    using h c trim_sublist sublist_order.order_trans by metis
qed

lemma visit_rows_collect:
  "visit_rows (\<lambda>acc row. (acc @ [row], True)) acc rows = acc @ rows"
  by (induction rows arbitrary: acc) auto

text \<open>A visitor that takes at most \<open>n\<close> rows sees exactly the first \<open>n\<close>.\<close>

lemma visit_rows_limit:
  "length acc < n \<Longrightarrow>
   visit_rows (\<lambda>acc row. (acc @ [row], Suc (length acc) < n)) acc rows = acc @ take (n - length acc) rows"
proof (induction rows arbitrary: acc)
  case Nil
  then show ?case by simp
next
  case (Cons row rows)
  show ?case
  proof (cases "Suc (length acc) < n")
    case True
    with Cons.IH [of "acc @ [row]"] Cons.prems show ?thesis
      by (simp add: Suc_diff_Suc take_Cons')
  next
    case False
    with Cons.prems have "n - length acc = 1" by simp
    with False show ?thesis by (simp add: take_Cons')
  qed
qed

end
