(* ===== verification/Rust_F64.thy ===== *)
theory Rust_F64
  imports Complex_Main Flx_Prelude
begin

text \<open>
  IEEE double values as the program uses them: a finite value, the two infinities and
  NaN, with the comparison rules of IEEE 754 (NaN is unordered, every comparison with
  it is false). Rounding is abstracted: finite arithmetic is exact, so a statement
  about sums and quotients is about the exact values, and none of the theorems rests
  on how a particular result is rounded.
\<close>

datatype f64 = Fin real | PInf | NInf | NaN

datatype ordering = Less | Equal | Greater

fun reverse_ordering :: "ordering \<Rightarrow> ordering" where
  "reverse_ordering Less = Greater"
| "reverse_ordering Equal = Equal"
| "reverse_ordering Greater = Less"

lemma reverse_reverse_ordering [simp]: "reverse_ordering (reverse_ordering c) = c"
  by (cases c) auto

fun is_finite :: "f64 \<Rightarrow> bool" where
  "is_finite (Fin _) = True"
| "is_finite _ = False"

fun f_lt :: "f64 \<Rightarrow> f64 \<Rightarrow> bool" where
  "f_lt NaN _ = False"
| "f_lt _ NaN = False"
| "f_lt (Fin a) (Fin b) = (a < b)"
| "f_lt PInf _ = False"
| "f_lt _ NInf = False"
| "f_lt NInf _ = True"
| "f_lt (Fin _) PInf = True"

definition f_eq :: "f64 \<Rightarrow> f64 \<Rightarrow> bool" where
  "f_eq a b \<longleftrightarrow> a \<noteq> NaN \<and> a = b"

definition f_le :: "f64 \<Rightarrow> f64 \<Rightarrow> bool" where
  "f_le a b \<longleftrightarrow> f_lt a b \<or> f_eq a b"

definition partial_cmp :: "f64 \<Rightarrow> f64 \<Rightarrow> ordering option" where
  "partial_cmp a b =
     (if f_lt a b then Some Less else if f_lt b a then Some Greater
      else if f_eq a b then Some Equal else None)"

fun f_add :: "f64 \<Rightarrow> f64 \<Rightarrow> f64" where
  "f_add NaN _ = NaN"
| "f_add _ NaN = NaN"
| "f_add (Fin a) (Fin b) = Fin (a + b)"
| "f_add PInf NInf = NaN"
| "f_add NInf PInf = NaN"
| "f_add PInf _ = PInf"
| "f_add _ PInf = PInf"
| "f_add NInf _ = NInf"
| "f_add _ NInf = NInf"

text \<open>Division of a value by a positive count.\<close>

fun f_div_count :: "f64 \<Rightarrow> nat \<Rightarrow> f64" where
  "f_div_count (Fin a) n = Fin (a / real n)"
| "f_div_count x n = x"

lemma f_lt_irrefl [simp]: "\<not> f_lt a a"
  by (cases a) auto

lemma f_lt_asym: "f_lt a b \<Longrightarrow> \<not> f_lt b a"
  by (cases a; cases b) auto

lemma f_lt_trans: "f_lt a b \<Longrightarrow> f_lt b c \<Longrightarrow> f_lt a c"
  by (cases a; cases b; cases c) auto

lemma f_le_Fin [simp]: "f_le (Fin a) (Fin b) \<longleftrightarrow> a \<le> b"
  by (auto simp: f_le_def f_eq_def)

lemma f_le_NaN [simp]: "\<not> f_le NaN a" "\<not> f_le a NaN"
  by (cases a; simp add: f_le_def f_eq_def)+

lemma f_le_trans: "f_le a b \<Longrightarrow> f_le b c \<Longrightarrow> f_le a c"
  by (auto simp: f_le_def f_eq_def dest: f_lt_trans)

lemma f_le_total: "a \<noteq> NaN \<Longrightarrow> b \<noteq> NaN \<Longrightarrow> f_le a b \<or> f_le b a"
  by (cases a; cases b) (auto simp: f_le_def f_eq_def)

lemma f_lt_not_le: "a \<noteq> NaN \<Longrightarrow> b \<noteq> NaN \<Longrightarrow> \<not> f_lt b a \<longleftrightarrow> f_le a b"
  by (cases a; cases b) (auto simp: f_le_def f_eq_def)

lemma partial_cmp_None: "partial_cmp a b = None \<longleftrightarrow> a = NaN \<or> b = NaN"
  by (cases a; cases b) (auto simp: partial_cmp_def f_eq_def)

lemma partial_cmp_Fin [simp]:
  "partial_cmp (Fin a) (Fin b) = Some (if a < b then Less else if b < a then Greater else Equal)"
  by (simp add: partial_cmp_def f_eq_def)

end
