(* ===== verification/Proxy_Model.thy ===== *)
theory Proxy_Model
  imports Parsers_Text Rust_F64
begin

text \<open>
  The proxy endpoint of \<open>src/proxy/models.rs\<close>: response-time statistics, validated
  protocol entries, credentials, the GeoIP record of \<open>src/geolookup/models.rs\<close>, the
  health score carried along, the constructors and accessors, and the parser of
  \<open>scheme://user:pass@ip:port\<close>. Encoders outside \<open>src/\<close> (base64) are
  parameters, as is the clock.
\<close>

section \<open>Response-time statistics\<close>

record runtime_stats =
  rs_count :: "32 word"
  rs_total :: f64
  rs_min :: f64
  rs_max :: f64

definition stats_default :: runtime_stats where
  "stats_default = \<lparr>rs_count = 0, rs_total = Fin 0, rs_min = Fin 0, rs_max = Fin 0\<rparr>"

definition record_sample :: "runtime_stats \<Rightarrow> f64 \<Rightarrow> runtime_stats" where
  "record_sample s secs =
     (let s1 = s\<lparr>rs_count := rs_count s + 1, rs_total := f_add (rs_total s) secs\<rparr>;
          s2 = (if rs_count s1 = 1 \<or> f_lt secs (rs_min s1) then s1\<lparr>rs_min := secs\<rparr> else s1)
      in if f_lt (rs_max s2) secs then s2\<lparr>rs_max := secs\<rparr> else s2)"

definition stats_avg :: "runtime_stats \<Rightarrow> f64" where
  "stats_avg s = (if rs_count s = 0 then Fin 0 else f_div_count (rs_total s) (unat (rs_count s)))"

text \<open>
  What the statistics mean: for samples that are finite and not negative, fewer than
  \<open>2 ^ 32\<close> of them, the fields are the number, the sum, the least and the greatest.
\<close>

definition stats_of :: "real list \<Rightarrow> runtime_stats" where
  "stats_of xs = foldl record_sample stats_default (map Fin xs)"

lemma stats_of_snoc: "stats_of (xs @ [x]) = record_sample (stats_of xs) (Fin x)"
  by (simp add: stats_of_def)

lemma of_nat_word_inj32: "n < 2 ^ 32 \<Longrightarrow> unat (of_nat n :: 32 word) = n"
  by (simp add: unat_of_nat)

lemma stats_of_fields:
  assumes "length xs < 2 ^ 32" and "\<forall>x \<in> set xs. 0 \<le> x"
  shows "unat (rs_count (stats_of xs)) = length xs \<and> rs_total (stats_of xs) = Fin (sum_list xs) \<and>
    rs_max (stats_of xs) = Fin (Max (insert 0 (set xs))) \<and>
    (xs \<noteq> [] \<longrightarrow> rs_min (stats_of xs) = Fin (Min (set xs)))"
  using assms
proof (induction xs rule: rev_induct)
  case Nil
  then show ?case by (simp add: stats_of_def stats_default_def)
next
  case (snoc x xs)
  let ?s = "stats_of xs"
  from snoc have IH: "unat (rs_count ?s) = length xs" "rs_total ?s = Fin (sum_list xs)"
      "rs_max ?s = Fin (Max (insert 0 (set xs)))" "xs \<noteq> [] \<Longrightarrow> rs_min ?s = Fin (Min (set xs))"
    by auto
  have cnt: "rs_count ?s = of_nat (length xs)"
    by (simp flip: IH(1))
  have cnt': "unat (rs_count ?s + 1) = Suc (length xs)"
    using snoc.prems(1) of_nat_word_inj32 [of "Suc (length xs)"] by (simp add: cnt add.commute)
  have first: "rs_count ?s = 0 \<longleftrightarrow> xs = []"
    using IH(1) unat_eq_zero [of "rs_count ?s"] by simp
  have mx: "(if f_lt (rs_max ?s) (Fin x) then Fin x else rs_max ?s) = Fin (Max (insert 0 (set (xs @ [x]))))"
  proof -
    obtain M where M: "Max (insert 0 (set xs)) = M" by simp
    have "Max (insert 0 (set (xs @ [x]))) = Max (insert x (insert 0 (set xs)))"
      by (simp add: insert_commute del: Max_insert)
    also have "\<dots> = max x M" using Max_insert [of "insert 0 (set xs)" x] M by simp
    finally show ?thesis by (simp only: IH(3) M) (simp add: max_def)
  qed
  have mn: "(if rs_count ?s + 1 = 1 \<or> f_lt (Fin x) (rs_min ?s) then Fin x else rs_min ?s) =
      Fin (Min (set (xs @ [x])))"
  proof (cases "xs = []")
    case True
    then show ?thesis using first by simp
  next
    case False
    then obtain m where m: "Min (set xs) = m" by simp
    with False have "Min (set (xs @ [x])) = min x m" by simp
    with False m show ?thesis using first IH(4) by (simp add: min_def)
  qed
  show ?case
    using IH(2) cnt' mx mn by (auto simp: stats_of_snoc record_sample_def Let_def split: if_splits)
qed

lemma stats_avg_of:
  assumes "length xs < 2 ^ 32" and "\<forall>x \<in> set xs. 0 \<le> x" and "xs \<noteq> []"
  shows "stats_avg (stats_of xs) = Fin (sum_list xs / real (length xs))"
  using stats_of_fields [OF assms(1,2)] assms(3)
  by (auto simp: stats_avg_def)

lemma avg_bounds:
  fixes xs :: "real list"
  assumes "xs \<noteq> []"
  shows "Min (set xs) \<le> sum_list xs / real (length xs) \<and> sum_list xs / real (length xs) \<le> Max (set xs)"
proof -
  have "real (length xs) * Min (set xs) \<le> sum_list xs \<and> sum_list xs \<le> real (length xs) * Max (set xs)"
  proof -
    have "real (length ys) * Min (set xs) \<le> sum_list ys \<and> sum_list ys \<le> real (length ys) * Max (set xs)"
      if "set ys \<subseteq> set xs" for ys
      using that by (induction ys) (auto simp: algebra_simps intro!: add_mono)
    then show ?thesis by blast
  qed
  with assms show ?thesis by (simp add: field_simps)
qed

section \<open>Validated protocols, credentials, geodata\<close>

record proxy_type =
  pt_protocol :: protocol
  pt_checked :: bool
  pt_checked_on :: f64

definition proxy_type_new :: "protocol \<Rightarrow> proxy_type" where
  "proxy_type_new p = \<lparr>pt_protocol = p, pt_checked = False, pt_checked_on = Fin 0\<rparr>"

definition proxy_type_checked :: "f64 \<Rightarrow> protocol \<Rightarrow> proxy_type" where
  "proxy_type_checked now p = \<lparr>pt_protocol = p, pt_checked = True, pt_checked_on = now\<rparr>"

record proxy_auth =
  username :: string
  password :: string

definition basic_value :: "(string \<Rightarrow> string) \<Rightarrow> proxy_auth \<Rightarrow> string" where
  "basic_value b64_encode a = ''Basic '' @ b64_encode (username a @ '':'' @ password a)"

definition socks5_user_pass :: "proxy_auth \<Rightarrow> (string \<times> string) option" where
  "socks5_user_pass a =
     (if username a = [] \<or> length (username a) > 255 then None
      else if password a = [] \<or> length (password a) > 255 then None
      else Some (username a, password a))"

datatype ip_type = Residential | Datacenter | Mobile | UnknownIp

record geo_data =
  iso_code :: "string option"
  geo_name :: "string option"
  region_iso_code :: "string option"
  region_name :: "string option"
  city_name :: "string option"
  geo_asn :: "32 word option"
  geo_aso :: "string option"
  geo_ip_type :: ip_type
  continent_code :: "string option"
  continent_name :: "string option"
  latitude :: "f64 option"
  longitude :: "f64 option"
  timezone :: "string option"
  zip_code :: "string option"

definition geo_default :: geo_data where
  "geo_default =
     \<lparr>iso_code = None, geo_name = None, region_iso_code = None, region_name = None, city_name = None,
      geo_asn = None, geo_aso = None, geo_ip_type = UnknownIp, continent_code = None,
      continent_name = None, latitude = None, longitude = None, timezone = None, zip_code = None\<rparr>"

definition geo_is_empty :: "geo_data \<Rightarrow> bool" where
  "geo_is_empty g \<longleftrightarrow>
     iso_code g = None \<and> geo_name g = None \<and> region_iso_code g = None \<and> region_name g = None \<and>
     city_name g = None \<and> geo_asn g = None \<and> geo_aso g = None \<and> geo_ip_type g = UnknownIp \<and>
     continent_code g = None \<and> continent_name g = None \<and> latitude g = None \<and> longitude g = None \<and>
     timezone g = None \<and> zip_code g = None"

text \<open>Emptiness is equality with the default, so \<open>{}\<close> is rendered for no other record.\<close>

lemma geo_is_empty_iff: "geo_is_empty g \<longleftrightarrow> g = geo_default"
  by (cases g) (simp add: geo_is_empty_def geo_default_def)

record health_score =
  hs_reliability :: f64
  hs_speed :: f64
  hs_anonymity :: f64
  hs_total :: f64

section \<open>Proxies\<close>

record proxy =
  px_ip :: ipv4
  px_port :: u16
  px_geo :: geo_data
  px_runtimes :: runtime_stats
  expected_types :: "protocol list"
  proxy_types :: "proxy_type list"
  px_auth :: "proxy_auth option"
  px_score :: "health_score option"
  px_text :: string

definition proxy_new :: "ipv4 \<Rightarrow> u16 \<Rightarrow> proxy" where
  "proxy_new ip port =
     \<lparr>px_ip = ip, px_port = port, px_geo = geo_default, px_runtimes = stats_default,
      expected_types = [], proxy_types = [], px_auth = None, px_score = None,
      px_text = show_endpoint ip port\<rparr>"

definition with_expected_types :: "ipv4 \<Rightarrow> u16 \<Rightarrow> protocol list \<Rightarrow> proxy" where
  "with_expected_types ip port ts = (proxy_new ip port)\<lparr>expected_types := ts\<rparr>"

definition min_response_time :: "proxy \<Rightarrow> f64" where
  "min_response_time p = (if rs_count (px_runtimes p) = 0 then Fin 0 else rs_min (px_runtimes p))"

definition max_response_time :: "proxy \<Rightarrow> f64" where
  "max_response_time p = rs_max (px_runtimes p)"

definition avg_response_time :: "proxy \<Rightarrow> f64" where
  "avg_response_time p = stats_avg (px_runtimes p)"

definition validation_probe :: "proxy \<Rightarrow> proxy" where
  "validation_probe p =
     \<lparr>px_ip = px_ip p, px_port = px_port p, px_geo = px_geo p, px_runtimes = px_runtimes p,
      expected_types = [], proxy_types = [], px_auth = px_auth p, px_score = px_score p,
      px_text = px_text p\<rparr>"

text \<open>The cached text agrees with the address: every constructor sets it so.\<close>

definition proxy_wf :: "proxy \<Rightarrow> bool" where
  "proxy_wf p \<longleftrightarrow> px_text p = show_endpoint (px_ip p) (px_port p)"

lemma proxy_wf_new [inv_intros]: "proxy_wf (proxy_new ip port)"
  by (simp add: proxy_wf_def proxy_new_def)

lemma proxy_wf_updates [inv_intros]:
  "proxy_wf p \<Longrightarrow> proxy_wf (p\<lparr>expected_types := ts\<rparr>)"
  "proxy_wf p \<Longrightarrow> proxy_wf (p\<lparr>proxy_types := pts\<rparr>)"
  "proxy_wf p \<Longrightarrow> proxy_wf (p\<lparr>px_auth := a\<rparr>)"
  "proxy_wf p \<Longrightarrow> proxy_wf (p\<lparr>px_score := sc\<rparr>)"
  "proxy_wf p \<Longrightarrow> proxy_wf (p\<lparr>px_runtimes := r\<rparr>)"
  "proxy_wf p \<Longrightarrow> proxy_wf (validation_probe p)"
  by (simp_all add: proxy_wf_def validation_probe_def)

lemma show_endpoint_inject:
  "show_endpoint ip port = show_endpoint ip' port' \<longleftrightarrow> ip = ip' \<and> port = port'"
proof
  assume "show_endpoint ip port = show_endpoint ip' port'"
  then have "[show_ipv4 ip, show_nat (unat port)] = [show_ipv4 ip', show_nat (unat port')]"
    by (metis split_endpoint)
  then show "ip = ip' \<and> port = port'"
    using ipv4.pretty_inject u16_dec.pretty_inject [of port port'] by simp
qed simp

lemma proxy_text_key:
  "proxy_wf p \<Longrightarrow> proxy_wf q \<Longrightarrow> px_text p = px_text q \<longleftrightarrow> px_ip p = px_ip q \<and> px_port p = px_port q"
  by (simp add: proxy_wf_def show_endpoint_inject)

section \<open>Parsing a proxy\<close>

datatype proxy_parse_error = MissingSeparator string | InvalidIp string | InvalidPort string

definition split_scheme :: "string \<Rightarrow> string option \<times> string" where
  "split_scheme s =
     (case strip_prefix ''http://'' s of Some rest \<Rightarrow> (Some ''http'', rest)
      | None \<Rightarrow> (case strip_prefix ''https://'' s of Some rest \<Rightarrow> (Some ''https'', rest)
      | None \<Rightarrow> (case strip_prefix ''socks4://'' s of Some rest \<Rightarrow> (Some ''socks4'', rest)
      | None \<Rightarrow> (case strip_prefix ''socks5://'' s of Some rest \<Rightarrow> (Some ''socks5'', rest)
      | None \<Rightarrow> (None, s)))))"

definition split_userinfo :: "string \<Rightarrow> string \<Rightarrow> proxy_parse_error + (string option \<times> string)" where
  "split_userinfo s rest =
     (case rsplit_once CHR ''@'' rest of
        Some (userinfo, endpoint) \<Rightarrow>
          if userinfo \<noteq> [] then Inr (Some userinfo, endpoint) else Inl (MissingSeparator s)
      | None \<Rightarrow> Inr (None, rest))"

definition attach_auth :: "string \<Rightarrow> string option \<Rightarrow> proxy \<Rightarrow> proxy_parse_error + proxy" where
  "attach_auth s userinfo px =
     (case userinfo of
        None \<Rightarrow> Inr px
      | Some info \<Rightarrow>
          (case (case split_once CHR '':'' info of Some up \<Rightarrow> up | None \<Rightarrow> (info, [])) of
             (user, pass) \<Rightarrow>
               if user = [] then Inl (MissingSeparator s)
               else Inr (px\<lparr>px_auth := Some \<lparr>username = user, password = pass\<rparr>\<rparr>)))"

definition parse_proxy :: "string \<Rightarrow> proxy_parse_error + proxy" where
  "parse_proxy text =
     (let s = trim text
      in case split_scheme s of (scheme, rest) \<Rightarrow>
           res_bind (split_userinfo s rest)
             (\<lambda>(userinfo, endpoint).
                case parse_pair endpoint of
                  None \<Rightarrow> Inl (MissingSeparator s)
                | Some (ip, port) \<Rightarrow>
                    attach_auth s userinfo
                      (with_expected_types ip port
                         (case Option.bind scheme protocol_from_str of Some p \<Rightarrow> [p] | None \<Rightarrow> []))))"

lemma attach_auth_Inr:
  "attach_auth s userinfo px = Inr p \<Longrightarrow>
   p = px \<and> userinfo = None \<or>
   (\<exists>a. p = px\<lparr>px_auth := Some a\<rparr> \<and> username a \<noteq> [] \<and> userinfo \<noteq> None)"
  by (auto simp: attach_auth_def split: option.splits if_splits)

lemma attach_auth_Inl: "attach_auth s userinfo px = Inl e \<Longrightarrow> e = MissingSeparator s"
  by (auto simp: attach_auth_def split: option.splits if_splits)

lemma split_userinfo_Inl: "split_userinfo s rest = Inl e \<Longrightarrow> e = MissingSeparator s"
  by (auto simp: split_userinfo_def split: option.splits if_splits)

lemma parse_proxy_Inr:
  assumes "parse_proxy text = Inr p"
  obtains scheme rest userinfo endpoint ip port where
    "split_scheme (trim text) = (scheme, rest)" and "split_userinfo (trim text) rest = Inr (userinfo, endpoint)"
    and "parse_pair endpoint = Some (ip, port)"
    and "attach_auth (trim text) userinfo (with_expected_types ip port
           (case Option.bind scheme protocol_from_str of Some p \<Rightarrow> [p] | None \<Rightarrow> [])) = Inr p"
  using assms by (auto simp: parse_proxy_def Let_def res_bind_eq_Inr split: prod.splits option.splits)

datatype scheme = SHttp | SHttps | SSocks4 | SSocks5

fun scheme_text :: "scheme \<Rightarrow> string" where
  "scheme_text SHttp = ''http''"
| "scheme_text SHttps = ''https''"
| "scheme_text SSocks4 = ''socks4''"
| "scheme_text SSocks5 = ''socks5''"

fun scheme_protocol :: "scheme \<Rightarrow> protocol" where
  "scheme_protocol SHttp = Http Unknown"
| "scheme_protocol SHttps = Https Unknown"
| "scheme_protocol SSocks4 = Socks4"
| "scheme_protocol SSocks5 = Socks5"

lemma split_scheme_text: "split_scheme (scheme_text sc @ ''://'' @ r) = (Some (scheme_text sc), r)"
  by (cases sc) (simp_all add: split_scheme_def strip_prefix_def)

lemma scheme_text_protocol: "protocol_from_str (scheme_text sc) = Some (scheme_protocol sc)"
proof -
  have "\<forall>c \<in> set (scheme_text sc). is_graphic c" by (cases sc) (simp_all add: is_graphic_def)
  then have "trim (scheme_text sc) = scheme_text sc" by (rule trim_all_graphic)
  then show ?thesis
    by (cases sc) (simp_all add: protocol_from_str_def lower_def lower_char_def)
qed

lemma split_scheme_none:
  assumes "CHR ''/'' \<notin> set s"
  shows "split_scheme s = (None, s)"
  using assms by (auto simp: split_scheme_def strip_prefix_def prefix_def)

lemma last_show_endpoint: "is_graphic (last (show_endpoint ip port))"
  using show_endpoint_graphic [of ip port] last_in_set [OF show_endpoint_ne] by blast

lemma rsplit_at_endpoint:
  "rsplit_once CHR ''@'' (info @ ''@'' @ show_endpoint ip port) = Some (info, show_endpoint ip port)"
  by (simp add: rsplit_once_eq_Some endpoint_no_at)

lemma trim_url: "trim (scheme_text sc @ ''://'' @ r @ show_endpoint ip port) =
    scheme_text sc @ ''://'' @ r @ show_endpoint ip port"
proof (rule trim_graphic, rule disjI2, rule conjI)
  show "is_graphic (hd (scheme_text sc @ ''://'' @ r @ show_endpoint ip port))"
    by (cases sc) (simp_all add: is_graphic_def)
  show "is_graphic (last (scheme_text sc @ ''://'' @ r @ show_endpoint ip port))"
    by (simp add: last_show_endpoint)
qed

text \<open>A full proxy URL \<open>scheme://user:pass@ip:port\<close> parses to exactly the endpoint,
  the scheme's protocol and the two credentials it was written from, for any password
  (it may contain \<open>@\<close> and \<open>:\<close> or be empty) and any non-empty user name without a
  colon.\<close>

theorem parse_proxy_url:
  assumes "user \<noteq> []" and "CHR '':'' \<notin> set user" and "port \<noteq> 0"
  shows "parse_proxy (scheme_text sc @ ''://'' @ user @ '':'' @ pass @ ''@'' @ show_endpoint ip port) =
    Inr ((with_expected_types ip port [scheme_protocol sc])
           \<lparr>px_auth := Some \<lparr>username = user, password = pass\<rparr>\<rparr>)"
proof -
  let ?info = "user @ '':'' @ pass"
  have t: "trim (scheme_text sc @ ''://'' @ ?info @ ''@'' @ show_endpoint ip port) =
      scheme_text sc @ ''://'' @ ?info @ ''@'' @ show_endpoint ip port"
    using trim_url [of sc "?info @ ''@''" ip port] by simp
  have c: "split_once CHR '':'' ?info = Some (user, pass)"
    using split_once_append [OF assms(2), of pass] by simp
  have "parse_proxy (scheme_text sc @ ''://'' @ ?info @ ''@'' @ show_endpoint ip port) =
    Inr ((with_expected_types ip port [scheme_protocol sc])
           \<lparr>px_auth := Some \<lparr>username = user, password = pass\<rparr>\<rparr>)"
    unfolding parse_proxy_def t split_scheme_text Let_def prod.case split_userinfo_def rsplit_at_endpoint
    using assms c by (simp add: parse_pair_endpoint scheme_text_protocol attach_auth_def)
  then show ?thesis by simp
qed

theorem parse_proxy_url_witness:
  "parse_proxy ''socks5://bob:p@ss:w@10.0.0.1:1080'' =
     Inr ((with_expected_types (Ipv4 10 0 0 1) 1080 [Socks5])
            \<lparr>px_auth := Some \<lparr>username = ''bob'', password = ''p@ss:w''\<rparr>\<rparr>)"
  using parse_proxy_url [of "''bob''" 1080 SSocks5 "''p@ss:w''" "Ipv4 10 0 0 1"]
  by (simp add: show_endpoint_def show_nat.simps str_simps)

lemma parse_proxy_bare:
  assumes "port \<noteq> 0"
  shows "parse_proxy (show_endpoint ip port) = Inr (proxy_new ip port)"
proof -
  have "trim (show_endpoint ip port) = show_endpoint ip port"
    by (rule trim_all_graphic) (rule show_endpoint_graphic)
  moreover have "CHR ''/'' \<notin> set (show_endpoint ip port)"
    using set_show_endpoint [of "CHR ''/''"] by (auto simp: is_digit_def)
  ultimately show ?thesis
    using assms by (simp add: parse_proxy_def split_scheme_none parse_pair_endpoint split_userinfo_def
        attach_auth_def endpoint_no_at with_expected_types_def proxy_new_def Let_def)
qed

text \<open>Every accepted text yields a well-formed proxy: a port that is not zero, the cached
  text equal to \<open>ip:port\<close>, at most one expected protocol and that one without an
  anonymity level, no validated types yet, and credentials with a non-empty user name.\<close>

theorem parse_proxy_accepts:
  assumes "parse_proxy s = Inr p"
  shows "proxy_wf p \<and> px_port p \<noteq> 0 \<and> proxy_types p = [] \<and>
    (expected_types p = [] \<or> (\<exists>t \<in> {Http Unknown, Https Unknown, Socks4, Socks5}. expected_types p = [t])) \<and>
    (\<forall>a. px_auth p = Some a \<longrightarrow> username a \<noteq> [])"
  using assms
proof (rule parse_proxy_Inr)
  fix scheme rest userinfo endpoint ip port
  let ?ts = "case Option.bind scheme protocol_from_str of Some p \<Rightarrow> [p] | None \<Rightarrow> []"
  assume pp: "parse_pair endpoint = Some (ip, port)"
    and at: "attach_auth (trim s) userinfo (with_expected_types ip port ?ts) = Inr p"
  obtain a where p: "p = (with_expected_types ip port ?ts)\<lparr>px_auth := a\<rparr>"
    and a: "\<forall>b. a = Some b \<longrightarrow> username b \<noteq> []"
    using attach_auth_Inr [OF at]
    by (cases "p = with_expected_types ip port ?ts")
      (force simp: with_expected_types_def proxy_new_def)+
  have "?ts = [] \<or> (\<exists>t \<in> {Http Unknown, Https Unknown, Socks4, Socks5}. ?ts = [t])"
    using protocol_from_str_cases by (cases "Option.bind scheme protocol_from_str") (auto split: bind_splits)
  moreover have "proxy_wf p"
    by (auto simp: p with_expected_types_def intro!: inv_intros)
  ultimately show ?thesis
    using a parse_pair_port [OF pp] by (simp add: p with_expected_types_def proxy_new_def)
qed

theorem parse_proxy_accepts_witness:
  "proxy_wf (proxy_new (Ipv4 10 0 0 1) 80) \<and> px_port (proxy_new (Ipv4 10 0 0 1) 80) \<noteq> 0"
proof -
  have "parse_proxy (show_endpoint (Ipv4 10 0 0 1) 80) = Inr (proxy_new (Ipv4 10 0 0 1) 80)"
    by (rule parse_proxy_bare) simp
  from parse_proxy_accepts [OF this] show ?thesis by simp
qed

text \<open>Every rejected text, whatever is wrong with it, is reported as
  \<open>MissingSeparator\<close> on the trimmed text; the error variants for a bad address or a
  bad port are never produced.\<close>

theorem parse_proxy_rejects:
  assumes "parse_proxy s = Inl e"
  shows "e = MissingSeparator (trim s)"
proof -
  obtain scheme rest where sc: "split_scheme (trim s) = (scheme, rest)" by (cases "split_scheme (trim s)")
  show ?thesis
  proof (cases "split_userinfo (trim s) rest")
    case (Inl e')
    then show ?thesis using assms split_userinfo_Inl by (auto simp: parse_proxy_def sc Let_def)
  next
    case (Inr x)
    then show ?thesis
      using assms attach_auth_Inl
      by (auto simp: parse_proxy_def sc Let_def split: prod.splits option.splits)
  qed
qed

theorem parse_proxy_rejects_witness:
  "parse_proxy ''@1.2.3.4:80'' = Inl (MissingSeparator (trim ''@1.2.3.4:80''))"
proof -
  have t: "trim ''@1.2.3.4:80'' = ''@1.2.3.4:80''"
    by (rule trim_all_graphic) (simp add: is_graphic_def)
  have "\<exists>e. parse_proxy ''@1.2.3.4:80'' = Inl e"
    by (simp add: parse_proxy_def t split_scheme_def strip_prefix_def split_userinfo_def rsplit_once_def split_once_def)
  then show ?thesis using parse_proxy_rejects by blast
qed

end
