(* ===== verification/Stable_Sort.thy ===== *)
theory Stable_Sort
  imports Rust_F64 "HOL-Library.Multiset"
begin

text \<open>
  \<open>slice::sort_by\<close> is a stable sort: for a comparator that is a total preorder on
  the elements its result is determined, and insertion computes it. The locale states
  what a comparator owes the sort; sortedness and stability are proved once inside it,
  and every comparator of the program is interpreted in its own theory.
\<close>

fun insert_by :: "('a \<Rightarrow> 'a \<Rightarrow> ordering) \<Rightarrow> 'a \<Rightarrow> 'a list \<Rightarrow> 'a list" where
  "insert_by cmp x [] = [x]"
| "insert_by cmp x (y # ys) = (if cmp x y \<noteq> Greater then x # y # ys else y # insert_by cmp x ys)"

definition sort_by :: "('a \<Rightarrow> 'a \<Rightarrow> ordering) \<Rightarrow> 'a list \<Rightarrow> 'a list" where
  "sort_by cmp xs = foldr (insert_by cmp) xs []"

lemma sort_by_simps [simp]:
  "sort_by cmp [] = []" "sort_by cmp (x # xs) = insert_by cmp x (sort_by cmp xs)"
  by (simp_all add: sort_by_def)

lemma mset_insert_by: "mset (insert_by cmp x xs) = add_mset x (mset xs)"
  by (induction xs) auto

lemma mset_sort_by [simp]: "mset (sort_by cmp xs) = mset xs"
  by (induction xs) (auto simp: mset_insert_by)

lemma set_sort_by [simp]: "set (sort_by cmp xs) = set xs"
  using mset_sort_by by (metis set_mset_mset)

lemma length_sort_by [simp]: "length (sort_by cmp xs) = length xs"
  using mset_sort_by by (metis size_mset)

locale comparator =
  fixes cmp :: "'a \<Rightarrow> 'a \<Rightarrow> ordering" and A :: "'a set"
  assumes cmp_refl: "x \<in> A \<Longrightarrow> cmp x x = Equal"
    and cmp_sym: "x \<in> A \<Longrightarrow> y \<in> A \<Longrightarrow> cmp y x = reverse_ordering (cmp x y)"
    and cmp_trans: "x \<in> A \<Longrightarrow> y \<in> A \<Longrightarrow> z \<in> A \<Longrightarrow>
          cmp x y \<noteq> Greater \<Longrightarrow> cmp y z \<noteq> Greater \<Longrightarrow> cmp x z \<noteq> Greater"
begin

lemma cmp_total: "x \<in> A \<Longrightarrow> y \<in> A \<Longrightarrow> cmp x y = Greater \<Longrightarrow> cmp y x \<noteq> Greater"
  using cmp_sym [of x y] by simp

lemma sorted_insert_by:
  "set xs \<subseteq> A \<Longrightarrow> x \<in> A \<Longrightarrow> sorted_wrt (\<lambda>x y. cmp x y \<noteq> Greater) xs \<Longrightarrow>
   sorted_wrt (\<lambda>x y. cmp x y \<noteq> Greater) (insert_by cmp x xs)"
proof (induction xs)
  case Nil
  then show ?case by simp
next
  case (Cons y ys)
  have set_ins: "set (insert_by cmp x ys) = insert x (set ys)"
    by (metis mset_insert_by set_mset_add_mset_insert set_mset_mset)
  show ?case
  proof (cases "cmp x y = Greater")
    case True
    with Cons cmp_total [of x y] show ?thesis by (auto simp: set_ins)
  next
    case False
    have "cmp x z \<noteq> Greater" if "z \<in> set ys" for z
      using cmp_trans [of x y z] False Cons.prems that by auto
    with False Cons.prems show ?thesis by auto
  qed
qed

lemma sorted_sort_by:
  "set xs \<subseteq> A \<Longrightarrow> sorted_wrt (\<lambda>x y. cmp x y \<noteq> Greater) (sort_by cmp xs)"
  by (induction xs) (auto intro!: sorted_insert_by)

lemma filter_insert_by_other:
  "\<not> P x \<Longrightarrow> filter P (insert_by cmp x xs) = filter P xs"
  by (induction xs) auto

lemma filter_insert_by_class:
  assumes "set xs \<subseteq> A" "x \<in> A" "z \<in> A" "cmp z x = Equal"
    and "sorted_wrt (\<lambda>x y. cmp x y \<noteq> Greater) xs"
  shows "filter (\<lambda>y. cmp z y = Equal) (insert_by cmp x xs) = x # filter (\<lambda>y. cmp z y = Equal) xs"
  using assms
proof (induction xs)
  case Nil
  then show ?case by simp
next
  case (Cons y ys)
  have "cmp z y \<noteq> Equal" if g: "cmp x y = Greater"
  proof
    assume e: "cmp z y = Equal"
    have "cmp x z \<noteq> Greater" using cmp_sym [of z x] Cons.prems by simp
    then have "cmp x y \<noteq> Greater" using cmp_trans [of x z y] Cons.prems e by simp
    with g show False by simp
  qed
  with Cons show ?case by auto
qed

text \<open>Stability: elements that compare equal to a given one keep their order.\<close>

lemma stable_sort_by:
  "set xs \<subseteq> A \<Longrightarrow> z \<in> A \<Longrightarrow>
   filter (\<lambda>y. cmp z y = Equal) (sort_by cmp xs) = filter (\<lambda>y. cmp z y = Equal) xs"
proof (induction xs)
  case Nil
  then show ?case by simp
next
  case (Cons x xs)
  then have s: "sorted_wrt (\<lambda>x y. cmp x y \<noteq> Greater) (sort_by cmp xs)"
    by (intro sorted_sort_by) auto
  show ?case
  proof (cases "cmp z x = Equal")
    case True
    with Cons s show ?thesis by (simp add: filter_insert_by_class)
  next
    case False
    with Cons show ?thesis by (simp add: filter_insert_by_other)
  qed
qed

end

text \<open>The comparator of a key into a linear order (\<open>Ord::cmp\<close>, \<open>sort_by_key\<close>).\<close>

definition cmp_on :: "('a \<Rightarrow> 'k :: linorder) \<Rightarrow> 'a \<Rightarrow> 'a \<Rightarrow> ordering" where
  "cmp_on k x y = (if k x < k y then Less else if k x = k y then Equal else Greater)"

lemma cmp_on_not_greater: "cmp_on k x y \<noteq> Greater \<longleftrightarrow> k x \<le> k y"
  by (auto simp: cmp_on_def)

lemma cmp_on_equal: "cmp_on k x y = Equal \<longleftrightarrow> k x = k y"
  by (auto simp: cmp_on_def)

lemma comparator_cmp_on: "comparator (cmp_on k) UNIV"
proof
  fix x y z
  show "cmp_on k x x = Equal" by (simp add: cmp_on_def)
  show "cmp_on k y x = reverse_ordering (cmp_on k x y)" by (auto simp: cmp_on_def)
  show "cmp_on k x y \<noteq> Greater \<Longrightarrow> cmp_on k y z \<noteq> Greater \<Longrightarrow> cmp_on k x z \<noteq> Greater"
    by (simp add: cmp_on_not_greater)
qed

text \<open>The comparator of a float key that treats an unordered pair as equal.\<close>

definition cmp_float :: "('a \<Rightarrow> f64) \<Rightarrow> 'a \<Rightarrow> 'a \<Rightarrow> ordering" where
  "cmp_float k x y = (case partial_cmp (k x) (k y) of Some ord \<Rightarrow> ord | None \<Rightarrow> Equal)"

lemma cmp_float_not_greater:
  "k x \<noteq> NaN \<Longrightarrow> k y \<noteq> NaN \<Longrightarrow> cmp_float k x y \<noteq> Greater \<longleftrightarrow> f_le (k x) (k y)"
  by (cases "k x"; cases "k y") (auto simp: cmp_float_def partial_cmp_def f_eq_def f_le_def)

lemma cmp_float_sym: "cmp_float k y x = reverse_ordering (cmp_float k x y)"
  by (cases "k x"; cases "k y") (auto simp: cmp_float_def partial_cmp_def f_eq_def)

lemma cmp_float_equal:
  "k x \<noteq> NaN \<Longrightarrow> k y \<noteq> NaN \<Longrightarrow> cmp_float k x y = Equal \<longleftrightarrow> k x = k y"
  by (cases "k x"; cases "k y") (auto simp: cmp_float_def partial_cmp_def f_eq_def)

lemma comparator_cmp_float: "comparator (cmp_float k) {x. k x \<noteq> NaN}"
proof
  fix x y z
  show "x \<in> {x. k x \<noteq> NaN} \<Longrightarrow> cmp_float k x x = Equal"
    by (simp add: cmp_float_equal)
  show "cmp_float k y x = reverse_ordering (cmp_float k x y)" by (rule cmp_float_sym)
  show "x \<in> {x. k x \<noteq> NaN} \<Longrightarrow> y \<in> {x. k x \<noteq> NaN} \<Longrightarrow> z \<in> {x. k x \<noteq> NaN} \<Longrightarrow>
      cmp_float k x y \<noteq> Greater \<Longrightarrow> cmp_float k y z \<noteq> Greater \<Longrightarrow> cmp_float k x z \<noteq> Greater"
    using f_le_trans [of "k x" "k y" "k z"] by (simp add: cmp_float_not_greater)
qed

end
