(* ===== verification/Filters.thy ===== *)
theory Filters
  imports Proxy_Model Stable_Sort "HOL-Library.Option_ord" "HOL-Library.List_Lexorder"
begin

text \<open>
  Post-validation filtering and ordering: \<open>src/filters.rs\<close> (sorting, shuffling, the
  filter predicates, the stream adapters) and \<open>src/cli/filters.rs\<close> (the filter the
  command line builds). The clock and process id that seed the shuffle are parameters.
\<close>

datatype sort_key = AvgResponseTime | Country | AnonymityKey | Score

datatype sort_order = Asc | Desc

section \<open>Anonymity rank and protocol families\<close>

fun http_level :: "protocol \<Rightarrow> anonymity option" where
  "http_level (Http a) = Some a"
| "http_level (Https a) = Some a"
| "http_level _ = None"

definition http_levels :: "proxy \<Rightarrow> anonymity list" where
  "http_levels p = List.map_filter (\<lambda>pt. http_level (pt_protocol pt)) (proxy_types p)"

definition proxy_anonymity_rank :: "proxy \<Rightarrow> nat" where
  "proxy_anonymity_rank p =
     (case map rank (http_levels p) of [] \<Rightarrow> rank Unknown | r # rs \<Rightarrow> fold max rs r)"

fun protocol_family :: "protocol \<Rightarrow> protocol" where
  "protocol_family (Http _) = Http Unknown"
| "protocol_family (Https _) = Https Unknown"
| "protocol_family other = other"

text \<open>The types a proxy is judged by: the validated ones, or the advertised ones when none is.\<close>

definition carried_types :: "proxy \<Rightarrow> protocol list" where
  "carried_types p = (if proxy_types p = [] then expected_types p else map pt_protocol (proxy_types p))"

definition is_excluded :: "protocol list \<Rightarrow> proxy \<Rightarrow> bool" where
  "is_excluded excluded p =
     (if excluded = [] then False
      else list_ex (\<lambda>t. list_ex (\<lambda>e. protocol_family e = protocol_family t) excluded) (carried_types p))"

section \<open>Sorting\<close>

definition score_key :: "proxy \<Rightarrow> f64" where
  "score_key p = (case px_score p of Some s \<Rightarrow> hs_total s | None \<Rightarrow> Fin 0)"

definition cmp_score :: "bool \<Rightarrow> proxy \<Rightarrow> proxy \<Rightarrow> ordering" where
  "cmp_score descending a b =
     (case (px_score a, px_score b) of
        (Some left, Some right) \<Rightarrow>
          (let ord = (case partial_cmp (hs_total left) (hs_total right) of Some c \<Rightarrow> c | None \<Rightarrow> Equal)
           in if descending then reverse_ordering ord else ord)
      | (Some _, None) \<Rightarrow> Less
      | (None, Some _) \<Rightarrow> Greater
      | (None, None) \<Rightarrow> Equal)"

definition key_cmp :: "sort_key \<Rightarrow> sort_order \<Rightarrow> proxy \<Rightarrow> proxy \<Rightarrow> ordering" where
  "key_cmp key order =
     (case key of
        AvgResponseTime \<Rightarrow> cmp_float avg_response_time
      | Country \<Rightarrow> cmp_on (\<lambda>p. iso_code (px_geo p))
      | AnonymityKey \<Rightarrow> cmp_on proxy_anonymity_rank
      | Score \<Rightarrow> cmp_score (order = Desc))"

definition sort_proxies :: "proxy list \<Rightarrow> sort_key \<Rightarrow> sort_order \<Rightarrow> proxy list" where
  "sort_proxies ps key order =
     (let sorted_ps = sort_by (key_cmp key order) ps
      in if order = Desc \<and> key \<noteq> Score then rev sorted_ps else sorted_ps)"

text \<open>Proxies whose sort keys are numbers: the only ones the validator produces.\<close>

definition key_defined :: "sort_key \<Rightarrow> proxy \<Rightarrow> bool" where
  "key_defined key p =
     (case key of
        AvgResponseTime \<Rightarrow> avg_response_time p \<noteq> NaN
      | Score \<Rightarrow> score_key p \<noteq> NaN
      | _ \<Rightarrow> True)"

lemma cmp_score_simps:
  "px_score a = Some sa \<Longrightarrow> px_score b = Some sb \<Longrightarrow>
   cmp_score d a b = (if d then reverse_ordering (cmp_float score_key a b) else cmp_float score_key a b)"
  "px_score a = Some sa \<Longrightarrow> px_score b = None \<Longrightarrow> cmp_score d a b = Less"
  "px_score a = None \<Longrightarrow> px_score b = Some sb \<Longrightarrow> cmp_score d a b = Greater"
  "px_score a = None \<Longrightarrow> px_score b = None \<Longrightarrow> cmp_score d a b = Equal"
  by (simp_all add: cmp_score_def cmp_float_def score_key_def)

lemma reverse_not_greater: "reverse_ordering (cmp_float k x y) \<noteq> Greater \<longleftrightarrow> cmp_float k y x \<noteq> Greater"
  by (subst cmp_float_sym [of k y x]) simp

lemma comparator_cmp_score: "comparator (cmp_score d) {p. score_key p \<noteq> NaN}"
proof
  fix x y z
  assume x: "x \<in> {p. score_key p \<noteq> NaN}"
  then have "cmp_float score_key x x = Equal" by (simp add: cmp_float_equal)
  then show "cmp_score d x x = Equal"
    by (cases "px_score x") (simp_all add: cmp_score_simps)
  assume y: "y \<in> {p. score_key p \<noteq> NaN}"
  show "cmp_score d y x = reverse_ordering (cmp_score d x y)"
    by (cases "px_score x"; cases "px_score y")
      (simp_all add: cmp_score_simps cmp_float_sym [of score_key x y])
  assume z: "z \<in> {p. score_key p \<noteq> NaN}"
    and xy: "cmp_score d x y \<noteq> Greater" and yz: "cmp_score d y z \<noteq> Greater"
  show "cmp_score d x z \<noteq> Greater"
    using x y z xy yz f_le_trans [of "score_key x" "score_key y" "score_key z"]
      f_le_trans [of "score_key z" "score_key y" "score_key x"]
    by (cases "px_score x"; cases "px_score y"; cases "px_score z"; cases d)
      (simp_all add: cmp_score_simps reverse_not_greater cmp_float_not_greater)
qed

interpretation by_country: comparator "cmp_on (\<lambda>p. iso_code (px_geo p))" UNIV
  by (rule comparator_cmp_on)

interpretation by_anonymity: comparator "cmp_on proxy_anonymity_rank" UNIV
  by (rule comparator_cmp_on)

interpretation by_response_time: comparator "cmp_float avg_response_time" "{p. avg_response_time p \<noteq> NaN}"
  by (rule comparator_cmp_float)

interpretation by_score: comparator "cmp_score d" "{p. score_key p \<noteq> NaN}" for d
  by (rule comparator_cmp_score)

lemma comparator_key_cmp: "comparator (key_cmp key order) {p. key_defined key p}"
  by (cases key)
    (simp_all add: key_cmp_def key_defined_def comparator_cmp_on comparator_cmp_score
      comparator_cmp_float flip: UNIV_def)

interpretation by_key: comparator "key_cmp key order" "{p. key_defined key p}" for key order
  by (rule comparator_key_cmp)

text \<open>The order a sorted list is in, read off the requested direction.\<close>

definition in_order :: "sort_key \<Rightarrow> sort_order \<Rightarrow> proxy \<Rightarrow> proxy \<Rightarrow> bool" where
  "in_order key order a b =
     (if order = Desc \<and> key \<noteq> Score then key_cmp key order b a \<noteq> Greater
      else key_cmp key order a b \<noteq> Greater)"

text \<open>Sorting rearranges the proxies and leaves them in the requested order, for every key
  and direction, whatever the list, as long as the compared times and scores are numbers.\<close>

theorem sort_proxies_sorted:
  assumes "\<forall>p \<in> set ps. key_defined key p"
  shows "mset (sort_proxies ps key order) = mset ps \<and>
    sorted_wrt (in_order key order) (sort_proxies ps key order)"
proof -
  have s: "sorted_wrt (\<lambda>x y. key_cmp key order x y \<noteq> Greater) (sort_by (key_cmp key order) ps)"
    using assms by (intro by_key.sorted_sort_by) auto
  have "sorted_wrt (in_order key order) (sort_proxies ps key order)"
  proof (cases "order = Desc \<and> key \<noteq> Score")
    case True
    then have "in_order key order = (\<lambda>a b. key_cmp key order b a \<noteq> Greater)"
      by (simp add: in_order_def fun_eq_iff)
    with True s show ?thesis by (simp add: sort_proxies_def sorted_wrt_rev)
  next
    case False
    then have "in_order key order = (\<lambda>a b. key_cmp key order a b \<noteq> Greater)"
      by (auto simp: in_order_def fun_eq_iff)
    with False s show ?thesis by (auto simp: sort_proxies_def)
  qed
  moreover have "mset (sort_proxies ps key order) = mset ps"
    by (simp add: sort_proxies_def Let_def)
  ultimately show ?thesis by blast
qed

text \<open>Sorting by health score puts every proxy without a score after every proxy with one,
  in both directions; among the scored ones the totals descend exactly when asked to.\<close>

theorem sort_by_score_unscored_last:
  assumes "\<forall>p \<in> set ps. score_key p \<noteq> NaN"
    and "i < j" and "j < length ps"
    and "sort_proxies ps Score order = qs"
  shows "(px_score (qs ! i) = None \<longrightarrow> px_score (qs ! j) = None) \<and>
    (\<forall>a b. px_score (qs ! i) = Some a \<longrightarrow> px_score (qs ! j) = Some b \<longrightarrow>
       (if order = Desc then f_le (hs_total b) (hs_total a) else f_le (hs_total a) (hs_total b)))"
proof -
  have qs: "qs = sort_by (cmp_score (order = Desc)) ps"
    using assms(4) by (simp add: sort_proxies_def key_cmp_def)
  then have len: "length qs = length ps" by simp
  have "sorted_wrt (\<lambda>x y. cmp_score (order = Desc) x y \<noteq> Greater) qs"
    unfolding qs using assms(1) by (intro by_score.sorted_sort_by) auto
  then have c: "cmp_score (order = Desc) (qs ! i) (qs ! j) \<noteq> Greater"
    using assms(2,3) len by (simp add: sorted_wrt_iff_nth_less)
  have nan: "score_key (qs ! k) \<noteq> NaN" if "k < length ps" for k
    using assms(1) that len nth_mem [of k qs] by (simp add: qs)
  show ?thesis
    using c nan [of i] nan [of j] assms(2,3)
    by (cases "px_score (qs ! i)"; cases "px_score (qs ! j)")
      (auto simp: cmp_score_simps reverse_not_greater cmp_float_not_greater score_key_def split: if_splits)
qed

definition demo_scored :: "real \<Rightarrow> proxy" where
  "demo_scored t = (proxy_new (Ipv4 10 0 0 1) 80)\<lparr>px_score :=
     Some \<lparr>hs_reliability = Fin 0, hs_speed = Fin 0, hs_anonymity = Fin 0, hs_total = Fin t\<rparr>\<rparr>"

theorem sort_proxies_sorted_witness:
  "mset (sort_proxies [demo_scored 1, demo_scored 2] Score Desc) = mset [demo_scored 1, demo_scored 2] \<and>
   sorted_wrt (in_order Score Desc) (sort_proxies [demo_scored 1, demo_scored 2] Score Desc)"
  by (rule sort_proxies_sorted) (simp add: key_defined_def score_key_def demo_scored_def)

theorem sort_by_score_unscored_last_witness:
  "\<exists>qs. sort_proxies [proxy_new (Ipv4 10 0 0 1) 80, demo_scored 2] Score Desc = qs \<and>
     (px_score (qs ! 0) = None \<longrightarrow> px_score (qs ! 1) = None)"
  using sort_by_score_unscored_last [of "[proxy_new (Ipv4 10 0 0 1) 80, demo_scored 2]" 0 1 Desc, OF _ _ _ refl]
  by (auto simp: score_key_def demo_scored_def proxy_new_def)

end
