(* ===== verification/Shuffle.thy ===== *)
theory Shuffle
  imports Filters
begin

unbundle bit_operations_syntax

text \<open>
  \<open>shuffle_proxies\<close> of \<open>src/filters.rs\<close>: a Fisher--Yates shuffle driven by a 64-bit
  xorshift generator. The seed comes from the clock and the process id, both
  parameters.
\<close>

definition xshift_golden :: u64 where
  "xshift_golden = 0x9e3779b97f4a7c15"

definition shuffle_seed :: "u64 \<Rightarrow> u64 \<Rightarrow> u64" where
  "shuffle_seed nanos pid =
     (let state = nanos XOR pid in if state = 0 then xshift_golden else state)"

definition xorshift_next :: "u64 \<Rightarrow> u64" where
  "xorshift_next s0 =
     (let s1 = s0 XOR push_bit 13 s0;
          s2 = s1 XOR drop_bit 7 s1
      in s2 XOR push_bit 17 s2)"

definition swap :: "nat \<Rightarrow> nat \<Rightarrow> 'a list \<Rightarrow> 'a list" where
  "swap i j xs = xs[i := xs ! j, j := xs ! i]"

text \<open>
  The loop \<open>for i in (1..len).rev()\<close>, with the generator's state threaded; an index out
  of range would be a panic of \<open>swap\<close>.
\<close>

fun shuffle_from :: "nat \<Rightarrow> u64 \<Rightarrow> 'a list \<Rightarrow> ('a list, unit) outcome" where
  "shuffle_from 0 state xs = Ok xs"
| "shuffle_from (Suc i) state xs =
     (let state' = xorshift_next state;
          j = unat (state' mod (of_nat (Suc i) + 1))
      in if Suc i < length xs \<and> j < length xs
         then shuffle_from i state' (swap (Suc i) j xs) else Panic)"

definition shuffle_proxies :: "u64 \<Rightarrow> u64 \<Rightarrow> 'a list \<Rightarrow> ('a list, unit) outcome" where
  "shuffle_proxies nanos pid xs = shuffle_from (length xs - 1) (shuffle_seed nanos pid) xs"

section \<open>The generator never sticks at zero\<close>

lemma xor_push_zero:
  assumes "0 < k" and "(x :: u64) XOR push_bit k x = 0"
  shows "x = 0"
proof -
  have "\<not> bit x n" if "n < 64" for n
    using that
  proof (induction n rule: less_induct)
    case (less n)
    have "bit (x XOR push_bit k x) n = False" by (simp add: assms(2))
    then have "bit x n = (k \<le> n \<and> bit x (n - k))"
      using less.prems by (auto simp: bit_xor_iff bit_push_bit_iff)
    with less assms(1) show ?case by auto
  qed
  then show ?thesis by (intro bit_word_eqI) simp
qed

lemma xor_drop_zero:
  assumes "0 < k" and "(x :: u64) XOR drop_bit k x = 0"
  shows "x = 0"
proof -
  have "\<not> bit x (64 - m)" if "m \<le> 64" for m
    using that
  proof (induction m rule: less_induct)
    case (less m)
    have "bit (x XOR drop_bit k x) (64 - m) = False" by (simp add: assms(2))
    then have eq: "bit x (64 - m) = bit x (64 - m + k)"
      by (simp add: bit_xor_iff bit_drop_bit_eq add.commute)
    show ?case
    proof (cases "k < m")
      case True
      with less.IH [of "m - k"] less.prems have "\<not> bit x (64 - (m - k))" using assms(1) by linarith
      moreover have "64 - (m - k) = 64 - m + k" using True less.prems by simp
      ultimately show ?thesis using eq by simp
    next
      case False
      then have "64 \<le> 64 - m + k" using less.prems by simp
      then have "\<not> bit x (64 - m + k)" using bit_imp_le_length [of x] by force
      with eq show ?thesis by simp
    qed
  qed
  then have "\<not> bit x n" if "n < 64" for n
    using that by (metis diff_diff_cancel diff_le_self less_imp_le)
  then show ?thesis by (intro bit_word_eqI) simp
qed

lemma xorshift_next_nonzero: "s \<noteq> 0 \<Longrightarrow> xorshift_next s \<noteq> 0"
  using xor_push_zero [of 13 s] xor_drop_zero [of 7 "s XOR push_bit 13 s"]
    xor_push_zero [of 17 "(s XOR push_bit 13 s) XOR drop_bit 7 (s XOR push_bit 13 s)"]
  by (auto simp: xorshift_next_def Let_def)

lemma shuffle_seed_nonzero: "shuffle_seed nanos pid \<noteq> 0"
  by (simp add: shuffle_seed_def Let_def xshift_golden_def)

text \<open>The generator that drives the shuffle never reaches its absorbing state zero, from
  any clock reading and process id and after any number of draws.\<close>

theorem xorshift_never_zero: "(xorshift_next ^^ n) (shuffle_seed nanos pid) \<noteq> 0"
  by (induction n) (simp_all add: shuffle_seed_nonzero xorshift_next_nonzero)

section \<open>The shuffle is a permutation and stays in range\<close>

lemma mset_swap: "i < length xs \<Longrightarrow> j < length xs \<Longrightarrow> mset (swap i j xs) = mset xs"
  by (simp add: swap_def mset_swap)

lemma length_swap [simp]: "length (swap i j xs) = length xs"
  by (simp add: swap_def)

lemma draw_in_range: "Suc i < 2 ^ 64 - 1 \<Longrightarrow> unat ((s :: u64) mod (of_nat (Suc i) + 1)) \<le> Suc i"
proof -
  assume a: "Suc i < 2 ^ 64 - 1"
  have n: "unat (of_nat (Suc i) + 1 :: u64) = Suc (Suc i)"
  proof -
    have "(of_nat (Suc i) + 1 :: u64) = of_nat (Suc (Suc i))" by simp
    then show ?thesis using a by (simp only: unat_of_nat) simp
  qed
  have "unat (s mod (of_nat (Suc i) + 1)) = unat s mod Suc (Suc i)"
    by (simp only: unat_mod_distrib n)
  then show ?thesis by (metis less_Suc_eq_le mod_less_divisor zero_less_Suc)
qed

lemma shuffle_from_permutes:
  "i < length xs \<or> i = 0 \<Longrightarrow> length xs < 2 ^ 63 \<Longrightarrow>
   \<exists>ys. shuffle_from i s xs = Ok ys \<and> mset ys = mset xs"
proof (induction i arbitrary: s xs)
  case 0
  then show ?case by simp
next
  case (Suc i)
  let ?s = "xorshift_next s"
  let ?j = "unat (?s mod (of_nat (Suc i) + 1))"
  from Suc.prems have i: "Suc i < length xs" by simp
  moreover have "?j \<le> Suc i" by (rule draw_in_range) (use i Suc.prems(2) in simp)
  ultimately have j: "?j < length xs" by linarith
  have "\<exists>ys. shuffle_from i ?s (swap (Suc i) ?j xs) = Ok ys \<and> mset ys = mset (swap (Suc i) ?j xs)"
    by (rule Suc.IH) (use i Suc.prems(2) in auto)
  then show ?case
    using i j mset_swap [OF i j] by (auto simp: Let_def)
qed

text \<open>Shuffling any list shorter than \<open>2 ^ 63\<close> finishes without an index out of range and
  returns a rearrangement of it, whatever the seed: no proxy is lost or duplicated.\<close>

theorem shuffle_proxies_permutes:
  assumes "length ps < 2 ^ 63"
  shows "\<exists>qs. shuffle_proxies nanos pid ps = Ok qs \<and> mset qs = mset (ps :: proxy list)"
  unfolding shuffle_proxies_def
  by (rule shuffle_from_permutes) (use assms in auto)

theorem shuffle_proxies_permutes_witness:
  "\<exists>qs. shuffle_proxies 12345 678 [proxy_new (Ipv4 1 2 3 4) 80, proxy_new (Ipv4 1 2 3 5) 81] = Ok qs \<and>
     mset qs = {#proxy_new (Ipv4 1 2 3 4) 80, proxy_new (Ipv4 1 2 3 5) 81#}"
  using shuffle_proxies_permutes [of "[proxy_new (Ipv4 1 2 3 4) 80, proxy_new (Ipv4 1 2 3 5) 81]" 12345 678]
  by simp

end
