(* ===== verification/Stream_Filters.thy ===== *)
theory Stream_Filters
  imports Shuffle
begin

text \<open>
  The stream side of filtering: the predicates of \<open>ProxyStreamExt\<close> and the adapters
  \<open>Filtered\<close> and \<open>BufferedStream\<close> (\<open>src/filters.rs\<close>), and the filter the command
  line builds from its options (\<open>src/cli/filters.rs\<close>). An upstream is the script of
  its answers: \<open>None\<close> is \<open>Pending\<close>, \<open>Some x\<close> is an item, the end of the script is
  the end of the stream.
\<close>

section \<open>Polling\<close>

datatype 'a poll = Pending | Ready "'a option" | Crash

type_synonym 'a upstream = "'a option list"

fun poll_upstream :: "'a upstream \<Rightarrow> 'a poll \<times> 'a upstream" where
  "poll_upstream [] = (Ready None, [])"
| "poll_upstream (None # u) = (Pending, u)"
| "poll_upstream (Some x # u) = (Ready (Some x), u)"

definition script_items :: "'a upstream \<Rightarrow> 'a list" where
  "script_items u = List.map_filter (\<lambda>x. x) u"

lemma script_items_simps [simp]:
  "script_items [] = []" "script_items (None # u) = script_items u"
  "script_items (Some x # u) = x # script_items u"
  by (simp_all add: script_items_def)

lemma length_script_items: "length (script_items u) \<le> length u"
  by (induction u) (auto simp: script_items_def split: option.splits)

text \<open>Driving a stream to its end; \<open>None\<close> when the fuel runs out or a poll panics.\<close>

fun drain :: "('s \<Rightarrow> 'a poll \<times> 's) \<Rightarrow> nat \<Rightarrow> 's \<Rightarrow> 'a list option" where
  "drain poll 0 s = None"
| "drain poll (Suc n) s =
     (case poll s of
        (Ready None, s') \<Rightarrow> Some []
      | (Ready (Some x), s') \<Rightarrow> map_option ((#) x) (drain poll n s')
      | (Pending, s') \<Rightarrow> drain poll n s'
      | (Crash, s') \<Rightarrow> None)"

text \<open>
  What a consumer may rely on: each state stands for the items still to come, a poll
  delivers the next one, and only finitely many polls are needed.
\<close>

locale poll_stream =
  fixes poll :: "'s \<Rightarrow> 'a poll \<times> 's"
    and items :: "'s \<Rightarrow> 'a list"
    and work :: "'s \<Rightarrow> nat"
    and ok :: "'s \<Rightarrow> bool"
  assumes poll_item: "ok s \<Longrightarrow> poll s = (Ready (Some x), s') \<Longrightarrow>
        items s = x # items s' \<and> work s' < work s \<and> ok s'"
    and poll_done: "ok s \<Longrightarrow> poll s = (Ready None, s') \<Longrightarrow> items s = []"
    and poll_pending: "ok s \<Longrightarrow> poll s = (Pending, s') \<Longrightarrow>
        items s' = items s \<and> work s' < work s \<and> ok s'"
    and poll_no_crash: "ok s \<Longrightarrow> fst (poll s) \<noteq> Crash"
begin

lemma drain_items: "ok s \<Longrightarrow> work s < n \<Longrightarrow> drain poll n s = Some (items s)"
proof (induction n arbitrary: s)
  case 0
  then show ?case by simp
next
  case (Suc n)
  obtain r s' where p: "poll s = (r, s')" by (cases "poll s")
  show ?case
  proof (cases r)
    case Pending
    with poll_pending [OF Suc.prems(1)] p Suc show ?thesis by fastforce
  next
    case Crash
    with poll_no_crash [OF Suc.prems(1)] p show ?thesis by simp
  next
    case (Ready x)
    show ?thesis
    proof (cases x)
      case None
      with poll_done [OF Suc.prems(1)] p Ready show ?thesis by simp
    next
      case (Some y)
      with poll_item [OF Suc.prems(1)] p Ready Suc show ?thesis by fastforce
    qed
  qed
qed

lemma drain_fuel_irrelevant:
  "ok s \<Longrightarrow> work s < m \<Longrightarrow> work s < n \<Longrightarrow> drain poll m s = drain poll n s"
  by (simp add: drain_items)

end

interpretation upstream: poll_stream poll_upstream script_items length "\<lambda>_. True"
proof
  fix s s' :: "'a upstream" and x
  show "poll_upstream s = (Ready (Some x), s') \<Longrightarrow>
      script_items s = x # script_items s' \<and> length s' < length s \<and> True"
    by (cases s rule: poll_upstream.cases) auto
  show "poll_upstream s = (Ready None, s') \<Longrightarrow> script_items s = []"
    by (cases s rule: poll_upstream.cases) auto
  show "poll_upstream s = (Pending, s') \<Longrightarrow>
      script_items s' = script_items s \<and> length s' < length s \<and> True"
    by (cases s rule: poll_upstream.cases) auto
  show "fst (poll_upstream s) \<noteq> Crash"
    by (cases s rule: poll_upstream.cases) auto
qed

section \<open>The filter adapter\<close>

fun filtered_poll :: "('a \<Rightarrow> bool) \<Rightarrow> 'a upstream \<Rightarrow> 'a poll \<times> 'a upstream" where
  "filtered_poll keep [] = (Ready None, [])"
| "filtered_poll keep (None # u) = (Pending, u)"
| "filtered_poll keep (Some x # u) = (if keep x then (Ready (Some x), u) else filtered_poll keep u)"

lemma filtered_poll_cases:
  "filtered_poll keep s = (r, s') \<Longrightarrow>
   (case r of
      Ready (Some x) \<Rightarrow> filter keep (script_items s) = x # filter keep (script_items s') \<and> length s' < length s
    | Ready None \<Rightarrow> filter keep (script_items s) = []
    | Pending \<Rightarrow> filter keep (script_items s') = filter keep (script_items s) \<and> length s' < length s
    | Crash \<Rightarrow> False)"
proof (induction keep s rule: filtered_poll.induct)
  case (3 keep x u)
  show ?case
  proof (cases "keep x")
    case True
    with "3.prems" show ?thesis by auto
  next
    case False
    with "3.prems" have "filtered_poll keep u = (r, s')" by simp
    from "3.IH" [OF False this] False show ?thesis
      by (auto split: poll.splits option.splits)
  qed
qed auto

interpretation filtered: poll_stream "filtered_poll keep" "\<lambda>s. filter keep (script_items s)" length "\<lambda>_. True"
  for keep :: "'a \<Rightarrow> bool"
proof
  fix s s' :: "'a upstream" and x
  show "filtered_poll keep s = (Ready (Some x), s') \<Longrightarrow>
      filter keep (script_items s) = x # filter keep (script_items s') \<and> length s' < length s \<and> True"
    using filtered_poll_cases [of keep s "Ready (Some x)" s'] by simp
  show "filtered_poll keep s = (Ready None, s') \<Longrightarrow> filter keep (script_items s) = []"
    using filtered_poll_cases [of keep s "Ready None" s'] by simp
  show "filtered_poll keep s = (Pending, s') \<Longrightarrow>
      filter keep (script_items s') = filter keep (script_items s) \<and> length s' < length s \<and> True"
    using filtered_poll_cases [of keep s Pending s'] by simp
  show "fst (filtered_poll keep s) \<noteq> Crash"
    using filtered_poll_cases [of keep s Crash "snd (filtered_poll keep s)"]
    by (cases "filtered_poll keep s") auto
qed

section \<open>The buffering adapter\<close>

datatype finish = Sort sort_key sort_order | Shuffled u64 u64

datatype buffered_state = Collecting finish "proxy list" | Emitting "proxy list"

definition finish_buffer :: "finish \<Rightarrow> proxy list \<Rightarrow> (proxy list, unit) outcome" where
  "finish_buffer f buffer =
     (case f of
        Sort key order \<Rightarrow> Ok (sort_proxies buffer key order)
      | Shuffled nanos pid \<Rightarrow> shuffle_proxies nanos pid buffer)"

function buffered_poll ::
  "proxy upstream \<times> buffered_state \<Rightarrow> proxy poll \<times> (proxy upstream \<times> buffered_state)" where
  "buffered_poll (u, Emitting []) = (Ready None, (u, Emitting []))"
| "buffered_poll (u, Emitting (p # ps)) = (Ready (Some p), (u, Emitting ps))"
| "buffered_poll (Some p # u, Collecting f buffer) = buffered_poll (u, Collecting f (buffer @ [p]))"
| "buffered_poll (None # u, Collecting f buffer) = (Pending, (u, Collecting f buffer))"
| "buffered_poll ([], Collecting f buffer) =
     (case finish_buffer f buffer of
        Ok ps \<Rightarrow> buffered_poll ([], Emitting ps)
      | _ \<Rightarrow> (Crash, ([], Emitting [])))"
  by pat_completeness auto
termination
  by (relation "measure (\<lambda>(u, st). length u + (case st of Collecting _ _ \<Rightarrow> 1 | Emitting _ \<Rightarrow> 0))") auto

fun buffered_items :: "proxy upstream \<times> buffered_state \<Rightarrow> proxy list" where
  "buffered_items (u, Emitting ps) = ps"
| "buffered_items (u, Collecting f buffer) =
     (case finish_buffer f (buffer @ script_items u) of Ok ps \<Rightarrow> ps | _ \<Rightarrow> [])"

fun buffered_work :: "proxy upstream \<times> buffered_state \<Rightarrow> nat" where
  "buffered_work (u, Emitting ps) = length ps"
| "buffered_work (u, Collecting f buffer) = length u + length buffer + 1"

fun buffered_ok :: "proxy upstream \<times> buffered_state \<Rightarrow> bool" where
  "buffered_ok (u, Emitting ps) = True"
| "buffered_ok (u, Collecting f buffer) = (length u + length buffer < 2 ^ 63)"

lemma finish_buffer_ok:
  assumes "length buffer < 2 ^ 63"
  obtains ps where "finish_buffer f buffer = Ok ps" and "mset ps = mset buffer"
    and "length ps = length buffer"
proof -
  have "\<exists>ps. finish_buffer f buffer = Ok ps \<and> mset ps = mset buffer"
  proof (cases f)
    case (Sort key order)
    then show ?thesis by (simp add: finish_buffer_def sort_proxies_def Let_def)
  next
    case (Shuffled nanos pid)
    then show ?thesis
      using assms shuffle_from_permutes [of "length buffer - 1" buffer "shuffle_seed nanos pid"]
      by (simp add: finish_buffer_def shuffle_proxies_def) (cases buffer; force)
  qed
  then show thesis using that mset_eq_length by blast
qed

lemma buffered_poll_cases:
  "buffered_ok s \<Longrightarrow> buffered_poll s = (r, s') \<Longrightarrow>
   (case r of
      Ready (Some x) \<Rightarrow> buffered_items s = x # buffered_items s' \<and> buffered_work s' < buffered_work s
    | Ready None \<Rightarrow> buffered_items s = []
    | Pending \<Rightarrow> buffered_items s' = buffered_items s \<and> buffered_work s' < buffered_work s
    | Crash \<Rightarrow> False) \<and> buffered_ok s'"
proof (induction s rule: buffered_poll.induct)
  case (3 p u f buffer)
  then show ?case by (auto split: poll.splits option.splits)
next
  case (5 f buffer)
  then obtain ps where "finish_buffer f buffer = Ok ps" "length ps = length buffer"
    using finish_buffer_ok [of buffer f] by auto
  with 5 show ?case by (cases ps) auto
qed auto

interpretation buffered: poll_stream buffered_poll buffered_items buffered_work buffered_ok
proof
  fix s s' x
  assume ok: "buffered_ok s"
  show "buffered_poll s = (Ready (Some x), s') \<Longrightarrow>
      buffered_items s = x # buffered_items s' \<and> buffered_work s' < buffered_work s \<and> buffered_ok s'"
    using buffered_poll_cases [OF ok, of "Ready (Some x)" s'] by simp
  show "buffered_poll s = (Ready None, s') \<Longrightarrow> buffered_items s = []"
    using buffered_poll_cases [OF ok, of "Ready None" s'] by simp
  show "buffered_poll s = (Pending, s') \<Longrightarrow>
      buffered_items s' = buffered_items s \<and> buffered_work s' < buffered_work s \<and> buffered_ok s'"
    using buffered_poll_cases [OF ok, of Pending s'] by simp
  show "fst (buffered_poll s) \<noteq> Crash"
    using buffered_poll_cases [OF ok, of Crash "snd (buffered_poll s)"]
    by (cases "buffered_poll s") auto
qed

text \<open>C21: polling a sorted stream to its end, however its upstream interleaves \<open>Pending\<close> with
  items, returns after finitely many polls, never panics, and yields exactly
  \<open>sort_proxies\<close> of everything the upstream produced.\<close>

theorem sorted_stream_refines_sort:
  assumes "length u + 1 < fuel" and "length u < 2 ^ 63"
  shows "drain buffered_poll fuel (u, Collecting (Sort key order) []) =
    Some (sort_proxies (script_items u) key order)"
  using buffered.drain_items [of "(u, Collecting (Sort key order) [])" fuel] assms
  by (simp add: finish_buffer_def)

theorem sorted_stream_refines_sort_witness:
  "drain buffered_poll 9 ([None, Some (demo_scored 1), None, Some (demo_scored 2)], Collecting (Sort Score Desc) []) =
     Some (sort_proxies [demo_scored 1, demo_scored 2] Score Desc)"
  using sorted_stream_refines_sort
    [of "[None, Some (demo_scored 1), None, Some (demo_scored 2)]" 9 Score Desc] by simp

text \<open>A filtered stream yields exactly the upstream items its predicate keeps, in order,
  and reaches its end within one poll per upstream answer.\<close>

theorem filtered_stream_refines_filter:
  assumes "length u < fuel"
  shows "drain (filtered_poll keep) fuel u = Some (filter keep (script_items (u :: proxy upstream)))"
  using filtered.drain_items [of u fuel keep] assms by simp

theorem filtered_stream_refines_filter_witness:
  "drain (filtered_poll (\<lambda>p. px_score p = None)) 4
     [Some (demo_scored 1), None, Some (proxy_new (Ipv4 1 2 3 4) 80)] = Some [proxy_new (Ipv4 1 2 3 4) 80]"
  using filtered_stream_refines_filter
    [of "[Some (demo_scored 1), None, Some (proxy_new (Ipv4 1 2 3 4) 80)]" 4 "\<lambda>p. px_score p = None"]
  by (simp add: demo_scored_def proxy_new_def)

end
