(* ===== verification/Cli_Filters.thy ===== *)
theory Cli_Filters
  imports Stream_Filters
begin

text \<open>
  The filter predicates of \<open>ProxyStreamExt\<close> (\<open>src/filters.rs\<close>) and the filter the
  command line applies before rendering (\<open>src/cli/filters.rs\<close>), with the proof that
  the two agree option by option.
\<close>

section \<open>Library predicates\<close>

definition keep_min_anonymity :: "anonymity \<Rightarrow> proxy \<Rightarrow> bool" where
  "keep_min_anonymity m p \<longleftrightarrow> rank m \<le> proxy_anonymity_rank p"

definition keep_levels :: "anonymity list \<Rightarrow> proxy \<Rightarrow> bool" where
  "keep_levels levels p \<longleftrightarrow>
     list_ex (\<lambda>pt. case http_level (pt_protocol pt) of Some a \<Rightarrow> a \<in> set levels | None \<Rightarrow> False) (proxy_types p)"

definition keep_min_response_time :: "f64 \<Rightarrow> proxy \<Rightarrow> bool" where
  "keep_min_response_time seconds p \<longleftrightarrow> f_le seconds (avg_response_time p)"

definition keep_max_response_time :: "f64 \<Rightarrow> proxy \<Rightarrow> bool" where
  "keep_max_response_time seconds p \<longleftrightarrow> f_le (avg_response_time p) seconds"

definition keep_min_score :: "f64 \<Rightarrow> proxy \<Rightarrow> bool" where
  "keep_min_score score p \<longleftrightarrow> (case px_score p of Some h \<Rightarrow> f_le score (hs_total h) | None \<Rightarrow> False)"

definition keep_not_excluded :: "protocol list \<Rightarrow> proxy \<Rightarrow> bool" where
  "keep_not_excluded excluded p \<longleftrightarrow> \<not> is_excluded excluded p"

lemma fold_max_ge: "(m :: nat) \<le> fold max rs r \<longleftrightarrow> m \<le> r \<or> (\<exists>x \<in> set rs. m \<le> x)"
  by (induction rs arbitrary: r) (auto simp: le_max_iff_disj)

text \<open>The minimum-anonymity filter keeps a proxy exactly when one of its HTTP(S) entries has
  at least that rank or when it has no HTTP(S) entry at all; since an unknown level ranks
  highest, unclassified and SOCKS-only proxies pass every minimum, \<open>elite\<close> included.\<close>

theorem min_anonymity_keeps:
  "keep_min_anonymity m p \<longleftrightarrow>
     http_levels p = [] \<or> (\<exists>l \<in> set (http_levels p). l = Unknown \<or> rank m \<le> rank l)"
proof (cases "http_levels p")
  case Nil
  then show ?thesis by (simp add: keep_min_anonymity_def proxy_anonymity_rank_def rank_le_3)
next
  case (Cons l ls)
  then have "keep_min_anonymity m p \<longleftrightarrow> (\<exists>l \<in> set (http_levels p). rank m \<le> rank l)"
    by (auto simp: keep_min_anonymity_def proxy_anonymity_rank_def fold_max_ge)
  moreover have "(l = Unknown \<or> rank m \<le> rank l) = (rank m \<le> rank l)" for l
    using rank_le_3 [of m] by (cases l) auto
  ultimately show ?thesis using Cons by simp
qed

section \<open>The command line's filter\<close>

record output_filter_options =
  opt_min_anonymity :: "string option"
  opt_levels :: "string list"
  opt_min_response_time :: "f64 option"
  opt_max_response_time :: "f64 option"
  opt_min_score :: "f64 option"
  opt_exclude_type :: "string list"

definition anonymity_rank_from_name :: "string \<Rightarrow> nat" where
  "anonymity_rank_from_name name =
     (if name = ''transparent'' then rank Transparent
      else if name = ''anonymous'' then rank Anonymous
      else if name = ''elite'' then rank Elite
      else rank Unknown)"

definition anonymity_from_name :: "string \<Rightarrow> anonymity option" where
  "anonymity_from_name name =
     (if name = ''transparent'' then Some Transparent
      else if name = ''anonymous'' then Some Anonymous
      else if name = ''elite'' then Some Elite
      else if name = ''unknown'' then Some Unknown
      else None)"

record proxy_filter =
  pf_min_anonymity_rank :: "nat option"
  pf_levels :: "anonymity list"
  pf_min_response_time :: "f64 option"
  pf_max_response_time :: "f64 option"
  pf_min_score :: "f64 option"
  pf_exclude_types :: "protocol list"

definition filter_from_options :: "output_filter_options \<Rightarrow> proxy_filter" where
  "filter_from_options o' =
     \<lparr>pf_min_anonymity_rank = map_option anonymity_rank_from_name (opt_min_anonymity o'),
      pf_levels = List.map_filter anonymity_from_name (opt_levels o'),
      pf_min_response_time = opt_min_response_time o',
      pf_max_response_time = opt_max_response_time o',
      pf_min_score = opt_min_score o',
      pf_exclude_types = List.map_filter parse_protocol_opt (opt_exclude_type o')\<rparr>"

definition filter_matches :: "proxy_filter \<Rightarrow> proxy \<Rightarrow> bool" where
  "filter_matches f p =
     (if (case pf_min_anonymity_rank f of Some m \<Rightarrow> proxy_anonymity_rank p < m | None \<Rightarrow> False) then False
      else if pf_levels f \<noteq> [] \<and>
        \<not> list_ex (\<lambda>pt. case http_level (pt_protocol pt) of Some a \<Rightarrow> a \<in> set (pf_levels f) | None \<Rightarrow> False)
            (proxy_types p) then False
      else if (case pf_min_score f of
          Some m \<Rightarrow> \<not> (case px_score p of Some s \<Rightarrow> f_le m (hs_total s) | None \<Rightarrow> False)
        | None \<Rightarrow> False) then False
      else if (case pf_min_response_time f of Some t \<Rightarrow> f_lt (avg_response_time p) t | None \<Rightarrow> False) then False
      else if (case pf_max_response_time f of Some t \<Rightarrow> f_lt t (avg_response_time p) | None \<Rightarrow> False) then False
      else if pf_exclude_types f \<noteq> [] \<and>
        list_ex (\<lambda>t. list_ex (\<lambda>e. protocol_family e = protocol_family t) (pf_exclude_types f)) (carried_types p)
        then False
      else True)"

text \<open>The chain of library filters the same options ask for.\<close>

definition library_keeps :: "output_filter_options \<Rightarrow> proxy \<Rightarrow> bool" where
  "library_keeps o' p \<longleftrightarrow>
     (\<forall>n \<in> set_option (opt_min_anonymity o').
        keep_min_anonymity (case anonymity_from_name n of Some a \<Rightarrow> a | None \<Rightarrow> Unknown) p) \<and>
     (List.map_filter anonymity_from_name (opt_levels o') \<noteq> [] \<longrightarrow>
        keep_levels (List.map_filter anonymity_from_name (opt_levels o')) p) \<and>
     (\<forall>t \<in> set_option (opt_min_response_time o'). keep_min_response_time t p) \<and>
     (\<forall>t \<in> set_option (opt_max_response_time o'). keep_max_response_time t p) \<and>
     (\<forall>s \<in> set_option (opt_min_score o'). keep_min_score s p) \<and>
     keep_not_excluded (List.map_filter parse_protocol_opt (opt_exclude_type o')) p"

lemma filter_matches_conj:
  "filter_matches f p \<longleftrightarrow>
     (\<forall>m \<in> set_option (pf_min_anonymity_rank f). \<not> proxy_anonymity_rank p < m) \<and>
     (pf_levels f \<noteq> [] \<longrightarrow> keep_levels (pf_levels f) p) \<and>
     (\<forall>t \<in> set_option (pf_min_response_time f). \<not> f_lt (avg_response_time p) t) \<and>
     (\<forall>t \<in> set_option (pf_max_response_time f). \<not> f_lt t (avg_response_time p)) \<and>
     (\<forall>s \<in> set_option (pf_min_score f). keep_min_score s p) \<and>
     keep_not_excluded (pf_exclude_types f) p"
  unfolding filter_matches_def keep_levels_def keep_min_score_def keep_not_excluded_def is_excluded_def
  by (cases "pf_min_anonymity_rank f"; cases "pf_min_response_time f"; cases "pf_max_response_time f";
      cases "pf_min_score f") auto

lemma rank_from_name:
  "anonymity_rank_from_name n = rank (case anonymity_from_name n of Some a \<Rightarrow> a | None \<Rightarrow> Unknown)"
  by (simp add: anonymity_rank_from_name_def anonymity_from_name_def)

text \<open>The command line's filter and the chain of library stream filters that its options
  stand for keep the same proxies, as long as the measured average and the two time bounds
  are numbers.\<close>

theorem cli_filter_is_library_filter:
  assumes "avg_response_time p \<noteq> NaN"
    and "NaN \<notin> set_option (opt_min_response_time o')" and "NaN \<notin> set_option (opt_max_response_time o')"
  shows "filter_matches (filter_from_options o') p \<longleftrightarrow> library_keeps o' p"
proof -
  have mn: "\<not> f_lt (avg_response_time p) t \<longleftrightarrow> keep_min_response_time t p"
    if "t \<in> set_option (opt_min_response_time o')" for t
    using assms(1,2) that by (auto simp: keep_min_response_time_def f_lt_not_le)
  have mx: "\<not> f_lt t (avg_response_time p) \<longleftrightarrow> keep_max_response_time t p"
    if "t \<in> set_option (opt_max_response_time o')" for t
    using assms(1,3) that by (auto simp: keep_max_response_time_def f_lt_not_le)
  have ma: "\<not> proxy_anonymity_rank p < anonymity_rank_from_name n \<longleftrightarrow>
      keep_min_anonymity (case anonymity_from_name n of Some a \<Rightarrow> a | None \<Rightarrow> Unknown) p" for n
    by (simp only: rank_from_name keep_min_anonymity_def not_less)
  have me: "(\<forall>m \<in> set_option (pf_min_anonymity_rank (filter_from_options o')). \<not> proxy_anonymity_rank p < m) \<longleftrightarrow>
      (\<forall>n \<in> set_option (opt_min_anonymity o').
         keep_min_anonymity (case anonymity_from_name n of Some a \<Rightarrow> a | None \<Rightarrow> Unknown) p)"
    unfolding ma [symmetric] by (simp add: filter_from_options_def option.set_map)
  show ?thesis
    unfolding filter_matches_conj library_keeps_def me
    by (simp add: filter_from_options_def mn mx)
qed

definition demo_options :: output_filter_options where
  "demo_options = \<lparr>opt_min_anonymity = Some ''elite'', opt_levels = [], opt_min_response_time = None,
     opt_max_response_time = Some (Fin 2), opt_min_score = None, opt_exclude_type = [''SOCKS4'']\<rparr>"

theorem cli_filter_is_library_filter_witness:
  "filter_matches (filter_from_options demo_options) (proxy_new (Ipv4 1 2 3 4) 80) \<longleftrightarrow>
   library_keeps demo_options (proxy_new (Ipv4 1 2 3 4) 80)"
  by (rule cli_filter_is_library_filter)
    (simp_all add: demo_options_def proxy_new_def avg_response_time_def stats_avg_def stats_default_def)

end
