(* ===== verification/Health.thy ===== *)
theory Health
  imports Proxy_Model
begin

text \<open>
  The persistent health store of \<open>src/health.rs\<close>: aggregated statistics per endpoint,
  the score computed from them, the append-only record file and its replay when the
  store is opened. The JSON encoder and decoder (serde) and the outcome of each write
  are parameters.
\<close>

section \<open>Statistics and records\<close>

type_synonym endpoint = "ipv4 \<times> u16"

record health_stats =
  hs_successes :: nat
  hs_failures :: nat
  hs_latency_total :: f64
  hs_level :: "anonymity option"
  hs_last_checked :: f64

definition health_default :: health_stats where
  "health_default = \<lparr>hs_successes = 0, hs_failures = 0, hs_latency_total = Fin 0, hs_level = None,
     hs_last_checked = Fin 0\<rparr>"

record health_record =
  hr_schema :: nat
  hr_timestamp :: f64
  hr_ip :: ipv4
  hr_port :: u16
  hr_protocol :: string
  hr_success :: bool
  hr_latency :: "f64 option"
  hr_level :: "anonymity option"
  hr_reason :: "string option"

definition schema_version :: nat where
  "schema_version = 1"

definition max_record_bytes :: nat where
  "max_record_bytes = 16 * 1024"

text \<open>\<open>u64::saturating_add\<close>.\<close>

definition sat_add :: "nat \<Rightarrow> nat \<Rightarrow> nat" where
  "sat_add a b = min (2 ^ 64 - 1) (a + b)"

definition usable_latency :: "f64 option \<Rightarrow> f64 option" where
  "usable_latency l = (case l of Some v \<Rightarrow> if is_finite v \<and> f_le (Fin 0) v then Some v else None | None \<Rightarrow> None)"

definition better_level :: "anonymity option \<Rightarrow> anonymity option \<Rightarrow> anonymity option" where
  "better_level current observed =
     (case observed of
        None \<Rightarrow> current
      | Some a \<Rightarrow> (if (case current of None \<Rightarrow> True | Some c \<Rightarrow> rank c < rank a) then Some a else current))"

definition update_stats :: "health_stats \<Rightarrow> health_record \<Rightarrow> health_stats" where
  "update_stats entry r =
     (let entry1 =
        (if hr_success r then
           entry\<lparr>hs_successes := sat_add (hs_successes entry) 1,
                 hs_latency_total := (case usable_latency (hr_latency r) of
                     Some l \<Rightarrow> f_add (hs_latency_total entry) l | None \<Rightarrow> hs_latency_total entry),
                 hs_level := better_level (hs_level entry) (hr_level r)\<rparr>
         else entry\<lparr>hs_failures := sat_add (hs_failures entry) 1\<rparr>)
      in entry1\<lparr>hs_last_checked := hr_timestamp r\<rparr>)"

definition apply_record :: "(endpoint \<rightharpoonup> health_stats) \<Rightarrow> health_record \<Rightarrow> (endpoint \<rightharpoonup> health_stats)" where
  "apply_record state r =
     (let key = (hr_ip r, hr_port r);
          entry = (case state key of Some e \<Rightarrow> e | None \<Rightarrow> health_default)
      in state(key \<mapsto> update_stats entry r))"

section \<open>The score\<close>

fun f_neg :: "f64 \<Rightarrow> f64" where
  "f_neg (Fin a) = Fin (- a)"
| "f_neg PInf = NInf"
| "f_neg NInf = PInf"
| "f_neg NaN = NaN"

text \<open>Multiplication by a positive constant.\<close>

fun f_scale :: "real \<Rightarrow> f64 \<Rightarrow> f64" where
  "f_scale c (Fin a) = Fin (c * a)"
| "f_scale c x = x"

text \<open>\<open>f64::clamp\<close>: NaN stays NaN.\<close>

definition f_clamp :: "f64 \<Rightarrow> f64 \<Rightarrow> f64 \<Rightarrow> f64" where
  "f_clamp x lo hi = (if f_lt x lo then lo else if f_lt hi x then hi else x)"

fun level_points :: "anonymity \<Rightarrow> real" where
  "level_points Transparent = 0"
| "level_points Anonymous = 50"
| "level_points Elite = 100"
| "level_points Unknown = 0"

definition score_stats :: "health_stats \<Rightarrow> health_score" where
  "score_stats s =
     (let total = sat_add (hs_successes s) (hs_failures s);
          reliability = (if total = 0 then Fin 0
                         else Fin (real (hs_successes s) / real total * 100));
          avg_latency = (if hs_successes s = 0 then Fin 5
                         else f_div_count (hs_latency_total s) (hs_successes s));
          speed = f_clamp (f_scale 100 (f_add (Fin 1) (f_neg (f_scale (1 / 5) avg_latency)))) (Fin 0) (Fin 100);
          anonymity = (case hs_level s of Some l \<Rightarrow> Fin (level_points l) | None \<Rightarrow> Fin 0)
      in \<lparr>hs_reliability = reliability, hs_speed = speed, hs_anonymity = anonymity,
          hs_total = f_clamp (f_add (f_add (f_scale (60 / 100) reliability) (f_scale (25 / 100) speed))
                                    (f_scale (15 / 100) anonymity)) (Fin 0) (Fin 100)\<rparr>)"

section \<open>The store\<close>

record health_store =
  st_state :: "endpoint \<rightharpoonup> health_stats"
  st_file :: string

definition store_stats :: "health_store \<Rightarrow> ipv4 \<Rightarrow> u16 \<Rightarrow> health_stats option" where
  "store_stats st ip port = st_state st (ip, port)"

definition store_score :: "health_store \<Rightarrow> ipv4 \<Rightarrow> u16 \<Rightarrow> health_score option" where
  "store_score st ip port = map_option score_stats (store_stats st ip port)"

text \<open>
  What happens to one append: it is written and flushed, or it fails after a part of the
  body reached the file. A failure caused by runtime shutdown reopens the file and
  appends once more; other failures, and a failed reopening, are returned.
\<close>

datatype append_io =
    Appended
  | AppendFails string
  | ShutdownThenAppended string
  | ShutdownThenFails string string

datatype health_error = SerializeFailed | RecordTooLarge | AppendFailed

definition newline :: char where
  "newline = char_of (10 :: nat)"

definition store_record ::
  "(health_record \<Rightarrow> string option) \<Rightarrow> append_io \<Rightarrow> health_store \<Rightarrow> health_record \<Rightarrow>
   (health_error + unit) \<times> health_store" where
  "store_record to_json io st r =
     (case to_json r of
        None \<Rightarrow> (Inl SerializeFailed, st)
      | Some body0 \<Rightarrow>
          if length body0 > max_record_bytes then (Inl RecordTooLarge, st)
          else
            (let body = body0 @ [newline];
                 commit = (\<lambda>pre. (Inr (), st\<lparr>st_state := apply_record (st_state st) r,
                                              st_file := st_file st @ pre @ body\<rparr>))
             in case io of
                  Appended \<Rightarrow> commit []
                | AppendFails part \<Rightarrow> (Inl AppendFailed, st\<lparr>st_file := st_file st @ part\<rparr>)
                | ShutdownThenAppended part \<Rightarrow> commit part
                | ShutdownThenFails part part' \<Rightarrow>
                    (Inl AppendFailed, st\<lparr>st_file := st_file st @ part @ part'\<rparr>)))"

definition success_record ::
  "f64 \<Rightarrow> ipv4 \<Rightarrow> u16 \<Rightarrow> protocol \<Rightarrow> f64 \<Rightarrow> anonymity option \<Rightarrow> health_record" where
  "success_record now ip port p latency level =
     \<lparr>hr_schema = schema_version, hr_timestamp = now, hr_ip = ip, hr_port = port,
      hr_protocol = show_protocol p, hr_success = True, hr_latency = Some latency, hr_level = level,
      hr_reason = None\<rparr>"

definition failure_record :: "f64 \<Rightarrow> ipv4 \<Rightarrow> u16 \<Rightarrow> protocol \<Rightarrow> string \<Rightarrow> health_record" where
  "failure_record now ip port p reason =
     \<lparr>hr_schema = schema_version, hr_timestamp = now, hr_ip = ip, hr_port = port,
      hr_protocol = show_protocol p, hr_success = False, hr_latency = None, hr_level = None,
      hr_reason = Some reason\<rparr>"

text \<open>Opening: the file's lines are replayed, blank and undecodable ones are skipped.\<close>

definition load_line ::
  "(string \<Rightarrow> health_record option) \<Rightarrow> (endpoint \<rightharpoonup> health_stats) \<Rightarrow> string \<Rightarrow> (endpoint \<rightharpoonup> health_stats)" where
  "load_line of_json state line =
     (if trim line = [] then state
      else (case of_json line of
              Some r \<Rightarrow> if hr_schema r = schema_version then apply_record state (r\<lparr>hr_reason := None\<rparr>) else state
            | None \<Rightarrow> state))"

definition load_state :: "(string \<Rightarrow> health_record option) \<Rightarrow> string option \<Rightarrow> (endpoint \<rightharpoonup> health_stats)" where
  "load_state of_json file =
     (case file of None \<Rightarrow> Map.empty | Some body \<Rightarrow> foldl (load_line of_json) Map.empty (lines_of body))"

definition store_open :: "(string \<Rightarrow> health_record option) \<Rightarrow> string option \<Rightarrow> health_store" where
  "store_open of_json file =
     \<lparr>st_state = load_state of_json file, st_file = (case file of Some b \<Rightarrow> b | None \<Rightarrow> [])\<rparr>"

section \<open>Statistics of a history\<close>

definition history_stats :: "health_record list \<Rightarrow> health_stats" where
  "history_stats rs = foldl update_stats health_default rs"

lemma history_stats_snoc: "history_stats (rs @ [r]) = update_stats (history_stats rs) r"
  by (simp add: history_stats_def)

definition history_of :: "endpoint \<Rightarrow> health_record list \<Rightarrow> health_record list" where
  "history_of key rs = filter (\<lambda>r. (hr_ip r, hr_port r) = key) rs"

text \<open>Each endpoint's entry is the fold of its own records: endpoints do not interfere.\<close>

lemma foldl_apply_record:
  "foldl apply_record Map.empty rs key =
     (if history_of key rs = [] then None else Some (history_stats (history_of key rs)))"
proof (induction rs rule: rev_induct)
  case Nil
  then show ?case by (simp add: history_of_def)
next
  case (snoc r rs)
  show ?case
  proof (cases "(hr_ip r, hr_port r) = key")
    case True
    then have h: "history_of key (rs @ [r]) = history_of key rs @ [r]" by (simp add: history_of_def)
    show ?thesis
      using snoc True
      by (cases "history_of key rs = []")
        (auto simp: h apply_record_def Let_def history_stats_snoc history_stats_def)
  next
    case False
    then have "history_of key (rs @ [r]) = history_of key rs" by (simp add: history_of_def)
    with False snoc show ?thesis by (auto simp: apply_record_def Let_def)
  qed
qed

lemma history_counts:
  "hs_successes (history_stats rs) = min (2 ^ 64 - 1) (length (filter hr_success rs))"
  "hs_failures (history_stats rs) = min (2 ^ 64 - 1) (length (filter (\<lambda>r. \<not> hr_success r) rs))"
  by (induction rs rule: rev_induct)
    (auto simp: history_stats_snoc update_stats_def Let_def sat_add_def history_stats_def health_default_def)

definition latency_of :: "health_record \<Rightarrow> real" where
  "latency_of r =
     (case (hr_success r, usable_latency (hr_latency r)) of (True, Some (Fin l)) \<Rightarrow> l | _ \<Rightarrow> 0)"

lemma usable_latency_Fin:
  "usable_latency l = Some v \<Longrightarrow> \<exists>a. v = Fin a \<and> 0 \<le> a"
  by (cases l; cases v) (auto simp: usable_latency_def split: if_splits)

lemma latency_of_nonneg: "0 \<le> latency_of r"
  using usable_latency_Fin [of "hr_latency r"]
  by (auto simp: latency_of_def split: bool.splits option.splits f64.splits)

lemma history_latency:
  "hs_latency_total (history_stats rs) = Fin (sum_list (map latency_of rs))"
proof (induction rs rule: rev_induct)
  case Nil
  then show ?case by (simp add: history_stats_def health_default_def)
next
  case (snoc r rs)
  then show ?case
    using usable_latency_Fin [of "hr_latency r"]
    by (cases "usable_latency (hr_latency r)")
      (auto simp: history_stats_snoc update_stats_def Let_def latency_of_def)
qed

end
