(* ===== verification/Dedup.thy ===== *)
theory Dedup
  imports Proxy_Model
begin

text \<open>
  The bounded table of endpoints the fetcher has already emitted
  (\<open>src/fetcher/dedup.rs\<close>): a hash set for membership, a queue for the order of
  insertion, a capacity. The interface \<open>recent_set\<close> is what the fetcher relies on:
  a key is refused exactly while it is among the most recent ones. The hash of a
  protocol list (\<open>DefaultHasher\<close>) is a parameter of the fetcher.
\<close>

section \<open>The interface\<close>

text \<open>No two equal elements at a distance of at most \<open>w\<close>.\<close>

definition spaced :: "nat \<Rightarrow> 'a list \<Rightarrow> bool" where
  "spaced w xs \<longleftrightarrow> (\<forall>j < length xs. \<forall>i < j. j \<le> i + w \<longrightarrow> xs ! i \<noteq> xs ! j)"

lemma spaced_Nil [simp]: "spaced w []"
  by (simp add: spaced_def)

lemma spaced_snoc:
  "spaced w (xs @ [x]) \<longleftrightarrow> spaced w xs \<and> x \<notin> set (drop (length xs - w) xs)"
proof -
  have "x \<notin> set (drop (length xs - w) xs) \<longleftrightarrow> (\<forall>i < length xs. length xs \<le> i + w \<longrightarrow> xs ! i \<noteq> x)"
  proof -
    have "set (drop (length xs - w) xs) = {xs ! i | i. length xs - w \<le> i \<and> i < length xs}"
      by (auto simp: in_set_conv_nth) (metis add.commute le_add2 le_add_diff_inverse2 less_diff_conv nat_less_le, metis le_add_diff_inverse diff_less_mono)
    then show ?thesis by (force simp: le_diff_conv)
  qed
  then show ?thesis
    by (auto simp: spaced_def nth_append less_Suc_eq)
qed

lemma spaced_distinct:
  assumes "spaced w xs" and "length xs \<le> Suc w"
  shows "distinct xs"
proof -
  have "xs ! i \<noteq> xs ! j" if "i < j" "j < length xs" for i j
    using assms that by (auto simp: spaced_def)
  then show ?thesis by (metis distinct_conv_nth linorder_neqE_nat)
qed

locale recent_set =
  fixes put :: "'s \<Rightarrow> 'k \<Rightarrow> bool \<times> 's"
    and recent :: "'s \<Rightarrow> 'k list"
    and window :: "'s \<Rightarrow> nat"
    and ok :: "'s \<Rightarrow> bool"
  assumes put_known: "ok s \<Longrightarrow> k \<in> set (recent s) \<Longrightarrow> put s k = (False, s)"
    and put_new: "ok s \<Longrightarrow> k \<notin> set (recent s) \<Longrightarrow> put s k = (b, s') \<Longrightarrow>
        b \<and> recent s' = (if length (recent s) < window s then recent s else tl (recent s)) @ [k] \<and>
        window s' = window s"
    and put_ok: "ok s \<Longrightarrow> put s k = (b, s') \<Longrightarrow> ok s'"
    and recent_bounded: "ok s \<Longrightarrow> length (recent s) \<le> max 1 (window s)"
begin

fun put_all :: "'s \<Rightarrow> 'k list \<Rightarrow> 'k list \<times> 's" where
  "put_all s [] = ([], s)"
| "put_all s (k # ks) =
     (case put s k of (b, s1) \<Rightarrow> (case put_all s1 ks of (acc, s2) \<Rightarrow> (if b then k # acc else acc, s2)))"

definition remembers :: "'k list \<Rightarrow> 's \<Rightarrow> bool" where
  "remembers h s \<longleftrightarrow> ok s \<and> recent s = drop (length h - max 1 (window s)) h \<and> spaced (max 1 (window s)) h"

lemma remembers_put_known:
  "remembers h s \<Longrightarrow> k \<in> set (recent s) \<Longrightarrow> put s k = (False, s)"
  by (simp add: remembers_def put_known)

lemma remembers_put_new:
  assumes r: "remembers h s" and k: "k \<notin> set (recent s)" and p: "put s k = (b, s')"
  shows "b \<and> remembers (h @ [k]) s' \<and> window s' = window s"
proof -
  let ?w = "max 1 (window s)"
  from r have ok: "ok s" and rec: "recent s = drop (length h - ?w) h" and sp: "spaced ?w h"
    by (auto simp: remembers_def)
  from put_new [OF ok k p] put_ok [OF ok p] have b: b and ok': "ok s'" and w: "window s' = window s"
    and rec': "recent s' = (if length (recent s) < window s then recent s else tl (recent s)) @ [k]"
    by auto
  have "recent s' = drop (length (h @ [k]) - ?w) (h @ [k])"
  proof (cases "length h < ?w")
    case True
    then have "recent s = h" using rec by simp
    with rec' True show ?thesis by (cases h) (auto split: if_splits)
  next
    case False
    then have "length (recent s) = ?w" using rec by simp
    with rec' rec have "recent s' = tl (drop (length h - ?w) h) @ [k]" by auto
    also have "tl (drop (length h - ?w) h) = drop (Suc (length h) - ?w) h"
      using False by (metis Suc_diff_le drop_Suc linorder_not_less tl_drop)
    finally show ?thesis using False by (simp add: max_def split: if_splits)
  qed
  moreover have "spaced ?w (h @ [k])"
    using sp k rec by (simp add: spaced_snoc)
  ultimately show ?thesis using b ok' w by (simp add: remembers_def)
qed

lemma put_all_remembers:
  "remembers h s \<Longrightarrow> put_all s ks = (acc, s') \<Longrightarrow> remembers (h @ acc) s' \<and> window s' = window s"
proof (induction ks arbitrary: s h acc s')
  case Nil
  then show ?case by simp
next
  case (Cons k ks)
  obtain b s1 where p: "put s k = (b, s1)" by (cases "put s k")
  obtain acc2 s2 where q: "put_all s1 ks = (acc2, s2)" by (cases "put_all s1 ks")
  show ?case
  proof (cases "k \<in> set (recent s)")
    case True
    with Cons p q remembers_put_known show ?thesis by fastforce
  next
    case False
    from remembers_put_new [OF Cons.prems(1) False p] have "b" "remembers (h @ [k]) s1" "window s1 = window s"
      by auto
    with Cons.IH [OF this(2) q] Cons.prems(2) p q show ?thesis by auto
  qed
qed

lemma put_all_spaced:
  "ok s \<Longrightarrow> recent s = [] \<Longrightarrow> put_all s ks = (acc, s') \<Longrightarrow> spaced (max 1 (window s)) acc"
  using put_all_remembers [of "[]" s ks acc s'] by (auto simp: remembers_def)

lemma put_all_exact:
  "remembers h s \<Longrightarrow> length (dedup_seen h ks) + length h \<le> max 1 (window s) \<Longrightarrow>
   fst (put_all s ks) = dedup_seen h ks"
proof (induction ks arbitrary: s h)
  case Nil
  then show ?case by simp
next
  case (Cons k ks)
  obtain b s1 where p: "put s k = (b, s1)" by (cases "put s k")
  have rec: "recent s = h" using Cons.prems by (simp add: remembers_def)
  show ?case
  proof (cases "k \<in> set h")
    case True
    with remembers_put_known [OF Cons.prems(1)] rec p have "\<not> b" "s1 = s" by auto
    with Cons True p show ?thesis by (simp split: prod.splits)
  next
    case False
    from remembers_put_new [OF Cons.prems(1) _ p] False rec
    have "b" "remembers (h @ [k]) s1" "window s1 = window s" by auto
    with Cons.IH [of "h @ [k]" s1] Cons.prems(2) False p show ?thesis
      by (cases "put_all s1 ks") auto
  qed
qed

end

section \<open>The table\<close>

type_synonym endpoint_key = "ipv4 \<times> u16 \<times> u64"

record dedup_table =
  dt_seen :: "endpoint_key set"
  dt_order :: "endpoint_key list"
  dt_capacity :: nat

definition MAX_DEDUP_ENDPOINTS :: nat where
  "MAX_DEDUP_ENDPOINTS = 100000"

definition dedup_with_capacity :: "nat \<Rightarrow> dedup_table" where
  "dedup_with_capacity n = \<lparr>dt_seen = {}, dt_order = [], dt_capacity = n\<rparr>"

definition dedup_new :: dedup_table where
  "dedup_new = dedup_with_capacity MAX_DEDUP_ENDPOINTS"

definition dedup_insert :: "dedup_table \<Rightarrow> endpoint_key \<Rightarrow> bool \<times> dedup_table" where
  "dedup_insert t k =
     (if k \<in> dt_seen t then (False, t)
      else let t1 = t\<lparr>dt_seen := insert k (dt_seen t)\<rparr>;
               t2 = (if card (dt_seen t1) > dt_capacity t1
                     then (case dt_order t1 of
                             [] \<Rightarrow> t1
                           | oldest # rest \<Rightarrow> t1\<lparr>dt_order := rest, dt_seen := dt_seen t1 - {oldest}\<rparr>)
                     else t1)
           in (True, t2\<lparr>dt_order := dt_order t2 @ [k]\<rparr>))"

definition dedup_ok :: "dedup_table \<Rightarrow> bool" where
  "dedup_ok t \<longleftrightarrow> dt_seen t = set (dt_order t) \<and> distinct (dt_order t) \<and>
     length (dt_order t) \<le> max 1 (dt_capacity t)"

lemma dedup_ok_with_capacity [inv_intros]: "dedup_ok (dedup_with_capacity n)"
  by (simp add: dedup_ok_def dedup_with_capacity_def)

lemma dedup_insert_new:
  assumes ok: "dedup_ok t" and new: "k \<notin> dt_seen t"
  shows "dedup_insert t k =
    (True, let q = (if length (dt_order t) < dt_capacity t then dt_order t else tl (dt_order t)) @ [k]
           in t\<lparr>dt_seen := set q, dt_order := q\<rparr>)"
proof -
  from ok have d: "distinct (dt_order t)" and s: "dt_seen t = set (dt_order t)"
    by (auto simp: dedup_ok_def)
  have c: "card (insert k (set (dt_order t))) = Suc (length (dt_order t))"
    using new s d by (simp add: distinct_card)
  show ?thesis
    using new d s c
    by (cases t; cases "dt_order t") (auto simp: dedup_insert_def Let_def)
qed

lemma dedup_insert_ok:
  assumes ok: "dedup_ok t" and p: "dedup_insert t k = (b, t')"
  shows "dedup_ok t'"
proof (cases "k \<in> dt_seen t")
  case True
  with assms show ?thesis by (simp add: dedup_insert_def)
next
  case False
  with ok have k: "k \<notin> set (dt_order t)" "distinct (dt_order t)" "length (dt_order t) \<le> max 1 (dt_capacity t)"
    by (auto simp: dedup_ok_def)
  moreover have "set (tl (dt_order t)) \<subseteq> set (dt_order t)" by (cases "dt_order t") auto
  ultimately show ?thesis
    using dedup_insert_new [OF ok False] p
    by (auto simp: dedup_ok_def Let_def distinct_tl)
qed

interpretation dedup: recent_set dedup_insert dt_order dt_capacity dedup_ok
proof
  fix t t' :: dedup_table and k b
  assume ok: "dedup_ok t"
  show "k \<in> set (dt_order t) \<Longrightarrow> dedup_insert t k = (False, t)"
    using ok by (simp add: dedup_insert_def dedup_ok_def)
  show "k \<notin> set (dt_order t) \<Longrightarrow> dedup_insert t k = (b, t') \<Longrightarrow>
      b \<and> dt_order t' = (if length (dt_order t) < dt_capacity t then dt_order t else tl (dt_order t)) @ [k] \<and>
      dt_capacity t' = dt_capacity t"
    using dedup_insert_new [OF ok, of k] ok by (auto simp: dedup_ok_def Let_def)
  show "dedup_insert t k = (b, t') \<Longrightarrow> dedup_ok t'"
    by (rule dedup_insert_ok [OF ok])
  show "length (dt_order t) \<le> max 1 (dt_capacity t)"
    using ok by (simp add: dedup_ok_def)
qed

end
