(* ===== verification/Fetcher.thy ===== *)
theory Fetcher
  imports Dedup Stream_Filters
begin

text \<open>
  The fetcher (\<open>src/fetcher/mod.rs\<close>, \<open>src/fetcher/phase.rs\<close>): which candidates
  \<open>accept_proxy\<close> lets through, the stream \<open>ProxyFetcher\<close> polls, the threshold that
  stops the providers, the forwarding of one source's rows with its retries, and the
  per-host throttle. The channel is the script of its answers; the GeoIP lookup, the
  hash of a protocol list, the rows of a body and the clock are parameters.
\<close>

section \<open>Accepting a candidate\<close>

record fetch_config =
  enforce_unique_ip :: bool
  fc_countries :: "string set"
  fc_excluded_countries :: "string set"
  fallback_threshold :: "nat option"

record gate =
  unique_ips :: dedup_table
  gate_counter :: nat
  gate_accepted :: nat
  stop_signaled :: bool
  stop_sent :: bool

definition gate_new :: gate where
  "gate_new = \<lparr>unique_ips = dedup_new, gate_counter = 0, gate_accepted = 0,
     stop_signaled = False, stop_sent = False\<rparr>"

definition endpoint_key_of :: "(protocol list \<Rightarrow> u64) \<Rightarrow> proxy \<Rightarrow> endpoint_key" where
  "endpoint_key_of protocol_hash p = (px_ip p, px_port p, protocol_hash (expected_types p))"

definition accept_proxy ::
  "(protocol list \<Rightarrow> u64) \<Rightarrow> (ipv4 \<Rightarrow> geo_data option) \<Rightarrow> fetch_config \<Rightarrow> gate \<Rightarrow> proxy \<Rightarrow> proxy option \<times> gate" where
  "accept_proxy protocol_hash lookup cfg g p =
     (let (fresh, g1) =
        (if enforce_unique_ip cfg
         then (case dedup_insert (unique_ips g) (endpoint_key_of protocol_hash p) of
                 (b, t) \<Rightarrow> (b, g\<lparr>unique_ips := t\<rparr>))
         else (True, g))
      in if \<not> fresh then (None, g1)
         else case lookup (px_ip p) of
           None \<Rightarrow> (Some p, g1\<lparr>gate_counter := gate_counter g1 + 1, gate_accepted := gate_accepted g1 + 1\<rparr>)
         | Some geo \<Rightarrow>
             if fc_countries cfg \<noteq> {} \<and>
                \<not> (case iso_code geo of None \<Rightarrow> False | Some code \<Rightarrow> code \<in> fc_countries cfg)
             then (None, g1)
             else if fc_excluded_countries cfg \<noteq> {} \<and>
                (case iso_code geo of None \<Rightarrow> False | Some code \<Rightarrow> code \<in> fc_excluded_countries cfg)
             then (None, g1)
             else (Some (p\<lparr>px_geo := geo\<rparr>),
                   g1\<lparr>gate_counter := gate_counter g1 + 1, gate_accepted := gate_accepted g1 + 1\<rparr>))"

definition accept ::
  "(protocol list \<Rightarrow> u64) \<Rightarrow> (ipv4 \<Rightarrow> geo_data option) \<Rightarrow> fetch_config \<Rightarrow> gate \<Rightarrow> proxy \<Rightarrow> proxy option \<times> gate" where
  "accept protocol_hash lookup cfg g p =
     (case accept_proxy protocol_hash lookup cfg g p of
        (None, g1) \<Rightarrow> (None, g1)
      | (Some q, g1) \<Rightarrow>
          (Some q,
           case fallback_threshold cfg of
             None \<Rightarrow> g1
           | Some threshold \<Rightarrow>
               if gate_accepted g1 \<ge> threshold \<and> \<not> stop_signaled g1
               then g1\<lparr>stop_signaled := True, stop_sent := True\<rparr> else g1))"

text \<open>The part of \<open>accept_proxy\<close> after the duplicate check.\<close>

definition located :: "(ipv4 \<Rightarrow> geo_data option) \<Rightarrow> fetch_config \<Rightarrow> proxy \<Rightarrow> proxy option" where
  "located lookup cfg p =
     (case lookup (px_ip p) of
        None \<Rightarrow> Some p
      | Some geo \<Rightarrow>
          if (fc_countries cfg \<noteq> {} \<longrightarrow> (\<exists>code. iso_code geo = Some code \<and> code \<in> fc_countries cfg)) \<and>
             (\<forall>code. iso_code geo = Some code \<longrightarrow> code \<notin> fc_excluded_countries cfg)
          then Some (p\<lparr>px_geo := geo\<rparr>) else None)"

lemma accept_proxy_located:
  "accept_proxy h lookup cfg g p =
     (let (fresh, t) = (if enforce_unique_ip cfg then dedup_insert (unique_ips g) (endpoint_key_of h p)
                        else (True, unique_ips g));
          r = (if fresh then located lookup cfg p else None);
          k = (if r = None then 0 else 1)
      in (r, g\<lparr>unique_ips := t, gate_counter := gate_counter g + k, gate_accepted := gate_accepted g + k\<rparr>))"
  by (auto simp: accept_proxy_def located_def Let_def split: prod.splits option.splits if_splits)

fun accept_all ::
  "(protocol list \<Rightarrow> u64) \<Rightarrow> (ipv4 \<Rightarrow> geo_data option) \<Rightarrow> fetch_config \<Rightarrow> gate \<Rightarrow> proxy list \<Rightarrow> proxy list \<times> gate" where
  "accept_all h lookup cfg g [] = ([], g)"
| "accept_all h lookup cfg g (p # ps) =
     (case accept h lookup cfg g p of
        (r, g1) \<Rightarrow> (case accept_all h lookup cfg g1 ps of
           (out, g2) \<Rightarrow> (case r of None \<Rightarrow> out | Some q \<Rightarrow> q # out, g2)))"

text \<open>Keeping the first candidate of every key.\<close>

fun first_by :: "('a \<Rightarrow> 'k) \<Rightarrow> 'k list \<Rightarrow> 'a list \<Rightarrow> 'a list" where
  "first_by key seen [] = []"
| "first_by key seen (x # xs) =
     (if key x \<in> set seen then first_by key seen xs else x # first_by key (seen @ [key x]) xs)"

lemma map_first_by: "map key (first_by key seen xs) = dedup_seen seen (map key xs)"
  by (induction xs arbitrary: seen) auto

lemma first_by_inserts:
  assumes "dedup.remembers h (unique_ips g)" and "enforce_unique_ip cfg"
  shows "accept hash lookup cfg g p = (r, g1) \<Longrightarrow>
    (if endpoint_key_of hash p \<in> set (dt_order (unique_ips g)) then r = None \<and> unique_ips g1 = unique_ips g
     else r = located lookup cfg p \<and> dedup.remembers (h @ [endpoint_key_of hash p]) (unique_ips g1) \<and>
       dt_capacity (unique_ips g1) = dt_capacity (unique_ips g))"
proof -
  let ?k = "endpoint_key_of hash p"
  obtain b t where d: "dedup_insert (unique_ips g) ?k = (b, t)" by (cases "dedup_insert (unique_ips g) ?k")
  assume a: "accept hash lookup cfg g p = (r, g1)"
  have out: "r = (if b then located lookup cfg p else None) \<and> unique_ips g1 = t"
    using a assms(2) d
    by (auto simp: accept_def accept_proxy_located Let_def split: option.splits if_splits)
  show ?thesis
  proof (cases "?k \<in> set (dt_order (unique_ips g))")
    case True
    with dedup.remembers_put_known [OF assms(1)] d out show ?thesis by simp
  next
    case False
    with dedup.remembers_put_new [OF assms(1) False d] out show ?thesis by simp
  qed
qed

lemma accept_all_exact:
  "dedup.remembers h (unique_ips g) \<Longrightarrow> enforce_unique_ip cfg \<Longrightarrow>
   length (first_by (endpoint_key_of hash) h ps) + length h \<le> max 1 (dt_capacity (unique_ips g)) \<Longrightarrow>
   fst (accept_all hash lookup cfg g ps) =
     List.map_filter (located lookup cfg) (first_by (endpoint_key_of hash) h ps)"
proof (induction ps arbitrary: g h)
  case Nil
  then show ?case by (simp add: map_filter_simps)
next
  case (Cons p ps)
  obtain r g1 where a: "accept hash lookup cfg g p = (r, g1)" by (cases "accept hash lookup cfg g p")
  have rec: "dt_order (unique_ips g) = h" using Cons.prems by (simp add: dedup.remembers_def)
  note step = first_by_inserts [OF Cons.prems(1,2) a, unfolded rec]
  show ?case
  proof (cases "endpoint_key_of hash p \<in> set h")
    case True
    with step have "r = None" "unique_ips g1 = unique_ips g" by auto
    with Cons.IH [of h g1] Cons.prems True a show ?thesis
      by (cases "accept_all hash lookup cfg g1 ps") auto
  next
    case False
    with step have "r = located lookup cfg p"
      "dedup.remembers (h @ [endpoint_key_of hash p]) (unique_ips g1)"
      "dt_capacity (unique_ips g1) = dt_capacity (unique_ips g)" by auto
    with Cons.IH [of "h @ [endpoint_key_of hash p]" g1] Cons.prems False a show ?thesis
      by (cases "accept_all hash lookup cfg g1 ps") (auto simp: map_filter_simps split: option.splits)
  qed
qed

lemma accept_counts:
  "accept hash lookup cfg g p = (r, g1) \<Longrightarrow>
   gate_accepted g1 = gate_accepted g + (if r = None then 0 else 1) \<and>
   stop_signaled g1 = (stop_signaled g \<or>
     r \<noteq> None \<and> (\<exists>t. fallback_threshold cfg = Some t \<and> t \<le> gate_accepted g1))"
  by (auto simp: accept_def accept_proxy_located Let_def split: option.splits if_splits prod.splits)

text \<open>The stop signal reaches the providers exactly when the flag is raised.\<close>

lemma accept_stop_sent:
  "accept hash lookup cfg g p = (r, g1) \<Longrightarrow> stop_sent g = stop_signaled g \<Longrightarrow> stop_sent g1 = stop_signaled g1"
  by (auto simp: accept_def accept_proxy_located Let_def split: option.splits if_splits prod.splits)

lemma accept_all_counts:
  "accept_all hash lookup cfg g ps = (out, g') \<Longrightarrow> stop_sent g = stop_signaled g \<Longrightarrow>
   gate_accepted g' = gate_accepted g + length out \<and> stop_sent g' = stop_signaled g' \<and>
   stop_signaled g' = (stop_signaled g \<or>
     out \<noteq> [] \<and> (\<exists>t. fallback_threshold cfg = Some t \<and> t \<le> gate_accepted g'))"
proof (induction ps arbitrary: g out g')
  case Nil
  then show ?case by simp
next
  case (Cons p ps)
  obtain r g1 where a: "accept hash lookup cfg g p = (r, g1)" by (cases "accept hash lookup cfg g p")
  obtain out1 g2 where b: "accept_all hash lookup cfg g1 ps = (out1, g2)"
    by (cases "accept_all hash lookup cfg g1 ps")
  from Cons.prems a b have o: "out = (case r of None \<Rightarrow> out1 | Some q \<Rightarrow> q # out1)" "g' = g2" by auto
  from Cons.prems have st: "stop_sent g = stop_signaled g" by simp
  from Cons.IH [OF b] accept_stop_sent [OF a st] accept_counts [OF a] o
  show ?case by (cases r) auto
qed

section \<open>The stream\<close>

record fetcher =
  ft_gate :: gate
  ft_prefetched :: "proxy option"
  ft_receiver :: "proxy upstream"

text \<open>\<open>check_drain\<close>: \<open>try_recv\<close> takes the next candidate only when it is there already.\<close>

fun check_drain :: "fetcher \<Rightarrow> fetcher" where
  "check_drain f =
     (case ft_receiver f of
        Some p # u \<Rightarrow> f\<lparr>ft_prefetched := Some p, ft_receiver := u\<rparr>
      | _ \<Rightarrow> f)"

function fetcher_poll ::
  "(protocol list \<Rightarrow> u64) \<Rightarrow> (ipv4 \<Rightarrow> geo_data option) \<Rightarrow> fetch_config \<Rightarrow> fetcher \<Rightarrow> proxy poll \<times> fetcher" where
  "fetcher_poll hash lookup cfg f =
     (case ft_prefetched f of
        Some p \<Rightarrow>
          (case accept hash lookup cfg (ft_gate f) p of
             (Some q, g) \<Rightarrow> (Ready (Some q), check_drain (f\<lparr>ft_prefetched := None, ft_gate := g\<rparr>))
           | (None, g) \<Rightarrow> fetcher_poll hash lookup cfg (f\<lparr>ft_prefetched := None, ft_gate := g\<rparr>))
      | None \<Rightarrow>
          (case ft_receiver f of
             [] \<Rightarrow> (Ready None, f)
           | None # u \<Rightarrow> (Pending, f\<lparr>ft_receiver := u\<rparr>)
           | Some p # u \<Rightarrow>
               (case accept hash lookup cfg (ft_gate f) p of
                  (Some q, g) \<Rightarrow> (Ready (Some q), check_drain (f\<lparr>ft_receiver := u, ft_gate := g\<rparr>))
                | (None, g) \<Rightarrow> fetcher_poll hash lookup cfg (f\<lparr>ft_receiver := u, ft_gate := g\<rparr>))))"
  by pat_completeness auto
termination
  by (relation "measure (\<lambda>(_, _, _, f). length (ft_receiver f) + (if ft_prefetched f = None then 0 else 1))") auto

declare fetcher_poll.simps [simp del] check_drain.simps [simp del]

definition waiting :: "fetcher \<Rightarrow> proxy list" where
  "waiting f = (case ft_prefetched f of None \<Rightarrow> [] | Some p \<Rightarrow> [p]) @ script_items (ft_receiver f)"

definition fetcher_work :: "fetcher \<Rightarrow> nat" where
  "fetcher_work f = length (ft_receiver f) + (if ft_prefetched f = None then 0 else 1)"

lemma check_drain_facts:
  assumes "ft_prefetched f = None"
  shows "ft_gate (check_drain f) = ft_gate f \<and> waiting (check_drain f) = waiting f \<and>
    fetcher_work (check_drain f) \<le> fetcher_work f"
proof (cases "ft_receiver f")
  case Nil
  then show ?thesis by (simp add: check_drain.simps)
next
  case (Cons a u)
  with assms show ?thesis
    by (cases a) (auto simp: check_drain.simps waiting_def fetcher_work_def)
qed

definition fetched :: "(protocol list \<Rightarrow> u64) \<Rightarrow> (ipv4 \<Rightarrow> geo_data option) \<Rightarrow> fetch_config \<Rightarrow> fetcher \<Rightarrow> proxy list" where
  "fetched hash lookup cfg f = fst (accept_all hash lookup cfg (ft_gate f) (waiting f))"

lemma fetched_step:
  assumes "waiting f = p # ps" and "accept hash lookup cfg (ft_gate f) p = (r, g)"
    and "ft_gate f' = g" and "waiting f' = ps"
  shows "fetched hash lookup cfg f =
    (case r of None \<Rightarrow> fetched hash lookup cfg f' | Some q \<Rightarrow> q # fetched hash lookup cfg f')"
  using assms by (cases "accept_all hash lookup cfg g ps") (auto simp: fetched_def split: option.splits)

lemma fetcher_poll_cases:
  "fetcher_poll hash lookup cfg f = (r, f') \<Longrightarrow>
   (case r of
      Ready (Some x) \<Rightarrow> fetched hash lookup cfg f = x # fetched hash lookup cfg f' \<and> fetcher_work f' < fetcher_work f
    | Ready None \<Rightarrow> fetched hash lookup cfg f = []
    | Pending \<Rightarrow> fetched hash lookup cfg f' = fetched hash lookup cfg f \<and> fetcher_work f' < fetcher_work f
    | Crash \<Rightarrow> False)"
proof (induction hash lookup cfg f rule: fetcher_poll.induct)
  case (1 hash lookup cfg f)
  have go: ?case
    if w: "waiting f = p # waiting f0" and w0: "fetcher_work f0 < fetcher_work f"
      and a: "accept hash lookup cfg (ft_gate f) p = (q, g)"
      and np: "ft_prefetched f0 = None" and g0: "ft_gate f0 = g"
      and step: "fetcher_poll hash lookup cfg f =
        (case q of Some x \<Rightarrow> (Ready (Some x), check_drain f0) | None \<Rightarrow> fetcher_poll hash lookup cfg f0)"
      and IH: "q = None \<Longrightarrow> fetcher_poll hash lookup cfg f0 = (r, f') \<Longrightarrow>
        (case r of
           Ready (Some x) \<Rightarrow> fetched hash lookup cfg f0 = x # fetched hash lookup cfg f' \<and> fetcher_work f' < fetcher_work f0
         | Ready None \<Rightarrow> fetched hash lookup cfg f0 = []
         | Pending \<Rightarrow> fetched hash lookup cfg f' = fetched hash lookup cfg f0 \<and> fetcher_work f' < fetcher_work f0
         | Crash \<Rightarrow> False)"
    for p f0 q g
  proof (cases q)
    case None
    with fetched_step [OF w a g0] step IH "1.prems" w0 show ?thesis
      by (auto split: poll.splits option.splits)
  next
    case (Some x)
    note d = check_drain_facts [OF np]
    have "fetched hash lookup cfg (check_drain f0) = fetched hash lookup cfg f0"
      using d by (simp add: fetched_def)
    with fetched_step [OF w a g0] step Some "1.prems" d w0 show ?thesis by auto
  qed
  show ?case
  proof (cases "ft_prefetched f")
    case (Some p)
    obtain q g where a: "accept hash lookup cfg (ft_gate f) p = (q, g)"
      by (cases "accept hash lookup cfg (ft_gate f) p")
    show ?thesis
      by (rule go [of p "f\<lparr>ft_prefetched := None, ft_gate := g\<rparr>" q g])
        (use Some a "1.IH"(2) [OF Some a [symmetric]] in
          \<open>auto simp: waiting_def fetcher_work_def fetcher_poll.simps [of hash lookup cfg f] split: option.splits\<close>)
  next
    case None
    show ?thesis
    proof (cases "ft_receiver f")
      case Nil
      with None "1.prems" show ?thesis
        by (auto simp: fetcher_poll.simps [of hash lookup cfg f] fetched_def waiting_def)
    next
      case (Cons a u)
      show ?thesis
      proof (cases a)
        case None': None
        with None Cons "1.prems" show ?thesis
          by (auto simp: fetcher_poll.simps [of hash lookup cfg f] fetched_def waiting_def fetcher_work_def)
      next
        case (Some p)
        obtain q g where ac: "accept hash lookup cfg (ft_gate f) p = (q, g)"
          by (cases "accept hash lookup cfg (ft_gate f) p")
        show ?thesis
          by (rule go [of p "f\<lparr>ft_receiver := u, ft_gate := g\<rparr>" q g])
            (use None Cons Some ac "1.IH"(1) [OF None Cons Some ac [symmetric]] in
              \<open>auto simp: waiting_def fetcher_work_def fetcher_poll.simps [of hash lookup cfg f] split: option.splits\<close>)
      qed
    qed
  qed
qed

interpretation fetching: poll_stream "fetcher_poll hash lookup cfg" "fetched hash lookup cfg" fetcher_work "\<lambda>_. True"
  for hash lookup cfg
proof
  fix f f' x
  show "fetcher_poll hash lookup cfg f = (Ready (Some x), f') \<Longrightarrow>
      fetched hash lookup cfg f = x # fetched hash lookup cfg f' \<and> fetcher_work f' < fetcher_work f \<and> True"
    using fetcher_poll_cases [of hash lookup cfg f "Ready (Some x)" f'] by simp
  show "fetcher_poll hash lookup cfg f = (Ready None, f') \<Longrightarrow> fetched hash lookup cfg f = []"
    using fetcher_poll_cases [of hash lookup cfg f "Ready None" f'] by simp
  show "fetcher_poll hash lookup cfg f = (Pending, f') \<Longrightarrow>
      fetched hash lookup cfg f' = fetched hash lookup cfg f \<and> fetcher_work f' < fetcher_work f \<and> True"
    using fetcher_poll_cases [of hash lookup cfg f Pending f'] by simp
  show "fst (fetcher_poll hash lookup cfg f) \<noteq> Crash"
    using fetcher_poll_cases [of hash lookup cfg f Crash "snd (fetcher_poll hash lookup cfg f)"]
    by (cases "fetcher_poll hash lookup cfg f") auto
qed

section \<open>What the fetcher delivers\<close>

definition fetcher_start :: "proxy upstream \<Rightarrow> fetcher" where
  "fetcher_start u = \<lparr>ft_gate = gate_new, ft_prefetched = None, ft_receiver = u\<rparr>"

lemma remembers_gate_new: "dedup.remembers [] (unique_ips gate_new)"
  by (simp add: dedup.remembers_def gate_new_def dedup_new_def dedup_with_capacity_def dedup_ok_def)

lemma capacity_gate_new: "dt_capacity (unique_ips gate_new) = 100000"
  by (simp add: gate_new_def dedup_new_def dedup_with_capacity_def MAX_DEDUP_ENDPOINTS_def)

definition demo_lookup :: "ipv4 \<Rightarrow> geo_data option" where
  "demo_lookup ip = Some (geo_default\<lparr>iso_code := Some (if ip = Ipv4 1 1 1 1 then ''US'' else ''CN'')\<rparr>)"

definition demo_fetch_config :: fetch_config where
  "demo_fetch_config = \<lparr>enforce_unique_ip = True, fc_countries = {}, fc_excluded_countries = {''CN''},
     fallback_threshold = Some 1\<rparr>"

text \<open>C10: with at most 100,000 distinct endpoints offered, polling the fetcher to its end yields, in
  order, the first candidate of every endpoint key that passes the country filters, each
  with its GeoIP record attached, and nothing else; however \<open>Pending\<close> and the prefetch
  slot interleave with the items.\<close>

theorem fetcher_emits_first_of_each:
  assumes "enforce_unique_ip cfg" and "length u < fuel"
    and "length (first_by (endpoint_key_of hash) [] (script_items u)) \<le> 100000"
  shows "drain (fetcher_poll hash lookup cfg) fuel (fetcher_start u) =
    Some (List.map_filter (located lookup cfg) (first_by (endpoint_key_of hash) [] (script_items u)))"
proof -
  have "drain (fetcher_poll hash lookup cfg) fuel (fetcher_start u) = Some (fetched hash lookup cfg (fetcher_start u))"
    using assms(2) by (intro fetching.drain_items) (auto simp: fetcher_work_def fetcher_start_def)
  also have "fetched hash lookup cfg (fetcher_start u) =
      List.map_filter (located lookup cfg) (first_by (endpoint_key_of hash) [] (script_items u))"
    using accept_all_exact [OF remembers_gate_new assms(1)] assms(3) capacity_gate_new
    by (simp add: fetched_def fetcher_start_def waiting_def)
  finally show ?thesis .
qed

theorem fetcher_emits_first_of_each_witness:
  "drain (fetcher_poll (\<lambda>ts. of_nat (length ts)) demo_lookup demo_fetch_config) 6
     (fetcher_start [Some (proxy_new (Ipv4 1 1 1 1) 80), None, Some (proxy_new (Ipv4 1 1 1 1) 80),
        Some (proxy_new (Ipv4 2 2 2 2) 80)]) =
   Some [(proxy_new (Ipv4 1 1 1 1) 80)\<lparr>px_geo := geo_default\<lparr>iso_code := Some ''US''\<rparr>\<rparr>]"
  using fetcher_emits_first_of_each
    [of demo_fetch_config "[Some (proxy_new (Ipv4 1 1 1 1) 80), None, Some (proxy_new (Ipv4 1 1 1 1) 80),
        Some (proxy_new (Ipv4 2 2 2 2) 80)]" 6 "\<lambda>ts. of_nat (length ts)" demo_lookup]
  by (simp add: demo_fetch_config_def demo_lookup_def located_def endpoint_key_of_def proxy_new_def
      map_filter_simps)

text \<open>The number of accepted candidates is the number yielded, and the providers are told to stop
  exactly when a threshold is set and reached by at least one accepted candidate.\<close>

theorem fetcher_stops_at_threshold:
  assumes "accept_all hash lookup cfg gate_new ps = (out, g)"
  shows "gate_accepted g = length out \<and>
    (stop_sent g \<longleftrightarrow> out \<noteq> [] \<and> (\<exists>t. fallback_threshold cfg = Some t \<and> t \<le> length out))"
  using accept_all_counts [OF assms] by (auto simp: gate_new_def)

theorem fetcher_stops_at_threshold_witness:
  "\<exists>out g. accept_all (\<lambda>ts. 0) demo_lookup demo_fetch_config gate_new [proxy_new (Ipv4 1 1 1 1) 80] = (out, g) \<and>
     gate_accepted g = length out \<and>
     stop_sent g = (out \<noteq> [] \<and> (\<exists>t. fallback_threshold demo_fetch_config = Some t \<and> t \<le> length out))"
  using fetcher_stops_at_threshold
    [of "\<lambda>ts. 0" demo_lookup demo_fetch_config "[proxy_new (Ipv4 1 1 1 1) 80]"]
  by (metis surj_pair)

end
