(* ===== verification/Source_Fetch.thy ===== *)
theory Source_Fetch
  imports Fetcher
begin

text \<open>
  One source of one provider (\<open>src/fetcher/phase.rs\<close>): the shared type sets, the
  spacing of requests to a host, the retry of a transient failure, and \<open>do_work\<close>,
  which fetches a body or takes the cached rows, forwards every row as a candidate and
  stores the rows of a complete pass. The provider's download, the visitor over the
  parsed body and the clock are parameters.
\<close>

section \<open>Type sets\<close>

definition HTTP_ARCS :: "protocol list list" where
  "HTTP_ARCS = [[Http Transparent], [Http Anonymous], [Http Elite], [Http Unknown]]"

definition HTTPS_ARCS :: "protocol list list" where
  "HTTPS_ARCS = [[Https Transparent], [Https Anonymous], [Https Elite], [Https Unknown]]"

fun anonymity_index :: "anonymity \<Rightarrow> nat" where
  "anonymity_index Transparent = 0"
| "anonymity_index Anonymous = 1"
| "anonymity_index Elite = 2"
| "anonymity_index Unknown = 3"

fun protocol_arc :: "protocol \<Rightarrow> protocol list" where
  "protocol_arc (Http a) = HTTP_ARCS ! anonymity_index a"
| "protocol_arc (Https a) = HTTPS_ARCS ! anonymity_index a"
| "protocol_arc Socks4 = [Socks4]"
| "protocol_arc Socks5 = [Socks5]"
| "protocol_arc (Connect port) = [Connect port]"

lemma anonymity_index_bound: "anonymity_index a < length HTTP_ARCS \<and> anonymity_index a < length HTTPS_ARCS"
  by (cases a) (simp_all add: HTTP_ARCS_def HTTPS_ARCS_def)

lemma protocol_arc_singleton [simp]: "protocol_arc p = [p]"
proof (cases p)
  case (Http a)
  then show ?thesis by (cases a) (simp_all add: HTTP_ARCS_def)
next
  case (Https a)
  then show ?thesis by (cases a) (simp_all add: HTTPS_ARCS_def)
qed simp_all

section \<open>The throttle\<close>

text \<open>Instants are naturals up to the last representable one.\<close>

definition checked_add :: "nat \<Rightarrow> nat \<Rightarrow> nat \<Rightarrow> nat option" where
  "checked_add latest t d = (if t + d \<le> latest then Some (t + d) else None)"

definition throttle_wait ::
  "nat \<Rightarrow> nat \<Rightarrow> (string \<rightharpoonup> nat) \<Rightarrow> nat \<Rightarrow> string \<Rightarrow> nat \<times> (string \<rightharpoonup> nat)" where
  "throttle_wait latest delay next_slot now host =
     (case next_slot host of
        Some previous \<Rightarrow>
          let avail_at = max previous now
          in (avail_at, next_slot(host \<mapsto> case checked_add latest avail_at delay of Some t \<Rightarrow> t | None \<Rightarrow> avail_at))
      | None \<Rightarrow>
          (now, next_slot(host \<mapsto> case checked_add latest now delay of Some t \<Rightarrow> t | None \<Rightarrow> now)))"

fun throttle_run ::
  "nat \<Rightarrow> nat \<Rightarrow> (string \<rightharpoonup> nat) \<Rightarrow> (nat \<times> string) list \<Rightarrow> (string \<times> nat \<times> nat) list" where
  "throttle_run latest delay next_slot [] = []"
| "throttle_run latest delay next_slot ((now, host) # calls) =
     (case throttle_wait latest delay next_slot now host of
        (avail_at, next_slot') \<Rightarrow> (host, now, avail_at) # throttle_run latest delay next_slot' calls)"

text \<open>Two calls, the earlier first: the later waits a full delay longer.\<close>

definition apart :: "nat \<Rightarrow> nat \<Rightarrow> string \<times> nat \<times> nat \<Rightarrow> string \<times> nat \<times> nat \<Rightarrow> bool" where
  "apart latest delay a b \<longleftrightarrow>
     (fst a = fst b \<and> snd (snd a) + delay \<le> latest \<longrightarrow> snd (snd a) + delay \<le> snd (snd b))"

lemma throttle_run_from:
  "(host, now, t) \<in> set (throttle_run latest delay next_slot calls) \<Longrightarrow> next_slot host = Some v \<Longrightarrow> v \<le> t"
proof (induction calls arbitrary: next_slot v)
  case Nil
  then show ?case by simp
next
  case (Cons c calls)
  obtain now' host' where c: "c = (now', host')" by (cases c)
  obtain a ns where w: "throttle_wait latest delay next_slot now' host' = (a, ns)"
    by (cases "throttle_wait latest delay next_slot now' host'")
  have "\<exists>v'. ns host = Some v' \<and> v \<le> v'" "host' = host \<Longrightarrow> v \<le> a"
    using w Cons.prems(2)
    by (auto simp: throttle_wait_def checked_add_def Let_def split: option.splits if_splits)
  with Cons c w show ?case
    by (auto dest: order_trans)
qed

lemma throttle_run_apart: "sorted_wrt (apart latest delay) (throttle_run latest delay next_slot calls)"
proof (induction calls arbitrary: next_slot)
  case Nil
  then show ?case by simp
next
  case (Cons c calls)
  obtain now host where c: "c = (now, host)" by (cases c)
  obtain a ns where w: "throttle_wait latest delay next_slot now host = (a, ns)"
    by (cases "throttle_wait latest delay next_slot now host")
  have "ns host = Some (if a + delay \<le> latest then a + delay else a)"
    using w by (auto simp: throttle_wait_def checked_add_def Let_def split: option.splits)
  then have "apart latest delay (host, now, a) y" if "y \<in> set (throttle_run latest delay ns calls)" for y
    using throttle_run_from [of _ _ _ latest delay ns calls] that
    by (cases y) (fastforce simp: apart_def)
  with Cons.IH [of ns] c w show ?case by simp
qed

lemma throttle_run_not_early: "(host, now, t) \<in> set (throttle_run latest delay next_slot calls) \<Longrightarrow> now \<le> t"
proof (induction calls arbitrary: next_slot)
  case (Cons c calls)
  obtain now' host' where c: "c = (now', host')" by (cases c)
  with Cons show ?case
    by (cases "throttle_wait latest delay next_slot now' host'")
      (auto simp: throttle_wait_def Let_def split: option.splits)
qed simp

text \<open>Whatever the callers' clocks and the hosts they ask for, no request is released before its
  caller asked, and two requests to one host are released at least \<open>delay\<close> apart, as long as the
  clock can represent the sum.\<close>

theorem throttle_spaces_requests:
  assumes "throttle_run latest delay Map.empty calls = out" and "i < j" and "j < length out"
    and "out ! i = (host, now, t)" and "out ! j = (host, now', t')" and "t + delay \<le> latest"
  shows "now \<le> t \<and> t + delay \<le> t'"
proof -
  have "apart latest delay (out ! i) (out ! j)"
    using throttle_run_apart [of latest delay Map.empty calls] assms(1-3)
    by (auto simp: sorted_wrt_iff_nth_less)
  moreover have "(host, now, t) \<in> set out" using assms(2-4) by (metis nth_mem less_trans)
  ultimately show ?thesis
    using assms throttle_run_not_early by (fastforce simp: apart_def)
qed

theorem throttle_spaces_requests_witness:
  "throttle_run 1000 5 Map.empty [(3, ''a''), (3, ''b''), (4, ''a'')] = [(''a'', 3, 3), (''b'', 3, 3), (''a'', 4, 8)] \<and>
   (3 :: nat) \<le> 3 \<and> (3 :: nat) + 5 \<le> 8"
proof
  show run: "throttle_run 1000 5 Map.empty [(3, ''a''), (3, ''b''), (4, ''a'')] =
      [(''a'', 3, 3), (''b'', 3, 3), (''a'', 4, 8)]"
    by (simp add: throttle_wait_def checked_add_def)
  show "(3 :: nat) \<le> 3 \<and> (3 :: nat) + 5 \<le> 8"
    using throttle_spaces_requests [OF run, of 0 2 "''a''" 3 3 4 8] by simp
qed

section \<open>Retrying a download\<close>

datatype cause = IoError | HyperError | ClientError | Elapsed | OtherCause

record fetch_error =
  fe_chain :: "cause list"
  fe_text :: string

definition is_transient :: "fetch_error \<Rightarrow> bool" where
  "is_transient e \<longleftrightarrow>
     (\<exists>c \<in> set (fe_chain e). c \<in> {IoError, HyperError, ClientError, Elapsed}) \<or>
     contains ''returned HTTP 5'' (fe_text e) \<or> contains ''returned HTTP 429'' (fe_text e)"

definition MAX_FETCH_ATTEMPTS :: nat where
  "MAX_FETCH_ATTEMPTS = 2"

function fetch_loop :: "(nat \<Rightarrow> fetch_error + 'b) \<Rightarrow> nat \<Rightarrow> (fetch_error + 'b) \<times> nat" where
  "fetch_loop fetch attempt =
     (case fetch attempt of
        Inr body \<Rightarrow> (Inr body, attempt)
      | Inl e \<Rightarrow>
          if attempt < MAX_FETCH_ATTEMPTS \<and> is_transient e then fetch_loop fetch (attempt + 1)
          else (Inl e, attempt))"
  by pat_completeness auto
termination
  by (relation "measure (\<lambda>(_, attempt). MAX_FETCH_ATTEMPTS - attempt)") auto

declare fetch_loop.simps [simp del]

text \<open>A source is asked at most twice: a second attempt is made exactly when the first failed with a
  transient error, a permanent error is reported at once, and the last answer is the result.\<close>

theorem fetch_retries_once:
  "fetch_loop fetch 1 =
     (case fetch 1 of
        Inr body \<Rightarrow> (Inr body, 1)
      | Inl e \<Rightarrow> if is_transient e then (fetch 2, 2) else (Inl e, 1))"
proof -
  have "fetch_loop fetch 2 = (fetch 2, 2)"
    by (simp add: fetch_loop.simps [of fetch 2] MAX_FETCH_ATTEMPTS_def split: sum.splits)
  moreover have "(1 :: nat) + 1 = 2" by simp
  ultimately show ?thesis
    by (subst fetch_loop.simps) (simp only: MAX_FETCH_ATTEMPTS_def split: sum.splits, simp)
qed

section \<open>One source\<close>

record forward =
  fw_rows :: "parsed_proxy list"
  fw_closed :: bool
  fw_sent :: "proxy list"
  fw_open_for :: "nat option"

text \<open>
  \<open>blocking_send\<close> fails once the receiver is gone; \<open>fw_open_for\<close> counts the sends it still
  takes, \<open>None\<close> when it stays.
\<close>

definition send_proxy :: "proxy \<Rightarrow> forward \<Rightarrow> bool \<times> forward" where
  "send_proxy p fw =
     (case fw_open_for fw of
        None \<Rightarrow> (True, fw\<lparr>fw_sent := fw_sent fw @ [p]\<rparr>)
      | Some 0 \<Rightarrow> (False, fw)
      | Some (Suc n) \<Rightarrow> (True, fw\<lparr>fw_sent := fw_sent fw @ [p], fw_open_for := Some n\<rparr>))"

definition row_proxy :: "protocol list \<Rightarrow> parsed_proxy \<Rightarrow> proxy" where
  "row_proxy default_types row =
     (case row of (ip, port, protocol) \<Rightarrow>
        with_expected_types ip port
          (case protocol of Some p \<Rightarrow> protocol_arc p | None \<Rightarrow> default_types))"

definition forward_row :: "bool \<Rightarrow> protocol list \<Rightarrow> forward \<Rightarrow> parsed_proxy \<Rightarrow> forward \<times> bool" where
  "forward_row want_rows default_types fw row =
     (let fw1 = (if want_rows then fw\<lparr>fw_rows := fw_rows fw @ [row]\<rparr> else fw)
      in if fw_closed fw1 then (fw1, False)
         else (case send_proxy (row_proxy default_types row) fw1 of
                 (sent, fw2) \<Rightarrow> (fw2\<lparr>fw_closed := \<not> sent\<rparr>, sent)))"

text \<open>
  A body as its visitor presents it: the rows, and the error met after them if the body is
  malformed there. The visitor returns that error only when it has not been stopped.
\<close>

type_synonym parsed_body = "parsed_proxy list \<times> fetch_error option"

definition visit_body ::
  "('s \<Rightarrow> parsed_proxy \<Rightarrow> 's \<times> bool) \<Rightarrow> ('s \<Rightarrow> bool) \<Rightarrow> 's \<Rightarrow> parsed_body \<Rightarrow> 's \<times> fetch_error option" where
  "visit_body on_row stopped st body =
     (let st' = visit_rows on_row st (fst body) in (st', if stopped st' then None else snd body))"

record source_env =
  se_stop_before :: bool
  se_stop_after :: bool
  se_cached :: "parsed_proxy list option"
  se_has_cache :: bool
  se_offline :: bool
  se_default_types :: "protocol list"
  se_open_for :: "nat option"

record source_result =
  sr_sent :: "proxy list"
  sr_stored :: "parsed_proxy list option"
  sr_attempts :: nat
  sr_error :: "fetch_error option"

definition idle_result :: source_result where
  "idle_result = \<lparr>sr_sent = [], sr_stored = None, sr_attempts = 0, sr_error = None\<rparr>"

fun replay_rows :: "protocol list \<Rightarrow> parsed_proxy list \<Rightarrow> forward \<Rightarrow> forward" where
  "replay_rows default_types [] fw = fw"
| "replay_rows default_types (row # rows) fw =
     (case send_proxy (row_proxy default_types row) fw of
        (sent, fw') \<Rightarrow> if sent then replay_rows default_types rows fw' else fw')"

definition fetch_and_forward :: "(nat \<Rightarrow> fetch_error + parsed_body) \<Rightarrow> source_env \<Rightarrow> source_result" where
  "fetch_and_forward fetch env =
     (case fetch_loop fetch 1 of
        (Inl e, n) \<Rightarrow> idle_result\<lparr>sr_attempts := n, sr_error := Some e\<rparr>
      | (Inr body, n) \<Rightarrow>
          (case visit_body (forward_row (se_has_cache env) (se_default_types env)) fw_closed
                  \<lparr>fw_rows = [], fw_closed = False, fw_sent = [], fw_open_for = se_open_for env\<rparr> body of
             (fw, Some e) \<Rightarrow> \<lparr>sr_sent = fw_sent fw, sr_stored = None, sr_attempts = n, sr_error = Some e\<rparr>
           | (fw, None) \<Rightarrow>
               \<lparr>sr_sent = fw_sent fw,
                sr_stored = (if \<not> fw_closed fw \<and> se_has_cache env then Some (fw_rows fw) else None),
                sr_attempts = n, sr_error = None\<rparr>))"

definition do_work :: "(nat \<Rightarrow> fetch_error + parsed_body) \<Rightarrow> source_env \<Rightarrow> source_result" where
  "do_work fetch env =
     (if se_stop_before env then idle_result
      else case (if se_has_cache env then se_cached env else None) of
        None \<Rightarrow> if se_offline env then idle_result else fetch_and_forward fetch env
      | Some rows \<Rightarrow>
          if se_stop_after env then idle_result
          else idle_result\<lparr>sr_sent :=
            fw_sent (replay_rows (se_default_types env) rows
              \<lparr>fw_rows = [], fw_closed = False, fw_sent = [], fw_open_for = se_open_for env\<rparr>)\<rparr>)"

lemma send_proxy_facts:
  "send_proxy p fw = (b, fw') \<Longrightarrow>
   fw_rows fw' = fw_rows fw \<and> fw_closed fw' = fw_closed fw \<and>
   fw_sent fw' = (if b then fw_sent fw @ [p] else fw_sent fw) \<and>
   (fw_open_for fw = None \<longrightarrow> b \<and> fw_open_for fw' = None)"
  by (auto simp: send_proxy_def split: option.splits nat.splits)

lemma forward_rows_open:
  "\<not> fw_closed fw \<Longrightarrow> fw' = visit_rows (forward_row want ts) fw rows \<Longrightarrow> \<not> fw_closed fw' \<Longrightarrow>
   fw_sent fw' = fw_sent fw @ map (row_proxy ts) rows \<and>
   fw_rows fw' = (if want then fw_rows fw @ rows else fw_rows fw)"
proof (induction rows arbitrary: fw)
  case Nil
  then show ?case by simp
next
  case (Cons row rows)
  let ?fw1 = "if want then fw\<lparr>fw_rows := fw_rows fw @ [row]\<rparr> else fw"
  obtain b fw2 where s: "send_proxy (row_proxy ts row) ?fw1 = (b, fw2)"
    by (cases "send_proxy (row_proxy ts row) ?fw1")
  note f = send_proxy_facts [OF s]
  have fr: "forward_row want ts fw row = (fw2\<lparr>fw_closed := \<not> b\<rparr>, b)"
    using Cons.prems(1) s by (auto simp: forward_row_def Let_def)
  show ?case
  proof (cases b)
    case False
    with Cons.prems fr show ?thesis by simp
  next
    case True
    with Cons.IH [of "fw2\<lparr>fw_closed := \<not> b\<rparr>"] Cons.prems fr f show ?thesis
      by (auto split: if_splits)
  qed
qed

text \<open>How many sends the receiver takes before it is gone.\<close>

definition takes_all :: "nat option \<Rightarrow> nat \<Rightarrow> bool" where
  "takes_all open_for n = (case open_for of None \<Rightarrow> True | Some k \<Rightarrow> n \<le> k)"

lemma send_proxy_takes:
  assumes "send_proxy p fw = (b, fw')"
  shows "takes_all (fw_open_for fw) (Suc n) \<longleftrightarrow> b \<and> takes_all (fw_open_for fw') n"
  using assms by (auto simp: send_proxy_def takes_all_def split: option.splits nat.splits)

lemma visit_closed: "fw_closed fw \<Longrightarrow> fw_closed (visit_rows (forward_row want ts) fw rows)"
  by (induction rows) (auto simp: forward_row_def Let_def)

lemma forward_rows_takes:
  "\<not> fw_closed fw \<Longrightarrow>
   \<not> fw_closed (visit_rows (forward_row want ts) fw rows) \<longleftrightarrow> takes_all (fw_open_for fw) (length rows)"
proof (induction rows arbitrary: fw)
  case Nil
  then show ?case by (simp add: takes_all_def split: option.split)
next
  case (Cons row rows)
  let ?fw1 = "if want then fw\<lparr>fw_rows := fw_rows fw @ [row]\<rparr> else fw"
  obtain b fw2 where s: "send_proxy (row_proxy ts row) ?fw1 = (b, fw2)" by (cases "send_proxy (row_proxy ts row) ?fw1")
  have fr: "forward_row want ts fw row = (fw2\<lparr>fw_closed := \<not> b\<rparr>, b)"
    using Cons.prems s by (auto simp: forward_row_def Let_def)
  have "fw_open_for ?fw1 = fw_open_for fw" by simp
  with send_proxy_takes [OF s, of "length rows"] Cons.IH [of "fw2\<lparr>fw_closed := \<not> b\<rparr>"] fr show ?case
    by (cases b) (simp_all add: visit_closed)
qed

lemma replay_rows_takes:
  "takes_all (fw_open_for fw) (length rows) \<Longrightarrow> fw_sent (replay_rows ts rows fw) = fw_sent fw @ map (row_proxy ts) rows"
proof (induction rows arbitrary: fw)
  case (Cons row rows)
  obtain b fw2 where s: "send_proxy (row_proxy ts row) fw = (b, fw2)" by (cases "send_proxy (row_proxy ts row) fw")
  from send_proxy_takes [OF s, of "length rows"] Cons.prems have "b" "takes_all (fw_open_for fw2) (length rows)" by auto
  with Cons.IH [of fw2] s send_proxy_facts [OF s] show ?case by simp
qed simp

lemma fetch_stored:
  "sr_stored (fetch_and_forward fetch env) = Some rows \<longleftrightarrow>
     se_has_cache env \<and> takes_all (se_open_for env) (length rows) \<and> (\<exists>n. fetch_loop fetch 1 = (Inr (rows, None), n))"
proof -
  let ?fw = "\<lparr>fw_rows = [], fw_closed = False, fw_sent = [], fw_open_for = se_open_for env\<rparr>"
  let ?visit = "visit_rows (forward_row (se_has_cache env) (se_default_types env)) ?fw"
  have open_iff: "\<not> fw_closed (?visit body) \<longleftrightarrow> takes_all (se_open_for env) (length body)" for body
    using forward_rows_takes [of ?fw] by simp
  have rows_of: "\<not> fw_closed (?visit body) \<Longrightarrow> se_has_cache env \<Longrightarrow> fw_rows (?visit body) = body" for body
    using forward_rows_open [of ?fw "?visit body" "se_has_cache env" "se_default_types env" body] by simp
  obtain res n where l: "fetch_loop fetch 1 = (res, n)" by fastforce
  show ?thesis
  proof (cases res)
    case (Inl e)
    with l show ?thesis by (simp add: fetch_and_forward_def idle_result_def)
  next
    case (Inr body)
    obtain brows err where body: "body = (brows, err)" by fastforce
    show ?thesis
      using l Inr body open_iff [of brows] rows_of [of brows]
      by (cases err) (auto simp: fetch_and_forward_def visit_body_def Let_def)
  qed
qed

lemma fetch_sent:
  assumes "sr_stored (fetch_and_forward fetch env) = Some rows"
  shows "sr_sent (fetch_and_forward fetch env) = map (row_proxy (se_default_types env)) rows"
proof -
  let ?fw = "\<lparr>fw_rows = [], fw_closed = False, fw_sent = [], fw_open_for = se_open_for env\<rparr>"
  from assms fetch_stored obtain n where f: "fetch_loop fetch 1 = (Inr (rows, None), n)" "takes_all (se_open_for env) (length rows)" by blast
  from forward_rows_takes [of ?fw] f(2)
  have "\<not> fw_closed (visit_rows (forward_row (se_has_cache env) (se_default_types env)) ?fw rows)" by simp
  from forward_rows_open [OF _ refl this] f(1) show ?thesis
    by (simp add: fetch_and_forward_def visit_body_def Let_def)
qed

text \<open>C20: rows are stored exactly when the source was downloaded (it was neither stopped nor taken from the
  cache, and the program is not offline), its body was well-formed to the end, and the receiver took
  every row; a pass that ended early, by a closed receiver, a malformed body or a failed download,
  leaves the cache as it is. A later run over the stored rows sends the same candidates, all of them,
  without asking the network.\<close>

theorem cache_replays_the_same:
  "(sr_stored (do_work fetch env) = Some rows \<longleftrightarrow>
      \<not> se_stop_before env \<and> se_has_cache env \<and> se_cached env = None \<and> \<not> se_offline env \<and>
      (\<exists>n. fetch_loop fetch 1 = (Inr (rows, None), n)) \<and>
      (case se_open_for env of None \<Rightarrow> True | Some k \<Rightarrow> length rows \<le> k)) \<and>
   (sr_stored (do_work fetch env) = Some rows \<longrightarrow>
      sr_sent (do_work fetch env) = map (row_proxy (se_default_types env)) rows \<and>
      do_work fetch' (env\<lparr>se_cached := Some rows, se_stop_after := False\<rparr>) =
        idle_result\<lparr>sr_sent := sr_sent (do_work fetch env)\<rparr>)"
proof -
  have stored: "sr_stored (do_work fetch env) = Some rows \<longleftrightarrow>
      \<not> se_stop_before env \<and> (se_has_cache env \<longrightarrow> se_cached env = None) \<and> \<not> se_offline env \<and>
      sr_stored (fetch_and_forward fetch env) = Some rows"
    by (auto simp: do_work_def idle_result_def split: option.split)
  have sent: "sr_sent (do_work fetch env) = map (row_proxy (se_default_types env)) rows \<and>
      do_work fetch' (env\<lparr>se_cached := Some rows, se_stop_after := False\<rparr>) =
        idle_result\<lparr>sr_sent := sr_sent (do_work fetch env)\<rparr>"
    if st: "sr_stored (do_work fetch env) = Some rows"
  proof -
    from st stored have f: "\<not> se_stop_before env" "se_has_cache env \<longrightarrow> se_cached env = None" "\<not> se_offline env"
      "sr_stored (fetch_and_forward fetch env) = Some rows" by auto
    from f(4) fetch_stored have g: "se_has_cache env" "takes_all (se_open_for env) (length rows)" by blast+
    from f g have d: "do_work fetch env = fetch_and_forward fetch env" by (simp add: do_work_def)
    let ?fw = "\<lparr>fw_rows = [], fw_closed = False, fw_sent = [], fw_open_for = se_open_for env\<rparr>"
    have "fw_sent (replay_rows (se_default_types env) rows ?fw) = map (row_proxy (se_default_types env)) rows"
      using replay_rows_takes [of ?fw rows "se_default_types env"] g(2) by simp
    with fetch_sent [OF f(4)] f(1) g(1) show ?thesis by (simp add: d do_work_def [of fetch'])
  qed
  show ?thesis using stored sent by (auto simp: fetch_stored takes_all_def)
qed

definition demo_env :: source_env where
  "demo_env = \<lparr>se_stop_before = False, se_stop_after = False, se_cached = None, se_has_cache = True,
     se_offline = False, se_default_types = [Socks5], se_open_for = None\<rparr>"

definition demo_rows :: "parsed_proxy list" where
  "demo_rows = [(Ipv4 1 2 3 4, 80, None), (Ipv4 5 6 7 8, 81, Some (Http Elite))]"

lemma demo_stored: "sr_stored (do_work (\<lambda>_. Inr (demo_rows, None)) demo_env) = Some demo_rows"
  by (simp add: do_work_def demo_env_def demo_rows_def fetch_and_forward_def fetch_loop.simps visit_body_def
      forward_row_def send_proxy_def Let_def)

text \<open>A complete pass, which is stored and replayed, and one whose receiver left after the first row.\<close>

theorem cache_replays_the_same_witness:
  "sr_sent (do_work (\<lambda>_. Inr (demo_rows, None)) demo_env) = map (row_proxy [Socks5]) demo_rows \<and>
   do_work (\<lambda>_. Inl \<lparr>fe_chain = [], fe_text = ''down''\<rparr>) (demo_env\<lparr>se_cached := Some demo_rows\<rparr>) =
     idle_result\<lparr>sr_sent := sr_sent (do_work (\<lambda>_. Inr (demo_rows, None)) demo_env)\<rparr> \<and>
   sr_stored (do_work (\<lambda>_. Inr (demo_rows, None)) (demo_env\<lparr>se_open_for := Some 1\<rparr>)) \<noteq> Some demo_rows"
  using cache_replays_the_same [of "\<lambda>_. Inr (demo_rows, None)" demo_env demo_rows] demo_stored
    cache_replays_the_same [of "\<lambda>_. Inr (demo_rows, None)" "demo_env\<lparr>se_open_for := Some 1\<rparr>" demo_rows]
  by (auto simp: demo_env_def demo_rows_def)

end
