(* ===== verification/Row_Cache.thy ===== *)
theory Row_Cache
  imports Parsers_Text
begin

text \<open>
  The on-disk cache of parsed rows (\<open>src/fetcher/cache.rs\<close>): the binary format with its
  encoder and bounds-checked decoder, the file name derived from the URL, and the two
  operations with the in-process memo in front of the file. Files carry the time of
  their last modification; the clock is a parameter.
\<close>

section \<open>Bytes\<close>

unbundle bit_operations_syntax

text \<open>Indexing a slice panics outside its bounds.\<close>

definition byte_at :: "u8 list \<Rightarrow> nat \<Rightarrow> (u8, 'e) outcome" where
  "byte_at body i = (if i < length body then Ok (body ! i) else Panic)"

definition le16 :: "u16 \<Rightarrow> u8 list" where
  "le16 w = [ucast w, ucast (drop_bit 8 w)]"

definition from_le16 :: "u8 \<Rightarrow> u8 \<Rightarrow> u16" where
  "from_le16 a b = ucast a OR push_bit 8 (ucast b)"

definition le32 :: "32 word \<Rightarrow> u8 list" where
  "le32 w = [ucast w, ucast (drop_bit 8 w), ucast (drop_bit 16 w), ucast (drop_bit 24 w)]"

definition from_le32 :: "u8 \<Rightarrow> u8 \<Rightarrow> u8 \<Rightarrow> u8 \<Rightarrow> 32 word" where
  "from_le32 a b c d = ucast a OR push_bit 8 (ucast b) OR push_bit 16 (ucast c) OR push_bit 24 (ucast d)"

lemma from_le16_le16: "from_le16 (ucast w) (ucast (drop_bit 8 w)) = w"
proof (rule bit_word_eqI)
  fix n
  assume "n < LENGTH(16)"
  then have "n < 8 \<or> n - 8 < 8" by auto
  then show "bit (from_le16 (ucast w) (ucast (drop_bit 8 w))) n = bit w n"
    by (auto simp: from_le16_def bit_simps)
qed

lemma from_le32_le32:
  "from_le32 (ucast w) (ucast (drop_bit 8 w)) (ucast (drop_bit 16 w)) (ucast (drop_bit 24 w)) = w"
proof (rule bit_word_eqI)
  fix n
  assume "n < LENGTH(32)"
  then have "n < 8 \<or> (8 \<le> n \<and> n < 16) \<or> (16 \<le> n \<and> n < 24) \<or> (24 \<le> n \<and> n < 32)" by auto
  then show "bit (from_le32 (ucast w) (ucast (drop_bit 8 w)) (ucast (drop_bit 16 w)) (ucast (drop_bit 24 w))) n =
      bit w n"
    by (auto simp: from_le32_def bit_simps)
qed

section \<open>The row format\<close>

definition CACHE_MAGIC :: "u8 list" where
  "CACHE_MAGIC = [70, 76, 88, 80, 67, 87, 48, 50]"

fun anon_code :: "anonymity \<Rightarrow> u8" where
  "anon_code Elite = 0"
| "anon_code Transparent = 1"
| "anon_code Anonymous = 2"
| "anon_code Unknown = 3"

definition anon_from_code :: "u8 \<Rightarrow> anonymity option" where
  "anon_from_code code =
     (if code = 0 then Some Elite else if code = 1 then Some Transparent
      else if code = 2 then Some Anonymous else if code = 3 then Some Unknown else None)"

fun protocol_code :: "protocol option \<Rightarrow> u8 option" where
  "protocol_code None = None"
| "protocol_code (Some (Http a)) = Some (1 + anon_code a)"
| "protocol_code (Some (Https a)) = Some (5 + anon_code a)"
| "protocol_code (Some Socks4) = Some 9"
| "protocol_code (Some Socks5) = Some 10"
| "protocol_code (Some (Connect port)) = Some 11"

definition protocol_from_code :: "u8 \<Rightarrow> protocol option" where
  "protocol_from_code code =
     (if 1 \<le> code \<and> code \<le> 4 then map_option Http (anon_from_code (code - 1))
      else if 5 \<le> code \<and> code \<le> 8 then map_option Https (anon_from_code (code - 5))
      else if code = 9 then Some Socks4
      else if code = 10 then Some Socks5
      else None)"

fun encode_row :: "parsed_proxy \<Rightarrow> u8 list" where
  "encode_row (Ipv4 a b c d, port, protocol) =
     [a, b, c, d] @ le16 port @
     (case protocol of
        None \<Rightarrow> [0]
      | Some (Connect p) \<Rightarrow> 11 # le16 p
      | Some p \<Rightarrow> [case protocol_code (Some p) of Some code \<Rightarrow> code | None \<Rightarrow> 0])"

definition encode_rows :: "parsed_proxy list \<Rightarrow> u8 list" where
  "encode_rows rows = CACHE_MAGIC @ le32 (of_nat (length rows)) @ concat (map encode_row rows)"

text \<open>The decoder's loop; \<open>Err ()\<close> is its \<open>None\<close>.\<close>

fun decode_loop :: "nat \<Rightarrow> u8 list \<Rightarrow> nat \<Rightarrow> parsed_proxy list \<Rightarrow> (parsed_proxy list, unit) outcome" where
  "decode_loop 0 body cursor rows = Ok rows"
| "decode_loop (Suc n) body cursor rows =
     (if cursor + 7 > length body then Err ()
      else and_then (byte_at body cursor) (\<lambda>a.
        and_then (byte_at body (cursor + 1)) (\<lambda>b.
        and_then (byte_at body (cursor + 2)) (\<lambda>c.
        and_then (byte_at body (cursor + 3)) (\<lambda>d.
        and_then (byte_at body (cursor + 4)) (\<lambda>p0.
        and_then (byte_at body (cursor + 5)) (\<lambda>p1.
        and_then (byte_at body (cursor + 6)) (\<lambda>code.
          (let cursor1 = cursor + 7;
               row = (\<lambda>protocol. (Ipv4 a b c d, from_le16 p0 p1, protocol))
           in if code = 0 then decode_loop n body cursor1 (rows @ [row None])
              else if code = 11 then
                (if cursor1 + 2 > length body then Err ()
                 else and_then (byte_at body cursor1) (\<lambda>q0.
                      and_then (byte_at body (cursor1 + 1)) (\<lambda>q1.
                        decode_loop n body (cursor1 + 2) (rows @ [row (Some (Connect (from_le16 q0 q1)))]))))
              else decode_loop n body cursor1 (rows @ [row (protocol_from_code code)]))))))))))"

definition decode_rows :: "u8 list \<Rightarrow> (parsed_proxy list, unit) outcome" where
  "decode_rows body =
     (if length body < 12 \<or> take 8 body \<noteq> CACHE_MAGIC then Err ()
      else and_then (byte_at body 8) (\<lambda>a.
        and_then (byte_at body 9) (\<lambda>b.
        and_then (byte_at body 10) (\<lambda>c.
        and_then (byte_at body 11) (\<lambda>d.
          decode_loop (unat (from_le32 a b c d)) body 12 [])))))"

lemma byte_at_in [simp]: "i < length body \<Longrightarrow> byte_at body i = Ok (body ! i)"
  by (simp add: byte_at_def)

lemma anon_code_cases: "anon_code a \<in> {0, 1, 2, 3}"
  by (cases a) auto

lemma protocol_code_roundtrip:
  "\<forall>port. p \<noteq> Connect port \<Longrightarrow>
   \<exists>code. protocol_code (Some p) = Some code \<and> code \<noteq> 0 \<and> code \<noteq> 11 \<and> protocol_from_code code = Some p"
proof (cases p)
  case (Http a)
  then show ?thesis by (cases a) (simp_all add: protocol_from_code_def anon_from_code_def)
next
  case (Https a)
  then show ?thesis by (cases a) (simp_all add: protocol_from_code_def anon_from_code_def)
qed (simp_all add: protocol_from_code_def)

text \<open>Reading one encoded row from the front of the rest, and failing on any part of it.\<close>

lemma decode_loop_step:
  assumes "body = pre @ a # b # c # d # p0 # p1 # code # rest"
  shows "decode_loop (Suc n) body (length pre) rows =
    (let row = (\<lambda>protocol. (Ipv4 a b c d, from_le16 p0 p1, protocol))
     in if code = 0 then decode_loop n body (length pre + 7) (rows @ [row None])
        else if code = 11 then
          (case rest of
             q0 # q1 # _ \<Rightarrow> decode_loop n body (length pre + 9) (rows @ [row (Some (Connect (from_le16 q0 q1)))])
           | _ \<Rightarrow> Err ())
        else decode_loop n body (length pre + 7) (rows @ [row (protocol_from_code code)]))"
proof -
  let ?l = "length pre"
  have len: "length body = ?l + 7 + length rest" by (simp add: assms)
  have read: "byte_at body ?l = Ok a" "byte_at body (?l + 1) = Ok b" "byte_at body (?l + 2) = Ok c"
      "byte_at body (?l + 3) = Ok d" "byte_at body (?l + 4) = Ok p0" "byte_at body (?l + 5) = Ok p1"
      "byte_at body (?l + 6) = Ok code"
    by (simp_all add: byte_at_def assms nth_append)
  have rest: "byte_at body (?l + 7 + i) = Ok (rest ! i)" if "i < length rest" for i
    using that len by (simp add: byte_at_def assms nth_append)
  show ?thesis
  proof (cases "code = 11")
    case False
    then show ?thesis
      by (simp add: len read [simplified] Let_def del: byte_at_in)
  next
    case c: True
    show ?thesis
    proof (cases "\<exists>q0 q1 more. rest = q0 # q1 # more")
      case True
      then obtain q0 q1 more where q: "rest = q0 # q1 # more" by blast
      have tail: "byte_at body (?l + 7) = Ok q0" "byte_at body (?l + 7 + 1) = Ok q1"
        using rest [of 0] rest [of 1] q by simp_all
      show ?thesis
        using c q by (simp add: tail [simplified] len read [simplified] Let_def add.assoc del: byte_at_in)
          (simp add: add.commute)
    next
      case False
      then have "length rest < 2" by (cases rest; cases "tl rest") auto
      with c False show ?thesis
        by (auto simp: len read [simplified] Let_def simp del: byte_at_in split: list.splits)
    qed
  qed
qed

declare decode_loop.simps(2) [simp del]

lemma decode_loop_row:
  assumes "body = pre @ encode_row row @ post"
  shows "decode_loop (Suc n) body (length pre) rows =
    decode_loop n body (length (pre @ encode_row row)) (rows @ [row])"
proof -
  obtain a b c d port protocol where row: "row = (Ipv4 a b c d, port, protocol)"
    by (metis ipv4.exhaust prod.exhaust)
  show ?thesis
  proof (cases "\<exists>p. protocol = Some (Connect p)")
    case True
    then obtain p where p: "protocol = Some (Connect p)" by blast
    have "body = pre @ a # b # c # d # ucast port # ucast (drop_bit 8 port) # 11 # ucast p # ucast (drop_bit 8 p) # post"
      using assms row p by (simp add: le16_def)
    moreover have "length (pre @ encode_row row) = length pre + 9"
      using row p by (simp add: le16_def)
    ultimately show ?thesis
      by (simp only: decode_loop_step) (simp add: row p from_le16_le16)
  next
    case False
    then obtain code where enc: "encode_row row = [a, b, c, d] @ le16 port @ [code]"
      and code: "code = 0 \<and> protocol = None \<or> code \<noteq> 0 \<and> code \<noteq> 11 \<and> protocol_from_code code = protocol"
    proof (cases protocol)
      case None
      then show ?thesis using that [of 0] row by simp
    next
      case (Some p)
      with False protocol_code_roundtrip [of p] obtain code where
        "protocol_code (Some p) = Some code" "code \<noteq> 0" "code \<noteq> 11" "protocol_from_code code = Some p"
        by blast
      with Some False row that [of code] show ?thesis by (cases p) auto
    qed
    have "body = pre @ a # b # c # d # ucast port # ucast (drop_bit 8 port) # code # post"
      using assms enc by (simp add: le16_def)
    moreover have "length (pre @ encode_row row) = length pre + 7"
      using enc by (simp add: le16_def)
    ultimately show ?thesis
      using code by (simp only: decode_loop_step) (auto simp: row from_le16_le16)
  qed
qed

lemma decode_loop_rows:
  "body = pre @ concat (map encode_row todo) @ post \<Longrightarrow>
   decode_loop (length todo) body (length pre) rows = Ok (rows @ todo)"
proof (induction todo arbitrary: pre rows)
  case Nil
  then show ?case by simp
next
  case (Cons row todo)
  have b: "body = pre @ encode_row row @ (concat (map encode_row todo) @ post)"
    using Cons.prems by simp
  have "body = (pre @ encode_row row) @ concat (map encode_row todo) @ post"
    using Cons.prems by simp
  from Cons.IH [OF this, of "rows @ [row]"] decode_loop_row [OF b, of "length todo" rows]
  show ?case by simp
qed

lemma length_magic [simp]: "length CACHE_MAGIC = 8"
  by (simp add: CACHE_MAGIC_def)

lemma encode_header:
  "encode_rows rows = (CACHE_MAGIC @ le32 (of_nat (length rows))) @ concat (map encode_row rows)"
  by (simp add: encode_rows_def)

lemma decode_header:
  assumes "length body \<ge> 12" and "take 12 body = CACHE_MAGIC @ le32 w"
  shows "decode_rows body = decode_loop (unat w) body 12 []"
proof -
  from assms(2) have "take 8 (take 12 body) = CACHE_MAGIC" by simp
  then have m: "take 8 body = CACHE_MAGIC" by (simp add: take_take min_def)
  have nth: "body ! (8 + i) = le32 w ! i" if "i < 4" for i
  proof -
    have "body ! (8 + i) = take 12 body ! (8 + i)" using that by simp
    also have "\<dots> = le32 w ! i" using assms(2) by (simp add: nth_append)
    finally show ?thesis .
  qed
  have "body ! 8 = ucast w" "body ! 9 = ucast (drop_bit 8 w)" "body ! 10 = ucast (drop_bit 16 w)"
      "body ! 11 = ucast (drop_bit 24 w)"
    using nth [of 0] nth [of 1] nth [of 2] nth [of 3] by (simp_all add: le32_def)
  then show ?thesis using assms(1) m by (simp add: decode_rows_def from_le32_le32)
qed

lemma decode_encode_rows_plain:
  assumes "length rows < 2 ^ 32"
  shows "decode_rows (encode_rows rows) = Ok rows"
proof -
  have n: "unat (of_nat (length rows) :: 32 word) = length rows"
    using assms by (simp add: unat_of_nat)
  have l: "length (CACHE_MAGIC @ le32 (of_nat (length rows))) = 12" by (simp add: le32_def)
  have "decode_rows (encode_rows rows) = decode_loop (length rows) (encode_rows rows) 12 []"
    using decode_header [of "encode_rows rows" "of_nat (length rows)"] l n
    by (simp add: encode_header le32_def)
  also have "\<dots> = Ok ([] @ rows)"
    using decode_loop_rows [of "encode_rows rows" "CACHE_MAGIC @ le32 (of_nat (length rows))" rows "[]" "[]"] l
    by (simp add: encode_header)
  finally show ?thesis by simp
qed

text \<open>C33: what the cache writes, it reads back: decoding the encoded rows gives the rows, for every
  list of rows whose number fits the format's 32-bit count.\<close>

theorem decode_encode_rows:
  "length rows < 2 ^ 32 \<Longrightarrow> decode_rows (encode_rows rows) = Ok rows"
  by (rule decode_encode_rows_plain)

theorem decode_encode_rows_witness:
  "decode_rows (encode_rows [(Ipv4 1 2 3 4, 8080, None), (Ipv4 5 6 7 8, 443, Some (Connect 443))]) =
     Ok [(Ipv4 1 2 3 4, 8080, None), (Ipv4 5 6 7 8, 443, Some (Connect 443))]"
  by (rule decode_encode_rows) simp

section \<open>Hostile files\<close>

lemma decode_loop_safe:
  "decode_loop n body cursor rows \<noteq> Panic"
  by (induction n arbitrary: cursor rows) (auto simp: decode_loop.simps(2) Let_def)

lemma decode_loop_bound:
  "decode_loop n body cursor rows = Ok out \<Longrightarrow> cursor \<le> length body \<Longrightarrow>
   length out = length rows + n \<and> cursor + 7 * n \<le> length body"
proof (induction n arbitrary: cursor rows)
  case 0
  then show ?case by simp
next
  case (Suc n)
  show ?case
  proof (cases "cursor + 7 > length body")
    case True
    with Suc.prems show ?thesis by (simp add: decode_loop.simps(2))
  next
    case False
    with Suc.prems obtain cursor' row where "decode_loop n body cursor' (rows @ [row]) = Ok out"
      "cursor + 7 \<le> cursor'" "cursor' \<le> length body"
      by (fastforce simp: decode_loop.simps(2) Let_def split: if_splits)
    from Suc.IH [OF this(1,3)] this(2) show ?thesis by simp
  qed
qed

text \<open>No file, however damaged, makes the decoder index outside it, and a file that is accepted
  holds seven bytes for every row it claims, so the claimed count cannot make the reader
  allocate more than the file's size warrants.\<close>

theorem decode_rows_robust:
  "decode_rows body \<noteq> Panic \<and>
   (case decode_rows body of Ok rows \<Rightarrow> length rows \<le> (length body - 12) div 7 | _ \<Rightarrow> True)"
proof
  show "decode_rows body \<noteq> Panic"
    using decode_loop_safe by (auto simp: decode_rows_def)
  show "case decode_rows body of Ok rows \<Rightarrow> length rows \<le> (length body - 12) div 7 | _ \<Rightarrow> True"
    using decode_loop_bound
    by (fastforce simp: decode_rows_def split: outcome.splits if_splits)
qed

text \<open>A file cut short is rejected.\<close>

lemma encode_row_length: "7 \<le> length (encode_row row)"
  by (cases row rule: encode_row.cases) (auto simp: le16_def split: option.splits protocol.splits)

lemma decode_loop_short_row:
  assumes "body = pre @ part" and "strict_prefix part (encode_row row)"
  shows "decode_loop (Suc n) body (length pre) rows = Err ()"
proof (cases "length part < 7")
  case True
  then show ?thesis using assms by (simp add: decode_loop.simps(2))
next
  case False
  obtain a b c d port protocol where row: "row = (Ipv4 a b c d, port, protocol)"
    by (metis ipv4.exhaust prod.exhaust)
  have lt: "length part < length (encode_row row)"
    using assms(2) by (simp add: prefix_length_less)
  with False row obtain q where q: "protocol = Some (Connect q)"
    by (auto simp: le16_def split: option.splits protocol.splits)
  from assms(2) obtain rest where r: "encode_row row = part @ rest" by (auto elim: strict_prefixE')
  have enc: "encode_row row = [a, b, c, d, ucast port, ucast (drop_bit 8 port), 11, ucast q, ucast (drop_bit 8 q)]"
    using row q by (simp add: le16_def)
  have part: "part = take (length part) (encode_row row)" using r by simp
  have "length part = 7 \<or> length part = 8" using lt False enc by auto
  then obtain tail where "part = a # b # c # d # ucast port # ucast (drop_bit 8 port) # 11 # tail"
    and tail: "length tail < 2"
    using part unfolding enc by (elim disjE) simp_all
  with assms(1) have "body = pre @ a # b # c # d # ucast port # ucast (drop_bit 8 port) # 11 # tail" by simp
  from decode_loop_step [OF this] tail show ?thesis
    by (cases tail; cases "tl tail") auto
qed

lemma decode_loop_short:
  "body = pre @ part \<Longrightarrow> strict_prefix part (concat (map encode_row todo)) \<Longrightarrow>
   decode_loop (length todo) body (length pre) rows = Err ()"
proof (induction todo arbitrary: pre part rows)
  case Nil
  then show ?case by simp
next
  case (Cons row todo)
  show ?case
  proof (cases "length part < length (encode_row row)")
    case True
    have "prefix part (encode_row row @ concat (map encode_row todo))"
      using Cons.prems(2) by (simp add: strict_prefix_def)
    with True have "strict_prefix part (encode_row row)"
      by (metis less_imp_le_nat less_irrefl prefix_length_prefix prefixI strict_prefixI)
    from decode_loop_short_row [OF Cons.prems(1) this] show ?thesis by simp
  next
    case False
    have "prefix part (encode_row row @ concat (map encode_row todo))"
      using Cons.prems(2) by (simp add: strict_prefix_def)
    with False obtain part' where p: "part = encode_row row @ part'"
      by (metis linorder_not_less prefixE prefix_length_prefix prefixI)
    with Cons.prems(2) have s: "strict_prefix part' (concat (map encode_row todo))"
      by (simp add: strict_prefix_def)
    have b: "body = pre @ encode_row row @ part'" using Cons.prems(1) p by simp
    have "body = (pre @ encode_row row) @ part'" using b by simp
    from Cons.IH [OF this s, of "rows @ [row]"] decode_loop_row [OF b, of "length todo" rows]
    show ?thesis by simp
  qed
qed

text \<open>A cache file cut short at any byte is rejected as a whole, never read as fewer rows.\<close>

theorem truncated_cache_rejected:
  assumes "length rows < 2 ^ 32" and "k < length (encode_rows rows)"
  shows "decode_rows (take k (encode_rows rows)) = Err ()"
proof (cases "k < 12")
  case True
  then have "length (take k (encode_rows rows)) < 12" by simp
  then show ?thesis unfolding decode_rows_def by (simp only: if_True simp_thms)
next
  case False
  let ?h = "CACHE_MAGIC @ le32 (of_nat (length rows))"
  let ?b = "take k (encode_rows rows)"
  have l: "length ?h = 12" by (simp add: le32_def)
  have b: "?b = ?h @ take (k - 12) (concat (map encode_row rows))"
    using False l by (simp add: encode_header del: append_assoc)
  have "strict_prefix (take (k - 12) (concat (map encode_row rows))) (concat (map encode_row rows))"
    using assms(2) False l
    by (simp add: strict_prefix_def take_is_prefix encode_header del: append_assoc)
  from decode_loop_short [OF b this, of "[]"]
  have "decode_loop (length rows) ?b 12 [] = Err ()" using l by simp
  moreover have "decode_rows ?b = decode_loop (length rows) ?b 12 []"
    using decode_header [of ?b "of_nat (length rows)"] b l False assms
    by (simp add: unat_of_nat)
  ultimately show ?thesis by simp
qed

theorem truncated_cache_rejected_witness:
  "decode_rows (take 20 (encode_rows [(Ipv4 1 2 3 4, 8080, None), (Ipv4 5 6 7 8, 443, Some (Connect 443))])) = Err ()"
  by (rule truncated_cache_rejected) (simp_all add: encode_rows_def le32_def le16_def)

section \<open>The cache\<close>

definition hex_digit :: "u64 \<Rightarrow> char" where
  "hex_digit d = (let n = unat d mod 16 in char_of (if n < 10 then 48 + n else 87 + n))"

definition hex16 :: "u64 \<Rightarrow> string" where
  "hex16 h = map (\<lambda>i. hex_digit (drop_bit (4 * (15 - i)) h)) [0..<16]"

definition fnv_step :: "u64 \<Rightarrow> char \<Rightarrow> u64" where
  "fnv_step hash c = (hash XOR of_char c) * 0x100000001b3"

definition cache_file_name :: "string \<Rightarrow> string" where
  "cache_file_name url = hex16 (foldl fnv_step 0xcbf29ce484222325 url)"

definition MEMO_MAX_ENTRIES :: nat where
  "MEMO_MAX_ENTRIES = 256"

type_synonym memo = "(string \<times> nat \<times> parsed_proxy list) list"

definition forget :: "string \<Rightarrow> memo \<Rightarrow> memo" where
  "forget path m = filter (\<lambda>e. fst e \<noteq> path) m"

definition recall :: "string \<Rightarrow> nat \<Rightarrow> memo \<Rightarrow> parsed_proxy list option" where
  "recall path modified m =
     (case map_of m path of
        Some (cached_mtime, rows) \<Rightarrow> if cached_mtime \<noteq> modified then None else Some rows
      | None \<Rightarrow> None)"

definition remember :: "string \<Rightarrow> nat \<Rightarrow> parsed_proxy list \<Rightarrow> memo \<Rightarrow> memo" where
  "remember path modified rows m =
     (let m1 = (if length m \<ge> MEMO_MAX_ENTRIES then [] else m)
      in (path, modified, rows) # forget path m1)"

record cache =
  cc_ttl :: nat
  cc_refresh :: bool
  cc_files :: "string \<rightharpoonup> nat \<times> u8 list"
  cc_memo :: memo

definition load_rows :: "nat \<Rightarrow> string \<Rightarrow> cache \<Rightarrow> parsed_proxy list option \<times> cache" where
  "load_rows now url c =
     (if cc_refresh c then (None, c)
      else let path = cache_file_name url
        in case cc_files c path of
          None \<Rightarrow> (None, c)
        | Some (modified, body) \<Rightarrow>
            if now - modified > cc_ttl c then (None, c\<lparr>cc_memo := forget path (cc_memo c)\<rparr>)
            else case recall path modified (cc_memo c) of
              Some rows \<Rightarrow> (Some rows, c)
            | None \<Rightarrow>
                (case ok_opt (decode_rows body) of
                   None \<Rightarrow> (None, c)
                 | Some rows \<Rightarrow>
                     if rows = [] then (None, c)
                     else (Some rows, c\<lparr>cc_memo := remember path modified rows (cc_memo c)\<rparr>)))"

text \<open>Writing the temporary file, then renaming it over the entry; either may fail.\<close>

datatype store_io = Installed | WriteFails | RenameFails

definition store_rows :: "store_io \<Rightarrow> nat \<Rightarrow> string \<Rightarrow> parsed_proxy list \<Rightarrow> cache \<Rightarrow> cache" where
  "store_rows io now url rows c =
     (if rows = [] then c
      else case io of
        Installed \<Rightarrow> c\<lparr>cc_files := (cc_files c)(cache_file_name url \<mapsto> (now, encode_rows rows))\<rparr>
      | WriteFails \<Rightarrow> c
      | RenameFails \<Rightarrow> c)"

text \<open>The memo agrees with the files it shadows, and stays small.\<close>

definition memo_coherent :: "cache \<Rightarrow> bool" where
  "memo_coherent c \<longleftrightarrow>
     length (cc_memo c) \<le> MEMO_MAX_ENTRIES \<and>
     (\<forall>path mtime rows body. (path, mtime, rows) \<in> set (cc_memo c) \<longrightarrow>
        cc_files c path = Some (mtime, body) \<longrightarrow> rows \<noteq> [] \<and> decode_rows body = Ok rows)"

lemma length_forget: "length (forget path m) \<le> length m"
  by (simp add: forget_def)

lemma memo_coherent_remember:
  assumes "memo_coherent c" and "cc_files c path = Some (mtime, body)"
    and "decode_rows body = Ok rows" and "rows \<noteq> []"
  shows "memo_coherent (c\<lparr>cc_memo := remember path mtime rows (cc_memo c)\<rparr>)"
proof -
  have "length (remember path mtime rows (cc_memo c)) \<le> MEMO_MAX_ENTRIES"
    using length_forget [of path "cc_memo c"]
    by (auto simp: remember_def Let_def MEMO_MAX_ENTRIES_def forget_def [of path "[]"])
  moreover have "set (remember path mtime rows (cc_memo c)) \<subseteq> insert (path, mtime, rows) (set (cc_memo c))"
    by (auto simp: remember_def Let_def forget_def)
  ultimately show ?thesis
    using assms by (auto simp: memo_coherent_def) blast+
qed

lemma memo_coherent_forget:
  "memo_coherent c \<Longrightarrow> memo_coherent (c\<lparr>cc_memo := forget path (cc_memo c)\<rparr>)"
  using length_forget [of path "cc_memo c"]
  by (simp add: memo_coherent_def) (auto simp: forget_def)

lemma recall_coherent:
  assumes "memo_coherent c" and "cc_files c path = Some (mtime, body)"
    and "recall path mtime (cc_memo c) = Some rows"
  shows "rows \<noteq> [] \<and> decode_rows body = Ok rows"
  using assms by (auto simp: recall_def memo_coherent_def split: option.splits if_splits dest!: map_of_SomeD)

text \<open>What a load returns, with no memo in the way.\<close>

definition fresh_rows :: "nat \<Rightarrow> string \<Rightarrow> cache \<Rightarrow> parsed_proxy list option" where
  "fresh_rows now url c =
     (case cc_files c (cache_file_name url) of
        Some (modified, body) \<Rightarrow>
          if cc_refresh c \<or> now - modified > cc_ttl c \<or> decode_rows body = Ok [] then None
          else ok_opt (decode_rows body)
      | None \<Rightarrow> None)"

lemma load_rows_fresh:
  assumes "memo_coherent c" and "load_rows now url c = (r, c')"
  shows "r = fresh_rows now url c \<and> memo_coherent c' \<and> cc_files c' = cc_files c \<and>
    cc_ttl c' = cc_ttl c \<and> cc_refresh c' = cc_refresh c"
proof -
  let ?path = "cache_file_name url"
  show ?thesis
  proof (cases "cc_refresh c \<or> cc_files c ?path = None")
    case True
    with assms show ?thesis by (auto simp: load_rows_def fresh_rows_def split: option.splits if_splits)
  next
    case False
    then obtain mtime body where f: "cc_files c ?path = Some (mtime, body)" "\<not> cc_refresh c" by auto
    show ?thesis
    proof (cases "now - mtime > cc_ttl c")
      case True
      with f assms memo_coherent_forget [OF assms(1)] show ?thesis
        by (auto simp: load_rows_def fresh_rows_def)
    next
      case young: False
      show ?thesis
      proof (cases "recall ?path mtime (cc_memo c)")
        case (Some rows)
        with recall_coherent [OF assms(1) f(1) Some] f young assms show ?thesis
          by (auto simp: load_rows_def fresh_rows_def)
      next
        case None
        show ?thesis
        proof (cases "ok_opt (decode_rows body)")
          case None': None
          with None f young assms show ?thesis
            by (auto simp: load_rows_def fresh_rows_def)
        next
          case (Some rows)
          then have d: "decode_rows body = Ok rows" by (simp add: outcome_simps)
          with None f young assms memo_coherent_remember [OF assms(1) f(1) d] show ?thesis
            by (cases "rows = []") (auto simp: load_rows_def fresh_rows_def)
        qed
      qed
    qed
  qed
qed

text \<open>The in-process memo is invisible: whenever it agrees with the files, a load returns what a
  load without memo would (the decoded rows of a young enough file, nothing under \<open>--refresh\<close>),
  and keeps the memo in agreement and within 256 entries.\<close>

theorem load_rows_ignores_memo:
  assumes "memo_coherent c"
  shows "fst (load_rows now url c) = fst (load_rows now url (c\<lparr>cc_memo := []\<rparr>)) \<and>
    memo_coherent (snd (load_rows now url c))"
proof -
  let ?n = "c\<lparr>cc_memo := []\<rparr>"
  have "memo_coherent ?n" by (simp add: memo_coherent_def)
  then have "fst (load_rows now url ?n) = fresh_rows now url ?n"
    using load_rows_fresh by (metis prod.collapse)
  moreover have "fst (load_rows now url c) = fresh_rows now url c \<and> memo_coherent (snd (load_rows now url c))"
    using load_rows_fresh [OF assms] by (metis prod.collapse)
  moreover have "fresh_rows now url ?n = fresh_rows now url c" by (simp add: fresh_rows_def split: option.split)
  ultimately show ?thesis by simp
qed

definition demo_cache :: cache where
  "demo_cache = \<lparr>cc_ttl = 900, cc_refresh = False, cc_files = Map.empty, cc_memo = []\<rparr>"

theorem load_rows_ignores_memo_witness:
  "fst (load_rows 5 ''u'' demo_cache) = fst (load_rows 5 ''u'' (demo_cache\<lparr>cc_memo := []\<rparr>)) \<and>
   memo_coherent (snd (load_rows 5 ''u'' demo_cache))"
  by (rule load_rows_ignores_memo) (simp add: memo_coherent_def demo_cache_def)

text \<open>Rows stored for a URL are the rows loaded for it, as long as the entry is not older than the
  time to live and the clock has moved since the memo last read that entry.\<close>

theorem store_then_load_rows:
  assumes "memo_coherent c" and "rows \<noteq> []" and "length rows < 2 ^ 32" and "\<not> cc_refresh c"
    and "now \<le> later" and "later \<le> now + cc_ttl c"
    and "\<forall>(path, mtime, _) \<in> set (cc_memo c). mtime < now"
  shows "fst (load_rows later url (store_rows Installed now url rows c)) = Some rows"
proof -
  let ?c = "store_rows Installed now url rows c"
  have d: "decode_rows (encode_rows rows) = Ok rows"
    using assms(3) by (simp add: decode_encode_rows_plain)
  have "memo_coherent ?c"
    using assms(1,2,7) by (fastforce simp: memo_coherent_def store_rows_def)
  then have "fst (load_rows later url ?c) = fresh_rows later url ?c"
    using load_rows_fresh by (metis prod.collapse)
  also have "\<dots> = Some rows"
    using assms(2,4,6) d by (simp add: store_rows_def fresh_rows_def)
  finally show ?thesis .
qed

theorem store_then_load_rows_witness:
  "fst (load_rows 20 ''u'' (store_rows Installed 10 ''u'' [(Ipv4 1 2 3 4, 8080, Some Socks5)] demo_cache)) =
     Some [(Ipv4 1 2 3 4, 8080, Some Socks5)]"
  by (rule store_then_load_rows) (simp_all add: memo_coherent_def demo_cache_def)

end
