(* ===== verification/Body_Fetch.thy ===== *)
theory Body_Fetch
  imports Rust_Parse
begin

text \<open>
  Downloading one source (\<open>src/providers/mod.rs\<close>): the collector that turns body
  chunks into UTF-8 text although a character may straddle two of them, the decoder
  chosen by the content encoding, and the loop that follows redirects. The UTF-8
  validator is the standard library's; the gzip decoder, the HTTP client and URL
  joining are parameters.
\<close>

section \<open>UTF-8\<close>

datatype utf8_step = Complete nat | Incomplete | Malformed

definition is_cont :: "u8 \<Rightarrow> bool" where
  "is_cont b \<longleftrightarrow> 0x80 \<le> b \<and> b \<le> 0xBF"

definition second_ok :: "u8 \<Rightarrow> u8 \<Rightarrow> bool" where
  "second_ok a b \<longleftrightarrow>
     (if a = 0xE0 then 0xA0 \<le> b \<and> b \<le> 0xBF
      else if a = 0xED then 0x80 \<le> b \<and> b \<le> 0x9F
      else if a = 0xF0 then 0x90 \<le> b \<and> b \<le> 0xBF
      else if a = 0xF4 then 0x80 \<le> b \<and> b \<le> 0x8F
      else is_cont b)"

definition seq_len :: "u8 \<Rightarrow> nat" where
  "seq_len a =
     (if a < 0x80 then 1 else if 0xC2 \<le> a \<and> a \<le> 0xDF then 2
      else if 0xE0 \<le> a \<and> a \<le> 0xEF then 3 else if 0xF0 \<le> a \<and> a \<le> 0xF4 then 4 else 0)"

text \<open>The first character of a byte string.\<close>

fun utf8_first :: "u8 list \<Rightarrow> utf8_step" where
  "utf8_first [] = Incomplete"
| "utf8_first (a # bs) =
     (let n = seq_len a in
      if n = 0 then Malformed
      else if n = 1 then Complete 1
      else case bs of
        [] \<Rightarrow> Incomplete
      | b # cs \<Rightarrow>
          if \<not> second_ok a b then Malformed
          else if n = 2 then Complete 2
          else case cs of
            [] \<Rightarrow> Incomplete
          | c # ds \<Rightarrow>
              if \<not> is_cont c then Malformed
              else if n = 3 then Complete 3
              else case ds of
                [] \<Rightarrow> Incomplete
              | d # es \<Rightarrow> if is_cont d then Complete 4 else Malformed)"

lemma utf8_first_complete:
  "utf8_first bs = Complete n \<Longrightarrow> 0 < n \<and> n \<le> length bs \<and> utf8_first (bs @ cs) = Complete n"
  by (cases bs) (auto simp: Let_def split: list.splits if_splits)

lemma utf8_first_malformed: "utf8_first bs = Malformed \<Longrightarrow> utf8_first (bs @ cs) = Malformed"
  by (cases bs) (auto simp: Let_def split: list.splits if_splits)

lemma utf8_first_incomplete: "utf8_first bs = Incomplete \<Longrightarrow> length bs \<le> 3"
  by (cases bs) (auto simp: Let_def split: list.splits if_splits)

lemma utf8_first_take: "utf8_first bs = Complete n \<Longrightarrow> utf8_first (take n bs) = Complete n"
  by (cases bs) (auto simp: Let_def take_Cons' split: list.splits if_splits)

datatype utf8_status = Utf8Valid | Utf8Partial | Utf8Bad

text \<open>\<open>str::from_utf8\<close>: how many bytes are valid characters, and what stopped the scan: nothing, a
  character cut off by the end of the input (\<open>error_len\<close> is \<open>None\<close>), or a wrong byte.\<close>

function from_utf8 :: "u8 list \<Rightarrow> nat \<times> utf8_status" where
  "from_utf8 bs =
     (if bs = [] then (0, Utf8Valid)
      else case utf8_first bs of
        Complete n \<Rightarrow> (case from_utf8 (drop n bs) of (k, st) \<Rightarrow> (n + k, st))
      | Incomplete \<Rightarrow> (0, Utf8Partial)
      | Malformed \<Rightarrow> (0, Utf8Bad))"
  by pat_completeness auto
termination
  by (relation "measure length") (auto dest: utf8_first_complete [where cs = "[]"])

declare from_utf8.simps [simp del]

lemma from_utf8_Nil [simp]: "from_utf8 [] = (0, Utf8Valid)"
  by (simp add: from_utf8.simps)

definition valid_utf8 :: "u8 list \<Rightarrow> bool" where
  "valid_utf8 bs \<longleftrightarrow> snd (from_utf8 bs) = Utf8Valid"

lemma from_utf8_facts:
  "from_utf8 bs = (k, st) \<Longrightarrow> k \<le> length bs \<and> (st = Utf8Valid \<longrightarrow> k = length bs) \<and>
     (st = Utf8Partial \<longrightarrow> k < length bs \<and> length bs \<le> k + 3) \<and> from_utf8 (take k bs) = (k, Utf8Valid)"
proof (induction bs arbitrary: k st rule: from_utf8.induct)
  case (1 bs)
  show ?case
  proof (cases "bs = []")
    case True
    with 1 show ?thesis by simp
  next
    case False
    show ?thesis
    proof (cases "utf8_first bs")
      case (Complete n)
      then obtain k' where k': "from_utf8 (drop n bs) = (k', st)" "k = n + k'"
        using "1.prems" False by (auto simp: from_utf8.simps [of bs] split: prod.splits)
      note n = utf8_first_complete [OF Complete, of "[]"]
      from "1.IH" [OF False Complete k'(1)] n k' have
        le: "k \<le> length bs" and v: "st = Utf8Valid \<longrightarrow> k = length bs"
        and p: "st = Utf8Partial \<longrightarrow> k < length bs \<and> length bs \<le> k + 3"
        and t: "from_utf8 (take k' (drop n bs)) = (k', Utf8Valid)"
        by auto
      have "take k bs = take n bs @ take k' (drop n bs)"
        using k'(2) by (simp add: take_add)
      moreover have "utf8_first (take n bs @ take k' (drop n bs)) = Complete n"
        using utf8_first_complete [OF utf8_first_take [OF Complete]] by blast
      ultimately have "from_utf8 (take k bs) = (k, Utf8Valid)"
        using t n k'(2) False by (subst from_utf8.simps) (auto simp: split: prod.splits)
      with le v p show ?thesis by simp
    next
      case Incomplete
      with "1.prems" False utf8_first_incomplete [OF Incomplete] show ?thesis
        by (auto simp: from_utf8.simps [of bs])
    next
      case Malformed
      with "1.prems" False show ?thesis by (auto simp: from_utf8.simps [of bs])
    qed
  qed
qed

lemma from_utf8_append:
  "from_utf8 bs = (k, st) \<Longrightarrow>
   from_utf8 (bs @ cs) =
     (if st = Utf8Bad then (k, Utf8Bad)
      else case from_utf8 (drop k bs @ cs) of (j, st') \<Rightarrow> (k + j, st'))"
proof (induction bs arbitrary: k st rule: from_utf8.induct)
  case (1 bs)
  show ?case
  proof (cases "bs = []")
    case True
    with 1 show ?thesis by (simp split: prod.splits)
  next
    case False
    show ?thesis
    proof (cases "utf8_first bs")
      case (Complete n)
      then obtain k' where k': "from_utf8 (drop n bs) = (k', st)" "k = n + k'"
        using "1.prems" False by (auto simp: from_utf8.simps [of bs] split: prod.splits)
      note n = utf8_first_complete [OF Complete, of cs]
      have "from_utf8 (bs @ cs) = (case from_utf8 (drop n bs @ cs) of (j, st') \<Rightarrow> (n + j, st'))"
        using n False by (subst from_utf8.simps) simp
      with "1.IH" [OF False Complete k'(1)] k'(2) show ?thesis
        by (auto simp: add.commute split: prod.splits)
    next
      case Incomplete
      with "1.prems" False show ?thesis by (auto simp: from_utf8.simps [of bs] split: prod.splits)
    next
      case Malformed
      with "1.prems" False utf8_first_malformed [OF Malformed, of cs] show ?thesis
        by (auto simp: from_utf8.simps [of bs] from_utf8.simps [of "bs @ cs"])
    qed
  qed
qed

section \<open>The collector\<close>

record collector =
  content :: "u8 list"
  pending_buf :: "u8 list"
  pending_len :: nat

definition collector_new :: collector where
  "collector_new = \<lparr>content = [], pending_buf = [0, 0, 0], pending_len = 0\<rparr>"

definition append_utf8 :: "collector \<Rightarrow> u8 list \<Rightarrow> (collector, string) outcome" where
  "append_utf8 c bytes =
     (if pending_len c > length (pending_buf c) then Panic
      else let buf = (if pending_len c = 0 then bytes else take (pending_len c) (pending_buf c) @ bytes)
        in case from_utf8 buf of
          (_, Utf8Valid) \<Rightarrow> Ok (c\<lparr>content := content c @ buf, pending_len := 0\<rparr>)
        | (valid_up_to, Utf8Partial) \<Rightarrow>
            (let head = take valid_up_to buf; tail = drop valid_up_to buf
             in if \<not> valid_utf8 head \<or> length tail > length (pending_buf c) then Panic
                else Ok (c\<lparr>content := content c @ head,
                           pending_buf := tail @ drop (length tail) (pending_buf c),
                           pending_len := length tail\<rparr>))
        | (_, Utf8Bad) \<Rightarrow> Err ''provider response body is not valid UTF-8'')"

definition collector_len :: "collector \<Rightarrow> nat" where
  "collector_len c = length (content c) + pending_len c"

definition collector_finish :: "collector \<Rightarrow> (u8 list, string) outcome" where
  "collector_finish c =
     (if pending_len c > 0 then Err ''provider response body is not valid UTF-8'' else Ok (content c))"

text \<open>The collector after the bytes \<open>bs\<close>: the valid characters, and the start of the next one.\<close>

definition collected :: "u8 list \<Rightarrow> collector \<Rightarrow> bool" where
  "collected bs c \<longleftrightarrow>
     length (pending_buf c) = 3 \<and> pending_len c \<le> 3 \<and>
     bs = content c @ take (pending_len c) (pending_buf c) \<and>
     from_utf8 bs = (length (content c), if pending_len c = 0 then Utf8Valid else Utf8Partial)"

lemma collected_new: "collected [] collector_new"
  by (simp add: collected_def collector_new_def)

lemma collected_append:
  assumes "collected bs c"
  shows "(\<exists>c'. append_utf8 c cs = Ok c' \<and> collected (bs @ cs) c') \<or>
    (append_utf8 c cs = Err ''provider response body is not valid UTF-8'' \<and> snd (from_utf8 (bs @ cs)) = Utf8Bad)"
proof -
  define B where "B = take (pending_len c) (pending_buf c) @ cs"
  from assms have p: "length (pending_buf c) = 3" "pending_len c \<le> 3"
    and bs: "bs @ cs = content c @ B"
    and sc: "from_utf8 bs = (length (content c), if pending_len c = 0 then Utf8Valid else Utf8Partial)"
    and dr: "drop (length (content c)) bs @ cs = B"
    by (auto simp: collected_def B_def)
  obtain k st where k: "from_utf8 B = (k, st)" by (cases "from_utf8 B")
  have whole: "from_utf8 (bs @ cs) = (length (content c) + k, st)"
    using from_utf8_append [OF sc, of cs] k dr by (simp split: if_splits)
  have buf: "(if pending_len c = 0 then cs else take (pending_len c) (pending_buf c) @ cs) = B"
    by (simp add: B_def)
  have step: "append_utf8 c cs =
     (case from_utf8 B of
        (_, Utf8Valid) \<Rightarrow> Ok (c\<lparr>content := content c @ B, pending_len := 0\<rparr>)
      | (valid_up_to, Utf8Partial) \<Rightarrow>
          (let head = take valid_up_to B; tail = drop valid_up_to B
           in if \<not> valid_utf8 head \<or> length tail > length (pending_buf c) then Panic
              else Ok (c\<lparr>content := content c @ head,
                         pending_buf := tail @ drop (length tail) (pending_buf c),
                         pending_len := length tail\<rparr>))
      | (_, Utf8Bad) \<Rightarrow> Err ''provider response body is not valid UTF-8'')"
    using p unfolding append_utf8_def Let_def buf by (auto split: prod.splits utf8_status.splits)
  note facts = from_utf8_facts [OF k]
  show ?thesis
  proof (cases st)
    case Utf8Valid
    then have "collected (bs @ cs) (c\<lparr>content := content c @ B, pending_len := 0\<rparr>)"
      using whole facts p bs by (simp add: collected_def)
    then show ?thesis using k Utf8Valid step by simp
  next
    case Utf8Partial
    let ?c = "c\<lparr>content := content c @ take k B,
        pending_buf := drop k B @ drop (length (drop k B)) (pending_buf c), pending_len := length (drop k B)\<rparr>"
    from Utf8Partial facts have t: "0 < length (drop k B)" "length (drop k B) \<le> 3" "k \<le> length B" by auto
    have v: "valid_utf8 (take k B)" using facts by (simp add: valid_utf8_def)
    have "collected (bs @ cs) ?c"
      using t whole p bs Utf8Partial by (simp add: collected_def)
    moreover have "append_utf8 c cs = Ok ?c"
      using p k Utf8Partial step t v by (simp add: Let_def)
    ultimately show ?thesis by blast
  next
    case Utf8Bad
    then show ?thesis using k step whole by simp
  qed
qed

fun write_chunks :: "collector \<Rightarrow> u8 list list \<Rightarrow> (collector, string) outcome" where
  "write_chunks c [] = Ok c"
| "write_chunks c (chunk # chunks) = and_then (append_utf8 c chunk) (\<lambda>c'. write_chunks c' chunks)"

lemma from_utf8_bad_append: "snd (from_utf8 bs) = Utf8Bad \<Longrightarrow> snd (from_utf8 (bs @ cs)) = Utf8Bad"
  using from_utf8_append [of bs _ Utf8Bad cs] by (cases "from_utf8 bs") auto

lemma write_chunks_collected:
  "collected bs c \<Longrightarrow>
   (\<exists>c'. write_chunks c chunks = Ok c' \<and> collected (bs @ concat chunks) c') \<or>
   (write_chunks c chunks = Err ''provider response body is not valid UTF-8'' \<and>
    snd (from_utf8 (bs @ concat chunks)) = Utf8Bad)"
proof (induction chunks arbitrary: bs c)
  case Nil
  then show ?case by simp
next
  case (Cons chunk chunks)
  from collected_append [OF Cons.prems, of chunk] show ?case
  proof (elim disjE exE conjE)
    fix c'
    assume a: "append_utf8 c chunk = Ok c'" and "collected (bs @ chunk) c'"
    from Cons.IH [OF this(2)] a show ?thesis by simp
  next
    assume "append_utf8 c chunk = Err ''provider response body is not valid UTF-8''"
      and "snd (from_utf8 (bs @ chunk)) = Utf8Bad"
    with from_utf8_bad_append [of "bs @ chunk" "concat chunks"] show ?thesis by simp
  qed
qed

text \<open>C34: however a response body is cut into chunks, characters split across them included, the
  collector never panics, returns the whole body when it is valid UTF-8 and an error otherwise.\<close>

theorem chunking_is_invisible:
  "and_then (write_chunks collector_new chunks) collector_finish =
     (if valid_utf8 (concat chunks) then Ok (concat chunks)
      else Err ''provider response body is not valid UTF-8'')"
  using write_chunks_collected [OF collected_new, of chunks]
proof (elim disjE exE conjE)
  fix c
  assume w: "write_chunks collector_new chunks = Ok c" and c: "collected ([] @ concat chunks) c"
  then have "concat chunks = content c @ take (pending_len c) (pending_buf c)"
    and "snd (from_utf8 (concat chunks)) = (if pending_len c = 0 then Utf8Valid else Utf8Partial)"
    by (auto simp: collected_def)
  with w show ?thesis by (auto simp: collector_finish_def valid_utf8_def)
qed (simp add: valid_utf8_def)

section \<open>The decoder\<close>

text \<open>
  The gzip decoder is a writer in front of the collector: each write, and its end, turn the
  compressed bytes into the chunks it passes on, or fail.
\<close>

datatype 'z decoder = Identity collector | Gzip 'z collector

record 'z inflater =
  inflate_start :: 'z
  inflate_write :: "'z \<Rightarrow> u8 list \<Rightarrow> (u8 list list \<times> 'z) option"
  inflate_end :: "'z \<Rightarrow> u8 list list option"

definition decoder_new :: "'z inflater \<Rightarrow> string option \<Rightarrow> ('z decoder, string) outcome" where
  "decoder_new gz encoding =
     (case encoding of
        None \<Rightarrow> Ok (Identity collector_new)
      | Some e \<Rightarrow>
          if e = [] \<or> e = ''identity'' then Ok (Identity collector_new)
          else if e = ''gzip'' \<or> e = ''x-gzip'' then Ok (Gzip (inflate_start gz) collector_new)
          else Err (''unsupported Content-Encoding `'' @ e @ ''`''))"

fun decoder_write :: "'z inflater \<Rightarrow> 'z decoder \<Rightarrow> u8 list \<Rightarrow> ('z decoder, string) outcome" where
  "decoder_write gz (Identity c) chunk = and_then (append_utf8 c chunk) (\<lambda>c'. Ok (Identity c'))"
| "decoder_write gz (Gzip z c) chunk =
     (case inflate_write gz z chunk of
        None \<Rightarrow> Err ''corrupt deflate stream''
      | Some (out, z') \<Rightarrow> and_then (write_chunks c out) (\<lambda>c'. Ok (Gzip z' c')))"

fun decoder_len :: "'z decoder \<Rightarrow> nat" where
  "decoder_len (Identity c) = collector_len c"
| "decoder_len (Gzip z c) = collector_len c"

fun decoder_finish :: "'z inflater \<Rightarrow> 'z decoder \<Rightarrow> (u8 list, string) outcome" where
  "decoder_finish gz (Identity c) = collector_finish c"
| "decoder_finish gz (Gzip z c) =
     (case inflate_end gz z of
        None \<Rightarrow> Err ''corrupt deflate stream''
      | Some out \<Rightarrow> and_then (write_chunks c out) collector_finish)"

section \<open>The request loop\<close>

definition MAX_SOURCE_BODY_BYTES :: nat where
  "MAX_SOURCE_BODY_BYTES = 8 * 1024 * 1024"

definition MAX_REDIRECTS :: nat where
  "MAX_REDIRECTS = 10"

datatype frame = Data "u8 list" | Trailers | FrameTimeout | FrameError

text \<open>A header that is present but not text is \<open>Some None\<close>.\<close>

record response =
  rp_status :: nat
  rp_location :: "string option option"
  rp_content_length :: "string option"
  rp_encoding :: "string option"
  rp_frames :: "frame list"

datatype answer = RequestTimeout | RequestFailed | Answer response

fun read_frames :: "'z inflater \<Rightarrow> 'z decoder \<Rightarrow> frame list \<Rightarrow> ('z decoder, string) outcome" where
  "read_frames gz dec [] = Ok dec"
| "read_frames gz dec (FrameTimeout # fs) = Err ''body stream timed out''"
| "read_frames gz dec (FrameError # fs) = Err ''body stream was interrupted''"
| "read_frames gz dec (Trailers # fs) = read_frames gz dec fs"
| "read_frames gz dec (Data chunk # fs) =
     and_then (decoder_write gz dec chunk) (\<lambda>dec'.
       if decoder_len dec' > MAX_SOURCE_BODY_BYTES then Err ''response body exceeds the limit''
       else read_frames gz dec' fs)"

definition read_body :: "'z inflater \<Rightarrow> response \<Rightarrow> (u8 list, string) outcome" where
  "read_body gz rp =
     (if (case Option.bind (rp_content_length rp) parse_usize of
            Some declared \<Rightarrow> declared > MAX_SOURCE_BODY_BYTES | None \<Rightarrow> False)
      then Err ''response body exceeds the limit''
      else and_then (decoder_new gz (map_option (\<lambda>v. lower (trim v)) (rp_encoding rp))) (\<lambda>dec.
        and_then (read_frames gz dec (rp_frames rp)) (decoder_finish gz)))"

text \<open>The loop returns its result and the URLs it asked for, in order.\<close>

function fetch_url ::
  "'z inflater \<Rightarrow> ('u \<Rightarrow> string \<Rightarrow> 'u option) \<Rightarrow> ('u \<Rightarrow> answer) \<Rightarrow> 'u list \<Rightarrow> nat \<Rightarrow> 'u \<Rightarrow>
   (u8 list, string) outcome \<times> 'u list" where
  "fetch_url gz join_url ask visited redirect_count url =
     (if url \<in> set visited then (Err ''redirect loop detected'', [])
      else case ask url of
        RequestTimeout \<Rightarrow> (Err ''request timed out'', [url])
      | RequestFailed \<Rightarrow> (Err ''request failed'', [url])
      | Answer rp \<Rightarrow>
          (if 300 \<le> rp_status rp \<and> rp_status rp < 400 \<and> rp_location rp \<noteq> None then
             (case the (rp_location rp) of
                None \<Rightarrow> (Err ''non-utf8 Location header'', [url])
              | Some location \<Rightarrow>
                  (case join_url url location of
                     None \<Rightarrow> (Err ''invalid redirect Location'', [url])
                   | Some next_url \<Rightarrow>
                       if redirect_count + 1 > MAX_REDIRECTS then (Err ''too many redirects'', [url])
                       else (case fetch_url gz join_url ask (visited @ [url]) (redirect_count + 1) next_url of
                               (r, asked) \<Rightarrow> (r, url # asked))))
           else if \<not> (200 \<le> rp_status rp \<and> rp_status rp < 300) then (Err ''returned HTTP status'', [url])
           else (read_body gz rp, [url])))"
  by pat_completeness auto
termination
  by (relation "measure (\<lambda>(_, _, _, _, n, _). MAX_REDIRECTS - n)") auto

declare fetch_url.simps [simp del]

lemma fetch_url_asked:
  "fetch_url gz join_url ask visited n url = (r, asked) \<Longrightarrow> n \<le> MAX_REDIRECTS \<Longrightarrow>
   distinct asked \<and> set asked \<inter> set visited = {} \<and> length asked + n \<le> MAX_REDIRECTS + 1"
proof (induction gz join_url ask visited n url arbitrary: r asked rule: fetch_url.induct)
  case (1 gz join_url ask visited n url)
  show ?case
  proof (cases "\<exists>rp location next_url. url \<notin> set visited \<and> ask url = Answer rp \<and>
      300 \<le> rp_status rp \<and> rp_status rp < 400 \<and> rp_location rp = Some (Some location) \<and>
      join_url url location = Some next_url \<and> n + 1 \<le> MAX_REDIRECTS")
    case True
    then obtain rp location next_url where c: "url \<notin> set visited" "ask url = Answer rp"
        "300 \<le> rp_status rp" "rp_status rp < 400" "rp_location rp = Some (Some location)"
        "join_url url location = Some next_url" "n + 1 \<le> MAX_REDIRECTS" by blast
    obtain r' asked' where f: "fetch_url gz join_url ask (visited @ [url]) (n + 1) next_url = (r', asked')"
      by (cases "fetch_url gz join_url ask (visited @ [url]) (n + 1) next_url")
    with c "1.prems" have "asked = url # asked'"
      by (auto simp: fetch_url.simps [of gz join_url ask visited n url])
    moreover have "distinct asked' \<and> set asked' \<inter> set (visited @ [url]) = {} \<and>
        length asked' + (n + 1) \<le> MAX_REDIRECTS + 1"
      using c f by (intro "1.IH") auto
    ultimately show ?thesis using c(1) by auto
  next
    case False
    then have "asked = [] \<or> asked = [url] \<and> url \<notin> set visited"
      using "1.prems" by (auto simp: fetch_url.simps [of gz join_url ask visited n url] not_le
          split: answer.splits option.splits if_splits prod.splits)
    with "1.prems"(2) show ?thesis by auto
  qed
qed

text \<open>A download ends for every server, redirect loops included: it asks for at most eleven
  URLs, no URL twice.\<close>

theorem redirects_bounded:
  "distinct (snd (fetch_url gz join_url ask [] 0 url)) \<and> length (snd (fetch_url gz join_url ask [] 0 url)) \<le> 11"
proof -
  obtain r asked where "fetch_url gz join_url ask [] 0 url = (r, asked)"
    by (cases "fetch_url gz join_url ask [] 0 url")
  with fetch_url_asked [OF this] show ?thesis by (simp add: MAX_REDIRECTS_def)
qed

text \<open>An uncompressed body: what is returned is what was sent, within the limit.\<close>

definition frame_data :: "frame list \<Rightarrow> u8 list" where
  "frame_data fs = concat (map (\<lambda>f. case f of Data chunk \<Rightarrow> chunk | _ \<Rightarrow> []) fs)"

lemma frame_data_simps [simp]:
  "frame_data [] = []" "frame_data (Data chunk # fs) = chunk @ frame_data fs"
  "frame_data (Trailers # fs) = frame_data fs"
  by (simp_all add: frame_data_def)

lemma collected_len: "collected bs c \<Longrightarrow> collector_len c = length bs"
  by (auto simp: collected_def collector_len_def)

lemma read_frames_identity:
  "collected bs c \<Longrightarrow> length bs \<le> MAX_SOURCE_BODY_BYTES \<Longrightarrow>
   (case read_frames gz (Identity c) fs of
      Ok dec \<Rightarrow> \<exists>c'. dec = Identity c' \<and> collected (bs @ frame_data fs) c' \<and>
        length (bs @ frame_data fs) \<le> MAX_SOURCE_BODY_BYTES
    | Err e \<Rightarrow> True
    | Panic \<Rightarrow> False)"
proof (induction fs arbitrary: bs c)
  case Nil
  then show ?case by simp
next
  case (Cons f fs)
  show ?case
  proof (cases f)
    case (Data chunk)
    from collected_append [OF Cons.prems(1), of chunk] show ?thesis
    proof (elim disjE exE conjE)
      fix c'
      assume a: "append_utf8 c chunk = Ok c'" and c': "collected (bs @ chunk) c'"
      show ?thesis
      proof (cases "collector_len c' > MAX_SOURCE_BODY_BYTES")
        case True
        with a Data show ?thesis by simp
      next
        case False
        with collected_len [OF c'] have "length (bs @ chunk) \<le> MAX_SOURCE_BODY_BYTES" by simp
        from Cons.IH [OF c' this] a Data False show ?thesis by (auto split: outcome.splits)
      qed
    next
      assume "append_utf8 c chunk = Err ''provider response body is not valid UTF-8''"
      with Data show ?thesis by simp
    qed
  next
    case Trailers
    with Cons.IH [OF Cons.prems] show ?thesis by (auto split: outcome.splits)
  qed simp_all
qed

text \<open>Reading an unencoded response never panics, and a body that is returned is exactly the
  bytes of the frames, valid UTF-8, and at most 8 MiB long.\<close>

theorem identity_body_exact:
  assumes "rp_encoding rp = None"
  shows "case read_body gz rp of
      Ok text \<Rightarrow> text = frame_data (rp_frames rp) \<and> valid_utf8 text \<and> length text \<le> 8 * 1024 * 1024
    | Err e \<Rightarrow> True
    | Panic \<Rightarrow> False"
proof -
  let ?run = "and_then (read_frames gz (Identity collector_new) (rp_frames rp)) (decoder_finish gz)"
  have "case ?run of
      Ok text \<Rightarrow> text = frame_data (rp_frames rp) \<and> valid_utf8 text \<and> length text \<le> 8 * 1024 * 1024
    | Err e \<Rightarrow> True
    | Panic \<Rightarrow> False"
    using read_frames_identity [OF collected_new, where fs = "rp_frames rp" and gz = gz]
    by (cases "read_frames gz (Identity collector_new) (rp_frames rp)")
      (auto simp: collector_finish_def collected_def valid_utf8_def MAX_SOURCE_BODY_BYTES_def split: if_splits)
  then show ?thesis
    using assms by (auto simp: read_body_def decoder_new_def)
qed

definition demo_response :: response where
  "demo_response = \<lparr>rp_status = 200, rp_location = None, rp_content_length = None, rp_encoding = None,
     rp_frames = [Data [65, 226], Data [130, 172]]\<rparr>"

definition demo_inflater :: "unit inflater" where
  "demo_inflater = \<lparr>inflate_start = (), inflate_write = (\<lambda>_ _. None), inflate_end = (\<lambda>_. None)\<rparr>"

theorem identity_body_exact_witness:
  "case read_body demo_inflater demo_response of
      Ok text \<Rightarrow> text = frame_data (rp_frames demo_response) \<and> valid_utf8 text \<and>
        length text \<le> 8 * 1024 * 1024
    | Err e \<Rightarrow> True
    | Panic \<Rightarrow> False"
  by (rule identity_body_exact) (simp add: demo_response_def)

end
