(* ===== verification/Rotator_Pool.thy ===== *)
theory Rotator_Pool
  imports Proxy_Model "HOL-Library.Multiset"
begin

text \<open>
  The pool of upstream proxies behind the rotating endpoint (\<open>src/rotator/pool.rs\<close>,
  constants and \<open>Strategy\<close> of \<open>src/rotator/mod.rs\<close>): insertion with a cap, picking by
  strategy, success and failure reports with cooldown and eviction. Each operation
  runs under the pool's lock, so a history of the pool is a sequence of them. The
  clock and the random start are parameters.
\<close>

section \<open>The pool\<close>

definition MAX_POOL_SIZE :: nat where
  "MAX_POOL_SIZE = 25"

definition MAX_CONSECUTIVE_FAILURES :: "32 word" where
  "MAX_CONSECUTIVE_FAILURES = 3"

text \<open>In seconds.\<close>

definition COOLDOWN :: nat where
  "COOLDOWN = 60"

datatype strategy = RoundRobin | Random

definition strategy_parse :: "string \<Rightarrow> strategy option" where
  "strategy_parse v =
     (if v = ''round-robin'' then Some RoundRobin else if v = ''random'' then Some Random else None)"

fun strategy_text :: "strategy \<Rightarrow> string" where
  "strategy_text RoundRobin = ''round-robin''"
| "strategy_text Random = ''random''"

interpretation strategy: canonical_codec strategy_text strategy_parse
proof
  fix x s
  show "strategy_parse (strategy_text x) = Some x" by (cases x) (simp_all add: strategy_parse_def)
  show "strategy_parse s = Some x \<Longrightarrow> strategy_text x = s"
    by (auto simp: strategy_parse_def split: if_splits)
qed

record pool_entry =
  pe_proxy :: proxy
  pe_failures :: "32 word"
  pe_cooldown_until :: "nat option"

definition is_available :: "nat \<Rightarrow> pool_entry \<Rightarrow> bool" where
  "is_available now e = (case pe_cooldown_until e of None \<Rightarrow> True | Some until \<Rightarrow> until \<le> now)"

record pool =
  pl_entries :: "pool_entry list"
  pl_cursor :: u64
  pl_strategy :: strategy

definition pool_new :: "strategy \<Rightarrow> pool" where
  "pool_new s = \<lparr>pl_entries = [], pl_cursor = 0, pl_strategy = s\<rparr>"

definition entry_text :: "pool_entry \<Rightarrow> string" where
  "entry_text e = px_text (pe_proxy e)"

definition pool_texts :: "pool \<Rightarrow> string list" where
  "pool_texts pl = map entry_text (pl_entries pl)"

definition pool_add :: "proxy \<Rightarrow> pool \<Rightarrow> bool \<times> pool" where
  "pool_add p pl =
     (if length (pl_entries pl) \<ge> MAX_POOL_SIZE then (False, pl)
      else if \<exists>e \<in> set (pl_entries pl). entry_text e = px_text p then (False, pl)
      else (True, pl\<lparr>pl_entries := pl_entries pl @
                [\<lparr>pe_proxy = p, pe_failures = 0, pe_cooldown_until = None\<rparr>]\<rparr>))"

definition pool_len :: "pool \<Rightarrow> nat" where
  "pool_len pl = length (pl_entries pl)"

definition pool_is_empty :: "pool \<Rightarrow> bool" where
  "pool_is_empty pl = (pool_len pl = 0)"

definition pool_ready :: "nat \<Rightarrow> pool \<Rightarrow> nat" where
  "pool_ready now pl = length (filter (is_available now) (pl_entries pl))"

definition random_below :: "u64 \<Rightarrow> nat \<Rightarrow> nat" where
  "random_below hash n_entries = unat (hash mod of_nat n_entries)"

text \<open>\<open>(0..n_entries).find_map\<close> over the entries from \<open>start\<close> on, wrapping around.\<close>

fun find_from :: "nat \<Rightarrow> pool_entry list \<Rightarrow> nat \<Rightarrow> nat list \<Rightarrow> proxy option" where
  "find_from now es start [] = None"
| "find_from now es start (offset # offsets) =
     (let e = es ! ((start + offset) mod length es)
      in if is_available now e then Some (pe_proxy e) else find_from now es start offsets)"

definition pool_pick :: "nat \<Rightarrow> u64 \<Rightarrow> pool \<Rightarrow> proxy option \<times> pool" where
  "pool_pick now hash pl =
     (if pl_entries pl = [] then (None, pl)
      else let n_entries = length (pl_entries pl);
               (start, pl') = (case pl_strategy pl of
                   Random \<Rightarrow> (random_below hash n_entries, pl)
                 | RoundRobin \<Rightarrow> (unat (pl_cursor pl mod of_nat n_entries), pl\<lparr>pl_cursor := pl_cursor pl + 1\<rparr>))
           in (find_from now (pl_entries pl) start [0..<n_entries], pl'))"

definition report_success :: "proxy \<Rightarrow> pool \<Rightarrow> pool" where
  "report_success p pl =
     (case position (\<lambda>e. entry_text e = px_text p) (pl_entries pl) of
        None \<Rightarrow> pl
      | Some i \<Rightarrow> pl\<lparr>pl_entries := (pl_entries pl)[i := (pl_entries pl ! i)\<lparr>pe_failures := 0,
            pe_cooldown_until := None\<rparr>]\<rparr>)"

definition report_failure :: "nat \<Rightarrow> proxy \<Rightarrow> pool \<Rightarrow> pool" where
  "report_failure now p pl =
     (case position (\<lambda>e. entry_text e = px_text p) (pl_entries pl) of
        None \<Rightarrow> pl
      | Some i \<Rightarrow>
          (let entry = (pl_entries pl ! i)\<lparr>pe_failures := pe_failures (pl_entries pl ! i) + 1\<rparr>;
               entries = (pl_entries pl)[i := entry]
           in if MAX_CONSECUTIVE_FAILURES \<le> pe_failures entry
              then pl\<lparr>pl_entries := swap_remove entries i\<rparr>
              else pl\<lparr>pl_entries := entries[i := entry\<lparr>pe_cooldown_until := Some (now + COOLDOWN)\<rparr>]\<rparr>))"

section \<open>Histories and the invariant\<close>

datatype pool_op =
    Add proxy
  | Pick nat u64
  | Success proxy
  | Failure nat proxy

fun pool_apply :: "pool_op \<Rightarrow> pool \<Rightarrow> pool" where
  "pool_apply (Add p) pl = snd (pool_add p pl)"
| "pool_apply (Pick now hash) pl = snd (pool_pick now hash pl)"
| "pool_apply (Success p) pl = report_success p pl"
| "pool_apply (Failure now p) pl = report_failure now p pl"

inductive pool_reach :: "strategy \<Rightarrow> pool \<Rightarrow> bool" for s where
  start: "pool_reach s (pool_new s)"
| step: "pool_reach s pl \<Longrightarrow> pool_reach s (pool_apply op pl)"

definition pool_ok :: "pool \<Rightarrow> bool" where
  "pool_ok pl \<longleftrightarrow>
     length (pl_entries pl) \<le> MAX_POOL_SIZE \<and> distinct (pool_texts pl) \<and>
     (\<forall>e \<in> set (pl_entries pl). pe_failures e < MAX_CONSECUTIVE_FAILURES \<and>
        (pe_cooldown_until e \<noteq> None \<longleftrightarrow> pe_failures e \<noteq> 0))"

lemma pool_ok_new [inv_intros]: "pool_ok (pool_new s)"
  by (simp add: pool_ok_def pool_new_def pool_texts_def)

lemma pool_ok_add [inv_intros]: "pool_ok pl \<Longrightarrow> pool_ok (snd (pool_add p pl))"
  by (auto simp: pool_ok_def pool_add_def pool_texts_def entry_text_def MAX_CONSECUTIVE_FAILURES_def)

lemma pick_entries: "pl_entries (snd (pool_pick now hash pl)) = pl_entries pl"
  by (auto simp: pool_pick_def Let_def split: strategy.split)

lemma pool_ok_pick [inv_intros]: "pool_ok pl \<Longrightarrow> pool_ok (snd (pool_pick now hash pl))"
  by (simp add: pool_ok_def pool_texts_def pick_entries)

lemma texts_update:
  "i < length es \<Longrightarrow> entry_text e = entry_text (es ! i) \<Longrightarrow> map entry_text (es[i := e]) = map entry_text es"
  by (metis list_update_id map_update nth_map length_map)

lemma entry_text_updates [simp]:
  "entry_text (e\<lparr>pe_failures := n\<rparr>) = entry_text e"
  "entry_text (e\<lparr>pe_cooldown_until := c\<rparr>) = entry_text e"
  by (simp_all add: entry_text_def)

text \<open>What the two reports do to the entry they concern, when there is one.\<close>

lemma report_success_entry:
  "position (\<lambda>e. entry_text e = px_text p) (pl_entries pl) = Some i \<Longrightarrow>
   report_success p pl = pl\<lparr>pl_entries := (pl_entries pl)[i := (pl_entries pl ! i)\<lparr>pe_failures := 0,
      pe_cooldown_until := None\<rparr>]\<rparr>"
  by (simp add: report_success_def)

lemma pool_ok_success [inv_intros]:
  assumes "pool_ok pl"
  shows "pool_ok (report_success p pl)"
proof (cases "position (\<lambda>e. entry_text e = px_text p) (pl_entries pl)")
  case None
  with assms show ?thesis by (simp add: report_success_def)
next
  case (Some i)
  then have i: "i < length (pl_entries pl)" by (simp add: position_eq_Some)
  show ?thesis
    using assms i texts_update [OF i]
    by (auto simp: pool_ok_def pool_texts_def report_success_entry [OF Some] MAX_CONSECUTIVE_FAILURES_def
        dest!: set_update_subset_insert [THEN subsetD])
qed

lemma failures_increment:
  "(f :: 32 word) < 3 \<Longrightarrow> \<not> 3 \<le> f + 1 \<Longrightarrow> f + 1 < 3 \<and> f + 1 \<noteq> 0"
  by (simp add: word_less_nat_alt word_le_nat_alt unat_word_ariths word_unat_eq_iff)

lemma pool_ok_failure [inv_intros]:
  assumes ok: "pool_ok pl"
  shows "pool_ok (report_failure now p pl)"
proof (cases "position (\<lambda>e. entry_text e = px_text p) (pl_entries pl)")
  case None
  with ok show ?thesis by (simp add: report_failure_def)
next
  case (Some i)
  then have i: "i < length (pl_entries pl)" by (simp add: position_eq_Some)
  let ?e = "(pl_entries pl ! i)\<lparr>pe_failures := pe_failures (pl_entries pl ! i) + 1\<rparr>"
  let ?es = "(pl_entries pl)[i := ?e]"
  have texts: "map entry_text ?es = map entry_text (pl_entries pl)"
    using texts_update [OF i] by simp
  show ?thesis
  proof (cases "MAX_CONSECUTIVE_FAILURES \<le> pe_failures ?e")
    case True
    then have r: "report_failure now p pl = pl\<lparr>pl_entries := swap_remove ?es i\<rparr>"
      using Some by (simp add: report_failure_def Let_def)
    have d: "distinct (map entry_text (swap_remove ?es i))"
      using ok i texts by (intro distinct_swap_remove) (simp_all add: pool_ok_def pool_texts_def)
    have "distinct ?es" using ok texts by (metis distinct_map pool_ok_def pool_texts_def)
    then have "set (swap_remove ?es i) = set ?es - {?es ! i}" using i by (simp add: set_swap_remove)
    moreover have "set ?es \<subseteq> insert (?es ! i) (set (pl_entries pl))"
      using i by (simp add: set_update_subset_insert)
    ultimately have "set (swap_remove ?es i) \<subseteq> set (pl_entries pl)" by blast
    with ok d r show ?thesis by (auto simp: pool_ok_def pool_texts_def)
  next
    case False
    let ?e' = "?e\<lparr>pe_cooldown_until := Some (now + COOLDOWN)\<rparr>"
    have r: "report_failure now p pl = pl\<lparr>pl_entries := (pl_entries pl)[i := ?e']\<rparr>"
      using Some False by (simp add: report_failure_def Let_def)
    have "pe_failures (pl_entries pl ! i) < 3"
      using ok i by (simp add: pool_ok_def MAX_CONSECUTIVE_FAILURES_def)
    with False have f: "pe_failures ?e' < MAX_CONSECUTIVE_FAILURES" "pe_failures ?e' \<noteq> 0"
      using failures_increment by (simp_all add: MAX_CONSECUTIVE_FAILURES_def)
    have "map entry_text ((pl_entries pl)[i := ?e']) = map entry_text (pl_entries pl)"
      using texts_update [OF i] by simp
    moreover have "set ((pl_entries pl)[i := ?e']) \<subseteq> insert ?e' (set (pl_entries pl))"
      by (rule set_update_subset_insert)
    moreover have "pe_cooldown_until ?e' \<noteq> None" by simp
    ultimately show ?thesis
      using ok f unfolding r by (fastforce simp: pool_ok_def pool_texts_def)
  qed
qed

lemma pool_ok_apply: "pool_ok pl \<Longrightarrow> pool_ok (pool_apply op pl)"
  by (cases op) (auto intro: inv_intros)

text \<open>C30: after any sequence of operations the pool holds at most 25 proxies with distinct endpoints,
  none with three consecutive failures, and exactly those with a failure have a cooldown.\<close>

theorem pool_reach_ok: "pool_reach s pl \<Longrightarrow> pool_ok pl"
  by (induction rule: pool_reach.induct) (auto intro: pool_ok_new pool_ok_apply)

theorem pool_reach_ok_witness:
  "pool_ok (pool_apply (Failure 7 (proxy_new (Ipv4 1 2 3 4) 80))
     (pool_apply (Add (proxy_new (Ipv4 1 2 3 4) 80)) (pool_new Random)))"
  by (rule pool_reach_ok [of Random]) (intro pool_reach.intros)

section \<open>Picking\<close>

lemma find_from_Some:
  "find_from now es start offsets = Some p \<Longrightarrow> es \<noteq> [] \<Longrightarrow>
   \<exists>e \<in> set es. is_available now e \<and> pe_proxy e = p"
  by (induction offsets) (auto simp: Let_def split: if_splits)

lemma find_from_None:
  "find_from now es start offsets = None \<longleftrightarrow>
   (\<forall>o' \<in> set offsets. \<not> is_available now (es ! ((start + o') mod length es)))"
  by (induction offsets) (auto simp: Let_def)

text \<open>The offsets reach every entry.\<close>

lemma offsets_cover:
  assumes "i < n"
  shows "\<exists>k < n. (start + k) mod n = (i :: nat)"
proof -
  let ?k = "(i + n - start mod n) mod n"
  have "(start + ?k) mod n = (start mod n + (i + n - start mod n)) mod n"
    by (simp add: mod_simps)
  also have "start mod n + (i + n - start mod n) = i + n"
    using assms by (simp add: mod_less_divisor order_less_imp_le trans_le_add2 le_add_diff_inverse)
  finally have "(start + ?k) mod n = i" using assms by simp
  moreover have "?k < n" using assms by simp
  ultimately show ?thesis by blast
qed

lemma pick_result:
  assumes "pl_entries pl \<noteq> []"
  obtains start where
    "fst (pool_pick now hash pl) = find_from now (pl_entries pl) start [0..<length (pl_entries pl)]"
  using assms by (cases "pl_strategy pl") (auto simp: pool_pick_def Let_def)

lemma pick_finds_available_plain:
  "case fst (pool_pick now hash pl) of
     Some p \<Rightarrow> (\<exists>e \<in> set (pl_entries pl). pe_proxy e = p \<and> is_available now e)
   | None \<Rightarrow> (\<forall>e \<in> set (pl_entries pl). \<not> is_available now e)"
proof (cases "pl_entries pl = []")
  case True
  then show ?thesis by (simp add: pool_pick_def)
next
  case False
  then obtain start where
    p: "fst (pool_pick now hash pl) = find_from now (pl_entries pl) start [0..<length (pl_entries pl)]"
    by (rule pick_result)
  show ?thesis
  proof (cases "fst (pool_pick now hash pl)")
    case None
    have "\<not> is_available now e" if "e \<in> set (pl_entries pl)" for e
    proof -
      from that obtain i where i: "i < length (pl_entries pl)" "pl_entries pl ! i = e"
        by (auto simp: in_set_conv_nth)
      then obtain k where "k < length (pl_entries pl)" "(start + k) mod length (pl_entries pl) = i"
        using offsets_cover by blast
      with None p i show ?thesis by (auto simp: find_from_None)
    qed
    with None show ?thesis by simp
  next
    case (Some q)
    with p have "find_from now (pl_entries pl) start [0..<length (pl_entries pl)] = Some q" by simp
    from find_from_Some [OF this False] Some show ?thesis by auto
  qed
qed

text \<open>A pick returns a pooled proxy that is out of cooldown, whatever the strategy, the cursor and
  the random start, and returns none only when no proxy is.\<close>

theorem pick_finds_available:
  "case fst (pool_pick now hash pl) of
     Some p \<Rightarrow> (\<exists>e \<in> set (pl_entries pl). pe_proxy e = p \<and> is_available now e)
   | None \<Rightarrow> (\<forall>e \<in> set (pl_entries pl). \<not> is_available now e)"
  by (rule pick_finds_available_plain)

text \<open>Picks one after the other.\<close>

fun pool_picks :: "nat \<Rightarrow> u64 list \<Rightarrow> pool \<Rightarrow> proxy option list" where
  "pool_picks now [] pl = []"
| "pool_picks now (h # hs) pl = (case pool_pick now h pl of (r, pl') \<Rightarrow> r # pool_picks now hs pl')"

lemma pick_round_robin:
  assumes "pl_strategy pl = RoundRobin" and "pl_entries pl \<noteq> []"
    and "\<forall>e \<in> set (pl_entries pl). is_available now e" and "length (pl_entries pl) < 2 ^ 64"
  shows "pool_pick now h pl =
    (Some (pe_proxy (pl_entries pl ! (unat (pl_cursor pl) mod length (pl_entries pl)))),
     pl\<lparr>pl_cursor := pl_cursor pl + 1\<rparr>)"
proof -
  let ?n = "length (pl_entries pl)"
  have "unat (of_nat ?n :: u64) = ?n" using assms(4) by (simp add: unat_of_nat)
  then have s: "unat (pl_cursor pl mod of_nat ?n) = unat (pl_cursor pl) mod ?n"
    by (simp add: unat_mod)
  have "pl_entries pl ! (unat (pl_cursor pl) mod ?n) \<in> set (pl_entries pl)"
    using assms(2) by simp
  then have "find_from now (pl_entries pl) (unat (pl_cursor pl) mod ?n) [0..<?n] =
      Some (pe_proxy (pl_entries pl ! (unat (pl_cursor pl) mod ?n)))"
    using assms(2,3) by (simp add: upt_rec [of 0] Let_def)
  then show ?thesis using assms(1,2) s by (simp add: pool_pick_def Let_def)
qed

lemma picks_round_robin:
  assumes "pl_strategy pl = RoundRobin" and "pl_entries pl \<noteq> []"
    and "\<forall>e \<in> set (pl_entries pl). is_available now e" and "length (pl_entries pl) < 2 ^ 64"
    and "unat (pl_cursor pl) + length hs < 2 ^ 64"
  shows "pool_picks now hs pl =
    map (\<lambda>i. Some (pe_proxy (pl_entries pl ! ((unat (pl_cursor pl) + i) mod length (pl_entries pl))))) [0..<length hs]"
  using assms
proof (induction hs arbitrary: pl)
  case Nil
  then show ?case by simp
next
  case (Cons h hs)
  let ?pl = "pl\<lparr>pl_cursor := pl_cursor pl + 1\<rparr>"
  have c: "unat (pl_cursor pl + 1) = unat (pl_cursor pl) + 1"
    using Cons.prems(5) by (simp add: unat_word_ariths)
  from Cons.IH [of ?pl] Cons.prems c have
    "pool_picks now hs ?pl = map (\<lambda>i. Some (pe_proxy (pl_entries pl !
        ((unat (pl_cursor pl) + Suc i) mod length (pl_entries pl))))) [0..<length hs]"
    by simp
  with pick_round_robin [OF Cons.prems(1-4), of h] show ?case
    by (simp add: upt_conv_Cons map_Suc_upt [symmetric] del: upt_Suc)
qed

text \<open>With every proxy available, one round of picks under round-robin serves every pooled proxy
  exactly once, from wherever the cursor stands (until the 64-bit cursor wraps).\<close>

theorem round_robin_is_fair:
  assumes "pl_strategy pl = RoundRobin" and "\<forall>e \<in> set (pl_entries pl). is_available now e"
    and "length hs = length (pl_entries pl)" and "unat (pl_cursor pl) + length hs < 2 ^ 64"
  shows "mset (pool_picks now hs pl) = mset (map (\<lambda>e. Some (pe_proxy e)) (pl_entries pl))"
proof (cases "pl_entries pl = []")
  case True
  with assms(3) show ?thesis by simp
next
  case False
  let ?es = "pl_entries pl" and ?c = "unat (pl_cursor pl)"
  have "pool_picks now hs pl = map (\<lambda>i. Some (pe_proxy (?es ! ((?c + i) mod length ?es)))) [0..<length ?es]"
    using picks_round_robin [OF assms(1) False assms(2)] assms(3,4) by simp
  also have "\<dots> = map (\<lambda>e. Some (pe_proxy e)) (rotate ?c ?es)"
    by (rule nth_equalityI) (simp_all add: nth_rotate add.commute)
  finally have "pool_picks now hs pl = map (\<lambda>e. Some (pe_proxy e)) (rotate ?c ?es)" .
  moreover have "mset (rotate ?c ?es) = mset ?es"
    by (simp add: rotate_drop_take flip: mset_append) (metis append_take_drop_id mset_append add.commute)
  ultimately show ?thesis by (metis mset_map)
qed

definition demo_pool :: pool where
  "demo_pool = (pool_new RoundRobin)\<lparr>pl_entries :=
     [\<lparr>pe_proxy = proxy_new (Ipv4 1 2 3 4) 80, pe_failures = 0, pe_cooldown_until = None\<rparr>,
      \<lparr>pe_proxy = proxy_new (Ipv4 5 6 7 8) 80, pe_failures = 0, pe_cooldown_until = None\<rparr>], pl_cursor := 1\<rparr>"

theorem pick_finds_available_witness:
  "case fst (pool_pick 5 0 demo_pool) of
     Some p \<Rightarrow> (\<exists>e \<in> set (pl_entries demo_pool). pe_proxy e = p \<and> is_available 5 e)
   | None \<Rightarrow> (\<forall>e \<in> set (pl_entries demo_pool). \<not> is_available 5 e)"
  by (rule pick_finds_available)

theorem round_robin_is_fair_witness:
  "mset (pool_picks 0 [0, 0] demo_pool) = mset (map (\<lambda>e. Some (pe_proxy e)) (pl_entries demo_pool))"
  by (rule round_robin_is_fair) (simp_all add: demo_pool_def pool_new_def is_available_def)

section \<open>Failures in a row\<close>

lemma position_entry:
  assumes "pool_ok pl" and "e \<in> set (pl_entries pl)" and "entry_text e = px_text p"
  obtains i where "position (\<lambda>e. entry_text e = px_text p) (pl_entries pl) = Some i"
    and "i < length (pl_entries pl)" and "pl_entries pl ! i = e"
proof -
  from assms(2,3) obtain i where i: "position (\<lambda>e. entry_text e = px_text p) (pl_entries pl) = Some i"
    using position_eq_None [of "\<lambda>e. entry_text e = px_text p" "pl_entries pl"] by fastforce
  then have l: "i < length (pl_entries pl)" "entry_text (pl_entries pl ! i) = px_text p"
    by (simp_all add: position_eq_Some)
  from assms(2) obtain j where j: "j < length (pl_entries pl)" "pl_entries pl ! j = e"
    by (auto simp: in_set_conv_nth)
  have "distinct (map entry_text (pl_entries pl))" using assms(1) by (simp add: pool_ok_def pool_texts_def)
  then have "i = j" using l j assms(3) by (metis distinct_conv_nth length_map nth_map)
  with i l j that show ?thesis by blast
qed

text \<open>A failure puts a pooled proxy into a cooldown of exactly sixty seconds and counts it, unless it
  is the third in a row, which drops that proxy and no other; a success forgets earlier failures.\<close>

theorem reports_cool_down_or_evict:
  assumes "pool_ok pl" and "e \<in> set (pl_entries pl)" and "entry_text e = px_text p"
  shows "set (pl_entries (report_failure now p pl)) =
      (if pe_failures e = 2 then set (pl_entries pl) - {e}
       else insert (e\<lparr>pe_failures := pe_failures e + 1, pe_cooldown_until := Some (now + 60)\<rparr>)
              (set (pl_entries pl) - {e})) \<and>
    set (pl_entries (report_success p pl)) =
      insert (e\<lparr>pe_failures := 0, pe_cooldown_until := None\<rparr>) (set (pl_entries pl) - {e})"
proof -
  from position_entry [OF assms] obtain i where
    pos: "position (\<lambda>e. entry_text e = px_text p) (pl_entries pl) = Some i"
    and i: "i < length (pl_entries pl)" "pl_entries pl ! i = e" by blast
  have d: "distinct (pl_entries pl)"
    using assms(1) by (simp add: pool_ok_def pool_texts_def distinct_map)
  have lt: "pe_failures e < 3"
    using assms(1,2) by (simp add: pool_ok_def MAX_CONSECUTIVE_FAILURES_def)
  have upd: "set ((pl_entries pl)[i := x]) = insert x (set (pl_entries pl) - {e})" for x
    using set_update_distinct [OF d i(1)] i(2) by simp
  have three: "3 \<le> pe_failures e + 1 \<longleftrightarrow> pe_failures e = 2"
    using lt by (auto simp: word_less_nat_alt word_le_nat_alt unat_word_ariths word_unat_eq_iff)
  have "set (pl_entries (report_failure now p pl)) =
      (if pe_failures e = 2 then set (pl_entries pl) - {e}
       else insert (e\<lparr>pe_failures := pe_failures e + 1, pe_cooldown_until := Some (now + 60)\<rparr>)
              (set (pl_entries pl) - {e}))"
  proof (cases "pe_failures e = 2")
    case False
    then show ?thesis
      using pos i three upd by (simp add: report_failure_def Let_def MAX_CONSECUTIVE_FAILURES_def COOLDOWN_def)
  next
    case True
    let ?x = "e\<lparr>pe_failures := pe_failures e + 1\<rparr>"
    let ?es = "(pl_entries pl)[i := ?x]"
    have x: "?x \<notin> set (pl_entries pl) - {e}"
      using assms(1) True by (auto simp: pool_ok_def MAX_CONSECUTIVE_FAILURES_def)
    have "distinct ?es" using d x i by (intro distinct_list_update) auto
    then have "set (swap_remove ?es i) = insert ?x (set (pl_entries pl) - {e}) - {?x}"
      using i upd by (simp add: set_swap_remove)
    with x show ?thesis
      using pos i three True by (simp add: report_failure_def Let_def MAX_CONSECUTIVE_FAILURES_def)
  qed
  moreover have "set (pl_entries (report_success p pl)) =
      insert (e\<lparr>pe_failures := 0, pe_cooldown_until := None\<rparr>) (set (pl_entries pl) - {e})"
    using pos i upd by (simp add: report_success_def)
  ultimately show ?thesis by blast
qed

theorem reports_cool_down_or_evict_witness:
  "set (pl_entries (report_failure 5 (proxy_new (Ipv4 1 2 3 4) 80) demo_pool)) =
     insert ((hd (pl_entries demo_pool))\<lparr>pe_failures := 1, pe_cooldown_until := Some 65\<rparr>)
       (set (pl_entries demo_pool) - {hd (pl_entries demo_pool)})"
proof -
  have "pool_ok demo_pool"
    by (simp add: pool_ok_def demo_pool_def pool_new_def pool_texts_def entry_text_def proxy_new_def
        show_endpoint_inject MAX_POOL_SIZE_def MAX_CONSECUTIVE_FAILURES_def)
  moreover have "hd (pl_entries demo_pool) \<in> set (pl_entries demo_pool)" by (simp add: demo_pool_def)
  moreover have "entry_text (hd (pl_entries demo_pool)) = px_text (proxy_new (Ipv4 1 2 3 4) 80)"
    by (simp add: demo_pool_def entry_text_def)
  ultimately show ?thesis
    using reports_cool_down_or_evict [of demo_pool "hd (pl_entries demo_pool)" "proxy_new (Ipv4 1 2 3 4) 80" 5]
    by (simp add: demo_pool_def)
qed

end
