(* ===== verification/Net_Wire.thy ===== *)
theory Net_Wire
  imports Rust_Str
begin

text \<open>
  A connection as the negotiators see it: the bytes the peer will have sent, the bytes
  written so far, and whether writing still works. Computations on it may fail or
  panic. A computation is \<open>framed\<close> when, on success, what it consumed is determined by
  the consumed bytes alone, so that nothing that follows them is touched; this is the
  law of the interface \<open>handshake\<close>, on which relaying after a handshake rests.
\<close>

section \<open>Connections\<close>

record wire =
  w_in :: "u8 list"
  w_out :: "u8 list"
  w_open :: bool

type_synonym 'a io = "wire \<Rightarrow> ('a, string) outcome \<times> wire"

definition io_ret :: "'a \<Rightarrow> 'a io" where
  "io_ret x w = (Ok x, w)"

definition io_lift :: "('a, string) outcome \<Rightarrow> 'a io" where
  "io_lift r w = (r, w)"

definition io_fail :: "string \<Rightarrow> 'a io" where
  "io_fail e w = (Err e, w)"

definition io_bind :: "'a io \<Rightarrow> ('a \<Rightarrow> 'b io) \<Rightarrow> 'b io" where
  "io_bind m f w = (case m w of (Ok x, w1) \<Rightarrow> f x w1 | (Err e, w1) \<Rightarrow> (Err e, w1) | (Panic, w1) \<Rightarrow> (Panic, w1))"

definition write_all :: "u8 list \<Rightarrow> unit io" where
  "write_all bs w = (if w_open w then (Ok (), w\<lparr>w_out := w_out w @ bs\<rparr>) else (Err ''write failed'', w))"

definition read_exact :: "nat \<Rightarrow> u8 list io" where
  "read_exact n w =
     (if n \<le> length (w_in w) then (Ok (take n (w_in w)), w\<lparr>w_in := drop n (w_in w)\<rparr>)
      else (Err ''unexpected end of file'', w\<lparr>w_in := []\<rparr>))"

text \<open>Bytes of a text, and the end of an HTTP head.\<close>

definition bytes_of :: "string \<Rightarrow> u8 list" where
  "bytes_of s = map of_char s"

definition CRLF2 :: "u8 list" where
  "CRLF2 = [13, 10, 13, 10]"

definition crlf :: string where
  "crlf = [char_of (13 :: nat), char_of (10 :: nat)]"

lemma length_bytes_of [simp]: "length (bytes_of s) = length s"
  by (simp add: bytes_of_def)

lemma bytes_of_append [simp]: "bytes_of (s @ t) = bytes_of s @ bytes_of t"
  by (simp add: bytes_of_def)

text \<open>Reading byte by byte up to the end of a head, at most \<open>limit\<close> bytes.\<close>

function read_head :: "nat \<Rightarrow> u8 list \<Rightarrow> u8 list io" where
  "read_head limit buf w =
     (case w_in w of
        [] \<Rightarrow> (Err ''closed before the end of the head'', w)
      | b # rest \<Rightarrow>
          let w1 = w\<lparr>w_in := rest\<rparr> in
          if length buf \<ge> limit then (Err ''head exceeds the limit'', w1)
          else if suffix CRLF2 (buf @ [b]) then (Ok (buf @ [b]), w1)
          else read_head limit (buf @ [b]) w1)"
  by pat_completeness auto
termination
  by (relation "measure (\<lambda>(_, _, w). length (w_in w))") auto

declare read_head.simps [simp del]

section \<open>Framing\<close>

definition framed :: "'a io \<Rightarrow> bool" where
  "framed m \<longleftrightarrow>
     (\<forall>w x w'. m w = (Ok x, w') \<longrightarrow>
        (\<exists>c. w_in w = c @ w_in w' \<and> w_open w' = w_open w \<and>
           (\<forall>r. m (w\<lparr>w_in := c @ r\<rparr>) = (Ok x, w'\<lparr>w_in := r\<rparr>))))"

lemma framedI:
  "(\<And>w x w'. m w = (Ok x, w') \<Longrightarrow>
      \<exists>c. w_in w = c @ w_in w' \<and> w_open w' = w_open w \<and>
        (\<forall>r. m (w\<lparr>w_in := c @ r\<rparr>) = (Ok x, w'\<lparr>w_in := r\<rparr>))) \<Longrightarrow> framed m"
  by (simp add: framed_def)

lemma framedE:
  assumes "framed m" and "m w = (Ok x, w')"
  obtains c where "w_in w = c @ w_in w'" and "w_open w' = w_open w"
    and "\<And>r. m (w\<lparr>w_in := c @ r\<rparr>) = (Ok x, w'\<lparr>w_in := r\<rparr>)"
  using assms unfolding framed_def by blast

named_theorems framing

lemma framed_ret [framing]: "framed (io_ret x)"
  by (auto simp: framed_def io_ret_def)

lemma framed_fail [framing]: "framed (io_fail e)"
  by (simp add: framed_def io_fail_def)

lemma framed_lift [framing]: "framed (io_lift r)"
  by (auto simp: framed_def io_lift_def)

lemma framed_write [framing]: "framed (write_all bs)"
  by (auto simp: framed_def write_all_def split: if_splits)

lemma framed_read [framing]: "framed (read_exact n)"
proof (rule framedI)
  fix w x w'
  assume "read_exact n w = (Ok x, w')"
  then have n: "n \<le> length (w_in w)" "x = take n (w_in w)" "w' = w\<lparr>w_in := drop n (w_in w)\<rparr>"
    by (auto simp: read_exact_def split: if_splits)
  then show "\<exists>c. w_in w = c @ w_in w' \<and> w_open w' = w_open w \<and>
      (\<forall>r. read_exact n (w\<lparr>w_in := c @ r\<rparr>) = (Ok x, w'\<lparr>w_in := r\<rparr>))"
    by (intro exI [of _ "take n (w_in w)"]) (simp add: read_exact_def)
qed

lemma framed_bind [framing]:
  assumes "framed m" and "\<And>x. framed (f x)"
  shows "framed (io_bind m f)"
proof (rule framedI)
  fix w y w'
  assume "io_bind m f w = (Ok y, w')"
  then obtain x w1 where m: "m w = (Ok x, w1)" and f: "f x w1 = (Ok y, w')"
    by (auto simp: io_bind_def split: outcome.splits prod.splits)
  from framedE [OF assms(1) m] obtain c where
    c: "w_in w = c @ w_in w1" "w_open w1 = w_open w" "\<And>r. m (w\<lparr>w_in := c @ r\<rparr>) = (Ok x, w1\<lparr>w_in := r\<rparr>)" by blast
  from framedE [OF assms(2) f] obtain d where
    d: "w_in w1 = d @ w_in w'" "w_open w' = w_open w1" "\<And>r. f x (w1\<lparr>w_in := d @ r\<rparr>) = (Ok y, w'\<lparr>w_in := r\<rparr>)"
    by blast
  have "io_bind m f (w\<lparr>w_in := (c @ d) @ r\<rparr>) = (Ok y, w'\<lparr>w_in := r\<rparr>)" for r
    using c(3) [of "d @ r"] d(3) by (simp add: io_bind_def)
  with c d show "\<exists>c. w_in w = c @ w_in w' \<and> w_open w' = w_open w \<and>
      (\<forall>r. io_bind m f (w\<lparr>w_in := c @ r\<rparr>) = (Ok y, w'\<lparr>w_in := r\<rparr>))"
    by (intro exI [of _ "c @ d"]) simp
qed

lemma framed_if [framing]: "framed m \<Longrightarrow> framed n \<Longrightarrow> framed (if b then m else n)"
  by simp

lemma framed_read_head [framing]: "framed (read_head limit buf)"
proof (rule framedI)
  fix w x w'
  assume "read_head limit buf w = (Ok x, w')"
  then show "\<exists>c. w_in w = c @ w_in w' \<and> w_open w' = w_open w \<and>
      (\<forall>r. read_head limit buf (w\<lparr>w_in := c @ r\<rparr>) = (Ok x, w'\<lparr>w_in := r\<rparr>))"
  proof (induction limit buf w rule: read_head.induct)
    case (1 limit buf w)
    from "1.prems" obtain b rest where w: "w_in w = b # rest" and n: "length buf < limit"
      by (auto simp: read_head.simps [of limit buf w] Let_def split: list.splits if_splits)
    show ?case
    proof (cases "suffix CRLF2 (buf @ [b])")
      case True
      with "1.prems" w n have "x = buf @ [b]" "w' = w\<lparr>w_in := rest\<rparr>"
        by (auto simp: read_head.simps [of limit buf w] Let_def)
      with w n True show ?thesis
        by (intro exI [of _ "[b]"]) (simp add: read_head.simps [of limit buf "_ :: wire"] del: suffix_snoc)
    next
      case False
      with "1.prems" w n have "read_head limit (buf @ [b]) (w\<lparr>w_in := rest\<rparr>) = (Ok x, w')"
        by (simp add: read_head.simps [of limit buf w] Let_def del: suffix_snoc)
      with "1.IH" [OF w refl _ False] n obtain c where
        c: "rest = c @ w_in w'" "w_open w' = w_open w"
          "\<forall>r. read_head limit (buf @ [b]) (w\<lparr>w_in := c @ r\<rparr>) = (Ok x, w'\<lparr>w_in := r\<rparr>)"
        by auto
      with w n False show ?thesis
        by (intro exI [of _ "b # c"]) (simp add: read_head.simps [of limit buf "_ :: wire"] del: suffix_snoc)
    qed
  qed
qed

lemma read_head_safe: "fst (read_head limit buf w) \<noteq> Panic"
  by (induction limit buf w rule: read_head.induct) (subst read_head.simps, auto simp: Let_def split: list.splits)

lemma read_head_bounded: "read_head limit buf w = (Ok x, w') \<Longrightarrow> length x \<le> limit"
proof (induction limit buf w rule: read_head.induct)
  case (1 limit buf w)
  show ?case
  proof (cases "w_in w")
    case Nil
    with "1.prems" show ?thesis by (simp add: read_head.simps [of limit buf w])
  next
    case (Cons b rest)
    with "1.prems" "1.IH" [OF Cons refl] show ?thesis
      by (auto simp: read_head.simps [of limit buf w] Let_def split: if_splits)
  qed
qed

text \<open>No computation built from these panics unless a lifted part does.\<close>

definition safe_io :: "'a io \<Rightarrow> bool" where
  "safe_io m \<longleftrightarrow> (\<forall>w. fst (m w) \<noteq> Panic)"

named_theorems io_safety

lemma safe_basic [io_safety]:
  "safe_io (io_ret x)" "safe_io (io_fail e)" "safe_io (write_all bs)" "safe_io (read_exact n)"
  "safe_io (read_head limit buf)"
  by (auto simp: safe_io_def io_ret_def io_fail_def write_all_def read_exact_def read_head_safe)

lemma safe_lift [io_safety]: "r \<noteq> Panic \<Longrightarrow> safe_io (io_lift r)"
  by (simp add: safe_io_def io_lift_def)

lemma safe_if [io_safety]: "safe_io m \<Longrightarrow> safe_io n \<Longrightarrow> safe_io (if b then m else n)"
  by simp

lemma safe_bind:
  assumes "safe_io m" and "\<And>x w w'. m w = (Ok x, w') \<Longrightarrow> fst (f x w') \<noteq> Panic"
  shows "safe_io (io_bind m f)"
proof (unfold safe_io_def, intro allI)
  fix w
  obtain r w1 where m: "m w = (r, w1)" by (cases "m w")
  then have "r \<noteq> Panic" using assms(1) by (auto simp: safe_io_def dest: spec [of _ w])
  with m assms(2) show "fst (io_bind m f w) \<noteq> Panic" by (cases r) (auto simp: io_bind_def)
qed

lemma safe_bind_all [io_safety]: "safe_io m \<Longrightarrow> (\<And>x. safe_io (f x)) \<Longrightarrow> safe_io (io_bind m f)"
  by (rule safe_bind) (auto simp: safe_io_def)

lemma safe_bind_read [io_safety]:
  assumes "\<And>bs. length bs = n \<Longrightarrow> safe_io (f bs)"
  shows "safe_io (io_bind (read_exact n) f)"
proof (rule safe_bind)
  show "safe_io (read_exact n)" by (rule safe_basic)
  fix x w w'
  assume "read_exact n w = (Ok x, w')"
  then have "length x = n" by (auto simp: read_exact_def split: if_splits)
  with assms show "fst (f x w') \<noteq> Panic" by (simp add: safe_io_def)
qed

section \<open>Handshakes\<close>

text \<open>
  What the code that opens an upstream relies on: a handshake never panics, and after a
  successful one the next bytes read are the first ones the peer sent after its answer.
\<close>

locale handshake =
  fixes run :: "unit io"
  assumes run_framed: "framed run"
    and run_safe: "safe_io run"
begin

lemma run_cases:
  obtains (success) w' where "run w = (Ok (), w')" | (failure) e w' where "run w = (Err e, w')"
proof (cases "run w")
  case (Pair r w')
  with run_safe that show ?thesis
    by (cases r) (auto simp: safe_io_def dest: spec [of _ w])
qed

lemma leftover:
  assumes "run w = (Ok (), w')"
  obtains reply where "w_in w = reply @ w_in w'"
    and "\<And>r. run (w\<lparr>w_in := reply @ r\<rparr>) = (Ok (), w'\<lparr>w_in := r\<rparr>)"
  using framedE [OF run_framed assms] by blast

lemma relay_after:
  assumes "run (w\<lparr>w_in := reply\<rparr>) = (Ok (), w')" and "w_in w' = []"
  shows "io_bind run (\<lambda>_. read_exact (length payload)) (w\<lparr>w_in := reply @ payload\<rparr>) =
    (Ok payload, w'\<lparr>w_in := []\<rparr>)"
proof -
  from leftover [OF assms(1)] obtain c where
    c: "reply = c @ w_in w'" "\<And>r. run (w\<lparr>w_in := c @ r\<rparr>) = (Ok (), w'\<lparr>w_in := r\<rparr>)" by auto
  with assms(2) show ?thesis by (simp add: io_bind_def read_exact_def)
qed

end

end
