(* ===== verification/Rust_Ipv6.thy ===== *)
theory Rust_Ipv6
  imports Rust_Parse
begin

text \<open>
  \<open>IpAddr::from_str\<close> of the standard library, which the SOCKS negotiators use to tell
  addresses from host names: groups of up to four hexadecimal digits, one \<open>::\<close>, an
  optional dotted quad at the end. Readers return the value and the text left.
\<close>

unbundle bit_operations_syntax

definition hex_val :: "char \<Rightarrow> nat option" where
  "hex_val c =
     (if is_digit c then Some (digit_val c)
      else if 97 \<le> byte c \<and> byte c \<le> 102 then Some (byte c - 87)
      else if 65 \<le> byte c \<and> byte c \<le> 70 then Some (byte c - 55)
      else None)"

definition read_group :: "string \<Rightarrow> (u16 \<times> string) option" where
  "read_group s =
     (let ds = takeWhile (\<lambda>c. hex_val c \<noteq> None) s
      in if ds = [] \<or> length ds > 4 then None
         else Some (of_nat (foldl (\<lambda>n c. 16 * n + the (hex_val c)) 0 ds), drop (length ds) s))"

definition read_octet :: "string \<Rightarrow> (u8 \<times> string) option" where
  "read_octet s =
     (let ds = takeWhile is_digit s
      in if ds = [] \<or> length ds > 3 \<or> (hd ds = CHR ''0'' \<and> length ds > 1) \<or> dec_val ds > 255 then None
         else Some (of_nat (dec_val ds), drop (length ds) s))"

text \<open>\<open>read_separator\<close>: every reading but the first expects the separator first.\<close>

definition read_separated :: "char \<Rightarrow> nat \<Rightarrow> (string \<Rightarrow> ('a \<times> string) option) \<Rightarrow> string \<Rightarrow> ('a \<times> string) option" where
  "read_separated sep i rd s =
     (if i = 0 then rd s else case s of c # r \<Rightarrow> if c = sep then rd r else None | [] \<Rightarrow> None)"

definition read_quad :: "string \<Rightarrow> (ipv4 \<times> string) option" where
  "read_quad s =
     Option.bind (read_octet s) (\<lambda>(a, s1).
     Option.bind (read_separated (CHR ''.'') 1 read_octet s1) (\<lambda>(b, s2).
     Option.bind (read_separated (CHR ''.'') 2 read_octet s2) (\<lambda>(c, s3).
     Option.bind (read_separated (CHR ''.'') 3 read_octet s3) (\<lambda>(d, s4).
       Some (Ipv4 a b c d, s4)))))"

definition be16 :: "u8 \<Rightarrow> u8 \<Rightarrow> u16" where
  "be16 a b = push_bit 8 (ucast a) OR ucast b"

definition to_be16 :: "u16 \<Rightarrow> u8 list" where
  "to_be16 w = [ucast (drop_bit 8 w), ucast w]"

text \<open>\<open>read_groups\<close> with \<open>left\<close> slots still free after \<open>i\<close> groups.\<close>

fun read_groups :: "nat \<Rightarrow> nat \<Rightarrow> string \<Rightarrow> u16 list \<times> bool \<times> string" where
  "read_groups i 0 s = ([], False, s)"
| "read_groups i (Suc left) s =
     (case (if left > 0 then read_separated (CHR '':'') i read_quad s else None) of
        Some (Ipv4 a b c d, r) \<Rightarrow> ([be16 a b, be16 c d], True, r)
      | None \<Rightarrow>
          (case read_separated (CHR '':'') i read_group s of
             None \<Rightarrow> ([], False, s)
           | Some (g, r) \<Rightarrow> (case read_groups (Suc i) left r of (gs, v4, r') \<Rightarrow> (g # gs, v4, r'))))"

definition read_ipv6 :: "string \<Rightarrow> (u16 list \<times> string) option" where
  "read_ipv6 s =
     (case read_groups 0 8 s of
        (gs, v4, r) \<Rightarrow>
          if length gs = 8 then Some (gs, r)
          else if v4 then None
          else case strip_prefix ''::'' r of
            None \<Rightarrow> None
          | Some r1 \<Rightarrow>
              (case read_groups 0 (8 - (length gs + 1)) r1 of
                 (tail, _, r2) \<Rightarrow> Some (gs @ replicate (8 - length gs - length tail) 0 @ tail, r2)))"

definition parse_ipv6 :: "string \<Rightarrow> u16 list option" where
  "parse_ipv6 s = (case read_ipv6 s of Some (gs, r) \<Rightarrow> if r = [] then Some gs else None | None \<Rightarrow> None)"

datatype ip_addr = V4 ipv4 | V6 "u16 list"

definition parse_ip :: "string \<Rightarrow> ip_addr option" where
  "parse_ip s =
     (case parse_ipv4 s of Some ip \<Rightarrow> Some (V4 ip) | None \<Rightarrow> map_option V6 (parse_ipv6 s))"

definition ipv6_octets :: "u16 list \<Rightarrow> u8 list" where
  "ipv6_octets gs = concat (map to_be16 gs)"

lemma read_groups_length: "read_groups i n s = (gs, v4, r) \<Longrightarrow> length gs \<le> n"
proof (induction n arbitrary: i s gs v4 r)
  case 0
  then show ?case by simp
next
  case (Suc n)
  show ?case
    using Suc.prems
    by (auto split: option.splits if_splits prod.splits ipv4.splits dest!: Suc.IH)
qed

lemma read_ipv6_length:
  assumes "read_ipv6 s = Some (gs, r)"
  shows "length gs = 8"
proof -
  obtain hs v4 r0 where h: "read_groups 0 8 s = (hs, v4, r0)" by (metis prod_cases3)
  show ?thesis
  proof (cases "length hs = 8")
    case True
    with assms h show ?thesis by (simp add: read_ipv6_def)
  next
    case False
    with read_groups_length [OF h] have l: "length hs < 8" by simp
    from assms h False obtain r1 where r1: "strip_prefix ''::'' r0 = Some r1" "\<not> v4"
      by (cases "strip_prefix ''::'' r0") (auto simp: read_ipv6_def split: if_splits)
    obtain ts b r2 where t: "read_groups 0 (8 - (length hs + 1)) r1 = (ts, b, r2)" by (metis prod_cases3)
    from assms h False r1 t have "gs = hs @ replicate (8 - length hs - length ts) 0 @ ts"
      by (simp add: read_ipv6_def)
    with read_groups_length [OF t] l show ?thesis by simp
  qed
qed

lemma parse_ipv6_length: "parse_ipv6 s = Some gs \<Longrightarrow> length gs = 8"
  by (auto simp: parse_ipv6_def read_ipv6_length split: option.splits if_splits)

lemma length_ipv6_octets: "length (ipv6_octets gs) = 2 * length gs"
  by (induction gs) (simp_all add: ipv6_octets_def to_be16_def)

lemma parse_ip_octets: "parse_ip s = Some (V6 gs) \<Longrightarrow> length (ipv6_octets gs) = 16"
  by (auto simp: parse_ip_def length_ipv6_octets dest: parse_ipv6_length split: option.splits)

end
