(* ===== verification/Negotiators.thy ===== *)
theory Negotiators
  imports Net_Wire Rust_Ipv6 Proxy_Model
begin

text \<open>
  The proxy handshakes, written twice in the program: \<open>src/negotiators/\<close> for the
  rotating endpoint, \<open>src/validator/tunnel/negotiate.rs\<close> for validation. Packet
  builders that write into a fixed buffer are modelled with their bounds checks. The
  parsed URI, the HTTP head parser (httparse) and base64 are parameters.
\<close>

record uri_view =
  ur_host :: "string option"
  ur_port :: "u16 option"
  ur_scheme :: "string option"

definition socks_port :: "uri_view \<Rightarrow> u16 option" where
  "socks_port uri =
     (case ur_port uri of
        Some p \<Rightarrow> Some p
      | None \<Rightarrow>
          if ur_scheme uri = Some ''http'' then Some 80
          else if ur_scheme uri = Some ''https'' then Some 443 else None)"

section \<open>Fixed buffers\<close>

text \<open>\<open>buf[at..at + n].copy_from_slice(bytes)\<close>.\<close>

definition put_at :: "nat \<Rightarrow> u8 list \<Rightarrow> u8 list \<Rightarrow> (u8 list, string) outcome" where
  "put_at i bs buf =
     (if i + length bs \<le> length buf then Ok (take i buf @ bs @ drop (i + length bs) buf) else Panic)"

text \<open>Writing pieces one after the other, then the part of the buffer that was written.\<close>

fun put_all :: "nat \<Rightarrow> u8 list list \<Rightarrow> u8 list \<Rightarrow> (u8 list, string) outcome" where
  "put_all len [] buf = Ok (take len buf)"
| "put_all len (bs # pieces) buf = and_then (put_at len bs buf) (\<lambda>buf'. put_all (len + length bs) pieces buf')"

lemma put_all_fits:
  "len + length (concat pieces) \<le> length buf \<Longrightarrow> put_all len pieces buf = Ok (take len buf @ concat pieces)"
proof (induction pieces arbitrary: len buf)
  case Nil
  then show ?case by simp
next
  case (Cons bs pieces)
  let ?buf = "take len buf @ bs @ drop (len + length bs) buf"
  have "put_all (len + length bs) pieces ?buf = Ok (take (len + length bs) ?buf @ concat pieces)"
    using Cons.prems by (intro Cons.IH) simp
  with Cons.prems show ?case by (simp add: put_at_def)
qed

declare put_all.simps(2) [simp del]

section \<open>SOCKS4\<close>

definition socks4_pieces :: "string \<Rightarrow> u16 \<Rightarrow> u8 list \<Rightarrow> u8 list list" where
  "socks4_pieces host port user_id =
     [[4, 1], to_be16 port] @
     (case parse_ipv4 host of
        Some ip \<Rightarrow> [octets ip, user_id, [0]]
      | None \<Rightarrow> [[0, 0, 0, 1], user_id, [0], bytes_of host, [0]])"

definition socks4_owned_request :: "string \<Rightarrow> u16 \<Rightarrow> u8 list \<Rightarrow> u8 list" where
  "socks4_owned_request host port user_id =
     [4, 1] @ to_be16 port @
     (case parse_ipv4 host of
        Some ip \<Rightarrow> octets ip @ user_id @ [0]
      | None \<Rightarrow> [0, 0, 0, 1] @ user_id @ [0] @ bytes_of host @ [0])"

definition socks4_build :: "u8 list \<Rightarrow> string \<Rightarrow> u16 \<Rightarrow> u8 list \<Rightarrow> (u8 list, string) outcome" where
  "socks4_build buf host port user_id =
     (if 10 + length user_id + length host > length buf then Ok (socks4_owned_request host port user_id)
      else if parse_ipv4 host \<noteq> None \<and> 9 + length user_id > length buf
      then Ok (socks4_owned_request host port user_id)
      else put_all 0 (socks4_pieces host port user_id) buf)"

lemma length_to_be16 [simp]: "length (to_be16 w) = 2"
  by (simp add: to_be16_def)

lemma length_octets [simp]: "length (octets ip) = 4"
  by (cases ip) simp

lemma socks4_build_exact_plain:
  "socks4_build buf host port user_id = Ok (socks4_owned_request host port user_id)"
proof (cases "10 + length user_id + length host > length buf")
  case True
  then show ?thesis by (simp add: socks4_build_def)
next
  case False
  have "put_all 0 (socks4_pieces host port user_id) buf = Ok (concat (socks4_pieces host port user_id))"
    if "parse_ipv4 host \<noteq> None \<longrightarrow> 9 + length user_id \<le> length buf"
    using that False
    by (subst put_all_fits) (auto simp: socks4_pieces_def split: option.splits)
  moreover have "concat (socks4_pieces host port user_id) = socks4_owned_request host port user_id"
    by (simp add: socks4_pieces_def socks4_owned_request_def split: option.split)
  ultimately show ?thesis
    using False by (auto simp: socks4_build_def)
qed

definition user_id_of :: "proxy_auth option \<Rightarrow> u8 list" where
  "user_id_of auth = (case auth of None \<Rightarrow> [] | Some a \<Rightarrow> bytes_of (username a))"

definition socks4_negotiate :: "uri_view \<Rightarrow> proxy_auth option \<Rightarrow> unit io" where
  "socks4_negotiate uri auth =
     (case ur_host uri of
        None \<Rightarrow> io_fail ''SOCKS4 target URI has no host''
      | Some host \<Rightarrow> (case socks_port uri of
        None \<Rightarrow> io_fail ''SOCKS4 target URI has no port''
      | Some port \<Rightarrow>
          let user_id = user_id_of auth in
          if length user_id > 255 then io_fail ''SOCKS4 USERID exceeds 255 bytes''
          else io_bind (io_lift (socks4_build (replicate 512 0) host port user_id)) (\<lambda>packet.
            io_bind (write_all packet) (\<lambda>_.
            io_bind (read_exact 8) (\<lambda>response.
              if response ! 0 \<noteq> 0 then io_fail ''invalid response version''
              else if response ! 1 = 90 then io_ret ()
              else if response ! 1 = 91 then io_fail ''Request rejected or failed''
              else if response ! 1 = 92 then io_fail ''cannot connect to identd on the client''
              else if response ! 1 = 93 then io_fail ''identd report different user IDs''
              else io_fail ''invalid response code'')))))"

section \<open>SOCKS5\<close>

definition socks5_build :: "u8 list \<Rightarrow> string \<Rightarrow> u16 \<Rightarrow> (u8 list, string) outcome" where
  "socks5_build buf host port =
     (case parse_ip host of
        Some (V4 ip) \<Rightarrow> put_all 0 [[5, 1, 0], [1], octets ip, to_be16 port] buf
      | Some (V6 gs) \<Rightarrow> put_all 0 [[5, 1, 0], [4], ipv6_octets gs, to_be16 port] buf
      | None \<Rightarrow>
          if length host \<le> 255
          then put_all 0 [[5, 1, 0], [3], [of_nat (length host)], bytes_of host, to_be16 port] buf
          else Err ''SOCKS5 target hostname exceeds 255 bytes'')"

definition socks5_request :: "string \<Rightarrow> u16 \<Rightarrow> u8 list" where
  "socks5_request host port =
     [5, 1, 0] @
     (case parse_ip host of
        Some (V4 ip) \<Rightarrow> 1 # octets ip
      | Some (V6 gs) \<Rightarrow> 4 # ipv6_octets gs
      | None \<Rightarrow> [3, of_nat (length host)] @ bytes_of host) @
     to_be16 port"

lemma socks5_build_exact_plain:
  "socks5_build (replicate 512 0) host port =
     (if parse_ip host = None \<and> length host > 255 then Err ''SOCKS5 target hostname exceeds 255 bytes''
      else Ok (socks5_request host port))"
proof (cases "parse_ip host")
  case None
  then show ?thesis by (auto simp: socks5_build_def socks5_request_def put_all_fits)
next
  case (Some a)
  then show ?thesis
    by (cases a) (auto simp: socks5_build_def socks5_request_def put_all_fits dest: parse_ip_octets)
qed

definition credentials_of :: "proxy_auth option \<Rightarrow> ((string \<times> string) option, string) outcome" where
  "credentials_of auth =
     (case auth of
        None \<Rightarrow> Ok None
      | Some a \<Rightarrow> (case socks5_user_pass a of
          None \<Rightarrow> Err ''SOCKS5 username/password must be 1-255 bytes each''
        | Some up \<Rightarrow> Ok (Some up)))"

definition auth_packet :: "string \<times> string \<Rightarrow> u8 list" where
  "auth_packet up =
     (case up of (user, pass) \<Rightarrow>
        [1, of_nat (length user)] @ bytes_of user @ [of_nat (length pass)] @ bytes_of pass)"

definition socks5_negotiate :: "uri_view \<Rightarrow> proxy_auth option \<Rightarrow> unit io" where
  "socks5_negotiate uri auth =
     io_bind (io_lift (credentials_of auth)) (\<lambda>credentials.
     io_bind (write_all (if credentials \<noteq> None then [5, 2, 0, 2] else [5, 1, 0])) (\<lambda>_.
     io_bind (read_exact 2) (\<lambda>method.
     io_bind
       (if method ! 0 \<noteq> 5 then io_fail ''invalid response version''
        else (case credentials of
           None \<Rightarrow>
             if method ! 1 = 0 then io_ret ()
             else if method ! 1 = 0xff then io_fail ''authentication is required''
             else io_fail ''unsupported SOCKS5 method''
         | Some up \<Rightarrow>
             if method ! 1 = 2 then
               io_bind (write_all (auth_packet up)) (\<lambda>_.
               io_bind (read_exact 2) (\<lambda>auth_response.
                 if auth_response \<noteq> [1, 0] then io_fail ''SOCKS5 username/password rejected'' else io_ret ()))
             else if method ! 1 = 0xff then io_fail ''authentication is required''
             else io_fail ''unsupported SOCKS5 method'')) (\<lambda>_.
     (case ur_host uri of
        None \<Rightarrow> io_fail ''SOCKS5 target URI has no host''
      | Some host \<Rightarrow> (case socks_port uri of
        None \<Rightarrow> io_fail ''SOCKS5 target URI has no port''
      | Some port \<Rightarrow>
     io_bind (io_lift (socks5_build (replicate 512 0) host port)) (\<lambda>packet.
     io_bind (write_all packet) (\<lambda>_.
     io_bind (read_exact 4) (\<lambda>header.
       if header ! 0 \<noteq> 5 then io_fail ''invalid response version''
       else if header ! 1 \<noteq> 0 then io_fail ''invalid response data''
       else io_bind
         (if header ! 3 = 1 then io_ret 4
          else if header ! 3 = 4 then io_ret 16
          else if header ! 3 = 3 then io_bind (read_exact 1) (\<lambda>length_byte. io_ret (unat (length_byte ! 0)))
          else io_fail ''invalid response ATYP'') (\<lambda>address_length.
       io_bind (io_lift (if address_length + 2 \<le> 258 then Ok () else Panic)) (\<lambda>_.
       io_bind (read_exact (address_length + 2)) (\<lambda>_. io_ret ()))))))))))))"

section \<open>CONNECT over HTTP\<close>

definition authority_text :: "string \<Rightarrow> u16 \<Rightarrow> string" where
  "authority_text host port =
     (if CHR '':'' \<in> set host then ''['' @ host @ '']:'' @ show_nat (unat port)
      else host @ '':'' @ show_nat (unat port))"

definition connect_request :: "string \<Rightarrow> (string \<Rightarrow> string) \<Rightarrow> string \<Rightarrow> proxy_auth option \<Rightarrow> string" where
  "connect_request connection b64_encode authority auth =
     ''CONNECT '' @ authority @ '' HTTP/1.1'' @ crlf @ ''Host: '' @ authority @ crlf @
     connection @ '': keep-alive'' @ crlf @
     (case auth of None \<Rightarrow> [] | Some a \<Rightarrow> ''Proxy-Authorization: '' @ basic_value b64_encode a @ crlf) @
     crlf"

text \<open>What httparse answers for a response head.\<close>

datatype head_status = Partial | Parsed "nat option" | Unparsable

definition PROXY_RESPONSE_LIMIT :: nat where
  "PROXY_RESPONSE_LIMIT = 16 * 1024"

definition https_negotiate ::
  "(u8 list \<Rightarrow> head_status) \<Rightarrow> (string \<Rightarrow> string) \<Rightarrow> uri_view \<Rightarrow> proxy_auth option \<Rightarrow> unit io" where
  "https_negotiate parse_response b64_encode uri auth =
     (case ur_host uri of
        None \<Rightarrow> io_ret ()
      | Some host \<Rightarrow>
          if ur_scheme uri \<noteq> Some ''https'' then io_fail ''Scheme is empty or not https''
          else io_bind (write_all (bytes_of (connect_request ''Connection'' b64_encode
                  (authority_text host (case ur_port uri of Some p \<Rightarrow> p | None \<Rightarrow> 443)) auth))) (\<lambda>_.
            io_bind (read_head PROXY_RESPONSE_LIMIT []) (\<lambda>buf.
              case parse_response buf of
                Unparsable \<Rightarrow> io_fail ''malformed response''
              | Partial \<Rightarrow> io_fail ''incomplete CONNECT response''
              | Parsed code \<Rightarrow>
                  if (case code of Some c \<Rightarrow> c | None \<Rightarrow> 0) \<noteq> 200 then io_fail ''Expecting 200 OK''
                  else io_ret ())))"

text \<open>Plain HTTP proxies need no handshake.\<close>

definition http_negotiate :: "unit io" where
  "http_negotiate = io_ret ()"

section \<open>The validator's handshakes\<close>

definition tunnel_socks4 :: "string \<Rightarrow> u16 \<Rightarrow> proxy_auth option \<Rightarrow> unit io" where
  "tunnel_socks4 host port auth =
     (let user_id = user_id_of auth in
      if length user_id > 255 then io_fail ''SOCKS4 USERID exceeds 255 bytes''
      else io_bind (write_all ([4, 1] @ to_be16 port @
          (case parse_ipv4 host of
             Some ip \<Rightarrow> octets ip @ user_id @ [0]
           | None \<Rightarrow> octets (Ipv4 0 0 0 1) @ user_id @ [0] @ bytes_of host @ [0]))) (\<lambda>_.
        io_bind (read_exact 8) (\<lambda>response.
          if response ! 0 \<noteq> 0 \<or> response ! 1 \<noteq> 90 then io_fail ''SOCKS4 proxy rejected request'' else io_ret ())))"

definition read_discard :: "nat \<Rightarrow> unit io" where
  "read_discard n =
     (if n > 256 then io_fail ''SOCKS reply address exceeds 256 bytes''
      else io_bind (read_exact n) (\<lambda>_. io_ret ()))"

definition tunnel_socks5 :: "string \<Rightarrow> u16 \<Rightarrow> proxy_auth option \<Rightarrow> unit io" where
  "tunnel_socks5 host port auth =
     io_bind (io_lift (credentials_of auth)) (\<lambda>credentials.
     io_bind (write_all (if credentials \<noteq> None then [5, 2, 0, 2] else [5, 1, 0])) (\<lambda>_.
     io_bind (read_exact 2) (\<lambda>method.
     io_bind
       (case credentials of
          None \<Rightarrow>
            if method = [5, 0] then io_ret ()
            else if method ! 1 = 0xff then io_fail ''SOCKS5 proxy requires authentication''
            else io_fail ''SOCKS5 proxy did not accept auth method''
        | Some up \<Rightarrow>
            if method = [5, 2] then
              io_bind (write_all (auth_packet up)) (\<lambda>_.
              io_bind (read_exact 2) (\<lambda>auth_response.
                if auth_response \<noteq> [1, 0] then io_fail ''SOCKS5 username/password rejected'' else io_ret ()))
            else if method ! 1 = 0xff then io_fail ''SOCKS5 proxy requires authentication''
            else io_fail ''SOCKS5 proxy did not accept auth method'') (\<lambda>_.
     io_bind
       (case parse_ip host of
          Some (V4 ip) \<Rightarrow> io_ret ([5, 1, 0] @ [1] @ octets ip)
        | Some (V6 gs) \<Rightarrow> io_ret ([5, 1, 0] @ [4] @ ipv6_octets gs)
        | None \<Rightarrow>
            if length host \<le> 255 then io_ret ([5, 1, 0] @ [3, of_nat (length host)] @ bytes_of host)
            else io_fail ''SOCKS5 target hostname exceeds 255 bytes'') (\<lambda>request.
     io_bind (write_all (request @ to_be16 port)) (\<lambda>_.
     io_bind (read_exact 4) (\<lambda>header.
       if header ! 0 \<noteq> 5 \<or> header ! 1 \<noteq> 0 then io_fail ''SOCKS5 proxy rejected request''
       else io_bind
         (if header ! 3 = 1 then read_discard 4
          else if header ! 3 = 4 then read_discard 16
          else if header ! 3 = 3 then io_bind (read_exact 1) (\<lambda>length_byte. read_discard (unat (length_byte ! 0)))
          else io_fail ''SOCKS5 proxy returned invalid ATYP'') (\<lambda>_. read_discard 2))))))))"

text \<open>\<open>read_until\<close> a line feed, line by line, up to the blank line.\<close>

function read_http_headers :: "u8 list \<Rightarrow> u8 list io" where
  "read_http_headers response w =
     (if w_in w = [] then (Err ''proxy response headers exceed limit'', w)
      else let body = takeWhile (\<lambda>b. b \<noteq> 10) (w_in w);
               line = take (Suc (length body)) (w_in w);
               w1 = w\<lparr>w_in := drop (length line) (w_in w)\<rparr>
        in if length response + length line > PROXY_RESPONSE_LIMIT
           then (Err ''proxy response headers exceed limit'', w1)
           else if suffix CRLF2 (response @ line) then (Ok (response @ line), w1)
           else read_http_headers (response @ line) w1)"
  by pat_completeness auto
termination
  by (relation "measure (\<lambda>(_, w). length (w_in w))") (auto simp: Let_def)

declare read_http_headers.simps [simp del]

definition tunnel_http_connect ::
  "(u8 list \<Rightarrow> head_status) \<Rightarrow> (string \<Rightarrow> string) \<Rightarrow> string \<Rightarrow> proxy_auth option \<Rightarrow> unit io" where
  "tunnel_http_connect parse_response b64_encode authority auth =
     io_bind (write_all (bytes_of (connect_request ''Proxy-Connection'' b64_encode authority auth))) (\<lambda>_.
     io_bind (read_http_headers []) (\<lambda>response.
       case parse_response response of
         Unparsable \<Rightarrow> io_fail ''malformed response''
       | Partial \<Rightarrow> io_fail ''incomplete HTTP response headers''
       | Parsed None \<Rightarrow> io_fail ''no status code''
       | Parsed (Some c) \<Rightarrow> if c \<noteq> 200 then io_fail ''CONNECT returned status'' else io_ret ()))"

text \<open>The SOCKS4 request built in place and the one built on the heap are the same bytes, for every
  buffer, host, port and user id, and building it never writes outside the buffer.\<close>

theorem socks4_build_exact:
  "socks4_build buf host port user_id = Ok (socks4_owned_request host port user_id)"
  by (rule socks4_build_exact_plain)

text \<open>The SOCKS5 request fits its 512-byte buffer for every target; it is the request RFC 1928
  prescribes for an IPv4, an IPv6 or a named target, and a name over 255 bytes is an error.\<close>

theorem socks5_build_exact:
  "socks5_build (replicate 512 0) host port =
     (if parse_ip host = None \<and> length host > 255 then Err ''SOCKS5 target hostname exceeds 255 bytes''
      else Ok (socks5_request host port))"
  by (rule socks5_build_exact_plain)

section \<open>Framing and safety\<close>

lemma framed_case_option [framing]:
  "framed m \<Longrightarrow> (\<And>x. framed (f x)) \<Longrightarrow> framed (case x of None \<Rightarrow> m | Some y \<Rightarrow> f y)"
  by (cases x) auto

lemma framed_case_ip [framing]:
  "(\<And>x. framed (f x)) \<Longrightarrow> (\<And>x. framed (g x)) \<Longrightarrow> framed (case x of V4 y \<Rightarrow> f y | V6 y \<Rightarrow> g y)"
  by (cases x) auto

lemma framed_case_status [framing]:
  "framed m \<Longrightarrow> (\<And>x. framed (f x)) \<Longrightarrow> framed n \<Longrightarrow>
   framed (case x of Partial \<Rightarrow> m | Parsed y \<Rightarrow> f y | Unparsable \<Rightarrow> n)"
  by (cases x) auto

lemma safe_case_option [io_safety]:
  "safe_io m \<Longrightarrow> (\<And>x. safe_io (f x)) \<Longrightarrow> safe_io (case x of None \<Rightarrow> m | Some y \<Rightarrow> f y)"
  by (cases x) auto

lemma safe_case_ip [io_safety]:
  "(\<And>x. safe_io (f x)) \<Longrightarrow> (\<And>x. safe_io (g x)) \<Longrightarrow> safe_io (case x of V4 y \<Rightarrow> f y | V6 y \<Rightarrow> g y)"
  by (cases x) auto

lemma safe_case_status [io_safety]:
  "safe_io m \<Longrightarrow> (\<And>x. safe_io (f x)) \<Longrightarrow> safe_io n \<Longrightarrow>
   safe_io (case x of Partial \<Rightarrow> m | Parsed y \<Rightarrow> f y | Unparsable \<Rightarrow> n)"
  by (cases x) auto

lemma credentials_safe: "credentials_of auth \<noteq> Panic"
  by (simp add: credentials_of_def split: option.split)

lemma framed_socks4: "framed (socks4_negotiate uri auth)"
  by (simp add: socks4_negotiate_def Let_def framing)

lemma safe_socks4: "safe_io (socks4_negotiate uri auth)"
  by (simp add: socks4_negotiate_def Let_def socks4_build_exact_plain io_safety)

lemma framed_socks5: "framed (socks5_negotiate uri auth)"
  by (simp add: socks5_negotiate_def framing)

lemma address_length_bound: "unat (b :: u8) + 2 \<le> 258"
  using u8_less [of b] by linarith

lemma safe_address_length:
  assumes "\<And>n. n + 2 \<le> 258 \<Longrightarrow> safe_io (f n)"
  shows "safe_io (io_bind
     (if header ! 3 = (1 :: u8) then io_ret 4
      else if header ! 3 = 4 then io_ret 16
      else if header ! 3 = 3 then io_bind (read_exact 1) (\<lambda>length_byte. io_ret (unat (length_byte ! 0)))
      else io_fail e) f)" (is "safe_io (io_bind ?m f)")
proof (rule safe_bind)
  show "safe_io ?m" by (simp add: io_safety)
  fix n w w'
  assume "?m w = (Ok n, w')"
  then have "n + 2 \<le> 258"
    using address_length_bound
    by (auto simp: io_bind_def io_ret_def io_fail_def split: if_splits outcome.splits prod.splits)
  then show "fst (f n w') \<noteq> Panic" using assms by (simp add: safe_io_def)
qed

lemma safe_socks5: "safe_io (socks5_negotiate uri auth)"
  unfolding socks5_negotiate_def socks5_build_exact_plain
  by (intro io_safety safe_address_length credentials_safe) (auto intro!: io_safety)

lemma framed_https: "framed (https_negotiate parse_response b64_encode uri auth)"
  by (simp add: https_negotiate_def framing)

lemma safe_https: "safe_io (https_negotiate parse_response b64_encode uri auth)"
  by (simp add: https_negotiate_def io_safety)

interpretation socks4: handshake "socks4_negotiate uri auth" for uri auth
  by unfold_locales (rule framed_socks4 safe_socks4)+

interpretation socks5: handshake "socks5_negotiate uri auth" for uri auth
  by unfold_locales (rule framed_socks5 safe_socks5)+

interpretation https_connect: handshake "https_negotiate parse_response b64_encode uri auth"
  for parse_response b64_encode uri auth
  by unfold_locales (rule framed_https safe_https)+

interpretation plain_http: handshake http_negotiate
  by unfold_locales (simp_all add: http_negotiate_def framing io_safety)

end
