(* ===== verification/Handshake_Props.thy ===== *)
theory Handshake_Props
  imports Negotiators
begin

text \<open>
  What the handshakes promise: the two implementations of SOCKS4 and SOCKS5 behave the
  same on every connection, a successful handshake leaves everything after the proxy's
  answer to the relay, and which answers are accepted.
\<close>

section \<open>Runs that differ in nothing but their error text\<close>

definition same_result :: "('a, string) outcome \<times> wire \<Rightarrow> ('a, string) outcome \<times> wire \<Rightarrow> bool" where
  "same_result a b \<longleftrightarrow> snd a = snd b \<and> ok_opt (fst a) = ok_opt (fst b) \<and> (fst a = Panic \<longleftrightarrow> fst b = Panic)"

definition same_run :: "'a io \<Rightarrow> 'a io \<Rightarrow> bool" where
  "same_run m n \<longleftrightarrow> (\<forall>w. same_result (m w) (n w))"

named_theorems sameness

lemma same_refl [sameness]: "same_run m m"
  by (simp add: same_run_def same_result_def)

lemma same_fail [sameness]: "same_run (io_fail e) (io_fail e')"
  by (simp add: same_run_def same_result_def io_fail_def)

lemma same_if [sameness]:
  "b = c \<Longrightarrow> (b \<Longrightarrow> same_run m m') \<Longrightarrow> (\<not> b \<Longrightarrow> same_run n n') \<Longrightarrow>
   same_run (if b then m else n) (if c then m' else n')"
  by simp

lemma same_bind:
  assumes "same_run m m'" and "\<And>w x w'. m w = (Ok x, w') \<Longrightarrow> same_result (f x w') (g x w')"
  shows "same_run (io_bind m f) (io_bind m' g)"
  unfolding same_run_def
proof
  fix w
  obtain r w1 where m: "m w = (r, w1)" by (cases "m w")
  obtain r' w1' where m': "m' w = (r', w1')" by (cases "m' w")
  from assms(1) m m' have s: "w1 = w1'" "ok_opt r = ok_opt r'" "r = Panic \<longleftrightarrow> r' = Panic"
    by (auto simp: same_run_def same_result_def dest: spec [of _ w])
  show "same_result (io_bind m f w) (io_bind m' g w)"
  proof (cases r)
    case (Ok x)
    with s have "r' = Ok x" by (cases r') auto
    with Ok m m' s assms(2) [of w x w1] show ?thesis by (simp add: io_bind_def)
  next
    case (Err e)
    with s obtain e' where "r' = Err e'" by (cases r') auto
    with Err m m' s show ?thesis by (simp add: io_bind_def same_result_def)
  next
    case Panic
    with m m' s show ?thesis by (simp add: io_bind_def same_result_def)
  qed
qed

lemma same_bind_all:
  "same_run m m' \<Longrightarrow> (\<And>x. same_run (f x) (g x)) \<Longrightarrow> same_run (io_bind m f) (io_bind m' g)"
  by (rule same_bind) (auto simp: same_run_def)

lemma same_bind_read:
  assumes "\<And>bs. length bs = n \<Longrightarrow> same_run (f bs) (g bs)"
  shows "same_run (io_bind (read_exact n) f) (io_bind (read_exact n) g)"
proof (rule same_bind [OF same_refl])
  fix w x w'
  assume "read_exact n w = (Ok x, w')"
  then have "length x = n" by (auto simp: read_exact_def split: if_splits)
  with assms show "same_result (f x w') (g x w')" by (simp add: same_run_def)
qed

named_theorems io_laws

lemma bind_ret [io_laws]: "io_bind (io_ret x) f = f x"
  by (rule ext) (simp add: io_bind_def io_ret_def)

lemma bind_fail [io_laws]: "io_bind (io_fail e) f = io_fail e"
  by (rule ext) (simp add: io_bind_def io_fail_def)

lemma lift_Ok [io_laws]: "io_lift (Ok x) = io_ret x"
  by (rule ext) (simp add: io_lift_def io_ret_def)

lemma lift_Err [io_laws]: "io_lift (Err e) = io_fail e"
  by (rule ext) (simp add: io_lift_def io_fail_def)

lemma bind_assoc [io_laws]: "io_bind (io_bind m f) g = io_bind m (\<lambda>x. io_bind (f x) g)"
  by (rule ext) (simp add: io_bind_def split: prod.split outcome.split)

lemma bind_if [io_laws]: "io_bind (if b then m else n) f = (if b then io_bind m f else io_bind n f)"
  by simp

lemma read_split:
  "io_bind (read_exact (n + k)) (\<lambda>_. io_ret ()) = io_bind (read_exact n) (\<lambda>_. io_bind (read_exact k) (\<lambda>_. io_ret ()))"
  by (rule ext) (auto simp: io_bind_def read_exact_def io_ret_def add.commute)

section \<open>The two implementations agree\<close>

lemma two_bytes: "length bs = 2 \<Longrightarrow> bs = [a, b] \<longleftrightarrow> bs ! 0 = a \<and> bs ! 1 = b"
  by (cases bs; cases "tl bs") auto

lemma socks4_requests_agree:
  "socks4_owned_request host port uid = [4, 1] @ to_be16 port @
     (case parse_ipv4 host of
        Some ip \<Rightarrow> octets ip @ uid @ [0]
      | None \<Rightarrow> octets (Ipv4 0 0 0 1) @ uid @ [0] @ bytes_of host @ [0])"
  by (simp add: socks4_owned_request_def split: option.split)

text \<open>On every connection the validator's SOCKS4 handshake and the rotating endpoint's write the same
  bytes, consume the same bytes and succeed together, for the same target and credentials.\<close>

theorem socks4_implementations_agree:
  assumes "ur_host uri = Some host" and "socks_port uri = Some port"
  shows "same_run (socks4_negotiate uri auth) (tunnel_socks4 host port auth)"
  unfolding socks4_negotiate_def tunnel_socks4_def Let_def
  by (simp add: assms socks4_build_exact_plain socks4_requests_agree io_laws)
    (auto intro!: same_bind_all same_bind_read simp: same_refl same_fail split: if_split)

theorem socks4_implementations_agree_witness:
  "same_run (socks4_negotiate \<lparr>ur_host = Some ''a.b'', ur_port = None, ur_scheme = Some ''http''\<rparr> None)
     (tunnel_socks4 ''a.b'' 80 None)"
  by (rule socks4_implementations_agree) (simp_all add: socks_port_def)

lemma read_address:
  assumes "length header = 4"
  shows "same_run
    (io_bind
       (if header ! 3 = (1 :: u8) then io_ret 4
        else if header ! 3 = 4 then io_ret 16
        else if header ! 3 = 3 then io_bind (read_exact 1) (\<lambda>length_byte. io_ret (unat (length_byte ! 0)))
        else io_fail e) (\<lambda>address_length.
     io_bind (io_lift (if address_length + 2 \<le> 258 then Ok () else Panic)) (\<lambda>_.
     io_bind (read_exact (address_length + 2)) (\<lambda>_. io_ret ()))))
    (io_bind
       (if header ! 3 = 1 then read_discard 4
        else if header ! 3 = 4 then read_discard 16
        else if header ! 3 = 3 then io_bind (read_exact 1) (\<lambda>length_byte. read_discard (unat (length_byte ! 0)))
        else io_fail e') (\<lambda>_. read_discard 2))"
proof -
  have tail: "io_bind (io_lift (if n + 2 \<le> 258 then Ok () else Panic)) (\<lambda>_.
       io_bind (read_exact (n + 2)) (\<lambda>_. io_ret ())) = io_bind (read_discard n) (\<lambda>_. read_discard 2)"
    if "n \<le> 256" for n
  proof -
    from that have "n + 2 \<le> 258" "\<not> n > 256" by linarith+
    then show ?thesis by (simp only: if_True if_False read_discard_def read_split) (simp add: io_laws)
  qed
  have t4: "io_bind (read_exact 6) (\<lambda>_. io_ret ()) = io_bind (read_discard 4) (\<lambda>_. read_discard 2)"
    using tail [of 4] by (simp add: io_laws)
  have t16: "io_bind (read_exact 18) (\<lambda>_. io_ret ()) = io_bind (read_discard 16) (\<lambda>_. read_discard 2)"
    using tail [of 16] by (simp add: io_laws)
  have b: "unat (x :: u8) \<le> 256" for x using u8_less [of x] by linarith
  show ?thesis
    by (auto simp: io_laws t4 t16 tail [OF b, simplified] same_refl same_fail intro!: same_bind_all)
qed

lemma socks5_requests_agree:
  "io_bind (io_lift (socks5_build (replicate 512 0) host port)) (\<lambda>packet. io_bind (write_all packet) f) =
   io_bind
     (case parse_ip host of
        Some (V4 ip) \<Rightarrow> io_ret ([5, 1, 0] @ [1] @ octets ip)
      | Some (V6 gs) \<Rightarrow> io_ret ([5, 1, 0] @ [4] @ ipv6_octets gs)
      | None \<Rightarrow>
          if length host \<le> 255 then io_ret ([5, 1, 0] @ [3, of_nat (length host)] @ bytes_of host)
          else io_fail ''SOCKS5 target hostname exceeds 255 bytes'') (\<lambda>request.
     io_bind (write_all (request @ to_be16 port)) f)"
  by (auto simp: socks5_build_exact_plain socks5_request_def io_laws split: option.split ip_addr.split)

text \<open>C31: the same for SOCKS5, with or without credentials, for every kind of target and reply.\<close>

theorem socks5_implementations_agree:
  assumes "ur_host uri = Some host" and "socks_port uri = Some port"
  shows "same_run (socks5_negotiate uri auth) (tunnel_socks5 host port auth)"
proof -
  have reply: "same_run
     (io_bind (read_exact 4) (\<lambda>header.
       if header ! 0 \<noteq> 5 then io_fail ''invalid response version''
       else if header ! 1 \<noteq> 0 then io_fail ''invalid response data''
       else io_bind
         (if header ! 3 = 1 then io_ret 4
          else if header ! 3 = 4 then io_ret 16
          else if header ! 3 = 3 then io_bind (read_exact 1) (\<lambda>length_byte. io_ret (unat (length_byte ! 0)))
          else io_fail ''invalid response ATYP'') (\<lambda>address_length.
       io_bind (io_lift (if address_length + 2 \<le> 258 then Ok () else Panic)) (\<lambda>_.
       io_bind (read_exact (address_length + 2)) (\<lambda>_. io_ret ())))))
     (io_bind (read_exact 4) (\<lambda>header.
       if header ! 0 \<noteq> 5 \<or> header ! 1 \<noteq> 0 then io_fail ''SOCKS5 proxy rejected request''
       else io_bind
         (if header ! 3 = 1 then read_discard 4
          else if header ! 3 = 4 then read_discard 16
          else if header ! 3 = 3 then io_bind (read_exact 1) (\<lambda>length_byte. read_discard (unat (length_byte ! 0)))
          else io_fail ''SOCKS5 proxy returned invalid ATYP'') (\<lambda>_. read_discard 2)))"
    by (rule same_bind_read) (use read_address in \<open>auto intro: sameness\<close>)
  show ?thesis
    unfolding socks5_negotiate_def tunnel_socks5_def assms option.case socks5_requests_agree
    by (intro same_bind_all same_bind_read sameness reply)
      (auto simp: two_bytes split: option.split intro!: sameness)
qed

theorem socks5_implementations_agree_witness:
  "same_run (socks5_negotiate \<lparr>ur_host = Some ''::1'', ur_port = Some 8, ur_scheme = None\<rparr>
      (Some \<lparr>username = ''u'', password = ''p''\<rparr>))
     (tunnel_socks5 ''::1'' 8 (Some \<lparr>username = ''u'', password = ''p''\<rparr>))"
  by (rule socks5_implementations_agree) (simp_all add: socks_port_def)

section \<open>Reading a response head\<close>

declare suffix_snoc [simp del]

lemma suffix_newline: "suffix CRLF2 (buf @ [b]) \<Longrightarrow> b = 10"
  by (auto simp: suffix_def CRLF2_def)

lemma read_head_step:
  assumes "w_in w = b # rest" and "length buf < limit"
  shows "read_head limit buf w =
    (if suffix CRLF2 (buf @ [b]) then (Ok (buf @ [b]), w\<lparr>w_in := rest\<rparr>)
     else read_head limit (buf @ [b]) (w\<lparr>w_in := rest\<rparr>))"
  using assms by (subst read_head.simps) (simp add: Let_def del: suffix_snoc)

lemma read_head_body:
  assumes "\<forall>b \<in> set body. b \<noteq> 10" and "w_in w = body @ rest" and "length buf + length body \<le> limit"
  shows "read_head limit buf w = read_head limit (buf @ body) (w\<lparr>w_in := rest\<rparr>)"
  using assms
proof (induction body arbitrary: buf w)
  case Nil
  then show ?case by (cases w) simp
next
  case (Cons b body)
  have "\<not> suffix CRLF2 (buf @ [b])" using suffix_newline [of buf b] Cons.prems(1) by auto
  then have "read_head limit buf w = read_head limit (buf @ [b]) (w\<lparr>w_in := body @ rest\<rparr>)"
    using read_head_step [of w b "body @ rest" buf limit] Cons.prems(2,3) by simp
  also have "\<dots> = read_head limit ((buf @ [b]) @ body) (w\<lparr>w_in := body @ rest\<rparr>\<lparr>w_in := rest\<rparr>)"
    using Cons.prems by (intro Cons.IH) auto
  finally show ?case by simp
qed

text \<open>Running out of bytes, or over the limit, within a line is no success.\<close>

lemma read_head_no_line:
  "\<forall>b \<in> set (w_in w). b \<noteq> 10 \<Longrightarrow> ok_opt (fst (read_head limit buf w)) = None"
proof (induction limit buf w rule: read_head.induct)
  case (1 limit buf w)
  show ?case
  proof (cases "w_in w")
    case Nil
    then show ?thesis by (simp add: read_head.simps [of limit buf w])
  next
    case (Cons b rest)
    then have n: "\<not> suffix CRLF2 (buf @ [b])" using "1.prems" suffix_newline [of buf b] by auto
    show ?thesis
    proof (cases "limit \<le> length buf")
      case True
      with Cons show ?thesis by (simp add: read_head.simps [of limit buf w] Let_def)
    next
      case False
      with "1.IH" [OF Cons refl False n] Cons "1.prems" n show ?thesis
        by (simp add: read_head_step del: suffix_snoc)
    qed
  qed
qed

lemma read_head_over_limit:
  assumes "\<forall>b \<in> set body. b \<noteq> 10" and "w_in w = body @ 10 # rest" and "limit \<le> length buf + length body"
  shows "ok_opt (fst (read_head limit buf w)) = None"
  using assms
proof (induction body arbitrary: buf w)
  case Nil
  then show ?case by (subst read_head.simps) (simp add: Let_def)
next
  case (Cons b body)
  show ?case
  proof (cases "limit \<le> length buf")
    case True
    with Cons.prems show ?thesis by (subst read_head.simps) (simp add: Let_def)
  next
    case False
    have "\<not> suffix CRLF2 (buf @ [b])" using suffix_newline [of buf b] Cons.prems(1) by auto
    then have "read_head limit buf w = read_head limit (buf @ [b]) (w\<lparr>w_in := body @ 10 # rest\<rparr>)"
      using read_head_step [of w b "body @ 10 # rest" buf limit] Cons.prems(2) False by simp
    with Cons.IH [of "w\<lparr>w_in := body @ 10 # rest\<rparr>" "buf @ [b]"] Cons.prems show ?thesis by simp
  qed
qed

lemma read_http_headers_line:
  assumes "\<forall>b \<in> set body. b \<noteq> 10" and "w_in w = body @ 10 # rest"
  shows "read_http_headers buf w =
    (if length buf + length (body @ [10]) > PROXY_RESPONSE_LIMIT
     then (Err ''proxy response headers exceed limit'', w\<lparr>w_in := rest\<rparr>)
     else if suffix CRLF2 (buf @ body @ [10]) then (Ok (buf @ body @ [10]), w\<lparr>w_in := rest\<rparr>)
     else read_http_headers (buf @ body @ [10]) (w\<lparr>w_in := rest\<rparr>))"
proof -
  have tw: "takeWhile (\<lambda>b. b \<noteq> 10) (body @ 10 # rest) = body"
    using assms(1) by (subst takeWhile_append2) auto
  have "take (Suc (length body)) (body @ 10 # rest) = body @ [10]" by simp
  then show ?thesis
    by (subst read_http_headers.simps) (simp only: assms(2) tw Let_def, simp)
qed

lemma headers_are_head:
  "ok_opt (fst (read_http_headers buf w)) = ok_opt (fst (read_head PROXY_RESPONSE_LIMIT buf w)) \<and>
   (ok_opt (fst (read_http_headers buf w)) \<noteq> None \<longrightarrow>
      read_http_headers buf w = read_head PROXY_RESPONSE_LIMIT buf w)"
proof (induction buf w rule: read_http_headers.induct)
  case (1 buf w)
  let ?body = "takeWhile (\<lambda>b. b \<noteq> 10) (w_in w)"
  have nb: "\<forall>b \<in> set ?body. b \<noteq> 10" by (auto dest: set_takeWhileD)
  show ?case
  proof (cases "10 \<in> set (w_in w)")
    case False
    then have "?body = w_in w" by (auto simp: takeWhile_eq_all_conv)
    then have line: "take (Suc (length ?body)) (w_in w) = w_in w" by (metis le_SucI order_refl take_all)
    have "ok_opt (fst (read_head PROXY_RESPONSE_LIMIT buf w)) = None"
      using False by (intro read_head_no_line) auto
    moreover have "ok_opt (fst (read_http_headers buf w)) = None"
    proof (cases "w_in w = []")
      case True
      then show ?thesis by (simp add: read_http_headers.simps [of buf w])
    next
      case ne: False
      have "\<not> suffix CRLF2 (buf @ w_in w)"
      proof
        assume "suffix CRLF2 (buf @ w_in w)"
        with ne have "last (w_in w) = 10"
          using suffix_newline [of "buf @ butlast (w_in w)" "last (w_in w)"] by simp
        with ne have "10 \<in> set (w_in w)" by (metis last_in_set)
        with False show False ..
      qed
      moreover have "read_http_headers (buf @ w_in w) (w\<lparr>w_in := []\<rparr>) =
          (Err ''proxy response headers exceed limit'', w\<lparr>w_in := []\<rparr>)"
        by (subst read_http_headers.simps) simp
      ultimately show ?thesis
        using ne line by (subst read_http_headers.simps) (simp add: Let_def)
    qed
    ultimately show ?thesis by simp
  next
    case True
    then obtain body rest where w: "w_in w = body @ 10 # rest" and nb': "10 \<notin> set body"
      by (meson split_list_first)
    then have nb': "\<forall>b \<in> set body. b \<noteq> 10" by blast
    have tw: "?body = body" unfolding w by (subst takeWhile_append2) (use nb' in auto)
    let ?line = "body @ [10]"
    have line: "take (Suc (length body)) (w_in w) = ?line" "drop (length ?line) (w_in w) = rest"
      using w by simp_all
    note hdr = read_http_headers_line [OF nb' w, of buf]
    show ?thesis
    proof (cases "length buf + length ?line > PROXY_RESPONSE_LIMIT")
      case over: True
      with read_head_over_limit [OF nb' w, of PROXY_RESPONSE_LIMIT buf] hdr show ?thesis by simp
    next
      case fits: False
      have "read_head PROXY_RESPONSE_LIMIT buf w =
          read_head PROXY_RESPONSE_LIMIT (buf @ body) (w\<lparr>w_in := 10 # rest\<rparr>)"
        using read_head_body [OF nb' w] fits by simp
      also have "\<dots> = (if suffix CRLF2 (buf @ ?line) then (Ok (buf @ ?line), w\<lparr>w_in := rest\<rparr>)
          else read_head PROXY_RESPONSE_LIMIT (buf @ ?line) (w\<lparr>w_in := rest\<rparr>))"
        using fits by (subst read_head_step) (auto simp del: suffix_snoc)
      finally have hd: "read_head PROXY_RESPONSE_LIMIT buf w =
          (if suffix CRLF2 (buf @ ?line) then (Ok (buf @ ?line), w\<lparr>w_in := rest\<rparr>)
           else read_head PROXY_RESPONSE_LIMIT (buf @ ?line) (w\<lparr>w_in := rest\<rparr>))" .
      show ?thesis
      proof (cases "suffix CRLF2 (buf @ ?line)")
        case True
        with hd hdr fits show ?thesis by simp
      next
        case more: False
        have "w_in w \<noteq> []" using w by simp
        moreover have "w\<lparr>w_in := rest\<rparr> = w\<lparr>w_in := drop (length ?line) (w_in w)\<rparr>"
          using line(2) by simp
        ultimately have IH: "ok_opt (fst (read_http_headers (buf @ ?line) (w\<lparr>w_in := rest\<rparr>))) =
            ok_opt (fst (read_head PROXY_RESPONSE_LIMIT (buf @ ?line) (w\<lparr>w_in := rest\<rparr>))) \<and>
            (ok_opt (fst (read_http_headers (buf @ ?line) (w\<lparr>w_in := rest\<rparr>))) \<noteq> None \<longrightarrow>
              read_http_headers (buf @ ?line) (w\<lparr>w_in := rest\<rparr>) =
              read_head PROXY_RESPONSE_LIMIT (buf @ ?line) (w\<lparr>w_in := rest\<rparr>))"
          using "1.IH" [OF _ tw [symmetric] line(1) [symmetric] _ fits more] by blast
        have h1: "read_http_headers buf w = read_http_headers (buf @ ?line) (w\<lparr>w_in := rest\<rparr>)"
          using hdr fits more by (simp only: if_False)
        have h2: "read_head PROXY_RESPONSE_LIMIT buf w =
            read_head PROXY_RESPONSE_LIMIT (buf @ ?line) (w\<lparr>w_in := rest\<rparr>)"
          using hd more by (simp only: if_False)
        show ?thesis unfolding h1 h2 by (rule IH)
      qed
    qed
  qed
qed

lemma same_success:
  "ok_opt (fst a) = ok_opt (fst b) \<and> (ok_opt (fst a) \<noteq> None \<longrightarrow> a = b) \<Longrightarrow>
   a = (Ok x, w) \<longleftrightarrow> b = (Ok x, w)"
  by (cases a; cases b) auto

text \<open>The line-based reader of the validator and the byte-by-byte reader of the rotating endpoint
  accept the same response heads, of at most 16 KiB, and leave the same bytes unread.\<close>

theorem header_readers_agree:
  "read_http_headers [] w = (Ok head, w') \<longleftrightarrow> read_head PROXY_RESPONSE_LIMIT [] w = (Ok head, w')"
  by (rule same_success) (rule headers_are_head)

section \<open>Answers that are refused\<close>

text \<open>C32: with credentials, the SOCKS5 handshake offers "no authentication" (method 0) beside
  username/password, and fails when the proxy chooses it.\<close>

theorem socks5_refuses_offered_method:
  assumes "socks5_user_pass a = Some up" and "w_open w" and "w_in w = [5, 0] @ rest"
  shows "ok_opt (fst (socks5_negotiate uri (Some a) w)) = None \<and>
    w_out (snd (socks5_negotiate uri (Some a) w)) = w_out w @ [5, 2, 0, 2]"
  using assms
  by (simp add: socks5_negotiate_def credentials_of_def io_laws)
    (simp add: io_bind_def write_all_def read_exact_def io_fail_def)

theorem socks5_refuses_offered_method_witness:
  "ok_opt (fst (socks5_negotiate \<lparr>ur_host = Some ''h'', ur_port = Some 80, ur_scheme = None\<rparr>
      (Some \<lparr>username = ''u'', password = ''p''\<rparr>) \<lparr>w_in = [5, 0] @ [5, 0, 0, 1, 0, 0, 0, 0, 0, 0], w_out = [], w_open = True\<rparr>)) = None \<and>
   w_out (snd (socks5_negotiate \<lparr>ur_host = Some ''h'', ur_port = Some 80, ur_scheme = None\<rparr>
      (Some \<lparr>username = ''u'', password = ''p''\<rparr>) \<lparr>w_in = [5, 0] @ [5, 0, 0, 1, 0, 0, 0, 0, 0, 0], w_out = [], w_open = True\<rparr>)) =
     w_out \<lparr>w_in = [5, 0] @ [5, 0, 0, 1, 0, 0, 0, 0, 0, 0], w_out = [], w_open = True\<rparr> @ [5, 2, 0, 2]"
  by (rule socks5_refuses_offered_method [where up = "(''u'', ''p'')" and rest = "[5, 0, 0, 1, 0, 0, 0, 0, 0, 0]"])
    (simp_all add: socks5_user_pass_def)

end
