(* ===== verification/Rotator_Server.thy ===== *)
theory Rotator_Server
  imports Rotator_Pool Handshake_Props
begin

text \<open>
  Serving one client connection (\<open>src/rotator/server.rs\<close>, readiness of
  \<open>src/rotator/mod.rs\<close>): reading the request head, choosing and opening the upstream,
  relaying, and reporting the outcome to the pool. Connections interleave only at the
  pool's operations. The HTTP parsers, the URI parser, base64, the sockets' behaviour
  and the clock are parameters; trace events are left out.
\<close>

section \<open>Reading the request\<close>

definition REQUEST_HEAD_LIMIT :: nat where
  "REQUEST_HEAD_LIMIT = 16 * 1024"

definition DEFAULT_TARGET_PORT :: u16 where
  "DEFAULT_TARGET_PORT = 80"

datatype read_event = Chunk "u8 list" | ReadError

record request_head =
  rh_method :: "string option"
  rh_path :: "string option"
  rh_headers :: "(string \<times> u8 list) list"

datatype head_parse = HeadError | HeadPartial | HeadComplete nat request_head

record client_request =
  cr_tunnel :: bool
  cr_method :: string
  cr_host :: string
  cr_port :: u16
  cr_authorized :: bool
  cr_forward :: "u8 list"

definition find_head_end :: "u8 list \<Rightarrow> nat option" where
  "find_head_end bytes = map_option (\<lambda>i. i + 4) (find_str CRLF2 bytes)"

fun recv_head :: "u8 list \<Rightarrow> read_event list \<Rightarrow> string + u8 list \<times> nat" where
  "recv_head bytes events =
     (if length bytes > REQUEST_HEAD_LIMIT then Inl ''request head exceeds the limit''
      else case events of
        [] \<Rightarrow> Inl ''client closed before sending a full request head''
      | ReadError # _ \<Rightarrow> Inl ''read failed''
      | Chunk [] # _ \<Rightarrow> Inl ''client closed before sending a full request head''
      | Chunk (b # bs) # later \<Rightarrow>
          (let bytes' = bytes @ b # bs
           in case find_head_end bytes' of
             Some head_end \<Rightarrow> Inr (bytes', head_end)
           | None \<Rightarrow> recv_head bytes' later))"

declare recv_head.simps [simp del]

definition trim_brackets :: "string \<Rightarrow> string" where
  "trim_brackets s = rev (dropWhile ((=) CHR '']'') (rev (dropWhile ((=) CHR ''['') s)))"

definition parse_authority :: "string \<Rightarrow> string + string \<times> u16" where
  "parse_authority authority =
     (case rsplit_once (CHR '':'') authority of
        None \<Rightarrow> Inl ''CONNECT authority has no port''
      | Some (host, port) \<Rightarrow>
          (case parse_u16 port of
             None \<Rightarrow> Inl ''CONNECT authority has an invalid port''
           | Some p \<Rightarrow> Inr (trim_brackets host, p)))"

definition is_authorized :: "u8 list option \<Rightarrow> request_head \<Rightarrow> bool" where
  "is_authorized expected_auth head =
     (case expected_auth of
        None \<Rightarrow> True
      | Some expected \<Rightarrow>
          (\<exists>(name, value) \<in> set (rh_headers head).
             eq_ignore_case name ''proxy-authorization'' \<and> value = expected))"

definition read_request ::
  "(u8 list \<Rightarrow> head_parse) \<Rightarrow> (string \<Rightarrow> (string option \<times> u16 option) option) \<Rightarrow>
   u8 list option \<Rightarrow> read_event list \<Rightarrow> string + client_request" where
  "read_request parse_head parse_uri expected_auth events =
     res_bind (recv_head [] events) (\<lambda>(bytes, head_end).
       case parse_head bytes of
         HeadError \<Rightarrow> Inl ''malformed request head''
       | HeadPartial \<Rightarrow> Inl ''incomplete request head''
       | HeadComplete consumed head \<Rightarrow>
           (case (rh_method head, rh_path head) of
              (None, _) \<Rightarrow> Inl ''request without a method''
            | (Some meth, None) \<Rightarrow> Inl ''request without a path''
            | (Some meth, Some path) \<Rightarrow>
                (let tunnel = (meth = ''CONNECT'')
                 in res_bind
                   (if tunnel then parse_authority path
                    else case parse_uri path of
                      None \<Rightarrow> Inl ''malformed request target''
                    | Some (None, _) \<Rightarrow> Inl ''request target has no host''
                    | Some (Some host, port) \<Rightarrow>
                        Inr (trim_brackets host, case port of Some p \<Rightarrow> p | None \<Rightarrow> DEFAULT_TARGET_PORT))
                   (\<lambda>(host, port).
                     Inr \<lparr>cr_tunnel = tunnel, cr_method = meth, cr_host = host, cr_port = port,
                          cr_authorized = is_authorized expected_auth head,
                          cr_forward = (if tunnel then drop (min consumed head_end) bytes else bytes)\<rparr>))))"

section \<open>Opening the upstream\<close>

definition speaks_tunnel :: "protocol \<Rightarrow> bool" where
  "speaks_tunnel p = (case p of Socks4 \<Rightarrow> True | Socks5 \<Rightarrow> True | Https _ \<Rightarrow> True | _ \<Rightarrow> False)"

definition upstream_protocol :: "proxy \<Rightarrow> protocol option" where
  "upstream_protocol p =
     (case find speaks_tunnel (map pt_protocol (proxy_types p)) of
        Some q \<Rightarrow> Some q
      | None \<Rightarrow> (case expected_types p of [] \<Rightarrow> None | q # _ \<Rightarrow> Some q))"

definition target_uri_text :: "string \<Rightarrow> string \<Rightarrow> u16 \<Rightarrow> string" where
  "target_uri_text scheme host port = scheme @ ''://'' @ host @ '':'' @ show_nat (unat port) @ ''/''"

text \<open>\<open>connect_http\<close>: the code is the parsed status, 0 when the head had none.\<close>

definition connect_http ::
  "(u8 list \<Rightarrow> head_status) \<Rightarrow> (string \<Rightarrow> string) \<Rightarrow> string \<Rightarrow> u16 \<Rightarrow> proxy_auth option \<Rightarrow> unit io" where
  "connect_http parse_response b64_encode host port auth =
     io_bind (write_all (bytes_of (connect_request ''Proxy-Connection'' b64_encode (authority_text host port) auth))) (\<lambda>_.
     io_bind (read_head PROXY_RESPONSE_LIMIT []) (\<lambda>response.
       case parse_response response of
         Unparsable \<Rightarrow> io_fail ''malformed CONNECT response''
       | Partial \<Rightarrow> io_fail ''upstream returned an incomplete CONNECT response''
       | Parsed code \<Rightarrow>
           if (case code of Some c \<Rightarrow> c | None \<Rightarrow> 0) \<noteq> 200 then io_fail ''CONNECT returned status''
           else io_ret ()))"

definition with_target ::
  "(string \<Rightarrow> uri_view option) \<Rightarrow> string \<Rightarrow> client_request \<Rightarrow> (uri_view \<Rightarrow> unit io) \<Rightarrow> unit io" where
  "with_target to_uri scheme req run =
     (case to_uri (target_uri_text scheme (cr_host req) (cr_port req)) of
        None \<Rightarrow> io_fail ''invalid target authority''
      | Some uri \<Rightarrow> run uri)"

definition upstream_handshake ::
  "(string \<Rightarrow> uri_view option) \<Rightarrow> (u8 list \<Rightarrow> head_status) \<Rightarrow> (string \<Rightarrow> string) \<Rightarrow>
   proxy \<Rightarrow> client_request \<Rightarrow> unit io" where
  "upstream_handshake to_uri parse_response b64_encode p req =
     (case upstream_protocol p of
        Some Socks4 \<Rightarrow> with_target to_uri ''http'' req (\<lambda>uri. socks4_negotiate uri (px_auth p))
      | Some Socks5 \<Rightarrow> with_target to_uri ''http'' req (\<lambda>uri. socks5_negotiate uri (px_auth p))
      | Some (Https _) \<Rightarrow>
          if cr_tunnel req
          then with_target to_uri ''https'' req (\<lambda>uri. https_negotiate parse_response b64_encode uri (px_auth p))
          else io_ret ()
      | _ \<Rightarrow>
          if cr_tunnel req then connect_http parse_response b64_encode (cr_host req) (cr_port req) (px_auth p)
          else io_ret ())"

text \<open>Connecting, then the handshake, both within the connection's budget.\<close>

definition open_upstream ::
  "(string \<Rightarrow> uri_view option) \<Rightarrow> (u8 list \<Rightarrow> head_status) \<Rightarrow> (string \<Rightarrow> string) \<Rightarrow>
   bool \<Rightarrow> bool \<Rightarrow> proxy \<Rightarrow> client_request \<Rightarrow> unit io" where
  "open_upstream to_uri parse_response b64_encode tcp_ok in_time p req =
     (if \<not> tcp_ok then io_fail ''connecting to upstream failed''
      else if \<not> in_time then io_fail ''handshake timed out''
      else upstream_handshake to_uri parse_response b64_encode p req)"

section \<open>One connection\<close>

datatype relay = Relayed | RelayBroken | RelayTimedOut

datatype serve_event =
    Incoming string string
  | Completed string string "string option" bool "string option"

record conn_env =
  ce_reads :: "read_event list"
  ce_head_timeout :: bool
  ce_expected_auth :: "u8 list option"
  ce_pick_time :: nat
  ce_pick_hash :: u64
  ce_connected :: bool
  ce_in_time :: bool
  ce_upstream :: wire
  ce_established :: bool
  ce_forwarded :: bool
  ce_relay :: relay
  ce_report_time :: nat

definition RESPONSE_ESTABLISHED :: string where
  "RESPONSE_ESTABLISHED = ''HTTP/1.1 200 Connection established'' @ crlf @ crlf"

definition RESPONSE_BAD_REQUEST :: string where
  "RESPONSE_BAD_REQUEST = ''HTTP/1.1 400 Bad Request'' @ crlf @ ''Content-Length: 0'' @ crlf @ ''Connection: close'' @ crlf @ crlf"

definition RESPONSE_NO_PROXY :: string where
  "RESPONSE_NO_PROXY = ''HTTP/1.1 503 Service Unavailable'' @ crlf @ ''Content-Length: 0'' @ crlf @ ''Connection: close'' @ crlf @ crlf"

definition RESPONSE_BAD_GATEWAY :: string where
  "RESPONSE_BAD_GATEWAY = ''HTTP/1.1 502 Bad Gateway'' @ crlf @ ''Content-Length: 0'' @ crlf @ ''Connection: close'' @ crlf @ crlf"

definition RESPONSE_UNAUTHORIZED :: string where
  "RESPONSE_UNAUTHORIZED = ''HTTP/1.1 407 Proxy Authentication Required'' @ crlf @
     ''Proxy-Authenticate: Basic realm=\"flx\"'' @ crlf @ ''Content-Length: 0'' @ crlf @ ''Connection: close'' @ crlf @ crlf"

record conn_result =
  cn_pool :: pool
  cn_sent :: "string list"
  cn_events :: "serve_event list"

definition request_target :: "client_request \<Rightarrow> string" where
  "request_target req = cr_host req @ '':'' @ show_nat (unat (cr_port req))"

definition relay_outcome :: "conn_env \<Rightarrow> client_request \<Rightarrow> bool" where
  "relay_outcome env req =
     (let sent = (if cr_tunnel req then ce_established env \<and> (cr_forward req = [] \<or> ce_forwarded env)
                  else ce_forwarded env)
      in sent \<and> (case ce_relay env of Relayed \<Rightarrow> True | RelayBroken \<Rightarrow> True | RelayTimedOut \<Rightarrow> False))"

definition handle_connection ::
  "(u8 list \<Rightarrow> head_parse) \<Rightarrow> (string \<Rightarrow> (string option \<times> u16 option) option) \<Rightarrow>
   (string \<Rightarrow> uri_view option) \<Rightarrow> (u8 list \<Rightarrow> head_status) \<Rightarrow> (string \<Rightarrow> string) \<Rightarrow>
   conn_env \<Rightarrow> pool \<Rightarrow> conn_result" where
  "handle_connection parse_head parse_uri to_uri parse_response b64_encode env pl =
     (case (if ce_head_timeout env then Inl ''timeout''
            else read_request parse_head parse_uri (ce_expected_auth env) (ce_reads env)) of
        Inl _ \<Rightarrow>
          \<lparr>cn_pool = pl, cn_sent = [RESPONSE_BAD_REQUEST],
           cn_events = [Completed ''-'' ''-'' None False (Some ''bad request'')]\<rparr>
      | Inr req \<Rightarrow>
          (let target = request_target req; incoming = Incoming (cr_method req) target
           in if \<not> cr_authorized req then
                \<lparr>cn_pool = pl, cn_sent = [RESPONSE_UNAUTHORIZED],
                 cn_events = [incoming, Completed (cr_method req) target None False (Some ''auth required'')]\<rparr>
              else (case pool_pick (ce_pick_time env) (ce_pick_hash env) pl of
                (None, pl1) \<Rightarrow>
                  \<lparr>cn_pool = pl1, cn_sent = [RESPONSE_NO_PROXY],
                   cn_events = [incoming, Completed (cr_method req) target None False (Some ''no proxy'')]\<rparr>
              | (Some p, pl1) \<Rightarrow>
                  (case fst (open_upstream to_uri parse_response b64_encode (ce_connected env) (ce_in_time env)
                               p req (ce_upstream env)) of
                     Ok _ \<Rightarrow>
                       (let relayed = relay_outcome env req
                        in \<lparr>cn_pool = (if relayed then report_success p pl1
                                       else report_failure (ce_report_time env) p pl1),
                            cn_sent = (if cr_tunnel req then [RESPONSE_ESTABLISHED] else []),
                            cn_events = [incoming, Completed (cr_method req) target (Some (px_text p)) relayed
                              (if relayed then None else Some ''relay failed'')]\<rparr>)
                   | _ \<Rightarrow>
                       \<lparr>cn_pool = report_failure (ce_report_time env) p pl1,
                        cn_sent = [if cr_tunnel req then RESPONSE_BAD_GATEWAY else RESPONSE_NO_PROXY],
                        cn_events = [incoming, Completed (cr_method req) target (Some (px_text p)) False
                          (Some (if cr_tunnel req then ''bad gateway'' else ''no proxy''))]\<rparr>))))"

definition ready_target :: "nat \<Rightarrow> nat \<Rightarrow> nat" where
  "ready_target pool_size min_ready = min (min min_ready (max pool_size 1)) MAX_POOL_SIZE"

end
