(* ===== verification/Rotator_Props.thy ===== *)
theory Rotator_Props
  imports Rotator_Server
begin

text \<open>
  What serving promises. The server uses the pool through the interface \<open>upstream_pool\<close>:
  picks return members, reports never add one and drop at most the reported one.
  \<open>RotatorPool\<close> provides it, and the accounting of one connection rests on it.
\<close>

section \<open>The pool as the server sees it\<close>

locale upstream_pool =
  fixes pick :: "nat \<Rightarrow> u64 \<Rightarrow> 's \<Rightarrow> proxy option \<times> 's"
    and good :: "proxy \<Rightarrow> 's \<Rightarrow> 's"
    and bad :: "nat \<Rightarrow> proxy \<Rightarrow> 's \<Rightarrow> 's"
    and members :: "'s \<Rightarrow> string set"
    and ok :: "'s \<Rightarrow> bool"
  assumes pick_ok: "ok s \<Longrightarrow> ok (snd (pick now hash s)) \<and> members (snd (pick now hash s)) = members s"
    and pick_member: "ok s \<Longrightarrow> fst (pick now hash s) = Some p \<Longrightarrow> px_text p \<in> members s"
    and good_ok: "ok s \<Longrightarrow> ok (good p s) \<and> members (good p s) = members s"
    and bad_ok: "ok s \<Longrightarrow> ok (bad now p s) \<and> members (bad now p s) \<subseteq> members s \<and>
        members s - {px_text p} \<subseteq> members (bad now p s)"
begin

text \<open>One exchange: pick, use, report.\<close>

definition exchange :: "nat \<Rightarrow> u64 \<Rightarrow> nat \<Rightarrow> (proxy \<Rightarrow> bool) \<Rightarrow> 's \<Rightarrow> 's" where
  "exchange now hash later served s =
     (case pick now hash s of
        (None, s1) \<Rightarrow> s1
      | (Some p, s1) \<Rightarrow> if served p then good p s1 else bad later p s1)"

lemma exchange_ok:
  assumes "ok s"
  shows "ok (exchange now hash later served s) \<and> members (exchange now hash later served s) \<subseteq> members s"
proof -
  obtain r s1 where p: "pick now hash s = (r, s1)" by (cases "pick now hash s")
  with pick_ok [OF assms, of now hash] have "ok s1" "members s1 = members s" by auto
  then show ?thesis
    using p good_ok [of s1] bad_ok [of s1 later] by (cases r) (auto simp: exchange_def)
qed

text \<open>Only a picked proxy whose exchange failed can leave.\<close>

lemma exchange_drops:
  assumes "ok s" and "t \<in> members s" and "t \<notin> members (exchange now hash later served s)"
  shows "\<exists>p. fst (pick now hash s) = Some p \<and> px_text p = t \<and> \<not> served p"
proof -
  obtain r s1 where p: "pick now hash s = (r, s1)" by (cases "pick now hash s")
  with pick_ok [OF assms(1), of now hash] have s1: "ok s1" "members s1 = members s" by auto
  show ?thesis
  proof (cases r)
    case None
    with p s1 assms show ?thesis by (simp add: exchange_def)
  next
    case (Some q)
    with p s1 assms good_ok [OF s1(1), of q] bad_ok [OF s1(1), of later q] show ?thesis
      by (auto simp: exchange_def split: if_splits)
  qed
qed

lemma exchanges_ok:
  "ok s \<Longrightarrow> ok (foldl (\<lambda>s (now, hash, later, served). exchange now hash later served s) s xs) \<and>
    members (foldl (\<lambda>s (now, hash, later, served). exchange now hash later served s) s xs) \<subseteq> members s"
proof (induction xs arbitrary: s)
  case Nil
  then show ?case by simp
next
  case (Cons x xs)
  obtain now hash later served where x: "x = (now, hash, later, served)" by (metis prod_cases4)
  from Cons.IH [of "exchange now hash later served s"] exchange_ok [OF Cons.prems] x
  show ?case by force
qed

end

lemma pool_texts_failure:
  assumes "pool_ok pl"
  shows "set (pool_texts (report_failure now p pl)) \<subseteq> set (pool_texts pl) \<and>
    set (pool_texts pl) - {px_text p} \<subseteq> set (pool_texts (report_failure now p pl))"
proof (cases "position (\<lambda>e. entry_text e = px_text p) (pl_entries pl)")
  case None
  then show ?thesis by (auto simp: report_failure_def)
next
  case (Some i)
  then have i: "i < length (pl_entries pl)" "entry_text (pl_entries pl ! i) = px_text p"
    by (simp_all add: position_eq_Some)
  let ?e = "(pl_entries pl ! i)\<lparr>pe_failures := pe_failures (pl_entries pl ! i) + 1\<rparr>"
  let ?es = "(pl_entries pl)[i := ?e]"
  have texts: "map entry_text ?es = map entry_text (pl_entries pl)"
    using texts_update [OF i(1)] by simp
  have d: "distinct (map entry_text ?es)"
    using assms texts by (simp add: pool_ok_def pool_texts_def)
  then have "set (swap_remove ?es i) = set ?es - {?es ! i}"
    using i by (intro set_swap_remove) (simp_all add: distinct_map)
  moreover have "entry_text (?es ! i) = px_text p" using i by simp
  ultimately have "entry_text ` set (swap_remove ?es i) \<subseteq> set (map entry_text ?es) \<and>
      set (map entry_text ?es) - {px_text p} \<subseteq> entry_text ` set (swap_remove ?es i)"
    by auto
  then have evict: "entry_text ` set (swap_remove ?es i) \<subseteq> set (map entry_text (pl_entries pl)) \<and>
      set (map entry_text (pl_entries pl)) - {px_text p} \<subseteq> entry_text ` set (swap_remove ?es i)"
    unfolding texts .
  have cool: "map entry_text ((pl_entries pl)[i := ?e\<lparr>pe_cooldown_until := c\<rparr>]) = map entry_text (pl_entries pl)" for c
    using texts_update [OF i(1)] by simp
  show ?thesis
  proof (cases "MAX_CONSECUTIVE_FAILURES \<le> pe_failures ?e")
    case True
    then have "pool_texts (report_failure now p pl) = map entry_text (swap_remove ?es i)"
      using Some by (simp add: report_failure_def Let_def pool_texts_def)
    with evict show ?thesis by (simp add: pool_texts_def)
  next
    case False
    then have "pool_texts (report_failure now p pl) =
        map entry_text ((pl_entries pl)[i := ?e\<lparr>pe_cooldown_until := Some (now + COOLDOWN)\<rparr>])"
      using Some by (simp add: report_failure_def Let_def pool_texts_def)
    then have "pool_texts (report_failure now p pl) = pool_texts pl"
      by (simp only: cool pool_texts_def)
    then show ?thesis by auto
  qed
qed

lemma pool_texts_success: "pool_texts (report_success p pl) = pool_texts pl"
proof (cases "position (\<lambda>e. entry_text e = px_text p) (pl_entries pl)")
  case None
  then show ?thesis by (simp add: report_success_def)
next
  case (Some i)
  then have "i < length (pl_entries pl)" by (simp add: position_eq_Some)
  with texts_update Some show ?thesis by (simp add: report_success_def pool_texts_def)
qed

lemma pick_text:
  assumes "fst (pool_pick now hash pl) = Some p"
  shows "px_text p \<in> set (pool_texts pl)"
  using pick_finds_available_plain [where now = now and hash = hash and pl = pl] assms
  by (auto simp: pool_texts_def entry_text_def)

interpretation rotator: upstream_pool pool_pick report_success report_failure "\<lambda>pl. set (pool_texts pl)" pool_ok
proof
  fix pl :: pool and now hash p
  assume ok: "pool_ok pl"
  show "pool_ok (snd (pool_pick now hash pl)) \<and> set (pool_texts (snd (pool_pick now hash pl))) = set (pool_texts pl)"
    using pool_ok_pick [OF ok] by (simp add: pool_texts_def pick_entries)
  show "fst (pool_pick now hash pl) = Some p \<Longrightarrow> px_text p \<in> set (pool_texts pl)"
    by (rule pick_text)
  show "pool_ok (report_success p pl) \<and> set (pool_texts (report_success p pl)) = set (pool_texts pl)"
    using pool_ok_success [OF ok] by (simp add: pool_texts_success)
  show "pool_ok (report_failure now p pl) \<and> set (pool_texts (report_failure now p pl)) \<subseteq> set (pool_texts pl) \<and>
      set (pool_texts pl) - {px_text p} \<subseteq> set (pool_texts (report_failure now p pl))"
    using pool_ok_failure [OF ok] pool_texts_failure [OF ok] by blast
qed

section \<open>One connection\<close>

definition completed_events :: "serve_event list \<Rightarrow> serve_event list" where
  "completed_events es = filter (\<lambda>e. case e of Completed _ _ _ _ _ \<Rightarrow> True | _ \<Rightarrow> False) es"

definition connection_served ::
  "(string \<Rightarrow> uri_view option) \<Rightarrow> (u8 list \<Rightarrow> head_status) \<Rightarrow> (string \<Rightarrow> string) \<Rightarrow>
   conn_env \<Rightarrow> client_request \<Rightarrow> proxy \<Rightarrow> bool" where
  "connection_served to_uri parse_response b64_encode env req p \<longleftrightarrow>
     fst (open_upstream to_uri parse_response b64_encode (ce_connected env) (ce_in_time env) p req (ce_upstream env)) =
       Ok () \<and> relay_outcome env req"

lemma handle_connection_pool:
  assumes "\<not> ce_head_timeout env"
    and "read_request parse_head parse_uri (ce_expected_auth env) (ce_reads env) = Inr req"
    and "cr_authorized req"
  shows "cn_pool (handle_connection parse_head parse_uri to_uri parse_response b64_encode env pl) =
    rotator.exchange (ce_pick_time env) (ce_pick_hash env) (ce_report_time env)
      (connection_served to_uri parse_response b64_encode env req) pl"
  using assms
  by (simp add: handle_connection_def rotator.exchange_def connection_served_def Let_def
      split: prod.split option.split outcome.split)

text \<open>C28: serving a connection reports to the pool exactly once for the proxy it picked, a success if the
  exchange was relayed and a failure otherwise, and not at all when it picked none; so it keeps the pool's
  invariant, adds no proxy, and drops at most the picked one, and only when that exchange failed. It
  ends with exactly one completion event, which names the picked proxy and the outcome reported.\<close>

theorem connection_accounting:
  assumes "pool_ok pl"
  shows "let res = handle_connection parse_head parse_uri to_uri parse_response b64_encode env pl;
             request = (if ce_head_timeout env then Inl ''timeout''
                        else read_request parse_head parse_uri (ce_expected_auth env) (ce_reads env))
    in pool_ok (cn_pool res) \<and> set (pool_texts (cn_pool res)) \<subseteq> set (pool_texts pl) \<and>
       length (completed_events (cn_events res)) = 1 \<and> cn_events res \<noteq> [] \<and>
       (\<forall>t \<in> set (pool_texts pl) - set (pool_texts (cn_pool res)).
          \<exists>m tgt r. last (cn_events res) = Completed m tgt (Some t) False r) \<and>
       (case request of
          Inl _ \<Rightarrow> cn_pool res = pl
        | Inr req \<Rightarrow>
            if \<not> cr_authorized req then cn_pool res = pl
            else (case pool_pick (ce_pick_time env) (ce_pick_hash env) pl of
                (None, pl1) \<Rightarrow> cn_pool res = pl1
              | (Some p, pl1) \<Rightarrow>
                  (let served = connection_served to_uri parse_response b64_encode env req p
                   in cn_pool res = (if served then report_success p pl1 else report_failure (ce_report_time env) p pl1) \<and>
                      (\<exists>r. last (cn_events res) =
                         Completed (cr_method req) (request_target req) (Some (px_text p)) served r))))"
proof -
  let ?res = "handle_connection parse_head parse_uri to_uri parse_response b64_encode env pl"
  let ?request = "if ce_head_timeout env then Inl ''timeout''
    else read_request parse_head parse_uri (ce_expected_auth env) (ce_reads env)"
  have events: "length (completed_events (cn_events ?res)) = 1 \<and> cn_events ?res \<noteq> []"
    by (simp add: handle_connection_def completed_events_def Let_def
        split: sum.split prod.split option.split outcome.split)
  show ?thesis
  proof (cases "\<exists>req. ?request = Inr req \<and> cr_authorized req")
    case True
    then obtain req where req: "\<not> ce_head_timeout env" "cr_authorized req"
      "read_request parse_head parse_uri (ce_expected_auth env) (ce_reads env) = Inr req" by (auto split: if_splits)
    let ?served = "connection_served to_uri parse_response b64_encode env req"
    note pool = handle_connection_pool [OF req(1,3,2), of to_uri parse_response b64_encode pl]
    obtain picked pl1 where pick: "pool_pick (ce_pick_time env) (ce_pick_hash env) pl = (picked, pl1)" by fastforce
    have final: "\<exists>r. last (cn_events ?res) = Completed (cr_method req) (request_target req) (Some (px_text p)) (?served p) r"
      if "picked = Some p" for p
      using req pick that by (auto simp: handle_connection_def connection_served_def Let_def split: outcome.splits)
    have "\<exists>m tgt r. last (cn_events ?res) = Completed m tgt (Some t) False r"
      if t: "t \<in> set (pool_texts pl)" "t \<notin> set (pool_texts (cn_pool ?res))" for t
    proof -
      from rotator.exchange_drops [OF assms t(1), of "ce_pick_time env" "ce_pick_hash env" "ce_report_time env" ?served]
        t(2) pool pick obtain p where "picked = Some p" "px_text p = t" "\<not> ?served p"
        by auto
      with final [of p] show ?thesis by auto
    qed
    moreover have "cn_pool ?res = (case picked of None \<Rightarrow> pl1
        | Some p \<Rightarrow> if ?served p then report_success p pl1 else report_failure (ce_report_time env) p pl1)"
      by (simp add: pool pick rotator.exchange_def split: option.split)
    moreover have "pool_ok (cn_pool ?res) \<and> set (pool_texts (cn_pool ?res)) \<subseteq> set (pool_texts pl)"
      using rotator.exchange_ok [OF assms] by (simp add: pool)
    moreover have "?request = Inr req" using req by simp
    ultimately show ?thesis
      using events req(2) final by (cases picked) (simp_all add: Let_def pick)
  next
    case False
    then have "cn_pool ?res = pl"
      by (auto simp: handle_connection_def Let_def split: sum.splits if_splits)
    with assms events False show ?thesis by (auto simp: Let_def split: sum.split)
  qed
qed

definition demo_env :: conn_env where
  "demo_env = \<lparr>ce_reads = [Chunk (bytes_of (''CONNECT a.b:443 HTTP/1.1'' @ crlf @ crlf))], ce_head_timeout = False,
     ce_expected_auth = None, ce_pick_time = 5, ce_pick_hash = 0, ce_connected = False, ce_in_time = True,
     ce_upstream = \<lparr>w_in = [], w_out = [], w_open = True\<rparr>, ce_established = True, ce_forwarded = True,
     ce_relay = Relayed, ce_report_time = 9\<rparr>"

definition demo_head :: "u8 list \<Rightarrow> head_parse" where
  "demo_head bytes = HeadComplete (length bytes)
     \<lparr>rh_method = Some ''CONNECT'', rh_path = Some ''a.b:443'', rh_headers = []\<rparr>"

lemma demo_pool_ok: "pool_ok demo_pool"
  by (simp add: pool_ok_def demo_pool_def pool_new_def pool_texts_def entry_text_def proxy_new_def
      show_endpoint_inject MAX_POOL_SIZE_def MAX_CONSECUTIVE_FAILURES_def)

text \<open>The upstream of the only proxy does not connect: the failure is reported once, and puts the proxy on hold.\<close>

theorem connection_accounting_witness:
  "let res = handle_connection demo_head (\<lambda>_. None) (\<lambda>_. None) (\<lambda>_. Partial) (\<lambda>s. s) demo_env demo_pool
   in pool_ok (cn_pool res) \<and> set (pool_texts (cn_pool res)) \<subseteq> set (pool_texts demo_pool) \<and>
      length (completed_events (cn_events res)) = 1 \<and> cn_events res \<noteq> []"
  using connection_accounting [OF demo_pool_ok, of demo_head "\<lambda>_. None" "\<lambda>_. None" "\<lambda>_. Partial" "\<lambda>s. s" demo_env]
  by (simp add: Let_def)

text \<open>Without the right credentials a client reaches no upstream: the pool is untouched and the only
  answer is 407.\<close>

theorem unauthorized_touches_nothing:
  assumes "\<not> ce_head_timeout env"
    and "read_request parse_head parse_uri (ce_expected_auth env) (ce_reads env) = Inr req"
    and "\<not> cr_authorized req"
  shows "cn_pool (handle_connection parse_head parse_uri to_uri parse_response b64_encode env pl) = pl \<and>
    cn_sent (handle_connection parse_head parse_uri to_uri parse_response b64_encode env pl) = [RESPONSE_UNAUTHORIZED]"
  using assms by (simp add: handle_connection_def Let_def)

section \<open>Requests\<close>

lemma recv_head_facts:
  "recv_head bytes events = Inr (received, head_end) \<Longrightarrow> find_head_end bytes = None \<Longrightarrow>
   \<exists>chunks lastc. received = bytes @ concat (chunks @ [lastc]) \<and> prefix (map Chunk (chunks @ [lastc])) events \<and>
     [] \<notin> set (chunks @ [lastc]) \<and> find_head_end (bytes @ concat chunks) = None \<and> find_head_end received = Some head_end"
proof (induction events arbitrary: bytes)
  case Nil
  then show ?case by (auto simp: recv_head.simps [of bytes] split: if_splits)
next
  case (Cons e events)
  from Cons.prems obtain b bs where e: "e = Chunk (b # bs)" and l: "length bytes \<le> REQUEST_HEAD_LIMIT"
    by (auto simp: recv_head.simps [of bytes] split: if_splits read_event.splits list.splits)
  show ?case
  proof (cases "find_head_end (bytes @ b # bs)")
    case None
    with Cons.prems e l have "recv_head (bytes @ b # bs) events = Inr (received, head_end)"
      by (simp add: recv_head.simps [of bytes] Let_def)
    from Cons.IH [OF this None] obtain chunks lastc where c: "received = (bytes @ b # bs) @ concat (chunks @ [lastc])"
      "prefix (map Chunk (chunks @ [lastc])) events" "[] \<notin> set (chunks @ [lastc])"
      "find_head_end ((bytes @ b # bs) @ concat chunks) = None" "find_head_end received = Some head_end" by blast
    then show ?thesis using e by (intro exI [of _ "(b # bs) # chunks"] exI [of _ lastc]) simp
  next
    case (Some n)
    with Cons.prems e l have "received = bytes @ b # bs" "n = head_end"
      by (auto simp: recv_head.simps [of bytes] Let_def)
    with Some e Cons.prems(2) show ?thesis by (intro exI [of _ "[]"] exI [of _ "b # bs"]) simp
  qed
qed

text \<open>C29: nothing the client sent is lost or reordered. The server reads just until a blank line ends the
  head; what is forwarded upstream is then, for a plain request, exactly the bytes received, the whole head with
  its \<open>Proxy-Authorization\<close> included, and for a tunnel what follows the CONNECT head, whose
  length is the one the parser gave for these bytes, at most up to the end of the first blank line.\<close>

theorem forwarded_bytes_exact:
  assumes "read_request parse_head parse_uri auth events = Inr req"
  shows "\<exists>chunks lastc head_end consumed head. prefix (map Chunk (chunks @ [lastc])) events \<and>
    find_head_end (concat chunks) = None \<and> find_head_end (concat (chunks @ [lastc])) = Some head_end \<and>
    parse_head (concat (chunks @ [lastc])) = HeadComplete consumed head \<and>
    cr_tunnel req = (rh_method head = Some ''CONNECT'') \<and>
    cr_forward req =
      (if cr_tunnel req then drop (min consumed head_end) (concat (chunks @ [lastc])) else concat (chunks @ [lastc]))"
proof -
  obtain received head_end where r: "recv_head [] events = Inr (received, head_end)"
    using assms by (auto simp: read_request_def outcome_simps)
  from assms r obtain consumed head where h: "parse_head received = HeadComplete consumed head"
    "cr_tunnel req = (rh_method head = Some ''CONNECT'')"
    "cr_forward req = (if cr_tunnel req then drop (min consumed head_end) received else received)"
    by (auto simp: read_request_def outcome_simps Let_def split: head_parse.splits option.splits)
  have "find_head_end [] = None" by (simp add: find_head_end_def CRLF2_def)
  from recv_head_facts [OF r this] obtain chunks lastc where "received = concat (chunks @ [lastc])"
    "prefix (map Chunk (chunks @ [lastc])) events" "find_head_end (concat chunks) = None" "find_head_end received = Some head_end"
    by auto
  with h show ?thesis by blast
qed

lemma demo_tunnel_read:
  "read_request demo_head (\<lambda>_. None) None [Chunk (CRLF2 @ [1, 2])] =
     Inr \<lparr>cr_tunnel = True, cr_method = ''CONNECT'', cr_host = ''a.b'', cr_port = 443, cr_authorized = True, cr_forward = [1, 2]\<rparr>"
  by (simp add: read_request_def demo_head_def recv_head.simps REQUEST_HEAD_LIMIT_def CRLF2_def find_head_end_def
      parse_authority_def rsplit_once_def split_once_def parse_u16_def parse_uint_def is_authorized_def
      is_digit_def dec_val_def digit_val_def trim_brackets_def Let_def)

theorem forwarded_bytes_exact_witness:
  "\<exists>chunks lastc head_end consumed head. prefix (map Chunk (chunks @ [lastc])) [Chunk (CRLF2 @ [1, 2])] \<and>
     demo_head (concat (chunks @ [lastc])) = HeadComplete consumed head \<and>
     [1, 2] = drop (min consumed head_end) (concat (chunks @ [lastc]))"
  using forwarded_bytes_exact [OF demo_tunnel_read] unfolding client_request.simps if_True
  by (elim exE conjE) (intro exI conjI, assumption+)

lemma trim_brackets_plain:
  assumes "s \<noteq> []" and "hd s \<noteq> CHR ''[''" and "last s \<noteq> CHR '']''"
  shows "trim_brackets s = s" and "trim_brackets (CHR ''['' # s @ [CHR '']'']) = s"
proof -
  have d: "dropWhile ((=) CHR ''['') s = s" using assms by (cases s) auto
  have r: "dropWhile ((=) CHR '']'') (rev s) = rev s"
    using assms by (cases s rule: rev_cases) auto
  from d r show "trim_brackets s = s" by (simp add: trim_brackets_def)
  have "dropWhile ((=) CHR ''['') (s @ [CHR '']'']) = s @ [CHR '']'']"
    using assms by (cases s) auto
  with r show "trim_brackets (CHR ''['' # s @ [CHR '']'']) = s" by (simp add: trim_brackets_def)
qed

text \<open>The authority the rotating endpoint writes for an upstream is one it reads back itself to the same
  host and port, names, IPv4 and IPv6 addresses alike.\<close>

theorem authority_roundtrip:
  assumes "host \<noteq> []" and "hd host \<noteq> CHR ''[''" and "last host \<noteq> CHR '']''"
  shows "parse_authority (authority_text host port) = Inr (host, port)"
proof -
  have no: "CHR '':'' \<notin> set (show_nat (unat port))"
    using not_digit_show_nat [of "CHR '':''"] by (simp add: is_digit_def)
  have split: "rsplit_once (CHR '':'') (h @ CHR '':'' # show_nat (unat port)) = Some (h, show_nat (unat port))" for h
    using no by (simp add: rsplit_once_eq_Some)
  show ?thesis
  proof (cases "CHR '':'' \<in> set host")
    case True
    then have "authority_text host port = (CHR ''['' # host @ [CHR '']'']) @ CHR '':'' # show_nat (unat port)"
      by (simp add: authority_text_def)
    then have "rsplit_once (CHR '':'') (authority_text host port) =
        Some (CHR ''['' # host @ [CHR '']''], show_nat (unat port))"
      using split by metis
    with trim_brackets_plain(2) [OF assms] show ?thesis by (simp add: parse_authority_def u16_dec.parse_pretty)
  next
    case False
    then have "rsplit_once (CHR '':'') (authority_text host port) = Some (host, show_nat (unat port))"
      using split [of host] by (simp add: authority_text_def)
    with trim_brackets_plain(1) [OF assms] show ?thesis by (simp add: parse_authority_def u16_dec.parse_pretty)
  qed
qed

theorem authority_roundtrip_witness:
  "parse_authority (authority_text ''::1'' 443) = Inr (''::1'', 443)"
  by (rule authority_roundtrip) simp_all

section \<open>Which handshake\<close>

text \<open>The upstream is addressed by its first validated SOCKS or HTTPS protocol; without one, by the first
  protocol it was merely advertised with, even when it has been validated as an HTTP proxy.\<close>

theorem upstream_protocol_choice:
  "(\<forall>q. find speaks_tunnel (map pt_protocol (proxy_types p)) = Some q \<longrightarrow> upstream_protocol p = Some q) \<and>
   ((\<forall>pt \<in> set (proxy_types p). \<not> speaks_tunnel (pt_protocol pt)) \<longrightarrow>
      upstream_protocol p = (if expected_types p = [] then None else Some (hd (expected_types p))))"
proof -
  have "(\<forall>pt \<in> set (proxy_types p). \<not> speaks_tunnel (pt_protocol pt)) \<Longrightarrow>
      find speaks_tunnel (map pt_protocol (proxy_types p)) = None"
    by (auto simp: find_None_iff)
  then show ?thesis by (auto simp: upstream_protocol_def split: list.split)
qed

theorem upstream_protocol_choice_witness:
  "upstream_protocol ((proxy_new (Ipv4 1 2 3 4) 80)\<lparr>proxy_types := [proxy_type_checked (Fin 0) (Http Elite)],
     expected_types := [Socks5, Http Unknown]\<rparr>) = Some Socks5"
  using upstream_protocol_choice [of "(proxy_new (Ipv4 1 2 3 4) 80)\<lparr>proxy_types := [proxy_type_checked (Fin 0) (Http Elite)],
     expected_types := [Socks5, Http Unknown]\<rparr>"]
  by (simp add: proxy_type_checked_def speaks_tunnel_def)

end
