(* ===== verification/Quotas.thy ===== *)
theory Quotas
  imports Proxy_Model
begin

text \<open>
  The per-type output quotas of \<open>flx find\<close> (\<open>src/cli/quotas.rs\<close>): the token syntax
  \<open>TYPE\<close>, \<open>TYPE=n\<close> and \<open>A+B\<close>, and the enforcer that counts what has been emitted. The
  hit counters are a list indexed like the quotas; that no index is out of range is
  part of the enforcer's invariant.
\<close>

section \<open>Tokens\<close>

record type_quota =
  tq_protocol :: protocol
  tq_quota :: "nat option"

definition tq_uncapped :: "protocol \<Rightarrow> type_quota" where
  "tq_uncapped p = \<lparr>tq_protocol = p, tq_quota = None\<rparr>"

definition parse_single_type :: "string \<Rightarrow> type_quota option" where
  "parse_single_type v =
     (if CHR ''+'' \<in> set v \<or> CHR ''('' \<in> set v \<or> CHR '')'' \<in> set v then None
      else case rsplit_once (CHR ''='') v of
        Some (before, after) \<Rightarrow>
          if before = [] \<or> after = [] \<or> CHR ''='' \<in> set after then None
          else (case parse_usize after of
                  None \<Rightarrow> None
                | Some quota \<Rightarrow>
                    if quota = 0 then None
                    else map_option (\<lambda>p. \<lparr>tq_protocol = p, tq_quota = Some quota\<rparr>) (parse_protocol_opt before))
      | None \<Rightarrow> map_option tq_uncapped (parse_protocol_opt v))"

text \<open>The loop over the parts of a group; \<open>any\<close> is the flag it carries.\<close>

fun group_valid :: "bool \<Rightarrow> string list \<Rightarrow> bool" where
  "group_valid any [] = any"
| "group_valid any (part # parts) =
     (if part = [] then False
      else case parse_single_type part of
        Some q \<Rightarrow> if tq_quota q = None then group_valid True parts else False
      | None \<Rightarrow> False)"

definition is_valid_type_value :: "string \<Rightarrow> bool" where
  "is_valid_type_value v =
     (if CHR ''+'' \<in> set v
      then (if CHR ''='' \<in> set v then False else group_valid False (split_by ((=) CHR ''+'') v))
      else parse_single_type v \<noteq> None)"

text \<open>
  Splitting the tokens of the command line. The result carries the values reported as
  invalid, in order; the code prints them.
\<close>

record type_requests =
  tr_quotas :: "type_quota list"
  tr_groups :: "protocol list list"
  tr_reported :: "string list"

definition split_group :: "string \<Rightarrow> type_requests \<Rightarrow> type_requests" where
  "split_group token r =
     (let pieces = split_by ((=) CHR ''+'') token;
          parts = List.map_filter parse_protocol_opt pieces;
          r1 = r\<lparr>tr_reported := tr_reported r @ filter (\<lambda>s. parse_protocol_opt s = None) pieces\<rparr>
      in case parts of
        [] \<Rightarrow> r1
      | [p] \<Rightarrow> r1\<lparr>tr_quotas := tr_quotas r1 @ [tq_uncapped p]\<rparr>
      | _ \<Rightarrow> r1\<lparr>tr_groups := tr_groups r1 @ [dedup_seen [] parts]\<rparr>)"

definition split_token :: "string \<Rightarrow> type_requests \<Rightarrow> type_requests" where
  "split_token token r =
     (if CHR ''+'' \<in> set token
      then (if CHR ''='' \<in> set token then r\<lparr>tr_reported := tr_reported r @ [token]\<rparr> else split_group token r)
      else case parse_single_type token of
        Some q \<Rightarrow> r\<lparr>tr_quotas := tr_quotas r @ [q]\<rparr>
      | None \<Rightarrow> r\<lparr>tr_reported := tr_reported r @ [token]\<rparr>)"

definition split_type_requests :: "string list \<Rightarrow> type_requests" where
  "split_type_requests tokens =
     fold split_token tokens \<lparr>tr_quotas = [], tr_groups = [], tr_reported = []\<rparr>"

section \<open>Matching\<close>

definition same_family :: "protocol \<Rightarrow> protocol \<Rightarrow> bool" where
  "same_family a b =
     (case (a, b) of
        (Http _, Http _) \<Rightarrow> True
      | (Https _, Https _) \<Rightarrow> True
      | (Connect m, Connect n) \<Rightarrow> m = n
      | (a, b) \<Rightarrow> a = b)"

definition protocol_matches :: "protocol \<Rightarrow> protocol \<Rightarrow> bool" where
  "protocol_matches requested candidate =
     (case (requested, candidate) of
        (Http a, Http b) \<Rightarrow> a = Unknown \<or> b = Unknown \<or> a = b
      | (Https a, Https b) \<Rightarrow> a = Unknown \<or> b = Unknown \<or> a = b
      | (Connect a, Connect b) \<Rightarrow> a = b
      | (r, c) \<Rightarrow> r = c)"

definition carried_types :: "proxy \<Rightarrow> protocol list" where
  "carried_types p = (if proxy_types p = [] then expected_types p else map pt_protocol (proxy_types p))"

lemma protocol_matches_family: "protocol_matches r c \<Longrightarrow> same_family r c"
  by (cases r; cases c) (auto simp: protocol_matches_def same_family_def)

lemma same_family_refl [simp]: "same_family a a"
  by (cases a) (auto simp: same_family_def)

lemma same_family_sym: "same_family a b \<Longrightarrow> same_family b a"
  by (cases a; cases b) (auto simp: same_family_def)

lemma same_family_trans: "same_family a b \<Longrightarrow> same_family b c \<Longrightarrow> same_family a c"
  by (cases a; cases b; cases c) (auto simp: same_family_def)

section \<open>The enforcer\<close>

record enforcer =
  qe_quotas :: "type_quota list"
  qe_hits :: "nat list"
  qe_has_groups :: bool

definition enforcer_new :: "type_quota list \<Rightarrow> enforcer" where
  "enforcer_new qs = \<lparr>qe_quotas = qs, qe_hits = replicate (length qs) 0, qe_has_groups = False\<rparr>"

definition set_has_groups :: "bool \<Rightarrow> enforcer \<Rightarrow> enforcer" where
  "set_has_groups b e = e\<lparr>qe_has_groups := b\<rparr>"

definition has_any_quota :: "enforcer \<Rightarrow> bool" where
  "has_any_quota e = list_ex (\<lambda>q. tq_quota q \<noteq> None) (qe_quotas e)"

definition has_unfilled :: "enforcer \<Rightarrow> bool" where
  "has_unfilled e =
     list_ex (\<lambda>(i, q). case tq_quota q of Some n \<Rightarrow> qe_hits e ! i < n | None \<Rightarrow> False)
       (enumerate 0 (qe_quotas e))"

definition has_uncapped :: "enforcer \<Rightarrow> bool" where
  "has_uncapped e = list_ex (\<lambda>q. tq_quota q = None) (qe_quotas e)"

definition is_satisfied :: "enforcer \<Rightarrow> bool" where
  "is_satisfied e = (has_any_quota e \<and> \<not> has_unfilled e \<and> \<not> has_uncapped e \<and> \<not> qe_has_groups e)"

definition shares_family :: "type_quota list \<Rightarrow> protocol list \<Rightarrow> bool" where
  "shares_family qs carried = list_ex (\<lambda>q. list_ex (same_family (tq_protocol q)) carried) qs"

definition has_room :: "enforcer \<Rightarrow> nat \<Rightarrow> bool" where
  "has_room e i = (case tq_quota (qe_quotas e ! i) of None \<Rightarrow> True | Some n \<Rightarrow> qe_hits e ! i < n)"

definition consumed :: "enforcer \<Rightarrow> protocol list \<Rightarrow> nat list" where
  "consumed e carried =
     filter (\<lambda>i. list_ex (protocol_matches (tq_protocol (qe_quotas e ! i))) carried \<and> has_room e i)
       [0..<length (qe_quotas e)]"

definition count_hit :: "enforcer \<Rightarrow> nat \<Rightarrow> nat list \<Rightarrow> nat list" where
  "count_hit e i hits = (if tq_quota (qe_quotas e ! i) \<noteq> None then hits[i := hits ! i + 1] else hits)"

definition should_emit :: "proxy \<Rightarrow> enforcer \<Rightarrow> bool \<times> enforcer" where
  "should_emit p e =
     (let carried = carried_types p
      in if \<not> shares_family (qe_quotas e) carried then (True, e)
         else (let consume = consumed e carried
               in (consume \<noteq> [], e\<lparr>qe_hits := fold (count_hit e) consume (qe_hits e)\<rparr>)))"

fun closed_loop :: "enforcer \<Rightarrow> protocol \<Rightarrow> bool \<Rightarrow> (nat \<times> type_quota) list \<Rightarrow> bool" where
  "closed_loop e requested any [] = any"
| "closed_loop e requested any ((i, q) # rest) =
     (if same_family (tq_protocol q) requested
      then (case tq_quota q of
              Some n \<Rightarrow> if qe_hits e ! i < n then False else closed_loop e requested True rest
            | None \<Rightarrow> False)
      else closed_loop e requested any rest)"

definition is_protocol_closed :: "enforcer \<Rightarrow> protocol \<Rightarrow> bool" where
  "is_protocol_closed e requested = closed_loop e requested False (enumerate 0 (qe_quotas e))"

text \<open>The proxies a stream lets through, one after the other.\<close>

fun emit_all :: "proxy list \<Rightarrow> enforcer \<Rightarrow> proxy list \<times> enforcer" where
  "emit_all [] e = ([], e)"
| "emit_all (p # ps) e =
     (case should_emit p e of
        (b, e1) \<Rightarrow> (case emit_all ps e1 of (out, e2) \<Rightarrow> (if b then p # out else out, e2)))"

section \<open>The invariant\<close>

definition enforcer_ok :: "enforcer \<Rightarrow> bool" where
  "enforcer_ok e \<longleftrightarrow> length (qe_hits e) = length (qe_quotas e) \<and>
     (\<forall>i < length (qe_quotas e). case tq_quota (qe_quotas e ! i) of
        None \<Rightarrow> qe_hits e ! i = 0 | Some n \<Rightarrow> qe_hits e ! i \<le> n)"

lemma enforcer_ok_new: "enforcer_ok (enforcer_new qs)"
  by (simp add: enforcer_ok_def enforcer_new_def split: option.split)

lemma consumed_facts:
  "distinct (consumed e carried)"
  "i \<in> set (consumed e carried) \<longleftrightarrow> i < length (qe_quotas e) \<and>
     list_ex (protocol_matches (tq_protocol (qe_quotas e ! i))) carried \<and> has_room e i"
  by (auto simp: consumed_def)

lemma fold_count_hit:
  assumes "distinct is" and "\<forall>i \<in> set is. i < length hits"
  shows "length (fold (count_hit e) is hits) = length hits \<and>
    (\<forall>i < length hits. fold (count_hit e) is hits ! i =
       hits ! i + (if i \<in> set is \<and> tq_quota (qe_quotas e ! i) \<noteq> None then 1 else 0))"
  using assms
proof (induction "is" arbitrary: hits)
  case Nil
  then show ?case by simp
next
  case (Cons j js)
  have "length (count_hit e j hits) = length hits" by (simp add: count_hit_def)
  with Cons.IH [of "count_hit e j hits"] Cons.prems show ?case
    by (auto simp: count_hit_def nth_list_update)
qed

lemma should_emit_cases:
  assumes "should_emit p e = (b, e')"
  obtains (free) "\<not> shares_family (qe_quotas e) (carried_types p)" and "b" and "e' = e"
  | (bound) "shares_family (qe_quotas e) (carried_types p)" and "b = (consumed e (carried_types p) \<noteq> [])"
      and "e' = e\<lparr>qe_hits := fold (count_hit e) (consumed e (carried_types p)) (qe_hits e)\<rparr>"
  using assms by (auto simp: should_emit_def Let_def split: if_splits)

lemma should_emit_step:
  assumes "enforcer_ok e" and "should_emit p e = (b, e')"
  shows "enforcer_ok e' \<and> qe_quotas e' = qe_quotas e \<and> qe_has_groups e' = qe_has_groups e \<and>
    (\<forall>i < length (qe_quotas e). qe_hits e ! i \<le> qe_hits e' ! i)"
  using assms(2)
proof (cases rule: should_emit_cases)
  case free
  with assms show ?thesis by simp
next
  case bound
  have len: "length (qe_hits e) = length (qe_quotas e)" using assms(1) by (simp add: enforcer_ok_def)
  with fold_count_hit [OF consumed_facts(1) [of e "carried_types p"], of "qe_hits e" e] consumed_facts(2)
  have f: "length (qe_hits e') = length (qe_quotas e)"
    "\<And>i. i < length (qe_quotas e) \<Longrightarrow> qe_hits e' ! i = qe_hits e ! i +
       (if i \<in> set (consumed e (carried_types p)) \<and> tq_quota (qe_quotas e ! i) \<noteq> None then 1 else 0)"
    using bound(3) by auto
  have "case tq_quota (qe_quotas e ! i) of None \<Rightarrow> qe_hits e' ! i = 0 | Some n \<Rightarrow> qe_hits e' ! i \<le> n"
    if "i < length (qe_quotas e)" for i
    using that f(2) [OF that] assms(1)
    by (auto simp: enforcer_ok_def consumed_facts(2) has_room_def split: option.splits)
  moreover from bound(3) have "qe_quotas e' = qe_quotas e" "qe_has_groups e' = qe_has_groups e" by simp_all
  ultimately show ?thesis using f by (simp add: enforcer_ok_def)
qed

lemma emit_all_step:
  "enforcer_ok e \<Longrightarrow> emit_all ps e = (out, e') \<Longrightarrow>
     enforcer_ok e' \<and> qe_quotas e' = qe_quotas e \<and> qe_has_groups e' = qe_has_groups e \<and>
     (\<forall>i < length (qe_quotas e). qe_hits e ! i \<le> qe_hits e' ! i)"
proof (induction ps arbitrary: e out)
  case Nil
  then show ?case by simp
next
  case (Cons p ps)
  obtain b e1 where s: "should_emit p e = (b, e1)" by (cases "should_emit p e")
  obtain out1 where r: "emit_all ps e1 = (out1, e')"
    using Cons.prems(2) s by (auto split: prod.splits)
  from should_emit_step [OF Cons.prems(1) s] have 1: "enforcer_ok e1" "qe_quotas e1 = qe_quotas e"
    "qe_has_groups e1 = qe_has_groups e" "\<forall>i < length (qe_quotas e). qe_hits e ! i \<le> qe_hits e1 ! i" by auto
  with Cons.IH [OF 1(1) r] show ?case by (auto intro: le_trans)
qed

section \<open>Bounds\<close>

text \<open>The quotas a proxy counts toward.\<close>

definition matching :: "type_quota list \<Rightarrow> proxy \<Rightarrow> nat set" where
  "matching qs p = {i. i < length qs \<and> list_ex (protocol_matches (tq_protocol (qs ! i))) (carried_types p)}"

definition charged :: "type_quota list \<Rightarrow> nat set \<Rightarrow> proxy \<Rightarrow> bool" where
  "charged qs I p \<longleftrightarrow> shares_family qs (carried_types p) \<and> matching qs p \<subseteq> I"

lemma should_emit_charge:
  assumes "enforcer_ok e" and "should_emit p e = (b, e')" and "charged (qe_quotas e) I p" and b
    and "\<forall>i \<in> I. i < length (qe_quotas e) \<and> tq_quota (qe_quotas e ! i) \<noteq> None"
  shows "Suc (\<Sum>i \<in> I. qe_hits e ! i) \<le> (\<Sum>i \<in> I. qe_hits e' ! i)"
proof -
  have fin: "finite I" using assms(5) by (intro finite_subset [of I "{..<length (qe_quotas e)}"]) auto
  from assms(2) have c: "consumed e (carried_types p) \<noteq> []"
    and e': "qe_hits e' = fold (count_hit e) (consumed e (carried_types p)) (qe_hits e)"
    using assms(3,4) by (cases rule: should_emit_cases; simp add: charged_def)+
  then obtain j where j: "j \<in> set (consumed e (carried_types p))" by (meson list.set_sel(1))
  then have jI: "j \<in> I" using assms(3) by (auto simp: consumed_facts(2) charged_def matching_def)
  have len: "length (qe_hits e) = length (qe_quotas e)" using assms(1) by (simp add: enforcer_ok_def)
  with fold_count_hit [OF consumed_facts(1) [of e "carried_types p"], of "qe_hits e" e] consumed_facts(2)
  have f: "\<And>i. i < length (qe_quotas e) \<Longrightarrow> qe_hits e' ! i = qe_hits e ! i +
       (if i \<in> set (consumed e (carried_types p)) \<and> tq_quota (qe_quotas e ! i) \<noteq> None then 1 else 0)"
    using e' by auto
  have "(\<Sum>i \<in> I. qe_hits e ! i) < (\<Sum>i \<in> I. qe_hits e' ! i)"
  proof (rule sum_strict_mono_ex1 [OF fin])
    show "\<forall>i \<in> I. qe_hits e ! i \<le> qe_hits e' ! i" using f assms(5) by auto
    show "\<exists>i \<in> I. qe_hits e ! i < qe_hits e' ! i" using f assms(5) j jI by (intro bexI [of _ j]) auto
  qed
  then show ?thesis by simp
qed

lemma emit_all_charge:
  "enforcer_ok e \<Longrightarrow> emit_all ps e = (out, e') \<Longrightarrow>
   \<forall>i \<in> I. i < length (qe_quotas e) \<and> tq_quota (qe_quotas e ! i) \<noteq> None \<Longrightarrow>
   length (filter (charged (qe_quotas e) I) out) + (\<Sum>i \<in> I. qe_hits e ! i) \<le> (\<Sum>i \<in> I. qe_hits e' ! i)"
proof (induction ps arbitrary: e out)
  case Nil
  then show ?case by simp
next
  case (Cons p ps)
  obtain b e1 where s: "should_emit p e = (b, e1)" by (cases "should_emit p e")
  obtain out1 where r: "emit_all ps e1 = (out1, e')" and out: "out = (if b then p # out1 else out1)"
    using Cons.prems(2) s by (auto split: prod.splits)
  from should_emit_step [OF Cons.prems(1) s] have 1: "enforcer_ok e1" "qe_quotas e1 = qe_quotas e"
    and mono: "\<forall>i < length (qe_quotas e). qe_hits e ! i \<le> qe_hits e1 ! i" by auto
  have "(\<Sum>i \<in> I. qe_hits e ! i) \<le> (\<Sum>i \<in> I. qe_hits e1 ! i)"
    using mono Cons.prems(3) by (intro sum_mono) auto
  moreover have "b \<Longrightarrow> charged (qe_quotas e) I p \<Longrightarrow>
      Suc (\<Sum>i \<in> I. qe_hits e ! i) \<le> (\<Sum>i \<in> I. qe_hits e1 ! i)"
    using should_emit_charge [OF Cons.prems(1) s] Cons.prems(3) by blast
  moreover have "length (filter (charged (qe_quotas e) I) out1) + (\<Sum>i \<in> I. qe_hits e1 ! i) \<le> (\<Sum>i \<in> I. qe_hits e' ! i)"
    using Cons.IH [OF 1(1) r] Cons.prems(3) 1(2) by simp
  ultimately show ?case using out by auto
qed

text \<open>
  The rule of the enforcer without its counters: a proxy passes when it shares no family with a
  quota, or when it matches a quota that is uncapped or that fewer proxies matched before than its cap.
\<close>

definition lets_through :: "type_quota list \<Rightarrow> proxy list \<Rightarrow> proxy \<Rightarrow> bool" where
  "lets_through qs earlier p \<longleftrightarrow> \<not> shares_family qs (carried_types p) \<or>
     (\<exists>i \<in> matching qs p. case tq_quota (qs ! i) of None \<Rightarrow> True
        | Some n \<Rightarrow> length (filter (\<lambda>q. i \<in> matching qs q) earlier) < n)"

definition quota_counts :: "type_quota list \<Rightarrow> proxy list \<Rightarrow> enforcer \<Rightarrow> bool" where
  "quota_counts qs earlier e \<longleftrightarrow> qe_quotas e = qs \<and> length (qe_hits e) = length qs \<and>
     (\<forall>i < length qs. qe_hits e ! i = (case tq_quota (qs ! i) of None \<Rightarrow> 0
        | Some n \<Rightarrow> min n (length (filter (\<lambda>q. i \<in> matching qs q) earlier))))"

lemma no_family_no_match: "\<not> shares_family qs (carried_types p) \<Longrightarrow> matching qs p = {}"
  by (auto simp: matching_def shares_family_def list_ex_iff dest!: protocol_matches_family)

lemma counts_room:
  "quota_counts qs earlier e \<Longrightarrow> i < length qs \<Longrightarrow>
   has_room e i = (case tq_quota (qs ! i) of None \<Rightarrow> True | Some n \<Rightarrow> length (filter (\<lambda>q. i \<in> matching qs q) earlier) < n)"
  by (auto simp: quota_counts_def has_room_def split: option.split)

lemma counts_step:
  assumes "quota_counts qs earlier e" and "should_emit p e = (b, e')"
  shows "b = lets_through qs earlier p \<and> quota_counts qs (earlier @ [p]) e'"
  using assms(2)
proof (cases rule: should_emit_cases)
  case free
  with assms(1) have "matching qs p = {}" by (simp add: quota_counts_def no_family_no_match)
  with free assms(1) show ?thesis by (simp add: quota_counts_def lets_through_def split: option.split)
next
  case bound
  from assms(1) have q: "qe_quotas e = qs" "length (qe_hits e) = length qs" by (simp_all add: quota_counts_def)
  have c: "i \<in> set (consumed e (carried_types p)) \<longleftrightarrow> i \<in> matching qs p \<and> has_room e i" for i
    by (auto simp: consumed_facts(2) matching_def q)
  have "consumed e (carried_types p) \<noteq> [] \<longleftrightarrow> (\<exists>i \<in> matching qs p. has_room e i)"
    using c by (metis ex_in_conv set_empty)
  moreover have "(\<exists>i \<in> matching qs p. has_room e i) \<longleftrightarrow> (\<exists>i \<in> matching qs p. case tq_quota (qs ! i) of None \<Rightarrow> True
        | Some n \<Rightarrow> length (filter (\<lambda>q. i \<in> matching qs q) earlier) < n)"
    by (intro bex_cong refl counts_room [OF assms(1)]) (simp add: matching_def)
  ultimately have b: "b = lets_through qs earlier p" using bound(1,2) by (simp add: lets_through_def q)
  note f = fold_count_hit [OF consumed_facts(1) [of e "carried_types p"], of "qe_hits e" e]
  have f: "length (qe_hits e') = length qs \<and> (\<forall>i < length qs. qe_hits e' ! i = qe_hits e ! i +
       (if i \<in> matching qs p \<and> has_room e i \<and> tq_quota (qs ! i) \<noteq> None then 1 else 0))"
    using f consumed_facts(2) bound(3) by (auto simp: q matching_def)
  have "qe_hits e' ! i = (case tq_quota (qs ! i) of None \<Rightarrow> 0
        | Some n \<Rightarrow> min n (length (filter (\<lambda>q. i \<in> matching qs q) (earlier @ [p]))))" if "i < length qs" for i
    using f counts_room [OF assms(1) that] assms(1) that by (auto simp: quota_counts_def split: option.splits)
  with f bound(3) b q show ?thesis by (simp add: quota_counts_def)
qed

lemma emit_all_exact:
  "quota_counts qs earlier e \<Longrightarrow>
   fst (emit_all ps e) =
     map snd (filter (\<lambda>(k, p). lets_through qs (take k (earlier @ ps)) p) (enumerate (length earlier) ps))"
proof (induction ps arbitrary: e earlier)
  case (Cons p ps)
  obtain b e1 where s: "should_emit p e = (b, e1)" by (cases "should_emit p e")
  from counts_step [OF Cons.prems s] have "b = lets_through qs earlier p" "quota_counts qs (earlier @ [p]) e1" by auto
  moreover obtain out e2 where "emit_all ps e1 = (out, e2)" by fastforce
  ultimately show ?case using Cons.IH [of "earlier @ [p]" e1] s by simp
qed simp

lemma charged_bound:
  assumes "\<forall>i \<in> I. i < length qs \<and> tq_quota (qs ! i) = Some (cap i)"
  shows "length (filter (charged qs I) (fst (emit_all ps (enforcer_new qs)))) \<le> (\<Sum>i \<in> I. cap i)"
proof -
  obtain out e' where r: "emit_all ps (enforcer_new qs) = (out, e')" by (cases "emit_all ps (enforcer_new qs)")
  have q: "qe_quotas (enforcer_new qs) = qs" by (simp add: enforcer_new_def)
  from emit_all_step [OF enforcer_ok_new r] q have e': "enforcer_ok e'" "qe_quotas e' = qs" by auto
  have "length (filter (charged qs I) out) \<le> (\<Sum>i \<in> I. qe_hits e' ! i)"
    using emit_all_charge [OF enforcer_ok_new r, of I] assms q by simp
  also have "\<dots> \<le> (\<Sum>i \<in> I. cap i)"
    using e' assms by (intro sum_mono) (auto simp: enforcer_ok_def split: option.splits)
  finally show ?thesis using r by simp
qed

text \<open>C35: what a list of quotas lets through, exactly: a proxy passes when it shares no family with a quota, or
  when it matches an uncapped quota or one that fewer earlier proxies matched than its cap. So the
  proxies let through that match no quota outside a set of capped ones number at most the sum of
  its caps; a proxy that matches a full quota and another one with room is still let through,
  beyond the cap of the full one.\<close>

theorem quotas_bound_output:
  "fst (emit_all ps (enforcer_new qs)) =
     map snd (filter (\<lambda>(k, p). lets_through qs (take k ps) p) (enumerate 0 ps)) \<and>
   (\<forall>I cap. (\<forall>i \<in> I. i < length qs \<and> tq_quota (qs ! i) = Some (cap i)) \<longrightarrow>
      length (filter (charged qs I) (fst (emit_all ps (enforcer_new qs)))) \<le> (\<Sum>i \<in> I. cap i))"
proof -
  have "quota_counts qs [] (enforcer_new qs)" by (simp add: quota_counts_def enforcer_new_def split: option.split)
  from emit_all_exact [OF this, of ps] charged_bound [of _ qs _ ps] show ?thesis by auto
qed

definition demo_quotas :: "type_quota list" where
  "demo_quotas = [\<lparr>tq_protocol = Http Unknown, tq_quota = Some 1\<rparr>, tq_uncapped Socks5]"

definition demo_proxies :: "proxy list" where
  "demo_proxies = [with_expected_types (Ipv4 1 1 1 1) 80 [Http Elite],
     with_expected_types (Ipv4 2 2 2 2) 80 [Socks5], with_expected_types (Ipv4 3 3 3 3) 80 [Http Unknown]]"

text \<open>With \<open>HTTP=1\<close> and \<open>SOCKS5\<close> the second plain HTTP proxy is refused; but one that carries both types
  passes although the cap of HTTP is reached, and two HTTP proxies are let through.\<close>

definition mixed_proxy :: proxy where
  "mixed_proxy = with_expected_types (Ipv4 4 4 4 4) 80 [Http Elite, Socks5]"

theorem quotas_bound_output_witness:
  "length (filter (charged demo_quotas {0}) (fst (emit_all demo_proxies (enforcer_new demo_quotas)))) \<le> 1 \<and>
   fst (emit_all [hd demo_proxies, hd demo_proxies, mixed_proxy] (enforcer_new demo_quotas)) = [hd demo_proxies, mixed_proxy]"
proof
  show "length (filter (charged demo_quotas {0}) (fst (emit_all demo_proxies (enforcer_new demo_quotas)))) \<le> 1"
    using conjunct2 [OF quotas_bound_output [of demo_proxies demo_quotas], rule_format, of "{0}" "\<lambda>_. 1"]
    by (simp add: demo_quotas_def)
  have m: "matching demo_quotas (hd demo_proxies) = {0}" "matching demo_quotas mixed_proxy = {0, 1}"
    by (auto simp: matching_def demo_quotas_def demo_proxies_def mixed_proxy_def tq_uncapped_def carried_types_def
        with_expected_types_def proxy_new_def protocol_matches_def less_Suc_eq)
  have f: "shares_family demo_quotas (carried_types (hd demo_proxies))" "shares_family demo_quotas (carried_types mixed_proxy)"
    by (simp_all add: shares_family_def demo_quotas_def demo_proxies_def mixed_proxy_def tq_uncapped_def carried_types_def
        with_expected_types_def proxy_new_def same_family_def)
  have q: "tq_quota (demo_quotas ! 0) = Some 1" "tq_quota (demo_quotas ! Suc 0) = None"
    by (simp_all add: demo_quotas_def tq_uncapped_def)
  show "fst (emit_all [hd demo_proxies, hd demo_proxies, mixed_proxy] (enforcer_new demo_quotas)) = [hd demo_proxies, mixed_proxy]"
    using quotas_bound_output [of "[hd demo_proxies, hd demo_proxies, mixed_proxy]" demo_quotas]
    by (simp add: lets_through_def m f q)
qed

section \<open>Closed families and the end of the stream\<close>

lemma closed_loop_iff:
  "closed_loop e r any qs \<longleftrightarrow>
     (any \<or> (\<exists>(i, q) \<in> set qs. same_family (tq_protocol q) r)) \<and>
     (\<forall>(i, q) \<in> set qs. same_family (tq_protocol q) r \<longrightarrow>
        (case tq_quota q of Some n \<Rightarrow> n \<le> qe_hits e ! i | None \<Rightarrow> False))"
  by (induction e r any qs rule: closed_loop.induct) (auto split: option.splits)

lemma enum_ex: "(\<exists>(i, q) \<in> set (enumerate 0 qs). P i q) \<longleftrightarrow> (\<exists>i < length qs. P i (qs ! i))"
  by (force simp: in_set_enumerate_eq)

lemma enum_all: "(\<forall>(i, q) \<in> set (enumerate 0 qs). P i q) \<longleftrightarrow> (\<forall>i < length qs. P i (qs ! i))"
  by (force simp: in_set_enumerate_eq)

lemma not_has_room:
  "\<not> has_room e i \<longleftrightarrow> (case tq_quota (qe_quotas e ! i) of Some n \<Rightarrow> n \<le> qe_hits e ! i | None \<Rightarrow> False)"
  by (auto simp: has_room_def split: option.splits)

lemma is_protocol_closed_iff:
  "is_protocol_closed e r \<longleftrightarrow>
     (\<exists>i < length (qe_quotas e). same_family (tq_protocol (qe_quotas e ! i)) r) \<and>
     (\<forall>i < length (qe_quotas e). same_family (tq_protocol (qe_quotas e ! i)) r \<longrightarrow> \<not> has_room e i)"
  unfolding is_protocol_closed_def closed_loop_iff enum_ex enum_all not_has_room by simp

lemma emitted_had_room:
  assumes "should_emit p e = (True, e')" and "shares_family (qe_quotas e) (carried_types p)"
  obtains i where "i < length (qe_quotas e)" and "has_room e i"
    and "list_ex (protocol_matches (tq_protocol (qe_quotas e ! i))) (carried_types p)"
proof -
  from assms have "consumed e (carried_types p) \<noteq> []"
    by (auto simp: should_emit_def Let_def)
  then obtain i where "i \<in> set (consumed e (carried_types p))" by (meson list.set_sel(1))
  with that show thesis by (auto simp: consumed_facts(2))
qed

lemma has_room_mono:
  "qe_quotas e' = qe_quotas e \<Longrightarrow> \<forall>i < length (qe_quotas e). qe_hits e ! i \<le> qe_hits e' ! i \<Longrightarrow>
   i < length (qe_quotas e) \<Longrightarrow> has_room e' i \<Longrightarrow> has_room e i"
  by (auto simp: has_room_def split: option.splits intro: le_less_trans)

lemma emit_all_member:
  "enforcer_ok e \<Longrightarrow> p \<in> set (fst (emit_all ps e)) \<Longrightarrow>
   \<exists>e1 e2. should_emit p e1 = (True, e2) \<and> enforcer_ok e1 \<and> qe_quotas e1 = qe_quotas e \<and>
     (\<forall>i < length (qe_quotas e). has_room e1 i \<longrightarrow> has_room e i)"
proof (induction ps arbitrary: e)
  case Nil
  then show ?case by simp
next
  case (Cons p' ps)
  obtain b e1 where s: "should_emit p' e = (b, e1)" by (cases "should_emit p' e")
  from should_emit_step [OF Cons.prems(1) s] have 1: "enforcer_ok e1" "qe_quotas e1 = qe_quotas e"
    and mono: "\<forall>i < length (qe_quotas e). qe_hits e ! i \<le> qe_hits e1 ! i" by auto
  show ?case
  proof (cases "p = p' \<and> b")
    case True
    then have "should_emit p e = (True, e1)" using s by simp
    with Cons.prems(1) show ?thesis by blast
  next
    case False
    with Cons.prems(2) s have "p \<in> set (fst (emit_all ps e1))" by (auto split: prod.splits if_splits)
    from Cons.IH [OF 1(1) this] 1(2) mono show ?thesis using has_room_mono by metis
  qed
qed

text \<open>When the enforcer reports a type as closed, probing for it is pointless for good: no proxy
  that carries only types of that family is let through any more.\<close>

theorem closed_family_stays_closed:
  assumes "enforcer_ok e" and "is_protocol_closed e requested" and "p \<in> set (fst (emit_all ps e))"
  shows "carried_types p = [] \<or> (\<exists>c \<in> set (carried_types p). \<not> same_family requested c)"
proof (rule ccontr)
  assume neg: "\<not> (carried_types p = [] \<or> (\<exists>c \<in> set (carried_types p). \<not> same_family requested c))"
  then obtain c where c: "c \<in> set (carried_types p)" by (meson list.set_sel(1))
  from emit_all_member [OF assms(1,3)] obtain e1 e2 where
    e1: "should_emit p e1 = (True, e2)" "qe_quotas e1 = qe_quotas e"
      "\<forall>i < length (qe_quotas e). has_room e1 i \<longrightarrow> has_room e i" by blast
  from assms(2) obtain k where k: "k < length (qe_quotas e)" "same_family (tq_protocol (qe_quotas e ! k)) requested"
    by (auto simp: is_protocol_closed_iff)
  have "same_family (tq_protocol (qe_quotas e ! k)) c" using k(2) neg c same_family_trans by blast
  with k(1) c have "shares_family (qe_quotas e1) (carried_types p)"
    by (auto simp: shares_family_def list_ex_iff e1(2) intro!: bexI [of _ "qe_quotas e ! k"])
  from emitted_had_room [OF e1(1) this] obtain i where
    i: "i < length (qe_quotas e)" "has_room e1 i"
      "list_ex (protocol_matches (tq_protocol (qe_quotas e ! i))) (carried_types p)" by (auto simp: e1(2))
  then obtain d where "d \<in> set (carried_types p)" "same_family (tq_protocol (qe_quotas e ! i)) d"
    by (auto simp: list_ex_iff dest: protocol_matches_family)
  with neg have "same_family (tq_protocol (qe_quotas e ! i)) requested"
    using same_family_trans same_family_sym by blast
  with assms(2) i e1(3) show False by (auto simp: is_protocol_closed_iff)
qed

theorem closed_family_stays_closed_witness:
  "let e = enforcer_new [\<lparr>tq_protocol = Socks4, tq_quota = Some 0\<rparr>]
   in carried_types (hd demo_proxies) = [] \<or> (\<exists>c \<in> set (carried_types (hd demo_proxies)). \<not> same_family Socks4 c)"
  using closed_family_stays_closed
    [of "enforcer_new [\<lparr>tq_protocol = Socks4, tq_quota = Some 0\<rparr>]" Socks4 "hd demo_proxies" demo_proxies]
    enforcer_ok_new
  by (simp add: Let_def is_protocol_closed_iff enforcer_new_def has_room_def same_family_def demo_proxies_def
      should_emit_def shares_family_def carried_types_def with_expected_types_def proxy_new_def)

lemma has_unfilled_iff:
  "has_unfilled e \<longleftrightarrow> (\<exists>i < length (qe_quotas e). tq_quota (qe_quotas e ! i) \<noteq> None \<and> has_room e i)"
  unfolding has_unfilled_def list_ex_iff enum_ex by (auto simp: has_room_def split: option.splits)

lemma satisfied_no_room:
  "is_satisfied e \<Longrightarrow> i < length (qe_quotas e) \<Longrightarrow> \<not> has_room e i"
  unfolding is_satisfied_def has_unfilled_iff has_uncapped_def list_ex_iff
  by (metis nth_mem)

lemma satisfied_refuses:
  assumes "is_satisfied e"
  shows "should_emit p e = (\<not> shares_family (qe_quotas e) (carried_types p), e)"
proof -
  have "consumed e (carried_types p) = []"
    using satisfied_no_room [OF assms] by (auto simp: consumed_def filter_empty_conv)
  then show ?thesis by (simp add: should_emit_def Let_def)
qed

text \<open>Once the enforcer is satisfied, nothing that shares a family with a quota is let through again
  and the counters stay; a proxy of a family that no quota names still is.\<close>

theorem satisfied_output:
  assumes "is_satisfied e"
  shows "emit_all ps e = (filter (\<lambda>p. \<not> shares_family (qe_quotas e) (carried_types p)) ps, e)"
  using assms by (induction ps) (simp_all add: satisfied_refuses)

theorem satisfied_output_witness:
  "let e = enforcer_new [\<lparr>tq_protocol = Http Unknown, tq_quota = Some 0\<rparr>]
   in emit_all demo_proxies e = ([demo_proxies ! 1], e)"
proof -
  let ?e = "enforcer_new [\<lparr>tq_protocol = Http Unknown, tq_quota = Some 0\<rparr>]"
  have "is_satisfied ?e"
    by (simp add: is_satisfied_def enforcer_new_def has_any_quota_def has_unfilled_iff has_room_def has_uncapped_def)
  from satisfied_output [OF this, of demo_proxies] show ?thesis
    by (simp add: Let_def enforcer_new_def demo_proxies_def shares_family_def carried_types_def
        with_expected_types_def proxy_new_def same_family_def)
qed

section \<open>Splitting the tokens\<close>

lemma parse_single_uncapped:
  "parse_single_type part = Some q \<Longrightarrow> tq_quota q = None \<Longrightarrow> parse_protocol_opt part = Some (tq_protocol q)"
  by (auto simp: parse_single_type_def tq_uncapped_def split: if_splits option.splits prod.splits)

lemma parse_single_positive: "parse_single_type part = Some q \<Longrightarrow> tq_quota q \<noteq> Some 0"
  by (auto simp: parse_single_type_def tq_uncapped_def split: if_splits option.splits prod.splits)

lemma group_valid_parts: "group_valid any parts \<Longrightarrow> \<forall>part \<in> set parts. parse_protocol_opt part \<noteq> None"
  by (induction any parts rule: group_valid.induct)
    (auto dest: parse_single_uncapped split: if_splits option.splits)

lemma map_filter_all:
  "\<forall>x \<in> set xs. f x \<noteq> None \<Longrightarrow> List.map_filter f xs = map (\<lambda>x. the (f x)) xs"
  by (induction xs) (auto simp: List.map_filter_simps split: option.splits)

lemma split_group_valid:
  assumes "group_valid False (split_by ((=) CHR ''+'') token)"
  shows "tr_reported (split_group token r) = tr_reported r"
    and "length (tr_quotas (split_group token r)) + length (tr_groups (split_group token r)) =
      Suc (length (tr_quotas r) + length (tr_groups r))"
proof -
  let ?pieces = "split_by ((=) CHR ''+'') token"
  from group_valid_parts [OF assms] have all: "\<forall>s \<in> set ?pieces. parse_protocol_opt s \<noteq> None" .
  then have none: "filter (\<lambda>s. parse_protocol_opt s = None) ?pieces = []" by (simp add: filter_empty_conv)
  have "List.map_filter parse_protocol_opt ?pieces \<noteq> []" by (simp add: map_filter_all [OF all])
  with none show "tr_reported (split_group token r) = tr_reported r"
    and "length (tr_quotas (split_group token r)) + length (tr_groups (split_group token r)) =
      Suc (length (tr_quotas r) + length (tr_groups r))"
    by (auto simp: split_group_def Let_def split: list.splits)
qed

lemma split_token_valid:
  assumes "is_valid_type_value token"
  shows "tr_reported (split_token token r) = tr_reported r"
    and "length (tr_quotas (split_token token r)) + length (tr_groups (split_token token r)) =
      Suc (length (tr_quotas r) + length (tr_groups r))"
  using assms split_group_valid [of token r]
  by (auto simp: is_valid_type_value_def split_token_def split: if_splits)

definition requests_shape :: "type_requests \<Rightarrow> bool" where
  "requests_shape r \<longleftrightarrow> (\<forall>g \<in> set (tr_groups r). g \<noteq> [] \<and> distinct g) \<and>
     (\<forall>q \<in> set (tr_quotas r). tq_quota q \<noteq> Some 0)"

lemma requests_shape_add:
  "requests_shape r \<Longrightarrow> requests_shape (r\<lparr>tr_reported := x\<rparr>)"
  "requests_shape r \<Longrightarrow> tq_quota q \<noteq> Some 0 \<Longrightarrow> requests_shape (r\<lparr>tr_quotas := tr_quotas r @ [q]\<rparr>)"
  "requests_shape r \<Longrightarrow> requests_shape (r\<lparr>tr_groups := tr_groups r @ [dedup_seen [] (a # as)]\<rparr>)"
  by (auto simp: requests_shape_def distinct_dedup_seen set_dedup_seen)

lemma split_group_shape:
  assumes "requests_shape r"
  shows "requests_shape (split_group token r)"
proof -
  let ?parts = "List.map_filter parse_protocol_opt (split_by ((=) CHR ''+'') token)"
  let ?r1 = "r\<lparr>tr_reported := tr_reported r @ filter (\<lambda>s. parse_protocol_opt s = None) (split_by ((=) CHR ''+'') token)\<rparr>"
  have r1: "requests_shape ?r1" using assms by (rule requests_shape_add)
  consider "?parts = []" | p where "?parts = [p]" | p q ps where "?parts = p # q # ps"
    by (metis neq_Nil_conv)
  then show ?thesis
  proof cases
    case 1
    with r1 show ?thesis by (simp add: split_group_def Let_def)
  next
    case 2
    with requests_shape_add(2) [OF r1, of "tq_uncapped p"] show ?thesis
      by (simp add: split_group_def Let_def tq_uncapped_def)
  next
    case 3
    with requests_shape_add(3) [OF r1, of p "q # ps"] show ?thesis by (simp add: split_group_def Let_def)
  qed
qed

lemma split_token_shape: "requests_shape r \<Longrightarrow> requests_shape (split_token token r)"
  using split_group_shape [of r token] requests_shape_add [of r] parse_single_positive [of token]
  by (cases "parse_single_type token") (simp_all add: split_token_def)

lemma fold_split_shape: "requests_shape r \<Longrightarrow> requests_shape (fold split_token tokens r)"
  by (induction tokens arbitrary: r) (simp_all add: split_token_shape)

lemma fold_split_valid:
  "\<forall>t \<in> set tokens. is_valid_type_value t \<Longrightarrow>
   tr_reported (fold split_token tokens r) = tr_reported r \<and>
   length (tr_quotas (fold split_token tokens r)) + length (tr_groups (fold split_token tokens r)) =
     length tokens + (length (tr_quotas r) + length (tr_groups r))"
  by (induction tokens arbitrary: r) (simp_all add: split_token_valid)

text \<open>The command line's validator and its splitter agree: for tokens it accepts nothing is reported
  as invalid and every token gives one quota or one group; groups are not empty and without repetition,
  and no cap is zero.\<close>

theorem valid_tokens_split:
  assumes "\<forall>t \<in> set tokens. is_valid_type_value t"
  shows "let r = split_type_requests tokens
    in tr_reported r = [] \<and> length (tr_quotas r) + length (tr_groups r) = length tokens \<and>
       (\<forall>g \<in> set (tr_groups r). g \<noteq> [] \<and> distinct g) \<and> (\<forall>q \<in> set (tr_quotas r). tq_quota q \<noteq> Some 0)"
  using fold_split_valid [OF assms, of "\<lparr>tr_quotas = [], tr_groups = [], tr_reported = []\<rparr>"]
    fold_split_shape [of "\<lparr>tr_quotas = [], tr_groups = [], tr_reported = []\<rparr>" tokens]
  by (simp add: split_type_requests_def Let_def requests_shape_def)

lemma demo_tokens_valid: "\<forall>t \<in> set [''SOCKS4'', ''HTTP+SOCKS5'']. is_valid_type_value t"
  by (simp add: is_valid_type_value_def parse_single_type_def tq_uncapped_def parse_protocol_opt_def
      parse_protocol_def)

theorem valid_tokens_split_witness:
  "tr_reported (split_type_requests [''SOCKS4'', ''HTTP+SOCKS5'']) = []"
  using valid_tokens_split [OF demo_tokens_valid] by (simp add: Let_def)

end
