(* ===== verification/Cli_Pipeline.thy ===== *)
theory Cli_Pipeline
  imports Quotas Health
begin

text \<open>
  The plumbing between the command line and the library (\<open>src/cli/pipeline.rs\<close>): the
  configurations built from the parsed arguments, the stream adapters that attach
  health scores and record candidates for a second pass, the probe gate over the
  quota enforcer, and the decision to run a fallback pass. Durations are in
  milliseconds. The enforcer's mutex is never poisoned, so locking is the identity.
\<close>

section \<open>Configurations\<close>

record fetcher_args =
  fa_countries :: "string list"
  fa_exclude_country :: "string list"
  fa_with_geo :: bool
  fa_provider :: "string list"
  fa_exclude_provider :: "string list"
  fa_source_url :: "string list"
  fa_offline :: bool
  fa_dry_run :: bool
  fa_list_providers :: bool
  fa_fetch_concurrency :: nat
  fa_cache_ttl :: u64
  fa_refresh_cache :: bool
  fa_fetch_delay_ms :: u64
  fa_fallback_threshold :: "nat option"
  fa_fetch_phase_timeout :: u64
  fa_no_dedup :: bool
  fa_provider_timeout :: u64

record fetcher_cfg =
  fg_enforce_unique_ip :: bool
  fg_concurrency_limit :: nat
  fg_enable_geo_lookup :: bool
  fg_countries :: "string list"
  fg_excluded_countries :: "string list"
  fg_fallback_threshold :: "nat option"
  fg_fallback_phase_timeout :: "nat option"
  fg_cache_ttl :: "nat option"
  fg_refresh_cache :: bool
  fg_providers :: "string list"
  fg_excluded_providers :: "string list"
  fg_custom_sources :: "string list"
  fg_offline :: bool
  fg_fetch_delay :: "nat option"
  fg_provider_timeout :: "nat option"

definition from_secs :: "u64 \<Rightarrow> nat" where
  "from_secs s = 1000 * unat s"

definition saturating_mul :: "u64 \<Rightarrow> u64 \<Rightarrow> u64" where
  "saturating_mul a b = (if unat a * unat b < 2 ^ 64 then a * b else - 1)"

definition when_positive :: "u64 \<Rightarrow> nat \<Rightarrow> nat option" where
  "when_positive n d = (if n > 0 then Some d else None)"

definition fetcher_config :: "fetcher_args \<Rightarrow> fetcher_cfg" where
  "fetcher_config o' =
     \<lparr>fg_enforce_unique_ip = \<not> fa_no_dedup o',
      fg_concurrency_limit = fa_fetch_concurrency o',
      fg_enable_geo_lookup = (fa_with_geo o' \<or> fa_countries o' \<noteq> [] \<or> fa_exclude_country o' \<noteq> []),
      fg_countries = fa_countries o',
      fg_excluded_countries = fa_exclude_country o',
      fg_fallback_threshold = fa_fallback_threshold o',
      fg_fallback_phase_timeout = when_positive (fa_fetch_phase_timeout o') (from_secs (fa_fetch_phase_timeout o')),
      fg_cache_ttl = when_positive (fa_cache_ttl o') (from_secs (saturating_mul (fa_cache_ttl o') 60)),
      fg_refresh_cache = fa_refresh_cache o',
      fg_providers = fa_provider o',
      fg_excluded_providers = fa_exclude_provider o',
      fg_custom_sources = fa_source_url o',
      fg_offline = fa_offline o',
      fg_fetch_delay = when_positive (fa_fetch_delay_ms o') (unat (fa_fetch_delay_ms o')),
      fg_provider_timeout = when_positive (fa_provider_timeout o') (from_secs (fa_provider_timeout o'))\<rparr>"

definition upper_char :: "char \<Rightarrow> char" where
  "upper_char c = (if 97 \<le> byte c \<and> byte c \<le> 122 then char_of (byte c - 32) else c)"

definition normalized :: "string list \<Rightarrow> string set" where
  "normalized countries = set (filter (\<lambda>c. c \<noteq> []) (map (\<lambda>c. map upper_char (trim c)) countries))"

definition normalized_countries :: "fetcher_cfg \<Rightarrow> string set" where
  "normalized_countries cfg = normalized (fg_countries cfg)"

definition normalized_excluded_countries :: "fetcher_cfg \<Rightarrow> string set" where
  "normalized_excluded_countries cfg = normalized (fg_excluded_countries cfg)"

record validator_args =
  va_types :: "string list"
  va_max_connections :: nat
  va_max_attempts :: nat
  va_retry_delay_ms :: u64
  va_timeout :: u64
  va_http_judge_urls :: "string list"
  va_https_judge_urls :: "string list"
  va_no_verify_tls :: bool
  va_support_cookies :: bool
  va_support_referer :: bool
  va_report_failures :: "string option"
  va_files :: "string list"

record validator_cfg =
  vc_concurrency_limit :: nat
  vc_request_timeout :: u64
  vc_types :: "protocol list"
  vc_groups :: "protocol list list"
  vc_max_attempts :: nat
  vc_http_judge_urls :: "string list"
  vc_https_judge_urls :: "string list"
  vc_insecure :: bool
  vc_probe_missed_types :: bool
  vc_support_cookies :: bool
  vc_support_referer :: bool
  vc_retry_delay :: nat
  vc_report_failures :: bool
  vc_probe_gate :: "(protocol \<Rightarrow> bool) option"

definition validator_config ::
  "validator_args \<Rightarrow> protocol list \<Rightarrow> protocol list list \<Rightarrow> bool \<Rightarrow> validator_cfg" where
  "validator_config o' protocols groups probe_missed =
     \<lparr>vc_concurrency_limit = va_max_connections o',
      vc_request_timeout = va_timeout o',
      vc_types = protocols,
      vc_groups = groups,
      vc_max_attempts = va_max_attempts o',
      vc_http_judge_urls = va_http_judge_urls o',
      vc_https_judge_urls = va_https_judge_urls o',
      vc_insecure = va_no_verify_tls o',
      vc_probe_missed_types = probe_missed,
      vc_support_cookies = va_support_cookies o',
      vc_support_referer = va_support_referer o',
      vc_retry_delay = unat (va_retry_delay_ms o'),
      vc_report_failures = (va_report_failures o' \<noteq> None),
      vc_probe_gate = None\<rparr>"

section \<open>Stream adapters\<close>

definition annotate_health :: "health_store \<Rightarrow> proxy list \<Rightarrow> proxy list" where
  "annotate_health store source = map (\<lambda>p. p\<lparr>px_score := store_score store (px_ip p) (px_port p)\<rparr>) source"

definition advertised_covers_request :: "protocol list \<Rightarrow> protocol \<Rightarrow> bool" where
  "advertised_covers_request advertised requested =
     list_ex (\<lambda>adv. case (adv, requested) of
        (Http a, Http b) \<Rightarrow> a = Unknown \<or> b = Unknown \<or> a = b
      | (Https a, Https b) \<Rightarrow> a = Unknown \<or> b = Unknown \<or> a = b
      | (Connect a, Connect b) \<Rightarrow> a = b
      | (adv, req) \<Rightarrow> adv = req) advertised"

definition needs_missed_probe :: "proxy \<Rightarrow> protocol list \<Rightarrow> bool" where
  "needs_missed_probe p requested =
     (expected_types p = [] \<or> list_ex (\<lambda>req. \<not> advertised_covers_request (expected_types p) req) requested)"

text \<open>One poll of the recording stream, and the stream run to its end.\<close>

definition tee_step :: "protocol list \<Rightarrow> proxy list \<Rightarrow> proxy \<Rightarrow> proxy \<times> proxy list" where
  "tee_step requested recordings p = (p, if needs_missed_probe p requested then recordings @ [p] else recordings)"

fun tee_recorder :: "protocol list \<Rightarrow> proxy list \<Rightarrow> proxy list \<Rightarrow> proxy list \<times> proxy list" where
  "tee_recorder requested recordings [] = ([], recordings)"
| "tee_recorder requested recordings (p # ps) =
     (case tee_step requested recordings p of
        (q, recordings') \<Rightarrow> (case tee_recorder requested recordings' ps of (out, r) \<Rightarrow> (q # out, r)))"

lemma tee_recorder_exact:
  "tee_recorder requested recordings ps =
     (ps, recordings @ filter (\<lambda>p. needs_missed_probe p requested) ps)"
  by (induction ps arbitrary: recordings) (simp_all add: tee_step_def)

section \<open>The probe gate and the fallback pass\<close>

definition build_probe_gate :: "enforcer \<Rightarrow> (enforcer \<Rightarrow> protocol \<Rightarrow> bool) option" where
  "build_probe_gate e =
     (if has_any_quota e then Some (\<lambda>now requested. \<not> is_protocol_closed now requested) else None)"

definition needs_fallback :: "bool \<Rightarrow> enforcer \<Rightarrow> bool \<Rightarrow> bool \<Rightarrow> nat \<Rightarrow> nat \<Rightarrow> nat \<Rightarrow> bool" where
  "needs_fallback has_quotas e has_groups may_fallback limit emitted1 p1_passed =
     (if has_quotas
      then (let room = (limit = 0 \<or> emitted1 < limit);
                other_capacity = (has_uncapped e \<or> has_groups)
            in may_fallback \<and> room \<and> (emitted1 = 0 \<or> has_unfilled e \<or> other_capacity))
      else may_fallback \<and> (p1_passed = 0 \<or> (limit > 0 \<and> p1_passed < limit)))"

text \<open>With quotas, a permitted second pass is skipped exactly when the global limit is reached or
  when something was emitted and the enforcer is satisfied, which is when no further proxy of a
  requested family could be let through.\<close>

theorem fallback_skipped_iff:
  assumes "has_any_quota e"
  shows "\<not> needs_fallback True e (qe_has_groups e) True limit emitted passed \<longleftrightarrow>
    (limit \<noteq> 0 \<and> limit \<le> emitted) \<or> (emitted \<noteq> 0 \<and> is_satisfied e)"
  using assms by (auto simp: needs_fallback_def is_satisfied_def Let_def)

theorem fallback_skipped_iff_witness:
  "\<not> needs_fallback True (enforcer_new [\<lparr>tq_protocol = Socks4, tq_quota = Some 2\<rparr>]) False True 3 3 3"
  using fallback_skipped_iff [of "enforcer_new [\<lparr>tq_protocol = Socks4, tq_quota = Some 2\<rparr>]" 3 3 3]
  by (simp add: enforcer_new_def has_any_quota_def)

lemma advertised_covers_matches:
  "advertised_covers_request advertised requested \<longleftrightarrow> list_ex (protocol_matches requested) advertised"
  unfolding advertised_covers_request_def
  by (rule arg_cong [where f = "\<lambda>p. list_ex p advertised"], rule ext)
    (auto simp: protocol_matches_def split: protocol.splits)

lemma from_secs_mono: "a \<le> b \<Longrightarrow> from_secs a \<le> from_secs b"
  by (simp add: from_secs_def word_le_nat_alt)

lemma saturating_mul_ge: "b > 0 \<Longrightarrow> a \<le> saturating_mul a b"
proof -
  assume b: "b > 0"
  show ?thesis
  proof (cases "unat a * unat b < 2 ^ 64")
    case True
    then have "unat (a * b) = unat a * unat b" by (simp add: unat_word_ariths)
    moreover have "unat a \<le> unat a * unat b" using b by (simp add: word_less_nat_alt)
    ultimately show ?thesis using True by (simp add: saturating_mul_def word_le_nat_alt)
  qed (simp add: saturating_mul_def)
qed

end
