(* ===== verification/Judge_Pool.thy ===== *)
theory Judge_Pool
  imports Rust_Str "HOL-Library.Multiset"
begin

text \<open>
  The pool of judges (\<open>src/validator/checker/judge_pool.rs\<close>, judge records of
  \<open>src/validator/checker/support.rs\<close>): building it from preflight results, choosing the
  candidates of a probe, cooldowns and round-trip averages. A judge is shared between
  the pool and its workers; it is named by its index, which stays valid because judges
  are only appended. Times are milliseconds since the pool was made. The unstable sort
  of the standard library is a parameter: some sorted permutation.
\<close>

record judge =
  jd_url :: string
  jd_marker :: string
  jd_token :: string
  jd_cooldown :: u64
  jd_ema :: u64

record judge_pool =
  jp_judges :: "judge list"
  jp_cursor :: u64

definition JUDGE_FAILURE_COOLDOWN :: nat where
  "JUDGE_FAILURE_COOLDOWN = 30000"

definition jp_empty :: judge_pool where
  "jp_empty = \<lparr>jp_judges = [], jp_cursor = 0\<rparr>"

definition jp_from_targets :: "judge list \<Rightarrow> judge_pool" where
  "jp_from_targets targets = \<lparr>jp_judges = targets, jp_cursor = 0\<rparr>"

definition jp_append :: "judge \<Rightarrow> judge_pool \<Rightarrow> judge_pool" where
  "jp_append j pool = pool\<lparr>jp_judges := jp_judges pool @ [j]\<rparr>"

definition jp_len :: "judge_pool \<Rightarrow> nat" where
  "jp_len pool = length (jp_judges pool)"

definition jp_is_empty :: "judge_pool \<Rightarrow> bool" where
  "jp_is_empty pool = (jp_len pool = 0)"

section \<open>Judges\<close>

text \<open>\<open>ValidationTarget::online\<close>; the URL parser gives scheme and host, the token is minted.\<close>

definition online ::
  "(string \<Rightarrow> (string option \<times> string option) option) \<Rightarrow> string \<Rightarrow> string \<Rightarrow> string + judge" where
  "online parse_url token url =
     (case parse_url url of
        None \<Rightarrow> Inl (''invalid online judge URL `'' @ url @ ''`'')
      | Some (scheme, host) \<Rightarrow>
          if scheme \<noteq> Some ''http'' \<and> scheme \<noteq> Some ''https''
          then Inl ''online judge URL must use http or https''
          else if host = None then Inl ''online judge URL must contain a host''
          else Inr \<lparr>jd_url = url, jd_marker = ''HTTP_X_FLUXY_TOKEN = '' @ token, jd_token = token,
                    jd_cooldown = 0, jd_ema = 0\<rparr>)"

section \<open>Building the pool\<close>

text \<open>
  The preflight tasks finish in some order; \<open>completion\<close> is one of them: a judge that
  was verified (and appended itself), one that was rejected, or a task that failed.
\<close>

datatype completion = Verified judge | Rejected string string | TaskFailed

fun preflight_candidates ::
  "(string \<Rightarrow> string + judge) \<Rightarrow> string list \<Rightarrow> string list \<Rightarrow> judge list \<times> (string \<times> string) list" where
  "preflight_candidates mint seen [] = ([], [])"
| "preflight_candidates mint seen (url # urls) =
     (if url \<in> set seen then preflight_candidates mint seen urls
      else case preflight_candidates mint (url # seen) urls of
        (targets, dropped) \<Rightarrow>
          (case mint url of
             Inr j \<Rightarrow> (j # targets, dropped)
           | Inl reason \<Rightarrow> (targets, (url, reason) # dropped)))"

text \<open>The waiting loop: until a judge is in the pool or no task is left.\<close>

fun preflight_wait ::
  "completion list \<Rightarrow> judge_pool \<Rightarrow> (string \<times> string) list \<Rightarrow>
   string + judge_pool \<times> (string \<times> string) list \<times> completion list" where
  "preflight_wait tasks pool dropped =
     (if \<not> jp_is_empty pool then Inr (pool, dropped, tasks)
      else case tasks of
        [] \<Rightarrow> Inl ''no online judge passed preflight''
      | Verified j # rest \<Rightarrow> preflight_wait rest (jp_append j pool) dropped
      | Rejected url reason # rest \<Rightarrow> preflight_wait rest pool (dropped @ [(url, reason)])
      | TaskFailed # rest \<Rightarrow> Inl ''online judge preflight task failed'')"

declare preflight_wait.simps [simp del]

text \<open>The stragglers, in the background.\<close>

fun preflight_rest ::
  "completion list \<Rightarrow> judge_pool \<Rightarrow> (string \<times> string) list \<Rightarrow> judge_pool \<times> (string \<times> string) list" where
  "preflight_rest [] pool dropped = (pool, dropped)"
| "preflight_rest (Verified j # rest) pool dropped = preflight_rest rest (jp_append j pool) dropped"
| "preflight_rest (Rejected url reason # rest) pool dropped = preflight_rest rest pool (dropped @ [(url, reason)])"
| "preflight_rest (TaskFailed # rest) pool dropped =
     preflight_rest rest pool (dropped @ [(''<judge>'', ''task failed'')])"

definition jp_build ::
  "(string \<Rightarrow> string + judge) \<Rightarrow> (judge list \<Rightarrow> completion list) \<Rightarrow> string list \<Rightarrow>
   string + judge_pool \<times> (string \<times> string) list \<times> completion list" where
  "jp_build mint run_tasks urls =
     (if urls = [] then Inl ''judge pool must contain at least one candidate URL''
      else case preflight_candidates mint [] urls of
        (targets, dropped) \<Rightarrow> preflight_wait (run_tasks targets) jp_empty dropped)"

section \<open>Candidates and reports\<close>

definition cooled :: "nat \<Rightarrow> judge \<Rightarrow> bool" where
  "cooled now j \<longleftrightarrow> jd_cooldown j \<le> of_nat now"

definition ema_key :: "judge \<Rightarrow> u64" where
  "ema_key j = (if jd_ema j = 0 then - 1 else jd_ema j)"

definition forced_judge :: "judge_pool \<Rightarrow> nat" where
  "forced_judge pool = unat (jp_cursor pool mod of_nat (length (jp_judges pool)))"

definition ready_judges :: "nat \<Rightarrow> judge_pool \<Rightarrow> nat list" where
  "ready_judges now pool = filter (\<lambda>i. cooled now (jp_judges pool ! i)) [0..<jp_len pool]"

definition jp_candidates ::
  "((nat \<Rightarrow> u64) \<Rightarrow> nat list \<Rightarrow> nat list) \<Rightarrow> nat \<Rightarrow> judge_pool \<Rightarrow> nat list \<times> judge_pool" where
  "jp_candidates sort_with now pool =
     (let ready = ready_judges now pool;
          key = (\<lambda>i. ema_key (jp_judges pool ! i))
      in if ready = [] \<and> \<not> jp_is_empty pool
         then (sort_with key [forced_judge pool], pool\<lparr>jp_cursor := jp_cursor pool + 1\<rparr>)
         else (sort_with key ready, pool))"

definition jp_report_failure :: "nat \<Rightarrow> nat \<Rightarrow> judge_pool \<Rightarrow> judge_pool" where
  "jp_report_failure now i pool =
     pool\<lparr>jp_judges := (jp_judges pool)[i := (jp_judges pool ! i)\<lparr>jd_cooldown := of_nat (now + JUDGE_FAILURE_COOLDOWN)\<rparr>]\<rparr>"

definition jp_report_success :: "nat \<Rightarrow> nat \<Rightarrow> judge_pool \<Rightarrow> judge_pool" where
  "jp_report_success elapsed i pool =
     (let elapsed_ms = of_nat elapsed; j = jp_judges pool ! i
      in if elapsed_ms = 0 then pool
         else pool\<lparr>jp_judges := (jp_judges pool)[i := j\<lparr>jd_ema :=
                (if jd_ema j = 0 then elapsed_ms else (jd_ema j * 7 + elapsed_ms * 3) div 10)\<rparr>]\<rparr>)"

section \<open>Facts\<close>

text \<open>What \<open>sort_unstable_by_key\<close> promises.\<close>

definition sorts :: "((nat \<Rightarrow> u64) \<Rightarrow> nat list \<Rightarrow> nat list) \<Rightarrow> bool" where
  "sorts sort_with \<longleftrightarrow> (\<forall>key xs. mset (sort_with key xs) = mset xs \<and> sorted (map key (sort_with key xs)))"

lemma sorts_sort_key: "sorts (\<lambda>key xs. sort_key key xs)"
  by (simp add: sorts_def)

lemma sorts_set: "sorts sort_with \<Longrightarrow> set (sort_with key xs) = set xs"
  using mset_eq_setD unfolding sorts_def by blast

lemma sorts_distinct: "sorts sort_with \<Longrightarrow> distinct (sort_with key xs) = distinct xs"
  using mset_eq_imp_distinct_iff unfolding sorts_def by blast

lemma set_ready_judges: "set (ready_judges now pool) = {i. i < jp_len pool \<and> cooled now (jp_judges pool ! i)}"
  by (auto simp: ready_judges_def)

lemma forced_judge_bound: "jp_len pool \<noteq> 0 \<Longrightarrow> jp_len pool < 2 ^ 64 \<Longrightarrow> forced_judge pool < jp_len pool"
  by (simp add: forced_judge_def jp_len_def unat_mod unat_of_nat)

definition asked :: "nat \<Rightarrow> judge_pool \<Rightarrow> nat list" where
  "asked now pool =
     (if ready_judges now pool = [] \<and> \<not> jp_is_empty pool then [forced_judge pool] else ready_judges now pool)"

lemma asked_forced: "ready_judges now pool = [] \<Longrightarrow> \<not> jp_is_empty pool \<Longrightarrow> asked now pool = [forced_judge pool]"
  unfolding asked_def by simp

lemma asked_ready: "ready_judges now pool \<noteq> [] \<or> jp_is_empty pool \<Longrightarrow> asked now pool = ready_judges now pool"
  unfolding asked_def by (rule if_not_P) blast

lemma candidates_asked:
  "fst (jp_candidates sort_with now pool) = sort_with (\<lambda>i. ema_key (jp_judges pool ! i)) (asked now pool)"
  "jp_judges (snd (jp_candidates sort_with now pool)) = jp_judges pool"
proof -
  show "fst (jp_candidates sort_with now pool) = sort_with (\<lambda>i. ema_key (jp_judges pool ! i)) (asked now pool)"
    unfolding jp_candidates_def asked_def Let_def if_distrib [of fst] if_distrib [of "sort_with _"] fst_conv ..
  show "jp_judges (snd (jp_candidates sort_with now pool)) = jp_judges pool"
    unfolding jp_candidates_def Let_def if_distrib [of snd] snd_conv
    unfolding if_distrib [of jp_judges] by (rule trans [OF if_cong if_cancel]) simp_all
qed

lemma asked_facts:
  assumes "jp_len pool < 2 ^ 64"
  shows "distinct (asked now pool) \<and> set (asked now pool) \<subseteq> {..<jp_len pool} \<and>
    (asked now pool = [] \<longleftrightarrow> jp_len pool = 0) \<and>
    (ready_judges now pool \<noteq> [] \<longrightarrow> asked now pool = ready_judges now pool)"
proof (cases "ready_judges now pool \<noteq> [] \<or> jp_is_empty pool")
  case True
  have "distinct (ready_judges now pool)" "set (ready_judges now pool) \<subseteq> {..<jp_len pool}"
    by (simp add: ready_judges_def) (auto simp: set_ready_judges)
  moreover have "jp_len pool = 0 \<Longrightarrow> ready_judges now pool = []" by (simp add: ready_judges_def)
  ultimately show ?thesis unfolding asked_ready [OF True] using True [unfolded jp_is_empty_def] by blast
next
  case False
  then have a: "asked now pool = [forced_judge pool]" and r: "ready_judges now pool = []"
    and l: "jp_len pool \<noteq> 0"
    using asked_forced [of now pool] by (blast, blast, simp add: jp_is_empty_def)
  from forced_judge_bound [OF l assms] show ?thesis unfolding a r using l by simp
qed

lemma candidates_plain:
  assumes "sorts sort_with" and "jp_candidates sort_with now pool = (cs, pool')" and "jp_len pool < 2 ^ 64"
  shows "distinct cs \<and> set cs \<subseteq> {..<jp_len pool} \<and> (cs = [] \<longleftrightarrow> jp_len pool = 0) \<and>
    sorted (map (\<lambda>i. ema_key (jp_judges pool ! i)) cs) \<and> jp_judges pool' = jp_judges pool \<and>
    ((\<exists>i < jp_len pool. cooled now (jp_judges pool ! i)) \<longrightarrow>
       set cs = {i. i < jp_len pool \<and> cooled now (jp_judges pool ! i)})"
proof -
  have cs: "cs = sort_with (\<lambda>i. ema_key (jp_judges pool ! i)) (asked now pool)"
    and j: "jp_judges pool' = jp_judges pool"
    using candidates_asked [of sort_with now pool] unfolding assms(2) fst_conv snd_conv by blast+
  note f = asked_facts [OF assms(3), of now]
  have d: "distinct cs" unfolding cs sorts_distinct [OF assms(1)] using f by blast
  have s: "set cs = set (asked now pool)" unfolding cs sorts_set [OF assms(1)] ..
  have o: "sorted (map (\<lambda>i. ema_key (jp_judges pool ! i)) cs)"
    using assms(1) unfolding cs sorts_def by blast
  have e: "cs = [] \<longleftrightarrow> jp_len pool = 0" using f s by (metis set_empty)
  have a: "set cs = {i. i < jp_len pool \<and> cooled now (jp_judges pool ! i)}"
    if "\<exists>i < jp_len pool. cooled now (jp_judges pool ! i)"
  proof -
    from that have "ready_judges now pool \<noteq> []" using set_ready_judges [of now pool] by fastforce
    with f s show ?thesis using set_ready_judges [of now pool] by metis
  qed
  from d s o e a j f show ?thesis by blast
qed

text \<open>As long as the pool holds a judge a probe has one to ask, none twice; when some judge is out
  of its cooldown only such judges are asked, all of them, the fastest first.\<close>

theorem candidates_sound:
  assumes "sorts sort_with" and "jp_candidates sort_with now pool = (cs, pool')" and "jp_len pool < 2 ^ 64"
  shows "distinct cs \<and> set cs \<subseteq> {..<jp_len pool} \<and> (cs = [] \<longleftrightarrow> jp_len pool = 0) \<and>
    sorted (map (\<lambda>i. ema_key (jp_judges pool ! i)) cs) \<and>
    ((\<exists>i < jp_len pool. cooled now (jp_judges pool ! i)) \<longrightarrow>
       set cs = {i. i < jp_len pool \<and> cooled now (jp_judges pool ! i)})"
  using candidates_plain [OF assms] by blast

definition demo_judges :: judge_pool where
  "demo_judges = jp_from_targets
     [\<lparr>jd_url = ''http://a/'', jd_marker = ''m'', jd_token = ''t'', jd_cooldown = 50, jd_ema = 0\<rparr>,
      \<lparr>jd_url = ''http://b/'', jd_marker = ''n'', jd_token = ''u'', jd_cooldown = 0, jd_ema = 9\<rparr>]"

theorem candidates_sound_witness:
  "set (fst (jp_candidates (\<lambda>key xs. sort_key key xs) 10 demo_judges)) = {1}"
proof -
  obtain cs pool' where c: "jp_candidates (\<lambda>key xs. sort_key key xs) 10 demo_judges = (cs, pool')"
    by (cases "jp_candidates (\<lambda>key xs. sort_key key xs) 10 demo_judges")
  have e: "(i < 2 \<and> cooled 10 (jp_judges demo_judges ! i)) = (i = 1)" for i
    by (cases "i = 0"; cases "i = 1") (auto simp: demo_judges_def jp_from_targets_def cooled_def less_2_cases_iff)
  have l: "jp_len demo_judges = 2" by (simp add: demo_judges_def jp_from_targets_def jp_len_def)
  from candidates_sound [OF sorts_sort_key c] l e have "set cs = {1}" by auto
  with c show ?thesis by simp
qed

end
