(* ===== verification/Judge_Http.thy ===== *)
theory Judge_Http
  imports Judge_Pool Body_Fetch Proxy_Model
begin

text \<open>
  Checking a proxy through a judge over plain HTTP (\<open>src/validator/checker/support.rs\<close>):
  reading the judge's answer, with the reader that stops early, classifying the
  anonymity level, and the loop over attempts and judges. What the network does in one
  exchange is a parameter, the outcome of an exchange; times are milliseconds since
  the probe started.
\<close>

section \<open>Lossy decoding\<close>

text \<open>How many bytes \<open>from_utf8_lossy\<close> replaces by one replacement character.\<close>

fun bad_len :: "u8 list \<Rightarrow> nat" where
  "bad_len [] = 0"
| "bad_len (a # bs) =
     (case bs of
        [] \<Rightarrow> 1
      | b # cs \<Rightarrow>
          if seq_len a < 2 \<or> \<not> second_ok a b then 1
          else case cs of
            [] \<Rightarrow> 2
          | c # ds \<Rightarrow> if \<not> is_cont c then 2 else 3)"

definition replacement :: "u8 list" where
  "replacement = [0xEF, 0xBF, 0xBD]"

function utf8_lossy :: "u8 list \<Rightarrow> u8 list" where
  "utf8_lossy bs =
     (if bs = [] then []
      else case utf8_first bs of
        Complete n \<Rightarrow> take n bs @ utf8_lossy (drop n bs)
      | _ \<Rightarrow> replacement @ utf8_lossy (drop (bad_len bs) bs))"
  by pat_completeness auto

lemma bad_len_pos: "bs \<noteq> [] \<Longrightarrow> 0 < bad_len bs"
  by (cases bs) (auto split: list.splits)

termination utf8_lossy
  using bad_len_pos
  by (relation "measure length") (auto dest: utf8_first_complete [where cs = "[]"])

declare utf8_lossy.simps [simp del]

definition ascii :: "u8 list \<Rightarrow> bool" where
  "ascii bs \<longleftrightarrow> (\<forall>b \<in> set bs. b < 0x80)"

section \<open>Reading the answer\<close>

definition MAX_JUDGE_BODY_BYTES :: nat where
  "MAX_JUDGE_BODY_BYTES = 512 * 1024"

definition ANON_INTEREST :: "string list" where
  "ANON_INTEREST =
     [''CLIENT-IP'', ''CLIENT_IP'', ''FORWARDED-FOR'', ''FORWARDED-FOR-IP'', ''FORWARDED_FOR'',
      ''HTTP-FORWARDED'', ''PROXY-CONNECTION'', ''VIA'', ''X-FORWARDED'', ''X-FORWARDED-FOR'',
      ''X-IMFORWARDS'', ''X-PROXY-CONNECTION'', ''X-PROXY-ID'', ''X-REAL-IP'', ''X_FORWARDED FORWARDED'']"

definition ascii_bytes :: "string \<Rightarrow> u8 list" where
  "ascii_bytes s = map of_char s"

definition classify_anonymity :: "u8 list \<Rightarrow> u8 list \<Rightarrow> anonymity" where
  "classify_anonymity body my_ip =
     (if contains body my_ip then Transparent
      else if list_ex (\<lambda>w. contains body (ascii_bytes w)) ANON_INTEREST then Anonymous
      else Elite)"

fun frame_chunk :: "frame \<Rightarrow> (u8 list, string) outcome" where
  "frame_chunk (Data chunk) = Ok chunk"
| "frame_chunk Trailers = Ok []"
| "frame_chunk FrameTimeout = Err ''judge response body timed out''"
| "frame_chunk FrameError = Err ''judge body stream error''"

fun read_bounded :: "nat \<Rightarrow> u8 list \<Rightarrow> frame list \<Rightarrow> (u8 list, string) outcome" where
  "read_bounded limit got [] = Ok got"
| "read_bounded limit got (f # fs) =
     and_then (frame_chunk f) (\<lambda>chunk.
       if length got + length chunk > limit then Err ''judge response body exceeds the limit''
       else read_bounded limit (got @ chunk) fs)"

definition upper_byte :: "u8 \<Rightarrow> u8" where
  "upper_byte b = (if 97 \<le> b \<and> b \<le> 122 then b - 32 else b)"

text \<open>A header value that is not visible ASCII is \<open>None\<close>.\<close>

fun raw_head :: "(u8 list \<times> u8 list option) list \<Rightarrow> (u8 list, string) outcome" where
  "raw_head [] = Ok [10, 10]"
| "raw_head ((k, v) # headers) =
     (case v of
        None \<Rightarrow> Err ''response header is not valid utf-8''
      | Some value \<Rightarrow> and_then (raw_head headers) (\<lambda>rest. Ok (map upper_byte k @ [58, 32] @ value @ [10] @ rest)))"

definition to_raw_response :: "(u8 list \<times> u8 list option) list \<Rightarrow> frame list \<Rightarrow> (u8 list, string) outcome" where
  "to_raw_response headers frames =
     and_then (raw_head headers) (\<lambda>head.
       and_then (read_bounded MAX_JUDGE_BODY_BYTES [] frames) (\<lambda>body. Ok (head @ body)))"

definition COOKIE_ECHO :: "u8 list" where
  "COOKIE_ECHO = ascii_bytes ''HTTP_COOKIE = cookie=ok''"

definition REFERER_ECHO :: "u8 list" where
  "REFERER_ECHO = ascii_bytes ''HTTP_REFERER = https://google.com/''"

record echo_check =
  ec_marker :: "u8 list"
  ec_cookie :: bool
  ec_referer :: bool

definition should_stop :: "echo_check \<Rightarrow> u8 list \<Rightarrow> u8 list \<Rightarrow> bool" where
  "should_stop ec my_ip buf =
     (if \<not> contains buf (ec_marker ec) then False
      else if ec_cookie ec \<and> \<not> contains buf COOKIE_ECHO then False
      else if ec_referer ec \<and> \<not> contains buf REFERER_ECHO then False
      else contains buf my_ip)"

fun read_early :: "(u8 list \<Rightarrow> bool) \<Rightarrow> nat \<Rightarrow> u8 list \<Rightarrow> frame list \<Rightarrow> (u8 list, string) outcome" where
  "read_early stop header_len buf [] = Ok buf"
| "read_early stop header_len buf (f # fs) =
     and_then (frame_chunk f) (\<lambda>chunk.
       if (length buf - header_len) + length chunk > MAX_JUDGE_BODY_BYTES
       then Err ''judge response body exceeds the limit''
       else let buf' = buf @ chunk
            in if stop buf' then Ok buf' else read_early stop header_len buf' fs)"

definition to_raw_response_early_exit ::
  "echo_check \<Rightarrow> u8 list \<Rightarrow> (u8 list \<times> u8 list option) list \<Rightarrow> frame list \<Rightarrow> (u8 list, string) outcome" where
  "to_raw_response_early_exit ec my_ip headers frames =
     and_then (raw_head headers) (\<lambda>head. read_early (should_stop ec my_ip) (length head) head frames)"

text \<open>What the checker does with the bytes it read: whose answer it is, and the level.\<close>

datatype echo = NoMarker | NoCookie | NoReferer | Echoed

definition check_echo :: "echo_check \<Rightarrow> u8 list \<Rightarrow> echo" where
  "check_echo ec body =
     (if \<not> contains body (ec_marker ec) then NoMarker
      else if ec_cookie ec \<and> \<not> contains body COOKIE_ECHO then NoCookie
      else if ec_referer ec \<and> \<not> contains body REFERER_ECHO then NoReferer
      else Echoed)"

definition level_of :: "u8 list \<Rightarrow> u8 list \<Rightarrow> anonymity" where
  "level_of my_ip body = classify_anonymity (utf8_lossy body) my_ip"

section \<open>Stopping early changes nothing\<close>

lemma chunk_tail:
  "utf8_first bs = Complete n \<Longrightarrow> 1 \<le> i \<Longrightarrow> i < n \<Longrightarrow> 0x80 \<le> bs ! i"
  "1 \<le> i \<Longrightarrow> i < bad_len bs \<Longrightarrow> 0x80 \<le> bs ! i"
proof -
  have second: "second_ok a b \<Longrightarrow> 0x80 \<le> b" for a b
    by (auto simp: second_ok_def is_cont_def word_le_nat_alt split: if_splits)
  have cont: "is_cont b \<Longrightarrow> 0x80 \<le> b" for b by (simp add: is_cont_def)
  have nth: "(a # b # cs) ! i = (if i = 1 then b else cs ! (i - 2))" if "1 \<le> i" for a b :: u8 and cs i
    using that by (cases i; cases "i - 1") auto
  show "utf8_first bs = Complete n \<Longrightarrow> 1 \<le> i \<Longrightarrow> i < n \<Longrightarrow> 0x80 \<le> bs ! i"
    using second cont
    by (cases bs) (auto simp: Let_def nth_Cons' less_Suc_eq numeral_eq_Suc split: list.splits if_splits)
  show "1 \<le> i \<Longrightarrow> i < bad_len bs \<Longrightarrow> 0x80 \<le> bs ! i"
    using second cont
    by (cases bs) (auto simp: nth_Cons' less_Suc_eq numeral_eq_Suc split: list.splits if_splits)
qed

lemma lossy_prefix: "ascii pat \<Longrightarrow> prefix pat bs \<Longrightarrow> prefix pat (utf8_lossy bs)"
proof (induction pat arbitrary: bs)
  case Nil
  then show ?case by simp
next
  case (Cons p ps)
  then obtain bs' where bs: "bs = p # bs'" "prefix ps bs'" by (cases bs) auto
  have p: "p < 0x80" "ascii ps" using Cons.prems(1) by (simp_all add: ascii_def)
  then have "utf8_lossy bs = p # utf8_lossy bs'"
    by (subst utf8_lossy.simps) (simp add: bs seq_len_def)
  with Cons.IH [OF p(2) bs(2)] show ?case by simp
qed

lemma sublist_iff_drop: "sublist pat s \<longleftrightarrow> (\<exists>i \<le> length s. prefix pat (drop i s))"
proof
  assume "sublist pat s"
  then obtain a b where "s = a @ pat @ b" by (auto simp: sublist_def)
  then show "\<exists>i \<le> length s. prefix pat (drop i s)" by (intro exI [of _ "length a"]) simp
next
  assume "\<exists>i \<le> length s. prefix pat (drop i s)"
  then show "sublist pat s" by (meson sublist_drop prefix_imp_sublist sublist_order.order_trans)
qed

lemma lossy_sublist:
  "ascii pat \<Longrightarrow> pat \<noteq> [] \<Longrightarrow> sublist pat bs \<Longrightarrow> sublist pat (utf8_lossy bs)"
proof (induction bs rule: utf8_lossy.induct)
  case (1 bs)
  define n where "n = (case utf8_first bs of Complete n \<Rightarrow> n | _ \<Rightarrow> bad_len bs)"
  have ne: "bs \<noteq> []" using "1.prems" by auto
  from "1.prems"(3) obtain i where i: "i \<le> length bs" "prefix pat (drop i bs)" by (auto simp: sublist_iff_drop)
  then have il: "i < length bs" using "1.prems"(2) by (cases "i = length bs") auto
  then have "hd pat = bs ! i" using i(2) "1.prems"(2) by (cases pat) (auto simp: hd_drop_conv_nth [symmetric] prefix_def)
  then have lt: "bs ! i < 0x80" using "1.prems"(1,2) by (metis ascii_def list.set_sel(1))
  show ?case
  proof (cases "i = 0")
    case True
    with i lossy_prefix [OF "1.prems"(1)] show ?thesis by (simp add: prefix_imp_sublist)
  next
    case False
    then have i1: "1 \<le> i" by simp
    have "n \<le> i"
    proof (rule ccontr)
      assume "\<not> n \<le> i"
      then have "0x80 \<le> bs ! i"
        using i1 chunk_tail(1) [of bs n i] chunk_tail(2) [of i bs] unfolding n_def
        by (cases "utf8_first bs") simp_all
      with lt show False by (meson not_less)
    qed
    then have "prefix pat (drop (i - n) (drop n bs))" using i(2) by simp
    then have sub: "sublist pat (drop n bs)"
      by (meson sublist_drop prefix_imp_sublist sublist_order.order_trans)
    have "sublist pat (utf8_lossy (drop n bs))"
      using "1.IH" [OF ne] "1.prems" sub unfolding n_def by (cases "utf8_first bs") auto
    moreover have "\<exists>x. utf8_lossy bs = x @ utf8_lossy (drop n bs)"
      using ne unfolding n_def by (subst utf8_lossy.simps) (cases "utf8_first bs"; auto)
    ultimately show ?thesis by (metis sublist_append_leftI sublist_order.order_trans)
  qed
qed

lemma contains_lossy: "ascii pat \<Longrightarrow> contains bs pat \<Longrightarrow> contains (utf8_lossy bs) pat"
  using lossy_sublist by (cases "pat = []") (auto simp: contains_sublist)

lemma contains_append: "contains s pat \<Longrightarrow> contains (s @ t) pat"
  unfolding contains_sublist by (meson sublist_append_rightI sublist_order.order_trans)

lemma read_early_prefix:
  "read_early stop n buf fs = Ok c \<Longrightarrow> read_bounded limit got fs = Ok f \<Longrightarrow>
   \<exists>more rest. f = got @ more @ rest \<and> c = buf @ more \<and> (rest = [] \<or> stop c)"
proof (induction fs arbitrary: buf got)
  case Nil
  then show ?case by auto
next
  case (Cons fr fs)
  from Cons.prems(1) obtain chunk where chunk: "frame_chunk fr = Ok chunk"
    by (auto simp: outcome_simps)
  from Cons.prems(2) chunk have full: "read_bounded limit (got @ chunk) fs = Ok f" by (auto split: if_splits)
  have mono: "\<exists>rest. f = got @ rest" if "read_bounded limit got fs = Ok f" for got fs
    using that
  proof (induction fs arbitrary: got)
    case Nil
    then show ?case by simp
  next
    case (Cons fr fs)
    then obtain chunk where "read_bounded limit (got @ chunk) fs = Ok f"
      by (auto simp: outcome_simps split: if_splits)
    with Cons.IH show ?case by fastforce
  qed
  show ?case
  proof (cases "stop (buf @ chunk)")
    case True
    then have "c = buf @ chunk" using Cons.prems(1) chunk by (auto simp: Let_def split: if_splits)
    with True mono [OF full] show ?thesis by (metis append.assoc)
  next
    case False
    then have "read_early stop n (buf @ chunk) fs = Ok c"
      using Cons.prems(1) chunk by (auto simp: Let_def split: if_splits)
    from Cons.IH [OF this full] show ?thesis by (metis append.assoc)
  qed
qed

lemma early_cases:
  assumes "to_raw_response_early_exit ec my_ip headers frames = Ok c"
    and "to_raw_response headers frames = Ok f"
  obtains (same) "c = f" | (stopped) rest where "f = c @ rest" and "should_stop ec my_ip c"
proof -
  from assms(2) obtain head body where h: "raw_head headers = Ok head" "f = head @ body"
    "read_bounded MAX_JUDGE_BODY_BYTES [] frames = Ok body"
    by (auto simp: to_raw_response_def outcome_simps)
  with assms(1) have "read_early (should_stop ec my_ip) (length head) head frames = Ok c"
    by (simp add: to_raw_response_early_exit_def)
  from read_early_prefix [OF this h(3)] h(2) show thesis using that by auto
qed

text \<open>C36: the reader that stops as soon as it has seen the token, the required echoes and the own address
  decides like the reader that waits for the whole answer: same acceptance, same anonymity level.\<close>

theorem early_exit_is_invisible:
  assumes "to_raw_response_early_exit ec my_ip headers frames = Ok c"
    and "to_raw_response headers frames = Ok f" and "ascii my_ip"
  shows "check_echo ec c = check_echo ec f \<and>
    (check_echo ec c = Echoed \<longrightarrow> level_of my_ip c = level_of my_ip f)"
  using assms(1,2)
proof (cases rule: early_cases)
  case same
  then show ?thesis by simp
next
  case (stopped rest)
  then have "contains c (ec_marker ec)" "ec_cookie ec \<longrightarrow> contains c COOKIE_ECHO"
    "ec_referer ec \<longrightarrow> contains c REFERER_ECHO" and ip: "contains c my_ip"
    by (auto simp: should_stop_def split: if_splits)
  then have "check_echo ec c = Echoed" "check_echo ec f = Echoed"
    using contains_append [of c _ rest] by (auto simp: check_echo_def stopped(1))
  moreover have "level_of my_ip c = Transparent" "level_of my_ip f = Transparent"
    using contains_lossy [OF assms(3)] ip contains_append [OF ip, of rest]
    by (simp_all add: level_of_def classify_anonymity_def stopped(1))
  ultimately show ?thesis by simp
qed

definition demo_echo :: echo_check where
  "demo_echo = \<lparr>ec_marker = [84], ec_cookie = False, ec_referer = False\<rparr>"

theorem early_exit_is_invisible_witness:
  "to_raw_response_early_exit demo_echo [49] [] [Data [84, 49], Data [86]] = Ok [10, 10, 84, 49] \<and>
   level_of [49] [10, 10, 84, 49] = level_of [49] [10, 10, 84, 49, 86]"
proof -
  have 1: "to_raw_response_early_exit demo_echo [49] [] [Data [84, 49], Data [86]] = Ok [10, 10, 84, 49]"
    by (simp add: to_raw_response_early_exit_def should_stop_def demo_echo_def MAX_JUDGE_BODY_BYTES_def contains_def Let_def)
  have 2: "to_raw_response [] [Data [84, 49], Data [86]] = Ok [10, 10, 84, 49, 86]"
    by (simp add: to_raw_response_def MAX_JUDGE_BODY_BYTES_def)
  have 3: "check_echo demo_echo [10, 10, 84, 49] = Echoed"
    by (simp add: check_echo_def demo_echo_def contains_def)
  from early_exit_is_invisible [OF 1 2] 1 3 show ?thesis by (simp add: ascii_def)
qed

end
