(* ===== verification/Judge_Probe.thy ===== *)
theory Judge_Probe
  imports Judge_Http Negotiators
begin

text \<open>
  The two probes of a proxy, over all attempts and judges: \<open>support_http\<close>
  (\<open>src/validator/checker/support.rs\<close>) and \<open>support_tunnel\<close> with \<open>probe_once\<close> and the
  verification of the judge's answer (\<open>src/validator/tunnel/mod.rs\<close>,
  \<open>src/validator/tunnel/tls.rs\<close>). The environment answers every exchange; it is told
  the time the code grants. TLS, httparse and base64 are parameters.
\<close>

section \<open>Parameters and state\<close>

record work_params =
  wp_max_attempts :: nat
  wp_request_timeout :: nat
  wp_insecure :: bool
  wp_support_cookies :: bool
  wp_support_referer :: bool
  wp_retry_delay :: nat

definition DURATION_MAX :: nat where
  "DURATION_MAX = 2 ^ 64 * 1000 - 1"

text \<open>\<open>timeout.saturating_mul(max_attempts as u32)\<close>.\<close>

definition probe_budget :: "work_params \<Rightarrow> nat" where
  "probe_budget p = min DURATION_MAX (wp_request_timeout p * unat (of_nat (wp_max_attempts p) :: 32 word))"

record probe_state =
  ps_time :: nat
  ps_cooling :: "string set"
  ps_pool :: judge_pool
  ps_asked :: "nat list"

definition judge_failed :: "nat \<Rightarrow> nat \<Rightarrow> probe_state \<Rightarrow> probe_state" where
  "judge_failed epoch i s =
     s\<lparr>ps_pool := jp_report_failure (epoch + ps_time s) i (ps_pool s),
       ps_cooling := insert (jd_url (jp_judges (ps_pool s) ! i)) (ps_cooling s)\<rparr>"

section \<open>Plain HTTP\<close>

datatype http_reply = Unreachable | Reply bool "(u8 list \<times> u8 list option) list" "frame list"

record http_exchange =
  hx_time :: nat
  hx_builds :: bool
  hx_reply :: http_reply
  hx_cached_ip :: "u8 list option"
  hx_my_ip :: "u8 list option"

datatype verdict = Skip | JudgeFails | Accepted protocol

definition echo_check_of :: "work_params \<Rightarrow> judge \<Rightarrow> echo_check" where
  "echo_check_of p j =
     \<lparr>ec_marker = ascii_bytes (jd_marker j), ec_cookie = wp_support_cookies p, ec_referer = wp_support_referer p\<rparr>"

definition judge_body :: "echo_check \<Rightarrow> (u8 list, string) outcome \<Rightarrow> (u8 list \<Rightarrow> anonymity) \<Rightarrow> verdict" where
  "judge_body ec body level =
     (case body of
        Ok bytes \<Rightarrow>
          (case check_echo ec bytes of
             NoMarker \<Rightarrow> JudgeFails
           | NoCookie \<Rightarrow> Skip
           | NoReferer \<Rightarrow> Skip
           | Echoed \<Rightarrow> Accepted (Http (level bytes)))
      | _ \<Rightarrow> Skip)"

definition http_verdict :: "work_params \<Rightarrow> judge \<Rightarrow> http_exchange \<Rightarrow> verdict" where
  "http_verdict p j x =
     (if \<not> hx_builds x then Skip
      else case hx_reply x of
        Unreachable \<Rightarrow> JudgeFails
      | Reply success headers frames \<Rightarrow>
          if \<not> success then JudgeFails
          else let ec = echo_check_of p j
            in case hx_cached_ip x of
              Some ip \<Rightarrow> judge_body ec (to_raw_response_early_exit ec ip headers frames) (level_of ip)
            | None \<Rightarrow>
                judge_body ec (to_raw_response headers frames)
                  (case hx_my_ip x of Some ip \<Rightarrow> level_of ip | None \<Rightarrow> (\<lambda>_. Unknown)))"

type_synonym probe_result = "(protocol \<times> nat) option"

text \<open>One attempt: the judges in turn. \<open>None\<close> means that the attempt ended without a decision.\<close>

fun http_judges ::
  "work_params \<Rightarrow> nat \<Rightarrow> (nat \<Rightarrow> nat \<Rightarrow> http_exchange) \<Rightarrow> nat list \<Rightarrow> probe_state \<Rightarrow>
   probe_result option \<times> probe_state" where
  "http_judges p epoch ask [] s = (None, s)"
| "http_judges p epoch ask (i # is) s =
     (if jd_url (jp_judges (ps_pool s) ! i) \<in> ps_cooling s then http_judges p epoch ask is s
      else let remaining = probe_budget p - ps_time s
        in if remaining = 0 then (Some None, s)
           else let x = ask i (min remaining (wp_request_timeout p));
                    s1 = s\<lparr>ps_time := ps_time s + hx_time x,
                           ps_asked := ps_asked s @ (if hx_builds x then [i] else [])\<rparr>
             in case http_verdict p (jp_judges (ps_pool s) ! i) x of
                  Skip \<Rightarrow> http_judges p epoch ask is s1
                | JudgeFails \<Rightarrow> http_judges p epoch ask is (judge_failed epoch i s1)
                | Accepted q \<Rightarrow>
                    (Some (Some (q, hx_time x)),
                     s1\<lparr>ps_pool := jp_report_success (hx_time x) i (ps_pool s1)\<rparr>))"

fun http_attempts ::
  "work_params \<Rightarrow> nat \<Rightarrow> (nat \<Rightarrow> nat \<Rightarrow> nat \<Rightarrow> http_exchange) \<Rightarrow> nat list \<Rightarrow> nat list \<Rightarrow> probe_state \<Rightarrow>
   probe_result \<times> probe_state" where
  "http_attempts p epoch ask candidates [] s = (None, s)"
| "http_attempts p epoch ask candidates (attempt # attempts) s =
     (let s1 = (if attempt > 0 \<and> wp_retry_delay p \<noteq> 0 then s\<lparr>ps_time := ps_time s + wp_retry_delay p\<rparr> else s)
      in case http_judges p epoch (ask attempt) candidates s1 of
           (Some r, s2) \<Rightarrow> (r, s2)
         | (None, s2) \<Rightarrow> http_attempts p epoch ask candidates attempts s2)"

definition probe_start :: "judge_pool \<Rightarrow> probe_state" where
  "probe_start pool = \<lparr>ps_time = 0, ps_cooling = {}, ps_pool = pool, ps_asked = []\<rparr>"

definition support_http ::
  "((nat \<Rightarrow> u64) \<Rightarrow> nat list \<Rightarrow> nat list) \<Rightarrow> work_params \<Rightarrow> nat \<Rightarrow> (nat \<Rightarrow> nat \<Rightarrow> nat \<Rightarrow> http_exchange) \<Rightarrow>
   judge_pool \<Rightarrow> probe_result \<times> probe_state" where
  "support_http sort_with p epoch ask pool =
     (case jp_candidates sort_with epoch pool of
        (candidates, pool1) \<Rightarrow>
          http_attempts p epoch ask candidates [0..<wp_max_attempts p] (probe_start pool1))"

section \<open>Tunnels\<close>

record judge_target =
  jt_scheme :: string
  jt_host :: string
  jt_port :: u16
  jt_authority :: string
  jt_path :: string
  jt_marker :: string
  jt_token :: string

definition judge_target_of :: "(string \<Rightarrow> (uri_view \<times> string option) option) \<Rightarrow> judge \<Rightarrow> string + judge_target" where
  "judge_target_of parse_url j =
     (case parse_url (jd_url j) of
        None \<Rightarrow> Inl ''invalid local judge URL''
      | Some (uri, path) \<Rightarrow>
          (case ur_host uri of
             None \<Rightarrow> Inl ''local judge URL must contain a host''
           | Some host \<Rightarrow>
               (case socks_port uri of
                  None \<Rightarrow> Inl ''local judge URL must contain a port or known scheme''
                | Some port \<Rightarrow>
                    Inr \<lparr>jt_scheme = (case ur_scheme uri of Some s \<Rightarrow> s | None \<Rightarrow> ''http''), jt_host = host,
                         jt_port = port, jt_authority = authority_text host port,
                         jt_path = (case path of Some q \<Rightarrow> q | None \<Rightarrow> ''/''),
                         jt_marker = jd_marker j, jt_token = jd_token j\<rparr>)))"

definition MAX_JUDGE_RESPONSE_BYTES :: nat where
  "MAX_JUDGE_RESPONSE_BYTES = 576 * 1024"

text \<open>The checks both verifiers end with; the text is the lossy decoding.\<close>

definition accept_text :: "work_params \<Rightarrow> judge_target \<Rightarrow> u8 list \<Rightarrow> (u8 list, string) outcome" where
  "accept_text p target text =
     (if \<not> contains text (ascii_bytes (jt_marker target)) then Err ''response did not originate from the judge''
      else if wp_support_cookies p \<and> \<not> contains text COOKIE_ECHO then Err ''proxy did not forward the cookie header''
      else if wp_support_referer p \<and> \<not> contains text REFERER_ECHO then Err ''proxy did not forward the referer header''
      else Ok text)"

definition judge_request :: "judge_target \<Rightarrow> string \<Rightarrow> string" where
  "judge_request target authority =
     ''GET '' @ jt_path target @ '' HTTP/1.1'' @ crlf @ ''Host: '' @ authority @ crlf @
     ''X-Fluxy-Token: '' @ jt_token target @ crlf @ ''Cookie: cookie=ok'' @ crlf @
     ''Referer: https://google.com/'' @ crlf @ ''Connection: close'' @ crlf @ crlf"

text \<open>Reading up to the end of the stream, at most \<open>limit\<close> bytes.\<close>

definition read_to_end :: "nat \<Rightarrow> u8 list io" where
  "read_to_end limit w =
     (if length (w_in w) > limit then (Err ''local judge response exceeds validation limit'', w\<lparr>w_in := []\<rparr>)
      else (Ok (w_in w), w\<lparr>w_in := []\<rparr>))"

definition verify_judge ::
  "(u8 list \<Rightarrow> head_status) \<Rightarrow> work_params \<Rightarrow> judge_target \<Rightarrow> string \<Rightarrow> u8 list io" where
  "verify_judge parse_response p target authority =
     io_bind (write_all (bytes_of (judge_request target authority))) (\<lambda>_.
     io_bind (read_to_end MAX_JUDGE_RESPONSE_BYTES) (\<lambda>response.
       case parse_response response of
         Unparsable \<Rightarrow> io_fail ''malformed response''
       | Partial \<Rightarrow> io_fail ''incomplete HTTP response headers''
       | Parsed None \<Rightarrow> io_fail ''HTTP response did not include a status code''
       | Parsed (Some c) \<Rightarrow>
           if c \<noteq> 200 then io_fail ''local judge returned status''
           else io_lift (accept_text p target (utf8_lossy response))))"

text \<open>\<open>tls\<close> is the exchange over TLS: the status and the body frames, if the handshakes succeed.\<close>

definition verify_tls_judge ::
  "(bool \<Rightarrow> judge_target \<Rightarrow> string \<Rightarrow> (nat \<times> frame list) option) \<Rightarrow> work_params \<Rightarrow> judge_target \<Rightarrow> string \<Rightarrow>
   (u8 list, string) outcome" where
  "verify_tls_judge tls p target authority =
     (case tls (wp_insecure p) target authority of
        None \<Rightarrow> Err ''TLS handshake with judge failed''
      | Some (status, frames) \<Rightarrow>
          if status \<noteq> 200 then Err ''TLS judge returned status''
          else and_then (read_bounded MAX_JUDGE_RESPONSE_BYTES [] frames) (\<lambda>body.
            if length body > MAX_JUDGE_RESPONSE_BYTES then Err ''TLS judge response exceeds validation limit''
            else accept_text p target (utf8_lossy body)))"

record tunnel_net =
  tn_connects :: bool
  tn_handshake_in_time :: bool
  tn_judge_in_time :: bool
  tn_wire :: wire
  tn_parse :: "u8 list \<Rightarrow> head_status"
  tn_b64 :: "string \<Rightarrow> string"
  tn_tls :: "bool \<Rightarrow> judge_target \<Rightarrow> string \<Rightarrow> (nat \<times> frame list) option"

definition tunnel_handshake :: "tunnel_net \<Rightarrow> proxy_auth option \<Rightarrow> protocol \<Rightarrow> judge_target \<Rightarrow> string \<Rightarrow> unit io" where
  "tunnel_handshake net auth protocol target authority =
     (case protocol of
        Https _ \<Rightarrow> tunnel_http_connect (tn_parse net) (tn_b64 net) authority auth
      | Connect _ \<Rightarrow> tunnel_http_connect (tn_parse net) (tn_b64 net) authority auth
      | Socks4 \<Rightarrow> tunnel_socks4 (jt_host target) (jt_port target) auth
      | Socks5 \<Rightarrow> tunnel_socks5 (jt_host target) (jt_port target) auth
      | Http _ \<Rightarrow> io_fail ''HTTP must be validated by support_http'')"

definition probe_authority :: "protocol \<Rightarrow> judge_target \<Rightarrow> string" where
  "probe_authority protocol target =
     (case protocol of Connect port \<Rightarrow> authority_text (jt_host target) port | _ \<Rightarrow> jt_authority target)"

definition probe_once ::
  "work_params \<Rightarrow> proxy_auth option \<Rightarrow> protocol \<Rightarrow> judge_target \<Rightarrow> tunnel_net \<Rightarrow> (u8 list, string) outcome" where
  "probe_once p auth protocol target net =
     (if \<not> tn_connects net then Err ''failed to connect''
      else let authority = probe_authority protocol target
        in case tunnel_handshake net auth protocol target authority (tn_wire net) of
             (Ok _, w) \<Rightarrow>
               if \<not> tn_handshake_in_time net then Err ''proxy tunnel handshake timed out''
               else if \<not> tn_judge_in_time net then Err ''judge probe timed out''
               else if jt_scheme target = ''https'' then verify_tls_judge (tn_tls net) p target authority
               else fst (verify_judge (tn_parse net) p target authority w)
           | (Err e, w) \<Rightarrow> Err e
           | (Panic, w) \<Rightarrow> Panic)"

record tunnel_exchange =
  tx_probe_time :: nat
  tx_net :: tunnel_net
  tx_ip_time :: nat
  tx_cached_ip :: "u8 list option"
  tx_my_ip :: "u8 list option"

definition measured :: "protocol \<Rightarrow> tunnel_exchange \<Rightarrow> u8 list \<Rightarrow> protocol" where
  "measured protocol x body =
     (case protocol of
        Https _ \<Rightarrow>
          (case tx_cached_ip x of
             Some ip \<Rightarrow> Https (classify_anonymity body ip)
           | None \<Rightarrow> (case tx_my_ip x of Some ip \<Rightarrow> Https (classify_anonymity body ip) | None \<Rightarrow> Https Unknown))
      | q \<Rightarrow> q)"

definition tunnel_elapsed :: "protocol \<Rightarrow> tunnel_exchange \<Rightarrow> nat" where
  "tunnel_elapsed protocol x =
     tx_probe_time x + (case protocol of Https _ \<Rightarrow> (if tx_cached_ip x = None then tx_ip_time x else 0) | _ \<Rightarrow> 0)"

fun tunnel_loop ::
  "work_params \<Rightarrow> nat \<Rightarrow> proxy_auth option \<Rightarrow> protocol \<Rightarrow> (nat \<Rightarrow> nat \<Rightarrow> tunnel_exchange) \<Rightarrow>
   (nat \<times> judge_target) list \<Rightarrow> nat list \<Rightarrow> probe_state \<Rightarrow> (probe_result, string) outcome \<times> probe_state" where
  "tunnel_loop p epoch auth protocol ask candidates [] s = (Ok None, s)"
| "tunnel_loop p epoch auth protocol ask candidates (offset # offsets) s =
     (let n = length candidates;
          s1 = (if offset > 0 \<and> offset mod n = 0 \<and> wp_retry_delay p \<noteq> 0
                then s\<lparr>ps_time := ps_time s + wp_retry_delay p\<rparr> else s);
          remaining = probe_budget p - ps_time s1
      in if remaining = 0 then (Ok None, s1)
         else case candidates ! (offset mod n) of
           (i, target) \<Rightarrow>
             if jd_url (jp_judges (ps_pool s1) ! i) \<in> ps_cooling s1
             then tunnel_loop p epoch auth protocol ask candidates offsets s1
             else let x = ask offset (min remaining (wp_request_timeout p));
                      s2 = s1\<lparr>ps_time := ps_time s1 + tx_probe_time x, ps_asked := ps_asked s1 @ [i]\<rparr>
               in case probe_once p auth protocol target (tx_net x) of
                    Ok body \<Rightarrow>
                      (Ok (Some (measured protocol x body, tunnel_elapsed protocol x)),
                       s2\<lparr>ps_time := ps_time s1 + tunnel_elapsed protocol x,
                          ps_pool := jp_report_success (tx_probe_time x) i (ps_pool s2)\<rparr>)
                  | Err e \<Rightarrow> tunnel_loop p epoch auth protocol ask candidates offsets (judge_failed epoch i s2)
                  | Panic \<Rightarrow> (Panic, s2))"

fun judge_targets ::
  "(string \<Rightarrow> (uri_view \<times> string option) option) \<Rightarrow> judge_pool \<Rightarrow> nat list \<Rightarrow> string + (nat \<times> judge_target) list" where
  "judge_targets parse_url pool [] = Inr []"
| "judge_targets parse_url pool (i # is) =
     res_bind (judge_target_of parse_url (jp_judges pool ! i)) (\<lambda>t.
       res_bind (judge_targets parse_url pool is) (\<lambda>ts. Inr ((i, t) # ts)))"

definition saturating_usize :: "nat \<Rightarrow> nat" where
  "saturating_usize n = min n (2 ^ 64 - 1)"

definition support_tunnel ::
  "((nat \<Rightarrow> u64) \<Rightarrow> nat list \<Rightarrow> nat list) \<Rightarrow> (string \<Rightarrow> (uri_view \<times> string option) option) \<Rightarrow> work_params \<Rightarrow> nat \<Rightarrow>
   proxy_auth option \<Rightarrow> protocol \<Rightarrow> (nat \<Rightarrow> nat \<Rightarrow> tunnel_exchange) \<Rightarrow> judge_pool \<Rightarrow>
   (probe_result, string) outcome \<times> probe_state" where
  "support_tunnel sort_with parse_url p epoch auth protocol ask pool =
     (case jp_candidates sort_with epoch pool of
        (is, pool1) \<Rightarrow>
          (case judge_targets parse_url pool1 is of
             Inl e \<Rightarrow> (Err e, probe_start pool1)
           | Inr candidates \<Rightarrow>
               tunnel_loop p epoch auth protocol ask candidates
                 [0..<saturating_usize (wp_max_attempts p * length candidates)] (probe_start pool1)))"

end
