(* ===== verification/Judge_Probe_Props.thy ===== *)
theory Judge_Probe_Props
  imports Judge_Probe
begin

text \<open>
  What the probes promise: they end within their time budget, they accept a proxy only
  on the strength of a judge's own token, and how often they ask a judge.
\<close>

section \<open>Reports keep the judges\<close>

definition same_judges :: "judge_pool \<Rightarrow> judge_pool \<Rightarrow> bool" where
  "same_judges a b \<longleftrightarrow> length (jp_judges a) = length (jp_judges b) \<and>
     (\<forall>i < length (jp_judges a). jd_url (jp_judges a ! i) = jd_url (jp_judges b ! i) \<and>
        jd_marker (jp_judges a ! i) = jd_marker (jp_judges b ! i) \<and>
        jd_token (jp_judges a ! i) = jd_token (jp_judges b ! i))"

lemma same_judges_refl [simp]: "same_judges a a"
  by (simp add: same_judges_def)

lemma same_judges_trans: "same_judges a b \<Longrightarrow> same_judges b c \<Longrightarrow> same_judges a c"
  by (auto simp: same_judges_def)

lemma update_field: "f y = f (xs ! i) \<Longrightarrow> f (xs[i := y] ! k) = f (xs ! k)"
  by (cases "i < length xs"; cases "i = k") (auto simp: list_update_beyond)

lemma same_judges_update:
  assumes "same_judges a b" and "jd_url j = jd_url (jp_judges b ! i)" and "jd_marker j = jd_marker (jp_judges b ! i)"
    and "jd_token j = jd_token (jp_judges b ! i)"
  shows "same_judges a (b\<lparr>jp_judges := (jp_judges b)[i := j]\<rparr>)"
  using assms update_field [of jd_url j "jp_judges b" i] update_field [of jd_marker j "jp_judges b" i]
    update_field [of jd_token j "jp_judges b" i]
  by (simp add: same_judges_def)

lemma same_judges_failure: "same_judges a b \<Longrightarrow> same_judges a (jp_report_failure now i b)"
  unfolding jp_report_failure_def by (rule same_judges_update) simp_all

lemma same_judges_success: "same_judges a b \<Longrightarrow> same_judges a (jp_report_success e i b)"
  unfolding jp_report_success_def Let_def by (cases "(of_nat e :: u64) = 0") (auto intro: same_judges_update)

lemma judge_failed_fields [simp]:
  "ps_time (judge_failed epoch i s) = ps_time s" "ps_asked (judge_failed epoch i s) = ps_asked s"
  "ps_pool (judge_failed epoch i s) = jp_report_failure (epoch + ps_time s) i (ps_pool s)"
  "ps_cooling (judge_failed epoch i s) = insert (jd_url (jp_judges (ps_pool s) ! i)) (ps_cooling s)"
  by (simp_all add: judge_failed_def)

section \<open>Time\<close>

definition http_timers :: "(nat \<Rightarrow> nat \<Rightarrow> nat \<Rightarrow> http_exchange) \<Rightarrow> bool" where
  "http_timers ask \<longleftrightarrow> (\<forall>attempt i limit. hx_time (ask attempt i limit) \<le> limit)"

lemma http_judges_time:
  assumes "\<forall>i limit. hx_time (ask i limit) \<le> limit"
  shows "http_judges p epoch ask js s = (r, s') \<Longrightarrow> ps_time s' \<le> max (ps_time s) (probe_budget p)"
proof (induction js arbitrary: s)
  case Nil
  then show ?case by simp
next
  case (Cons i js)
  let ?limit = "min (probe_budget p - ps_time s) (wp_request_timeout p)"
  have x: "hx_time (ask i ?limit) \<le> probe_budget p - ps_time s"
    using assms le_trans min.cobounded1 by blast
  show ?case
  proof (cases "jd_url (jp_judges (ps_pool s) ! i) \<in> ps_cooling s")
    case True
    with Cons show ?thesis by simp
  next
    case False
    show ?thesis
    proof (cases "probe_budget p - ps_time s = 0")
      case True
      with False Cons.prems show ?thesis by simp
    next
      case pos: False
      then have le: "ps_time s + hx_time (ask i ?limit) \<le> probe_budget p" using x by simp
      then show ?thesis
        using Cons.prems False pos Cons.IH
        by (cases "http_verdict p (jp_judges (ps_pool s) ! i) (ask i ?limit)") (fastforce simp: Let_def)+
    qed
  qed
qed

lemma http_attempts_time:
  assumes "http_timers ask"
  shows "http_attempts p epoch ask cs attempts s = (r, s') \<Longrightarrow>
    ps_time s' \<le> max (ps_time s) (probe_budget p) + wp_retry_delay p * length (filter (\<lambda>a. a > 0) attempts)"
proof (induction attempts arbitrary: s)
  case Nil
  then show ?case by simp
next
  case (Cons a attempts)
  define s1 where "s1 = (if a > 0 \<and> wp_retry_delay p \<noteq> 0 then s\<lparr>ps_time := ps_time s + wp_retry_delay p\<rparr> else s)"
  have t1: "ps_time s1 \<le> ps_time s + (if a > 0 then wp_retry_delay p else 0)" by (simp add: s1_def)
  obtain d s2 where j: "http_judges p epoch (ask a) cs s1 = (d, s2)" by (cases "http_judges p epoch (ask a) cs s1")
  have "\<forall>i limit. hx_time (ask a i limit) \<le> limit" using assms by (simp add: http_timers_def)
  from http_judges_time [OF this j] have t2: "ps_time s2 \<le> max (ps_time s1) (probe_budget p)" .
  show ?case
  proof (cases d)
    case None
    with Cons.prems j have "http_attempts p epoch ask cs attempts s2 = (r, s')" by (simp add: s1_def)
    from Cons.IH [OF this] t1 t2 show ?thesis by (auto simp: max_def split: if_splits)
  next
    case (Some x)
    with Cons.prems j have "s' = s2" by (simp add: s1_def)
    with t1 t2 show ?thesis by (auto simp: max_def split: if_splits)
  qed
qed

lemma filter_pos_upt: "length (filter (\<lambda>a. 0 < a) [0..<n]) = n - 1"
  by (induction n) auto

text \<open>With timers that fire, a plain-HTTP probe ends within its budget, the per-request timeout times
  the attempts, plus one retry delay for every further attempt.\<close>

theorem http_probe_time:
  assumes "http_timers ask" and "support_http sort_with p epoch ask pool = (r, s)"
  shows "ps_time s \<le> probe_budget p + wp_retry_delay p * (wp_max_attempts p - 1)"
proof -
  obtain cs pool1 where c: "jp_candidates sort_with epoch pool = (cs, pool1)" by (cases "jp_candidates sort_with epoch pool")
  with assms(2) have "http_attempts p epoch ask cs [0..<wp_max_attempts p] (probe_start pool1) = (r, s)"
    by (simp add: support_http_def)
  from http_attempts_time [OF assms(1) this] show ?thesis by (simp add: filter_pos_upt probe_start_def)
qed

section \<open>How often a judge is asked\<close>

lemma http_judges_asked:
  assumes "\<forall>j i limit. http_verdict p j (ask i limit) \<noteq> Skip"
    and "http_judges p epoch ask js s = (r, s')"
    and "distinct (ps_asked s)" and "\<forall>i \<in> set (ps_asked s). jd_url (jp_judges (ps_pool s) ! i) \<in> ps_cooling s"
    and "same_judges pool (ps_pool s)" and "set js \<subseteq> {..<jp_len pool}" and "set (ps_asked s) \<subseteq> {..<jp_len pool}"
  shows "distinct (ps_asked s') \<and> set (ps_asked s') \<subseteq> set (ps_asked s) \<union> set js \<and> same_judges pool (ps_pool s') \<and>
    (r = None \<longrightarrow> (\<forall>i \<in> set (ps_asked s'). jd_url (jp_judges (ps_pool s') ! i) \<in> ps_cooling s'))"
  using assms(2-)
proof (induction js arbitrary: s)
  case Nil
  then show ?case by simp
next
  case (Cons i js)
  let ?x = "ask i (min (probe_budget p - ps_time s) (wp_request_timeout p))"
  show ?case
  proof (cases "jd_url (jp_judges (ps_pool s) ! i) \<in> ps_cooling s")
    case True
    then have "http_judges p epoch ask js s = (r, s')" using Cons.prems(1) by simp
    from Cons.IH [OF this] Cons.prems show ?thesis by auto
  next
    case False
    show ?thesis
    proof (cases "probe_budget p - ps_time s = 0")
      case True
      with False Cons.prems show ?thesis by auto
    next
      case pos: False
      have new: "i \<notin> set (ps_asked s)" using False Cons.prems(3) by auto
      have builds: "hx_builds ?x" using assms(1) unfolding http_verdict_def by (metis (full_types))
      define s1 where "s1 = s\<lparr>ps_time := ps_time s + hx_time ?x, ps_asked := ps_asked s @ [i]\<rparr>"
      have step: "http_judges p epoch ask (i # js) s =
          (case http_verdict p (jp_judges (ps_pool s) ! i) ?x of
             Skip \<Rightarrow> http_judges p epoch ask js s1
           | JudgeFails \<Rightarrow> http_judges p epoch ask js (judge_failed epoch i s1)
           | Accepted q \<Rightarrow> (Some (Some (q, hx_time ?x)), s1\<lparr>ps_pool := jp_report_success (hx_time ?x) i (ps_pool s1)\<rparr>))"
        using False pos builds by (simp add: Let_def s1_def split: verdict.split)
      show ?thesis
      proof (cases "http_verdict p (jp_judges (ps_pool s) ! i) ?x")
        case Skip
        with assms(1) show ?thesis by blast
      next
        case JudgeFails
        let ?s2 = "judge_failed epoch i s1"
        have run: "http_judges p epoch ask js ?s2 = (r, s')" using Cons.prems(1) step JudgeFails by simp
        have sj: "same_judges pool (ps_pool ?s2)" using Cons.prems(4) by (simp add: s1_def same_judges_failure)
        have url: "jd_url (jp_judges (ps_pool ?s2) ! k) = jd_url (jp_judges (ps_pool s) ! k)" if "k < jp_len pool" for k
          using that sj Cons.prems(4) by (simp add: same_judges_def jp_len_def)
        have "i < jp_len pool" "set js \<subseteq> {..<jp_len pool}" using Cons.prems(5) by auto
        then have "\<forall>k \<in> set (ps_asked ?s2). jd_url (jp_judges (ps_pool ?s2) ! k) \<in> ps_cooling ?s2"
          using url Cons.prems(3,6) by (auto simp: s1_def simp del: judge_failed_fields(3))
        with Cons.IH [OF run _ _ sj \<open>set js \<subseteq> _\<close>] Cons.prems new \<open>i < jp_len pool\<close> show ?thesis
          by (auto simp: s1_def)
      next
        case (Accepted q)
        with Cons.prems step new show ?thesis by (auto simp: s1_def same_judges_success)
      qed
    qed
  qed
qed

lemma http_attempts_asked:
  assumes "\<forall>a j i limit. http_verdict p j (ask a i limit) \<noteq> Skip"
    and "http_attempts p epoch ask cs attempts s = (r, s')"
    and "distinct (ps_asked s)" and "\<forall>i \<in> set (ps_asked s). jd_url (jp_judges (ps_pool s) ! i) \<in> ps_cooling s"
    and "same_judges pool (ps_pool s)" and "set cs \<subseteq> {..<jp_len pool}" and "set (ps_asked s) \<subseteq> set cs"
  shows "distinct (ps_asked s') \<and> set (ps_asked s') \<subseteq> set cs"
  using assms(2-)
proof (induction attempts arbitrary: s)
  case Nil
  then show ?case by simp
next
  case (Cons a attempts)
  define s1 where "s1 = (if a > 0 \<and> wp_retry_delay p \<noteq> 0 then s\<lparr>ps_time := ps_time s + wp_retry_delay p\<rparr> else s)"
  have same: "ps_asked s1 = ps_asked s" "ps_pool s1 = ps_pool s" "ps_cooling s1 = ps_cooling s"
    by (simp_all add: s1_def)
  obtain d s2 where j: "http_judges p epoch (ask a) cs s1 = (d, s2)" by (cases "http_judges p epoch (ask a) cs s1")
  have ns: "\<forall>j i limit. http_verdict p j (ask a i limit) \<noteq> Skip" using assms(1) by blast
  have bound: "set (ps_asked s1) \<subseteq> {..<jp_len pool}" using Cons.prems(5,6) same by auto
  from http_judges_asked [OF ns j _ _ _ Cons.prems(5) bound] Cons.prems same have
    s2: "distinct (ps_asked s2)" "set (ps_asked s2) \<subseteq> set cs" "same_judges pool (ps_pool s2)"
      "d = None \<longrightarrow> (\<forall>i \<in> set (ps_asked s2). jd_url (jp_judges (ps_pool s2) ! i) \<in> ps_cooling s2)" by auto
  show ?case
  proof (cases d)
    case None
    with Cons.prems(1) j have "http_attempts p epoch ask cs attempts s2 = (r, s')" by (simp add: s1_def)
    from Cons.IH [OF this s2(1) _ s2(3) Cons.prems(5) s2(2)] s2(4) None show ?thesis by simp
  next
    case (Some x)
    with Cons.prems(1) j have "s' = s2" by (simp add: s1_def)
    with s2 show ?thesis by simp
  qed
qed

text \<open>Whatever the number of attempts, a judge is asked at most once by a probe, unless it answered
  with its token and the answer was dropped for another reason: an unreachable proxy is not retried.\<close>

theorem judges_asked_once:
  assumes "sorts sort_with" and "jp_len pool < 2 ^ 64"
    and "\<forall>a j i limit. http_verdict p j (ask a i limit) \<noteq> Skip"
    and "support_http sort_with p epoch ask pool = (r, s)"
  shows "distinct (ps_asked s) \<and> length (ps_asked s) \<le> jp_len pool"
proof -
  obtain cs pool1 where c: "jp_candidates sort_with epoch pool = (cs, pool1)" by (cases "jp_candidates sort_with epoch pool")
  from candidates_plain [OF assms(1) c assms(2)] have
    cs: "set cs \<subseteq> {..<jp_len pool}" "jp_judges pool1 = jp_judges pool" by auto
  from assms(4) c have run: "http_attempts p epoch ask cs [0..<wp_max_attempts p] (probe_start pool1) = (r, s)"
    by (simp add: support_http_def)
  have "same_judges pool (ps_pool (probe_start pool1))" using cs(2) by (simp add: same_judges_def probe_start_def)
  from http_attempts_asked [OF assms(3) run _ _ this cs(1)] have
    d: "distinct (ps_asked s)" "set (ps_asked s) \<subseteq> {..<jp_len pool}"
    using cs(1) by (auto simp: probe_start_def)
  then have "card (set (ps_asked s)) \<le> card {..<jp_len pool}" by (intro card_mono) auto
  with d show ?thesis by (simp add: distinct_card)
qed

definition demo_params :: work_params where
  "demo_params = \<lparr>wp_max_attempts = 3, wp_request_timeout = 1000, wp_insecure = False,
     wp_support_cookies = False, wp_support_referer = False, wp_retry_delay = 10\<rparr>"

definition demo_ask :: "nat \<Rightarrow> nat \<Rightarrow> nat \<Rightarrow> http_exchange" where
  "demo_ask a i limit =
     \<lparr>hx_time = min 5 limit, hx_builds = True, hx_reply = Unreachable, hx_cached_ip = None, hx_my_ip = None\<rparr>"

theorem http_probe_time_witness:
  "ps_time (snd (support_http (\<lambda>key xs. sort_key key xs) demo_params 10 demo_ask demo_judges)) \<le> 3020"
  using http_probe_time [of demo_ask "\<lambda>key xs. sort_key key xs" demo_params 10 demo_judges]
  by (cases "support_http (\<lambda>key xs. sort_key key xs) demo_params 10 demo_ask demo_judges")
    (simp add: http_timers_def demo_ask_def demo_params_def probe_budget_def DURATION_MAX_def)

theorem judges_asked_once_witness:
  "length (ps_asked (snd (support_http (\<lambda>key xs. sort_key key xs) demo_params 10 demo_ask demo_judges))) \<le> 2"
  using judges_asked_once [of "\<lambda>key xs. sort_key key xs" demo_judges demo_params demo_ask 10] sorts_sort_key
  by (cases "support_http (\<lambda>key xs. sort_key key xs) demo_params 10 demo_ask demo_judges")
    (simp add: http_verdict_def demo_ask_def demo_judges_def jp_from_targets_def jp_len_def)

section \<open>What an accepted proxy has shown\<close>

definition echoed :: "work_params \<Rightarrow> string \<Rightarrow> u8 list \<Rightarrow> bool" where
  "echoed p marker bytes \<longleftrightarrow> contains bytes (ascii_bytes marker) \<and>
     (wp_support_cookies p \<longrightarrow> contains bytes COOKIE_ECHO) \<and>
     (wp_support_referer p \<longrightarrow> contains bytes REFERER_ECHO)"

lemma check_echo_echoed: "check_echo (echo_check_of p j) bytes = Echoed \<longleftrightarrow> echoed p (jd_marker j) bytes"
  by (auto simp: check_echo_def echo_check_of_def echoed_def)

lemma judge_body_accepted:
  "judge_body ec body level = Accepted q \<Longrightarrow>
   \<exists>bytes. body = Ok bytes \<and> check_echo ec bytes = Echoed \<and> q = Http (level bytes)"
  by (auto simp: judge_body_def split: outcome.splits echo.splits)

lemma http_verdict_accepted:
  assumes "http_verdict p j x = Accepted q"
  shows "\<exists>headers frames bytes a. hx_reply x = Reply True headers frames \<and> echoed p (jd_marker j) bytes \<and> q = Http a \<and>
    (to_raw_response headers frames = Ok bytes \<or>
     (\<exists>ip. to_raw_response_early_exit (echo_check_of p j) ip headers frames = Ok bytes))"
  using assms
  by (auto simp: http_verdict_def Let_def check_echo_echoed split: if_splits http_reply.splits option.splits
      dest!: judge_body_accepted)

lemma http_verdict_marker: "jd_marker j = jd_marker j' \<Longrightarrow> http_verdict p j x = http_verdict p j' x"
proof -
  assume "jd_marker j = jd_marker j'"
  then have "echo_check_of p j = echo_check_of p j'" by (simp add: echo_check_of_def)
  then show ?thesis unfolding http_verdict_def by (simp only:)
qed

lemma http_judges_accepted:
  assumes "http_judges p epoch ask js s = (Some (Some (q, e)), s')"
    and "same_judges pool (ps_pool s)" and "set js \<subseteq> {..<jp_len pool}"
  shows "\<exists>i \<in> set js. \<exists>limit. http_verdict p (jp_judges pool ! i) (ask i limit) = Accepted q"
  using assms
proof (induction js arbitrary: s)
  case Nil
  then show ?case by simp
next
  case (Cons i js)
  let ?limit = "min (probe_budget p - ps_time s) (wp_request_timeout p)"
  have "jd_marker (jp_judges pool ! i) = jd_marker (jp_judges (ps_pool s) ! i)"
    using Cons.prems(2,3) by (simp add: same_judges_def jp_len_def)
  then have v: "http_verdict p (jp_judges (ps_pool s) ! i) (ask i ?limit) = http_verdict p (jp_judges pool ! i) (ask i ?limit)"
    using http_verdict_marker by metis
  consider "\<exists>s1. http_judges p epoch ask js s1 = (Some (Some (q, e)), s') \<and> same_judges pool (ps_pool s1)"
    | "http_verdict p (jp_judges pool ! i) (ask i ?limit) = Accepted q"
    using Cons.prems(1,2) v
    by (auto simp: Let_def split: if_splits verdict.splits) (metis judge_failed_fields(3) probe_state.select_convs(3)
        probe_state.surjective probe_state.update_convs(1,4) same_judges_failure)+
  then show ?case
  proof cases
    case 1
    with Cons.IH Cons.prems(3) show ?thesis by fastforce
  next
    case 2
    then show ?thesis by auto
  qed
qed

lemma http_judges_same:
  "http_judges p epoch ask js s = (r, s') \<Longrightarrow> same_judges pool (ps_pool s) \<Longrightarrow> same_judges pool (ps_pool s')"
proof (induction js arbitrary: s)
  case Nil
  then show ?case by simp
next
  case (Cons i js)
  define s1 where "s1 = s\<lparr>ps_time := ps_time s + hx_time (ask i (min (probe_budget p - ps_time s) (wp_request_timeout p))),
    ps_asked := ps_asked s @ (if hx_builds (ask i (min (probe_budget p - ps_time s) (wp_request_timeout p))) then [i] else [])\<rparr>"
  have "ps_pool s1 = ps_pool s" by (simp add: s1_def)
  with Cons.prems(2) have sj: "same_judges pool (ps_pool s1)" "same_judges pool (ps_pool (judge_failed epoch i s1))"
    by (simp_all add: same_judges_failure)
  have "s' = s \<or> (\<exists>h. s' = s1\<lparr>ps_pool := jp_report_success h i (ps_pool s1)\<rparr>) \<or>
      http_judges p epoch ask js s = (r, s') \<or> http_judges p epoch ask js s1 = (r, s') \<or>
      http_judges p epoch ask js (judge_failed epoch i s1) = (r, s')"
    using Cons.prems(1) unfolding s1_def by (auto simp: Let_def split: if_splits verdict.splits)
  then show ?case
    using Cons.IH Cons.prems(2) sj by (auto simp: same_judges_success)
qed

lemma http_attempts_accepted:
  assumes "http_attempts p epoch ask cs attempts s = (Some (q, e), s')"
    and "same_judges pool (ps_pool s)" and "set cs \<subseteq> {..<jp_len pool}"
  shows "\<exists>a. \<exists>i \<in> set cs. \<exists>limit. http_verdict p (jp_judges pool ! i) (ask a i limit) = Accepted q"
  using assms
proof (induction attempts arbitrary: s)
  case Nil
  then show ?case by simp
next
  case (Cons a attempts)
  define s1 where "s1 = (if a > 0 \<and> wp_retry_delay p \<noteq> 0 then s\<lparr>ps_time := ps_time s + wp_retry_delay p\<rparr> else s)"
  have sj: "same_judges pool (ps_pool s1)" using Cons.prems(2) by (simp add: s1_def)
  obtain d s2 where j: "http_judges p epoch (ask a) cs s1 = (d, s2)" by (cases "http_judges p epoch (ask a) cs s1")
  show ?case
  proof (cases d)
    case None
    with Cons.prems(1) j have "http_attempts p epoch ask cs attempts s2 = (Some (q, e), s')" by (simp add: s1_def)
    from Cons.IH [OF this http_judges_same [OF j sj] Cons.prems(3)] show ?thesis .
  next
    case (Some x)
    with Cons.prems(1) j have "http_judges p epoch (ask a) cs s1 = (Some (Some (q, e)), s')" by (simp add: s1_def)
    from http_judges_accepted [OF this sj Cons.prems(3)] show ?thesis by blast
  qed
qed

text \<open>C37: the plain-HTTP probe accepts a proxy only because a judge of the pool answered through it with
  success and with the token minted for it, and, when required, with the echoed cookie and referer; the
  result is an HTTP level.\<close>

theorem http_probe_sound:
  assumes "sorts sort_with" and "jp_len pool < 2 ^ 64"
    and "support_http sort_with p epoch ask pool = (Some (q, e), s)"
  shows "\<exists>a i limit headers frames bytes. i < jp_len pool \<and>
    hx_reply (ask a i limit) = Reply True headers frames \<and> echoed p (jd_marker (jp_judges pool ! i)) bytes \<and>
    (\<exists>level. q = Http level) \<and>
    (to_raw_response headers frames = Ok bytes \<or>
     (\<exists>ip. to_raw_response_early_exit (echo_check_of p (jp_judges pool ! i)) ip headers frames = Ok bytes))"
proof -
  obtain cs pool1 where c: "jp_candidates sort_with epoch pool = (cs, pool1)" by (cases "jp_candidates sort_with epoch pool")
  from candidates_plain [OF assms(1) c assms(2)] have
    cs: "set cs \<subseteq> {..<jp_len pool}" "jp_judges pool1 = jp_judges pool" by auto
  from assms(3) c have run: "http_attempts p epoch ask cs [0..<wp_max_attempts p] (probe_start pool1) = (Some (q, e), s)"
    by (simp add: support_http_def)
  have sj: "same_judges pool (ps_pool (probe_start pool1))" using cs(2) by (simp add: same_judges_def probe_start_def)
  from http_attempts_accepted [OF run sj cs(1)] obtain a i limit where
    "i \<in> set cs" "http_verdict p (jp_judges pool ! i) (ask a i limit) = Accepted q" by blast
  from http_verdict_accepted [OF this(2)] this(1) cs(1) show ?thesis by blast
qed

definition good_ask :: "nat \<Rightarrow> nat \<Rightarrow> nat \<Rightarrow> http_exchange" where
  "good_ask a i limit =
     \<lparr>hx_time = min 5 limit, hx_builds = True, hx_reply = Reply True [] [Data [109, 110]],
      hx_cached_ip = Some [49], hx_my_ip = None\<rparr>"

lemma demo_candidates: "jp_candidates (\<lambda>key xs. sort_key key xs) 10 demo_judges = ([1], demo_judges)"
proof -
  have "ready_judges 10 demo_judges = [1]"
    by (simp add: ready_judges_def demo_judges_def jp_from_targets_def jp_len_def cooled_def upt_rec)
  then show ?thesis by (simp add: jp_candidates_def)
qed

lemma good_run:
  "support_http (\<lambda>key xs. sort_key key xs) demo_params 10 good_ask demo_judges =
     (Some (Http Elite, 5), (probe_start demo_judges)\<lparr>ps_time := 5, ps_asked := [1],
        ps_pool := jp_report_success 5 1 demo_judges\<rparr>)"
proof -
  have e: "probe_budget demo_params = 3000" by (simp add: probe_budget_def demo_params_def DURATION_MAX_def)
  have body: "to_raw_response_early_exit (echo_check_of demo_params (jp_judges demo_judges ! Suc 0)) [49] [] [Data [109, 110]]
      = Ok [10, 10, 109, 110]"
    by (simp add: to_raw_response_early_exit_def should_stop_def echo_check_of_def demo_judges_def jp_from_targets_def
        demo_params_def ascii_bytes_def contains_def Let_def MAX_JUDGE_BODY_BYTES_def)
  have lossy: "utf8_lossy [10, 10, 109, 110] = [10, 10, 109, 110]"
    by (simp add: utf8_lossy.simps seq_len_def)
  have level: "level_of [49] [10, 10, 109, 110] = Elite"
    by (simp add: level_of_def lossy classify_anonymity_def ANON_INTEREST_def ascii_bytes_def contains_def)
  have echo: "check_echo (echo_check_of demo_params (jp_judges demo_judges ! Suc 0)) [10, 10, 109, 110] = Echoed"
    by (simp add: check_echo_def echo_check_of_def demo_judges_def jp_from_targets_def demo_params_def ascii_bytes_def contains_def)
  have v: "http_verdict demo_params (jp_judges demo_judges ! Suc 0) (good_ask a i l) = Accepted (Http Elite)" for a i l
    by (simp add: http_verdict_def good_ask_def body judge_body_def echo level Let_def)
  have t: "wp_request_timeout demo_params = 1000" "wp_max_attempts demo_params = 3" by (simp_all add: demo_params_def)
  have u: "[0..<3] = [0, 1, 2::nat]" by (simp add: upt_rec)
  show ?thesis
    unfolding support_http_def demo_candidates t u
    by (simp add: Let_def probe_start_def e t v) (simp add: good_ask_def)
qed

theorem http_probe_sound_witness:
  "\<exists>a i limit headers frames. i < 2 \<and> hx_reply (good_ask a i limit) = Reply True headers frames"
proof -
  have l: "jp_len demo_judges = 2" by (simp add: demo_judges_def jp_from_targets_def jp_len_def)
  then have "jp_len demo_judges < 2 ^ 64" by simp
  from http_probe_sound [OF sorts_sort_key this good_run] obtain a i limit headers frames where
    "i < 2" "hx_reply (good_ask a i limit) = Reply True headers frames" unfolding l by blast
  then show ?thesis by blast
qed

section \<open>Tunnels\<close>

lemma safe_tunnel_socks4: "safe_io (tunnel_socks4 host port auth)"
  by (simp add: tunnel_socks4_def Let_def io_safety)

lemma safe_read_discard: "safe_io (read_discard n)"
  by (simp add: read_discard_def io_safety)

lemma safe_tunnel_socks5: "safe_io (tunnel_socks5 host port auth)"
  unfolding tunnel_socks5_def
  by (intro io_safety safe_read_discard credentials_safe)

lemma safe_read_headers: "fst (read_http_headers response w) \<noteq> Panic"
  by (induction response w rule: read_http_headers.induct)
    (subst read_http_headers.simps, simp add: Let_def)

lemma safe_tunnel_connect: "safe_io (tunnel_http_connect parse_response b64_encode authority auth)"
proof -
  have "safe_io (read_http_headers [])" using safe_read_headers by (simp add: safe_io_def)
  then show ?thesis
    unfolding tunnel_http_connect_def
    by (intro safe_bind_all safe_basic) (auto intro!: io_safety split: head_status.split option.split)
qed

lemma accept_text_safe: "accept_text p target text \<noteq> Panic"
  by (simp add: accept_text_def)

lemma read_bounded_safe: "read_bounded limit got frames \<noteq> Panic"
proof (induction frames arbitrary: got)
  case Nil
  then show ?case by simp
next
  case (Cons f fs)
  then show ?case by (cases f) simp_all
qed

lemma safe_tunnel_handshake: "safe_io (tunnel_handshake net auth protocol target authority)"
  using safe_tunnel_socks4 safe_tunnel_socks5 safe_tunnel_connect
  by (cases protocol) (simp_all add: tunnel_handshake_def io_safety)

lemma verify_judge_safe: "fst (verify_judge parse_response p target authority w) \<noteq> Panic"
  by (auto simp: verify_judge_def io_bind_def write_all_def read_to_end_def io_fail_def io_lift_def accept_text_safe
      split: outcome.splits prod.splits head_status.splits option.splits if_splits)

lemma verify_tls_safe: "verify_tls_judge tls p target authority \<noteq> Panic"
  by (auto simp: verify_tls_judge_def outcome_simps read_bounded_safe accept_text_safe split: option.split prod.split)

lemma probe_once_safe: "probe_once p auth protocol target net \<noteq> Panic"
  using safe_tunnel_handshake [of net auth protocol target "probe_authority protocol target"]
  by (auto simp: probe_once_def Let_def safe_io_def verify_tls_safe verify_judge_safe
      split: outcome.split prod.split) (metis fst_conv)+

lemma accept_text_echoed: "accept_text p target text = Ok body \<Longrightarrow> body = text \<and> echoed p (jt_marker target) body"
  by (auto simp: accept_text_def echoed_def split: if_splits)

text \<open>
  The answer of a judge through an open tunnel: the body of a response of status 200 over TLS, or
  everything that is read from the wire up to its end when its head has status 200.
\<close>

definition judge_answer :: "work_params \<Rightarrow> judge_target \<Rightarrow> string \<Rightarrow> tunnel_net \<Rightarrow> wire \<Rightarrow> u8 list \<Rightarrow> bool" where
  "judge_answer p target authority net w body \<longleftrightarrow>
     (if jt_scheme target = ''https''
      then \<exists>frames raw. tn_tls net (wp_insecure p) target authority = Some (200, frames) \<and>
             read_bounded MAX_JUDGE_RESPONSE_BYTES [] frames = Ok raw \<and> body = utf8_lossy raw
      else tn_parse net (w_in w) = Parsed (Some 200) \<and> length (w_in w) \<le> MAX_JUDGE_RESPONSE_BYTES \<and>
           body = utf8_lossy (w_in w))"

lemma verify_judge_echoed:
  "verify_judge parse_response p target authority w = (Ok body, w') \<Longrightarrow> echoed p (jt_marker target) body \<and>
     parse_response (w_in w) = Parsed (Some 200) \<and> length (w_in w) \<le> MAX_JUDGE_RESPONSE_BYTES \<and> body = utf8_lossy (w_in w)"
  by (auto simp: verify_judge_def io_bind_def write_all_def read_to_end_def io_fail_def io_lift_def
      dest: accept_text_echoed split: outcome.splits prod.splits head_status.splits option.splits if_splits)

lemma verify_tls_echoed:
  "verify_tls_judge tls p target authority = Ok body \<Longrightarrow> echoed p (jt_marker target) body \<and>
     (\<exists>frames raw. tls (wp_insecure p) target authority = Some (200, frames) \<and>
        read_bounded MAX_JUDGE_RESPONSE_BYTES [] frames = Ok raw \<and> body = utf8_lossy raw)"
  by (auto simp: verify_tls_judge_def outcome_simps dest: accept_text_echoed split: option.splits prod.splits if_splits)

lemma probe_once_echoed:
  assumes "probe_once p auth protocol target net = Ok body"
  shows "echoed p (jt_marker target) body \<and>
    (\<exists>w. tunnel_handshake net auth protocol target (probe_authority protocol target) (tn_wire net) = (Ok (), w) \<and>
       judge_answer p target (probe_authority protocol target) net w body)"
proof -
  let ?authority = "probe_authority protocol target"
  from assms obtain w where w: "tunnel_handshake net auth protocol target ?authority (tn_wire net) = (Ok (), w)"
    and v: "(if jt_scheme target = ''https'' then verify_tls_judge (tn_tls net) p target ?authority
      else fst (verify_judge (tn_parse net) p target ?authority w)) = Ok body"
    by (auto simp: probe_once_def Let_def split: if_splits outcome.splits prod.splits)
  show ?thesis
  proof (cases "jt_scheme target = ''https''")
    case True
    with v verify_tls_echoed [of "tn_tls net" p target ?authority body] w show ?thesis by (simp add: judge_answer_def)
  next
    case False
    with v obtain w' where "verify_judge (tn_parse net) p target ?authority w = (Ok body, w')" by (metis prod.collapse)
    from verify_judge_echoed [OF this] False w show ?thesis by (auto simp: judge_answer_def)
  qed
qed

definition tunnel_timers :: "protocol \<Rightarrow> (nat \<Rightarrow> nat \<Rightarrow> tunnel_exchange) \<Rightarrow> bool" where
  "tunnel_timers protocol ask \<longleftrightarrow> (\<forall>offset limit. tunnel_elapsed protocol (ask offset limit) \<le> limit)"

lemma probe_time_le: "tx_probe_time x \<le> tunnel_elapsed protocol x"
  by (simp add: tunnel_elapsed_def)

lemma tunnel_loop_facts:
  assumes "tunnel_timers protocol ask" and "candidates \<noteq> []"
    and "tunnel_loop p epoch auth protocol ask candidates offsets s = (r, s')" and "ps_time s \<le> probe_budget p"
  shows "r \<noteq> Panic \<and> ps_time s' \<le> probe_budget p + wp_retry_delay p \<and>
    (\<forall>q e. r = Ok (Some (q, e)) \<longrightarrow> (\<exists>offset limit i target body. (i, target) \<in> set candidates \<and>
       probe_once p auth protocol target (tx_net (ask offset limit)) = Ok body \<and>
       q = measured protocol (ask offset limit) body))"
  using assms(3,4)
proof (induction offsets arbitrary: s)
  case Nil
  then show ?case by auto
next
  case (Cons offset offsets)
  let ?n = "length candidates"
  define s1 where "s1 = (if offset > 0 \<and> offset mod ?n = 0 \<and> wp_retry_delay p \<noteq> 0
    then s\<lparr>ps_time := ps_time s + wp_retry_delay p\<rparr> else s)"
  have t1: "ps_time s1 \<le> probe_budget p + wp_retry_delay p" using Cons.prems(2) by (simp add: s1_def)
  obtain i target where it: "candidates ! (offset mod ?n) = (i, target)" by (cases "candidates ! (offset mod ?n)")
  have mem: "(i, target) \<in> set candidates" using it assms(2) by (metis length_greater_0_conv mod_less_divisor nth_mem)
  define limit where "limit = min (probe_budget p - ps_time s1) (wp_request_timeout p)"
  define x where "x = ask offset limit"
  define s2 where "s2 = s1\<lparr>ps_time := ps_time s1 + tx_probe_time x, ps_asked := ps_asked s1 @ [i]\<rparr>"
  have el: "tunnel_elapsed protocol x \<le> probe_budget p - ps_time s1"
    using assms(1) unfolding tunnel_timers_def x_def limit_def using le_trans min.cobounded1 by blast
  note step = Cons.prems(1) [unfolded tunnel_loop.simps Let_def, folded s1_def, unfolded it prod.case,
      folded limit_def, folded x_def, folded s2_def]
  show ?case
  proof (cases "probe_budget p - ps_time s1 = 0")
    case True
    with step t1 show ?thesis by auto
  next
    case pos: False
    then have le: "ps_time s1 \<le> probe_budget p" "ps_time s2 \<le> probe_budget p"
      "ps_time s1 + tunnel_elapsed protocol x \<le> probe_budget p"
      using el probe_time_le [of x protocol] by (simp_all add: s2_def)
    show ?thesis
    proof (cases "jd_url (jp_judges (ps_pool s1) ! i) \<in> ps_cooling s1")
      case True
      with step pos have "tunnel_loop p epoch auth protocol ask candidates offsets s1 = (r, s')" by simp
      from Cons.IH [OF this le(1)] show ?thesis .
    next
      case False
      show ?thesis
      proof (cases "probe_once p auth protocol target (tx_net x)")
        case (Ok body)
        with step pos False have "r = Ok (Some (measured protocol x body, tunnel_elapsed protocol x))"
          "ps_time s' = ps_time s1 + tunnel_elapsed protocol x" by auto
        moreover have "\<exists>offset limit i target body. (i, target) \<in> set candidates \<and>
            probe_once p auth protocol target (tx_net (ask offset limit)) = Ok body \<and>
            measured protocol x body' = measured protocol (ask offset limit) body" if "body' = body" for body'
          using mem Ok that unfolding x_def by blast
        ultimately show ?thesis using le(3) by simp
      next
        case (Err e)
        with step pos False
        have "tunnel_loop p epoch auth protocol ask candidates offsets (judge_failed epoch i s2) = (r, s')" by simp
        from Cons.IH [OF this] le(2) show ?thesis by simp
      next
        case Panic
        with probe_once_safe show ?thesis by blast
      qed
    qed
  qed
qed

lemma judge_targets_marker:
  "judge_targets parse_url pool js = Inr candidates \<Longrightarrow> (i, target) \<in> set candidates \<Longrightarrow>
   i \<in> set js \<and> judge_target_of parse_url (jp_judges pool ! i) = Inr target \<and> jt_marker target = jd_marker (jp_judges pool ! i)"
proof (induction js arbitrary: candidates)
  case Nil
  then show ?case by simp
next
  case (Cons j js)
  from Cons.prems(1) obtain t ts where t: "judge_target_of parse_url (jp_judges pool ! j) = Inr t"
    "judge_targets parse_url pool js = Inr ts" "candidates = (j, t) # ts"
    by (auto simp: outcome_simps)
  from t(1) have "jt_marker t = jd_marker (jp_judges pool ! j)"
    by (auto simp: judge_target_of_def split: option.splits prod.splits)
  with Cons.IH [OF t(2)] Cons.prems(2) t(1,3) show ?case by auto
qed

text \<open>C38: a tunnel probe never panics and ends within its budget plus one retry delay. It accepts a proxy
  only after, in one exchange, the proxy's handshake for the requested protocol succeeded and a judge of the pool
  answered through that tunnel with status 200 and a body that holds the judge's own token and, when
  required, the echoed cookie and referer; the result is what that body measures: an
  anonymity level for HTTPS, the requested protocol for any other.\<close>

theorem tunnel_probe_sound:
  assumes "sorts sort_with" and "jp_len pool < 2 ^ 64" and "tunnel_timers protocol ask"
    and "support_tunnel sort_with parse_url p epoch auth protocol ask pool = (r, s)"
  shows "r \<noteq> Panic \<and> ps_time s \<le> probe_budget p + wp_retry_delay p \<and>
    (\<forall>q e. r = Ok (Some (q, e)) \<longrightarrow>
       (\<exists>offset limit i target w body. i < jp_len pool \<and> judge_target_of parse_url (jp_judges pool ! i) = Inr target \<and>
          tunnel_handshake (tx_net (ask offset limit)) auth protocol target (probe_authority protocol target)
            (tn_wire (tx_net (ask offset limit))) = (Ok (), w) \<and>
          judge_answer p target (probe_authority protocol target) (tx_net (ask offset limit)) w body \<and>
          echoed p (jd_marker (jp_judges pool ! i)) body \<and>
          q = measured protocol (ask offset limit) body \<and>
          (case protocol of Https _ \<Rightarrow> (\<exists>level. q = Https level) | _ \<Rightarrow> q = protocol)))"
proof -
  obtain js pool1 where c: "jp_candidates sort_with epoch pool = (js, pool1)" by (cases "jp_candidates sort_with epoch pool")
  from candidates_plain [OF assms(1) c assms(2)] have
    js: "set js \<subseteq> {..<jp_len pool}" "jp_judges pool1 = jp_judges pool" by auto
  show ?thesis
  proof (cases "judge_targets parse_url pool1 js")
    case (Inl e)
    with assms(4) c show ?thesis by (auto simp: support_tunnel_def probe_start_def)
  next
    case (Inr candidates)
    let ?offsets = "[0..<saturating_usize (wp_max_attempts p * length candidates)]"
    from assms(4) c Inr have run:
      "tunnel_loop p epoch auth protocol ask candidates ?offsets (probe_start pool1) = (r, s)"
      by (simp add: support_tunnel_def)
    show ?thesis
    proof (cases "candidates = []")
      case True
      with run show ?thesis by (auto simp: saturating_usize_def probe_start_def)
    next
      case False
      have "ps_time (probe_start pool1) \<le> probe_budget p" by (simp add: probe_start_def)
      note facts = tunnel_loop_facts [OF assms(3) False run this]
      have "\<exists>offset limit i target w body. i < jp_len pool \<and> judge_target_of parse_url (jp_judges pool ! i) = Inr target \<and>
          tunnel_handshake (tx_net (ask offset limit)) auth protocol target (probe_authority protocol target)
            (tn_wire (tx_net (ask offset limit))) = (Ok (), w) \<and>
          judge_answer p target (probe_authority protocol target) (tx_net (ask offset limit)) w body \<and>
          echoed p (jd_marker (jp_judges pool ! i)) body \<and>
          q = measured protocol (ask offset limit) body \<and>
          (case protocol of Https _ \<Rightarrow> (\<exists>level. q = Https level) | _ \<Rightarrow> q = protocol)"
        if "r = Ok (Some (q, e))" for q e
      proof -
        from facts that obtain offset limit i target body where
          m: "(i, target) \<in> set candidates" "probe_once p auth protocol target (tx_net (ask offset limit)) = Ok body"
            "q = measured protocol (ask offset limit) body" by blast
        from judge_targets_marker [OF Inr m(1)] js have "i < jp_len pool" "jt_marker target = jd_marker (jp_judges pool ! i)"
          "judge_target_of parse_url (jp_judges pool ! i) = Inr target"
          by auto
        moreover have "case protocol of Https _ \<Rightarrow> (\<exists>level. q = Https level) | _ \<Rightarrow> q = protocol"
          using m(3) by (auto simp: measured_def split: protocol.split option.split)
        ultimately show ?thesis using probe_once_echoed [OF m(2)] m(3) by metis
      qed
      with facts show ?thesis by blast
    qed
  qed
qed

definition good_net :: tunnel_net where
  "good_net =
     \<lparr>tn_connects = True, tn_handshake_in_time = True, tn_judge_in_time = True,
      tn_wire = \<lparr>w_in = [0, 90, 0, 0, 0, 0, 0, 0], w_out = [], w_open = True\<rparr>,
      tn_parse = (\<lambda>_. Partial), tn_b64 = (\<lambda>text. text),
      tn_tls = (\<lambda>_ _ _. Some (200, [Data [109, 110]]))\<rparr>"

definition good_tunnel :: "nat \<Rightarrow> nat \<Rightarrow> tunnel_exchange" where
  "good_tunnel offset limit =
     \<lparr>tx_probe_time = min 5 limit, tx_net = good_net, tx_ip_time = 0, tx_cached_ip = None, tx_my_ip = None\<rparr>"

definition good_url :: "string \<Rightarrow> (uri_view \<times> string option) option" where
  "good_url _ = Some (\<lparr>ur_host = Some ''j'', ur_port = None, ur_scheme = Some ''https''\<rparr>, None)"

definition good_target :: judge_target where
  "good_target = \<lparr>jt_scheme = ''https'', jt_host = ''j'', jt_port = 443, jt_authority = authority_text ''j'' 443,
     jt_path = ''/'', jt_marker = jd_marker (jp_judges demo_judges ! 1), jt_token = jd_token (jp_judges demo_judges ! 1)\<rparr>"

lemma good_targets: "judge_targets good_url demo_judges [1] = Inr [(1, good_target)]"
  by (simp add: judge_target_of_def good_url_def socks_port_def good_target_def outcome_simps)

lemma good_handshake:
  "fst (tunnel_socks4 host port None \<lparr>w_in = [0, 90, 0, 0, 0, 0, 0, 0], w_out = [], w_open = True\<rparr>) = Ok ()"
  by (simp add: tunnel_socks4_def user_id_of_def io_bind_def write_all_def read_exact_def io_fail_def io_ret_def)

lemma good_probe: "probe_once demo_params None Socks4 good_target good_net = Ok [109, 110]"
proof -
  have hs: "fst (tunnel_handshake good_net None Socks4 good_target authority (tn_wire good_net)) = Ok ()" for authority
    by (simp add: tunnel_handshake_def good_net_def good_handshake)
  have lossy: "utf8_lossy [109, 110] = [109, 110]" by (simp add: utf8_lossy.simps seq_len_def)
  have "verify_tls_judge (tn_tls good_net) demo_params good_target authority = Ok [109, 110]" for authority
    by (simp add: verify_tls_judge_def good_net_def outcome_simps accept_text_def lossy MAX_JUDGE_RESPONSE_BYTES_def
        good_target_def demo_judges_def jp_from_targets_def demo_params_def ascii_bytes_def contains_def)
  moreover have "jt_scheme good_target = ''https''" by (simp add: good_target_def)
  ultimately show ?thesis
    using hs [of "probe_authority Socks4 good_target"]
    by (cases "tunnel_handshake good_net None Socks4 good_target (probe_authority Socks4 good_target) (tn_wire good_net)")
      (simp add: probe_once_def Let_def, simp add: good_net_def)
qed

lemma good_tunnel_run:
  "support_tunnel (\<lambda>key xs. sort_key key xs) good_url demo_params 10 None Socks4 good_tunnel demo_judges =
     (Ok (Some (Socks4, 5)), (probe_start demo_judges)\<lparr>ps_time := 5, ps_asked := [1],
        ps_pool := jp_report_success 5 1 demo_judges\<rparr>)"
proof -
  have e: "probe_budget demo_params = 3000" by (simp add: probe_budget_def demo_params_def DURATION_MAX_def)
  have t: "wp_request_timeout demo_params = 1000" "wp_max_attempts demo_params = 3" by (simp_all add: demo_params_def)
  have u: "[0..<saturating_usize 3] = [0, 1, 2]" by (simp add: saturating_usize_def upt_rec)
  have net: "tx_net (good_tunnel 0 l) = good_net" "measured Socks4 (good_tunnel 0 l) b = Socks4"
    "tx_probe_time (good_tunnel 0 l) = min 5 l" "tunnel_elapsed Socks4 (good_tunnel 0 l) = min 5 l" for l b
    by (simp_all add: good_tunnel_def measured_def tunnel_elapsed_def)
  show ?thesis
    unfolding support_tunnel_def demo_candidates prod.case good_targets sum.case
    by (simp add: t u e probe_start_def net good_probe Let_def)
qed

theorem tunnel_probe_sound_witness:
  "\<exists>target w body. tunnel_handshake good_net None Socks4 target (probe_authority Socks4 target)
     (tn_wire good_net) = (Ok (), w) \<and> judge_answer demo_params target (probe_authority Socks4 target) good_net w body"
proof -
  have l: "jp_len demo_judges = 2" by (simp add: demo_judges_def jp_from_targets_def jp_len_def)
  then have "jp_len demo_judges < 2 ^ 64" by simp
  moreover have "tunnel_timers Socks4 good_tunnel" by (simp add: tunnel_timers_def tunnel_elapsed_def good_tunnel_def)
  ultimately show ?thesis
    using tunnel_probe_sound [OF sorts_sort_key _ _ good_tunnel_run] by (auto simp: good_tunnel_def)
qed

end
