(* ===== verification/Validator_Work.thy ===== *)
theory Validator_Work
  imports Judge_Probe Cli_Pipeline
begin

text \<open>
  The work of the validator: which probes one candidate needs (\<open>singleton_jobs\<close>), one probe of a
  single type (\<open>do_work\<close>), the two halves of one probe of a group member
  (\<open>do_group_work\<close>), and the merge of a group (\<open>src/validator/work.rs\<close>); the checks of the
  configuration and the expansion of groups (\<open>src/validator/mod.rs\<close>). A send to a channel is
  immediate here: a full channel only delays the sender. The receiver of the results is open.
\<close>

section \<open>Matching\<close>

text \<open>\<open>protocol_matches\<close> of \<open>work.rs\<close>; the comparison of two levels is passed in.\<close>

definition matches_by :: "(anonymity \<Rightarrow> anonymity \<Rightarrow> bool) \<Rightarrow> protocol \<Rightarrow> protocol \<Rightarrow> bool" where
  "matches_by on_http_https a b =
     (case (a, b) of
        (Http left, Http right) \<Rightarrow> on_http_https left right
      | (Https left, Https right) \<Rightarrow> on_http_https left right
      | (Connect left, Connect right) \<Rightarrow> left = right
      | _ \<Rightarrow> a = b)"

definition advertised_matches_request :: "protocol \<Rightarrow> protocol \<Rightarrow> bool" where
  "advertised_matches_request advertised requested =
     matches_by (\<lambda>left right. left = Unknown \<or> right = Unknown \<or> left = right) advertised requested"

datatype probe_family = FHttp | FHttps | FSocks4 | FSocks5 | FConnect u16

fun probe_family_of :: "protocol \<Rightarrow> probe_family" where
  "probe_family_of (Http _) = FHttp"
| "probe_family_of (Https _) = FHttps"
| "probe_family_of Socks4 = FSocks4"
| "probe_family_of Socks5 = FSocks5"
| "probe_family_of (Connect port) = FConnect port"

definition result_satisfies_request :: "protocol \<Rightarrow> protocol \<Rightarrow> bool" where
  "result_satisfies_request result requested =
     matches_by (\<lambda>actual required. required = Unknown \<or> actual = required) result requested"

section \<open>The jobs of one candidate\<close>

fun missed_jobs :: "protocol list \<Rightarrow> protocol list \<Rightarrow> protocol list \<Rightarrow> (protocol \<times> protocol) list" where
  "missed_jobs advertised seen [] = []"
| "missed_jobs advertised seen (r # requested) =
     (if r \<in> set seen then missed_jobs advertised seen requested
      else let covered = list_ex (\<lambda>adv. advertised_matches_request adv r) advertised
        in (if covered then [] else [(r, r)]) @ missed_jobs advertised (seen @ [r]) requested)"

fun advertised_jobs ::
  "protocol \<Rightarrow> protocol list \<Rightarrow> protocol list \<Rightarrow> (probe_family \<times> protocol) set \<Rightarrow>
   (protocol \<times> protocol) list \<times> (probe_family \<times> protocol) set" where
  "advertised_jobs adv seen_req [] keys = ([], keys)"
| "advertised_jobs adv seen_req (r # requested) keys =
     (if r \<in> set seen_req then advertised_jobs adv seen_req requested keys
      else if \<not> advertised_matches_request adv r then advertised_jobs adv (seen_req @ [r]) requested keys
      else let key = (probe_family_of adv, r)
        in if key \<in> keys then advertised_jobs adv (seen_req @ [r]) requested keys
           else case advertised_jobs adv (seen_req @ [r]) requested (insert key keys) of
                  (jobs, keys') \<Rightarrow> ((adv, r) # jobs, keys'))"

fun crossed_jobs ::
  "protocol list \<Rightarrow> protocol list \<Rightarrow> protocol list \<Rightarrow> (probe_family \<times> protocol) set \<Rightarrow> (protocol \<times> protocol) list" where
  "crossed_jobs [] requested seen_adv keys = []"
| "crossed_jobs (adv # advertised) requested seen_adv keys =
     (if adv \<in> set seen_adv then crossed_jobs advertised requested seen_adv keys
      else case advertised_jobs adv [] requested keys of
             (jobs, keys') \<Rightarrow> jobs @ crossed_jobs advertised requested (seen_adv @ [adv]) keys')"

definition singleton_jobs :: "protocol list \<Rightarrow> protocol list \<Rightarrow> bool \<Rightarrow> (protocol \<times> protocol) list" where
  "singleton_jobs advertised requested probe_missed =
     (if probe_missed then missed_jobs advertised [] requested
      else crossed_jobs advertised requested [] {})"

section \<open>One probe\<close>

text \<open>Both pools, and what the environment answers during one probe: the pools' clock, the exchanges,
  and the time stamped on a passed type.\<close>

record judge_targets =
  tg_http :: judge_pool
  tg_tunnel :: judge_pool

record probe_env =
  pe_epoch :: nat
  pe_http :: "nat \<Rightarrow> nat \<Rightarrow> nat \<Rightarrow> http_exchange"
  pe_tunnel :: "nat \<Rightarrow> nat \<Rightarrow> tunnel_exchange"
  pe_checked_on :: f64

text \<open>\<open>ProxyRuntimes::apply\<close> for the single end-to-end sample of a probe, in milliseconds.\<close>

definition apply_runtime :: "nat \<Rightarrow> proxy \<Rightarrow> proxy" where
  "apply_runtime elapsed p =
     (let avg = stats_avg (record_sample stats_default (Fin (real elapsed / 1000)))
      in if f_lt (Fin 0) avg then p\<lparr>px_runtimes := record_sample (px_runtimes p) avg\<rparr> else p)"

definition checked_result ::
  "f64 \<Rightarrow> protocol \<Rightarrow> proxy \<Rightarrow> probe_result \<Rightarrow> proxy_type option \<times> proxy" where
  "checked_result now requested p result =
     (case result of
        Some (found, elapsed) \<Rightarrow>
          if result_satisfies_request found requested
          then (Some (proxy_type_checked now found), apply_runtime elapsed p)
          else (None, p)
      | None \<Rightarrow> (None, p))"

record validator_run =
  vr_sort :: "(nat \<Rightarrow> u64) \<Rightarrow> nat list \<Rightarrow> nat list"
  vr_parse_url :: "string \<Rightarrow> (uri_view \<times> string option) option"
  vr_to_json :: "health_record \<Rightarrow> string option"
  vr_params :: work_params
  vr_capacity :: nat
  vr_limit :: nat
  vr_requested :: "protocol list"
  vr_groups :: "protocol list list"
  vr_missed :: bool
  vr_gated :: bool

definition run_probe ::
  "validator_run \<Rightarrow> probe_env \<Rightarrow> proxy \<Rightarrow> protocol \<Rightarrow> protocol \<Rightarrow> judge_targets \<Rightarrow>
   (proxy_type option \<times> proxy, string) outcome \<times> judge_targets" where
  "run_probe v env p protocol requested targets =
     (case protocol of
        Http _ \<Rightarrow>
          (case support_http (vr_sort v) (vr_params v) (pe_epoch env) (pe_http env) (tg_http targets) of
             (result, s) \<Rightarrow>
               (Ok (checked_result (pe_checked_on env) requested p result), targets\<lparr>tg_http := ps_pool s\<rparr>))
      | _ \<Rightarrow>
          (case support_tunnel (vr_sort v) (vr_parse_url v) (vr_params v) (pe_epoch env) (px_auth p) protocol
                  (pe_tunnel env) (tg_tunnel targets) of
             (Ok result, s) \<Rightarrow>
               (Ok (checked_result (pe_checked_on env) requested p result), targets\<lparr>tg_tunnel := ps_pool s\<rparr>)
           | (Err e, s) \<Rightarrow> (Err (px_text p @ '': tunnel check failed: '' @ e), targets\<lparr>tg_tunnel := ps_pool s\<rparr>)
           | (Panic, s) \<Rightarrow> (Panic, targets\<lparr>tg_tunnel := ps_pool s\<rparr>)))"

section \<open>Recording\<close>

definition classify_failure :: "string \<Rightarrow> protocol \<Rightarrow> string" where
  "classify_failure error protocol =
     (let text = lower error
      in if contains text ''timed out'' then ''timeout''
         else if contains text ''did not originate'' \<or> contains text ''returned status'' \<or>
                 contains text ''rejected request'' \<or> contains text ''did not accept'' \<or>
                 contains text ''did not forward'' \<or> contains text ''rejected'' \<or>
                 contains text ''authentication'' \<or> contains text ''proxy-authorization''
         then ''rejected''
         else ''error ('' @ show_protocol protocol @ ''): '' @ text)"

record proxy_failure =
  pf_ip :: ipv4
  pf_port :: u16
  pf_protocol :: protocol
  pf_reason :: string

text \<open>What the tasks share: the judges, the health store, the failure channel when it is enabled, the
  counters and the results sent so far.\<close>

record work_state =
  ws_targets :: judge_targets
  ws_health :: "health_store option"
  ws_failures :: "proxy_failure list option"
  ws_done :: nat
  ws_passed :: nat
  ws_sent :: "proxy list"

text \<open>\<open>try_send\<close>: a full failure channel loses the record.\<close>

definition report_probe_failure :: "nat \<Rightarrow> proxy \<Rightarrow> protocol \<Rightarrow> string \<Rightarrow> work_state \<Rightarrow> work_state" where
  "report_probe_failure capacity p protocol reason w =
     (case ws_failures w of
        None \<Rightarrow> w
      | Some queue \<Rightarrow>
          if length queue < capacity
          then w\<lparr>ws_failures := Some (queue @
                 [\<lparr>pf_ip = px_ip p, pf_port = px_port p, pf_protocol = protocol, pf_reason = reason\<rparr>])\<rparr>
          else w)"

record record_env =
  re_now :: f64
  re_io :: append_io

definition record_success ::
  "(health_record \<Rightarrow> string option) \<Rightarrow> record_env \<Rightarrow> proxy \<Rightarrow> protocol \<Rightarrow> anonymity option \<Rightarrow> work_state \<Rightarrow> proxy \<times> work_state" where
  "record_success to_json env p protocol level w =
     (case ws_health w of
        None \<Rightarrow> (p, w)
      | Some store \<Rightarrow>
          (case store_record to_json (re_io env) store
                  (success_record (re_now env) (px_ip p) (px_port p) protocol (stats_avg (px_runtimes p)) level) of
             (_, store') \<Rightarrow>
               (p\<lparr>px_score := store_score store' (px_ip p) (px_port p)\<rparr>, w\<lparr>ws_health := Some store'\<rparr>)))"

definition record_failure ::
  "(health_record \<Rightarrow> string option) \<Rightarrow> record_env \<Rightarrow> proxy \<Rightarrow> protocol \<Rightarrow> string \<Rightarrow> work_state \<Rightarrow> work_state" where
  "record_failure to_json env p protocol reason w =
     (case ws_health w of
        None \<Rightarrow> w
      | Some store \<Rightarrow>
          (case store_record to_json (re_io env) store
                  (failure_record (re_now env) (px_ip p) (px_port p) protocol reason) of
             (_, store') \<Rightarrow> w\<lparr>ws_health := Some store'\<rparr>))"

definition level_of_type :: "proxy_type \<Rightarrow> anonymity option" where
  "level_of_type t = (case pt_protocol t of Http level \<Rightarrow> Some level | Https level \<Rightarrow> Some level | _ \<Rightarrow> None)"

text \<open>A failed probe is recorded in the store, then reported.\<close>

definition probe_failed ::
  "validator_run \<Rightarrow> record_env \<Rightarrow> proxy \<Rightarrow> protocol \<Rightarrow> string \<Rightarrow> work_state \<Rightarrow> work_state" where
  "probe_failed v env p protocol reason w =
     report_probe_failure (vr_capacity v) p protocol reason (record_failure (vr_to_json v) env p protocol reason w)"

section \<open>One single type\<close>

definition do_single_work ::
  "validator_run \<Rightarrow> probe_env \<Rightarrow> record_env \<Rightarrow> proxy \<Rightarrow> protocol \<Rightarrow> protocol \<Rightarrow> work_state \<Rightarrow> work_state option" where
  "do_single_work v env renv p protocol requested w =
     (let probe = validation_probe p
      in case run_probe v env probe protocol requested (ws_targets w) of
           (result, targets) \<Rightarrow>
             let w1 = w\<lparr>ws_targets := targets, ws_done := ws_done w + 1\<rparr>
             in case result of
                  Ok (Some t, q) \<Rightarrow>
                    (case record_success (vr_to_json v) renv (q\<lparr>proxy_types := proxy_types q @ [t]\<rparr>) protocol (level_of_type t) w1 of
                       (r, w2) \<Rightarrow> Some (w2\<lparr>ws_passed := ws_passed w2 + 1, ws_sent := ws_sent w2 @ [r]\<rparr>))
                | Ok (None, q) \<Rightarrow> Some (probe_failed v renv q protocol ''unsatisfied'' w1)
                | Err error \<Rightarrow> Some (probe_failed v renv probe protocol (classify_failure error protocol) w1)
                | Panic \<Rightarrow> None)"

section \<open>One group member\<close>

record group_member =
  gm_proxy :: proxy
  gm_id :: u64
  gm_protocol :: protocol
  gm_group :: nat
  gm_slot :: nat
  gm_len :: nat

type_synonym group_key = "u64 \<times> nat"

definition key_of :: "group_member \<Rightarrow> group_key" where
  "key_of m = (gm_id m, gm_group m)"

record group_result =
  gr_key :: group_key
  gr_slot :: nat
  gr_len :: nat
  gr_proxy :: "proxy option"

definition result_of :: "group_member \<Rightarrow> proxy option \<Rightarrow> group_result" where
  "result_of m p = \<lparr>gr_key = key_of m, gr_slot = gm_slot m, gr_len = gm_len m, gr_proxy = p\<rparr>"

text \<open>The first half, up to the read of the dead flag; a dead group ends the member at once.\<close>

definition group_begin ::
  "validator_run \<Rightarrow> record_env \<Rightarrow> group_member \<Rightarrow> (group_key \<rightharpoonup> bool) \<Rightarrow> work_state \<Rightarrow>
   group_result option \<times> (group_key \<rightharpoonup> bool) \<times> work_state" where
  "group_begin v renv m dead w =
     (let dead1 = (case dead (key_of m) of None \<Rightarrow> dead(key_of m \<mapsto> False) | Some _ \<Rightarrow> dead)
      in if dead1 (key_of m) = Some True
         then (Some (result_of m None), dead1,
               probe_failed v renv (validation_probe (gm_proxy m)) (gm_protocol m) ''group-dead'' w)
         else (None, dead1, w))"

text \<open>The second half: the probe, its record, the dead flag of a failed member, and the message.\<close>

definition group_end ::
  "validator_run \<Rightarrow> probe_env \<Rightarrow> record_env \<Rightarrow> group_member \<Rightarrow> (group_key \<rightharpoonup> bool) \<Rightarrow> work_state \<Rightarrow>
   (group_result \<times> (group_key \<rightharpoonup> bool) \<times> work_state) option" where
  "group_end v env renv m dead w =
     (let probe = validation_probe (gm_proxy m); protocol = gm_protocol m
      in case run_probe v env probe protocol protocol (ws_targets w) of
           (result, targets) \<Rightarrow>
             let w1 = w\<lparr>ws_targets := targets\<rparr>;
                 fail = (\<lambda>q reason.
                   Some (result_of m None,
                         (case dead (key_of m) of Some _ \<Rightarrow> dead(key_of m \<mapsto> True) | None \<Rightarrow> dead),
                         probe_failed v renv q protocol reason w1))
             in case result of
                  Ok (Some t, q) \<Rightarrow>
                    (case record_success (vr_to_json v) renv (q\<lparr>proxy_types := proxy_types q @ [t]\<rparr>) protocol (level_of_type t) w1 of
                       (r, w2) \<Rightarrow> Some (result_of m (Some r), dead, w2))
                | Ok (None, q) \<Rightarrow> fail q ''unsatisfied''
                | Err error \<Rightarrow> fail probe (classify_failure error protocol)
                | Panic \<Rightarrow> None)"

section \<open>Merging a group\<close>

record group_state =
  gs_remaining :: nat
  gs_results :: "proxy option list"

definition record_avg :: "runtime_stats \<Rightarrow> proxy \<Rightarrow> runtime_stats" where
  "record_avg stats p =
     (let avg = stats_avg (px_runtimes p) in if f_lt (Fin 0) avg then record_sample stats avg else stats)"

definition merge_slots :: "proxy list \<Rightarrow> (proxy, string) outcome" where
  "merge_slots slots =
     (if slots = [] then Panic
      else Ok ((slots ! 0)\<lparr>proxy_types := concat (map (\<lambda>p. take 1 (proxy_types p)) slots),
                          px_runtimes := foldl record_avg stats_default slots\<rparr>))"

definition group_finish :: "group_state \<Rightarrow> (proxy option, string) outcome" where
  "group_finish s =
     (if list_all (\<lambda>r. r \<noteq> None) (gs_results s)
      then and_then (merge_slots (List.map_filter (\<lambda>r. r) (gs_results s))) (\<lambda>p. Ok (Some p))
      else Ok None)"

section \<open>Starting up\<close>

datatype config_error = NoTypes | EmptyGroup | NoConcurrency | NoTimeout | NoAttempts

definition check_config :: "validator_cfg \<Rightarrow> config_error + unit" where
  "check_config c =
     (if vc_types c = [] \<and> vc_groups c = [] then Inl NoTypes
      else if list_ex (\<lambda>group. group = []) (vc_groups c) then Inl EmptyGroup
      else if vc_concurrency_limit c = 0 then Inl NoConcurrency
      else if vc_request_timeout c = 0 then Inl NoTimeout
      else if vc_max_attempts c = 0 then Inl NoAttempts
      else Inr ())"

definition VALIDATOR_CHANNEL_MIN :: nat where "VALIDATOR_CHANNEL_MIN = 64"

definition VALIDATOR_CHANNEL_MAX :: nat where "VALIDATOR_CHANNEL_MAX = 4096"

definition validator_channel_capacity :: "nat \<Rightarrow> nat" where
  "validator_channel_capacity limit =
     max VALIDATOR_CHANNEL_MIN (min VALIDATOR_CHANNEL_MAX (min (limit * 4) (2 ^ 64 - 1)))"

definition group_spec :: "protocol list list \<Rightarrow> (nat \<times> nat \<times> protocol) list" where
  "group_spec groups =
     concat (map (\<lambda>(group_idx, protocols). map (\<lambda>(slot, protocol). (group_idx, slot, protocol)) (enumerate 0 protocols))
               (enumerate 0 groups))"

definition need_http :: "validator_cfg \<Rightarrow> bool" where
  "need_http c = list_ex (\<lambda>p. case p of Http _ \<Rightarrow> True | _ \<Rightarrow> False) (vc_types c @ concat (map (dedup_seen []) (vc_groups c)))"

definition need_tunnel :: "validator_cfg \<Rightarrow> bool" where
  "need_tunnel c = list_ex (\<lambda>p. case p of Http _ \<Rightarrow> False | _ \<Rightarrow> True) (vc_types c @ concat (map (dedup_seen []) (vc_groups c)))"

definition work_params_of :: "validator_cfg \<Rightarrow> work_params" where
  "work_params_of c =
     \<lparr>wp_max_attempts = vc_max_attempts c, wp_request_timeout = from_secs (vc_request_timeout c),
      wp_insecure = vc_insecure c, wp_support_cookies = vc_support_cookies c,
      wp_support_referer = vc_support_referer c, wp_retry_delay = vc_retry_delay c\<rparr>"

definition start_validation ::
  "((nat \<Rightarrow> u64) \<Rightarrow> nat list \<Rightarrow> nat list) \<Rightarrow> (string \<Rightarrow> (uri_view \<times> string option) option) \<Rightarrow>
   (health_record \<Rightarrow> string option) \<Rightarrow> validator_cfg \<Rightarrow> config_error + validator_run" where
  "start_validation sort_with parse_url to_json c =
     res_bind (check_config c) (\<lambda>_. Inr
       \<lparr>vr_sort = sort_with, vr_parse_url = parse_url, vr_to_json = to_json, vr_params = work_params_of c,
        vr_capacity = validator_channel_capacity (vc_concurrency_limit c), vr_limit = vc_concurrency_limit c,
        vr_requested = vc_types c, vr_groups = map (dedup_seen []) (vc_groups c),
        vr_missed = vc_probe_missed_types c, vr_gated = (vc_probe_gate c \<noteq> None)\<rparr>)"

section \<open>Which probes are planned\<close>

lemma missed_jobs_set:
  "set (missed_jobs advertised seen requested) =
     {(r, r) |r. r \<in> set requested \<and> r \<notin> set seen \<and> \<not> list_ex (\<lambda>adv. advertised_matches_request adv r) advertised}"
  by (induction requested arbitrary: seen) (auto simp: Let_def)

lemma missed_jobs_distinct: "distinct (missed_jobs advertised seen requested)"
  by (induction requested arbitrary: seen) (auto simp: Let_def missed_jobs_set)

definition job_key :: "protocol \<times> protocol \<Rightarrow> probe_family \<times> protocol" where
  "job_key job = (probe_family_of (fst job), snd job)"

lemma job_key_pair: "job_key (a, r) = (probe_family_of a, r)"
  by (simp add: job_key_def)

text \<open>The keys an advertised type asks for, and those met so far.\<close>

definition wanted :: "protocol \<Rightarrow> protocol list \<Rightarrow> (probe_family \<times> protocol) set" where
  "wanted adv requested = {(probe_family_of adv, r) |r. r \<in> set requested \<and> advertised_matches_request adv r}"

lemma advertised_jobs_facts:
  assumes "advertised_jobs adv seen requested keys = (jobs, keys')"
  shows "job_key ` set jobs = {k \<in> wanted adv requested. snd k \<notin> set seen} - keys \<and>
    distinct (map job_key jobs) \<and> keys' = keys \<union> job_key ` set jobs \<and>
    set jobs \<subseteq> {adv} \<times> {r \<in> set requested. advertised_matches_request adv r}"
  using assms
proof (induction requested arbitrary: seen keys jobs)
  case Nil
  then show ?case by (simp add: wanted_def)
next
  case (Cons r requested)
  show ?case
  proof (cases "r \<in> set seen")
    case True
    with Cons.prems have "advertised_jobs adv seen requested keys = (jobs, keys')" by simp
    from Cons.IH [OF this] True show ?thesis by (auto simp: wanted_def)
  next
    case new: False
    show ?thesis
    proof (cases "advertised_matches_request adv r \<and> (probe_family_of adv, r) \<notin> keys")
      case True
      with Cons.prems new obtain js where
        js: "advertised_jobs adv (seen @ [r]) requested (insert (probe_family_of adv, r) keys) = (js, keys')"
        "jobs = (adv, r) # js"
        by (auto simp: Let_def split: prod.splits)
      from Cons.IH [OF js(1)] have
        "job_key ` set js = {k \<in> wanted adv requested. snd k \<notin> set (seen @ [r])} - insert (probe_family_of adv, r) keys"
        "distinct (map job_key js)"
        "keys' = insert (probe_family_of adv, r) keys \<union> job_key ` set js"
        "set js \<subseteq> {adv} \<times> {r \<in> set requested. advertised_matches_request adv r}"
        by blast+
      with js(2) True new show ?thesis by (auto simp: wanted_def job_key_pair)
    next
      case False
      with Cons.prems new have rec: "advertised_jobs adv (seen @ [r]) requested keys = (jobs, keys')"
        by (auto simp: Let_def split: if_splits)
      from Cons.IH [OF rec] have
        "job_key ` set jobs = {k \<in> wanted adv requested. snd k \<notin> set (seen @ [r])} - keys"
        "distinct (map job_key jobs)" "keys' = keys \<union> job_key ` set jobs"
        "set jobs \<subseteq> {adv} \<times> {r \<in> set requested. advertised_matches_request adv r}"
        by blast+
      with False new show ?thesis by (auto simp: wanted_def)
    qed
  qed
qed

lemma crossed_jobs_facts:
  assumes "\<forall>a \<in> set seen. wanted a requested \<subseteq> keys"
  shows "job_key ` set (crossed_jobs advertised requested seen keys) = (\<Union>a \<in> set advertised. wanted a requested) - keys \<and>
    distinct (map job_key (crossed_jobs advertised requested seen keys)) \<and>
    set (crossed_jobs advertised requested seen keys) \<subseteq>
      {(a, r). a \<in> set advertised \<and> r \<in> set requested \<and> advertised_matches_request a r}"
  using assms
proof (induction advertised arbitrary: seen keys)
  case Nil
  then show ?case by simp
next
  case (Cons a advertised)
  show ?case
  proof (cases "a \<in> set seen")
    case True
    with Cons.prems have "wanted a requested \<subseteq> keys" by blast
    with True Cons.IH [OF Cons.prems] show ?thesis by auto
  next
    case False
    obtain jobs keys' where j: "advertised_jobs a [] requested keys = (jobs, keys')"
      by (cases "advertised_jobs a [] requested keys")
    note facts = advertised_jobs_facts [OF j]
    then have k: "job_key ` set jobs = wanted a requested - keys" "keys' = keys \<union> wanted a requested"
      "distinct (map job_key jobs)" "set jobs \<subseteq> {a} \<times> {r \<in> set requested. advertised_matches_request a r}" by auto
    have "\<forall>b \<in> set (seen @ [a]). wanted b requested \<subseteq> keys'" using Cons.prems k(2) by auto
    from Cons.IH [OF this] have rest:
      "job_key ` set (crossed_jobs advertised requested (seen @ [a]) keys') = (\<Union>b \<in> set advertised. wanted b requested) - keys'"
      "distinct (map job_key (crossed_jobs advertised requested (seen @ [a]) keys'))"
      "set (crossed_jobs advertised requested (seen @ [a]) keys') \<subseteq>
         {(a, r). a \<in> set advertised \<and> r \<in> set requested \<and> advertised_matches_request a r}" by blast+
    have step: "crossed_jobs (a # advertised) requested seen keys =
      jobs @ crossed_jobs advertised requested (seen @ [a]) keys'" using False j by simp
    have "set (map job_key jobs) \<inter> set (map job_key (crossed_jobs advertised requested (seen @ [a]) keys')) = {}"
      using k(1,2) rest(1) by auto
    with k(3) rest(2) have d: "distinct (map job_key (crossed_jobs (a # advertised) requested seen keys))"
      unfolding step by simp
    have i: "job_key ` set (crossed_jobs (a # advertised) requested seen keys) =
      (\<Union>b \<in> set (a # advertised). wanted b requested) - keys"
      unfolding step set_append image_Un k(1) rest(1) using k(2) by auto
    have s: "set (crossed_jobs (a # advertised) requested seen keys) \<subseteq>
      {(b, r). b \<in> set (a # advertised) \<and> r \<in> set requested \<and> advertised_matches_request b r}"
      using k(4) rest(3) unfolding step by auto
    from d i s show ?thesis by blast
  qed
qed

text \<open>C9: the probes planned for one candidate. Without the fallback mode every pair of an advertised and a
  requested type that match is covered by exactly one probe of the same family for exactly this
  request, and nothing else is probed; in the fallback mode exactly the requested types that no
  advertised type covers are probed, each once, as themselves.\<close>

theorem singleton_jobs_exact:
  "job_key ` set (singleton_jobs advertised requested False) =
     {(probe_family_of a, r) |a r. a \<in> set advertised \<and> r \<in> set requested \<and> advertised_matches_request a r} \<and>
   distinct (map job_key (singleton_jobs advertised requested False)) \<and>
   set (singleton_jobs advertised requested False) \<subseteq> set advertised \<times> set requested \<and>
   set (singleton_jobs advertised requested True) =
     {(r, r) |r. r \<in> set requested \<and> \<not> list_ex (\<lambda>a. advertised_matches_request a r) advertised} \<and>
   distinct (singleton_jobs advertised requested True)"
proof -
  have "\<forall>a \<in> set []. wanted a requested \<subseteq> {}" by simp
  note facts = crossed_jobs_facts [OF this, of advertised]
  have "(\<Union>a \<in> set advertised. wanted a requested) =
    {(probe_family_of a, r) |a r. a \<in> set advertised \<and> r \<in> set requested \<and> advertised_matches_request a r}"
    by (auto simp: wanted_def)
  moreover have "set (crossed_jobs advertised requested [] {}) \<subseteq> set advertised \<times> set requested"
    using facts by auto
  ultimately show ?thesis
    using facts by (simp add: singleton_jobs_def missed_jobs_set missed_jobs_distinct)
qed

end
