(* ===== verification/Validator_Run.thy ===== *)
theory Validator_Run
  imports Validator_Work "HOL-Library.Multiset"
begin

text \<open>
  The running validator (\<open>src/validator/mod.rs\<close>, \<open>src/validator/work.rs\<close>) as a
  transition system: jobs are pulled in order while fewer than the limit run, running jobs advance
  in any order, group members send their result to the aggregator, which receives them in the order
  of the channel. A pause only delays the steps. The environment answers each probe and each append
  to the health store.
\<close>

section \<open>Jobs\<close>

datatype job = Single proxy protocol protocol | Member group_member

definition jobs_of :: "validator_run \<Rightarrow> nat \<Rightarrow> proxy \<Rightarrow> job list" where
  "jobs_of v i p =
     map (\<lambda>(protocol, requested). Single p protocol requested)
       (singleton_jobs (expected_types p) (vr_requested v) (vr_missed v)) @
     map (\<lambda>(group_idx, slot, protocol).
            Member \<lparr>gm_proxy = p, gm_id = of_nat i, gm_protocol = protocol, gm_group = group_idx,
                    gm_slot = slot, gm_len = length (vr_groups v ! group_idx)\<rparr>)
       (group_spec (vr_groups v))"

definition all_jobs :: "validator_run \<Rightarrow> proxy list \<Rightarrow> job list" where
  "all_jobs v ps = concat (map (\<lambda>(i, p). jobs_of v i p) (enumerate 0 ps))"

text \<open>The counter of the total grows when a job is pulled, once for each group.\<close>

definition weight :: "job \<Rightarrow> nat" where
  "weight j = (case j of Single _ _ _ \<Rightarrow> 1 | Member m \<Rightarrow> if gm_slot m = 0 then 1 else 0)"

section \<open>The state\<close>

record vstate =
  vs_waiting :: "job list"
  vs_running :: "job list"
  vs_probing :: "group_member list"
  vs_channel :: "group_result list"
  vs_groups :: "group_key \<rightharpoonup> group_state"
  vs_dead :: "group_key \<rightharpoonup> bool"
  vs_work :: work_state
  vs_total :: nat

definition vstart :: "validator_run \<Rightarrow> work_state \<Rightarrow> proxy list \<Rightarrow> vstate" where
  "vstart v w ps =
     \<lparr>vs_waiting = all_jobs v ps, vs_running = [], vs_probing = [], vs_channel = [], vs_groups = Map.empty,
      vs_dead = Map.empty, vs_work = w, vs_total = 0\<rparr>"

section \<open>The aggregator\<close>

definition send_merged :: "proxy \<Rightarrow> work_state \<Rightarrow> work_state" where
  "send_merged p w =
     (let q = (case ws_health w of
                 Some store \<Rightarrow> p\<lparr>px_score := store_score store (px_ip p) (px_port p)\<rparr>
               | None \<Rightarrow> p)
      in w\<lparr>ws_passed := ws_passed w + 1, ws_sent := ws_sent w @ [q]\<rparr>)"

definition count_done :: "work_state \<Rightarrow> work_state" where
  "count_done w = w\<lparr>ws_done := ws_done w + 1\<rparr>"

definition entry_of :: "group_result \<Rightarrow> vstate \<Rightarrow> group_state" where
  "entry_of m s =
     (case vs_groups s (gr_key m) of
        Some e \<Rightarrow> e
      | None \<Rightarrow> \<lparr>gs_remaining = gr_len m, gs_results = replicate (gr_len m) None\<rparr>)"

text \<open>One message of \<open>aggregate_groups\<close>; the index and the subtraction can panic.\<close>

definition aggregate_one :: "group_result \<Rightarrow> vstate \<Rightarrow> (vstate, string) outcome" where
  "aggregate_one m s =
     (let k = gr_key m; e = entry_of m s
      in if gr_slot m \<ge> length (gs_results e) \<or> gs_remaining e = 0 then Panic
         else let e1 = \<lparr>gs_remaining = gs_remaining e - 1, gs_results = (gs_results e)[gr_slot m := gr_proxy m]\<rparr>
           in if gs_remaining e1 = 0
              then let s1 = s\<lparr>vs_groups := (vs_groups s)(k := None), vs_dead := (vs_dead s)(k := None),
                              vs_work := count_done (vs_work s)\<rparr>
                in and_then (group_finish e1) (\<lambda>r. Ok
                     (case r of
                        Some p \<Rightarrow> s1\<lparr>vs_work := send_merged p (vs_work s1)\<rparr>
                      | None \<Rightarrow> s1))
              else Ok (s\<lparr>vs_groups := (vs_groups s)(k \<mapsto> e1)\<rparr>))"

section \<open>Steps\<close>

datatype vlabel =
    Pulled
  | Skipped
  | Tried "proxy list"
  | Started
  | Ended group_key nat "proxy option"
  | Received

inductive vstep :: "validator_run \<Rightarrow> vstate \<Rightarrow> vlabel \<Rightarrow> vstate \<Rightarrow> bool" for v where
  pull: "\<lbrakk>length (vs_running s) + length (vs_probing s) < vr_limit v; vs_waiting s = j # js\<rbrakk> \<Longrightarrow>
    vstep v s Pulled
      (s\<lparr>vs_waiting := js, vs_running := vs_running s @ [j], vs_total := vs_total s + weight j\<rparr>)"
| gate_closed: "\<lbrakk>vr_gated v; vs_running s = xs @ Single p protocol requested # ys\<rbrakk> \<Longrightarrow>
    vstep v s Skipped (s\<lparr>vs_running := xs @ ys, vs_work := count_done (vs_work s)\<rparr>)"
| single: "\<lbrakk>vs_running s = xs @ Single p protocol requested # ys;
      do_single_work v env renv p protocol requested (vs_work s) = Some w\<rbrakk> \<Longrightarrow>
    vstep v s (Tried (drop (length (ws_sent (vs_work s))) (ws_sent w))) (s\<lparr>vs_running := xs @ ys, vs_work := w\<rparr>)"
| member_starts: "\<lbrakk>vs_running s = xs @ Member m # ys;
      group_begin v renv m (vs_dead s) (vs_work s) = (None, dead, w)\<rbrakk> \<Longrightarrow>
    vstep v s Started
      (s\<lparr>vs_running := xs @ ys, vs_probing := vs_probing s @ [m], vs_dead := dead, vs_work := w\<rparr>)"
| member_dead: "\<lbrakk>vs_running s = xs @ Member m # ys;
      group_begin v renv m (vs_dead s) (vs_work s) = (Some r, dead, w)\<rbrakk> \<Longrightarrow>
    vstep v s (Ended (gr_key r) (gr_slot r) (gr_proxy r))
      (s\<lparr>vs_running := xs @ ys, vs_channel := vs_channel s @ [r], vs_dead := dead, vs_work := w\<rparr>)"
| member_ends: "\<lbrakk>vs_probing s = xs @ m # ys;
      group_end v env renv m (vs_dead s) (vs_work s) = Some (r, dead, w)\<rbrakk> \<Longrightarrow>
    vstep v s (Ended (gr_key r) (gr_slot r) (gr_proxy r))
      (s\<lparr>vs_probing := xs @ ys, vs_channel := vs_channel s @ [r], vs_dead := dead, vs_work := w\<rparr>)"
| receive: "\<lbrakk>vs_channel s = m # ms; aggregate_one m (s\<lparr>vs_channel := ms\<rparr>) = Ok s'\<rbrakk> \<Longrightarrow>
    vstep v s Received s'"

inductive vrun :: "validator_run \<Rightarrow> vstate \<Rightarrow> vlabel list \<Rightarrow> vstate \<Rightarrow> bool" for v where
  stay: "vrun v s [] s"
| go: "\<lbrakk>vrun v s ls s'; vstep v s' l s''\<rbrakk> \<Longrightarrow> vrun v s (ls @ [l]) s''"

inductive_cases vstep_pulled: "vstep v s Pulled s'"
inductive_cases vstep_skipped: "vstep v s Skipped s'"
inductive_cases vstep_tried: "vstep v s (Tried out) s'"
inductive_cases vstep_started: "vstep v s Started s'"
inductive_cases vstep_ended: "vstep v s (Ended k slot r) s'"
inductive_cases vstep_received: "vstep v s Received s'"

definition finished :: "vstate \<Rightarrow> bool" where
  "finished s \<longleftrightarrow> vs_waiting s = [] \<and> vs_running s = [] \<and> vs_probing s = [] \<and> vs_channel s = []"

section \<open>What a step does to the shared state\<close>

lemma recording_frame:
  "ws_done (record_failure js renv p protocol reason w) = ws_done w"
  "ws_passed (record_failure js renv p protocol reason w) = ws_passed w"
  "ws_sent (record_failure js renv p protocol reason w) = ws_sent w"
  "ws_done (report_probe_failure cap p protocol reason w) = ws_done w"
  "ws_passed (report_probe_failure cap p protocol reason w) = ws_passed w"
  "ws_sent (report_probe_failure cap p protocol reason w) = ws_sent w"
  by (simp_all add: record_failure_def report_probe_failure_def split: option.split prod.split)

lemma failed_frame [simp]:
  "ws_done (probe_failed v renv p protocol reason w) = ws_done w"
  "ws_passed (probe_failed v renv p protocol reason w) = ws_passed w"
  "ws_sent (probe_failed v renv p protocol reason w) = ws_sent w"
  by (simp_all add: probe_failed_def recording_frame)

lemma success_frame:
  assumes "record_success js renv p protocol level w = (q, w')"
  shows "ws_done w' = ws_done w" "ws_passed w' = ws_passed w" "ws_sent w' = ws_sent w"
  using assms by (auto simp: record_success_def split: option.splits prod.splits)

lemma single_frame:
  assumes "do_single_work v env renv p protocol requested w = Some w'"
  shows "ws_done w' = ws_done w + 1 \<and>
    (\<exists>out. ws_sent w' = ws_sent w @ out \<and> ws_passed w' = ws_passed w + length out)"
proof -
  obtain result targets where r: "run_probe v env (validation_probe p) protocol requested (ws_targets w) = (result, targets)"
    by (cases "run_probe v env (validation_probe p) protocol requested (ws_targets w)")
  show ?thesis
  proof (cases result)
    case (Ok x)
    obtain t q where x: "x = (t, q)" by (cases x)
    show ?thesis
    proof (cases t)
      case None
      with assms r Ok x show ?thesis by (auto simp: do_single_work_def Let_def)
    next
      case (Some t')
      let ?w1 = "w\<lparr>ws_targets := targets, ws_done := ws_done w + 1\<rparr>"
      obtain u w2 where u: "record_success (vr_to_json v) renv (q\<lparr>proxy_types := proxy_types q @ [t']\<rparr>) protocol
          (level_of_type t') ?w1 = (u, w2)"
        by (cases "record_success (vr_to_json v) renv (q\<lparr>proxy_types := proxy_types q @ [t']\<rparr>) protocol
          (level_of_type t') ?w1")
      with assms r Ok x Some have "w' = w2\<lparr>ws_passed := ws_passed w2 + 1, ws_sent := ws_sent w2 @ [u]\<rparr>"
        by (simp add: do_single_work_def Let_def)
      with success_frame [OF u] show ?thesis by simp
    qed
  next
    case (Err e)
    with assms r show ?thesis by (auto simp: do_single_work_def Let_def)
  next
    case Panic
    with assms r show ?thesis by (simp add: do_single_work_def Let_def)
  qed
qed

lemma begin_frame:
  assumes "group_begin v renv m dead w = (r, dead', w')"
  shows "ws_done w' = ws_done w" "ws_passed w' = ws_passed w" "ws_sent w' = ws_sent w"
    "dom dead' = insert (key_of m) (dom dead)" "r = None \<or> r = Some (result_of m None)"
  using assms by (auto simp: group_begin_def Let_def split: option.splits if_splits)

lemma end_frame:
  assumes "group_end v env renv m dead w = Some (r, dead', w')"
  shows "ws_done w' = ws_done w \<and> ws_passed w' = ws_passed w \<and> ws_sent w' = ws_sent w \<and>
    dom dead' = dom dead \<and> (\<exists>p. r = result_of m p)"
proof -
  obtain result targets where e: "run_probe v env (validation_probe (gm_proxy m)) (gm_protocol m) (gm_protocol m) (ws_targets w)
      = (result, targets)"
    by (cases "run_probe v env (validation_probe (gm_proxy m)) (gm_protocol m) (gm_protocol m) (ws_targets w)")
  have d: "dom (case dead (key_of m) of None \<Rightarrow> dead | Some _ \<Rightarrow> dead(key_of m \<mapsto> True)) = dom dead"
    by (auto split: option.splits)
  show ?thesis
  proof (cases result)
    case (Ok x)
    obtain t q where x: "x = (t, q)" by (cases x)
    show ?thesis
    proof (cases t)
      case None
      with assms e Ok x d show ?thesis by (auto simp: group_end_def Let_def)
    next
      case (Some t')
      obtain u w2 where u: "record_success (vr_to_json v) renv (q\<lparr>proxy_types := proxy_types q @ [t']\<rparr>) (gm_protocol m)
          (level_of_type t') (w\<lparr>ws_targets := targets\<rparr>) = (u, w2)"
        by (cases "record_success (vr_to_json v) renv (q\<lparr>proxy_types := proxy_types q @ [t']\<rparr>) (gm_protocol m)
          (level_of_type t') (w\<lparr>ws_targets := targets\<rparr>)")
      with assms e Ok x Some have "r = result_of m (Some u)" "dead' = dead" "w' = w2"
        by (simp_all add: group_end_def Let_def)
      with success_frame [OF u] show ?thesis by auto
    qed
  next
    case (Err _)
    with assms e d show ?thesis by (auto simp: group_end_def Let_def)
  next
    case Panic
    with assms e show ?thesis by (simp add: group_end_def Let_def)
  qed
qed

end
