(* ===== verification/Validator_Props.thy ===== *)
theory Validator_Props
  imports Validator_Run
begin

text \<open>
  Every run of the validator: the bookkeeping of groups, the aggregator's indexing and counting, the
  counters, and what the finished run has sent. The main invariant is proved by induction on the run.
\<close>

section \<open>Members under way\<close>

fun members :: "job list \<Rightarrow> group_member list" where
  "members [] = []"
| "members (Single _ _ _ # js) = members js"
| "members (Member m # js) = m # members js"

lemma members_append [simp]: "members (xs @ ys) = members xs @ members ys"
  by (induction xs rule: members.induct) auto

definition tag :: "group_member \<Rightarrow> group_key \<times> nat" where
  "tag m = (key_of m, gm_slot m)"

definition mem_set :: "vstate \<Rightarrow> group_member set" where
  "mem_set s = set (members (vs_waiting s)) \<union> set (members (vs_running s)) \<union> set (vs_probing s)"

definition active :: "vstate \<Rightarrow> (group_key \<times> nat) multiset" where
  "active s = mset (map tag (members (vs_waiting s))) + mset (map tag (members (vs_running s))) +
     mset (map tag (vs_probing s))"

definition in_channel :: "vstate \<Rightarrow> (group_key \<times> nat) multiset" where
  "in_channel s = mset (map (\<lambda>r. (gr_key r, gr_slot r)) (vs_channel s))"

definition slots :: "vstate \<Rightarrow> group_key \<Rightarrow> nat set" where
  "slots s k = {slot. (k, slot) \<in># active s + in_channel s}"

fun ended_tags :: "vlabel list \<Rightarrow> (group_key \<times> nat) list" where
  "ended_tags [] = []"
| "ended_tags (Ended k slot _ # ls) = (k, slot) # ended_tags ls"
| "ended_tags (_ # ls) = ended_tags ls"

lemma ended_tags_append [simp]: "ended_tags (xs @ ys) = ended_tags xs @ ended_tags ys"
  by (induction xs rule: ended_tags.induct) auto

lemma ended_tags_mem: "(k, slot) \<in> set (ended_tags ls) \<longleftrightarrow> (\<exists>r. Ended k slot r \<in> set ls)"
  by (induction ls rule: ended_tags.induct) auto

fun tried :: "vlabel list \<Rightarrow> proxy list" where
  "tried [] = []"
| "tried (Tried out # ls) = out @ tried ls"
| "tried (_ # ls) = tried ls"

lemma tried_append [simp]: "tried (xs @ ys) = tried xs @ tried ys"
  by (induction xs rule: tried.induct) auto

definition quiet :: "vlabel \<Rightarrow> bool" where
  "quiet l \<longleftrightarrow> ended_tags [l] = [] \<and> l \<noteq> Received"

text \<open>The three kinds of step, seen from the groups.\<close>

lemma quiet_step:
  assumes "vstep v s l s'" and "quiet l"
  shows "active s' = active s \<and> mem_set s' = mem_set s \<and> vs_channel s' = vs_channel s \<and> vs_groups s' = vs_groups s \<and>
    dom (vs_dead s') \<subseteq> dom (vs_dead s) \<union> key_of ` set (vs_probing s') \<and>
    ws_sent (vs_work s') = ws_sent (vs_work s) @ tried [l] \<and>
    ws_passed (vs_work s') = ws_passed (vs_work s) + length (tried [l])"
  using assms
proof (cases rule: vstep.cases)
  case (pull j js)
  then show ?thesis by (cases j) (auto simp: active_def mem_set_def)
next
  case (single xs p protocol requested ys env renv w)
  from single_frame [OF single(4)] single(1-3) show ?thesis
    by (auto simp: active_def mem_set_def)
next
  case (member_starts xs m ys renv dead w)
  from begin_frame [OF member_starts(4)] member_starts(1-3) show ?thesis
    by (auto simp: active_def mem_set_def)
qed (auto simp: active_def mem_set_def count_done_def quiet_def)

lemma ended_step:
  assumes "vstep v s (Ended k slot r) s'"
  shows "\<exists>m \<in> mem_set s. key_of m = k \<and> gm_slot m = slot \<and>
    active s = add_mset (k, slot) (active s') \<and> mem_set s' \<subseteq> mem_set s \<and>
    vs_channel s' = vs_channel s @ [\<lparr>gr_key = k, gr_slot = slot, gr_len = gm_len m, gr_proxy = r\<rparr>] \<and>
    vs_groups s' = vs_groups s \<and> dom (vs_dead s') \<subseteq> insert k (dom (vs_dead s)) \<and>
    ws_sent (vs_work s') = ws_sent (vs_work s) \<and> ws_passed (vs_work s') = ws_passed (vs_work s) \<and>
    ws_done (vs_work s') = ws_done (vs_work s) \<and> vs_total s' = vs_total s \<and> vs_waiting s' = vs_waiting s"
  using assms
proof (cases rule: vstep.cases)
  case (member_dead xs m ys renv g dead w)
  from begin_frame [OF member_dead(6)] have g: "g = result_of m None" by simp
  show ?thesis
    by (rule bexI [of _ m])
      (use begin_frame [OF member_dead(6)] member_dead(1-5) g in
        \<open>auto simp: result_of_def active_def mem_set_def tag_def\<close>)
next
  case (member_ends xs m ys env renv g dead w)
  from end_frame [OF member_ends(6)] obtain p where g: "g = result_of m p" by blast
  show ?thesis
    by (rule bexI [of _ m])
      (use end_frame [OF member_ends(6)] member_ends(1-5) g in
        \<open>auto simp: result_of_def active_def mem_set_def tag_def\<close>)
qed

section \<open>The invariant\<close>

definition glen :: "validator_run \<Rightarrow> group_key \<Rightarrow> nat" where
  "glen v k = length (vr_groups v ! snd k)"

definition keys :: "validator_run \<Rightarrow> nat \<Rightarrow> group_key set" where
  "keys v n = (\<lambda>i. of_nat i) ` {..<n} \<times> {..<length (vr_groups v)}"

definition universe :: "validator_run \<Rightarrow> nat \<Rightarrow> (group_key \<times> nat) set" where
  "universe v n = (SIGMA k : keys v n. {..<glen v k})"

text \<open>Every member of every group is under way or has ended, once; what is in the channel has ended.\<close>

definition counted :: "validator_run \<Rightarrow> nat \<Rightarrow> vlabel list \<Rightarrow> vstate \<Rightarrow> bool" where
  "counted v n ls s \<longleftrightarrow> mset (ended_tags ls) + active s = mset_set (universe v n) \<and>
     in_channel s \<subseteq># mset (ended_tags ls) \<and>
     (\<forall>m \<in> mem_set s. gm_len m = glen v (key_of m)) \<and>
     (\<forall>r \<in> set (vs_channel s). gr_len r = glen v (gr_key r) \<and> Ended (gr_key r) (gr_slot r) (gr_proxy r) \<in> set ls)"

text \<open>The aggregator's entry of a group counts the results it still waits for and holds the others.\<close>

definition entry_ok :: "validator_run \<Rightarrow> vlabel list \<Rightarrow> group_key \<Rightarrow> nat set \<Rightarrow> group_state option \<Rightarrow> bool" where
  "entry_ok v ls k waits e \<longleftrightarrow>
     (case e of
        None \<Rightarrow> waits = {} \<or> waits = {..<glen v k}
      | Some st \<Rightarrow> waits \<noteq> {} \<and> length (gs_results st) = glen v k \<and> gs_remaining st = card waits \<and>
          (\<forall>slot < glen v k. slot \<notin> waits \<longrightarrow> Ended k slot (gs_results st ! slot) \<in> set ls))"

definition grouped :: "validator_run \<Rightarrow> vlabel list \<Rightarrow> vstate \<Rightarrow> bool" where
  "grouped v ls s \<longleftrightarrow> (\<forall>k. entry_ok v ls k (slots s k) (vs_groups s k)) \<and>
     (\<forall>k \<in> dom (vs_dead s). slots s k \<noteq> {})"

lemma finite_keys: "finite (keys v n)"
  by (simp add: keys_def)

lemma finite_universe: "finite (universe v n)"
  by (simp add: universe_def finite_keys)

lemma pending_once:
  assumes "counted v n ls s"
  shows "active s + in_channel s \<subseteq># mset_set (universe v n)"
proof -
  have "in_channel s + active s \<subseteq># mset (ended_tags ls) + active s"
    using assms unfolding counted_def by (intro subset_mset.add_right_mono) blast
  also have "\<dots> = mset_set (universe v n)" using assms by (simp add: counted_def)
  finally show ?thesis by (simp add: add.commute)
qed

lemma pending_count:
  assumes "counted v n ls s"
  shows "count (active s + in_channel s) t \<le> 1"
proof -
  have "count (active s + in_channel s) t \<le> count (mset_set (universe v n)) t"
    using pending_once [OF assms] by (rule mset_subset_eq_count)
  also have "\<dots> \<le> 1" by (cases "t \<in> universe v n") (simp_all add: finite_universe count_mset_set)
  finally show ?thesis .
qed

lemma slots_bound:
  assumes "counted v n ls s"
  shows "slots s k \<subseteq> {..<glen v k}"
proof
  fix slot assume "slot \<in> slots s k"
  then have "(k, slot) \<in># mset_set (universe v n)"
    using mset_subset_eqD [OF pending_once [OF assms]] by (simp add: slots_def)
  then show "slot \<in> {..<glen v k}" by (simp add: finite_universe) (simp add: universe_def)
qed

lemma slots_finite: "counted v n ls s \<Longrightarrow> finite (slots s k)"
  by (rule finite_subset [OF slots_bound]) simp_all

lemma entry_ok_mono: "entry_ok v ls k waits e \<Longrightarrow> entry_ok v (ls @ l) k waits e"
  by (cases e) (auto simp: entry_ok_def)

lemma slots_same:
  assumes "active s' = active s" "vs_channel s' = vs_channel s"
  shows "slots s' = slots s"
  using assms by (simp add: fun_eq_iff slots_def in_channel_def)

section \<open>Quiet and ending steps keep it\<close>

lemma quiet_tags: "quiet l \<Longrightarrow> ended_tags [l] = []"
  by (simp add: quiet_def)

lemma quiet_counted:
  assumes "vstep v s l s'" "quiet l" "counted v n ls s"
  shows "counted v n (ls @ [l]) s'"
  using quiet_step [OF assms(1,2)] quiet_tags [OF assms(2)] assms(3)
  by (auto simp: counted_def in_channel_def)

lemma probing_slots: "m \<in> set (vs_probing s) \<Longrightarrow> gm_slot m \<in> slots s (key_of m)"
  by (auto simp: slots_def active_def tag_def)

lemma quiet_grouped:
  assumes "vstep v s l s'" "quiet l" "grouped v ls s"
  shows "grouped v (ls @ [l]) s'"
proof -
  note q = quiet_step [OF assms(1,2)]
  have sl: "slots s' = slots s" using q by (intro slots_same) auto
  have "slots s' k \<noteq> {}" if "k \<in> dom (vs_dead s')" for k
  proof -
    from q that have "k \<in> dom (vs_dead s) \<or> k \<in> key_of ` set (vs_probing s')" by blast
    then show ?thesis using assms(3) probing_slots sl by (fastforce simp: grouped_def)
  qed
  with q sl assms(3) show ?thesis by (simp add: grouped_def entry_ok_mono)
qed

lemma ended_slots:
  assumes "vstep v s (Ended k slot r) s'"
  shows "active s' + in_channel s' = active s + in_channel s" "slots s' = slots s"
proof -
  from ended_step [OF assms] have "active s = add_mset (k, slot) (active s')"
    "in_channel s' = in_channel s + {#(k, slot)#}" by (auto simp: in_channel_def)
  then show "active s' + in_channel s' = active s + in_channel s" by simp
  then show "slots s' = slots s" by (simp add: fun_eq_iff slots_def)
qed

lemma ended_counted:
  assumes "vstep v s (Ended k slot r) s'" "counted v n ls s"
  shows "counted v n (ls @ [Ended k slot r]) s'"
proof -
  from ended_step [OF assms(1)] obtain m where m: "m \<in> mem_set s" "key_of m = k" "gm_slot m = slot"
    "active s = add_mset (k, slot) (active s')" "mem_set s' \<subseteq> mem_set s"
    "vs_channel s' = vs_channel s @ [\<lparr>gr_key = k, gr_slot = slot, gr_len = gm_len m, gr_proxy = r\<rparr>]" by blast
  have c: "in_channel s' = add_mset (k, slot) (in_channel s)" by (simp add: in_channel_def m(6))
  have "gm_len m = glen v k" using assms(2) m(1,2) by (auto simp: counted_def)
  with m c assms(2) show ?thesis by (auto simp: counted_def)
qed

lemma ended_grouped:
  assumes "vstep v s (Ended k slot r) s'" "counted v n ls s" "grouped v ls s"
  shows "grouped v (ls @ [Ended k slot r]) s'"
proof -
  note sl = ended_slots(2) [OF assms(1)]
  from ended_step [OF assms(1)] obtain m where m: "m \<in> mem_set s" "active s = add_mset (k, slot) (active s')"
    "vs_groups s' = vs_groups s" "dom (vs_dead s') \<subseteq> insert k (dom (vs_dead s))" by blast
  have mine: "slot \<in> slots s k" by (simp add: slots_def m(2))
  have "slots s j \<noteq> {}" if "j \<in> dom (vs_dead s')" for j
  proof (cases "j = k")
    case True
    with mine show ?thesis by blast
  next
    case False
    with that m(4) have "j \<in> dom (vs_dead s)" by blast
    with assms(3) show ?thesis unfolding grouped_def by blast
  qed
  moreover have "\<forall>k'. entry_ok v (ls @ [Ended k slot r]) k' (slots s k') (vs_groups s k')"
    using assms(3) entry_ok_mono unfolding grouped_def by blast
  ultimately show ?thesis unfolding grouped_def sl m(3) by blast
qed

section \<open>Receiving a result\<close>

definition unscored :: "proxy \<Rightarrow> proxy" where
  "unscored p = p\<lparr>px_score := None\<rparr>"

definition unscored_all :: "proxy list \<Rightarrow> proxy list" where
  "unscored_all ps = map unscored ps"

lemma unscored_all_append [simp]: "unscored_all (xs @ ys) = unscored_all xs @ unscored_all ys"
  by (simp add: unscored_all_def)

definition to_list :: "'a option \<Rightarrow> 'a list" where
  "to_list x = (case x of Some y \<Rightarrow> [y] | None \<Rightarrow> [])"

lemma send_merged_frame:
  "ws_done (send_merged p w) = ws_done w" "ws_passed (send_merged p w) = ws_passed w + 1"
  "\<exists>q. ws_sent (send_merged p w) = ws_sent w @ [q] \<and> unscored q = unscored p"
  by (auto simp: send_merged_def unscored_def Let_def split: option.split)

lemma group_finish_total:
  assumes "gs_results e \<noteq> []"
  shows "\<exists>r. group_finish e = Ok r"
proof (cases "list_all (\<lambda>r. r \<noteq> None) (gs_results e)")
  case True
  with assms have "List.map_filter (\<lambda>r. r) (gs_results e) \<noteq> []"
    by (cases "gs_results e") (auto simp: List.map_filter_def)
  with True show ?thesis by (simp add: group_finish_def merge_slots_def outcome_simps)
next
  case False
  then show ?thesis by (simp add: group_finish_def)
qed

text \<open>What the aggregator does with a message, in terms of the slots it waits for.\<close>

lemma aggregate_more:
  assumes "gr_slot m < length (gs_results (entry_of m s))" "gs_remaining (entry_of m s) > 1"
  shows "aggregate_one m s = Ok (s\<lparr>vs_groups := (vs_groups s)(gr_key m \<mapsto>
    \<lparr>gs_remaining = gs_remaining (entry_of m s) - 1,
     gs_results = (gs_results (entry_of m s))[gr_slot m := gr_proxy m]\<rparr>)\<rparr>)"
  using assms by (simp add: aggregate_one_def Let_def)

definition closed_by :: "group_result \<Rightarrow> vstate \<Rightarrow> vstate" where
  "closed_by m s =
     s\<lparr>vs_groups := (vs_groups s)(gr_key m := None), vs_dead := (vs_dead s)(gr_key m := None),
       vs_work := count_done (vs_work s)\<rparr>"

lemma aggregate_last:
  assumes "gr_slot m < length (gs_results (entry_of m s))" "gs_remaining (entry_of m s) = 1"
  shows "\<exists>r. group_finish \<lparr>gs_remaining = 0, gs_results = (gs_results (entry_of m s))[gr_slot m := gr_proxy m]\<rparr> = Ok r \<and>
    aggregate_one m s = Ok (case r of
      None \<Rightarrow> closed_by m s
    | Some p \<Rightarrow> closed_by m s\<lparr>vs_work := send_merged p (vs_work (closed_by m s))\<rparr>)"
proof -
  from assms(1) have "gs_results (entry_of m s) \<noteq> []" by auto
  then obtain r where "group_finish \<lparr>gs_remaining = 0, gs_results = (gs_results (entry_of m s))[gr_slot m := gr_proxy m]\<rparr> = Ok r"
    using group_finish_total [of "\<lparr>gs_remaining = 0, gs_results = (gs_results (entry_of m s))[gr_slot m := gr_proxy m]\<rparr>"]
    by auto
  with assms show ?thesis
    by (auto simp: aggregate_one_def Let_def closed_by_def outcome_simps split: option.split)
qed

lemma entry_facts:
  assumes "counted v n ls s" "grouped v ls s" "vs_channel s = m # ms"
  defines "e \<equiv> entry_of m (s\<lparr>vs_channel := ms\<rparr>)"
  shows "gr_slot m \<in> slots s (gr_key m)" "gr_slot m < length (gs_results e)" "length (gs_results e) = glen v (gr_key m)"
    "gs_remaining e = card (slots s (gr_key m))"
    "\<forall>slot < glen v (gr_key m). slot \<notin> slots s (gr_key m) \<longrightarrow> Ended (gr_key m) slot (gs_results e ! slot) \<in> set ls"
proof -
  show mine: "gr_slot m \<in> slots s (gr_key m)" using assms(3) by (simp add: slots_def in_channel_def)
  have len: "gr_len m = glen v (gr_key m)" using assms(1,3) by (simp add: counted_def)
  have ok: "entry_ok v ls (gr_key m) (slots s (gr_key m)) (vs_groups s (gr_key m))"
    using assms(2) unfolding grouped_def by blast
  have "length (gs_results e) = glen v (gr_key m) \<and> gs_remaining e = card (slots s (gr_key m)) \<and>
    (\<forall>slot < glen v (gr_key m). slot \<notin> slots s (gr_key m) \<longrightarrow> Ended (gr_key m) slot (gs_results e ! slot) \<in> set ls)"
  proof (cases "vs_groups s (gr_key m)")
    case None
    with ok mine have "slots s (gr_key m) = {..<glen v (gr_key m)}" by (auto simp: entry_ok_def)
    with None len show ?thesis by (simp add: e_def entry_of_def)
  next
    case (Some st)
    with ok show ?thesis by (simp add: e_def entry_of_def entry_ok_def)
  qed
  then show "length (gs_results e) = glen v (gr_key m)" "gs_remaining e = card (slots s (gr_key m))"
    "\<forall>slot < glen v (gr_key m). slot \<notin> slots s (gr_key m) \<longrightarrow> Ended (gr_key m) slot (gs_results e ! slot) \<in> set ls"
    by auto
  then show "gr_slot m < length (gs_results e)" using subsetD [OF slots_bound [OF assms(1)] mine] by simp
qed

lemma received_slots:
  assumes "counted v n ls s" "vs_channel s = m # ms" "active s' = active s" "vs_channel s' = ms"
  shows "slots s' j = (if j = gr_key m then slots s j - {gr_slot m} else slots s j)"
proof -
  let ?t = "(gr_key m, gr_slot m)"
  have c: "in_channel s = add_mset ?t (in_channel s')" using assms(2,4) by (simp add: in_channel_def)
  have "count (active s + in_channel s) ?t \<le> 1" by (rule pending_count [OF assms(1)])
  then have "count (active s) ?t = 0" "count (in_channel s') ?t = 0" by (simp_all add: c)
  then have "?t \<notin># active s" "?t \<notin># in_channel s'" by (simp_all add: not_in_iff)
  then show ?thesis by (auto simp: slots_def c assms(3))
qed

definition closes :: "group_result \<Rightarrow> proxy option list \<Rightarrow> vstate \<Rightarrow> vstate \<Rightarrow> bool" where
  "closes m rs s s' \<longleftrightarrow>
     vs_groups s' = (vs_groups s)(gr_key m := None) \<and> vs_dead s' = (vs_dead s)(gr_key m := None) \<and>
     ws_done (vs_work s') = ws_done (vs_work s) + 1 \<and>
     (\<exists>r out. group_finish \<lparr>gs_remaining = 0, gs_results = rs\<rparr> = Ok r \<and>
        ws_sent (vs_work s') = ws_sent (vs_work s) @ out \<and> unscored_all out = unscored_all (to_list r) \<and>
        ws_passed (vs_work s') = ws_passed (vs_work s) + length out)"

definition waits_on :: "group_result \<Rightarrow> proxy option list \<Rightarrow> vstate \<Rightarrow> vstate \<Rightarrow> bool" where
  "waits_on m rs s s' \<longleftrightarrow>
     vs_groups s' = (vs_groups s)(gr_key m \<mapsto> \<lparr>gs_remaining = card (slots s (gr_key m)) - 1, gs_results = rs\<rparr>) \<and>
     vs_dead s' = vs_dead s \<and> vs_work s' = vs_work s"

definition receives :: "vlabel list \<Rightarrow> validator_run \<Rightarrow> group_result \<Rightarrow> vstate \<Rightarrow> vstate \<Rightarrow> bool" where
  "receives ls v m s s' \<longleftrightarrow>
     (\<exists>rs. length rs = glen v (gr_key m) \<and>
        (\<forall>slot < glen v (gr_key m). slot \<notin> slots s (gr_key m) - {gr_slot m} \<longrightarrow> Ended (gr_key m) slot (rs ! slot) \<in> set ls) \<and>
        (if slots s (gr_key m) = {gr_slot m} then closes m rs s s' else waits_on m rs s s'))"

lemma receive_total:
  assumes "counted v n ls s" "grouped v ls s" "vs_channel s = m # ms"
  shows "\<exists>s'. aggregate_one m (s\<lparr>vs_channel := ms\<rparr>) = Ok s' \<and> vs_channel s' = ms \<and> active s' = active s \<and>
    mem_set s' = mem_set s \<and> vs_waiting s' = vs_waiting s \<and> vs_running s' = vs_running s \<and>
    vs_probing s' = vs_probing s \<and> vs_total s' = vs_total s \<and> receives ls v m s s'"
proof -
  let ?s = "s\<lparr>vs_channel := ms\<rparr>"
  let ?rs = "(gs_results (entry_of m ?s))[gr_slot m := gr_proxy m]"
  note f = entry_facts [OF assms]
  have said: "Ended (gr_key m) (gr_slot m) (gr_proxy m) \<in> set ls" using assms(1,3) by (simp add: counted_def)
  have rs: "length ?rs = glen v (gr_key m)"
    "\<forall>slot < glen v (gr_key m). slot \<notin> slots s (gr_key m) - {gr_slot m} \<longrightarrow> Ended (gr_key m) slot (?rs ! slot) \<in> set ls"
    using f(2,3,5) said by (auto simp: nth_list_update)
  have fin: "finite (slots s (gr_key m))" by (rule slots_finite [OF assms(1)])
  show ?thesis
  proof (cases "slots s (gr_key m) = {gr_slot m}")
    case True
    with f(4) have one: "gs_remaining (entry_of m ?s) = 1" by simp
    from aggregate_last [OF f(2) one] obtain r where r: "group_finish \<lparr>gs_remaining = 0, gs_results = ?rs\<rparr> = Ok r"
      "aggregate_one m ?s = Ok (case r of None \<Rightarrow> closed_by m ?s
         | Some p \<Rightarrow> closed_by m ?s\<lparr>vs_work := send_merged p (vs_work (closed_by m ?s))\<rparr>)" by blast
    show ?thesis
    proof (cases r)
      case None
      have "receives ls v m s (closed_by m ?s)"
        unfolding receives_def
        by (rule exI [of _ ?rs]) (use rs r None True in \<open>simp add: closes_def closed_by_def count_done_def to_list_def unscored_all_def\<close>)
      with r None show ?thesis by (simp add: closed_by_def active_def mem_set_def)
    next
      case (Some p)
      obtain q where q: "ws_sent (send_merged p (vs_work (closed_by m ?s))) = ws_sent (vs_work (closed_by m ?s)) @ [q]"
        "unscored q = unscored p" using send_merged_frame(3) by blast
      have "receives ls v m s (closed_by m ?s\<lparr>vs_work := send_merged p (vs_work (closed_by m ?s))\<rparr>)"
        unfolding receives_def
        by (rule exI [of _ ?rs])
          (use rs r(1) Some True q in \<open>simp add: closes_def send_merged_frame(1,2) closed_by_def count_done_def to_list_def unscored_all_def\<close>)
      with r Some show ?thesis by (simp add: closed_by_def active_def mem_set_def)
    qed
  next
    case False
    have "1 < card (slots s (gr_key m))"
      using False f(1) fin by (metis card_0_eq card_1_singletonE empty_iff less_one linorder_neqE_nat singletonD)
    with f(4) have "gs_remaining (entry_of m ?s) > 1" by simp
    note agg = aggregate_more [OF f(2) this]
    show ?thesis
      by (rule exI, rule conjI, rule agg)
        (use rs f(4) False in \<open>auto simp: active_def mem_set_def receives_def waits_on_def intro!: exI [of _ ?rs]\<close>)
  qed
qed

lemma received_step:
  assumes "vstep v s Received s'" "counted v n ls s" "grouped v ls s"
  obtains m ms where "vs_channel s = m # ms" "vs_channel s' = ms" "active s' = active s" "mem_set s' = mem_set s"
    "vs_waiting s' = vs_waiting s" "vs_running s' = vs_running s" "vs_probing s' = vs_probing s"
    "vs_total s' = vs_total s" "receives ls v m s s'"
    "\<forall>j. slots s' j = (if j = gr_key m then slots s j - {gr_slot m} else slots s j)"
proof -
  from assms(1) obtain m ms where c: "vs_channel s = m # ms" "aggregate_one m (s\<lparr>vs_channel := ms\<rparr>) = Ok s'"
    by (auto elim: vstep_received)
  from receive_total [OF assms(2,3) c(1)] c(2) have
    f: "vs_channel s' = ms" "active s' = active s" "mem_set s' = mem_set s" "vs_waiting s' = vs_waiting s"
    "vs_running s' = vs_running s" "vs_probing s' = vs_probing s" "vs_total s' = vs_total s" "receives ls v m s s'"
    by auto
  have "\<forall>j. slots s' j = (if j = gr_key m then slots s j - {gr_slot m} else slots s j)"
    using received_slots [OF assms(2) c(1) f(2,1)] by blast
  with c(1) f show ?thesis by (rule that)
qed

lemma received_counted:
  assumes "vstep v s Received s'" "counted v n ls s" "grouped v ls s"
  shows "counted v n (ls @ [Received]) s'"
proof -
  from assms obtain m ms where c: "vs_channel s = m # ms" "vs_channel s' = ms" "active s' = active s" "mem_set s' = mem_set s"
    by (rule received_step)
  have "in_channel s' \<subseteq># in_channel s" using c(1,2) by (simp add: in_channel_def)
  with assms(2) have "in_channel s' \<subseteq># mset (ended_tags ls)"
    unfolding counted_def by (meson subset_mset.order_trans)
  with assms(2) c show ?thesis by (auto simp: counted_def)
qed

lemma received_grouped:
  assumes "vstep v s Received s'" "counted v n ls s" "grouped v ls s"
  shows "grouped v (ls @ [Received]) s'"
proof -
  from assms obtain m ms where c: "vs_channel s = m # ms" "receives ls v m s s'"
    and sl': "\<forall>j. slots s' j = (if j = gr_key m then slots s j - {gr_slot m} else slots s j)"
    by (rule received_step)
  note sl = spec [OF sl']
  let ?k = "gr_key m"
  have mine: "gr_slot m \<in> slots s ?k" by (rule entry_facts(1) [OF assms(2,3) c(1)])
  from c(2) obtain rs where rs: "length rs = glen v ?k"
    "\<forall>slot < glen v ?k. slot \<notin> slots s ?k - {gr_slot m} \<longrightarrow> Ended ?k slot (rs ! slot) \<in> set ls"
    and upd: "if slots s ?k = {gr_slot m} then closes m rs s s' else waits_on m rs s s'"
    unfolding receives_def by blast
  have fin: "finite (slots s ?k)" by (rule slots_finite [OF assms(2)])
  have frame: "vs_groups s' j = vs_groups s j \<and> vs_dead s' j = vs_dead s j" if "j \<noteq> ?k" for j
    using upd that by (cases "slots s ?k = {gr_slot m}") (simp_all add: closes_def waits_on_def)
  have was: "entry_ok v ls j (slots s j) (vs_groups s j)" "j \<in> dom (vs_dead s) \<Longrightarrow> slots s j \<noteq> {}" for j
    using assms(3) unfolding grouped_def by blast+
  have old: "entry_ok v ls j (slots s' j) (vs_groups s' j)" "j \<in> dom (vs_dead s') \<Longrightarrow> slots s' j \<noteq> {}" if "j \<noteq> ?k" for j
    using was [of j] frame [OF that] that by (simp_all add: sl dom_def)
  have new: "entry_ok v ls ?k (slots s' ?k) (vs_groups s' ?k) \<and> (?k \<in> dom (vs_dead s') \<longrightarrow> slots s' ?k \<noteq> {})"
  proof (cases "slots s ?k = {gr_slot m}")
    case True
    with upd show ?thesis by (simp add: sl entry_ok_def closes_def)
  next
    case False
    with mine have "slots s' ?k \<noteq> {}" by (auto simp: sl)
    moreover have "card (slots s' ?k) = card (slots s ?k) - 1" using mine fin by (simp add: sl)
    ultimately show ?thesis using upd False rs by (simp add: entry_ok_def waits_on_def sl)
  qed
  have "entry_ok v (ls @ [Received]) j (slots s' j) (vs_groups s' j) \<and> (j \<in> dom (vs_dead s') \<longrightarrow> slots s' j \<noteq> {})" for j
    by (cases "j = ?k") (use old new entry_ok_mono in blast)+
  then show ?thesis unfolding grouped_def by blast
qed

section \<open>The start\<close>

lemma members_jobs_of:
  "members (jobs_of v i p) =
     map (\<lambda>(g, slot, protocol). \<lparr>gm_proxy = p, gm_id = of_nat i, gm_protocol = protocol, gm_group = g,
        gm_slot = slot, gm_len = length (vr_groups v ! g)\<rparr>) (group_spec (vr_groups v))"
proof -
  have s: "members (map (\<lambda>(protocol, requested). Single p protocol requested) xs @ js) = members js" for xs js
    by (induction xs) auto
  have m: "members (map (\<lambda>x. Member (f x)) xs) = map f xs" for f :: "'a \<Rightarrow> group_member" and xs
    by (induction xs) auto
  show ?thesis unfolding jobs_of_def s by (simp add: m [symmetric] split_def)
qed

definition spec_tags :: "protocol list list \<Rightarrow> (nat \<times> nat) list" where
  "spec_tags groups = map (\<lambda>(g, slot, _). (g, slot)) (group_spec groups)"

lemma spec_tags_eq: "spec_tags groups = concat (map (\<lambda>g. map (Pair g) [0..<length (groups ! g)]) [0..<length groups])"
proof -
  have "map (\<lambda>(g, slot, _). (g, slot)) (map (\<lambda>(slot, p). (g, slot, p)) (enumerate 0 ps)) = map (Pair g) [0..<length ps]"
    for g and ps :: "protocol list"
    by (rule nth_equalityI) (simp_all add: nth_enumerate_eq)
  then have "map (\<lambda>(g, slot, _). (g, slot)) (case x of (g, ps) \<Rightarrow> map (\<lambda>(slot, p). (g, slot, p)) (enumerate 0 ps)) =
      (case x of (g, ps) \<Rightarrow> map (Pair g) [0..<length ps])" for x :: "nat \<times> protocol list"
    by (cases x) (simp only: prod.case)
  then have "spec_tags groups = concat (map (\<lambda>(g, ps). map (Pair g) [0..<length ps]) (enumerate 0 groups))"
    unfolding spec_tags_def group_spec_def map_concat map_map comp_def by (simp only: )
  also have "map (\<lambda>(g, ps). map (Pair g) [0..<length ps]) (enumerate 0 groups) =
      map (\<lambda>g. map (Pair g) [0..<length (groups ! g)]) [0..<length groups]"
    by (rule nth_equalityI) (simp_all add: nth_enumerate_eq)
  finally show ?thesis .
qed

lemma spec_tags_set: "set (spec_tags groups) = (SIGMA g : {..<length groups}. {..<length (groups ! g)})"
  by (auto simp: spec_tags_eq)

lemma spec_tags_distinct: "distinct (spec_tags groups)"
proof -
  have "distinct (concat (map (\<lambda>g. map (Pair g) [0..<f g]) [0..<n]))" for f :: "nat \<Rightarrow> nat" and n
    by (induction n) (auto simp: distinct_map inj_on_def)
  then show ?thesis by (simp add: spec_tags_eq)
qed

lemma tags_jobs_of:
  "map tag (members (jobs_of v i p)) = map (\<lambda>(g, slot). ((of_nat i, g), slot)) (spec_tags (vr_groups v))"
  by (simp add: members_jobs_of spec_tags_def tag_def key_of_def split_def)

lemma members_concat: "members (concat jss) = concat (map members jss)"
  by (induction jss) auto

lemma tags_all_jobs:
  "map tag (members (all_jobs v ps)) =
     concat (map (\<lambda>i. map (\<lambda>(g, slot). ((of_nat i, g), slot)) (spec_tags (vr_groups v))) [0..<length ps])"
proof -
  have "map tag (members (all_jobs v ps)) =
      concat (map (\<lambda>(i, p). map (\<lambda>(g, slot). ((of_nat i, g), slot)) (spec_tags (vr_groups v))) (enumerate 0 ps))"
    by (simp add: all_jobs_def members_concat map_concat comp_def split_def tags_jobs_of)
  also have "map (\<lambda>(i, p). map (\<lambda>(g, slot). ((of_nat i, g), slot)) (spec_tags (vr_groups v))) (enumerate 0 ps) =
      map (\<lambda>i. map (\<lambda>(g, slot). ((of_nat i :: u64, g), slot)) (spec_tags (vr_groups v))) [0..<length ps]"
    by (rule nth_equalityI) (simp_all add: nth_enumerate_eq)
  finally show ?thesis .
qed

lemma word_ids: "inj_on (\<lambda>i. of_nat i :: u64) {..<n}" if "n \<le> 2 ^ 64"
  using that by (auto simp: inj_on_def word_of_nat_eq_iff take_bit_nat_eq_self)

lemma tags_start:
  assumes "length ps \<le> 2 ^ 64"
  shows "mset (map tag (members (all_jobs v ps))) = mset_set (universe v (length ps))"
proof -
  have inj: "inj_on (\<lambda>(g, slot). ((a, g), slot)) X" for a :: u64 and X :: "(nat \<times> nat) set"
    by (auto simp: inj_on_def)
  have "distinct (concat (map (\<lambda>i. map (\<lambda>(g, slot). ((of_nat i :: u64, g), slot)) xs) [0..<n]))"
    if "n \<le> 2 ^ 64" "distinct xs" for n and xs :: "(nat \<times> nat) list"
    using that
  proof (induction n)
    case 0
    then show ?case by simp
  next
    case (Suc n)
    have "(of_nat i :: u64) \<noteq> of_nat n" if "i < n" for i
      using word_ids [OF Suc.prems(1)] that by (auto simp: inj_on_def)
    with Suc show ?case by (fastforce simp: distinct_map inj)
  qed
  from this [OF assms spec_tags_distinct]
  have d: "distinct (map tag (members (all_jobs v ps)))" by (simp add: tags_all_jobs)
  have "set (map tag (members (all_jobs v ps))) = universe v (length ps)"
    by (force simp: tags_all_jobs spec_tags_set universe_def keys_def glen_def)
  with d show ?thesis by (metis mset_set_set)
qed

lemma start_counted:
  assumes "length ps \<le> 2 ^ 64"
  shows "counted v (length ps) [] (vstart v w ps)"
proof -
  have "m \<in> set (members (all_jobs v ps)) \<Longrightarrow> gm_len m = glen v (key_of m)" for m
    by (auto simp: all_jobs_def members_concat members_jobs_of glen_def key_of_def)
  with tags_start [OF assms] show ?thesis
    by (simp add: counted_def vstart_def active_def in_channel_def mem_set_def)
qed

lemma start_grouped:
  assumes "length ps \<le> 2 ^ 64"
  shows "grouped v [] (vstart v w ps)"
proof -
  have a: "active (vstart v w ps) + in_channel (vstart v w ps) = mset_set (universe v (length ps))"
    using tags_start [OF assms] by (simp add: vstart_def active_def in_channel_def)
  have "slots (vstart v w ps) k = {} \<or> slots (vstart v w ps) k = {..<glen v k}" for k
    unfolding slots_def a by (auto simp: finite_universe) (auto simp: universe_def)
  then show ?thesis by (simp add: grouped_def entry_ok_def vstart_def)
qed

section \<open>Every run\<close>

lemma step_kinds: "quiet l \<or> l = Received \<or> (\<exists>k slot r. l = Ended k slot r)"
  by (cases l) (auto simp: quiet_def)

lemma run_invariant:
  assumes "vrun v s0 ls s" "s0 = vstart v w ps" "length ps \<le> 2 ^ 64"
  shows "counted v (length ps) ls s \<and> grouped v ls s"
  using assms
proof (induction rule: vrun.induct)
  case (stay s)
  then show ?case using start_counted start_grouped by blast
next
  case (go s ls s' l s'')
  then have inv: "counted v (length ps) ls s'" "grouped v ls s'" by auto
  consider "quiet l" | "l = Received" | k slot r where "l = Ended k slot r" using step_kinds by blast
  then show ?case
  proof cases
    case 1
    with go inv show ?thesis using quiet_counted quiet_grouped by blast
  next
    case 2
    with go inv show ?thesis using received_counted received_grouped by blast
  next
    case 3
    with go inv show ?thesis using ended_counted ended_grouped by blast
  qed
qed

end
