(* ===== verification/Validator_Results.thy ===== *)
theory Validator_Results
  imports Validator_Props Judge_Probe_Props
begin

text \<open>
  What the running validator guarantees: no task panics, every run ends and is never stuck, the
  counters agree when it has ended, and what it has sent.
\<close>

section \<open>No task panics\<close>

lemma tunnel_loop_safe: "fst (tunnel_loop p epoch auth protocol ask candidates offsets s) \<noteq> Panic"
proof (induction offsets arbitrary: s)
  case Nil
  then show ?case by simp
next
  case (Cons offset offsets)
  then show ?case
    by (auto simp: Let_def probe_once_safe split: prod.split outcome.split)
qed

lemma support_tunnel_safe: "fst (support_tunnel sort_with parse_url p epoch auth protocol ask pool) \<noteq> Panic"
  by (auto simp: support_tunnel_def tunnel_loop_safe split: prod.split sum.split)

lemma run_probe_safe: "fst (run_probe v env p protocol requested targets) \<noteq> Panic"
proof -
  have "fst (support_tunnel (vr_sort v) (vr_parse_url v) (vr_params v) (pe_epoch env) (px_auth p) protocol
      (pe_tunnel env) (tg_tunnel targets)) \<noteq> Panic" by (rule support_tunnel_safe)
  then show ?thesis
    by (cases protocol) (auto simp: run_probe_def split: prod.splits outcome.splits)
qed

lemma do_single_work_total: "\<exists>w'. do_single_work v env renv p protocol requested w = Some w'"
  using run_probe_safe [of v env "validation_probe p" protocol requested "ws_targets w"]
  by (auto simp: do_single_work_def Let_def split: prod.split outcome.split option.split)

lemma group_end_total: "\<exists>x. group_end v env renv m dead w = Some x"
  using run_probe_safe [of v env "validation_probe (gm_proxy m)" "gm_protocol m" "gm_protocol m" "ws_targets w"]
  by (auto simp: group_end_def Let_def split: prod.split outcome.split option.split)

text \<open>C8: in every reachable state of the validator the next message of the aggregator is handled without a
  panic: its slot is in range, the count of missing results does not underflow, and a complete
  group has a first slot to merge into; and no probe of a job panics.\<close>

theorem validator_never_panics:
  assumes "vrun v (vstart v w ps) ls s" and "length ps \<le> 2 ^ 64"
  shows "(\<forall>m ms. vs_channel s = m # ms \<longrightarrow> (\<exists>s'. aggregate_one m (s\<lparr>vs_channel := ms\<rparr>) = Ok s')) \<and>
    do_single_work v env renv p protocol requested (vs_work s) \<noteq> None \<and>
    group_end v env renv member (vs_dead s) (vs_work s) \<noteq> None"
proof -
  from run_invariant [OF assms(1) refl assms(2)] have inv: "counted v (length ps) ls s" "grouped v ls s" by auto
  then show ?thesis
    using receive_total [OF inv] do_single_work_total [of v env renv p protocol requested "vs_work s"]
      group_end_total [of v env renv member "vs_dead s" "vs_work s"] by fastforce
qed

section \<open>Every run ends, and none is stuck\<close>

definition fuel :: "vstate \<Rightarrow> nat" where
  "fuel s = 4 * length (vs_waiting s) + 3 * length (vs_running s) + 2 * length (vs_probing s) + length (vs_channel s)"

lemma aggregate_frame:
  assumes "aggregate_one m s = Ok s'"
  shows "vs_waiting s' = vs_waiting s" "vs_running s' = vs_running s" "vs_probing s' = vs_probing s"
    "vs_channel s' = vs_channel s"
  using assms by (auto simp: aggregate_one_def Let_def outcome_simps split: if_splits option.splits)

lemma aggregate_fuel: "aggregate_one m s = Ok s' \<Longrightarrow> fuel s' = fuel s"
  by (simp add: fuel_def aggregate_frame)

lemma step_fuel: "vstep v s l s' \<Longrightarrow> fuel s' < fuel s"
  by (erule vstep.cases) (auto dest!: aggregate_fuel, simp_all add: fuel_def)

lemma run_fuel: "vrun v s0 ls s \<Longrightarrow> length ls + fuel s \<le> fuel s0"
proof (induction rule: vrun.induct)
  case (go s ls s' l s'')
  with step_fuel [OF go(2)] show ?case by simp
qed simp

lemma never_stuck:
  assumes "counted v n ls s" "grouped v ls s" "vr_limit v > 0" "\<not> finished s"
  shows "\<exists>l s'. vstep v s l s'"
proof (cases "vs_channel s")
  case (Cons m ms)
  with receive_total [OF assms(1,2) Cons] show ?thesis by (blast intro: receive)
next
  case none: Nil
  show ?thesis
  proof (cases "vs_probing s")
    case (Cons m ms)
    obtain r dead w where "group_end v undefined undefined m (vs_dead s) (vs_work s) = Some (r, dead, w)"
      using group_end_total by (metis prod_cases3)
    with Cons member_ends [of s "[]" m ms] show ?thesis by fastforce
  next
    case Nil
    show ?thesis
    proof (cases "vs_running s")
      case (Cons j js)
      show ?thesis
      proof (cases j)
        case (Single p protocol requested)
        obtain w where "do_single_work v undefined undefined p protocol requested (vs_work s) = Some w"
          using do_single_work_total by blast
        with Cons Single single [of s "[]" p protocol requested js] show ?thesis by fastforce
      next
        case (Member m)
        obtain r dead w where "group_begin v undefined m (vs_dead s) (vs_work s) = (r, dead, w)"
          by (cases "group_begin v undefined m (vs_dead s) (vs_work s)")
        with Cons Member member_starts [of s "[]" m js] member_dead [of s "[]" m js] show ?thesis
          by (cases r) fastforce+
      qed
    next
      case running: Nil
      with none Nil assms(4) obtain j js where "vs_waiting s = j # js"
        by (cases "vs_waiting s") (auto simp: finished_def)
      with running Nil assms(3) show ?thesis using pull [of s v j js] by fastforce
    qed
  qed
qed

text \<open>C7: validation of any candidates ends: no run has more than four steps per job, and a run that has not
  ended can always take a step, whatever the judges and the health file do.\<close>

theorem validator_terminates:
  assumes "vrun v (vstart v w ps) ls s" and "length ps \<le> 2 ^ 64" and "vr_limit v > 0"
  shows "length ls \<le> 4 * length (all_jobs v ps) \<and> (\<not> finished s \<longrightarrow> (\<exists>l s'. vstep v s l s'))"
proof -
  have "length ls \<le> fuel (vstart v w ps)" using run_fuel [OF assms(1)] by simp
  then have "length ls \<le> 4 * length (all_jobs v ps)" by (simp add: fuel_def vstart_def)
  with run_invariant [OF assms(1) refl assms(2)] assms(3) never_stuck show ?thesis by blast
qed

section \<open>The counters\<close>

fun singles :: "job list \<Rightarrow> nat" where
  "singles [] = 0"
| "singles (Single _ _ _ # js) = Suc (singles js)"
| "singles (Member _ # js) = singles js"

lemma singles_append [simp]: "singles (xs @ ys) = singles xs + singles ys"
  by (induction xs rule: singles.induct) auto

definition open_keys :: "validator_run \<Rightarrow> nat \<Rightarrow> vstate \<Rightarrow> group_key set" where
  "open_keys v n s = {k \<in> keys v n. slots s k \<noteq> {}}"

lemma finite_open: "finite (open_keys v n s)"
  by (simp add: open_keys_def finite_keys)

definition tally :: "validator_run \<Rightarrow> nat \<Rightarrow> vstate \<Rightarrow> nat" where
  "tally v n s = ws_done (vs_work s) + singles (vs_waiting s) + singles (vs_running s) + card (open_keys v n s)"

definition pulled :: "vstate \<Rightarrow> nat" where
  "pulled s = vs_total s + sum_list (map weight (vs_waiting s))"

lemma open_keys_same: "slots s' = slots s \<Longrightarrow> open_keys v n s' = open_keys v n s"
  by (simp add: open_keys_def)

lemma quiet_tally:
  assumes "vstep v s l s'" "quiet l"
  shows "tally v n s' = tally v n s \<and> pulled s' = pulled s"
proof -
  have o: "open_keys v n s' = open_keys v n s"
    using quiet_step [OF assms] by (intro open_keys_same slots_same) auto
  from assms(1) show ?thesis
  proof (cases rule: vstep.cases)
    case (pull j js)
    with o show ?thesis by (cases j) (auto simp: tally_def pulled_def)
  next
    case (single xs p protocol requested ys env renv w)
    with o single_frame [OF single(4)] show ?thesis by (auto simp: tally_def pulled_def)
  next
    case (member_starts xs m ys renv dead w)
    with o begin_frame [OF member_starts(4)] show ?thesis by (auto simp: tally_def pulled_def)
  qed (use o assms(2) in \<open>auto simp: tally_def pulled_def count_done_def quiet_def\<close>)
qed

lemma ended_tally:
  assumes "vstep v s (Ended k slot r) s'"
  shows "tally v n s' = tally v n s \<and> pulled s' = pulled s"
proof -
  have o: "open_keys v n s' = open_keys v n s"
    using ended_slots(2) [OF assms] by (rule open_keys_same)
  have "singles (vs_running s') = singles (vs_running s)"
    using assms by (cases rule: vstep.cases) auto
  with o ended_step [OF assms] show ?thesis by (auto simp: tally_def pulled_def)
qed

lemma open_entry:
  assumes "counted v n ls s" "slot \<in> slots s k"
  shows "k \<in> keys v n"
proof -
  have "(k, slot) \<in># mset_set (universe v n)"
    using mset_subset_eqD [OF pending_once [OF assms(1)]] assms(2) by (simp add: slots_def)
  then have "(k, slot) \<in> universe v n" by (simp add: finite_universe)
  then show ?thesis by (simp add: universe_def)
qed

lemma received_open:
  assumes "vstep v s Received s'" "counted v n ls s" "grouped v ls s"
  obtains m rs where "length rs = glen v (gr_key m)"
    "\<forall>slot < glen v (gr_key m). slot \<notin> slots s (gr_key m) - {gr_slot m} \<longrightarrow> Ended (gr_key m) slot (rs ! slot) \<in> set ls"
    "if slots s (gr_key m) = {gr_slot m}
     then closes m rs s s' \<and> open_keys v n s = insert (gr_key m) (open_keys v n s') \<and> gr_key m \<notin> open_keys v n s'
     else waits_on m rs s s' \<and> open_keys v n s' = open_keys v n s"
    "vs_waiting s' = vs_waiting s" "vs_running s' = vs_running s" "vs_total s' = vs_total s"
proof -
  from assms obtain m ms where c: "vs_channel s = m # ms" "receives ls v m s s'"
    "vs_waiting s' = vs_waiting s" "vs_running s' = vs_running s" "vs_total s' = vs_total s"
    and sl': "\<forall>j. slots s' j = (if j = gr_key m then slots s j - {gr_slot m} else slots s j)"
    by (rule received_step)
  note sl = spec [OF sl']
  have mine: "gr_slot m \<in> slots s (gr_key m)" by (rule entry_facts(1) [OF assms(2,3) c(1)])
  have key: "gr_key m \<in> keys v n" by (rule open_entry [OF assms(2) mine])
  from c(2) obtain rs where rs: "length rs = glen v (gr_key m)"
    "\<forall>slot < glen v (gr_key m). slot \<notin> slots s (gr_key m) - {gr_slot m} \<longrightarrow> Ended (gr_key m) slot (rs ! slot) \<in> set ls"
    and upd: "if slots s (gr_key m) = {gr_slot m} then closes m rs s s' else waits_on m rs s s'"
    unfolding receives_def by blast
  have "open_keys v n s = insert (gr_key m) (open_keys v n s') \<and> gr_key m \<notin> open_keys v n s'"
    if "slots s (gr_key m) = {gr_slot m}"
    using that key by (auto simp: open_keys_def sl split: if_splits)
  moreover have "open_keys v n s' = open_keys v n s" if "slots s (gr_key m) \<noteq> {gr_slot m}"
    using that mine by (auto simp: open_keys_def sl split: if_splits)
  ultimately have "if slots s (gr_key m) = {gr_slot m}
     then closes m rs s s' \<and> open_keys v n s = insert (gr_key m) (open_keys v n s') \<and> gr_key m \<notin> open_keys v n s'
     else waits_on m rs s s' \<and> open_keys v n s' = open_keys v n s" using upd by simp
  then show ?thesis by (rule that [OF rs _ c(3-5)])
qed

lemma received_tally:
  assumes "vstep v s Received s'" "counted v n ls s" "grouped v ls s"
  shows "tally v n s' = tally v n s \<and> pulled s' = pulled s"
proof -
  from assms obtain m rs where c: "if slots s (gr_key m) = {gr_slot m}
     then closes m rs s s' \<and> open_keys v n s = insert (gr_key m) (open_keys v n s') \<and> gr_key m \<notin> open_keys v n s'
     else waits_on m rs s s' \<and> open_keys v n s' = open_keys v n s"
    "vs_waiting s' = vs_waiting s" "vs_running s' = vs_running s" "vs_total s' = vs_total s"
    by (rule received_open)
  show ?thesis
  proof (cases "slots s (gr_key m) = {gr_slot m}")
    case True
    with c(1) have "closes m rs s s'" "card (open_keys v n s) = Suc (card (open_keys v n s'))"
      by (simp_all add: finite_open)
    with c(2-4) show ?thesis by (simp add: tally_def pulled_def closes_def)
  next
    case False
    with c show ?thesis by (simp add: tally_def pulled_def waits_on_def)
  qed
qed

lemma run_tally:
  assumes "vrun v s0 ls s" "s0 = vstart v w ps" "length ps \<le> 2 ^ 64"
  shows "tally v (length ps) s = tally v (length ps) s0 \<and> pulled s = pulled s0"
  using assms
proof (induction rule: vrun.induct)
  case (go s ls s' l s'')
  with run_invariant have inv: "counted v (length ps) ls s'" "grouped v ls s'" by blast+
  consider "quiet l" | "l = Received" | k slot r where "l = Ended k slot r" using step_kinds by blast
  then have "tally v (length ps) s'' = tally v (length ps) s' \<and> pulled s'' = pulled s'"
  proof cases
    case 1
    with go(2) show ?thesis by (rule quiet_tally)
  next
    case 2
    with go(2) have "vstep v s' Received s''" by simp
    from received_tally [OF this inv] show ?thesis .
  next
    case 3
    with go(2) ended_tally show ?thesis by blast
  qed
  with go show ?case by simp
qed simp

section \<open>What has been sent\<close>

fun ended_proxy :: "vlabel list \<Rightarrow> group_key \<Rightarrow> nat \<Rightarrow> proxy option" where
  "ended_proxy [] k slot = None"
| "ended_proxy (Ended k' slot' r # ls) k slot = (if k' = k \<and> slot' = slot then r else ended_proxy ls k slot)"
| "ended_proxy (_ # ls) k slot = ended_proxy ls k slot"

text \<open>The merge of a group, from what its members ended with.\<close>

definition group_output :: "validator_run \<Rightarrow> vlabel list \<Rightarrow> group_key \<Rightarrow> proxy option" where
  "group_output v ls k =
     (case group_finish \<lparr>gs_remaining = 0, gs_results = map (ended_proxy ls k) [0..<glen v k]\<rparr> of
        Ok r \<Rightarrow> r | _ \<Rightarrow> None)"

lemma ended_proxy_append:
  "(k, slot) \<in> set (ended_tags ls) \<Longrightarrow> ended_proxy (ls @ ls') k slot = ended_proxy ls k slot"
  by (induction ls rule: ended_tags.induct) auto

lemma ended_proxy_unique:
  "distinct (ended_tags ls) \<Longrightarrow> Ended k slot r \<in> set ls \<Longrightarrow> ended_proxy ls k slot = r"
proof (induction ls rule: ended_tags.induct)
  case (2 k' slot' r' ls)
  then show ?case by (auto simp: ended_tags_mem)
qed auto

lemma group_output_append:
  assumes "\<forall>slot < glen v k. (k, slot) \<in> set (ended_tags ls)"
  shows "group_output v (ls @ ls') k = group_output v ls k"
proof -
  have "map (ended_proxy (ls @ ls') k) [0..<glen v k] = map (ended_proxy ls k) [0..<glen v k]"
    using assms by (auto intro!: ended_proxy_append)
  then show ?thesis by (simp only: group_output_def)
qed

lemma ended_distinct:
  assumes "counted v n ls s"
  shows "distinct (ended_tags ls)"
proof -
  have "count (mset (ended_tags ls)) t = (if t \<in> set (ended_tags ls) then 1 else 0)" for t
  proof -
    have "count (mset (ended_tags ls)) t + count (active s) t = count (mset_set (universe v n)) t"
      using assms by (metis counted_def count_union)
    then have "count (mset (ended_tags ls)) t \<le> count (mset_set (universe v n)) t" by simp
    also have "\<dots> \<le> 1" by (simp add: count_mset_set')
    finally have "count (mset (ended_tags ls)) t \<le> 1" .
    moreover have "count (mset (ended_tags ls)) t = 0 \<longleftrightarrow> t \<notin> set (ended_tags ls)" by (rule count_mset_0_iff)
    ultimately have "count (mset (ended_tags ls)) t = 1" if "t \<in> set (ended_tags ls)"
      using that by linarith
    then show ?thesis by (simp add: count_mset_0_iff)
  qed
  then show ?thesis unfolding distinct_count_atmost_1 by blast
qed

text \<open>A slot of a key that is not under way has ended.\<close>

lemma closed_ended:
  assumes "counted v n ls s" "k \<in> keys v n" "slot < glen v k" "slot \<notin> slots s k"
  shows "(k, slot) \<in> set (ended_tags ls)"
proof -
  have "(k, slot) \<in># mset (ended_tags ls) + active s"
    using assms by (simp add: counted_def finite_universe) (simp add: universe_def)
  moreover have "(k, slot) \<notin># active s" using assms(4) by (auto simp: slots_def)
  ultimately show ?thesis by simp
qed

definition closed_keys :: "validator_run \<Rightarrow> nat \<Rightarrow> vstate \<Rightarrow> group_key set" where
  "closed_keys v n s = {k \<in> keys v n. slots s k = {}}"

lemma closed_open: "closed_keys v n s = keys v n - open_keys v n s"
  by (auto simp: closed_keys_def open_keys_def)

lemma finite_closed: "finite (closed_keys v n s)"
  by (simp add: closed_keys_def finite_keys)

definition merged :: "validator_run \<Rightarrow> vlabel list \<Rightarrow> group_key set \<Rightarrow> proxy multiset" where
  "merged v ls K = (\<Sum>k \<in> K. mset (unscored_all (to_list (group_output v ls k))))"

lemma merged_append:
  assumes "counted v n ls s"
  shows "merged v (ls @ l) (closed_keys v n s) = merged v ls (closed_keys v n s)"
  unfolding merged_def
proof (rule sum.cong [OF refl])
  fix k assume "k \<in> closed_keys v n s"
  then have "\<forall>slot < glen v k. (k, slot) \<in> set (ended_tags ls)"
    using closed_ended [OF assms] by (auto simp: closed_keys_def)
  then show "mset (unscored_all (to_list (group_output v (ls @ l) k))) = mset (unscored_all (to_list (group_output v ls k)))"
    by (simp add: group_output_append)
qed

definition sent_ok :: "validator_run \<Rightarrow> nat \<Rightarrow> work_state \<Rightarrow> vlabel list \<Rightarrow> vstate \<Rightarrow> bool" where
  "sent_ok v n w ls s \<longleftrightarrow>
     mset (unscored_all (ws_sent (vs_work s))) =
       mset (unscored_all (ws_sent w)) + mset (unscored_all (tried ls)) + merged v ls (closed_keys v n s) \<and>
     ws_passed (vs_work s) + length (ws_sent w) = ws_passed w + length (ws_sent (vs_work s))"

lemma received_sent:
  assumes "vstep v s Received s'" "counted v n ls s" "grouped v ls s" "sent_ok v n w ls s"
  shows "sent_ok v n w (ls @ [Received]) s'"
proof -
  from assms(1-3) obtain m rs where rs: "length rs = glen v (gr_key m)"
    "\<forall>slot < glen v (gr_key m). slot \<notin> slots s (gr_key m) - {gr_slot m} \<longrightarrow> Ended (gr_key m) slot (rs ! slot) \<in> set ls"
    and c: "if slots s (gr_key m) = {gr_slot m}
     then closes m rs s s' \<and> open_keys v n s = insert (gr_key m) (open_keys v n s') \<and> gr_key m \<notin> open_keys v n s'
     else waits_on m rs s s' \<and> open_keys v n s' = open_keys v n s"
    by (rule received_open)
  have mono: "merged v (ls @ [Received]) (closed_keys v n s) = merged v ls (closed_keys v n s)"
    by (rule merged_append [OF assms(2)])
  show ?thesis
  proof (cases "slots s (gr_key m) = {gr_slot m}")
    case True
    with c have cl: "closes m rs s s'" and op: "open_keys v n s = insert (gr_key m) (open_keys v n s')"
      "gr_key m \<notin> open_keys v n s'" by simp_all
    have "gr_key m \<in> open_keys v n s" by (simp add: op)
    then have "gr_key m \<in> keys v n" by (simp add: open_keys_def)
    with op have closed: "closed_keys v n s' = insert (gr_key m) (closed_keys v n s)" "gr_key m \<notin> closed_keys v n s"
      by (auto simp: closed_open)
    have all: "\<forall>slot < glen v (gr_key m). Ended (gr_key m) slot (rs ! slot) \<in> set ls" using rs(2) True by simp
    then have rs': "map (ended_proxy ls (gr_key m)) [0..<glen v (gr_key m)] = rs"
      using rs(1) ended_proxy_unique [OF ended_distinct [OF assms(2)]] by (intro nth_equalityI) auto
    from cl obtain r out where out: "group_finish \<lparr>gs_remaining = 0, gs_results = rs\<rparr> = Ok r"
      "ws_sent (vs_work s') = ws_sent (vs_work s) @ out" "unscored_all out = unscored_all (to_list r)"
      "ws_passed (vs_work s') = ws_passed (vs_work s) + length out" unfolding closes_def by blast
    have "group_output v ls (gr_key m) = r" by (simp add: group_output_def rs' out(1))
    moreover have "group_output v (ls @ [Received]) (gr_key m) = group_output v ls (gr_key m)"
      by (rule group_output_append) (use all ended_tags_mem in blast)
    ultimately have "merged v (ls @ [Received]) (closed_keys v n s') =
        merged v ls (closed_keys v n s) + mset (unscored_all out)"
      using mono closed finite_closed [of v n s] by (simp add: merged_def out(3) add.commute)
    with assms(4) out(2,4) show ?thesis by (simp add: sent_ok_def)
  next
    case False
    with c have "waits_on m rs s s'" "closed_keys v n s' = closed_keys v n s" by (simp_all add: closed_open)
    with assms(4) mono show ?thesis by (simp add: sent_ok_def waits_on_def)
  qed
qed

lemma same_slots_sent:
  assumes "slots s' = slots s" "counted v n ls s" "sent_ok v n w ls s"
    "ws_sent (vs_work s') = ws_sent (vs_work s) @ tried [l]"
    "ws_passed (vs_work s') = ws_passed (vs_work s) + length (tried [l])"
  shows "sent_ok v n w (ls @ [l]) s'"
proof -
  have "closed_keys v n s' = closed_keys v n s" by (simp add: closed_keys_def assms(1))
  with assms(3-5) merged_append [OF assms(2), of "[l]"] show ?thesis by (simp add: sent_ok_def)
qed

lemma run_sent:
  assumes "vrun v s0 ls s" "s0 = vstart v w ps" "length ps \<le> 2 ^ 64" "[] \<notin> set (vr_groups v)"
  shows "sent_ok v (length ps) w ls s"
  using assms
proof (induction rule: vrun.induct)
  case (stay s)
  have a: "active s + in_channel s = mset_set (universe v (length ps))"
    using tags_start [OF stay(2)] stay(1) by (simp add: vstart_def active_def in_channel_def)
  have "0 \<in> slots s k" if "k \<in> keys v (length ps)" for k
    unfolding slots_def a using that stay(3)
    by (auto simp: finite_universe universe_def glen_def keys_def) (metis nth_mem)
  then have "closed_keys v (length ps) s = {}" by (auto simp: closed_keys_def)
  with stay(1) show ?case by (simp add: sent_ok_def merged_def vstart_def unscored_all_def)
next
  case (go s ls s' l s'')
  with run_invariant have inv: "counted v (length ps) ls s'" "grouped v ls s'" by blast+
  have ih: "sent_ok v (length ps) w ls s'" using go by blast
  consider "quiet l" | "l = Received" | k slot r where "l = Ended k slot r" using step_kinds by blast
  then show ?case
  proof cases
    case 1
    note q = quiet_step [OF go(2) 1]
    have "slots s'' = slots s'" using q by (intro slots_same) auto
    with inv(1) ih q show ?thesis by (intro same_slots_sent) auto
  next
    case 2
    with go(2) have "vstep v s' Received s''" by simp
    from received_sent [OF this inv ih] 2 show ?thesis by simp
  next
    case 3
    with go(2) have st: "vstep v s' (Ended k slot r) s''" by simp
    from ended_step [OF st] 3 show ?thesis
      by (intro same_slots_sent [OF ended_slots(2) [OF st] inv(1) ih]) auto
  qed
qed

section \<open>The finished run\<close>

lemma sum_weights:
  assumes "length ps \<le> 2 ^ 64" "[] \<notin> set (vr_groups v)"
  shows "sum_list (map weight (all_jobs v ps)) = singles (all_jobs v ps) + card (keys v (length ps))"
proof -
  have w: "sum_list (map weight js) = singles js + length (filter (\<lambda>t. snd t = 0) (map tag (members js)))" for js
    by (induction js rule: members.induct) (auto simp: weight_def tag_def)
  have u: "{t \<in> universe v (length ps). snd t = 0} = (\<lambda>k. (k, 0)) ` keys v (length ps)"
  proof -
    have "0 < glen v k" if "k \<in> keys v (length ps)" for k
      using that assms(2) by (auto simp: keys_def glen_def) (metis nth_mem)
    then show ?thesis by (auto simp: universe_def)
  qed
  have "length (filter (\<lambda>t. snd t = 0) (map tag (members (all_jobs v ps)))) =
      size (filter_mset (\<lambda>t. snd t = 0) (mset (map tag (members (all_jobs v ps)))))"
    by (simp only: mset_filter [symmetric] size_mset)
  also have "\<dots> = card {t \<in> universe v (length ps). snd t = 0}"
    by (simp only: tags_start [OF assms(1)] filter_mset_mset_set [OF finite_universe] size_mset_set)
  also have "\<dots> = card (keys v (length ps))" unfolding u by (rule card_image) (simp add: inj_on_def)
  finally show ?thesis by (simp add: w)
qed

text \<open>C6: when a validation run has ended, whatever the interleaving, its counters agree: everything pulled is
  done, the total is the number of single probes plus one for each group of each candidate, the
  number passed is the number sent; and the aggregator and the map of dead groups hold nothing.\<close>

theorem validator_counters_agree:
  assumes "vrun v (vstart v w ps) ls s" and "finished s" and "length ps \<le> 2 ^ 64" and "[] \<notin> set (vr_groups v)"
  shows "vs_total s = singles (all_jobs v ps) + length ps * length (vr_groups v) \<and>
    ws_done (vs_work s) = ws_done w + vs_total s \<and>
    ws_passed (vs_work s) + length (ws_sent w) = ws_passed w + length (ws_sent (vs_work s)) \<and>
    vs_groups s = Map.empty \<and> vs_dead s = Map.empty"
proof -
  let ?n = "length ps"
  note inv = run_invariant [OF assms(1) refl assms(3)]
  have none: "slots s k = {}" for k
    using assms(2) by (simp add: slots_def active_def in_channel_def finished_def)
  have a: "active (vstart v w ps) + in_channel (vstart v w ps) = mset_set (universe v ?n)"
    using tags_start [OF assms(3)] by (simp add: vstart_def active_def in_channel_def)
  have "0 \<in> slots (vstart v w ps) k" if "k \<in> keys v ?n" for k
    unfolding slots_def a using that assms(4)
    by (auto simp: finite_universe universe_def glen_def keys_def) (metis nth_mem)
  then have "open_keys v ?n (vstart v w ps) = keys v ?n" by (auto simp: open_keys_def)
  then have start: "tally v ?n (vstart v w ps) = ws_done w + singles (all_jobs v ps) + card (keys v ?n)"
    "pulled (vstart v w ps) = singles (all_jobs v ps) + card (keys v ?n)"
    using sum_weights [OF assms(3,4)] by (simp_all add: tally_def pulled_def vstart_def)
  have "open_keys v ?n s = {}" by (simp add: open_keys_def none)
  then have end': "tally v ?n s = ws_done (vs_work s)" "pulled s = vs_total s"
    using assms(2) by (simp_all add: tally_def pulled_def finished_def)
  have "card (keys v ?n) = ?n * length (vr_groups v)"
    by (simp add: keys_def card_cartesian_product card_image [OF word_ids [OF assms(3)]])
  with start end' run_tally [OF assms(1) refl assms(3)]
  have "vs_total s = singles (all_jobs v ps) + ?n * length (vr_groups v)"
    "ws_done (vs_work s) = ws_done w + vs_total s" by auto
  moreover have "vs_groups s = Map.empty"
  proof
    fix k
    have "entry_ok v ls k (slots s k) (vs_groups s k)" using inv unfolding grouped_def by blast
    then show "vs_groups s k = None" by (cases "vs_groups s k") (simp_all add: none entry_ok_def)
  qed
  moreover have "dom (vs_dead s) = {}" using inv none unfolding grouped_def by blast
  ultimately show ?thesis using run_sent [OF assms(1) refl assms(3,4)] unfolding sent_ok_def by simp
qed

text \<open>C5: what a finished run has sent, up to the health scores: what the single probes sent, and for each
  group of each candidate the merge of its members' proxies exactly when every member has passed;
  nothing else and nothing twice, whatever the interleaving.\<close>

theorem validator_sends_exactly:
  assumes "vrun v (vstart v w ps) ls s" and "finished s" and "length ps \<le> 2 ^ 64" and "[] \<notin> set (vr_groups v)"
  shows "image_mset unscored (mset (ws_sent (vs_work s))) =
    image_mset unscored (mset (ws_sent w)) + image_mset unscored (mset (tried ls)) +
    (\<Sum>k \<in> keys v (length ps). image_mset unscored (mset (to_list (group_output v ls k)))) \<and>
    (\<forall>k \<in> keys v (length ps). group_output v ls k \<noteq> None \<longleftrightarrow> (\<forall>slot < glen v k. \<exists>p. Ended k slot (Some p) \<in> set ls))"
proof -
  have none: "slots s k = {}" for k
    using assms(2) by (simp add: slots_def active_def in_channel_def finished_def)
  then have "closed_keys v (length ps) s = keys v (length ps)" by (simp add: closed_keys_def)
  with run_sent [OF assms(1) refl assms(3,4)]
  have sent: "image_mset unscored (mset (ws_sent (vs_work s))) =
    image_mset unscored (mset (ws_sent w)) + image_mset unscored (mset (tried ls)) +
    (\<Sum>k \<in> keys v (length ps). image_mset unscored (mset (to_list (group_output v ls k))))"
    by (simp add: sent_ok_def merged_def unscored_all_def)
  have inv: "counted v (length ps) ls s" using run_invariant [OF assms(1) refl assms(3)] by blast
  have "group_output v ls k \<noteq> None \<longleftrightarrow> (\<forall>slot < glen v k. \<exists>p. Ended k slot (Some p) \<in> set ls)" if k: "k \<in> keys v (length ps)" for k
  proof -
    have "0 < glen v k" using k assms(4) by (auto simp: keys_def glen_def) (metis nth_mem)
    then have rs: "map (ended_proxy ls k) [0..<glen v k] \<noteq> []" by simp
    have same: "ended_proxy ls k slot = r \<longleftrightarrow> Ended k slot r \<in> set ls" if "slot < glen v k" for slot r
    proof
      from closed_ended [OF inv k that] none obtain r' where r': "Ended k slot r' \<in> set ls"
        using ended_tags_mem by blast
      assume "ended_proxy ls k slot = r"
      with ended_proxy_unique [OF ended_distinct [OF inv] r'] r' show "Ended k slot r \<in> set ls" by simp
    qed (rule ended_proxy_unique [OF ended_distinct [OF inv]])
    have "group_output v ls k \<noteq> None \<longleftrightarrow> list_all (\<lambda>r. r \<noteq> None) (map (ended_proxy ls k) [0..<glen v k])"
      using rs by (cases "glen v k") (auto simp: group_output_def group_finish_def merge_slots_def outcome_simps
          List.map_filter_def list_all_iff)
    also have "\<dots> \<longleftrightarrow> (\<forall>slot < glen v k. \<exists>p. Ended k slot (Some p) \<in> set ls)"
      using same by (fastforce simp: list_all_iff)
    finally show ?thesis .
  qed
  with sent show ?thesis by blast
qed

section \<open>One probe\<close>

definition after_success :: "validator_run \<Rightarrow> record_env \<Rightarrow> proxy \<Rightarrow> protocol \<Rightarrow> anonymity option \<Rightarrow> health_store option \<Rightarrow> health_store option" where
  "after_success v renv q protocol level = map_option (\<lambda>store. snd (store_record (vr_to_json v) (re_io renv) store
     (success_record (re_now renv) (px_ip q) (px_port q) protocol (stats_avg (px_runtimes q)) level)))"

definition after_failure :: "validator_run \<Rightarrow> record_env \<Rightarrow> proxy \<Rightarrow> protocol \<Rightarrow> string \<Rightarrow> health_store option \<Rightarrow> health_store option" where
  "after_failure v renv q protocol reason = map_option (\<lambda>store. snd (store_record (vr_to_json v) (re_io renv) store
     (failure_record (re_now renv) (px_ip q) (px_port q) protocol reason)))"

lemma success_fields:
  assumes "record_success js renv q protocol level w = (r, w')"
  shows "px_ip r = px_ip q" "px_port r = px_port q" "proxy_types r = proxy_types q" "px_runtimes r = px_runtimes q"
    "ws_failures w' = ws_failures w" "ws_targets w' = ws_targets w"
    "ws_health w' = map_option (\<lambda>store. snd (store_record js (re_io renv) store
       (success_record (re_now renv) (px_ip q) (px_port q) protocol (stats_avg (px_runtimes q)) level))) (ws_health w)"
  using assms by (auto simp: record_success_def split: option.splits prod.splits)

lemma failure_fields:
  "ws_health (probe_failed v renv q protocol reason w) = after_failure v renv q protocol reason (ws_health w)"
  "ws_targets (probe_failed v renv q protocol reason w) = ws_targets w"
  by (auto simp: probe_failed_def record_failure_def report_probe_failure_def after_failure_def
      split: option.splits prod.splits)

lemma checked_result_cases:
  assumes "checked_result now requested p result = (t, q)"
  shows "px_ip q = px_ip p" "px_port q = px_port p" "proxy_types q = proxy_types p"
    "t = Some t' \<Longrightarrow> pt_checked t' \<and> result_satisfies_request (pt_protocol t') requested"
  using assms by (auto simp: checked_result_def apply_runtime_def proxy_type_checked_def Let_def split: option.splits if_splits)

lemma run_probe_fields:
  assumes "run_probe v env p protocol requested targets = (Ok (t, q), targets')"
  shows "px_ip q = px_ip p \<and> px_port q = px_port p \<and> proxy_types q = proxy_types p \<and>
    (\<forall>t'. t = Some t' \<longrightarrow> pt_checked t' \<and> result_satisfies_request (pt_protocol t') requested)"
proof -
  have "\<exists>now result. checked_result now requested p result = (t, q)"
    using assms by (cases protocol) (auto simp: run_probe_def split: prod.splits outcome.splits)
  then obtain now result where c: "checked_result now requested p result = (t, q)" by blast
  show ?thesis using checked_result_cases(1-3) [OF c] checked_result_cases(4) [OF c] by blast
qed

text \<open>One probe of a single type counts as done exactly once. Either it sends one proxy, the candidate with
  exactly the confirmed type, which satisfies the request, and records one success for the endpoint;
  or it sends nothing and records one failure.\<close>

theorem single_probe_outcome:
  assumes "do_single_work v env renv p protocol requested w = Some w'"
  shows "ws_done w' = ws_done w + 1 \<and>
    ((\<exists>q t. ws_sent w' = ws_sent w @ [q] \<and> ws_passed w' = ws_passed w + 1 \<and>
        px_ip q = px_ip p \<and> px_port q = px_port p \<and> proxy_types q = [t] \<and> pt_checked t \<and>
        result_satisfies_request (pt_protocol t) requested \<and> ws_failures w' = ws_failures w \<and>
        ws_health w' = after_success v renv q protocol (level_of_type t) (ws_health w)) \<or>
     (\<exists>q reason. ws_sent w' = ws_sent w \<and> ws_passed w' = ws_passed w \<and>
        px_ip q = px_ip p \<and> px_port q = px_port p \<and>
        ws_health w' = after_failure v renv q protocol reason (ws_health w)))"
proof -
  let ?p = "validation_probe p"
  have vp: "px_ip ?p = px_ip p" "px_port ?p = px_port p" "proxy_types ?p = []" by (simp_all add: validation_probe_def)
  note done' = single_frame [OF assms]
  obtain result targets where r: "run_probe v env ?p protocol requested (ws_targets w) = (result, targets)"
    by (cases "run_probe v env ?p protocol requested (ws_targets w)")
  let ?w1 = "w\<lparr>ws_targets := targets, ws_done := ws_done w + 1\<rparr>"
  show ?thesis
  proof (cases result)
    case (Ok x)
    obtain t q where x: "x = (t, q)" by (cases x)
    note f = run_probe_fields [OF r [unfolded Ok x]]
    show ?thesis
    proof (cases t)
      case None
      with assms r Ok x have "w' = probe_failed v renv q protocol ''unsatisfied'' ?w1" by (simp add: do_single_work_def Let_def)
      with f vp show ?thesis by (auto simp: failure_fields)
    next
      case (Some t')
      obtain u w2 where u: "record_success (vr_to_json v) renv (q\<lparr>proxy_types := proxy_types q @ [t']\<rparr>) protocol
          (level_of_type t') ?w1 = (u, w2)"
        by (cases "record_success (vr_to_json v) renv (q\<lparr>proxy_types := proxy_types q @ [t']\<rparr>) protocol
          (level_of_type t') ?w1")
      with assms r Ok x Some have w': "w' = w2\<lparr>ws_passed := ws_passed w2 + 1, ws_sent := ws_sent w2 @ [u]\<rparr>"
        by (simp add: do_single_work_def Let_def)
      have "ws_health w' = after_success v renv u protocol (level_of_type t') (ws_health w)"
        using success_fields [OF u] by (simp add: w' after_success_def)
      with f vp Some success_frame [OF u] success_fields [OF u] show ?thesis by (auto simp: w')
    qed
  next
    case (Err e)
    with assms r have "w' = probe_failed v renv ?p protocol (classify_failure e protocol) ?w1"
      by (simp add: do_single_work_def Let_def)
    with vp show ?thesis by (auto simp: failure_fields)
  next
    case Panic
    with run_probe_safe r show ?thesis by (metis fst_conv)
  qed
qed

text \<open>Once a member of a group has failed, every member of that group that starts later is recorded as a
  failure of its endpoint for its own protocol, although no judge is asked.\<close>

theorem dead_member_blamed:
  assumes "dead (key_of m) = Some True"
  shows "group_begin v renv m dead w =
      (Some (result_of m None), dead, probe_failed v renv (validation_probe (gm_proxy m)) (gm_protocol m) ''group-dead'' w) \<and>
    ws_targets (snd (snd (group_begin v renv m dead w))) = ws_targets w \<and>
    ws_health (snd (snd (group_begin v renv m dead w))) =
      after_failure v renv (gm_proxy m) (gm_protocol m) ''group-dead'' (ws_health w)"
  using assms by (auto simp: group_begin_def Let_def failure_fields after_failure_def validation_probe_def)

section \<open>A complete run\<close>

lemma run_completes:
  assumes "vrun v (vstart v w ps) ls s" "length ps \<le> 2 ^ 64" "vr_limit v > 0"
  shows "\<exists>ls' s'. vrun v (vstart v w ps) ls' s' \<and> finished s'"
  using assms(1)
proof (induction "fuel s" arbitrary: ls s rule: less_induct)
  case less
  show ?case
  proof (cases "finished s")
    case True
    with less.prems show ?thesis by blast
  next
    case False
    from run_invariant [OF less.prems refl assms(2)] have inv: "counted v (length ps) ls s" "grouped v ls s" by auto
    from never_stuck [OF inv assms(3) False] obtain l s' where st: "vstep v s l s'" by blast
    from less.hyps [OF step_fuel [OF st] go [OF less.prems st]] show ?thesis .
  qed
qed

definition demo_run :: validator_run where
  "demo_run = \<lparr>vr_sort = (\<lambda>key xs. sort_key key xs), vr_parse_url = (\<lambda>_. None), vr_to_json = (\<lambda>_. None),
     vr_params = demo_params, vr_capacity = 64, vr_limit = 2, vr_requested = [Http Unknown],
     vr_groups = [[Http Unknown, Socks4]], vr_missed = False, vr_gated = False\<rparr>"

definition demo_work :: work_state where
  "demo_work = \<lparr>ws_targets = \<lparr>tg_http = demo_judges, tg_tunnel = jp_empty\<rparr>, ws_health = None, ws_failures = None,
     ws_done = 0, ws_passed = 0, ws_sent = []\<rparr>"

definition demo_candidate :: proxy where
  "demo_candidate = with_expected_types (Ipv4 1 2 3 4) 80 [Http Unknown]"

lemma demo_jobs: "singles (all_jobs demo_run [demo_candidate]) = 1" "length (all_jobs demo_run [demo_candidate]) = 3"
  by (simp_all add: all_jobs_def jobs_of_def demo_run_def demo_candidate_def with_expected_types_def proxy_new_def
      singleton_jobs_def advertised_matches_request_def matches_by_def group_spec_def)

lemma demo_finishes:
  obtains ls s where "vrun demo_run (vstart demo_run demo_work [demo_candidate]) ls s" "finished s"
  using run_completes [OF stay, of "[demo_candidate]" demo_run demo_work] by (auto simp: demo_run_def)

theorem validator_never_panics_witness:
  "\<exists>ls s. vrun demo_run (vstart demo_run demo_work [demo_candidate]) ls s \<and> finished s \<and>
     do_single_work demo_run \<lparr>pe_epoch = 10, pe_http = good_ask, pe_tunnel = good_tunnel, pe_checked_on = Fin 0\<rparr>
       \<lparr>re_now = Fin 0, re_io = Appended\<rparr> demo_candidate (Http Unknown) (Http Unknown) (vs_work s) \<noteq> None"
proof -
  obtain ls s where r: "vrun demo_run (vstart demo_run demo_work [demo_candidate]) ls s" "finished s" by (rule demo_finishes)
  have "length [demo_candidate] \<le> 2 ^ 64" by simp
  from validator_never_panics [OF r(1) this] r show ?thesis by blast
qed

theorem validator_terminates_witness:
  "\<exists>ls s. vrun demo_run (vstart demo_run demo_work [demo_candidate]) ls s \<and> finished s \<and> length ls \<le> 12"
proof -
  obtain ls s where r: "vrun demo_run (vstart demo_run demo_work [demo_candidate]) ls s" "finished s" by (rule demo_finishes)
  from validator_terminates [OF r(1)] r show ?thesis by (auto simp: demo_jobs) (auto simp: demo_run_def)
qed

theorem validator_counters_agree_witness:
  "\<exists>ls s. vrun demo_run (vstart demo_run demo_work [demo_candidate]) ls s \<and> finished s \<and>
     vs_total s = 2 \<and> ws_done (vs_work s) = 2 \<and> ws_passed (vs_work s) = length (ws_sent (vs_work s))"
proof -
  obtain ls s where r: "vrun demo_run (vstart demo_run demo_work [demo_candidate]) ls s" "finished s" by (rule demo_finishes)
  have g: "vr_groups demo_run = [[Http Unknown, Socks4]]" by (simp add: demo_run_def)
  from validator_counters_agree [OF r] have "vs_total s = 2" "ws_done (vs_work s) = 2"
    "ws_passed (vs_work s) = length (ws_sent (vs_work s))"
    by (simp_all add: demo_jobs g) (simp_all add: demo_work_def)
  with r show ?thesis by blast
qed

theorem validator_sends_exactly_witness:
  "\<exists>ls s. vrun demo_run (vstart demo_run demo_work [demo_candidate]) ls s \<and> finished s \<and>
     (group_output demo_run ls (0, 0) \<noteq> None \<longleftrightarrow>
        (\<forall>slot < 2. \<exists>p. Ended (0, 0) slot (Some p) \<in> set ls))"
proof -
  obtain ls s where r: "vrun demo_run (vstart demo_run demo_work [demo_candidate]) ls s" "finished s" by (rule demo_finishes)
  have g: "vr_groups demo_run = [[Http Unknown, Socks4]]" by (simp add: demo_run_def)
  have k: "(0, 0) \<in> keys demo_run (length [demo_candidate])" "glen demo_run (0, 0) = 2"
    by (simp_all add: keys_def glen_def g)
  have h: "length [demo_candidate] \<le> 2 ^ 64" "[] \<notin> set (vr_groups demo_run)" by (simp_all add: g)
  from bspec [OF conjunct2 [OF validator_sends_exactly [OF r h]] k(1)]
  have "group_output demo_run ls (0, 0) \<noteq> None \<longleftrightarrow> (\<forall>slot < 2. \<exists>p. Ended (0, 0) slot (Some p) \<in> set ls)"
    unfolding k(2) .
  with r show ?thesis by blast
qed

theorem single_probe_outcome_witness:
  "\<exists>w'. do_single_work demo_run \<lparr>pe_epoch = 10, pe_http = good_ask, pe_tunnel = good_tunnel, pe_checked_on = Fin 0\<rparr>
       \<lparr>re_now = Fin 0, re_io = Appended\<rparr> demo_candidate (Http Unknown) (Http Unknown) demo_work = Some w' \<and>
     ws_done w' = 1"
proof -
  obtain w' where w: "do_single_work demo_run \<lparr>pe_epoch = 10, pe_http = good_ask, pe_tunnel = good_tunnel, pe_checked_on = Fin 0\<rparr>
       \<lparr>re_now = Fin 0, re_io = Appended\<rparr> demo_candidate (Http Unknown) (Http Unknown) demo_work = Some w'"
    using do_single_work_total by blast
  from single_probe_outcome [OF w] w show ?thesis by (auto simp: demo_work_def)
qed

theorem dead_member_blamed_witness:
  "fst (group_begin demo_run \<lparr>re_now = Fin 0, re_io = Appended\<rparr>
     \<lparr>gm_proxy = demo_candidate, gm_id = 0, gm_protocol = Socks4, gm_group = 0, gm_slot = 1, gm_len = 2\<rparr>
     [(0, 0) \<mapsto> True] demo_work) = Some \<lparr>gr_key = (0, 0), gr_slot = 1, gr_len = 2, gr_proxy = None\<rparr>"
  using dead_member_blamed [of "[(0, 0) \<mapsto> True]"
      "\<lparr>gm_proxy = demo_candidate, gm_id = 0, gm_protocol = Socks4, gm_group = 0, gm_slot = 1, gm_len = 2\<rparr>"
      demo_run "\<lparr>re_now = Fin 0, re_io = Appended\<rparr>" demo_work]
  by (simp add: key_of_def result_of_def)

end
