(* ===== verification/Cli_Config.thy ===== *)
theory Cli_Config
  imports Cli_Pipeline Rust_Ipv6
begin

text \<open>
  Configuration files under the command line (\<open>src/cli/config.rs\<close>, with the argument
  structures of \<open>src/cli/argument.rs\<close>): finding and reading the files, checking their values,
  laying the project file over the user file, and applying the result to the arguments the user did
  not give. The TOML reader and the URL parser are parameters; the file system is a function.
\<close>

section \<open>Sections\<close>

record global_section =
  cg_log_level :: "string option"
  cg_quiet :: "bool option"
  cg_no_color :: "bool option"
  cg_skip_version_check :: "bool option"

record fetch_section =
  cf_providers :: "string list option"
  cf_exclude_providers :: "string list option"
  cf_source_urls :: "string list option"
  cf_with_geo :: "bool option"
  cf_countries :: "string list option"
  cf_exclude_countries :: "string list option"
  cf_concurrency :: "nat option"
  cf_cache_ttl :: "u64 option"
  cf_refresh_cache :: "bool option"
  cf_offline :: "bool option"
  cf_delay_ms :: "u64 option"
  cf_fallback_threshold :: "nat option"
  cf_phase_timeout :: "u64 option"
  cf_no_dedup :: "bool option"
  cf_provider_timeout :: "u64 option"

record output_section =
  co_format :: "string option"
  co_limit :: "nat option"
  co_output_file :: "string option"
  co_sort :: "string option"
  co_order :: "string option"
  co_min_anonymity :: "string option"
  co_levels :: "string list option"
  co_max_response_time :: "f64 option"
  co_min_response_time :: "f64 option"
  co_min_score :: "f64 option"
  co_health_file :: "string option"
  co_no_health :: "bool option"
  co_exclude_types :: "string list option"
  co_shuffle :: "bool option"
  co_append :: "bool option"

record validate_section =
  cv_types :: "string list option"
  cv_concurrency :: "nat option"
  cv_max_attempts :: "nat option"
  cv_retry_delay_ms :: "u64 option"
  cv_timeout :: "u64 option"
  cv_http_judges :: "string list option"
  cv_https_judges :: "string list option"
  cv_insecure :: "bool option"
  cv_support_cookies :: "bool option"
  cv_support_referer :: "bool option"
  cv_report_failures :: "string option"

record serve_section =
  cs_bind :: "string option"
  cs_port :: "u16 option"
  cs_strategy :: "string option"
  cs_pool_size :: "nat option"
  cs_min_ready :: "nat option"
  cs_refresh_secs :: "u64 option"
  cs_request_timeout :: "u64 option"
  cs_auth :: "string option"
record file_config =
  fc_global :: "global_section option"
  fc_fetch :: "fetch_section option"
  fc_output :: "output_section option"
  fc_validate :: "validate_section option"
  fc_serve :: "serve_section option"
  fc_unknown :: "string list"
  fc_source :: "string option"

definition empty_config :: file_config where
  "empty_config = \<lparr>fc_global = None, fc_fetch = None, fc_output = None, fc_validate = None, fc_serve = None,
     fc_unknown = [], fc_source = None\<rparr>"

section \<open>Errors\<close>

record config_failure =
  ce_path :: "string option"
  ce_message :: string

definition message :: "string \<Rightarrow> config_failure" where
  "message text = \<lparr>ce_path = None, ce_message = text\<rparr>"

definition value_error :: "string \<Rightarrow> string \<Rightarrow> string \<Rightarrow> config_failure" where
  "value_error key v allowed = message (CHR 0x60 # key @ CHR 0x60 # '': invalid value '' @ CHR 0x60 # v @ CHR 0x60 #
     '' (allowed: '' @ allowed @ '')'')"

definition show_config_failure :: "config_failure \<Rightarrow> string" where
  "show_config_failure e =
     (case ce_path e of
        Some path \<Rightarrow> ''config error in '' @ path @ '': '' @ ce_message e
      | None \<Rightarrow> ''config error: '' @ ce_message e)"

section \<open>Checking the values\<close>

definition LOG_LEVELS :: "string list" where
  "LOG_LEVELS = [''off'', ''error'', ''warn'', ''info'', ''debug'', ''trace'']"

definition SERVE_STRATEGIES :: "string list" where
  "SERVE_STRATEGIES = [''round-robin'', ''random'']"

definition FORMATS :: "string list" where
  "FORMATS = [''default'', ''text'', ''json'', ''json-lines'', ''pretty-json'', ''csv'', ''prefix'', ''pac'', ''proxychains'']"

definition SORTS :: "string list" where
  "SORTS = [''avg-response'', ''response-time'', ''country'', ''anonymity'', ''score'']"

definition ORDERS :: "string list" where
  "ORDERS = [''asc'', ''desc'']"

definition ANONYMITY_LEVELS :: "string list" where
  "ANONYMITY_LEVELS = [''transparent'', ''anonymous'', ''elite'', ''unknown'']"

definition ensure_member :: "string option \<Rightarrow> string list \<Rightarrow> string \<Rightarrow> config_failure + unit" where
  "ensure_member v allowed key =
     (case v of
        Some x \<Rightarrow> if x \<in> set allowed then Inr () else Inl (value_error key x (join ''|'' allowed))
      | None \<Rightarrow> Inr ())"

definition ensure_valid_type :: "string \<Rightarrow> string \<Rightarrow> config_failure + unit" where
  "ensure_valid_type v key =
     (if is_valid_type_value v then Inr ()
      else Inl (value_error key v ''HTTP, HTTPS, SOCKS4, SOCKS5, CONNECT:port, optionally with :Anonymity or =n quota, joined by + (no quotas in + groups)''))"

fun each :: "('a \<Rightarrow> 'e + unit) \<Rightarrow> 'a list \<Rightarrow> 'e + unit" where
  "each f [] = Inr ()"
| "each f (x # xs) = res_bind (f x) (\<lambda>_. each f xs)"

definition items :: "'a list option \<Rightarrow> 'a list" where
  "items xs = (case xs of Some ys \<Rightarrow> ys | None \<Rightarrow> [])"

definition ensure_judge_url :: "(string \<Rightarrow> string option) \<Rightarrow> string \<Rightarrow> string \<Rightarrow> config_failure + unit" where
  "ensure_judge_url url_scheme key url =
     (let scheme = (case url_scheme url of Some s \<Rightarrow> s | None \<Rightarrow> [])
      in if scheme \<noteq> ''http'' \<and> scheme \<noteq> ''https'' then Inl (value_error key url ''http(s) URL'') else Inr ())"

definition ensure_judge_urls :: "(string \<Rightarrow> string option) \<Rightarrow> string list option \<Rightarrow> string \<Rightarrow> config_failure + unit" where
  "ensure_judge_urls url_scheme urls key = each (ensure_judge_url url_scheme key) (items urls)"

definition check_global :: "global_section \<Rightarrow> config_failure + unit" where
  "check_global g = ensure_member (cg_log_level g) LOG_LEVELS ''global.log_level''"

definition check_min_score :: "f64 option \<Rightarrow> config_failure + unit" where
  "check_min_score score =
     (case score of
        Some s \<Rightarrow>
          if is_finite s \<and> f_le (Fin 0) s \<and> f_le s (Fin 100) then Inr ()
          else Inl (message (CHR 0x60 # ''output.min_score'' @ CHR 0x60 # '' must be finite and between 0 and 100''))
      | None \<Rightarrow> Inr ())"

definition check_output :: "output_section \<Rightarrow> config_failure + unit" where
  "check_output o' =
     res_bind (ensure_member (co_format o') FORMATS ''output.format'') (\<lambda>_.
     res_bind (ensure_member (co_sort o') SORTS ''output.sort'') (\<lambda>_.
     res_bind (ensure_member (co_order o') ORDERS ''output.order'') (\<lambda>_.
     res_bind (ensure_member (co_min_anonymity o') ANONYMITY_LEVELS ''output.min_anonymity'') (\<lambda>_.
     res_bind (each (\<lambda>level. ensure_member (Some level) ANONYMITY_LEVELS ''output.levels'') (items (co_levels o'))) (\<lambda>_.
     res_bind (check_min_score (co_min_score o')) (\<lambda>_.
     each (\<lambda>token. ensure_valid_type token ''output.exclude_types'') (items (co_exclude_types o'))))))))"

definition check_serve :: "serve_section \<Rightarrow> config_failure + unit" where
  "check_serve s =
     res_bind (ensure_member (cs_strategy s) SERVE_STRATEGIES ''serve.strategy'') (\<lambda>_.
       case cs_bind s of
         Some bind \<Rightarrow>
           if parse_ip bind = None
           then Inl (message (''serve.bind: '' @ CHR 0x60 # bind @ CHR 0x60 # '' is not a valid IP address''))
           else Inr ()
       | None \<Rightarrow> Inr ())"

definition check_validate :: "(string \<Rightarrow> string option) \<Rightarrow> validate_section \<Rightarrow> config_failure + unit" where
  "check_validate url_scheme v =
     res_bind (each (\<lambda>token. ensure_valid_type token ''validate.types'') (items (cv_types v))) (\<lambda>_.
     res_bind (ensure_judge_urls url_scheme (cv_http_judges v) ''validate.http_judges'') (\<lambda>_.
     ensure_judge_urls url_scheme (cv_https_judges v) ''validate.https_judges''))"

definition when_some :: "('a \<Rightarrow> 'e + unit) \<Rightarrow> 'a option \<Rightarrow> 'e + unit" where
  "when_some f x = (case x of Some y \<Rightarrow> f y | None \<Rightarrow> Inr ())"

definition validate_enum_values :: "(string \<Rightarrow> string option) \<Rightarrow> file_config \<Rightarrow> config_failure + unit" where
  "validate_enum_values url_scheme cfg =
     res_bind (when_some check_global (fc_global cfg)) (\<lambda>_.
     res_bind (when_some check_output (fc_output cfg)) (\<lambda>_.
     res_bind (when_some check_serve (fc_serve cfg)) (\<lambda>_.
     when_some (check_validate url_scheme) (fc_validate cfg))))"

section \<open>Reading\<close>

text \<open>The TOML reader: the top-level table of a document and the reading of one section.\<close>

record 'v toml_reader =
  tm_table :: "string \<Rightarrow> string + (string \<times> 'v) list option"
  tm_global :: "'v \<Rightarrow> string + global_section"
  tm_fetch :: "'v \<Rightarrow> string + fetch_section"
  tm_output :: "'v \<Rightarrow> string + output_section"
  tm_validate :: "'v \<Rightarrow> string + validate_section"
  tm_serve :: "'v \<Rightarrow> string + serve_section"
  tm_url_scheme :: "string \<Rightarrow> string option"

definition deser_section :: "('v \<Rightarrow> string + 's) \<Rightarrow> string \<Rightarrow> 'v \<Rightarrow> config_failure + 's" where
  "deser_section reader section v =
     (case reader v of Inl e \<Rightarrow> Inl (message (''['' @ section @ ''] '' @ e)) | Inr s \<Rightarrow> Inr s)"

fun parse_sections :: "'v toml_reader \<Rightarrow> (string \<times> 'v) list \<Rightarrow> file_config \<Rightarrow> config_failure + file_config" where
  "parse_sections t [] cfg = Inr cfg"
| "parse_sections t ((key, v) # table) cfg =
     (if key = ''global'' then
        res_bind (deser_section (tm_global t) key v) (\<lambda>s. parse_sections t table (cfg\<lparr>fc_global := Some s\<rparr>))
      else if key = ''fetch'' then
        res_bind (deser_section (tm_fetch t) key v) (\<lambda>s. parse_sections t table (cfg\<lparr>fc_fetch := Some s\<rparr>))
      else if key = ''output'' then
        res_bind (deser_section (tm_output t) key v) (\<lambda>s. parse_sections t table (cfg\<lparr>fc_output := Some s\<rparr>))
      else if key = ''validate'' then
        res_bind (deser_section (tm_validate t) key v) (\<lambda>s. parse_sections t table (cfg\<lparr>fc_validate := Some s\<rparr>))
      else if key = ''serve'' then
        res_bind (deser_section (tm_serve t) key v) (\<lambda>s. parse_sections t table (cfg\<lparr>fc_serve := Some s\<rparr>))
      else parse_sections t table (cfg\<lparr>fc_unknown := fc_unknown cfg @ [key]\<rparr>))"

definition parse_config :: "'v toml_reader \<Rightarrow> string \<Rightarrow> config_failure + file_config" where
  "parse_config t text =
     (case tm_table t text of
        Inl e \<Rightarrow> Inl (message e)
      | Inr None \<Rightarrow> Inl (message ''config must be a TOML table'')
      | Inr (Some table) \<Rightarrow>
          res_bind (parse_sections t table empty_config) (\<lambda>cfg.
          res_bind (validate_enum_values (tm_url_scheme t) cfg) (\<lambda>_. Inr cfg)))"

datatype file_state = Missing | Directory | Unreadable string | Contents string

type_synonym file_system = "string \<Rightarrow> file_state"

definition read_file :: "'v toml_reader \<Rightarrow> file_system \<Rightarrow> string \<Rightarrow> config_failure + file_config" where
  "read_file t fs path =
     (case fs path of
        Missing \<Rightarrow> Inl \<lparr>ce_path = Some path, ce_message = ''No such file or directory (os error 2)''\<rparr>
      | Directory \<Rightarrow> Inl \<lparr>ce_path = Some path, ce_message = ''Is a directory (os error 21)''\<rparr>
      | Unreadable e \<Rightarrow> Inl \<lparr>ce_path = Some path, ce_message = e\<rparr>
      | Contents text \<Rightarrow>
          (case parse_config t text of
             Inl e \<Rightarrow> Inl (e\<lparr>ce_path := Some path\<rparr>)
           | Inr cfg \<Rightarrow> Inr (cfg\<lparr>fc_source := Some path\<rparr>)))"

definition join_path :: "string \<Rightarrow> string \<Rightarrow> string" where
  "join_path a b = a @ ''/'' @ b"

record discovery =
  dc_project :: "string option"
  dc_user :: "string option"

text \<open>\<open>Path::is_file\<close>: a file that cannot be read is one, a directory is not.\<close>

definition is_file :: "file_state \<Rightarrow> bool" where
  "is_file state = (case state of Missing \<Rightarrow> False | Directory \<Rightarrow> False | Unreadable _ \<Rightarrow> True | Contents _ \<Rightarrow> True)"

definition discover :: "file_system \<Rightarrow> string \<Rightarrow> string \<Rightarrow> discovery" where
  "discover fs config_home cwd =
     (let project = join_path cwd ''.flx.toml'';
          user = join_path (join_path config_home ''flx'') ''config.toml''
      in \<lparr>dc_project = (if is_file (fs project) then Some project else None),
          dc_user = (if is_file (fs user) then Some user else None)\<rparr>)"

record effective_paths =
  ep_primary :: "string option"
  ep_project :: "string option"
  ep_user :: "string option"

definition or_else :: "'a option \<Rightarrow> 'a option \<Rightarrow> 'a option" where
  "or_else a b = (case a of Some x \<Rightarrow> Some x | None \<Rightarrow> b)"

definition paths_in_effect ::
  "file_system \<Rightarrow> string option \<Rightarrow> string option \<Rightarrow> bool \<Rightarrow> string \<Rightarrow> string \<Rightarrow> effective_paths" where
  "paths_in_effect fs config_flag env_path no_config config_home cwd =
     (if no_config then \<lparr>ep_primary = None, ep_project = None, ep_user = None\<rparr>
      else case or_else config_flag env_path of
             Some path \<Rightarrow> \<lparr>ep_primary = Some path, ep_project = None, ep_user = None\<rparr>
           | None \<Rightarrow>
               let d = discover fs config_home cwd
               in \<lparr>ep_primary = None, ep_project = dc_project d, ep_user = dc_user d\<rparr>)"

section \<open>Layers\<close>

definition overlay_global :: "global_section \<Rightarrow> global_section \<Rightarrow> global_section" where
  "overlay_global self base =
     \<lparr>cg_log_level = or_else (cg_log_level self) (cg_log_level base),
      cg_quiet = or_else (cg_quiet self) (cg_quiet base),
      cg_no_color = or_else (cg_no_color self) (cg_no_color base),
      cg_skip_version_check = or_else (cg_skip_version_check self) (cg_skip_version_check base)\<rparr>"

definition overlay_fetch :: "fetch_section \<Rightarrow> fetch_section \<Rightarrow> fetch_section" where
  "overlay_fetch self base =
     \<lparr>cf_providers = or_else (cf_providers self) (cf_providers base),
      cf_exclude_providers = or_else (cf_exclude_providers self) (cf_exclude_providers base),
      cf_source_urls = or_else (cf_source_urls self) (cf_source_urls base),
      cf_with_geo = or_else (cf_with_geo self) (cf_with_geo base),
      cf_countries = or_else (cf_countries self) (cf_countries base),
      cf_exclude_countries = or_else (cf_exclude_countries self) (cf_exclude_countries base),
      cf_concurrency = or_else (cf_concurrency self) (cf_concurrency base),
      cf_cache_ttl = or_else (cf_cache_ttl self) (cf_cache_ttl base),
      cf_refresh_cache = or_else (cf_refresh_cache self) (cf_refresh_cache base),
      cf_offline = or_else (cf_offline self) (cf_offline base),
      cf_delay_ms = or_else (cf_delay_ms self) (cf_delay_ms base),
      cf_fallback_threshold = or_else (cf_fallback_threshold self) (cf_fallback_threshold base),
      cf_phase_timeout = or_else (cf_phase_timeout self) (cf_phase_timeout base),
      cf_no_dedup = or_else (cf_no_dedup self) (cf_no_dedup base),
      cf_provider_timeout = or_else (cf_provider_timeout self) (cf_provider_timeout base)\<rparr>"

definition overlay_output :: "output_section \<Rightarrow> output_section \<Rightarrow> output_section" where
  "overlay_output self base =
     \<lparr>co_format = or_else (co_format self) (co_format base),
      co_limit = or_else (co_limit self) (co_limit base),
      co_output_file = or_else (co_output_file self) (co_output_file base),
      co_sort = or_else (co_sort self) (co_sort base),
      co_order = or_else (co_order self) (co_order base),
      co_min_anonymity = or_else (co_min_anonymity self) (co_min_anonymity base),
      co_levels = or_else (co_levels self) (co_levels base),
      co_max_response_time = or_else (co_max_response_time self) (co_max_response_time base),
      co_min_response_time = or_else (co_min_response_time self) (co_min_response_time base),
      co_min_score = or_else (co_min_score self) (co_min_score base),
      co_health_file = or_else (co_health_file self) (co_health_file base),
      co_no_health = or_else (co_no_health self) (co_no_health base),
      co_exclude_types = or_else (co_exclude_types self) (co_exclude_types base),
      co_shuffle = or_else (co_shuffle self) (co_shuffle base),
      co_append = or_else (co_append self) (co_append base)\<rparr>"

definition overlay_validate :: "validate_section \<Rightarrow> validate_section \<Rightarrow> validate_section" where
  "overlay_validate self base =
     \<lparr>cv_types = or_else (cv_types self) (cv_types base),
      cv_concurrency = or_else (cv_concurrency self) (cv_concurrency base),
      cv_max_attempts = or_else (cv_max_attempts self) (cv_max_attempts base),
      cv_retry_delay_ms = or_else (cv_retry_delay_ms self) (cv_retry_delay_ms base),
      cv_timeout = or_else (cv_timeout self) (cv_timeout base),
      cv_http_judges = or_else (cv_http_judges self) (cv_http_judges base),
      cv_https_judges = or_else (cv_https_judges self) (cv_https_judges base),
      cv_insecure = or_else (cv_insecure self) (cv_insecure base),
      cv_support_cookies = or_else (cv_support_cookies self) (cv_support_cookies base),
      cv_support_referer = or_else (cv_support_referer self) (cv_support_referer base),
      cv_report_failures = or_else (cv_report_failures self) (cv_report_failures base)\<rparr>"

definition overlay_serve :: "serve_section \<Rightarrow> serve_section \<Rightarrow> serve_section" where
  "overlay_serve self base =
     \<lparr>cs_bind = or_else (cs_bind self) (cs_bind base),
      cs_port = or_else (cs_port self) (cs_port base),
      cs_strategy = or_else (cs_strategy self) (cs_strategy base),
      cs_pool_size = or_else (cs_pool_size self) (cs_pool_size base),
      cs_min_ready = or_else (cs_min_ready self) (cs_min_ready base),
      cs_refresh_secs = or_else (cs_refresh_secs self) (cs_refresh_secs base),
      cs_request_timeout = or_else (cs_request_timeout self) (cs_request_timeout base),
      cs_auth = or_else (cs_auth self) (cs_auth base)\<rparr>"
definition merge_section :: "('s \<Rightarrow> 's \<Rightarrow> 's) \<Rightarrow> 's option \<Rightarrow> 's option \<Rightarrow> 's option" where
  "merge_section overlay project user =
     (case (project, user) of
        (Some p, Some u) \<Rightarrow> Some (overlay p u)
      | (Some p, None) \<Rightarrow> Some p
      | (None, Some u) \<Rightarrow> Some u
      | (None, None) \<Rightarrow> None)"

definition merge_config :: "file_config \<Rightarrow> file_config \<Rightarrow> file_config" where
  "merge_config project user =
     \<lparr>fc_global = merge_section overlay_global (fc_global project) (fc_global user),
      fc_fetch = merge_section overlay_fetch (fc_fetch project) (fc_fetch user),
      fc_output = merge_section overlay_output (fc_output project) (fc_output user),
      fc_validate = merge_section overlay_validate (fc_validate project) (fc_validate user),
      fc_serve = merge_section overlay_serve (fc_serve project) (fc_serve user),
      fc_unknown = fc_unknown project @ fc_unknown user,
      fc_source = or_else (fc_source project) (fc_source user)\<rparr>"

definition transpose_read :: "(string \<Rightarrow> config_failure + file_config) \<Rightarrow> string option \<Rightarrow> config_failure + file_config option" where
  "transpose_read read path =
     (case path of None \<Rightarrow> Inr None | Some p \<Rightarrow> res_bind (read p) (\<lambda>cfg. Inr (Some cfg)))"

definition load_config ::
  "'v toml_reader \<Rightarrow> file_system \<Rightarrow> string option \<Rightarrow> string option \<Rightarrow> bool \<Rightarrow> string \<Rightarrow> string \<Rightarrow>
   config_failure + file_config option" where
  "load_config t fs config_flag env_path no_config config_home cwd =
     (if no_config then Inr None
      else case or_else config_flag env_path of
             Some path \<Rightarrow> res_bind (read_file t fs path) (\<lambda>cfg. Inr (Some cfg))
           | None \<Rightarrow>
               let d = discover fs config_home cwd
               in res_bind (transpose_read (read_file t fs) (dc_project d)) (\<lambda>project.
                  res_bind (transpose_read (read_file t fs) (dc_user d)) (\<lambda>user.
                  case (project, user) of
                    (Some p, Some u) \<Rightarrow> Inr (Some (merge_config p u))
                  | (Some p, None) \<Rightarrow> Inr (Some p)
                  | (None, Some u) \<Rightarrow> Inr (Some u)
                  | (None, None) \<Rightarrow> Inr None)))"

section \<open>Arguments\<close>

record output_options =
  oo_format :: string
  oo_limit :: nat
  oo_output_file :: "string option"
  oo_sort :: "string option"
  oo_order :: string
  oo_min_anonymity :: "string option"
  oo_levels :: "string list"
  oo_max_response_time :: "f64 option"
  oo_min_response_time :: "f64 option"
  oo_min_score :: "f64 option"
  oo_health_file :: "string option"
  oo_no_health :: bool
  oo_exclude_type :: "string list"
  oo_shuffle :: bool
  oo_append :: bool

record serve_args =
  sa_fetcher :: fetcher_args
  sa_validator :: validator_args
  sa_bind :: ip_addr
  sa_port :: u16
  sa_strategy :: string
  sa_pool_size :: nat
  sa_min_ready :: nat
  sa_refresh_secs :: "u64 option"
  sa_request_timeout :: "u64 option"
  sa_auth :: "string option"
  sa_trace :: bool

record find_args =
  fi_fetcher :: fetcher_args
  fi_output :: output_options
  fi_validator :: validator_args

record fetch_args =
  gr_fetcher :: fetcher_args
  gr_output :: output_options

datatype command = Grab fetch_args | Find find_args | Serve serve_args | GeoUpdate | ConfigCommand

record cli =
  cl_command :: "command option"
  cl_quiet :: bool
  cl_no_color :: bool
  cl_log_level :: string
  cl_skip_version_check :: bool
  cl_tui :: bool
  cl_config :: "string option"
  cl_no_config :: bool
  cl_verbose :: bool

section \<open>Applying a file to the arguments\<close>

datatype value_source = DefaultValue | EnvVariable | CommandLine

definition provided :: "(string \<Rightarrow> value_source option) option \<Rightarrow> string \<Rightarrow> bool" where
  "provided matches arg =
     (case matches of
        None \<Rightarrow> False
      | Some source \<Rightarrow> source arg = Some CommandLine \<or> source arg = Some EnvVariable)"

text \<open>The macro \<open>apply_field\<close>; the second form wraps the value in \<open>Some\<close>.\<close>

definition apply_field :: "bool \<Rightarrow> 'a option \<Rightarrow> 'a \<Rightarrow> 'a" where
  "apply_field is_given c target = (if \<not> is_given then (case c of Some v \<Rightarrow> v | None \<Rightarrow> target) else target)"

definition apply_some :: "bool \<Rightarrow> 'a option \<Rightarrow> 'a option \<Rightarrow> 'a option" where
  "apply_some is_given c target = (if \<not> is_given then (case c of Some v \<Rightarrow> Some v | None \<Rightarrow> target) else target)"

definition apply_global :: "(string \<Rightarrow> bool) \<Rightarrow> global_section \<Rightarrow> cli \<Rightarrow> cli" where
  "apply_global given c a =
     a\<lparr>cl_log_level := apply_field (given ''log_level'') (cg_log_level c) (cl_log_level a),
       cl_quiet := apply_field (given ''quiet'' \<or> cl_verbose a) (cg_quiet c) (cl_quiet a),
       cl_no_color := apply_field (given ''no_color'') (cg_no_color c) (cl_no_color a),
       cl_skip_version_check :=
         apply_field (given ''skip_version_check'') (cg_skip_version_check c) (cl_skip_version_check a)\<rparr>"

definition apply_fetch :: "(string \<Rightarrow> bool) \<Rightarrow> fetch_section \<Rightarrow> fetcher_args \<Rightarrow> fetcher_args" where
  "apply_fetch given c a =
     a\<lparr>fa_provider := apply_field (given ''provider'') (cf_providers c) (fa_provider a),
       fa_exclude_provider := apply_field (given ''exclude_provider'') (cf_exclude_providers c) (fa_exclude_provider a),
       fa_source_url := apply_field (given ''source_url'') (cf_source_urls c) (fa_source_url a),
       fa_with_geo := apply_field (given ''with_geo'') (cf_with_geo c) (fa_with_geo a),
       fa_countries := apply_field (given ''countries'') (cf_countries c) (fa_countries a),
       fa_exclude_country := apply_field (given ''exclude_country'') (cf_exclude_countries c) (fa_exclude_country a),
       fa_fetch_concurrency := apply_field (given ''fetch_concurrency'') (cf_concurrency c) (fa_fetch_concurrency a),
       fa_cache_ttl := apply_field (given ''cache_ttl'') (cf_cache_ttl c) (fa_cache_ttl a),
       fa_refresh_cache := apply_field (given ''refresh_cache'') (cf_refresh_cache c) (fa_refresh_cache a),
       fa_offline := apply_field (given ''offline'') (cf_offline c) (fa_offline a),
       fa_fetch_delay_ms := apply_field (given ''fetch_delay_ms'') (cf_delay_ms c) (fa_fetch_delay_ms a),
       fa_fallback_threshold := apply_some (given ''fallback_threshold'') (cf_fallback_threshold c) (fa_fallback_threshold a),
       fa_fetch_phase_timeout := apply_field (given ''fetch_phase_timeout'') (cf_phase_timeout c) (fa_fetch_phase_timeout a),
       fa_no_dedup := apply_field (given ''no_dedup'') (cf_no_dedup c) (fa_no_dedup a),
       fa_provider_timeout := apply_field (given ''provider_timeout'') (cf_provider_timeout c) (fa_provider_timeout a)\<rparr>"

definition apply_output :: "(string \<Rightarrow> bool) \<Rightarrow> output_section \<Rightarrow> output_options \<Rightarrow> output_options" where
  "apply_output given c a =
     a\<lparr>oo_format := apply_field (given ''format'') (co_format c) (oo_format a),
       oo_limit := apply_field (given ''limit'') (co_limit c) (oo_limit a),
       oo_output_file := apply_some (given ''output_file'') (co_output_file c) (oo_output_file a),
       oo_sort := apply_some (given ''sort'') (co_sort c) (oo_sort a),
       oo_order := apply_field (given ''order'') (co_order c) (oo_order a),
       oo_min_anonymity := apply_some (given ''min_anonymity'') (co_min_anonymity c) (oo_min_anonymity a),
       oo_levels := apply_field (given ''levels'') (co_levels c) (oo_levels a),
       oo_max_response_time := apply_some (given ''max_response_time'') (co_max_response_time c) (oo_max_response_time a),
       oo_min_response_time := apply_some (given ''min_response_time'') (co_min_response_time c) (oo_min_response_time a),
       oo_min_score := apply_some (given ''min_score'') (co_min_score c) (oo_min_score a),
       oo_health_file := apply_some (given ''health_file'') (co_health_file c) (oo_health_file a),
       oo_no_health := apply_field (given ''no_health'') (co_no_health c) (oo_no_health a),
       oo_exclude_type := apply_field (given ''exclude_type'') (co_exclude_types c) (oo_exclude_type a),
       oo_shuffle := apply_field (given ''shuffle'') (co_shuffle c) (oo_shuffle a),
       oo_append := apply_field (given ''append'') (co_append c) (oo_append a)\<rparr>"

definition apply_validate :: "(string \<Rightarrow> bool) \<Rightarrow> validate_section \<Rightarrow> validator_args \<Rightarrow> validator_args" where
  "apply_validate given c a =
     a\<lparr>va_types := apply_field (given ''types'') (cv_types c) (va_types a),
       va_max_connections := apply_field (given ''max_connections'') (cv_concurrency c) (va_max_connections a),
       va_max_attempts := apply_field (given ''max_attempts'') (cv_max_attempts c) (va_max_attempts a),
       va_retry_delay_ms := apply_field (given ''retry_delay_ms'') (cv_retry_delay_ms c) (va_retry_delay_ms a),
       va_timeout := apply_field (given ''timeout'') (cv_timeout c) (va_timeout a),
       va_http_judge_urls := apply_field (given ''http_judge_urls'') (cv_http_judges c) (va_http_judge_urls a),
       va_https_judge_urls := apply_field (given ''https_judge_urls'') (cv_https_judges c) (va_https_judge_urls a),
       va_no_verify_tls := apply_field (given ''no_verify_tls'') (cv_insecure c) (va_no_verify_tls a),
       va_support_cookies := apply_field (given ''support_cookies'') (cv_support_cookies c) (va_support_cookies a),
       va_support_referer := apply_field (given ''support_referer'') (cv_support_referer c) (va_support_referer a),
       va_report_failures := apply_some (given ''report_failures'') (cv_report_failures c) (va_report_failures a)\<rparr>"
definition DEFAULT_BIND :: ip_addr where
  "DEFAULT_BIND = V4 (Ipv4 127 0 0 1)"

definition parse_bind :: "string \<Rightarrow> ip_addr" where
  "parse_bind v = (case parse_ip v of Some ip \<Rightarrow> ip | None \<Rightarrow> DEFAULT_BIND)"

definition apply_serve :: "(string \<Rightarrow> bool) \<Rightarrow> serve_section \<Rightarrow> serve_args \<Rightarrow> serve_args" where
  "apply_serve given c a =
     a\<lparr>sa_bind := apply_field (given ''bind'') (map_option parse_bind (cs_bind c)) (sa_bind a),
       sa_port := apply_field (given ''port'') (cs_port c) (sa_port a),
       sa_strategy := apply_field (given ''strategy'') (cs_strategy c) (sa_strategy a),
       sa_pool_size := apply_field (given ''pool_size'') (cs_pool_size c) (sa_pool_size a),
       sa_min_ready := apply_field (given ''min_ready'') (cs_min_ready c) (sa_min_ready a),
       sa_refresh_secs := apply_some (given ''refresh_secs'') (cs_refresh_secs c) (sa_refresh_secs a),
       sa_request_timeout := apply_some (given ''request_timeout'') (cs_request_timeout c) (sa_request_timeout a),
       sa_auth := apply_some (given ''auth'') (cs_auth c) (sa_auth a)\<rparr>"

text \<open>An absent section changes nothing.\<close>

definition apply_section :: "('s \<Rightarrow> 'a \<Rightarrow> 'a) \<Rightarrow> 's option \<Rightarrow> 'a \<Rightarrow> 'a" where
  "apply_section f c a = (case c of None \<Rightarrow> a | Some s \<Rightarrow> f s a)"

definition apply_command :: "(string \<Rightarrow> bool) \<Rightarrow> file_config \<Rightarrow> command \<Rightarrow> command" where
  "apply_command given cfg command =
     (case command of
        Grab g \<Rightarrow>
          Grab (g\<lparr>gr_fetcher := apply_section (apply_fetch given) (fc_fetch cfg) (gr_fetcher g),
                  gr_output := apply_section (apply_output given) (fc_output cfg) (gr_output g)\<rparr>)
      | Find f \<Rightarrow>
          Find (f\<lparr>fi_fetcher := apply_section (apply_fetch given) (fc_fetch cfg) (fi_fetcher f),
                  fi_output := apply_section (apply_output given) (fc_output cfg) (fi_output f),
                  fi_validator := apply_section (apply_validate given) (fc_validate cfg) (fi_validator f)\<rparr>)
      | Serve s \<Rightarrow>
          Serve (apply_section (apply_serve given) (fc_serve cfg)
            (s\<lparr>sa_fetcher := apply_section (apply_fetch given) (fc_fetch cfg) (sa_fetcher s),
               sa_validator := apply_section (apply_validate given) (fc_validate cfg) (sa_validator s)\<rparr>))
      | GeoUpdate \<Rightarrow> GeoUpdate
      | ConfigCommand \<Rightarrow> ConfigCommand)"

definition apply_config ::
  "(string \<Rightarrow> value_source option) \<Rightarrow> (string \<Rightarrow> value_source option) option \<Rightarrow> file_config \<Rightarrow> cli \<Rightarrow> cli" where
  "apply_config matches sub cfg a =
     (let a1 = apply_section (apply_global (provided (Some matches))) (fc_global cfg) a
      in a1\<lparr>cl_command := map_option (apply_command (provided sub) cfg) (cl_command a1)\<rparr>)"

end
