(* ===== verification/Cli_Config_Props.thy ===== *)
theory Cli_Config_Props
  imports Cli_Config
begin

text \<open>
  What the layers of configuration guarantee: applying the merged file is applying the user file and
  then the project file, given arguments always win, and a loaded configuration has been checked.
\<close>

section \<open>One layer over another\<close>

text \<open>A section that can be laid over another and applied: applying the overlay is applying the base first.\<close>

locale layered_section =
  fixes overlay :: "'s \<Rightarrow> 's \<Rightarrow> 's" and apply_one :: "(string \<Rightarrow> bool) \<Rightarrow> 's \<Rightarrow> 'a \<Rightarrow> 'a"
  assumes overlay_applies: "apply_one given (overlay p u) a = apply_one given p (apply_one given u a)"
    and idempotent: "apply_one given s (apply_one given s a) = apply_one given s a"
    and given_wins: "(\<And>arg. given arg) \<Longrightarrow> apply_one given s a = a"
begin

lemma merged_section:
  "apply_section (apply_one given) (merge_section overlay p u) a =
     apply_section (apply_one given) p (apply_section (apply_one given) u a)"
  by (auto simp: apply_section_def merge_section_def overlay_applies split: option.split)

lemma section_idempotent:
  "apply_section (apply_one given) s (apply_section (apply_one given) s a) = apply_section (apply_one given) s a"
  by (auto simp: apply_section_def idempotent split: option.split)

lemma section_given: "(\<And>arg. given arg) \<Longrightarrow> apply_section (apply_one given) s a = a"
  by (auto simp: apply_section_def given_wins split: option.split)

end

lemma apply_field_or [simp]: "apply_field g (or_else p u) t = apply_field g p (apply_field g u t)"
  by (simp add: apply_field_def or_else_def split: option.split)

lemma apply_some_or [simp]: "apply_some g (or_else p u) t = apply_some g p (apply_some g u t)"
  by (simp add: apply_some_def or_else_def split: option.split)

lemma apply_field_twice [simp]: "apply_field g c (apply_field g c t) = apply_field g c t"
  by (simp add: apply_field_def split: option.split)

lemma apply_some_twice [simp]: "apply_some g c (apply_some g c t) = apply_some g c t"
  by (simp add: apply_some_def split: option.split)

lemma apply_given [simp]: "apply_field True c t = t" "apply_some True c t' = t'"
  by (simp_all add: apply_field_def apply_some_def)

lemma map_or_else [simp]: "map_option f (or_else p u) = or_else (map_option f p) (map_option f u)"
  by (simp add: or_else_def split: option.split)

interpretation global_layer: layered_section overlay_global apply_global
  by unfold_locales (simp_all add: overlay_global_def apply_global_def)

interpretation fetch_layer: layered_section overlay_fetch apply_fetch
  by unfold_locales (simp_all add: overlay_fetch_def apply_fetch_def)

interpretation output_layer: layered_section overlay_output apply_output
  by unfold_locales (simp_all add: overlay_output_def apply_output_def)

interpretation validate_layer: layered_section overlay_validate apply_validate
  by unfold_locales (simp_all add: overlay_validate_def apply_validate_def)

interpretation serve_layer: layered_section overlay_serve apply_serve
  by unfold_locales (simp_all add: overlay_serve_def apply_serve_def)

lemmas merged_sections =
  global_layer.merged_section fetch_layer.merged_section output_layer.merged_section
  validate_layer.merged_section serve_layer.merged_section

lemma apply_serve_frame:
  "sa_fetcher (apply_section (apply_serve given) c a) = sa_fetcher a"
  "sa_validator (apply_section (apply_serve given) c a) = sa_validator a"
  "apply_section (apply_serve given) c (a\<lparr>sa_fetcher := f, sa_validator := v\<rparr>) =
     (apply_section (apply_serve given) c a)\<lparr>sa_fetcher := f, sa_validator := v\<rparr>"
  by (auto simp: apply_section_def apply_serve_def split: option.split)

lemma apply_global_frame: "cl_command (apply_section (apply_global given) c a) = cl_command a"
  "apply_section (apply_global given) c (a\<lparr>cl_command := x\<rparr>) = (apply_section (apply_global given) c a)\<lparr>cl_command := x\<rparr>"
  by (auto simp: apply_section_def apply_global_def split: option.split)

lemma command_merged:
  "apply_command given (merge_config p u) c = apply_command given p (apply_command given u c)"
  by (cases c) (simp_all add: apply_command_def merge_config_def merged_sections apply_serve_frame)

text \<open>C39: the project file over the user file over the arguments' defaults: applying the merged file is the same
  as applying the user file and then the project file, for every command and every set of arguments
  the user gave.\<close>

theorem merged_config_applies_in_layers:
  "apply_config matches sub (merge_config project user) a =
     apply_config matches sub project (apply_config matches sub user a)"
  by (cases "cl_command a")
    (simp_all add: apply_config_def Let_def apply_global_frame command_merged, simp_all add: merge_config_def merged_sections)

text \<open>An argument given on the command line or by the environment always wins: where all are given, no
  configuration file changes anything; and applying the same file twice is applying it once.\<close>

theorem given_arguments_win:
  assumes "\<And>arg. matches arg = Some CommandLine \<or> matches arg = Some EnvVariable"
    and "\<And>arg. source arg = Some CommandLine \<or> source arg = Some EnvVariable"
  shows "apply_config matches (Some source) cfg a = a"
proof -
  have g: "provided (Some matches) arg" "provided (Some source) arg" for arg
    using assms by (simp_all add: provided_def)
  have "apply_command (provided (Some source)) cfg c = c" for c
    by (cases c) (simp_all add: apply_command_def fetch_layer.section_given output_layer.section_given
        validate_layer.section_given serve_layer.section_given g(2))
  then have "map_option (apply_command (provided (Some source)) cfg) x = x" for x
    by (cases x) simp_all
  then show ?thesis by (simp add: apply_config_def Let_def global_layer.section_given [OF g(1)])
qed

theorem given_arguments_win_witness:
  "apply_config (\<lambda>_. Some CommandLine) (Some (\<lambda>_. Some EnvVariable))
     (empty_config\<lparr>fc_global := Some \<lparr>cg_log_level = Some ''debug'', cg_quiet = Some True, cg_no_color = None,
        cg_skip_version_check = None\<rparr>\<rparr>)
     \<lparr>cl_command = Some GeoUpdate, cl_quiet = False, cl_no_color = False, cl_log_level = ''off'',
      cl_skip_version_check = False, cl_tui = False, cl_config = None, cl_no_config = False, cl_verbose = False\<rparr> =
     \<lparr>cl_command = Some GeoUpdate, cl_quiet = False, cl_no_color = False, cl_log_level = ''off'',
      cl_skip_version_check = False, cl_tui = False, cl_config = None, cl_no_config = False, cl_verbose = False\<rparr>"
  by (rule given_arguments_win) simp_all

section \<open>A loaded configuration has been checked\<close>

lemma res_bind_Inr_unit: "res_bind a (\<lambda>_. b) = Inr () \<longleftrightarrow> a = Inr () \<and> b = Inr ()"
  by (cases a) auto

lemma each_ok: "each f xs = Inr () \<longleftrightarrow> (\<forall>x \<in> set xs. f x = Inr ())"
  by (induction xs) (auto simp: res_bind_Inr_unit)

lemma or_else_keeps: "P p \<Longrightarrow> P u \<Longrightarrow> P (or_else p u)"
  by (cases p) (simp_all add: or_else_def)

lemma ensure_member_or:
  "ensure_member p allowed key = Inr () \<Longrightarrow> ensure_member u allowed key = Inr () \<Longrightarrow>
   ensure_member (or_else p u) allowed key = Inr ()"
  by (rule or_else_keeps)

lemma each_or:
  "each f (items p) = Inr () \<Longrightarrow> each f (items u) = Inr () \<Longrightarrow> each f (items (or_else p u)) = Inr ()"
  by (rule or_else_keeps)

lemma min_score_or: "check_min_score p = Inr () \<Longrightarrow> check_min_score u = Inr () \<Longrightarrow> check_min_score (or_else p u) = Inr ()"
  by (rule or_else_keeps)

lemma bind_or:
  "(case p of Some b \<Rightarrow> f b | None \<Rightarrow> Inr ()) = Inr () \<Longrightarrow> (case u of Some b \<Rightarrow> f b | None \<Rightarrow> Inr ()) = Inr () \<Longrightarrow>
   (case or_else p u of Some b \<Rightarrow> f b | None \<Rightarrow> Inr ()) = Inr ()"
  by (rule or_else_keeps)

lemma check_overlay:
  "check_global p = Inr () \<Longrightarrow> check_global u = Inr () \<Longrightarrow> check_global (overlay_global p u) = Inr ()"
  "check_output p' = Inr () \<Longrightarrow> check_output u' = Inr () \<Longrightarrow> check_output (overlay_output p' u') = Inr ()"
  "check_serve ps = Inr () \<Longrightarrow> check_serve us = Inr () \<Longrightarrow> check_serve (overlay_serve ps us) = Inr ()"
  "check_validate url pv = Inr () \<Longrightarrow> check_validate url uv = Inr () \<Longrightarrow> check_validate url (overlay_validate pv uv) = Inr ()"
  subgoal unfolding check_global_def overlay_global_def by (simp add: ensure_member_or)
  subgoal unfolding check_output_def overlay_output_def res_bind_Inr_unit by (simp add: ensure_member_or each_or min_score_or)
  subgoal unfolding check_serve_def overlay_serve_def res_bind_Inr_unit by (simp add: ensure_member_or bind_or)
  subgoal unfolding check_validate_def overlay_validate_def res_bind_Inr_unit ensure_judge_urls_def by (simp add: each_or)
  done

lemma when_some_merge:
  assumes "\<And>p u. f p = Inr () \<Longrightarrow> f u = Inr () \<Longrightarrow> f (overlay p u) = Inr ()"
    and "when_some f p = Inr ()" "when_some f u = Inr ()"
  shows "when_some f (merge_section overlay p u) = Inr ()"
  using assms by (auto simp: when_some_def merge_section_def split: option.splits)

lemma validated_merge:
  assumes "validate_enum_values url p = Inr ()" "validate_enum_values url u = Inr ()"
  shows "validate_enum_values url (merge_config p u) = Inr ()"
  using assms check_overlay
  by (auto simp: validate_enum_values_def res_bind_Inr_unit merge_config_def intro!: when_some_merge)

lemma validate_source: "validate_enum_values url (cfg\<lparr>fc_source := s\<rparr>) = validate_enum_values url cfg"
  by (simp add: validate_enum_values_def)

lemma parsed_validated:
  assumes "parse_config t text = Inr cfg"
  shows "validate_enum_values (tm_url_scheme t) cfg = Inr ()"
  using assms by (auto simp: parse_config_def outcome_simps split: sum.splits option.splits)

lemma read_validated:
  assumes "read_file t fs path = Inr cfg"
  shows "validate_enum_values (tm_url_scheme t) cfg = Inr ()"
  using assms parsed_validated
  by (auto simp: read_file_def validate_source split: file_state.splits sum.splits)

lemma merge_read:
  "(case (project, user) of
      (Some p, Some u) \<Rightarrow> Inr (Some (merge_config p u))
    | (Some p, None) \<Rightarrow> Inr (Some p)
    | (None, Some u) \<Rightarrow> Inr (Some u)
    | (None, None) \<Rightarrow> Inr None) = (Inr (merge_section merge_config project user) :: config_failure + file_config option)"
  by (simp add: merge_section_def split: option.split)

text \<open>C40: every configuration that loads has passed the checks of its values, also after the merge of two files.\<close>

theorem loaded_config_validated:
  assumes "load_config t fs config_flag env_path no_config config_home cwd = Inr (Some cfg)"
  shows "validate_enum_values (tm_url_scheme t) cfg = Inr ()"
proof -
  have merged: "validate_enum_values (tm_url_scheme t) cfg = Inr ()"
    if "transpose_read (read_file t fs) a = Inr project" "transpose_read (read_file t fs) b = Inr user"
      "merge_section merge_config project user = Some cfg" for a b project user
    using that read_validated validated_merge
    by (fastforce simp: transpose_read_def merge_section_def outcome_simps split: option.splits)
  show ?thesis
  proof (cases "or_else config_flag env_path")
    case None
    with assms show ?thesis
      unfolding load_config_def merge_read Let_def by (auto simp: outcome_simps split: if_splits intro: merged)
  next
    case (Some path)
    with assms read_validated show ?thesis
      unfolding load_config_def by (auto simp: outcome_simps split: if_splits)
  qed
qed

text \<open>\<open>paths_in_effect\<close> names exactly the files that are read: loading is reading the primary
  file alone when there is one, and otherwise merging the project and the user file named by it;
  nothing is read with \<open>--no-config\<close>.\<close>

theorem load_reads_paths_in_effect:
  "load_config t fs config_flag env_path no_config config_home cwd =
     (let ep = paths_in_effect fs config_flag env_path no_config config_home cwd
      in case ep_primary ep of
           Some path \<Rightarrow> res_bind (read_file t fs path) (\<lambda>cfg. Inr (Some cfg))
         | None \<Rightarrow>
             res_bind (transpose_read (read_file t fs) (ep_project ep)) (\<lambda>project.
             res_bind (transpose_read (read_file t fs) (ep_user ep)) (\<lambda>user.
             Inr (merge_section merge_config project user))))"
  unfolding load_config_def merge_read
  by (cases "or_else config_flag env_path") (simp_all add: paths_in_effect_def transpose_read_def merge_section_def Let_def)

definition demo_reader :: "unit toml_reader" where
  "demo_reader = \<lparr>tm_table = (\<lambda>_. Inr (Some [(''extra'', ())])), tm_global = (\<lambda>_. Inl []), tm_fetch = (\<lambda>_. Inl []),
     tm_output = (\<lambda>_. Inl []), tm_validate = (\<lambda>_. Inl []), tm_serve = (\<lambda>_. Inl []), tm_url_scheme = (\<lambda>_. None)\<rparr>"

theorem loaded_config_validated_witness:
  "validate_enum_values (tm_url_scheme demo_reader)
     (empty_config\<lparr>fc_unknown := [''extra''], fc_source := Some ''a''\<rparr>) = Inr ()"
  by (rule loaded_config_validated [where fs = "\<lambda>_. Contents []" and config_flag = "Some ''a''" and env_path = None
        and no_config = False and config_home = "[]" and cwd = "[]"])
    (simp add: load_config_def or_else_def read_file_def parse_config_def demo_reader_def empty_config_def
      validate_enum_values_def when_some_def)

end
