(* ===== verification/Proxy_Render.thy ===== *)
theory Proxy_Render
  imports Filters
begin

text \<open>
  How a proxy is rendered: as a JSON value (\<open>Serialize\<close> of \<open>src/proxy/models.rs\<close> and
  \<open>src/geolookup/models.rs\<close>), as text (\<open>Display\<close>), and in the formats of
  \<open>src/cli/output.rs\<close>: CSV, proxychains, prefix and PAC. Writing a JSON value as text is
  serde_json's and a parameter elsewhere. A reader of CSV records (RFC 4180) states what a row means.
\<close>

section \<open>JSON values\<close>

datatype json = JNull | JInt nat | JFloat f64 | JStr string | JArr "json list" | JObj "(string \<times> json) list"

definition json_opt :: "('a \<Rightarrow> json) \<Rightarrow> 'a option \<Rightarrow> json" where
  "json_opt f x = (case x of Some y \<Rightarrow> f y | None \<Rightarrow> JNull)"

fun anonymity_json :: "anonymity \<Rightarrow> json" where
  "anonymity_json Elite = JStr ''Elite''"
| "anonymity_json Transparent = JStr ''Transparent''"
| "anonymity_json Anonymous = JStr ''Anonymous''"
| "anonymity_json Unknown = JStr ''Unknown''"

fun protocol_json :: "protocol \<Rightarrow> json" where
  "protocol_json (Http a) = JObj [(''family'', JStr ''Http''), (''anonymity'', anonymity_json a)]"
| "protocol_json (Https a) = JObj [(''family'', JStr ''Https''), (''anonymity'', anonymity_json a)]"
| "protocol_json Socks4 = JObj [(''family'', JStr ''Socks4'')]"
| "protocol_json Socks5 = JObj [(''family'', JStr ''Socks5'')]"
| "protocol_json (Connect port) = JObj [(''family'', JStr ''Connect''), (''port'', JInt (unat port))]"

definition proxy_type_json :: "proxy_type \<Rightarrow> json" where
  "proxy_type_json t = JObj [(''protocol'', protocol_json (pt_protocol t)), (''checked_on'', JFloat (pt_checked_on t))]"

fun ip_type_str :: "ip_type \<Rightarrow> string" where
  "ip_type_str Residential = ''residential''"
| "ip_type_str Datacenter = ''datacenter''"
| "ip_type_str Mobile = ''mobile''"
| "ip_type_str UnknownIp = ''unknown''"

definition geo_json :: "geo_data \<Rightarrow> json" where
  "geo_json g =
     (if geo_is_empty g then JObj []
      else JObj
        [(''iso_code'', json_opt JStr (iso_code g)), (''name'', json_opt JStr (geo_name g)),
         (''region_iso_code'', json_opt JStr (region_iso_code g)), (''region_name'', json_opt JStr (region_name g)),
         (''city_name'', json_opt JStr (city_name g)), (''asn'', json_opt (\<lambda>n. JInt (unat n)) (geo_asn g)),
         (''aso'', json_opt JStr (geo_aso g)), (''ip_type'', JStr (ip_type_str (geo_ip_type g))),
         (''continent_code'', json_opt JStr (continent_code g)),
         (''continent_name'', json_opt JStr (continent_name g)),
         (''latitude'', json_opt JFloat (latitude g)), (''longitude'', json_opt JFloat (longitude g)),
         (''timezone'', json_opt JStr (timezone g)), (''zip'', json_opt JStr (zip_code g))])"

definition proxy_json :: "proxy \<Rightarrow> json" where
  "proxy_json p = JObj
     ([(''ip'', JStr (show_ipv4 (px_ip p))), (''port'', JInt (unat (px_port p))), (''geo'', geo_json (px_geo p)),
       (''average_response_time'', JFloat (stats_avg (px_runtimes p))),
       (''min_response_time'', JFloat (rs_min (px_runtimes p))),
       (''max_response_time'', JFloat (rs_max (px_runtimes p))),
       (''response_time_samples'', JInt (unat (rs_count (px_runtimes p)))),
       (''type'', JArr (map proxy_type_json (proxy_types p)))] @
      (case px_score p of Some s \<Rightarrow> [(''score'', JFloat (hs_total s))] | None \<Rightarrow> []))"

section \<open>Text\<close>

text \<open>\<open>{:.2}\<close>: two decimals, ties to the even digit.\<close>

definition round_even :: "real \<Rightarrow> nat" where
  "round_even x =
     (let f = nat \<lfloor>x\<rfloor>; d = x - real f
      in if d < 1 / 2 \<or> d = 1 / 2 \<and> even f then f else f + 1)"

definition two_digits :: "nat \<Rightarrow> string" where
  "two_digits n = (if n < 10 then CHR ''0'' # show_nat n else show_nat n)"

fun fixed2 :: "f64 \<Rightarrow> string" where
  "fixed2 (Fin r) =
     (let n = round_even (\<bar>r\<bar> * 100)
      in (if r < 0 then ''-'' else []) @ show_nat (n div 100) @ CHR ''.'' # two_digits (n mod 100))"
| "fixed2 PInf = ''inf''"
| "fixed2 NInf = ''-inf''"
| "fixed2 NaN = ''NaN''"

definition show_proxy :: "proxy \<Rightarrow> string" where
  "show_proxy p =
     (case iso_code (px_geo p) of Some code \<Rightarrow> ''<Proxy '' @ code | None \<Rightarrow> ''<Proxy --'') @
     '' '' @ fixed2 (avg_response_time p) @ ''s ['' @
     (if proxy_types p = [] then ''--'' else join '', '' (map (\<lambda>t. show_protocol (pt_protocol t)) (proxy_types p))) @
     ''] '' @ show_ipv4 (px_ip p) @ '':'' @ show_nat (unat (px_port p)) @ ''>''"

section \<open>Output formats\<close>

fun socks_of :: "proxy_type list \<Rightarrow> string option" where
  "socks_of [] = None"
| "socks_of (t # ts) =
     (case pt_protocol t of Socks5 \<Rightarrow> Some ''socks5'' | Socks4 \<Rightarrow> Some ''socks4'' | _ \<Rightarrow> socks_of ts)"

fun http_of :: "proxy_type list \<Rightarrow> string option" where
  "http_of [] = None"
| "http_of (t # ts) =
     (case pt_protocol t of Http _ \<Rightarrow> Some ''http'' | Https _ \<Rightarrow> Some ''http'' | _ \<Rightarrow> http_of ts)"

definition proxychains_type :: "proxy \<Rightarrow> string" where
  "proxychains_type p =
     (case socks_of (proxy_types p) of
        Some s \<Rightarrow> s
      | None \<Rightarrow> (case http_of (proxy_types p) of Some s \<Rightarrow> s | None \<Rightarrow> ''http''))"

definition prefix_scheme :: "proxy \<Rightarrow> string" where
  "prefix_scheme p = (case socks_of (proxy_types p) of Some s \<Rightarrow> s | None \<Rightarrow> ''http'')"

definition linefeed :: char where
  "linefeed = char_of (10 :: nat)"

definition dquote :: char where
  "dquote = char_of (34 :: nat)"

definition carriage :: char where
  "carriage = char_of (13 :: nat)"

definition pac_directive :: "proxy \<Rightarrow> string" where
  "pac_directive p =
     (case proxy_types p of
        t # _ \<Rightarrow> (case pt_protocol t of Socks5 \<Rightarrow> ''SOCKS5'' | Socks4 \<Rightarrow> ''SOCKS'' | _ \<Rightarrow> ''PROXY'')
      | [] \<Rightarrow> ''PROXY'')"

definition render_pac :: "proxy list \<Rightarrow> string" where
  "render_pac ps =
     ''function FindProxyForURL(url, host) {'' @ [linefeed] @ ''    return '' @ [dquote] @
     join ''; '' (map (\<lambda>p. pac_directive p @ '' '' @ show_ipv4 (px_ip p) @ '':'' @ show_nat (unat (px_port p))) ps) @
     ''; DIRECT'' @ [dquote] @ '';'' @ [linefeed] @ ''}'' @ [linefeed]"

definition csv_special :: "char \<Rightarrow> bool" where
  "csv_special c \<longleftrightarrow> c = CHR '','' \<or> c = dquote \<or> c = linefeed \<or> c = carriage"

definition csv_quote :: "string \<Rightarrow> string" where
  "csv_quote field =
     (if list_ex csv_special field
      then [dquote] @ concat (map (\<lambda>c. if c = dquote then [dquote, dquote] else [c]) field) @ [dquote]
      else field)"

definition from_option :: "string option \<Rightarrow> string" where
  "from_option x = (case x of Some s \<Rightarrow> s | None \<Rightarrow> [])"

definition csv_row :: "proxy \<Rightarrow> string" where
  "csv_row p =
     show_ipv4 (px_ip p) @ '','' @ show_nat (unat (px_port p)) @ '','' @
     join '','' (map (\<lambda>t. show_protocol (pt_protocol t)) (proxy_types p)) @ '','' @
     fixed2 (avg_response_time p) @ '','' @ csv_quote (from_option (iso_code (px_geo p))) @ '','' @
     csv_quote (ip_type_str (geo_ip_type (px_geo p))) @ '','' @
     (case geo_asn (px_geo p) of Some asn \<Rightarrow> show_nat (unat asn) | None \<Rightarrow> []) @ '','' @
     csv_quote (from_option (geo_aso (px_geo p))) @ [linefeed]"

section \<open>Reading a CSV row back\<close>

fun csv_read :: "bool \<Rightarrow> string \<Rightarrow> string \<Rightarrow> string list" where
  "csv_read quoted cur [] = [cur]"
| "csv_read False cur (c # cs) =
     (if c = CHR '','' then cur # csv_read False [] cs
      else if c = dquote \<and> cur = [] then csv_read True [] cs
      else csv_read False (cur @ [c]) cs)"
| "csv_read True cur [c] = (if c = dquote then [cur] else [cur @ [c]])"
| "csv_read True cur (c # d # cs) =
     (if c = dquote \<and> d = dquote then csv_read True (cur @ [dquote]) cs
      else if c = dquote then csv_read False cur (d # cs)
      else csv_read True (cur @ [c]) (d # cs))"

lemma dquote_comma [simp]: "dquote \<noteq> CHR '',''" "CHR '','' \<noteq> dquote"
  by (simp_all add: dquote_def)

lemma csv_read_plain:
  "list_all (\<lambda>c. \<not> csv_special c) f \<Longrightarrow> csv_read False cur (f @ CHR '','' # rest) = (cur @ f) # csv_read False [] rest"
  by (induction f arbitrary: cur) (auto simp: csv_special_def)

lemma csv_read_plain_end: "list_all (\<lambda>c. \<not> csv_special c) f \<Longrightarrow> csv_read False cur f = [cur @ f]"
  by (induction f arbitrary: cur) (auto simp: csv_special_def)

abbreviation escaped :: "string \<Rightarrow> string" where
  "escaped f \<equiv> concat (map (\<lambda>c. if c = dquote then [dquote, dquote] else [c]) f)"

lemma csv_read_in_quotes:
  "csv_read True cur (escaped f @ dquote # CHR '','' # rest) = (cur @ f) # csv_read False [] rest"
proof (induction f arbitrary: cur)
  case (Cons c f)
  obtain d ds where d: "escaped f @ dquote # CHR '','' # rest = d # ds" by (cases "escaped f @ dquote # CHR '','' # rest") auto
  show ?case
  proof (cases "c = dquote")
    case True
    with Cons show ?thesis by simp
  next
    case False
    with Cons [of "cur @ [c]"] d show ?thesis by simp
  qed
qed simp

lemma csv_read_in_quotes_end: "csv_read True cur (escaped f @ [dquote]) = [cur @ f]"
proof (induction f arbitrary: cur)
  case (Cons c f)
  obtain d ds where d: "escaped f @ [dquote] = d # ds" by (cases "escaped f @ [dquote]") auto
  show ?case
  proof (cases "c = dquote")
    case True
    with Cons show ?thesis by simp
  next
    case False
    with Cons [of "cur @ [c]"] d show ?thesis by simp
  qed
qed simp

lemma csv_read_quote: "csv_read False [] (csv_quote f @ CHR '','' # rest) = f # csv_read False [] rest"
proof (cases "list_ex csv_special f")
  case True
  then show ?thesis using csv_read_in_quotes [of "[]" f rest] by (simp add: csv_quote_def)
next
  case False
  then have "list_all (\<lambda>c. \<not> csv_special c) f" by (simp add: list_all_iff list_ex_iff)
  with False show ?thesis using csv_read_plain [of f "[]" rest] by (simp add: csv_quote_def)
qed

lemma csv_read_quote_end: "csv_read False [] (csv_quote f) = [f]"
proof (cases "list_ex csv_special f")
  case True
  then show ?thesis using csv_read_in_quotes_end [of "[]" f] by (simp add: csv_quote_def)
next
  case False
  then have "list_all (\<lambda>c. \<not> csv_special c) f" by (simp add: list_all_iff list_ex_iff)
  with False show ?thesis using csv_read_plain_end [of f "[]"] by (simp add: csv_quote_def)
qed

lemma digit_plain: "is_digit c \<Longrightarrow> \<not> csv_special c"
  by (auto simp: csv_special_def dquote_def linefeed_def carriage_def is_digit_def)

lemma nat_plain: "list_all (\<lambda>c. \<not> csv_special c) (show_nat n)"
  using digit_plain set_show_nat by (auto simp: list_all_iff)

lemma ipv4_plain: "list_all (\<lambda>c. \<not> csv_special c) (show_ipv4 ip)"
  using digit_plain set_show_ipv4
  by (fastforce simp: list_all_iff csv_special_def dquote_def linefeed_def carriage_def)

lemma fixed2_plain: "list_all (\<lambda>c. \<not> csv_special c) (fixed2 x)"
  using nat_plain
  by (cases x) (auto simp: Let_def two_digits_def csv_special_def dquote_def linefeed_def carriage_def)

lemma protocol_plain: "list_all (\<lambda>c. \<not> csv_special c) (show_protocol p)"
  using nat_plain by (cases p rule: show_protocol.cases)
    (auto simp: csv_special_def dquote_def linefeed_def carriage_def)

lemma csv_read_plains:
  "list_all (list_all (\<lambda>c. \<not> csv_special c)) fs \<Longrightarrow> fs \<noteq> [] \<Longrightarrow>
   csv_read False [] (join '','' fs @ CHR '','' # rest) = fs @ csv_read False [] rest"
proof (induction fs)
  case (Cons f fs)
  then show ?case by (cases fs) (auto simp: csv_read_plain)
qed simp

text \<open>What a reader of CSV gets from a row: the quoted texts come back exactly, whatever they hold, but a
  proxy with several confirmed protocols gives one field for each of them, so the row has as many
  fields more than the header of eight.\<close>

theorem csv_row_reads_back:
  "csv_read False [] (butlast (csv_row p)) =
     [show_ipv4 (px_ip p), show_nat (unat (px_port p))] @
     (if proxy_types p = [] then [[]] else map (\<lambda>t. show_protocol (pt_protocol t)) (proxy_types p)) @
     [fixed2 (avg_response_time p), from_option (iso_code (px_geo p)), ip_type_str (geo_ip_type (px_geo p)),
      (case geo_asn (px_geo p) of Some asn \<Rightarrow> show_nat (unat asn) | None \<Rightarrow> []), from_option (geo_aso (px_geo p))] \<and>
   length (csv_read False [] (butlast (csv_row p))) = 7 + max 1 (length (proxy_types p))"
proof -
  let ?ts = "map (\<lambda>t. show_protocol (pt_protocol t)) (proxy_types p)"
  have ts: "csv_read False [] (join '','' ?ts @ CHR '','' # rest) = (if proxy_types p = [] then [[]] else ?ts) @ csv_read False [] rest"
    for rest using csv_read_plains [of ?ts rest] protocol_plain by (cases "proxy_types p") (auto simp: list_all_iff)
  have asn: "list_all (\<lambda>c. \<not> csv_special c) (case geo_asn (px_geo p) of Some asn \<Rightarrow> show_nat (unat asn) | None \<Rightarrow> [])"
    using nat_plain by (simp split: option.split)
  have "csv_read False [] (butlast (csv_row p)) =
     [show_ipv4 (px_ip p), show_nat (unat (px_port p))] @
     (if proxy_types p = [] then [[]] else ?ts) @
     [fixed2 (avg_response_time p), from_option (iso_code (px_geo p)), ip_type_str (geo_ip_type (px_geo p)),
      (case geo_asn (px_geo p) of Some asn \<Rightarrow> show_nat (unat asn) | None \<Rightarrow> []), from_option (geo_aso (px_geo p))]"
    by (simp add: csv_row_def butlast_append csv_read_plain [OF ipv4_plain] csv_read_plain [OF nat_plain] ts
        csv_read_plain [OF fixed2_plain] csv_read_quote csv_read_plain [OF asn] csv_read_quote_end)
  then show ?thesis by (cases "proxy_types p") auto
qed

end
