(* ===== verification/Rust_Chars.thy ===== *)
theory Rust_Chars
  imports Rust_Str
begin

text \<open>
  The characters of a text, which is a sequence of UTF-8 bytes: what \<open>chars\<close>, \<open>char_indices\<close>, slicing
  and \<open>char::from_u32\<close> of the standard library do with one, and \<open>split\<close> on a substring.
\<close>

section \<open>UTF-8 texts\<close>

definition continues :: "char \<Rightarrow> bool" where
  "continues c \<longleftrightarrow> 128 \<le> byte c \<and> byte c < 192"

text \<open>\<open>str::chars\<close>: each character as its bytes.\<close>

function utf8_chars :: "string \<Rightarrow> string list" where
  "utf8_chars [] = []"
| "utf8_chars (c # cs) = (c # takeWhile continues cs) # utf8_chars (dropWhile continues cs)"
  by pat_completeness auto
termination
  by (relation "measure length") (auto simp: le_imp_less_Suc length_dropWhile_le)

fun char_indices :: "nat \<Rightarrow> string list \<Rightarrow> (nat \<times> string) list" where
  "char_indices n [] = []"
| "char_indices n (c # cs) = (n, c) # char_indices (n + length c) cs"

definition is_char_boundary :: "string \<Rightarrow> nat \<Rightarrow> bool" where
  "is_char_boundary s i \<longleftrightarrow> i = length s \<or> i < length s \<and> (i = 0 \<or> \<not> continues (s ! i))"

text \<open>\<open>&text[i..j]\<close>.\<close>

definition str_slice :: "string \<Rightarrow> nat \<Rightarrow> nat \<Rightarrow> (string, unit) outcome" where
  "str_slice s i j =
     (if i \<le> j \<and> is_char_boundary s i \<and> is_char_boundary s j then Ok (take (j - i) (drop i s)) else Panic)"

lemma concat_utf8_chars [simp]: "concat (utf8_chars s) = s"
  by (induction s rule: utf8_chars.induct) simp_all

lemma ascii_chars: "\<forall>c \<in> set s. \<not> continues c \<Longrightarrow> utf8_chars s = map (\<lambda>c. [c]) s"
proof (induction s rule: utf8_chars.induct)
  case (2 c cs)
  then have "takeWhile continues cs = [] \<and> dropWhile continues cs = cs" by (cases cs) auto
  with 2 show ?case by simp
qed simp

text \<open>\<open>char::from_u32\<close> and the UTF-8 bytes of the character: none for a surrogate and beyond the last plane.\<close>

definition encode_char :: "nat \<Rightarrow> string option" where
  "encode_char n =
     (if n < 128 then Some [char_of n]
      else if n < 2048 then Some [char_of (192 + n div 64), char_of (128 + n mod 64)]
      else if 55296 \<le> n \<and> n < 57344 then None
      else if n < 65536 then
        Some [char_of (224 + n div 4096), char_of (128 + n div 64 mod 64), char_of (128 + n mod 64)]
      else if n < 1114112 then
        Some [char_of (240 + n div 262144), char_of (128 + n div 4096 mod 64), char_of (128 + n div 64 mod 64),
          char_of (128 + n mod 64)]
      else None)"

text \<open>\<open>str::split\<close> on a non-empty text.\<close>

function split_str :: "string \<Rightarrow> string \<Rightarrow> string list" where
  "split_str sep s =
     (case find_str sep s of
        None \<Rightarrow> [s]
      | Some i \<Rightarrow> (if sep = [] then [s] else take i s # split_str sep (drop (i + length sep) s)))"
  by pat_completeness auto
termination
proof (relation "measure (\<lambda>(_, s). length s)", goal_cases)
  case (2 sep s i)
  then have "i + length sep \<le> length s" using find_str_Some by blast
  with 2(2) show ?case by (cases sep) auto
qed simp

declare split_str.simps [simp del]

end
