(* ===== verification/Tui_View.thy ===== *)
theory Tui_View
  imports Proxy_Render Rust_Chars
begin

text \<open>
  The pure view logic of the terminal interface (\<open>src/cli/tui/view.rs\<close>): rows, the smart-case
  filter, the order of the rows, the window on them and the widths of the columns. Texts are
  UTF-8 bytes; the tables of Unicode and the cell widths of a library are parameters.
\<close>

record unicode =
  uc_is_uppercase :: "string \<Rightarrow> bool"
  uc_to_lowercase :: "string \<Rightarrow> string"
  uc_char_width :: "string \<Rightarrow> nat"
  uc_str_width :: "string \<Rightarrow> nat"

section \<open>Rows\<close>

record row_model =
  rm_cells :: "string list"
  rm_rtt :: f64
  rm_anonymity_rank :: nat
  rm_score :: "f64 option"
  rm_organization :: string

definition CELL_COUNT :: nat where
  "CELL_COUNT = 8"

definition COUNTRY_COLUMN :: nat where
  "COUNTRY_COLUMN = 3"

text \<open>\<open>Iterator::max_by_key\<close> returns the last of the greatest elements, \<open>min_by_key\<close> the first of the least.\<close>

fun max_by_key :: "('a \<Rightarrow> nat) \<Rightarrow> 'a list \<Rightarrow> 'a option" where
  "max_by_key f [] = None"
| "max_by_key f (x # xs) =
     (case max_by_key f xs of None \<Rightarrow> Some x | Some y \<Rightarrow> (if f x \<le> f y then Some y else Some x))"

fun min_by_key :: "('a \<Rightarrow> nat) \<Rightarrow> 'a list \<Rightarrow> 'a option" where
  "min_by_key f [] = None"
| "min_by_key f (x # xs) =
     (case min_by_key f xs of None \<Rightarrow> Some x | Some y \<Rightarrow> (if f x \<le> f y then Some x else Some y))"

definition anonymity_label :: "proxy \<Rightarrow> string" where
  "anonymity_label p =
     (case max_by_key rank (http_levels p) of
        Some Elite \<Rightarrow> ''elite'' | Some Anonymous \<Rightarrow> ''anon'' | Some Transparent \<Rightarrow> ''transp'' | _ \<Rightarrow> ''-'')"

fun short_protocol :: "protocol \<Rightarrow> string" where
  "short_protocol (Http _) = ''HTTP''"
| "short_protocol (Https _) = ''HTTPS''"
| "short_protocol Socks4 = ''SOCKS4''"
| "short_protocol Socks5 = ''SOCKS5''"
| "short_protocol (Connect port) = ''CONNECT:'' @ show_nat (unat port)"

definition protocol_label :: "proxy \<Rightarrow> string" where
  "protocol_label p =
     (if proxy_types p = [] then join ''+'' (map short_protocol (expected_types p))
      else join ''+'' (map (\<lambda>t. short_protocol (pt_protocol t)) (proxy_types p)))"

fun ip_type_label :: "ip_type \<Rightarrow> string" where
  "ip_type_label Residential = ''residential''"
| "ip_type_label Datacenter = ''datacenter''"
| "ip_type_label Mobile = ''mobile''"
| "ip_type_label UnknownIp = ''-''"

definition row_model_new :: "proxy \<Rightarrow> row_model" where
  "row_model_new p =
     \<lparr>rm_cells =
        [px_text p, protocol_label p, anonymity_label p,
         (case iso_code (px_geo p) of Some code \<Rightarrow> code | None \<Rightarrow> ''-''), ip_type_label (geo_ip_type (px_geo p)),
         (case geo_asn (px_geo p) of Some asn \<Rightarrow> show_nat (unat asn) | None \<Rightarrow> ''-''),
         fixed2 (avg_response_time p) @ ''s'', show_nat (unat (rs_count (px_runtimes p)))],
      rm_rtt = avg_response_time p, rm_anonymity_rank = proxy_anonymity_rank p,
      rm_score = map_option hs_total (px_score p), rm_organization = from_option (geo_aso (px_geo p))\<rparr>"

section \<open>The state of the view\<close>

record view_state =
  vs_filter :: string
  vs_sort :: "sort_key option"
  vs_order :: sort_order
  vs_selected :: nat
  vs_detail :: bool

definition view_default :: view_state where
  "view_default = \<lparr>vs_filter = [], vs_sort = None, vs_order = Asc, vs_selected = 0, vs_detail = False\<rparr>"

definition reset_position :: "view_state \<Rightarrow> view_state" where
  "reset_position v = v\<lparr>vs_selected := 0\<rparr>"

definition cycle_sort :: "view_state \<Rightarrow> view_state" where
  "cycle_sort v = reset_position (v\<lparr>vs_sort :=
     (case vs_sort v of
        None \<Rightarrow> Some AvgResponseTime
      | Some AvgResponseTime \<Rightarrow> Some Country
      | Some Country \<Rightarrow> Some AnonymityKey
      | Some AnonymityKey \<Rightarrow> Some Score
      | Some Score \<Rightarrow> None)\<rparr>)"

definition toggle_order :: "view_state \<Rightarrow> view_state" where
  "toggle_order v = reset_position (v\<lparr>vs_order := (case vs_order v of Asc \<Rightarrow> Desc | Desc \<Rightarrow> Asc)\<rparr>)"

definition clamp_selection :: "nat \<Rightarrow> view_state \<Rightarrow> view_state" where
  "clamp_selection len v =
     (if len = 0 then v\<lparr>vs_selected := 0\<rparr>
      else if len \<le> vs_selected v then v\<lparr>vs_selected := len - 1\<rparr> else v)"

section \<open>The filter\<close>

datatype case_rule = Sensitive | Insensitive

definition case_of :: "unicode \<Rightarrow> string \<Rightarrow> case_rule" where
  "case_of uc pattern = (if list_ex (uc_is_uppercase uc) (utf8_chars pattern) then Sensitive else Insensitive)"

definition is_ascii :: "string \<Rightarrow> bool" where
  "is_ascii s = list_all (\<lambda>c. byte c < 128) s"

definition chars_eq :: "unicode \<Rightarrow> case_rule \<Rightarrow> string \<Rightarrow> string \<Rightarrow> bool" where
  "chars_eq uc rule left right =
     (if left = right then True
      else if rule = Sensitive then False
      else if is_ascii left \<and> is_ascii right then eq_ignore_case left right
      else uc_to_lowercase uc left = uc_to_lowercase uc right)"

fun matches_here :: "unicode \<Rightarrow> case_rule \<Rightarrow> string list \<Rightarrow> string list \<Rightarrow> bool" where
  "matches_here uc rule [] text = True"
| "matches_here uc rule (n # ns) [] = False"
| "matches_here uc rule (n # ns) (t # ts) = (chars_eq uc rule t n \<and> matches_here uc rule ns ts)"

text \<open>The scan over the starts: the byte range of the first match.\<close>

fun find_from :: "unicode \<Rightarrow> case_rule \<Rightarrow> string list \<Rightarrow> nat \<Rightarrow> string list \<Rightarrow> (nat \<times> nat) option" where
  "find_from uc rule needle index [] = None"
| "find_from uc rule needle index (t # ts) =
     (if length needle \<le> length (t # ts) \<and> matches_here uc rule needle (t # ts)
      then Some (index, index + length (concat (take (length needle) (t # ts))))
      else find_from uc rule needle (index + length t) ts)"

definition find_match :: "unicode \<Rightarrow> string \<Rightarrow> string \<Rightarrow> case_rule \<Rightarrow> (nat \<times> nat) option" where
  "find_match uc text pattern rule =
     (if utf8_chars pattern = [] then None else find_from uc rule (utf8_chars pattern) 0 (utf8_chars text))"

record hit =
  hit_column :: nat
  hit_begin :: nat
  hit_end :: nat

fun first_hit :: "unicode \<Rightarrow> case_rule \<Rightarrow> string \<Rightarrow> nat \<Rightarrow> string list \<Rightarrow> hit option" where
  "first_hit uc rule pattern column [] = None"
| "first_hit uc rule pattern column (cell # cells) =
     (case find_match uc cell pattern rule of
        Some (b, e) \<Rightarrow> Some \<lparr>hit_column = column, hit_begin = b, hit_end = e\<rparr>
      | None \<Rightarrow> first_hit uc rule pattern (column + 1) cells)"

definition find_hit :: "unicode \<Rightarrow> row_model \<Rightarrow> string \<Rightarrow> hit option" where
  "find_hit uc row pattern = first_hit uc (case_of uc pattern) pattern 0 (rm_cells row)"

definition matches_filter :: "unicode \<Rightarrow> row_model \<Rightarrow> string \<Rightarrow> bool" where
  "matches_filter uc row pattern \<longleftrightarrow>
     list_ex (\<lambda>cell. find_match uc cell pattern (case_of uc pattern) \<noteq> None) (rm_cells row) \<or>
     find_match uc (rm_organization row) pattern (case_of uc pattern) \<noteq> None"

section \<open>The order of the rows\<close>

definition compare_rows :: "sort_key \<Rightarrow> bool \<Rightarrow> row_model \<Rightarrow> row_model \<Rightarrow> ordering" where
  "compare_rows key descending left right =
     (case key of
        AvgResponseTime \<Rightarrow> cmp_float rm_rtt left right
      | Country \<Rightarrow> cmp_on (\<lambda>r. rm_cells r ! COUNTRY_COLUMN) left right
      | AnonymityKey \<Rightarrow> cmp_on rm_anonymity_rank left right
      | Score \<Rightarrow>
          (case (rm_score left, rm_score right) of
             (Some l, Some r) \<Rightarrow>
               (let ord = (case partial_cmp l r of Some c \<Rightarrow> c | None \<Rightarrow> Equal)
                in if descending then reverse_ordering ord else ord)
           | (Some _, None) \<Rightarrow> Less
           | (None, Some _) \<Rightarrow> Greater
           | (None, None) \<Rightarrow> Equal))"

definition index_order :: "row_model list \<Rightarrow> sort_key \<Rightarrow> sort_order \<Rightarrow> nat \<Rightarrow> nat \<Rightarrow> ordering" where
  "index_order rows key order a b =
     (let descending = (order = Desc); ord = compare_rows key descending (rows ! a) (rows ! b)
      in if descending \<and> key \<noteq> Score then reverse_ordering ord else ord)"

definition passes_filter :: "unicode \<Rightarrow> view_state \<Rightarrow> row_model \<Rightarrow> bool" where
  "passes_filter uc v row \<longleftrightarrow> vs_filter v = [] \<or> matches_filter uc row (vs_filter v)"

definition visible_rows :: "unicode \<Rightarrow> row_model list \<Rightarrow> view_state \<Rightarrow> nat list" where
  "visible_rows uc rows v =
     (let indices = filter (\<lambda>i. passes_filter uc v (rows ! i)) [0..<length rows]
      in case vs_sort v of None \<Rightarrow> indices | Some key \<Rightarrow> sort_by (index_order rows key (vs_order v)) indices)"

text \<open>The window \<open>[start, end)\<close> of rows on the screen.\<close>

definition window :: "nat \<Rightarrow> nat \<Rightarrow> nat \<Rightarrow> nat \<times> nat" where
  "window selected height len =
     (if len = 0 \<or> height = 0 then (0, 0)
      else (let selected = min selected (len - 1);
                start = (if height \<le> selected then selected + 1 - height else 0)
            in (start, min (start + height) len)))"

section \<open>The columns\<close>

definition COLUMN_SPACING :: nat where "COLUMN_SPACING = 1"

definition MIN_WIDTH :: nat where "MIN_WIDTH = 60"

definition MIN_HEIGHT :: nat where "MIN_HEIGHT = 12"

definition TABLE_CHROME_ROWS :: nat where "TABLE_CHROME_ROWS = 1"

definition ORDINAL_MIN :: nat where "ORDINAL_MIN = 2"

definition ORDINAL_MAX :: nat where "ORDINAL_MAX = 6"

datatype column_source = Cell nat | Ordinal

record column =
  col_title :: string
  col_source :: column_source
  col_min :: nat
  col_preferred :: nat
  col_max :: nat
  col_hide_rank :: "nat option"
  col_grow_rank :: "nat option"
  col_sort_key :: "sort_key option"

definition mk_column ::
  "string \<Rightarrow> column_source \<Rightarrow> nat \<Rightarrow> nat \<Rightarrow> nat \<Rightarrow> nat option \<Rightarrow> nat option \<Rightarrow> sort_key option \<Rightarrow> column" where
  "mk_column t s mn pr mx h g k =
     \<lparr>col_title = t, col_source = s, col_min = mn, col_preferred = pr, col_max = mx, col_hide_rank = h,
      col_grow_rank = g, col_sort_key = k\<rparr>"

definition COLUMNS :: "column list" where
  "COLUMNS =
     [mk_column ''#'' Ordinal ORDINAL_MIN ORDINAL_MIN ORDINAL_MAX None None None,
      mk_column ''IP:PORT'' (Cell 0) 15 21 45 None (Some 1) None,
      mk_column ''PROTO'' (Cell 1) 5 14 22 None (Some 2) None,
      mk_column ''ANON'' (Cell 2) 4 6 8 None (Some 3) (Some AnonymityKey),
      mk_column ''CC'' (Cell 3) 2 4 4 None None (Some Country),
      mk_column ''TYPE'' (Cell 4) 4 12 14 (Some 3) (Some 4) None,
      mk_column ''ASN'' (Cell 5) 3 8 10 (Some 1) (Some 5) None,
      mk_column ''RTT'' (Cell 6) 5 8 9 None None (Some AvgResponseTime),
      mk_column ''N'' (Cell 7) 1 4 6 (Some 2) None None]"

definition ordinal_width :: "nat \<Rightarrow> nat" where
  "ordinal_width rows = max ORDINAL_MIN (min ORDINAL_MAX (length (show_nat (max 1 rows))))"

definition preferred_widths :: "nat \<Rightarrow> nat list" where
  "preferred_widths rows =
     map (\<lambda>c. case col_source c of Ordinal \<Rightarrow> ordinal_width rows | Cell _ \<Rightarrow> col_preferred c) COLUMNS"

definition total_width :: "nat list \<Rightarrow> nat list \<Rightarrow> nat" where
  "total_width shown widths = sum_list (map (\<lambda>i. widths ! i) shown) + COLUMN_SPACING * (length shown - 1)"

definition hide_rank :: "nat \<Rightarrow> nat" where
  "hide_rank i = (case col_hide_rank (COLUMNS ! i) of Some r \<Rightarrow> r | None \<Rightarrow> 0)"

definition grow_rank :: "nat \<Rightarrow> nat" where
  "grow_rank i = (case col_grow_rank (COLUMNS ! i) of Some r \<Rightarrow> r | None \<Rightarrow> 0)"

definition next_hidden :: "nat list \<Rightarrow> nat option" where
  "next_hidden shown = min_by_key hide_rank (filter (\<lambda>i. col_hide_rank (COLUMNS ! i) \<noteq> None) shown)"

definition next_shrunk :: "nat list \<Rightarrow> nat list \<Rightarrow> nat option" where
  "next_shrunk shown widths =
     max_by_key grow_rank (filter (\<lambda>i. col_grow_rank (COLUMNS ! i) \<noteq> None \<and> col_min (COLUMNS ! i) < widths ! i) shown)"

definition next_grown :: "nat list \<Rightarrow> nat list \<Rightarrow> nat option" where
  "next_grown shown widths =
     min_by_key grow_rank (filter (\<lambda>i. col_grow_rank (COLUMNS ! i) \<noteq> None \<and> widths ! i < col_max (COLUMNS ! i)) shown)"

lemma min_by_key_in: "min_by_key f xs = Some x \<Longrightarrow> x \<in> set xs"
  by (induction xs arbitrary: x) (auto split: option.splits if_splits)

lemma max_by_key_in: "max_by_key f xs = Some x \<Longrightarrow> x \<in> set xs"
  by (induction xs arbitrary: x) (auto split: option.splits if_splits)

lemma min_by_key_None [simp]: "min_by_key f xs = None \<longleftrightarrow> xs = []"
  by (cases xs) (auto split: option.splits)

lemma max_by_key_None [simp]: "max_by_key f xs = None \<longleftrightarrow> xs = []"
  by (cases xs) (auto split: option.splits)

text \<open>The three loops: hide columns, shrink them, grow them. The second and third carry the table
  bounds that make them end: a width never leaves the range of its column, and every
  index is one of the table.\<close>

function hide_loop :: "nat \<Rightarrow> nat list \<Rightarrow> nat list \<Rightarrow> nat list" where
  "hide_loop available widths shown =
     (if available < total_width shown widths
      then (case next_hidden shown of None \<Rightarrow> shown | Some n \<Rightarrow> hide_loop available widths (filter (\<lambda>i. i \<noteq> n) shown))
      else shown)"
  by pat_completeness auto
termination
proof (relation "measure (\<lambda>(_, _, shown). length shown)", goal_cases)
  case (2 available widths shown n)
  then have "n \<in> set shown" using min_by_key_in by (fastforce simp: next_hidden_def)
  then show ?case using length_filter_less [of n shown "\<lambda>i. i \<noteq> n"] by simp
qed simp

function shrink_loop :: "nat \<Rightarrow> nat list \<Rightarrow> nat list \<Rightarrow> nat list" where
  "shrink_loop available shown widths =
     (if available < total_width shown widths
      then (case next_shrunk shown widths of
              None \<Rightarrow> widths
            | Some n \<Rightarrow> (if n < length widths then shrink_loop available shown (widths[n := widths ! n - 1]) else widths))
      else widths)"
  by pat_completeness auto
termination
proof (relation "measure (\<lambda>(_, _, widths). sum_list widths)", goal_cases)
  case (2 available shown widths n)
  then have "0 < widths ! n" using max_by_key_in by (fastforce simp: next_shrunk_def)
  moreover have "n < length widths" by fact
  moreover have "widths ! n \<le> sum_list widths" using \<open>n < length widths\<close> by (simp add: member_le_sum_list)
  ultimately show ?case by (simp add: sum_list_update)
qed simp

function grow_loop :: "nat \<Rightarrow> nat list \<Rightarrow> nat list \<Rightarrow> nat list" where
  "grow_loop available shown widths =
     (if total_width shown widths < available
      then (case next_grown shown widths of
              None \<Rightarrow> widths
            | Some n \<Rightarrow> (if n < length widths then grow_loop available shown (widths[n := widths ! n + 1]) else widths))
      else widths)"
  by pat_completeness auto
termination
proof (relation "measure (\<lambda>(available, shown, widths). available - total_width shown widths)", goal_cases)
  case (2 available shown widths n)
  then have n: "n \<in> set shown" using min_by_key_in by (fastforce simp: next_grown_def)
  have "sum_list (map (\<lambda>i. widths ! i) shown) < sum_list (map (\<lambda>i. widths[n := widths ! n + 1] ! i) shown)"
    using n \<open>n < length widths\<close>
  proof (induction shown)
    case (Cons i shown)
    have "sum_list (map (\<lambda>i. widths ! i) shown) \<le> sum_list (map (\<lambda>i. widths[n := widths ! n + 1] ! i) shown)"
      using \<open>n < length widths\<close> by (intro sum_list_mono) (simp add: nth_list_update)
    with Cons show ?case by (cases "i = n") auto
  qed simp
  with 2(1) show ?case by (simp add: total_width_def)
qed simp

definition fit_columns :: "nat \<Rightarrow> nat \<Rightarrow> (nat \<times> nat) list" where
  "fit_columns available rows =
     (let widths = preferred_widths rows;
          shown = hide_loop available widths [0..<length COLUMNS];
          widths = grow_loop available shown (shrink_loop available shown widths)
      in map (\<lambda>i. (i, widths ! i)) shown)"

declare hide_loop.simps [simp del] shrink_loop.simps [simp del] grow_loop.simps [simp del]

section \<open>The fitted table\<close>

lemma total_update:
  assumes "distinct shown" and "n \<in> set shown" and "n < length widths"
  shows "total_width shown (widths[n := v]) + widths ! n = total_width shown widths + v"
proof -
  have "sum_list (map (\<lambda>i. widths[n := v] ! i) shown) + widths ! n = sum_list (map (\<lambda>i. widths ! i) shown) + v"
    using assms(1,2)
  proof (induction shown)
    case (Cons i shown)
    show ?case
    proof (cases "i = n")
      case True
      with Cons.prems have "\<forall>j \<in> set shown. n \<noteq> j" by auto
      then have "map ((!) (widths[n := v])) shown = map ((!) widths) shown" by (simp add: nth_list_update_neq)
      with True assms(3) show ?thesis by (simp del: map_eq_conv)
    qed (use Cons in auto)
  qed simp
  then show ?thesis by (simp add: total_width_def)
qed

definition growable :: "nat \<Rightarrow> bool" where
  "growable i \<longleftrightarrow> col_grow_rank (COLUMNS ! i) \<noteq> None"

definition hideable :: "nat \<Rightarrow> bool" where
  "hideable i \<longleftrightarrow> col_hide_rank (COLUMNS ! i) \<noteq> None"

lemma hide_result:
  "\<exists>P. hide_loop available widths shown = filter P shown \<and> (\<forall>i. \<not> hideable i \<longrightarrow> P i) \<and>
     (total_width (filter P shown) widths \<le> available \<or> (\<forall>i \<in> set (filter P shown). \<not> hideable i))"
proof (induction available widths shown rule: hide_loop.induct)
  case (1 available widths shown)
  show ?case
  proof (cases "available < total_width shown widths")
    case False
    then show ?thesis by (intro exI [of _ "\<lambda>_. True"]) (simp add: hide_loop.simps)
  next
    case True
    show ?thesis
    proof (cases "next_hidden shown")
      case None
      with True show ?thesis
        by (intro exI [of _ "\<lambda>_. True"]) (auto simp: hide_loop.simps next_hidden_def filter_empty_conv hideable_def)
    next
      case (Some n)
      have n: "hideable n" using min_by_key_in [of hide_rank _ n] Some by (fastforce simp: next_hidden_def hideable_def)
      from 1 [OF True Some] obtain P where "hide_loop available widths (filter (\<lambda>i. i \<noteq> n) shown) = filter (\<lambda>i. i \<noteq> n \<and> P i) shown"
        "\<forall>i. \<not> hideable i \<longrightarrow> P i"
        "total_width (filter (\<lambda>i. i \<noteq> n \<and> P i) shown) widths \<le> available \<or> (\<forall>i \<in> set (filter (\<lambda>i. i \<noteq> n \<and> P i) shown). \<not> hideable i)"
        by auto
      with True Some n show ?thesis
        by (intro exI [of _ "\<lambda>i. i \<noteq> n \<and> P i"]) (auto simp: hide_loop.simps [of available widths shown])
    qed
  qed
qed

definition in_range :: "nat list \<Rightarrow> nat list \<Rightarrow> bool" where
  "in_range shown widths \<longleftrightarrow> (\<forall>i \<in> set shown. col_min (COLUMNS ! i) \<le> widths ! i \<and> widths ! i \<le> col_max (COLUMNS ! i))"

lemma shrink_result:
  assumes "distinct shown" and "\<forall>i \<in> set shown. i < length widths" and "in_range shown widths"
  shows "in_range shown (shrink_loop available shown widths) \<and> length (shrink_loop available shown widths) = length widths \<and>
    (\<forall>i. \<not> growable i \<longrightarrow> shrink_loop available shown widths ! i = widths ! i) \<and>
    (if total_width shown widths \<le> available then shrink_loop available shown widths = widths
     else available \<le> total_width shown (shrink_loop available shown widths) \<and>
       (total_width shown (shrink_loop available shown widths) = available \<or>
        (\<forall>i \<in> set shown. growable i \<longrightarrow> shrink_loop available shown widths ! i = col_min (COLUMNS ! i))))"
  using assms
proof (induction available shown widths rule: shrink_loop.induct)
  case (1 available shown widths)
  show ?case
  proof (cases "available < total_width shown widths")
    case False
    then show ?thesis using 1(4) by (simp add: shrink_loop.simps)
  next
    case True
    show ?thesis
    proof (cases "next_shrunk shown widths")
      case None
      with True 1(4) show ?thesis
        by (simp add: shrink_loop.simps next_shrunk_def filter_empty_conv growable_def in_range_def not_less) (fastforce intro: le_antisym)
    next
      case (Some n)
      then have n: "n \<in> set shown" "growable n" "col_min (COLUMNS ! n) < widths ! n"
        using max_by_key_in by (fastforce simp: next_shrunk_def growable_def)+
      with 1(3) have len: "n < length widths" by simp
      let ?w = "widths[n := widths ! n - 1]"
      have r: "shrink_loop available shown widths = shrink_loop available shown ?w"
        using True Some len by (simp add: shrink_loop.simps [of available shown widths])
      have range: "in_range shown ?w" using 1(4) n len by (auto simp: in_range_def nth_list_update)
      have t: "total_width shown ?w + 1 = total_width shown widths"
        using total_update [OF 1(2) n(1) len, of "widths ! n - 1"] n(3) by simp
      have u: "\<not> growable i \<Longrightarrow> ?w ! i = widths ! i" for i using n(2) by (metis nth_list_update_neq)
      from 1(1) [OF True Some len 1(2) _ range] 1(3) True t u show ?thesis
        unfolding r by (auto split: if_splits)
    qed
  qed
qed

lemma grow_result:
  assumes "distinct shown" and "\<forall>i \<in> set shown. i < length widths" and "in_range shown widths"
  shows "in_range shown (grow_loop available shown widths) \<and> length (grow_loop available shown widths) = length widths \<and>
    (\<forall>i. \<not> growable i \<longrightarrow> grow_loop available shown widths ! i = widths ! i) \<and>
    (if available \<le> total_width shown widths then grow_loop available shown widths = widths
     else total_width shown (grow_loop available shown widths) \<le> available \<and>
       (total_width shown (grow_loop available shown widths) = available \<or>
        (\<forall>i \<in> set shown. growable i \<longrightarrow> grow_loop available shown widths ! i = col_max (COLUMNS ! i))))"
  using assms
proof (induction available shown widths rule: grow_loop.induct)
  case (1 available shown widths)
  show ?case
  proof (cases "total_width shown widths < available")
    case False
    then show ?thesis using 1(4) by (simp add: grow_loop.simps)
  next
    case True
    show ?thesis
    proof (cases "next_grown shown widths")
      case None
      with True 1(4) show ?thesis
        by (simp add: grow_loop.simps next_grown_def filter_empty_conv growable_def in_range_def not_less) (fastforce intro: le_antisym)
    next
      case (Some n)
      then have n: "n \<in> set shown" "growable n" "widths ! n < col_max (COLUMNS ! n)"
        using min_by_key_in by (fastforce simp: next_grown_def growable_def)+
      with 1(3) have len: "n < length widths" by simp
      let ?w = "widths[n := widths ! n + 1]"
      have r: "grow_loop available shown widths = grow_loop available shown ?w"
        using True Some len by (simp add: grow_loop.simps [of available shown widths])
      have range: "in_range shown ?w" using 1(4) n len by (auto simp: in_range_def nth_list_update)
      have t: "total_width shown ?w = total_width shown widths + 1"
        using total_update [OF 1(2) n(1) len, of "widths ! n + 1"] by simp
      have u: "\<not> growable i \<Longrightarrow> ?w ! i = widths ! i" for i using n(2) by (metis nth_list_update_neq)
      from 1(1) [OF True Some len 1(2) _ range] 1(3) True t u show ?thesis
        unfolding r by (auto split: if_splits)
    qed
  qed
qed

lemma preferred_ok: "length (preferred_widths rows) = length COLUMNS" "in_range [0..<length COLUMNS] (preferred_widths rows)"
proof -
  have o: "ORDINAL_MIN \<le> ordinal_width rows" "ordinal_width rows \<le> ORDINAL_MAX"
    by (simp_all add: ordinal_width_def ORDINAL_MIN_def ORDINAL_MAX_def)
  show "length (preferred_widths rows) = length COLUMNS" by (simp add: preferred_widths_def)
  have "list_all (\<lambda>c. col_min c \<le> (case col_source c of Ordinal \<Rightarrow> ordinal_width rows | Cell _ \<Rightarrow> col_preferred c) \<and>
      (case col_source c of Ordinal \<Rightarrow> ordinal_width rows | Cell _ \<Rightarrow> col_preferred c) \<le> col_max c) COLUMNS"
    using o by (simp add: COLUMNS_def mk_column_def)
  then show "in_range [0..<length COLUMNS] (preferred_widths rows)"
    by (auto simp: in_range_def preferred_widths_def list_all_length)
qed

definition table_width :: "(nat \<times> nat) list \<Rightarrow> nat" where
  "table_width r = sum_list (map snd r) + COLUMN_SPACING * (length r - 1)"

lemma always_shown: "filter (\<lambda>i. \<not> hideable i) [0..<length COLUMNS] = [0, 1, 2, 3, 4, 7]"
  by (simp add: hideable_def COLUMNS_def mk_column_def upt_rec)

lemma preferred_nth: "preferred_widths rows ! 0 \<le> 6" "preferred_widths rows ! 4 = 4" "preferred_widths rows ! 7 = 8"
  by (simp_all add: preferred_widths_def COLUMNS_def mk_column_def ordinal_width_def ORDINAL_MIN_def ORDINAL_MAX_def)

lemma squeezed_width:
  assumes "\<forall>i. \<not> growable i \<longrightarrow> w ! i = preferred_widths rows ! i"
    and "\<forall>i \<in> {0, 1, 2, 3, 4, 7}. growable i \<longrightarrow> w ! i = col_min (COLUMNS ! i)"
  shows "total_width [0, 1, 2, 3, 4, 7] w \<le> 47"
proof -
  have g: "\<not> growable 0" "\<not> growable 4" "\<not> growable 7" "growable 1" "growable 2" "growable 3"
    by (simp_all add: growable_def COLUMNS_def mk_column_def)
  have m: "col_min (COLUMNS ! 1) = 15" "col_min (COLUMNS ! 2) = 5" "col_min (COLUMNS ! 3) = 4"
    by (simp_all add: COLUMNS_def mk_column_def)
  have "w ! 0 \<le> 6" "w ! 4 = 4" "w ! 7 = 8" "w ! 1 = 15" "w ! 2 = 5" "w ! 3 = 4"
    using assms preferred_nth [of rows] g m by simp_all
  then show ?thesis by (simp add: total_width_def COLUMN_SPACING_def)
qed

text \<open>C24: The columns of the table fill the width of the terminal: they keep their order, every column
  that may not be hidden is there, each width stays within the bounds of its column, and the
  widths with the gaps sum to the available cells, unless every column that may grow is at its
  maximum, or nothing is left to hide or to shrink; from the smallest supported terminal on
  the table is never too wide.\<close>

theorem fit_columns_fills:
  "subseq (map fst (fit_columns available rows)) [0..<length COLUMNS] \<and>
   {i. i < length COLUMNS \<and> \<not> hideable i} \<subseteq> set (map fst (fit_columns available rows)) \<and>
   list_all (\<lambda>(i, w). col_min (COLUMNS ! i) \<le> w \<and> w \<le> col_max (COLUMNS ! i)) (fit_columns available rows) \<and>
   (table_width (fit_columns available rows) = available \<or>
    table_width (fit_columns available rows) < available \<and>
      list_all (\<lambda>(i, w). growable i \<longrightarrow> w = col_max (COLUMNS ! i)) (fit_columns available rows) \<or>
    available < table_width (fit_columns available rows) \<and> available < MIN_WIDTH \<and>
      list_all (\<lambda>(i, w). \<not> hideable i \<and> (growable i \<longrightarrow> w = col_min (COLUMNS ! i))) (fit_columns available rows))"
proof -
  let ?pref = "preferred_widths rows"
  obtain P where P: "hide_loop available ?pref [0..<length COLUMNS] = filter P [0..<length COLUMNS]" "\<forall>i. \<not> hideable i \<longrightarrow> P i"
    "total_width (filter P [0..<length COLUMNS]) ?pref \<le> available \<or> (\<forall>i \<in> set (filter P [0..<length COLUMNS]). \<not> hideable i)"
    using hide_result [of available ?pref "[0..<length COLUMNS]"] by blast
  define shown where "shown = filter P [0..<length COLUMNS]"
  let ?shrunk = "shrink_loop available shown ?pref"
  let ?grown = "grow_loop available shown ?shrunk"
  have s: "distinct shown" "\<forall>i \<in> set shown. i < length ?pref" "in_range shown ?pref"
    using preferred_ok [of rows] by (auto simp: shown_def in_range_def)
  note w1 = shrink_result [OF s, of available]
  have s1: "\<forall>i \<in> set shown. i < length ?shrunk" "in_range shown ?shrunk" using w1 s(2) by auto
  note w = grow_result [OF s(1) s1, of available]
  have r: "fit_columns available rows = map (\<lambda>i. (i, ?grown ! i)) shown" by (simp add: fit_columns_def P(1) shown_def Let_def)
  have t: "table_width (fit_columns available rows) = total_width shown ?grown"
    by (simp add: r table_width_def total_width_def comp_def)
  have narrow: "available < MIN_WIDTH \<and> (\<forall>i \<in> set shown. \<not> hideable i \<and> (growable i \<longrightarrow> ?grown ! i = col_min (COLUMNS ! i)))"
    if "available < total_width shown ?grown"
  proof -
    have eq: "?grown = ?shrunk" using w that by (auto split: if_splits)
    then have big: "\<not> total_width shown ?pref \<le> available" using w1 that by (auto split: if_splits)
    then have nh: "\<forall>i \<in> set shown. \<not> hideable i" using P(3) by (auto simp: shown_def)
    have mins: "\<forall>i \<in> set shown. growable i \<longrightarrow> ?grown ! i = col_min (COLUMNS ! i)" using w1 that big eq by auto
    have "shown = filter (\<lambda>i. \<not> hideable i) [0..<length COLUMNS]"
      using nh P(2) by (auto simp: shown_def intro: filter_cong)
    then have sh: "shown = [0, 1, 2, 3, 4, 7]" by (simp only: always_shown)
    have "total_width shown ?grown \<le> 47" unfolding sh
      by (rule squeezed_width [of _ rows]) (use w w1 mins sh in auto)
    with that nh mins show ?thesis by (simp add: MIN_WIDTH_def)
  qed
  have wide: "\<forall>i \<in> set shown. growable i \<longrightarrow> ?grown ! i = col_max (COLUMNS ! i)" if "total_width shown ?grown < available"
    using w that by (auto split: if_splits)
  have f: "map fst (fit_columns available rows) = shown" by (simp add: r comp_def)
  have l: "list_all (\<lambda>(i, w). Q i w) (fit_columns available rows) \<longleftrightarrow> (\<forall>i \<in> set shown. Q i (?grown ! i))" for Q
    by (simp add: r list_all_iff)
  have "in_range shown ?grown" using w by blast
  then have c3: "list_all (\<lambda>(i, w). col_min (COLUMNS ! i) \<le> w \<and> w \<le> col_max (COLUMNS ! i)) (fit_columns available rows)"
    by (simp add: l in_range_def)
  have c1: "subseq shown [0..<length COLUMNS]" by (simp add: shown_def)
  have c2: "{i. i < length COLUMNS \<and> \<not> hideable i} \<subseteq> set shown" using P(2) by (auto simp: shown_def)
  have c4: "total_width shown ?grown = available \<or>
     total_width shown ?grown < available \<and> list_all (\<lambda>(i, w). growable i \<longrightarrow> w = col_max (COLUMNS ! i)) (fit_columns available rows) \<or>
     available < total_width shown ?grown \<and> available < MIN_WIDTH \<and>
       list_all (\<lambda>(i, w). \<not> hideable i \<and> (growable i \<longrightarrow> w = col_min (COLUMNS ! i))) (fit_columns available rows)"
    unfolding l using narrow wide linorder_less_linear by blast
  from c1 c2 c3 c4 show ?thesis unfolding t f by blast
qed

theorem fit_columns_fills_witness:
  "subseq (map fst (fit_columns 80 5)) [0..<length COLUMNS] \<and> fit_columns 80 5 =
     [(0, 2), (1, 23), (2, 14), (3, 6), (4, 4), (5, 12), (7, 8), (8, 4)]"
proof
  show "subseq (map fst (fit_columns 80 5)) [0..<length COLUMNS]" using fit_columns_fills [of 80 5] by (rule conjunct1)
  show "fit_columns 80 5 = [(0, 2), (1, 23), (2, 14), (3, 6), (4, 4), (5, 12), (7, 8), (8, 4)]" by code_simp
qed

end
