(* ===== verification/Tui_Keys.thy ===== *)
theory Tui_Keys
  imports Tui_View
begin

text \<open>
  The key table of the terminal interface (\<open>src/cli/tui/event.rs\<close>): which intent a key press means
  on which surface, the hints of the footer and the rows of the help panel. A character is its
  UTF-8 bytes.
\<close>

section \<open>Contexts, intents and keys\<close>

datatype screen = Running | Done

datatype input_purpose = FilterInput | ExportFormat | ExportPath

record key_context =
  kc_screen :: screen
  kc_purpose :: "input_purpose option"
  kc_help :: bool
  kc_confirm :: bool
  kc_pending_g :: bool
  kc_count :: "nat option"

datatype action =
    ToggleHelp | Back | Interrupt | Submit | CancelPrompt | DeleteChar | Text string | PauseToggle | CancelRun
  | SortCycle | OrderToggle | EditFilter | ClearFilter | Export | Rerun | DrillIn | ToggleDetail | PrefixG
  | GotoTop | GotoBottom | Count nat | GotoCount | ScrollUp | ScrollDown | ScrollPageUp | ScrollPageDown
  | ConfirmYes | ConfirmNo

datatype key = Char string | Ctrl string | Up | Down | PageUp | PageDown | Enter | Esc | Backspace | Printable | Digit

datatype scope = Screen_scope | Running_scope | Done_scope | Input_scope | Confirm_scope | Help_scope

definition applies :: "scope \<Rightarrow> key_context \<Rightarrow> bool" where
  "applies s context \<longleftrightarrow>
     (if kc_help context then s = Help_scope
      else if kc_confirm context then s = Confirm_scope
      else (case s of
          Confirm_scope \<Rightarrow> False
        | Help_scope \<Rightarrow> False
        | Input_scope \<Rightarrow> kc_purpose context \<noteq> None
        | Screen_scope \<Rightarrow> kc_purpose context = None
        | Running_scope \<Rightarrow> kc_purpose context = None \<and> kc_screen context = Running
        | Done_scope \<Rightarrow> kc_purpose context = None \<and> kc_screen context = Done))"

record binding =
  bd_keys :: "key list"
  bd_keys_label :: string
  bd_action :: action
  bd_label :: string
  bd_detail :: string
  bd_scope :: scope
  bd_hint :: bool

definition row :: "key list \<Rightarrow> string \<Rightarrow> action \<Rightarrow> string \<Rightarrow> string \<Rightarrow> scope \<Rightarrow> bool \<Rightarrow> binding" where
  "row keys keys_label a label detail s hint =
     \<lparr>bd_keys = keys, bd_keys_label = keys_label, bd_action = a, bd_label = label, bd_detail = detail, bd_scope = s,
      bd_hint = hint\<rparr>"

definition TEXT_ANY :: action where
  "TEXT_ANY = Text [char_of (0 :: nat)]"

definition COUNT_ANY :: action where
  "COUNT_ANY = Count 0"

definition MAX_HINTS :: nat where
  "MAX_HINTS = 5"

definition arrow_up :: string where
  "arrow_up = [char_of (226 :: nat), char_of (134 :: nat), char_of (145 :: nat)]"

definition arrow_down :: string where
  "arrow_down = [char_of (226 :: nat), char_of (134 :: nat), char_of (147 :: nat)]"

definition KEYMAP :: "binding list" where
  "KEYMAP =
     [row [Char ''?''] ''?'' ToggleHelp ''help'' ''open this key table'' Screen_scope False,
      row [Esc] ''esc'' Back ''back'' ''close the drill-down, then leave'' Screen_scope False,
      row [Up, Char ''k''] (arrow_up @ ''/k'') ScrollUp ''up'' ''move up one row'' Screen_scope False,
      row [Down, Char ''j''] (arrow_down @ ''/j'') ScrollDown ''down'' ''move down one row'' Screen_scope False,
      row [PageUp] ''pgup'' ScrollPageUp ''page up'' ''move up one page'' Screen_scope False,
      row [PageDown] ''pgdn'' ScrollPageDown ''page down'' ''move down one page'' Screen_scope False,
      row [Char ''g''] ''gg/{n}G'' PrefixG ''top / row n'' ''top of the list, or row n'' Screen_scope False,
      row [Char ''G''] ''G'' GotoBottom ''bottom'' ''bottom of the list'' Screen_scope False,
      row [Digit] ''1-9'' COUNT_ANY ''then G: row n'' ''digits, then G: go to that row'' Screen_scope False,
      row [Char ''p''] ''p'' PauseToggle ''pause'' ''pause or resume probing'' Running_scope True,
      row [Char ''c''] ''c'' CancelRun ''cancel'' ''cancel the run, after asking'' Running_scope True,
      row [Char ''s''] ''s'' SortCycle ''sort'' ''cycle the sort key'' Screen_scope True,
      row [Char ''/''] ''/'' EditFilter ''filter'' ''live-filter rows (smart-case); Esc restores'' Screen_scope True,
      row [Char ''e''] ''e'' Export ''export'' ''export the visible rows'' Screen_scope True,
      row [Char ''d''] ''d'' ToggleDetail ''detail'' ''open or close the drill-down'' Screen_scope True,
      row [Enter] ''enter'' DrillIn ''open'' ''open the drill-down'' Screen_scope False,
      row [Char ''S''] ''S'' OrderToggle ''order'' ''reverse the sort order'' Screen_scope False,
      row [Char ''x''] ''x'' ClearFilter ''clear filter'' ''clear the filter'' Screen_scope False,
      row [Char ''r''] ''r'' Rerun ''re-run'' ''run again with the same options'' Done_scope True,
      row [Enter] ''enter'' Submit ''submit'' ''submit the prompt'' Input_scope False,
      row [Up] ''up'' ScrollUp ''up'' ''choose the previous export format'' Input_scope False,
      row [Down] ''down'' ScrollDown ''down'' ''choose the next export format'' Input_scope False,
      row [Esc] ''esc'' CancelPrompt ''cancel'' ''abandon the prompt'' Input_scope True,
      row [Backspace] ''backspace'' DeleteChar ''delete'' ''delete one character'' Input_scope False,
      row [Printable] ''text'' TEXT_ANY ''type'' ''type text; digits type here too'' Input_scope False,
      row [Char ''y'', Char ''Y''] ''y'' ConfirmYes ''yes'' ''yes, go ahead'' Confirm_scope True,
      row [Char ''n'', Char ''N''] ''n'' ConfirmNo ''no'' ''no; any other key declines'' Confirm_scope True,
      row [Esc, Char ''?''] ''esc'' ToggleHelp ''close'' ''close this help'' Help_scope True,
      row [Down, Char ''j'', PageDown] (arrow_down @ ''/j'') ScrollDown ''scroll'' ''scroll down'' Help_scope True,
      row [Up, Char ''k'', PageUp] (arrow_up @ ''/k'') ScrollUp ''scroll'' ''scroll back up'' Help_scope False]"

section \<open>From a key event to an intent\<close>

datatype key_kind = Press | Repeat | Release

datatype key_code = CharCode string | UpCode | DownCode | PageUpCode | PageDownCode | EnterCode | EscCode | BackspaceCode | OtherCode

record key_event =
  ke_code :: key_code
  ke_kind :: key_kind
  ke_control :: bool
  ke_alt :: bool
  ke_super :: bool
  ke_meta :: bool

text \<open>\<open>char::is_control\<close>.\<close>

definition is_control :: "string \<Rightarrow> bool" where
  "is_control c \<longleftrightarrow>
     (case c of
        [b] \<Rightarrow> byte b < 32 \<or> byte b = 127
      | [b, d] \<Rightarrow> byte b = 194 \<and> byte d < 160
      | _ \<Rightarrow> False)"

definition resolve_key :: "key_event \<Rightarrow> key option" where
  "resolve_key e =
     (if ke_kind e \<noteq> Press then None
      else if ke_control e then (case ke_code e of CharCode c \<Rightarrow> Some (Ctrl (lower c)) | _ \<Rightarrow> None)
      else if ke_alt e \<or> ke_super e \<or> ke_meta e then None
      else (case ke_code e of
          CharCode c \<Rightarrow> (if is_control c then None else Some (Char c))
        | UpCode \<Rightarrow> Some Up
        | DownCode \<Rightarrow> Some Down
        | PageUpCode \<Rightarrow> Some PageUp
        | PageDownCode \<Rightarrow> Some PageDown
        | EnterCode \<Rightarrow> Some Enter
        | EscCode \<Rightarrow> Some Esc
        | BackspaceCode \<Rightarrow> Some Backspace
        | OtherCode \<Rightarrow> None))"

text \<open>The value of an ASCII digit.\<close>

definition char_digit :: "string \<Rightarrow> nat option" where
  "char_digit c = (case c of [b] \<Rightarrow> (if is_digit b then Some (byte b - 48) else None) | _ \<Rightarrow> None)"

definition key_matches :: "binding \<Rightarrow> key \<Rightarrow> bool" where
  "key_matches b pressed =
     list_ex (\<lambda>candidate. case candidate of
        Printable \<Rightarrow> (case pressed of Char _ \<Rightarrow> True | _ \<Rightarrow> False)
      | Digit \<Rightarrow> (case pressed of Char c \<Rightarrow> char_digit c \<noteq> None | _ \<Rightarrow> False)
      | _ \<Rightarrow> candidate = pressed) (bd_keys b)"

definition digit_of :: "key \<Rightarrow> nat option" where
  "digit_of pressed = (case pressed of Char c \<Rightarrow> char_digit c | _ \<Rightarrow> None)"

definition binding_for :: "key \<Rightarrow> key_context \<Rightarrow> binding option" where
  "binding_for pressed context = List.find (\<lambda>b. applies (bd_scope b) context \<and> key_matches b pressed) KEYMAP"

definition action_for_key :: "key \<Rightarrow> key_context \<Rightarrow> action option" where
  "action_for_key pressed context =
     (if pressed = Ctrl ''c'' then Some Interrupt
      else if kc_confirm context then
        Some (if pressed = Char ''y'' \<or> pressed = Char ''Y'' then ConfirmYes else ConfirmNo)
      else if kc_help context then
        Some (case binding_for pressed context of Some b \<Rightarrow> bd_action b | None \<Rightarrow> ToggleHelp)
      else if kc_count context \<noteq> None \<and> pressed = Char ''G'' then Some GotoCount
      else if kc_pending_g context \<and> pressed = Char ''g'' then
        Some (if kc_count context \<noteq> None then GotoCount else GotoTop)
      else (case binding_for pressed context of
          None \<Rightarrow> None
        | Some b \<Rightarrow>
            (if bd_action b = TEXT_ANY then (case pressed of Char c \<Rightarrow> Some (Text c) | _ \<Rightarrow> None)
             else if bd_action b = COUNT_ANY then map_option Count (digit_of pressed)
             else Some (bd_action b))))"

definition action_for :: "key_event \<Rightarrow> key_context \<Rightarrow> action option" where
  "action_for e context = (case resolve_key e of None \<Rightarrow> None | Some pressed \<Rightarrow> action_for_key pressed context)"

section \<open>Hints and help\<close>

definition hints :: "key_context \<Rightarrow> (string \<times> string) list" where
  "hints context =
     (if kc_count context \<noteq> None then []
      else map (\<lambda>b. (bd_keys_label b, bd_label b))
        (take MAX_HINTS (filter (\<lambda>b. bd_hint b \<and> applies (bd_scope b) context) KEYMAP)))"

definition count_hint :: "key_context \<Rightarrow> (string \<times> string) option" where
  "count_hint context = map_option (\<lambda>n. (show_nat n, ''G go to row'')) (kc_count context)"

definition HELP_GROUPS :: "(string \<times> string) list" where
  "HELP_GROUPS =
     [(''both screens'', ''screen''), (''while running'', ''running''), (''when done'', ''done''),
      (''in a prompt'', ''input''), (''in a confirmation'', ''confirm''), (''in this help'', ''help'')]"

definition scope_of :: "string \<Rightarrow> scope option" where
  "scope_of name =
     (if name = ''screen'' then Some Screen_scope
      else if name = ''running'' then Some Running_scope
      else if name = ''done'' then Some Done_scope
      else if name = ''input'' then Some Input_scope
      else if name = ''confirm'' then Some Confirm_scope
      else if name = ''help'' then Some Help_scope
      else None)"

definition bindings_on :: "string \<Rightarrow> (string \<times> string) list" where
  "bindings_on name =
     (case scope_of name of
        None \<Rightarrow> []
      | Some s \<Rightarrow> map (\<lambda>b. (bd_keys_label b, bd_detail b)) (filter (\<lambda>b. bd_scope b = s) KEYMAP))"

section \<open>The table is complete\<close>

definition ctx :: "screen \<Rightarrow> input_purpose option \<Rightarrow> bool \<Rightarrow> bool \<Rightarrow> key_context" where
  "ctx s purpose help confirm =
     \<lparr>kc_screen = s, kc_purpose = purpose, kc_help = help, kc_confirm = confirm, kc_pending_g = False, kc_count = None\<rparr>"

text \<open>For each row a press and a surface that reach it.\<close>

definition reaching :: "binding \<Rightarrow> key \<times> key_context" where
  "reaching b =
     ((case bd_keys b of Printable # _ \<Rightarrow> Char ''a'' | Digit # _ \<Rightarrow> Char ''7'' | k # _ \<Rightarrow> k | [] \<Rightarrow> Esc),
      (case bd_scope b of
         Screen_scope \<Rightarrow> ctx Running None False False
       | Running_scope \<Rightarrow> ctx Running None False False
       | Done_scope \<Rightarrow> ctx Done None False False
       | Input_scope \<Rightarrow> ctx Running (Some FilterInput) False False
       | Confirm_scope \<Rightarrow> ctx Running None False True
       | Help_scope \<Rightarrow> ctx Running None True False))"

lemma rows_reached: "list_all (\<lambda>b. binding_for (fst (reaching b)) (snd (reaching b)) = Some b) KEYMAP"
  by code_simp

lemma help_rows:
  "concat (map (\<lambda>(_, name). bindings_on name) HELP_GROUPS) =
     concat (map (\<lambda>s. map (\<lambda>b. (bd_keys_label b, bd_detail b)) (filter (\<lambda>b. bd_scope b = s) KEYMAP))
       [Screen_scope, Running_scope, Done_scope, Input_scope, Confirm_scope, Help_scope])"
  by (simp add: HELP_GROUPS_def bindings_on_def scope_of_def)

lemma mset_by_scope:
  "mset (concat (map (\<lambda>s. map f (filter (\<lambda>b. bd_scope b = s) bs))
     [Screen_scope, Running_scope, Done_scope, Input_scope, Confirm_scope, Help_scope])) = mset (map f bs)"
  by (induction bs) (auto split: scope.split, (metis scope.exhaust)+)

lemma length_KEYMAP: "length KEYMAP = 30"
  by (simp add: KEYMAP_def)

text \<open>No row of the key table is shadowed by an earlier one on the surface it is for, and the
  help panel prints every row once and nothing else.\<close>

theorem keymap_complete:
  "(\<forall>i < length KEYMAP. \<exists>pressed context. binding_for pressed context = Some (KEYMAP ! i)) \<and>
   mset (concat (map (\<lambda>(_, name). bindings_on name) HELP_GROUPS)) = mset (map (\<lambda>b. (bd_keys_label b, bd_detail b)) KEYMAP)"
proof
  show "\<forall>i < length KEYMAP. \<exists>pressed context. binding_for pressed context = Some (KEYMAP ! i)"
    using rows_reached unfolding list_all_length by blast
  show "mset (concat (map (\<lambda>(_, name). bindings_on name) HELP_GROUPS)) = mset (map (\<lambda>b. (bd_keys_label b, bd_detail b)) KEYMAP)"
    unfolding help_rows by (rule mset_by_scope)
qed

theorem keymap_complete_witness:
  "\<exists>pressed context. binding_for pressed context = Some (KEYMAP ! 24)"
  using spec [OF conjunct1 [OF keymap_complete], of 24] by (simp add: length_KEYMAP)

lemma find_filter: "List.find (\<lambda>b. P b \<and> Q b) xs = List.find Q (filter P xs)"
  by (induction xs) auto

lemma input_rows: "map (\<lambda>b. (bd_keys b, bd_action b)) (filter (\<lambda>b. bd_scope b = Input_scope) KEYMAP) =
  [([Enter], Submit), ([Up], ScrollUp), ([Down], ScrollDown), ([Esc], CancelPrompt), ([Backspace], DeleteChar), ([Printable], TEXT_ANY)]"
  by code_simp

lemma find_map: "List.find P (map f xs) = map_option f (List.find (\<lambda>b. P (f b)) xs)"
  by (induction xs) auto

lemma prompt_takes_text:
  assumes "kc_purpose context \<noteq> None" and "\<not> kc_help context" and "\<not> kc_confirm context"
    and "kc_count context = None" and "\<not> kc_pending_g context"
  shows "action_for_key (Char c) context = Some (Text c)"
proof -
  have a: "applies s context = (s = Input_scope)" for s using assms by (cases s) (auto simp: applies_def)
  let ?m = "\<lambda>(keys, a). key_matches \<lparr>bd_keys = keys, bd_keys_label = [], bd_action = a, bd_label = [], bd_detail = [], bd_scope = Input_scope, bd_hint = False\<rparr> (Char c)"
  have b: "binding_for (Char c) context = List.find (\<lambda>b. ?m (bd_keys b, bd_action b)) (filter (\<lambda>b. bd_scope b = Input_scope) KEYMAP)"
    by (simp add: binding_for_def a find_filter key_matches_def)
  have f: "List.find ?m (map (\<lambda>b. (bd_keys b, bd_action b)) (filter (\<lambda>b. bd_scope b = Input_scope) KEYMAP)) = Some ([Printable], TEXT_ANY)"
    unfolding input_rows by (simp add: key_matches_def)
  have "map_option (\<lambda>b. (bd_keys b, bd_action b)) (binding_for (Char c) context) = Some ([Printable], TEXT_ANY)"
    unfolding b using f unfolding find_map .
  then show ?thesis using assms by (auto simp: action_for_key_def)
qed

lemma control_c_interrupts:
  "ke_kind e = Press \<Longrightarrow> ke_control e \<Longrightarrow> ke_code e = CharCode ''c'' \<Longrightarrow> action_for e context = Some Interrupt"
  by (simp add: action_for_def resolve_key_def action_for_key_def lower_def lower_char_def)

end
