(* ===== verification/Tui_App.thy ===== *)
theory Tui_App
  imports Tui_Keys Cli_Config
begin

text \<open>
  The state of the terminal interface and its transitions (\<open>src/cli/tui/app.rs\<close>): the handling of an
  intent, of an event of the engine and of a tick. What the code does outside its state (start
  and abort a run, toggle its pause, write an export) is a list of effects. Instants are
  nanoseconds; the clock, the existence of a file and the progress of the live run are arguments.
\<close>

section \<open>State\<close>

definition MAX_RESULTS :: nat where "MAX_RESULTS = 20000"

definition MAX_FAILURE_LOG :: nat where "MAX_FAILURE_LOG = 64"

definition PAGE_ROWS :: nat where "PAGE_ROWS = 10"

definition RATE_SAMPLE_NANOS :: nat where "RATE_SAMPLE_NANOS = 500000000"

definition MESSAGE_TTL :: nat where "MESSAGE_TTL = 6000000000"

definition EXPORT_FORMATS :: "string list" where
  "EXPORT_FORMATS =
     [''default'', ''text'', ''json'', ''pretty-json'', ''json-lines'', ''csv'', ''prefix'', ''proxychains'']"

datatype message_kind = Info | Warning | Error

record status_message =
  mg_text :: string
  mg_kind :: message_kind
  mg_shown_at :: nat

record input_box =
  ib_purpose :: input_purpose
  ib_buffer :: string
  ib_original :: string
  ib_options :: "string list"
  ib_selected :: nat

datatype confirm_kind = OverwriteExport string | Cancel_run

record confirm =
  cf_question :: string
  cf_kind :: confirm_kind

record run_spec =
  sp_fetcher :: fetcher_args
  sp_validator :: "validator_args option"
  sp_output :: output_options

record run_summary =
  sm_gathered :: nat
  sm_valid :: nat
  sm_failed :: nat
  sm_elapsed :: nat

datatype effect = Spawn nat | Abort nat | TogglePause nat | WriteExport string string "proxy list"

record app =
  ap_screen :: screen
  ap_is_find :: bool
  ap_view :: view_state
  ap_results :: "proxy list"
  ap_rows :: "row_model list"
  ap_visible :: "nat list"
  ap_overflow :: nat
  ap_run :: "nat option"
  ap_summary :: "run_summary option"
  ap_health :: "string option"
  ap_failures :: "string list"
  ap_input :: "input_box option"
  ap_confirm :: "confirm option"
  ap_help :: bool
  ap_help_scroll :: nat
  ap_detail_scroll :: nat
  ap_message :: "status_message option"
  ap_should_quit :: bool
  ap_started :: "nat option"
  ap_finished_at :: "nat option"
  ap_cancelled :: bool
  ap_rate :: real
  ap_pending_g :: bool
  ap_count :: "nat option"
  ap_follow :: bool
  ap_spec :: run_spec
  ap_tx :: bool
  ap_rate_mark :: "(nat \<times> nat) option"
  ap_effects :: "effect list"
  ap_next_run :: nat

record ui_env =
  ue_now :: nat
  ue_exists :: "string \<Rightarrow> bool"
  ue_unicode :: unicode
  ue_live_done :: "nat option"

definition app_new :: "run_spec \<Rightarrow> app" where
  "app_new spec =
     \<lparr>ap_screen = Running, ap_is_find = (sp_validator spec \<noteq> None), ap_view = view_default, ap_results = [], ap_rows = [],
      ap_visible = [], ap_overflow = 0, ap_run = None, ap_summary = None, ap_health = None, ap_failures = [], ap_input = None,
      ap_confirm = None, ap_help = False, ap_help_scroll = 0, ap_detail_scroll = 0, ap_message = None,
      ap_should_quit = False, ap_started = None, ap_finished_at = None, ap_cancelled = False, ap_rate = 0,
      ap_pending_g = False, ap_count = None, ap_follow = True, ap_spec = spec, ap_tx = False, ap_rate_mark = None,
      ap_effects = [], ap_next_run = 0\<rparr>"

definition perform :: "effect list \<Rightarrow> app \<Rightarrow> app" where
  "perform fx a = a\<lparr>ap_effects := ap_effects a @ fx\<rparr>"

text \<open>Assigning the handle drops the old one, which aborts its task.\<close>

definition replace_run :: "nat option \<Rightarrow> app \<Rightarrow> app" where
  "replace_run r a =
     (case ap_run a of None \<Rightarrow> a\<lparr>ap_run := r\<rparr> | Some old \<Rightarrow> perform [Abort old] (a\<lparr>ap_run := r\<rparr>))"

definition spawn_run :: "app \<Rightarrow> app" where
  "spawn_run a =
     (if ap_tx a
      then replace_run (Some (ap_next_run a)) (perform [Spawn (ap_next_run a)] (a\<lparr>ap_next_run := ap_next_run a + 1\<rparr>))
      else replace_run None a)"

definition begin_run :: "ui_env \<Rightarrow> app \<Rightarrow> app" where
  "begin_run env a =
     (spawn_run (a\<lparr>ap_results := [], ap_rows := [], ap_visible := [], ap_overflow := 0, ap_health := None, ap_failures := [],
        ap_summary := None, ap_cancelled := False, ap_rate := 0, ap_rate_mark := None, ap_pending_g := False,
        ap_count := None, ap_finished_at := None, ap_confirm := None, ap_detail_scroll := 0,
        ap_view := reset_position (ap_view a), ap_follow := True, ap_started := Some (ue_now env)\<rparr>))
      \<lparr>ap_screen := Running, ap_message := None\<rparr>"

definition begin_app :: "ui_env \<Rightarrow> app \<Rightarrow> app" where
  "begin_app env a = begin_run env (a\<lparr>ap_tx := True\<rparr>)"

definition mode_label :: "app \<Rightarrow> string" where
  "mode_label a = (if ap_is_find a then ''find'' else ''grab'')"

definition key_context_of :: "app \<Rightarrow> key_context" where
  "key_context_of a =
     \<lparr>kc_screen = ap_screen a, kc_purpose = map_option ib_purpose (ap_input a), kc_help = ap_help a,
      kc_confirm = (ap_confirm a \<noteq> None), kc_pending_g = ap_pending_g a, kc_count = ap_count a\<rparr>"

definition overlay_open :: "app \<Rightarrow> bool" where
  "overlay_open a \<longleftrightarrow> ap_help a \<or> ap_confirm a \<noteq> None \<or> ap_input a \<noteq> None \<or> vs_detail (ap_view a)"

definition select_visible :: "nat \<Rightarrow> app \<Rightarrow> app" where
  "select_visible index a =
     (if index < length (ap_visible a) then a\<lparr>ap_follow := False, ap_view := (ap_view a)\<lparr>vs_selected := index\<rparr>\<rparr> else a)"

definition set_message :: "ui_env \<Rightarrow> string \<Rightarrow> message_kind \<Rightarrow> app \<Rightarrow> app" where
  "set_message env text kind a = a\<lparr>ap_message := Some \<lparr>mg_text = text, mg_kind = kind, mg_shown_at = ue_now env\<rparr>\<rparr>"

definition refresh_visible :: "ui_env \<Rightarrow> app \<Rightarrow> app" where
  "refresh_visible env a = a\<lparr>ap_visible := visible_rows (ue_unicode env) (ap_rows a) (ap_view a)\<rparr>"

definition finish_run :: "ui_env \<Rightarrow> app \<Rightarrow> app" where
  "finish_run env a = a\<lparr>ap_finished_at := Some (ue_now env)\<rparr>"

definition cancel_run :: "ui_env \<Rightarrow> app \<Rightarrow> app" where
  "cancel_run env a =
     set_message env ''cancelled'' Warning
       ((finish_run env (case ap_run a of None \<Rightarrow> a | Some r \<Rightarrow> perform [Abort r] (replace_run None a)))
         \<lparr>ap_cancelled := True, ap_screen := Done\<rparr>)"

definition interrupt :: "ui_env \<Rightarrow> app \<Rightarrow> app" where
  "interrupt env a =
     (if ap_screen a = Running \<and> ap_run a \<noteq> None then cancel_run env (a\<lparr>ap_input := None\<rparr>)
      else a\<lparr>ap_should_quit := True\<rparr>)"

section \<open>Exports\<close>

definition dots :: string where
  "dots = [char_of (226 :: nat), char_of (128 :: nat), char_of (166 :: nat)]"

definition long_dash :: string where
  "long_dash = [char_of (226 :: nat), char_of (128 :: nat), char_of (148 :: nat)]"

definition right_arrow :: string where
  "right_arrow = [char_of (226 :: nat), char_of (134 :: nat), char_of (146 :: nat)]"

text \<open>\<open>Vec::get\<close>.\<close>

definition nth_opt :: "'a list \<Rightarrow> nat \<Rightarrow> 'a option" where
  "nth_opt xs i = (if i < length xs then Some (xs ! i) else None)"

definition spawn_export :: "ui_env \<Rightarrow> string \<Rightarrow> app \<Rightarrow> app" where
  "spawn_export env path a =
     (let proxies = List.map_filter (nth_opt (ap_results a)) (ap_visible a)
      in perform [WriteExport path (oo_format (sp_output (ap_spec a))) proxies]
           (set_message env (''exporting '' @ show_nat (length proxies) @ '' rows '' @ dots) Info a))"

definition request_export :: "ui_env \<Rightarrow> string \<Rightarrow> app \<Rightarrow> app" where
  "request_export env path a =
     (if path = [] then set_message env ''export cancelled: empty path'' Warning a
      else if ue_exists env path
      then a\<lparr>ap_confirm := Some \<lparr>cf_question = path @ '' exists '' @ long_dash @ '' overwrite?'', cf_kind = OverwriteExport path\<rparr>\<rparr>
      else spawn_export env path a)"

definition default_export_path :: "app \<Rightarrow> string" where
  "default_export_path a =
     (let format = oo_format (sp_output (ap_spec a));
          extension = (if format = ''json'' \<or> format = ''pretty-json'' then ''json''
            else if format = ''json-lines'' then ''jsonl''
            else if format = ''csv'' then ''csv''
            else if format = ''pac'' then ''pac''
            else if format = ''proxychains'' then ''conf''
            else ''txt'')
      in mode_label a @ ''.'' @ extension)"

section \<open>Prompts\<close>

definition submit_input :: "ui_env \<Rightarrow> app \<Rightarrow> app" where
  "submit_input env a =
     (case ap_input a of
        None \<Rightarrow> a
      | Some input \<Rightarrow>
          (let a1 = a\<lparr>ap_input := None\<rparr>
           in case ib_purpose input of
                FilterInput \<Rightarrow>
                  refresh_visible env (a1\<lparr>ap_view := reset_position ((ap_view a1)\<lparr>vs_filter := trim (ib_buffer input)\<rparr>), ap_follow := False\<rparr>)
              | ExportFormat \<Rightarrow>
                  (let a2 = a1\<lparr>ap_spec := (ap_spec a1)\<lparr>sp_output := (sp_output (ap_spec a1))\<lparr>oo_format := ib_buffer input\<rparr>\<rparr>\<rparr>
                   in a2\<lparr>ap_input := Some \<lparr>ib_purpose = ExportPath, ib_buffer = default_export_path a2, ib_original = [],
                         ib_options = [], ib_selected = 0\<rparr>\<rparr>)
              | ExportPath \<Rightarrow> request_export env (trim (ib_buffer input)) a1))"

definition refresh_filter_input :: "ui_env \<Rightarrow> app \<Rightarrow> app" where
  "refresh_filter_input env a =
     (case ap_input a of
        None \<Rightarrow> a
      | Some input \<Rightarrow>
          (if ib_purpose input = FilterInput
           then refresh_visible env (a\<lparr>ap_view := reset_position ((ap_view a)\<lparr>vs_filter := ib_buffer input\<rparr>), ap_follow := False\<rparr>)
           else a))"

text \<open>An index out of range would be a panic of \<open>options[selected]\<close>; the invariant below excludes it.\<close>

definition pick_format :: "nat \<Rightarrow> input_box \<Rightarrow> input_box" where
  "pick_format i input = input\<lparr>ib_selected := i, ib_buffer := ib_options input ! i\<rparr>"

definition shift_export_format :: "int \<Rightarrow> app \<Rightarrow> app" where
  "shift_export_format delta a =
     (case ap_input a of
        None \<Rightarrow> a
      | Some input \<Rightarrow>
          (if ib_options input = [] then a
           else a\<lparr>ap_input := Some (pick_format (nat ((int (ib_selected input) + delta) mod int (length (ib_options input)))) input)\<rparr>))"

definition select_export_format :: "nat \<Rightarrow> app \<Rightarrow> app" where
  "select_export_format i a =
     (case ap_input a of
        None \<Rightarrow> a
      | Some input \<Rightarrow> (if i < length (ib_options input) then a\<lparr>ap_input := Some (pick_format i input)\<rparr> else a))"

text \<open>The digit keys of the format prompt: \<open>1\<close> is the first format.\<close>

definition format_digit :: "string \<Rightarrow> nat option" where
  "format_digit c = (case char_digit c of None \<Rightarrow> None | Some d \<Rightarrow> (if d = 0 then None else Some (d - 1)))"

text \<open>\<open>String::pop\<close> removes the last character.\<close>

definition pop_char :: "string \<Rightarrow> string" where
  "pop_char s = concat (butlast (utf8_chars s))"

definition edit_input :: "(string \<Rightarrow> string) \<Rightarrow> app \<Rightarrow> app" where
  "edit_input f a = a\<lparr>ap_input := map_option (\<lambda>i. i\<lparr>ib_buffer := f (ib_buffer i)\<rparr>) (ap_input a)\<rparr>"

definition cancel_input :: "ui_env \<Rightarrow> app \<Rightarrow> app" where
  "cancel_input env a =
     (let original = (case ap_input a of
            None \<Rightarrow> None | Some i \<Rightarrow> (if ib_purpose i = FilterInput then Some (ib_original i) else None));
          a1 = a\<lparr>ap_input := None\<rparr>
      in case original of
           None \<Rightarrow> a1
         | Some f \<Rightarrow> refresh_visible env (a1\<lparr>ap_view := (ap_view a1)\<lparr>vs_filter := f\<rparr>\<rparr>))"

definition handle_typing :: "ui_env \<Rightarrow> action \<Rightarrow> app \<Rightarrow> app" where
  "handle_typing env act a =
     (if map_option ib_purpose (ap_input a) = Some ExportFormat
      then (case act of
          ScrollUp \<Rightarrow> shift_export_format (-1) a
        | ScrollDown \<Rightarrow> shift_export_format 1 a
        | Text c \<Rightarrow>
            (case format_digit c of
               None \<Rightarrow> a
             | Some i \<Rightarrow> (if i < length EXPORT_FORMATS then select_export_format i a else a))
        | Submit \<Rightarrow> submit_input env a
        | CancelPrompt \<Rightarrow> a\<lparr>ap_input := None\<rparr>
        | _ \<Rightarrow> a)
      else (case act of
          Text c \<Rightarrow> refresh_filter_input env (edit_input (\<lambda>s. s @ c) a)
        | DeleteChar \<Rightarrow> refresh_filter_input env (edit_input pop_char a)
        | CancelPrompt \<Rightarrow> cancel_input env a
        | Submit \<Rightarrow> submit_input env a
        | _ \<Rightarrow> a))"

section \<open>Overlays\<close>

definition U16_MAX :: nat where "U16_MAX = 65535"

definition u16_add :: "nat \<Rightarrow> nat \<Rightarrow> nat" where
  "u16_add x n = min U16_MAX (x + n)"

definition handle_help :: "action \<Rightarrow> app \<Rightarrow> app" where
  "handle_help act a =
     (case act of
        ToggleHelp \<Rightarrow> a\<lparr>ap_help := False\<rparr>
      | ScrollUp \<Rightarrow> a\<lparr>ap_help_scroll := ap_help_scroll a - 1\<rparr>
      | ScrollPageUp \<Rightarrow> a\<lparr>ap_help_scroll := ap_help_scroll a - PAGE_ROWS\<rparr>
      | ScrollDown \<Rightarrow> a\<lparr>ap_help_scroll := u16_add (ap_help_scroll a) 1\<rparr>
      | ScrollPageDown \<Rightarrow> a\<lparr>ap_help_scroll := u16_add (ap_help_scroll a) PAGE_ROWS\<rparr>
      | GotoTop \<Rightarrow> a\<lparr>ap_help_scroll := 0\<rparr>
      | GotoBottom \<Rightarrow> a\<lparr>ap_help_scroll := U16_MAX\<rparr>
      | _ \<Rightarrow> a)"

text \<open>None: the intent is not one of scrolling.\<close>

definition handle_detail_scroll :: "action \<Rightarrow> app \<Rightarrow> app option" where
  "handle_detail_scroll act a =
     (case act of
        ScrollUp \<Rightarrow> Some (a\<lparr>ap_detail_scroll := ap_detail_scroll a - 1\<rparr>)
      | ScrollDown \<Rightarrow> Some (a\<lparr>ap_detail_scroll := u16_add (ap_detail_scroll a) 1\<rparr>)
      | ScrollPageUp \<Rightarrow> Some (a\<lparr>ap_detail_scroll := ap_detail_scroll a - PAGE_ROWS\<rparr>)
      | ScrollPageDown \<Rightarrow> Some (a\<lparr>ap_detail_scroll := u16_add (ap_detail_scroll a) PAGE_ROWS\<rparr>)
      | GotoTop \<Rightarrow> Some (a\<lparr>ap_detail_scroll := 0\<rparr>)
      | GotoBottom \<Rightarrow> Some (a\<lparr>ap_detail_scroll := U16_MAX\<rparr>)
      | _ \<Rightarrow> None)"

definition handle_confirm :: "ui_env \<Rightarrow> action \<Rightarrow> app \<Rightarrow> app" where
  "handle_confirm env act a =
     (case act of
        ConfirmYes \<Rightarrow>
          (case ap_confirm a of
             None \<Rightarrow> a
           | Some c \<Rightarrow>
               (case cf_kind c of
                  Cancel_run \<Rightarrow> cancel_run env (a\<lparr>ap_confirm := None\<rparr>)
                | OverwriteExport path \<Rightarrow> spawn_export env path (a\<lparr>ap_confirm := None\<rparr>)))
      | ConfirmNo \<Rightarrow> a\<lparr>ap_confirm := None\<rparr>
      | Interrupt \<Rightarrow> interrupt env (a\<lparr>ap_confirm := None\<rparr>)
      | _ \<Rightarrow> a)"

section \<open>Browsing\<close>

definition USIZE_MAX :: nat where "USIZE_MAX = 2 ^ 64 - 1"

definition push_count :: "nat \<Rightarrow> app \<Rightarrow> app" where
  "push_count digit a =
     a\<lparr>ap_count := Some (min USIZE_MAX (min USIZE_MAX ((case ap_count a of Some n \<Rightarrow> n | None \<Rightarrow> 0) * 10) + digit))\<rparr>"

definition select_row :: "nat \<Rightarrow> app \<Rightarrow> app" where
  "select_row i a = a\<lparr>ap_view := (ap_view a)\<lparr>vs_selected := i\<rparr>\<rparr>"

definition goto_count :: "nat \<Rightarrow> app \<Rightarrow> app" where
  "goto_count rows a =
     (case ap_count a of
        None \<Rightarrow> a
      | Some n \<Rightarrow> select_row (min (n - 1) (rows - 1)) (a\<lparr>ap_count := None\<rparr>))"

definition open_filter :: "app \<Rightarrow> app" where
  "open_filter a =
     a\<lparr>ap_input := Some \<lparr>ib_purpose = FilterInput, ib_buffer = vs_filter (ap_view a), ib_original = vs_filter (ap_view a),
       ib_options = [], ib_selected = 0\<rparr>\<rparr>"

definition open_export :: "app \<Rightarrow> app" where
  "open_export a =
     (let selected = (case position ((=) (oo_format (sp_output (ap_spec a)))) EXPORT_FORMATS of Some i \<Rightarrow> i | None \<Rightarrow> 0)
      in a\<lparr>ap_input := Some \<lparr>ib_purpose = ExportFormat, ib_buffer = EXPORT_FORMATS ! selected, ib_original = [],
           ib_options = EXPORT_FORMATS, ib_selected = selected\<rparr>\<rparr>)"

text \<open>The intents of the browse surface; \<open>rows\<close> is the number of rows before the intent.\<close>

definition browse :: "ui_env \<Rightarrow> nat \<Rightarrow> action \<Rightarrow> app \<Rightarrow> app" where
  "browse env rows act a =
     (case act of
        Interrupt \<Rightarrow> interrupt env a
      | ToggleHelp \<Rightarrow> a\<lparr>ap_help_scroll := 0, ap_help := True\<rparr>
      | Back \<Rightarrow>
          (if vs_detail (ap_view a) then a\<lparr>ap_view := (ap_view a)\<lparr>vs_detail := False\<rparr>\<rparr>
           else if ap_screen a = Done then a\<lparr>ap_should_quit := True\<rparr> else a)
      | PauseToggle \<Rightarrow> (case ap_run a of Some r \<Rightarrow> perform [TogglePause r] a | None \<Rightarrow> a)
      | CancelRun \<Rightarrow>
          (if ap_screen a = Running \<and> ap_run a \<noteq> None
           then a\<lparr>ap_confirm := Some \<lparr>cf_question = ''cancel the run?'', cf_kind = Cancel_run\<rparr>\<rparr> else a)
      | SortCycle \<Rightarrow> refresh_visible env (a\<lparr>ap_follow := False, ap_view := cycle_sort (ap_view a)\<rparr>)
      | OrderToggle \<Rightarrow> refresh_visible env (a\<lparr>ap_follow := False, ap_view := toggle_order (ap_view a)\<rparr>)
      | EditFilter \<Rightarrow> open_filter a
      | ClearFilter \<Rightarrow> refresh_visible env (a\<lparr>ap_follow := False, ap_view := reset_position ((ap_view a)\<lparr>vs_filter := []\<rparr>)\<rparr>)
      | Export \<Rightarrow> open_export a
      | Rerun \<Rightarrow> begin_run env a
      | DrillIn \<Rightarrow> a\<lparr>ap_view := (ap_view a)\<lparr>vs_detail := True\<rparr>, ap_detail_scroll := 0\<rparr>
      | ToggleDetail \<Rightarrow>
          (let open_now = (\<not> vs_detail (ap_view a))
           in a\<lparr>ap_view := (ap_view a)\<lparr>vs_detail := open_now\<rparr>,
                ap_detail_scroll := (if open_now then 0 else ap_detail_scroll a)\<rparr>)
      | ScrollUp \<Rightarrow> select_row (vs_selected (ap_view a) - 1) a
      | ScrollDown \<Rightarrow> select_row (min USIZE_MAX (vs_selected (ap_view a) + 1)) a
      | ScrollPageUp \<Rightarrow> select_row (vs_selected (ap_view a) - PAGE_ROWS) a
      | ScrollPageDown \<Rightarrow> select_row (min USIZE_MAX (vs_selected (ap_view a) + PAGE_ROWS)) a
      | GotoTop \<Rightarrow> a\<lparr>ap_view := reset_position (ap_view a)\<rparr>
      | GotoBottom \<Rightarrow> select_row (rows - 1) a
      | Count digit \<Rightarrow> push_count digit a
      | GotoCount \<Rightarrow> goto_count rows a
      | _ \<Rightarrow> a)"

definition update_follow :: "nat \<Rightarrow> action \<Rightarrow> app \<Rightarrow> app" where
  "update_follow rows act a =
     (if act \<in> {ScrollUp, ScrollPageUp, GotoTop, GotoCount} then a\<lparr>ap_follow := False\<rparr>
      else if act \<in> {ScrollDown, ScrollPageDown} then a\<lparr>ap_follow := (0 < rows \<and> rows \<le> vs_selected (ap_view a) + 1)\<rparr>
      else if act = GotoBottom then a\<lparr>ap_follow := True\<rparr> else a)"

definition clamp_view :: "nat \<Rightarrow> app \<Rightarrow> app" where
  "clamp_view rows a = a\<lparr>ap_view := clamp_selection rows (ap_view a)\<rparr>"

definition note_action :: "action \<Rightarrow> app \<Rightarrow> app" where
  "note_action act a =
     a\<lparr>ap_pending_g := (act = PrefixG),
       ap_count := (case act of Count _ \<Rightarrow> ap_count a | GotoCount \<Rightarrow> ap_count a | _ \<Rightarrow> None)\<rparr>"

definition handle_browse :: "ui_env \<Rightarrow> action \<Rightarrow> app \<Rightarrow> app" where
  "handle_browse env act a =
     (let rows = length (ap_visible a) in update_follow rows act (clamp_view rows (browse env rows act a)))"

definition handle_action :: "ui_env \<Rightarrow> action \<Rightarrow> app \<Rightarrow> app" where
  "handle_action env act a0 =
     (let a = note_action act a0
      in if ap_confirm a \<noteq> None then handle_confirm env act a
         else if ap_help a then handle_help act a
         else if ap_input a \<noteq> None then handle_typing env act a
         else if vs_detail (ap_view a)
         then (case handle_detail_scroll act a of Some a1 \<Rightarrow> a1 | None \<Rightarrow> handle_browse env act a)
         else handle_browse env act a)"

section \<open>Events of the engine and ticks\<close>

datatype engine_event =
    NewProxy proxy
  | JudgeHealth nat nat
  | PassChanged nat
  | ProbeFailure ipv4 u16 protocol string
  | ExportDone string "string + nat"
  | RunFinished run_summary
  | RunError string

definition end_run :: "ui_env \<Rightarrow> app \<Rightarrow> app" where
  "end_run env a = (replace_run None (finish_run env a))\<lparr>ap_screen := Done\<rparr>"

definition on_engine_event :: "ui_env \<Rightarrow> engine_event \<Rightarrow> app \<Rightarrow> app" where
  "on_engine_event env ev a =
     (case ev of
        NewProxy p \<Rightarrow>
          (if length (ap_results a) < MAX_RESULTS
           then a\<lparr>ap_rows := ap_rows a @ [row_model_new p], ap_results := ap_results a @ [p]\<rparr>
           else a\<lparr>ap_overflow := ap_overflow a + 1\<rparr>)
      | JudgeHealth healthy candidates \<Rightarrow>
          a\<lparr>ap_health := Some (show_nat healthy @ ''/'' @ show_nat candidates @ '' judges healthy'')\<rparr>
      | PassChanged pass \<Rightarrow> set_message env (''validating pass '' @ show_nat pass) Info a
      | ProbeFailure ip port protocol reason \<Rightarrow>
          a\<lparr>ap_failures :=
              (if MAX_FAILURE_LOG \<le> length (ap_failures a) then tl (ap_failures a) else ap_failures a) @
              [show_ipv4 ip @ '':'' @ show_nat (unat port) @ '' '' @ show_protocol protocol @ '' '' @ long_dash @ '' '' @ reason]\<rparr>
      | ExportDone path result \<Rightarrow>
          (case result of
             Inr n \<Rightarrow> set_message env (''exported '' @ show_nat n @ '' rows '' @ right_arrow @ '' '' @ path) Info a
           | Inl e \<Rightarrow> set_message env (''export failed: '' @ e) Error a)
      | RunFinished summary \<Rightarrow> end_run env (a\<lparr>ap_summary := Some summary\<rparr>)
      | RunError text \<Rightarrow> end_run env (set_message env text Error a))"

definition completed_probes :: "ui_env \<Rightarrow> app \<Rightarrow> nat option" where
  "completed_probes env a = (if ap_run a = None then None else ue_live_done env)"

definition update_rate :: "ui_env \<Rightarrow> app \<Rightarrow> app" where
  "update_rate env a =
     (case completed_probes env a of
        None \<Rightarrow> a
      | Some completed \<Rightarrow>
          (case ap_rate_mark a of
             None \<Rightarrow> a\<lparr>ap_rate_mark := Some (ue_now env, completed)\<rparr>
           | Some (mark, previous) \<Rightarrow>
               (if ue_now env - mark < RATE_SAMPLE_NANOS then a
                else a\<lparr>ap_rate := real (completed - previous) / (real (ue_now env - mark) / 1000000000),
                       ap_rate_mark := Some (ue_now env, completed)\<rparr>)))"

definition expire_message :: "ui_env \<Rightarrow> app \<Rightarrow> app" where
  "expire_message env a =
     (case ap_message a of
        None \<Rightarrow> a
      | Some m \<Rightarrow> (if MESSAGE_TTL \<le> ue_now env - mg_shown_at m then a\<lparr>ap_message := None\<rparr> else a))"

definition on_tick :: "ui_env \<Rightarrow> app \<Rightarrow> app" where
  "on_tick env a0 =
     (let a = refresh_visible env (expire_message env a0);
          a1 = (if ap_follow a \<and> ap_screen a = Running \<and> ap_visible a \<noteq> []
                then select_row (length (ap_visible a) - 1) a else clamp_view (length (ap_visible a)) a)
      in update_rate env a1)"

definition selected_proxy :: "app \<Rightarrow> proxy option" where
  "selected_proxy a =
     (case nth_opt (ap_visible a) (vs_selected (ap_view a)) of
        None \<Rightarrow> None | Some i \<Rightarrow> nth_opt (ap_results a) i)"

definition elapsed :: "ui_env \<Rightarrow> app \<Rightarrow> nat" where
  "elapsed env a =
     (case ap_started a of
        None \<Rightarrow> 0
      | Some started \<Rightarrow> (case ap_finished_at a of Some e \<Rightarrow> e | None \<Rightarrow> ue_now env) - started)"

section \<open>The loop\<close>

text \<open>One round: a key press, the wheel or a click of the mouse, an event of the engine, a tick, or
  the end of the input.\<close>

datatype mouse = WheelUp | WheelDown | Click "nat option" | OtherMouse

datatype input_event = KeyPress key_event | Mouse mouse | Engine engine_event | Tick | Terminate

definition handle_mouse :: "ui_env \<Rightarrow> mouse \<Rightarrow> app \<Rightarrow> app" where
  "handle_mouse env m a =
     (if overlay_open a then a
      else (case m of
          WheelUp \<Rightarrow> handle_action env ScrollUp a
        | WheelDown \<Rightarrow> handle_action env ScrollDown a
        | Click hit \<Rightarrow> (case hit of Some index \<Rightarrow> select_visible index a | None \<Rightarrow> a)
        | OtherMouse \<Rightarrow> a))"

definition app_step :: "ui_env \<Rightarrow> input_event \<Rightarrow> app \<Rightarrow> app" where
  "app_step env ev a =
     (case ev of
        KeyPress k \<Rightarrow> (case action_for k (key_context_of a) of Some act \<Rightarrow> handle_action env act a | None \<Rightarrow> a)
      | Mouse m \<Rightarrow> handle_mouse env m a
      | Engine e \<Rightarrow> on_engine_event env e a
      | Tick \<Rightarrow> on_tick env a
      | Terminate \<Rightarrow> a\<lparr>ap_should_quit := True\<rparr>)"

inductive app_reach :: "unicode \<Rightarrow> run_spec \<Rightarrow> app \<Rightarrow> bool" for uc spec where
  start: "app_reach uc spec (begin_app env (app_new spec))"
| step: "app_reach uc spec a \<Longrightarrow> \<not> ap_should_quit a \<Longrightarrow> ue_unicode env = uc \<Longrightarrow> app_reach uc spec (app_step env ev a)"

end
