(* ===== verification/Cli_Output.thy ===== *)
theory Cli_Output
  imports Proxy_Render Cli_Filters Cli_Pipeline Cli_Config
begin

text \<open>
  The writer of \<open>src/cli/output.rs\<close>: the format in effect, the run statistics, the output
  file, and \<open>process_result\<close>, which filters, buffers, sorts, limits and renders the proxies of a
  stream while a cancellation may arrive between any two of them. The destination is a text with
  an oracle that says what becomes of the writes to come.
\<close>

section \<open>The format in effect\<close>

text \<open>\<open>Path::file_name\<close> and \<open>Path::extension\<close>.\<close>

definition path_file_name :: "string \<Rightarrow> string option" where
  "path_file_name path =
     (let parts = filter (\<lambda>c. c \<noteq> [] \<and> c \<noteq> ''.'') (split_by (\<lambda>c. c = CHR ''/'') path)
      in if parts = [] \<or> last parts = ''..'' then None else Some (last parts))"

definition path_extension :: "string \<Rightarrow> string option" where
  "path_extension path =
     (case path_file_name path of
        None \<Rightarrow> None
      | Some name \<Rightarrow> (case rsplit_once CHR ''.'' name of
            None \<Rightarrow> None
          | Some (before, after) \<Rightarrow> (if before = [] then None else Some after)))"

definition effective_format :: "string \<Rightarrow> string option \<Rightarrow> bool \<Rightarrow> string" where
  "effective_format format output_path stdout_is_tty =
     (if format \<noteq> ''default'' then format
      else (case output_path of
          Some path \<Rightarrow>
            (case map_option lower (path_extension path) of
               None \<Rightarrow> format
             | Some ext \<Rightarrow>
                 (if ext = ''json'' then ''json''
                  else if ext = ''jsonl'' \<or> ext = ''ndjson'' then ''json-lines''
                  else if ext = ''csv'' then ''csv''
                  else if ext = ''pac'' then ''pac''
                  else format))
        | None \<Rightarrow> (if stdout_is_tty then format else ''json-lines'')))"

section \<open>Run statistics\<close>

text \<open>A \<open>HashMap\<close> of counters: the entries in some order, no name twice.\<close>

type_synonym counters = "(string \<times> nat) list"

definition count_up :: "string \<Rightarrow> counters \<Rightarrow> counters" where
  "count_up k m =
     (case map_of m k of None \<Rightarrow> m @ [(k, 1)] | Some _ \<Rightarrow> map (\<lambda>(i, n). if i = k then (i, n + 1) else (i, n)) m)"

record run_stats =
  rs_protocols :: counters
  rs_countries :: counters

definition run_stats_new :: run_stats where
  "run_stats_new = \<lparr>rs_protocols = [], rs_countries = []\<rparr>"

fun family_name :: "protocol \<Rightarrow> string" where
  "family_name (Http _) = ''HTTP''"
| "family_name (Https _) = ''HTTPS''"
| "family_name Socks4 = ''SOCKS4''"
| "family_name Socks5 = ''SOCKS5''"
| "family_name (Connect _) = ''CONNECT''"

definition record_stats :: "proxy \<Rightarrow> run_stats \<Rightarrow> run_stats" where
  "record_stats p s =
     \<lparr>rs_protocols =
        foldl (\<lambda>m t. count_up (family_name (protocol_family (pt_protocol t))) m) (rs_protocols s) (proxy_types p),
      rs_countries =
        (case iso_code (px_geo p) of None \<Rightarrow> rs_countries s | Some code \<Rightarrow> count_up code (rs_countries s))\<rparr>"

definition RUN_STATS_TOP_COUNTRIES :: nat where
  "RUN_STATS_TOP_COUNTRIES = 3"

text \<open>Greater counts first, ties by name.\<close>

definition cmp_count :: "string \<times> nat \<Rightarrow> string \<times> nat \<Rightarrow> ordering" where
  "cmp_count a b = (if snd a = snd b then cmp_on fst a b else cmp_on snd b a)"

definition middle_dot :: string where
  "middle_dot = [char_of (194 :: nat), char_of (183 :: nat)]"

definition stats_summary :: "run_stats \<Rightarrow> string option" where
  "stats_summary s =
     (let parts = map (\<lambda>(name, n). name @ '': '' @ show_nat n) (sort_by cmp_count (rs_protocols s));
          counts = sort_by cmp_count (rs_countries s);
          top = map (\<lambda>(iso, n). iso @ '' '' @ show_nat n) (take RUN_STATS_TOP_COUNTRIES counts);
          remainder = length counts - RUN_STATS_TOP_COUNTRIES;
          top = (if 0 < remainder then top @ [CHR ''+'' # show_nat remainder @ '' more''] else top);
          parts = (if counts = [] then parts else parts @ [''top: '' @ join '', '' top])
      in if parts = [] then None else Some (join ('' '' @ middle_dot @ '' '') parts))"

section \<open>The destination\<close>

text \<open>
  What becomes of one write. A failed one leaves a prefix of everything written so far; for a
  file it may be the sentinel of a runtime that shuts down, when the file is reopened, which
  may fail with a text of its own.
\<close>

datatype write_outcome = Written | BrokenPipe nat | Failed nat "string option"

record sink =
  sk_text :: string
  sk_plan :: "write_outcome list"

definition next_write :: "sink \<Rightarrow> write_outcome \<times> write_outcome list" where
  "next_write sk = (case sk_plan sk of [] \<Rightarrow> (Written, []) | w # ws \<Rightarrow> (w, ws))"

datatype write_result = Wrote | Pipe_closed | Write_failed string

definition FILE_WRITE_FAILED :: string where
  "FILE_WRITE_FAILED = ''failed to write proxy to output file''"

definition STDOUT_WRITE_FAILED :: string where
  "STDOUT_WRITE_FAILED = ''failed to write proxy to stdout''"

definition file_write_all :: "string \<Rightarrow> sink \<Rightarrow> write_result \<times> sink" where
  "file_write_all s sk =
     (case next_write sk of
        (Written, ws) \<Rightarrow> (Wrote, \<lparr>sk_text = sk_text sk @ s, sk_plan = ws\<rparr>)
      | (BrokenPipe kept, ws) \<Rightarrow> (Write_failed FILE_WRITE_FAILED, \<lparr>sk_text = take kept (sk_text sk @ s), sk_plan = ws\<rparr>)
      | (Failed kept reopen_error, ws) \<Rightarrow>
          (Write_failed (case reopen_error of None \<Rightarrow> FILE_WRITE_FAILED | Some e \<Rightarrow> e),
           \<lparr>sk_text = take kept (sk_text sk @ s), sk_plan = ws\<rparr>))"

definition stdout_write_all :: "string \<Rightarrow> sink \<Rightarrow> write_result \<times> sink" where
  "stdout_write_all s sk =
     (case next_write sk of
        (Written, ws) \<Rightarrow> (Wrote, \<lparr>sk_text = sk_text sk @ s, sk_plan = ws\<rparr>)
      | (BrokenPipe kept, ws) \<Rightarrow> (Pipe_closed, \<lparr>sk_text = take kept (sk_text sk @ s), sk_plan = ws\<rparr>)
      | (Failed kept _, ws) \<Rightarrow> (Write_failed STDOUT_WRITE_FAILED, \<lparr>sk_text = take kept (sk_text sk @ s), sk_plan = ws\<rparr>))"

definition write_to :: "bool \<Rightarrow> string \<Rightarrow> sink \<Rightarrow> write_result \<times> sink" where
  "write_to to_file s sk = (if to_file then file_write_all s sk else stdout_write_all s sk)"

text \<open>\<open>write_output\<close> knows no closed pipe.\<close>

definition write_output :: "bool \<Rightarrow> string \<Rightarrow> sink \<Rightarrow> string option \<times> sink" where
  "write_output to_file s sk =
     (case write_to to_file s sk of
        (Wrote, sk1) \<Rightarrow> (None, sk1)
      | (Pipe_closed, sk1) \<Rightarrow> (Some STDOUT_WRITE_FAILED, sk1)
      | (Write_failed e, sk1) \<Rightarrow> (Some e, sk1))"

text \<open>Flushing a file reports nothing: if it fails, a prefix is what stays.\<close>

definition file_flush :: "nat option \<Rightarrow> sink \<Rightarrow> sink" where
  "file_flush lost sk = (case lost of None \<Rightarrow> sk | Some kept \<Rightarrow> sk\<lparr>sk_text := take kept (sk_text sk)\<rparr>)"

definition open_output :: "bool \<Rightarrow> string \<Rightarrow> write_outcome list \<Rightarrow> sink" where
  "open_output appending existing plan = \<lparr>sk_text = (if appending then existing else []), sk_plan = plan\<rparr>"

section \<open>Options and environment\<close>

definition filter_options :: "output_options \<Rightarrow> output_filter_options" where
  "filter_options o' =
     \<lparr>opt_min_anonymity = oo_min_anonymity o', opt_levels = oo_levels o',
      opt_min_response_time = oo_min_response_time o', opt_max_response_time = oo_max_response_time o',
      opt_min_score = oo_min_score o', opt_exclude_type = oo_exclude_type o'\<rparr>"

record json_continuation =
  jc_items :: nat
  jc_leave_open :: bool

record finalize_opts =
  fo_suppress_empty_json :: bool
  fo_emit_csv_header :: bool
  fo_continue_json :: "json_continuation option"
  fo_stats :: "run_stats option"
  fo_quotas :: "enforcer option"

definition finalize_default :: finalize_opts where
  "finalize_default =
     \<lparr>fo_suppress_empty_json = False, fo_emit_csv_header = True, fo_continue_json = None, fo_stats = None,
      fo_quotas = None\<rparr>"

text \<open>
  What the run meets: the terminal test, the opening of the file, its contents, the writes to come
  and what a failing flush leaves, the seeds of the shuffle, when a cancellation comes after the
  proxies were buffered, and the JSON serializer.
\<close>

record out_env =
  ev_tty :: bool
  ev_open_error :: "string option"
  ev_existing :: string
  ev_plan :: "write_outcome list"
  ev_flush :: "nat option"
  ev_nanos :: u64
  ev_pid :: u64
  ev_cancel_after :: "nat option"
  ev_json :: "json \<Rightarrow> string option"
  ev_pretty :: "json \<Rightarrow> string option"

datatype event = Item proxy | Cancel

datatype run_outcome = Finished | Cancelled | NoCommand

section \<open>Sorting and the quota gate\<close>

definition sort_output :: "proxy list \<Rightarrow> string \<Rightarrow> string option \<Rightarrow> proxy list" where
  "sort_output ps skey order =
     sort_proxies ps
       (if skey = ''avg-response'' \<or> skey = ''response-time'' then AvgResponseTime
        else if skey = ''country'' then Country
        else if skey = ''score'' then Score
        else AnonymityKey)
       (if order = Some ''desc'' then Desc else Asc)"

datatype gate = EmitItem | SkipItem | StopRun

definition quota_gate :: "proxy \<Rightarrow> enforcer option \<Rightarrow> gate \<times> enforcer option" where
  "quota_gate p quotas =
     (case quotas of
        None \<Rightarrow> (EmitItem, None)
      | Some e \<Rightarrow>
          (case should_emit p e of
             (b, e1) \<Rightarrow> (if b then (EmitItem, Some e1)
                         else if is_satisfied e1 then (StopRun, Some e1) else (SkipItem, Some e1))))"

definition quotas_satisfied :: "enforcer option \<Rightarrow> bool" where
  "quotas_satisfied quotas = (case quotas of None \<Rightarrow> False | Some e \<Rightarrow> is_satisfied e)"

text \<open>The first pass over the stream when the output is sorted or shuffled.\<close>

record buffering =
  bf_items :: "proxy list"
  bf_quotas :: "enforcer option"
  bf_cancelled :: bool

fun collect_buffered :: "output_options \<Rightarrow> event list \<Rightarrow> buffering \<Rightarrow> buffering" where
  "collect_buffered o' [] b = b"
| "collect_buffered o' (Cancel # es) b = b\<lparr>bf_cancelled := True\<rparr>"
| "collect_buffered o' (Item p # es) b =
     (if filter_matches (filter_from_options (filter_options o')) p
      then (case quota_gate p (bf_quotas b) of
              (StopRun, q) \<Rightarrow> b\<lparr>bf_quotas := q\<rparr>
            | (SkipItem, q) \<Rightarrow> collect_buffered o' es (b\<lparr>bf_quotas := q\<rparr>)
            | (EmitItem, q) \<Rightarrow>
                (let b1 = b\<lparr>bf_items := bf_items b @ [p], bf_quotas := q\<rparr>
                 in if 0 < oo_limit o' \<and> oo_sort o' \<noteq> Some ''score'' \<and> oo_limit o' \<le> length (bf_items b1) then b1
                    else if quotas_satisfied q then b1
                    else collect_buffered o' es b1))
      else collect_buffered o' es b)"

definition buffered_path :: "output_options \<Rightarrow> bool" where
  "buffered_path o' \<longleftrightarrow> oo_sort o' \<noteq> None \<or> oo_shuffle o'"

definition arrange :: "out_env \<Rightarrow> output_options \<Rightarrow> proxy list \<Rightarrow> (proxy list, unit) outcome" where
  "arrange env o' ps =
     and_then (if oo_shuffle o' then shuffle_proxies (ev_nanos env) (ev_pid env) ps else Ok ps)
       (\<lambda>qs. Ok (case oo_sort o' of None \<Rightarrow> qs | Some skey \<Rightarrow> sort_output qs skey (Some (oo_order o'))))"

definition with_cancel :: "nat option \<Rightarrow> proxy list \<Rightarrow> event list" where
  "with_cancel after ps =
     (case after of None \<Rightarrow> map Item ps | Some k \<Rightarrow> map Item (take k ps) @ Cancel # map Item (drop k ps))"

section \<open>Rendering one proxy\<close>

definition write_json_item :: "out_env \<Rightarrow> nat \<Rightarrow> proxy \<Rightarrow> string option" where
  "write_json_item env item_count p =
     (case ev_json env (proxy_json p) of
        None \<Rightarrow> None
      | Some body \<Rightarrow>
          Some ((if item_count = 0 then [CHR ''['', linefeed] @ ''  '' else [CHR '','', linefeed] @ ''  '') @ body))"

definition as_pretty_json :: "out_env \<Rightarrow> proxy \<Rightarrow> string" where
  "as_pretty_json env p = (case ev_pretty env (proxy_json p) of Some s \<Rightarrow> s | None \<Rightarrow> [])"

definition indented :: "string \<Rightarrow> string" where
  "indented pretty = join [linefeed] (map (\<lambda>line. ''  '' @ line) (lines_of pretty))"

definition render_item :: "out_env \<Rightarrow> string \<Rightarrow> nat \<Rightarrow> proxy \<Rightarrow> string option" where
  "render_item env format item_count p =
     (if format = ''text'' then Some (px_text p @ [linefeed])
      else if format = ''json'' then write_json_item env item_count p
      else if format = ''pretty-json'' then
        Some ((if item_count = 0 then [CHR ''['', linefeed] else [CHR '','', linefeed]) @ indented (as_pretty_json env p))
      else if format = ''json-lines'' then map_option (\<lambda>body. body @ [linefeed]) (ev_json env (proxy_json p))
      else if format = ''csv'' then Some (csv_row p)
      else if format = ''proxychains'' then
        Some (proxychains_type p @ '' '' @ show_ipv4 (px_ip p) @ '' '' @ show_nat (unat (px_port p)) @ [linefeed])
      else if format = ''prefix'' then
        Some (prefix_scheme p @ ''://'' @ show_ipv4 (px_ip p) @ '':'' @ show_nat (unat (px_port p)) @ [linefeed])
      else Some (show_proxy p @ [linefeed]))"

section \<open>The loop over the stream\<close>

record out_run =
  or_env :: out_env
  or_options :: output_options
  or_format :: string
  or_to_file :: bool
  or_quotas_applied :: bool

record out_state =
  os_sink :: sink
  os_item_count :: nat
  os_rows :: nat
  os_doc :: "nat option"
  os_stats :: "run_stats option"
  os_quotas :: "enforcer option"
  os_error :: "string option"
  os_cancelled :: bool

definition loop_gate :: "out_run \<Rightarrow> proxy \<Rightarrow> enforcer option \<Rightarrow> gate \<times> enforcer option" where
  "loop_gate run p quotas = (if or_quotas_applied run then (EmitItem, quotas) else quota_gate p quotas)"

definition item_written :: "proxy \<Rightarrow> out_state \<Rightarrow> out_state" where
  "item_written p st = st\<lparr>os_item_count := os_item_count st + 1, os_doc := map_option Suc (os_doc st),
     os_stats := map_option (record_stats p) (os_stats st), os_rows := os_rows st + 1\<rparr>"

text \<open>True: the loop is left at once.\<close>

definition emit_item :: "out_run \<Rightarrow> proxy \<Rightarrow> out_state \<Rightarrow> bool \<times> out_state" where
  "emit_item run p st =
     (case render_item (or_env run) (or_format run) (os_item_count st) p of
        None \<Rightarrow> (False, st)
      | Some buf \<Rightarrow>
          (case write_to (or_to_file run) buf (os_sink st) of
             (Wrote, sk) \<Rightarrow> (False, item_written p (st\<lparr>os_sink := sk\<rparr>))
           | (Pipe_closed, sk) \<Rightarrow> (True, st\<lparr>os_sink := sk\<rparr>)
           | (Write_failed e, sk) \<Rightarrow> (True, st\<lparr>os_sink := sk, os_error := Some e\<rparr>)))"

definition limit_reached :: "out_run \<Rightarrow> nat \<Rightarrow> bool" where
  "limit_reached run rows \<longleftrightarrow> 0 < oo_limit (or_options run) \<and> oo_limit (or_options run) \<le> rows"

fun out_loop :: "out_run \<Rightarrow> event list \<Rightarrow> out_state \<Rightarrow> out_state" where
  "out_loop run [] st = st"
| "out_loop run (Cancel # es) st = (if os_cancelled st then out_loop run es st else st\<lparr>os_cancelled := True\<rparr>)"
| "out_loop run (Item p # es) st =
     (if \<not> filter_matches (filter_from_options (filter_options (or_options run))) p then out_loop run es st
      else (case loop_gate run p (os_quotas st) of
          (StopRun, q) \<Rightarrow> st\<lparr>os_quotas := q\<rparr>
        | (SkipItem, q) \<Rightarrow> out_loop run es (st\<lparr>os_quotas := q\<rparr>)
        | (EmitItem, q) \<Rightarrow>
            (case emit_item run p (st\<lparr>os_quotas := q\<rparr>) of
               (True, st1) \<Rightarrow> st1
             | (False, st1) \<Rightarrow>
                 (if limit_reached run (os_rows st1) then st1
                  else if \<not> or_quotas_applied run \<and> quotas_satisfied (os_quotas st1) then st1
                  else out_loop run es st1))))"

text \<open>A PAC file is one function, so its proxies are collected, and counted, first.\<close>

record pac_state =
  ps_proxies :: "proxy list"
  ps_rows :: nat
  ps_quotas :: "enforcer option"
  ps_cancelled :: bool

fun pac_loop :: "out_run \<Rightarrow> event list \<Rightarrow> pac_state \<Rightarrow> pac_state" where
  "pac_loop run [] st = st"
| "pac_loop run (Cancel # es) st = (if ps_cancelled st then pac_loop run es st else st\<lparr>ps_cancelled := True\<rparr>)"
| "pac_loop run (Item p # es) st =
     (if \<not> filter_matches (filter_from_options (filter_options (or_options run))) p then pac_loop run es st
      else (case loop_gate run p (ps_quotas st) of
          (StopRun, q) \<Rightarrow> st\<lparr>ps_quotas := q\<rparr>
        | (SkipItem, q) \<Rightarrow> pac_loop run es (st\<lparr>ps_quotas := q\<rparr>)
        | (EmitItem, q) \<Rightarrow>
            (let st1 = st\<lparr>ps_proxies := ps_proxies st @ [p], ps_rows := ps_rows st + 1, ps_quotas := q\<rparr>
             in if limit_reached run (ps_rows st1) then st1
                else if \<not> or_quotas_applied run \<and> quotas_satisfied q then st1
                else pac_loop run es st1)))"

section \<open>Closing the output\<close>

definition json_closing :: "nat \<Rightarrow> bool \<Rightarrow> bool \<Rightarrow> string" where
  "json_closing item_count suppress_empty_json close_document =
     (if \<not> close_document then []
      else if 0 < item_count then [linefeed, CHR '']'', linefeed]
      else if suppress_empty_json then []
      else ''[]'' @ [linefeed])"

definition finalize_json_output :: "out_run \<Rightarrow> bool \<Rightarrow> bool \<Rightarrow> out_state \<Rightarrow> out_state" where
  "finalize_json_output run suppress_empty_json close_document st =
     (case write_output (or_to_file run) (json_closing (os_item_count st) suppress_empty_json close_document) (os_sink st) of
        (e, sk) \<Rightarrow> st\<lparr>os_sink := sk, os_error := (case os_error st of None \<Rightarrow> e | Some e0 \<Rightarrow> Some e0)\<rparr>)"

definition flush_output :: "out_run \<Rightarrow> out_state \<Rightarrow> out_state" where
  "flush_output run st = (if or_to_file run then st\<lparr>os_sink := file_flush (ev_flush (or_env run)) (os_sink st)\<rparr> else st)"

definition outcome_of :: "out_state \<Rightarrow> (run_outcome, string) outcome" where
  "outcome_of st =
     (if os_cancelled st then Ok Cancelled
      else (case os_error st of Some e \<Rightarrow> Err e | None \<Rightarrow> Ok Finished))"

type_synonym pass_result = "(run_outcome, string) outcome \<times> out_state"

definition pac_finish :: "out_run \<Rightarrow> pac_state \<Rightarrow> out_state \<Rightarrow> pass_result" where
  "pac_finish run ps st0 =
     (let st = st0\<lparr>os_rows := ps_rows ps, os_quotas := ps_quotas ps, os_cancelled := ps_cancelled ps\<rparr>
      in if ps_cancelled ps then (Ok Cancelled, flush_output run st)
         else (case write_to (or_to_file run) (render_pac (ps_proxies ps)) (os_sink st) of
             (Wrote, sk) \<Rightarrow> (Ok Finished, flush_output run (st\<lparr>os_sink := sk\<rparr>))
           | (Pipe_closed, sk) \<Rightarrow> (Ok Finished, st\<lparr>os_sink := sk\<rparr>)
           | (Write_failed e, sk) \<Rightarrow>
               (Err (if or_to_file run then ''failed to write PAC to output file'' else ''failed to write PAC to stdout''),
                st\<lparr>os_sink := sk\<rparr>)))"

definition CSV_HEADER :: string where
  "CSV_HEADER = ''ip,port,type,response_time,country,ip_type,asn,aso'' @ [linefeed]"

text \<open>The header; True: a closed pipe ends the run.\<close>

definition csv_header_step :: "out_run \<Rightarrow> bool \<Rightarrow> bool \<Rightarrow> out_state \<Rightarrow> bool \<times> out_state" where
  "csv_header_step run emit_csv_header appending_to_existing st =
     (if or_format run = ''csv'' \<and> emit_csv_header \<and> \<not> appending_to_existing
      then (case write_to (or_to_file run) CSV_HEADER (os_sink st) of
          (Wrote, sk) \<Rightarrow> (False, st\<lparr>os_sink := sk\<rparr>)
        | (Pipe_closed, sk) \<Rightarrow> (True, st\<lparr>os_sink := sk\<rparr>)
        | (Write_failed e, sk) \<Rightarrow>
            (False, st\<lparr>os_sink := sk, os_error := Some (if or_to_file run
               then ''failed to write CSV header to output file'' else ''failed to write CSV header to stdout'')\<rparr>))
      else (False, st))"

definition is_json :: "string \<Rightarrow> bool" where
  "is_json format \<longleftrightarrow> format = ''json'' \<or> format = ''pretty-json''"

definition run_loop :: "out_run \<Rightarrow> finalize_opts \<Rightarrow> bool \<Rightarrow> event list \<Rightarrow> out_state \<Rightarrow> pass_result" where
  "run_loop run fin appending_to_existing es st0 =
     (if or_format run = ''pac''
      then pac_finish run (pac_loop run es \<lparr>ps_proxies = [], ps_rows = os_rows st0, ps_quotas = os_quotas st0, ps_cancelled = os_cancelled st0\<rparr>) st0
      else (case csv_header_step run (fo_emit_csv_header fin) appending_to_existing st0 of
          (True, st1) \<Rightarrow> (Ok Finished, st1)
        | (False, st1) \<Rightarrow>
            (let st2 = out_loop run es st1;
                 leave_open = (case fo_continue_json fin of None \<Rightarrow> False | Some c \<Rightarrow> jc_leave_open c);
                 close_document = (\<not> leave_open \<or> os_cancelled st2 \<or> os_error st2 \<noteq> None);
                 st3 = (if is_json (or_format run)
                        then finalize_json_output run (fo_suppress_empty_json fin) close_document st2 else st2);
                 st4 = flush_output run st3
             in (outcome_of st4, st4))))"

definition out_run_of :: "out_env \<Rightarrow> output_options \<Rightarrow> out_run" where
  "out_run_of env o' =
     \<lparr>or_env = env, or_options = o', or_format = effective_format (oo_format o') (oo_output_file o') (ev_tty env),
      or_to_file = (oo_output_file o' \<noteq> None), or_quotas_applied = buffered_path o'\<rparr>"

definition continuing_json :: "finalize_opts \<Rightarrow> bool" where
  "continuing_json fin = (case fo_continue_json fin of None \<Rightarrow> False | Some c \<Rightarrow> \<not> jc_leave_open c)"

definition start_items :: "finalize_opts \<Rightarrow> nat" where
  "start_items fin = (case fo_continue_json fin of None \<Rightarrow> 0 | Some c \<Rightarrow> jc_items c)"

definition start_state :: "sink \<Rightarrow> finalize_opts \<Rightarrow> out_state" where
  "start_state sk fin =
     \<lparr>os_sink = sk, os_item_count = start_items fin, os_rows = 0,
      os_doc = map_option jc_items (fo_continue_json fin), os_stats = fo_stats fin, os_quotas = fo_quotas fin,
      os_error = None, os_cancelled = False\<rparr>"

definition process_opened :: "out_run \<Rightarrow> finalize_opts \<Rightarrow> bool \<Rightarrow> event list \<Rightarrow> out_state \<Rightarrow> pass_result" where
  "process_opened run fin appending_to_existing es st =
     (if buffered_path (or_options run)
      then (let b = collect_buffered (or_options run) es \<lparr>bf_items = [], bf_quotas = os_quotas st, bf_cancelled = False\<rparr>;
                st2 = st\<lparr>os_quotas := bf_quotas b, os_cancelled := bf_cancelled b\<rparr>
            in case arrange (or_env run) (or_options run) (bf_items b) of
                 Ok ps \<Rightarrow> run_loop run fin appending_to_existing (with_cancel (ev_cancel_after (or_env run)) ps) st2
               | Err _ \<Rightarrow> (Panic, st2)
               | Panic \<Rightarrow> (Panic, st2))
      else run_loop run fin appending_to_existing es st)"

definition process_result :: "out_env \<Rightarrow> output_options \<Rightarrow> finalize_opts \<Rightarrow> event list \<Rightarrow> pass_result" where
  "process_result env o' fin es =
     (let run = out_run_of env o';
          unopened = start_state \<lparr>sk_text = ev_existing env, sk_plan = ev_plan env\<rparr> fin
      in if oo_append o' \<and> is_json (or_format run)
         then (Err (''--append cannot be combined with the '' @ or_format run @ '' format''), unopened)
         else if or_to_file run \<and> ev_open_error env \<noteq> None
         then (Err (''failed to open output file '' @ from_option (oo_output_file o')), unopened)
         else (let sk = (if or_to_file run
                         then open_output (oo_append o' \<or> continuing_json fin) (ev_existing env) (ev_plan env)
                         else os_sink unopened);
                   appending_to_existing = (oo_append o' \<and> or_to_file run \<and> ev_existing env \<noteq> [])
               in process_opened run fin appending_to_existing es (start_state sk fin)))"

definition close_chained_json :: "out_env \<Rightarrow> output_options \<Rightarrow> nat \<Rightarrow> string option \<times> string" where
  "close_chained_json env o' item_count =
     (if \<not> is_json (effective_format (oo_format o') (oo_output_file o') (ev_tty env)) then (None, ev_existing env)
      else (let closer = (if 0 < item_count then [linefeed, CHR '']'', linefeed] else ''[]'' @ [linefeed])
            in case oo_output_file o' of
                 Some path \<Rightarrow>
                   (case ev_open_error env of
                      Some _ \<Rightarrow> (Some (''failed to open output file '' @ path), ev_existing env)
                    | None \<Rightarrow>
                        (case write_output True closer (open_output True (ev_existing env) (ev_plan env)) of
                           (Some e, sk) \<Rightarrow> (Some e, sk_text sk)
                         | (None, sk) \<Rightarrow> (None, sk_text (file_flush (ev_flush env) sk))))
               | None \<Rightarrow>
                   (case write_output False closer \<lparr>sk_text = ev_existing env, sk_plan = ev_plan env\<rparr> of
                      (e, sk) \<Rightarrow> (e, sk_text sk))))"
end
