(* ===== verification/Cli_Output_Props.thy ===== *)
theory Cli_Output_Props
  imports Cli_Output "HOL-Library.Sublist"
begin

text \<open>
  What \<open>process_result\<close> writes: the items of the stream that pass the filter and the quotas, in their
  order, each rendered once, between the header and the closing of the format.
\<close>

section \<open>Rendered items\<close>

definition matches_options :: "output_options \<Rightarrow> proxy \<Rightarrow> bool" where
  "matches_options o' = filter_matches (filter_from_options (filter_options o'))"

fun item_of :: "event \<Rightarrow> proxy list" where
  "item_of (Item p) = [p]"
| "item_of Cancel = []"

definition passing_items :: "output_options \<Rightarrow> event list \<Rightarrow> proxy list" where
  "passing_items o' es = filter (matches_options o') (concat (map item_of es))"

definition renderable :: "out_env \<Rightarrow> string \<Rightarrow> proxy \<Rightarrow> bool" where
  "renderable env format p \<longleftrightarrow> render_item env format 0 p \<noteq> None"

definition rendered :: "out_env \<Rightarrow> string \<Rightarrow> nat \<Rightarrow> proxy list \<Rightarrow> string" where
  "rendered env format n ps = concat (map (\<lambda>(i, p). the (render_item env format i p)) (enumerate n ps))"

lemma rendered_Nil [simp]: "rendered env format n [] = []"
  by (simp add: rendered_def)

lemma rendered_Cons: "rendered env format n (p # ps) = the (render_item env format n p) @ rendered env format (Suc n) ps"
  by (simp add: rendered_def)

lemma rendered_append: "rendered env format n (ps @ qs) = rendered env format n ps @ rendered env format (n + length ps) qs"
  by (induction ps arbitrary: n) (simp_all add: rendered_Cons)

lemma renderable_any: "render_item env format n p = None \<longleftrightarrow> \<not> renderable env format p"
  by (simp add: renderable_def render_item_def write_json_item_def split: option.split)

lemma passing_simps [simp]:
  "passing_items o' [] = []"
  "passing_items o' (Cancel # es) = passing_items o' es"
  "passing_items o' (Item p # es) = (if matches_options o' p then p # passing_items o' es else passing_items o' es)"
  by (simp_all add: passing_items_def)

lemma length_passing: "length (concat (map item_of es)) \<le> length es"
proof (induction es)
  case (Cons e es)
  then show ?case by (cases e) simp_all
qed simp

lemma subseq_mset: "subseq xs ys \<Longrightarrow> mset xs \<subseteq># mset ys"
proof (induction rule: list_emb.induct)
  case (list_emb_Cons xs ys y)
  then show ?case using subset_mset.order_trans [of "mset xs" "mset ys" "add_mset y (mset ys)"] by simp
qed simp_all

lemma passing_append: "passing_items o' (es @ fs) = passing_items o' es @ passing_items o' fs"
  by (simp add: passing_items_def)

lemma passing_map_Item [simp]: "passing_items o' (map Item ps) = filter (matches_options o') ps"
  by (induction ps) auto

section \<open>The loop when every write succeeds\<close>

definition written :: "out_run \<Rightarrow> proxy list \<Rightarrow> enforcer option \<Rightarrow> bool \<Rightarrow> out_state \<Rightarrow> out_state" where
  "written run ps q c st = st\<lparr>
     os_sink := \<lparr>sk_text = sk_text (os_sink st) @ rendered (or_env run) (or_format run) (os_item_count st) ps, sk_plan = []\<rparr>,
     os_item_count := os_item_count st + length ps, os_rows := os_rows st + length ps,
     os_doc := map_option (\<lambda>n. n + length ps) (os_doc st),
     os_stats := map_option (\<lambda>s. foldl (\<lambda>s p. record_stats p s) s ps) (os_stats st),
     os_quotas := q, os_cancelled := c\<rparr>"

lemma written_Nil:
  "sk_plan (os_sink st) = [] \<Longrightarrow> written run [] q c st = st\<lparr>os_quotas := q, os_cancelled := c\<rparr>"
  by (simp add: written_def option.map_id0 id_def option.map_ident)

lemma write_to_plain: "sk_plan sk = [] \<Longrightarrow> write_to f s sk = (Wrote, \<lparr>sk_text = sk_text sk @ s, sk_plan = []\<rparr>)"
  by (simp add: write_to_def file_write_all_def stdout_write_all_def next_write_def)

lemma emit_item_plain:
  assumes "sk_plan (os_sink st) = []"
  shows "emit_item run p st =
    (False, if renderable (or_env run) (or_format run) p then written run [p] (os_quotas st) (os_cancelled st) st else st)"
proof (cases "render_item (or_env run) (or_format run) (os_item_count st) p")
  case None
  then have "\<not> renderable (or_env run) (or_format run) p" by (simp add: renderable_any)
  with None show ?thesis by (simp add: emit_item_def)
next
  case (Some buf)
  then have r: "renderable (or_env run) (or_format run) p" by (metis option.distinct(1) renderable_any)
  have "map_option Suc d = map_option (\<lambda>n. n + length [p]) d" for d by (cases d) simp_all
  moreover have "rendered (or_env run) (or_format run) (os_item_count st) [p] = buf"
    using Some by (simp add: rendered_Cons)
  ultimately show ?thesis using Some r assms
    by (simp add: emit_item_def write_to_plain item_written_def written_def)
qed

lemma written_step:
  "written run ps q c (written run [p] q' c' st) = written run (p # ps) q c st"
  by (simp add: written_def rendered_Cons option.map_comp comp_def)

lemma written_plan [simp]: "sk_plan (os_sink (written run ps q c st)) = []"
  by (simp add: written_def)

lemma written_fields [simp]:
  "os_rows (written run ps q c st) = os_rows st + length ps"
  "os_quotas (written run ps q c st) = q"
  "os_cancelled (written run ps q c st) = c"
  by (simp_all add: written_def)

lemma written_quota: "written run ps q c (st\<lparr>os_quotas := q'\<rparr>) = written run ps q c st"
  by (simp add: written_def)

lemma matches_fold: "filter_matches (filter_from_options (filter_options o')) p = matches_options o' p"
  by (simp add: matches_options_def)

definition loop_result :: "out_run \<Rightarrow> event list \<Rightarrow> out_state \<Rightarrow> out_state \<Rightarrow> bool" where
  "loop_result run es st st' \<longleftrightarrow>
     (\<exists>ps q c. subseq ps (passing_items (or_options run) es) \<and> list_all (renderable (or_env run) (or_format run)) ps \<and>
        (c \<longrightarrow> os_cancelled st \<or> Cancel \<in> set es) \<and> st' = written run ps q c st)"

lemma loop_result_here:
  "sk_plan (os_sink st) = [] \<Longrightarrow> c = os_cancelled st \<or> Cancel \<in> set es \<Longrightarrow>
   loop_result run es st (st\<lparr>os_quotas := q, os_cancelled := c\<rparr>)"
  unfolding loop_result_def
  by (rule exI [of _ "[]"], rule exI [of _ q], rule exI [of _ c]) (auto simp: written_Nil)

lemma passing_later: "subseq (passing_items o' es) (passing_items o' (e # es))"
  by (cases e) auto

lemma loop_result_later:
  assumes "loop_result run es st st'"
  shows "loop_result run (e # es) st st'"
proof -
  obtain ps q c where r: "subseq ps (passing_items (or_options run) es)" "list_all (renderable (or_env run) (or_format run)) ps"
    "c \<longrightarrow> os_cancelled st \<or> Cancel \<in> set es" "st' = written run ps q c st"
    using assms by (auto simp: loop_result_def)
  moreover have "subseq ps (passing_items (or_options run) (e # es))" using r(1) passing_later by (rule subseq_order.trans)
  moreover have "c \<longrightarrow> os_cancelled st \<or> Cancel \<in> set (e # es)" using r(3) by auto
  ultimately show ?thesis unfolding loop_result_def by blast
qed

lemma loop_result_quotas: "loop_result run es (st\<lparr>os_quotas := q\<rparr>) st' \<Longrightarrow> loop_result run es st st'"
  by (simp add: loop_result_def written_quota)

lemma loop_result_item:
  assumes "matches_options (or_options run) p" and "renderable (or_env run) (or_format run) p"
    and "loop_result run es (written run [p] q (os_cancelled st) st) st'"
  shows "loop_result run (Item p # es) st st'"
proof -
  obtain ps q' c where r: "subseq ps (passing_items (or_options run) es)" "list_all (renderable (or_env run) (or_format run)) ps"
    "c \<longrightarrow> os_cancelled st \<or> Cancel \<in> set es" "st' = written run (p # ps) q' c st"
    using assms(3) by (auto simp: loop_result_def written_step)
  with assms(1,2) show ?thesis unfolding loop_result_def
    by (intro exI [of _ "p # ps"] exI [of _ q'] exI [of _ c]) auto
qed

lemma out_loop_written:
  "sk_plan (os_sink st) = [] \<Longrightarrow> loop_result run es st (out_loop run es st)"
proof (induction run es st rule: out_loop.induct)
  case (1 run st)
  then show ?case using loop_result_here [of st "os_cancelled st" "[]" run "os_quotas st"] by simp
next
  case (2 run es st)
  then show ?case
    using loop_result_later [of run es st "out_loop run es st" Cancel]
      loop_result_here [of st True "Cancel # es" run "os_quotas st"] by simp
next
  case (3 run p es st)
  obtain g q where g: "loop_gate run p (os_quotas st) = (g, q)" by (cases "loop_gate run p (os_quotas st)")
  show ?case
  proof (cases "matches_options (or_options run) p")
    case False
    with 3 show ?thesis by (simp add: matches_fold loop_result_later)
  next
    case True
    note m = True
    show ?thesis
    proof (cases g)
      case StopRun
      with m g 3(4) loop_result_here [of st "os_cancelled st" "Item p # es" run q] show ?thesis
        by (simp add: matches_fold)
    next
      case SkipItem
      with m g have "out_loop run (Item p # es) st = out_loop run es (st\<lparr>os_quotas := q\<rparr>)" by (simp add: matches_fold)
      moreover have "loop_result run es (st\<lparr>os_quotas := q\<rparr>) (out_loop run es (st\<lparr>os_quotas := q\<rparr>))"
        using 3(3) [of SkipItem q] 3(4) m g SkipItem by (simp add: matches_fold)
      ultimately show ?thesis by (metis loop_result_later loop_result_quotas)
    next
      case EmitItem
      let ?st1 = "if renderable (or_env run) (or_format run) p then written run [p] q (os_cancelled st) st else st\<lparr>os_quotas := q\<rparr>"
      have e: "emit_item run p (st\<lparr>os_quotas := q\<rparr>) = (False, ?st1)"
        using emit_item_plain [of "st\<lparr>os_quotas := q\<rparr>" run p] 3(4) by (simp add: written_quota)
      have plan: "sk_plan (os_sink ?st1) = []" using 3(4) by simp
      have "loop_result run es ?st1 (out_loop run (Item p # es) st)"
      proof (cases "limit_reached run (os_rows ?st1) \<or> \<not> or_quotas_applied run \<and> quotas_satisfied (os_quotas ?st1)")
        case True
        with m g e EmitItem have "out_loop run (Item p # es) st = ?st1" by (auto simp: matches_fold)
        with loop_result_here [of ?st1 "os_cancelled ?st1" es run "os_quotas ?st1"] plan show ?thesis by simp
      next
        case False
        with m g e EmitItem have "out_loop run (Item p # es) st = out_loop run es ?st1" by (auto simp: matches_fold)
        with 3(2) [of EmitItem q False ?st1] m g e EmitItem False plan show ?thesis
          by (simp add: matches_fold)
      qed
      then show ?thesis
        using loop_result_item [OF m] loop_result_later loop_result_quotas by (metis (full_types))
    qed
  qed
qed

section \<open>Without quotas and cancellation\<close>

definition first_of :: "nat \<Rightarrow> nat \<Rightarrow> 'a list \<Rightarrow> 'a list" where
  "first_of limit rows xs = (if limit = 0 then xs else take (limit - rows) xs)"

lemma first_of_Cons:
  "limit = 0 \<or> rows < limit \<Longrightarrow> first_of limit rows (x # xs) =
     x # (if limit \<noteq> 0 \<and> limit \<le> Suc rows then [] else first_of limit (Suc rows) xs)"
  by (cases "limit - rows") (auto simp: first_of_def intro: arg_cong [where f = "\<lambda>n. take n xs"])

definition output_items :: "out_run \<Rightarrow> proxy list \<Rightarrow> proxy list" where
  "output_items run = filter (\<lambda>p. matches_options (or_options run) p \<and> renderable (or_env run) (or_format run) p)"

lemma out_loop_exact:
  assumes "sk_plan (os_sink st) = []" and "or_quotas_applied run \<or> os_quotas st = None"
    and "oo_limit (or_options run) = 0 \<or> os_rows st < oo_limit (or_options run)"
  shows "out_loop run (map Item xs) st =
    written run (first_of (oo_limit (or_options run)) (os_rows st) (output_items run xs)) (os_quotas st) (os_cancelled st) st"
  using assms
proof (induction xs arbitrary: st)
  case Nil
  then show ?case by (simp add: output_items_def first_of_def written_Nil)
next
  case (Cons p xs)
  let ?lim = "oo_limit (or_options run)"
  have g: "loop_gate run p (os_quotas st) = (EmitItem, os_quotas st)"
    using Cons.prems(2) by (auto simp: loop_gate_def quota_gate_def)
  show ?case
  proof (cases "matches_options (or_options run) p \<and> renderable (or_env run) (or_format run) p")
    case False
    have "out_loop run (map Item (p # xs)) st = out_loop run (map Item xs) st"
    proof (cases "matches_options (or_options run) p")
      case True
      with False have "emit_item run p st = (False, st)" using emit_item_plain [OF Cons.prems(1)] by simp
      with True g Cons.prems show ?thesis
        by (auto simp: matches_fold limit_reached_def quotas_satisfied_def)
    qed (simp add: matches_fold)
    with Cons.IH [OF Cons.prems] False show ?thesis by (auto simp: output_items_def)
  next
    case True
    let ?st1 = "written run [p] (os_quotas st) (os_cancelled st) st"
    have e: "emit_item run p st = (False, ?st1)" using emit_item_plain [OF Cons.prems(1)] True by simp
    have stop: "quotas_satisfied (os_quotas ?st1) \<Longrightarrow> or_quotas_applied run"
      using Cons.prems(2) by (auto simp: quotas_satisfied_def)
    show ?thesis
    proof (cases "limit_reached run (os_rows ?st1)")
      case lim: True
      with True g e have "out_loop run (map Item (p # xs)) st = ?st1" by (simp add: matches_fold)
      moreover have "first_of ?lim (os_rows st) (output_items run (p # xs)) = [p]"
        using lim True Cons.prems(3) by (simp add: output_items_def first_of_Cons limit_reached_def)
      ultimately show ?thesis by simp
    next
      case lim: False
      with True g e stop have "out_loop run (map Item (p # xs)) st = out_loop run (map Item xs) ?st1"
        by (auto simp: matches_fold)
      also have "\<dots> = written run (first_of ?lim (Suc (os_rows st)) (output_items run xs)) (os_quotas st) (os_cancelled st) ?st1"
        using Cons.IH [of ?st1] Cons.prems lim by (auto simp: limit_reached_def)
      also have "\<dots> = written run (first_of ?lim (os_rows st) (output_items run (p # xs))) (os_quotas st) (os_cancelled st) st"
        using lim True Cons.prems(3) by (auto simp: output_items_def first_of_Cons limit_reached_def written_step)
      finally show ?thesis .
    qed
  qed
qed

section \<open>The limit, whatever becomes of the writes\<close>

lemma emit_item_rows:
  assumes "emit_item run p st = (b, st1)"
  shows "os_rows st \<le> os_rows st1 \<and> os_rows st1 \<le> Suc (os_rows st) \<and>
    os_doc st1 = map_option (\<lambda>n. n + (os_rows st1 - os_rows st)) (os_doc st)"
proof (cases "render_item (or_env run) (or_format run) (os_item_count st) p")
  case None
  with assms show ?thesis by (auto simp: emit_item_def option.map_ident)
next
  case (Some buf)
  obtain r sk where w: "write_to (or_to_file run) buf (os_sink st) = (r, sk)" by fastforce
  show ?thesis
  proof (cases r)
    case Wrote
    with Some w assms have "st1 = item_written p (st\<lparr>os_sink := sk\<rparr>)" by (simp add: emit_item_def)
    then show ?thesis by (cases "os_doc st") (simp_all add: item_written_def)
  qed (use Some w assms in \<open>auto simp: emit_item_def option.map_ident\<close>)
qed

lemma doc_step:
  fixes a :: nat
  shows "a \<le> b \<Longrightarrow> b \<le> c \<Longrightarrow>
   map_option (\<lambda>n. n + (c - b)) (map_option (\<lambda>n. n + (b - a)) d) = map_option (\<lambda>n. n + (c - a)) d"
  by (cases d) simp_all

lemma out_loop_rows:
  "os_rows st \<le> os_rows (out_loop run es st) \<and>
   os_doc (out_loop run es st) = map_option (\<lambda>n. n + (os_rows (out_loop run es st) - os_rows st)) (os_doc st)"
proof (induction run es st rule: out_loop.induct)
  case (1 run st)
  then show ?case by (simp add: option.map_ident)
next
  case (2 run es st)
  then show ?case by (simp add: option.map_ident)
next
  case (3 run p es st)
  obtain g q where g: "loop_gate run p (os_quotas st) = (g, q)" by (cases "loop_gate run p (os_quotas st)")
  obtain b st1 where e: "emit_item run p (st\<lparr>os_quotas := q\<rparr>) = (b, st1)" by (cases "emit_item run p (st\<lparr>os_quotas := q\<rparr>)")
  note r = emit_item_rows [OF e]
  show ?case
  proof (cases "matches_options (or_options run) p")
    case False
    with 3 show ?thesis by (simp add: matches_fold)
  next
    case True
    show ?thesis
    proof (cases g)
      case EmitItem
      show ?thesis
      proof (cases "b \<or> limit_reached run (os_rows st1) \<or> \<not> or_quotas_applied run \<and> quotas_satisfied (os_quotas st1)")
        case stop: True
        with True g e EmitItem have "out_loop run (Item p # es) st = st1" by (cases b) (auto simp: matches_fold)
        with r show ?thesis by simp
      next
        case False
        with True g e EmitItem have "out_loop run (Item p # es) st = out_loop run es st1" by (cases b) (auto simp: matches_fold)
        with 3(2) [of EmitItem q False st1] True g e EmitItem False r show ?thesis
          using doc_step by (cases b) (auto simp: matches_fold)
      qed
    qed (use 3(3) [of SkipItem q] True g in \<open>simp_all add: matches_fold option.map_ident\<close>)
  qed
qed

lemma out_loop_limit:
  "0 < oo_limit (or_options run) \<Longrightarrow> os_rows st < oo_limit (or_options run) \<Longrightarrow>
   os_rows (out_loop run es st) \<le> oo_limit (or_options run)"
proof (induction run es st rule: out_loop.induct)
  case (3 run p es st)
  obtain g q where g: "loop_gate run p (os_quotas st) = (g, q)" by (cases "loop_gate run p (os_quotas st)")
  obtain b st1 where e: "emit_item run p (st\<lparr>os_quotas := q\<rparr>) = (b, st1)" by (cases "emit_item run p (st\<lparr>os_quotas := q\<rparr>)")
  have r: "os_rows st1 \<le> oo_limit (or_options run)" using emit_item_rows [OF e] 3(5) by simp
  show ?case
  proof (cases "matches_options (or_options run) p")
    case False
    with 3 show ?thesis by (simp add: matches_fold)
  next
    case True
    show ?thesis
    proof (cases g)
      case EmitItem
      show ?thesis
      proof (cases "b \<or> limit_reached run (os_rows st1) \<or> \<not> or_quotas_applied run \<and> quotas_satisfied (os_quotas st1)")
        case stop: True
        with True g e EmitItem have "out_loop run (Item p # es) st = st1" by (cases b) (auto simp: matches_fold)
        with r show ?thesis by simp
      next
        case False
        with True g e EmitItem have "out_loop run (Item p # es) st = out_loop run es st1" by (cases b) (auto simp: matches_fold)
        with 3(2) [of EmitItem q False st1] 3(4) True g e EmitItem False show ?thesis
          by (cases b) (auto simp: matches_fold limit_reached_def)
      qed
    qed (use 3 True g in \<open>simp_all add: matches_fold\<close>)
  qed
qed simp_all

lemma collect_buffered_items:
  "\<exists>ps. subseq ps (passing_items o' es) \<and> bf_items (collect_buffered o' es b) = bf_items b @ ps \<and>
     (bf_cancelled (collect_buffered o' es b) \<longrightarrow> bf_cancelled b \<or> Cancel \<in> set es)"
    (is "\<exists>ps. ?P o' es b ps")
proof (induction o' es b rule: collect_buffered.induct)
  case (1 o' b)
  then show ?case by (intro exI [of _ "[]"]) simp
next
  case (2 o' es b)
  then show ?case by (intro exI [of _ "[]"]) simp
next
  case (3 o' p es b)
  obtain g q where g: "quota_gate p (bf_quotas b) = (g, q)" by (cases "quota_gate p (bf_quotas b)")
  let ?b1 = "b\<lparr>bf_items := bf_items b @ [p], bf_quotas := q\<rparr>"
  show ?case
  proof (cases "matches_options o' p")
    case False
    with 3(3) show ?thesis by (auto simp: matches_fold)
  next
    case True
    note m = True
    show ?thesis
    proof (cases g)
      case EmitItem
      show ?thesis
      proof (cases "0 < oo_limit o' \<and> oo_sort o' \<noteq> Some ''score'' \<and> oo_limit o' \<le> length (bf_items ?b1) \<or> quotas_satisfied q")
        case stop: True
        with m g EmitItem have "collect_buffered o' (Item p # es) b = ?b1" by (auto simp: matches_fold Let_def)
        with m show ?thesis by (intro exI [of _ "[p]"]) simp
      next
        case False
        with m g EmitItem have r: "collect_buffered o' (Item p # es) b = collect_buffered o' es ?b1"
          by (auto simp: matches_fold Let_def)
        from 3(1) [of EmitItem q] m g EmitItem False obtain ps where "?P o' es ?b1 ps" by (auto simp: matches_fold)
        with m r show ?thesis by (intro exI [of _ "p # ps"]) auto
      qed
    next
      case SkipItem
      with m g have r: "collect_buffered o' (Item p # es) b = collect_buffered o' es (b\<lparr>bf_quotas := q\<rparr>)"
        by (simp add: matches_fold)
      from 3(2) [of SkipItem q] m g SkipItem obtain ps where "?P o' es (b\<lparr>bf_quotas := q\<rparr>) ps" by (auto simp: matches_fold)
      with m r show ?thesis by (intro exI [of _ ps]) auto
    next
      case StopRun
      with m g show ?thesis by (intro exI [of _ "[]"]) (simp add: matches_fold)
    qed
  qed
qed

section \<open>One run of \<open>process_result\<close>\<close>

lemma out_run_simps [simp]:
  "or_env (out_run_of env o') = env" "or_options (out_run_of env o') = o'"
  by (simp_all add: out_run_of_def)

lemma start_simps [simp]:
  "os_quotas (start_state sk fin) = fo_quotas fin" "\<not> os_cancelled (start_state sk fin)"
  by (simp_all add: start_state_def)

text \<open>The text before the items: what the destination holds after it was opened, and the CSV header.\<close>

definition start_text :: "out_env \<Rightarrow> output_options \<Rightarrow> finalize_opts \<Rightarrow> string" where
  "start_text env o' fin =
     (if oo_output_file o' = None \<or> oo_append o' \<or> continuing_json fin then ev_existing env else [])"

definition header_text :: "out_env \<Rightarrow> output_options \<Rightarrow> finalize_opts \<Rightarrow> string" where
  "header_text env o' fin =
     (if or_format (out_run_of env o') = ''csv'' \<and> fo_emit_csv_header fin \<and>
        \<not> (oo_append o' \<and> oo_output_file o' \<noteq> None \<and> ev_existing env \<noteq> []) then CSV_HEADER else [])"

definition closing_text :: "out_env \<Rightarrow> output_options \<Rightarrow> finalize_opts \<Rightarrow> bool \<Rightarrow> nat \<Rightarrow> string" where
  "closing_text env o' fin cancelled n =
     (if is_json (or_format (out_run_of env o'))
      then json_closing n (fo_suppress_empty_json fin)
        (\<not> (case fo_continue_json fin of None \<Rightarrow> False | Some c \<Rightarrow> jc_leave_open c) \<or> cancelled)
      else [])"

text \<open>A run whose writes all succeed.\<close>

definition sound_env :: "out_env \<Rightarrow> output_options \<Rightarrow> bool" where
  "sound_env env o' \<longleftrightarrow> ev_plan env = [] \<and> (oo_output_file o' \<noteq> None \<longrightarrow> ev_open_error env = None) \<and>
     \<not> (oo_append o' \<and> is_json (or_format (out_run_of env o'))) \<and> or_format (out_run_of env o') \<noteq> ''pac''"

text \<open>What of a text stays when a failing flush loses the end of the file.\<close>

definition flushed :: "out_env \<Rightarrow> output_options \<Rightarrow> string \<Rightarrow> string" where
  "flushed env o' s =
     (case ev_flush env of None \<Rightarrow> s | Some kept \<Rightarrow> if oo_output_file o' = None then s else take kept s)"

definition all_written :: "out_env \<Rightarrow> output_options \<Rightarrow> finalize_opts \<Rightarrow> proxy list \<Rightarrow> pass_result \<Rightarrow> bool" where
  "all_written env o' fin ps r \<longleftrightarrow>
     fst r = Ok (if os_cancelled (snd r) then Cancelled else Finished) \<and>
     sk_text (os_sink (snd r)) = flushed env o'
       (start_text env o' fin @ header_text env o' fin @
        rendered env (or_format (out_run_of env o')) (start_items fin) ps @
        closing_text env o' fin (os_cancelled (snd r)) (start_items fin + length ps)) \<and>
     os_rows (snd r) = length ps \<and>
     os_doc (snd r) = map_option (\<lambda>c. jc_items c + length ps) (fo_continue_json fin) \<and>
     os_stats (snd r) = map_option (\<lambda>s. foldl (\<lambda>s p. record_stats p s) s ps) (fo_stats fin)"

lemma header_step:
  assumes "sk_plan (os_sink st) = []"
  shows "csv_header_step run h a st =
    (False, st\<lparr>os_sink := \<lparr>sk_text = sk_text (os_sink st) @ (if or_format run = ''csv'' \<and> h \<and> \<not> a then CSV_HEADER else []),
                         sk_plan = []\<rparr>\<rparr>)"
  using assms by (simp add: csv_header_step_def write_to_plain)

lemma finalize_step:
  assumes "sk_plan (os_sink st) = []" and "os_error st = None"
  shows "finalize_json_output run s c st =
    st\<lparr>os_sink := \<lparr>sk_text = sk_text (os_sink st) @ json_closing (os_item_count st) s c, sk_plan = []\<rparr>\<rparr>"
  using assms by (simp add: finalize_json_output_def write_output_def write_to_plain)

definition at_start :: "finalize_opts \<Rightarrow> string \<Rightarrow> out_state \<Rightarrow> bool" where
  "at_start fin start st \<longleftrightarrow> os_sink st = \<lparr>sk_text = start, sk_plan = []\<rparr> \<and> os_item_count st = start_items fin \<and>
     os_rows st = 0 \<and> os_doc st = map_option jc_items (fo_continue_json fin) \<and> os_stats st = fo_stats fin \<and> os_error st = None"

lemma outcome_flush: "outcome_of (flush_output run st) = outcome_of st"
  by (simp add: outcome_of_def flush_output_def)

lemma run_loop_written:
  assumes "sound_env env o'" and "at_start fin (start_text env o' fin) st"
    and "a = (oo_append o' \<and> oo_output_file o' \<noteq> None \<and> ev_existing env \<noteq> [])"
    and "out_loop (out_run_of env o') es (st\<lparr>os_sink := \<lparr>sk_text = start_text env o' fin @ header_text env o' fin, sk_plan = []\<rparr>\<rparr>)
       = written (out_run_of env o') ps q c (st\<lparr>os_sink := \<lparr>sk_text = start_text env o' fin @ header_text env o' fin, sk_plan = []\<rparr>\<rparr>)"
  shows "all_written env o' fin ps (run_loop (out_run_of env o') fin a es st) \<and>
     os_cancelled (snd (run_loop (out_run_of env o') fin a es st)) = c \<and>
     os_quotas (snd (run_loop (out_run_of env o') fin a es st)) = q"
proof -
  let ?run = "out_run_of env o'" and ?st1 = "st\<lparr>os_sink := \<lparr>sk_text = start_text env o' fin @ header_text env o' fin, sk_plan = []\<rparr>\<rparr>"
  have e: "or_env ?run = env" by (simp add: out_run_of_def)
  have h: "csv_header_step ?run (fo_emit_csv_header fin) a st = (False, ?st1)"
    using header_step [of st ?run "fo_emit_csv_header fin" a] assms(2,3) by (simp add: at_start_def header_text_def)
  have to: "or_to_file ?run = (oo_output_file o' \<noteq> None)" by (simp add: out_run_of_def)
  have fl: "flush_output ?run s = s\<lparr>os_sink := (os_sink s)\<lparr>sk_text := flushed env o' (sk_text (os_sink s))\<rparr>\<rparr>" for s
    by (simp add: flush_output_def e file_flush_def flushed_def to split: option.split)
  have np: "or_format ?run \<noteq> ''pac''" using assms(1) by (simp add: sound_env_def)
  let ?st2 = "written ?run ps q c ?st1"
  have f: "os_error ?st2 = None" "os_item_count ?st2 = start_items fin + length ps" "os_cancelled ?st2 = c"
    using assms(2) by (simp_all add: written_def at_start_def)
  have r: "run_loop ?run fin a es st =
     (let st3 = (if is_json (or_format ?run)
         then ?st2\<lparr>os_sink := \<lparr>sk_text = sk_text (os_sink ?st2) @ closing_text env o' fin c (start_items fin + length ps), sk_plan = []\<rparr>\<rparr>
         else ?st2) in (outcome_of st3, flush_output ?run st3))"
    using f finalize_step [of ?st2 ?run] by (simp add: run_loop_def np h assms(4) Let_def outcome_flush closing_text_def)
  have d: "map_option (\<lambda>n. n + length ps) (map_option jc_items x) = map_option (\<lambda>c. jc_items c + length ps) x" for x
    by (cases x) simp_all
  show ?thesis
    unfolding r all_written_def Let_def using assms(2) f
    by (auto simp: outcome_of_def written_def at_start_def closing_text_def e d fl)
qed

lemma run_loop_result:
  assumes "sound_env env o'" and "at_start fin (start_text env o' fin) st"
    and "a = (oo_append o' \<and> oo_output_file o' \<noteq> None \<and> ev_existing env \<noteq> [])"
  shows "\<exists>ps. subseq ps (passing_items o' es) \<and> list_all (renderable env (or_format (out_run_of env o'))) ps \<and>
     all_written env o' fin ps (run_loop (out_run_of env o') fin a es st) \<and>
     (os_cancelled (snd (run_loop (out_run_of env o') fin a es st)) \<longrightarrow> os_cancelled st \<or> Cancel \<in> set es) \<and>
     (0 < oo_limit o' \<longrightarrow> length ps \<le> oo_limit o')"
proof -
  let ?run = "out_run_of env o'" and ?st1 = "st\<lparr>os_sink := \<lparr>sk_text = start_text env o' fin @ header_text env o' fin, sk_plan = []\<rparr>\<rparr>"
  have e: "or_env ?run = env" "or_options ?run = o'" by (simp_all add: out_run_of_def)
  have "loop_result ?run es ?st1 (out_loop ?run es ?st1)" by (rule out_loop_written) simp
  then obtain ps q c where ps: "subseq ps (passing_items o' es)" "list_all (renderable env (or_format ?run)) ps"
    "c \<longrightarrow> os_cancelled st \<or> Cancel \<in> set es" "out_loop ?run es ?st1 = written ?run ps q c ?st1"
    by (auto simp: loop_result_def e)
  note w = run_loop_written [OF assms ps(4)]
  have "0 < oo_limit o' \<longrightarrow> length ps \<le> oo_limit o'"
    using out_loop_limit [of ?run ?st1 es] ps(4) assms(2) by (simp add: e at_start_def)
  then show ?thesis using ps(1,2) w ps(3) by (intro exI [of _ ps] conjI) auto
qed

lemma arrange_permutes:
  assumes "length ps < 2 ^ 63"
  shows "\<exists>qs. arrange env o' ps = Ok qs \<and> mset qs = mset ps"
proof -
  obtain rs where "(if oo_shuffle o' then shuffle_proxies (ev_nanos env) (ev_pid env) ps else Ok ps) = Ok rs" "mset rs = mset ps"
    using shuffle_from_permutes [of "length ps - 1" ps "shuffle_seed (ev_nanos env) (ev_pid env)"] assms that
    by (cases "oo_shuffle o'"; cases ps) (auto simp: shuffle_proxies_def)
  then show ?thesis
    by (auto simp: arrange_def sort_output_def sort_proxies_def Let_def split: option.split)
qed

lemma process_unfold:
  assumes "sound_env env o'"
  shows "process_result env o' fin es =
     process_opened (out_run_of env o') fin (oo_append o' \<and> oo_output_file o' \<noteq> None \<and> ev_existing env \<noteq> []) es
       (start_state \<lparr>sk_text = start_text env o' fin, sk_plan = []\<rparr> fin)"
proof -
  have p: "ev_plan env = []" "\<not> (oo_append o' \<and> is_json (or_format (out_run_of env o')))"
    "\<not> (oo_output_file o' \<noteq> None \<and> ev_open_error env \<noteq> None)" using assms unfolding sound_env_def by metis+
  have f: "or_to_file (out_run_of env o') = (oo_output_file o' \<noteq> None)" by (simp add: out_run_of_def)
  show ?thesis
    unfolding process_result_def Let_def f if_not_P [OF p(2)] if_not_P [OF p(3)]
    by (simp add: p(1) start_state_def open_output_def start_text_def)
qed

lemma start_state_ok: "at_start fin start (start_state \<lparr>sk_text = start, sk_plan = []\<rparr> fin)"
  by (simp add: at_start_def start_state_def)

lemma passing_with_cancel: "passing_items o' (with_cancel k ps) = filter (matches_options o') ps"
  by (simp add: with_cancel_def passing_append flip: filter_append map_append split: option.split)

lemma cancel_in_with_cancel: "Cancel \<in> set (with_cancel k ps) \<Longrightarrow> k \<noteq> None"
  by (auto simp: with_cancel_def split: option.splits)

definition run_writes :: "out_env \<Rightarrow> output_options \<Rightarrow> finalize_opts \<Rightarrow> event list \<Rightarrow> proxy list \<Rightarrow> bool" where
  "run_writes env o' fin es ps \<longleftrightarrow>
     mset ps \<subseteq># mset (passing_items o' es) \<and> list_all (renderable env (or_format (out_run_of env o'))) ps \<and>
     all_written env o' fin ps (process_result env o' fin es) \<and>
     (os_cancelled (snd (process_result env o' fin es)) \<longrightarrow>
        Cancel \<in> set es \<or> buffered_path o' \<and> ev_cancel_after env \<noteq> None) \<and>
     (0 < oo_limit o' \<longrightarrow> length ps \<le> oo_limit o')"

lemma process_result_writes:
  assumes "sound_env env o'" and "length es < 2 ^ 63"
  shows "\<exists>ps. run_writes env o' fin es ps"
proof (cases "buffered_path o'")
  case False
  let ?st = "start_state \<lparr>sk_text = start_text env o' fin, sk_plan = []\<rparr> fin"
  from run_loop_result [OF assms(1) start_state_ok refl, where es = es and fin = fin] obtain ps where
    "subseq ps (passing_items o' es)" "list_all (renderable env (or_format (out_run_of env o'))) ps"
    "all_written env o' fin ps (process_result env o' fin es)"
    "os_cancelled (snd (process_result env o' fin es)) \<longrightarrow> os_cancelled ?st \<or> Cancel \<in> set es"
    "0 < oo_limit o' \<longrightarrow> length ps \<le> oo_limit o'"
    using False by (auto simp: process_unfold [OF assms(1)] process_opened_def)
  then show ?thesis unfolding run_writes_def
    by (intro exI [of _ ps]) (auto intro: subseq_mset)
next
  case True
  let ?st = "start_state \<lparr>sk_text = start_text env o' fin, sk_plan = []\<rparr> fin"
  let ?b = "collect_buffered o' es \<lparr>bf_items = [], bf_quotas = fo_quotas fin, bf_cancelled = False\<rparr>"
  let ?st2 = "?st\<lparr>os_quotas := bf_quotas ?b, os_cancelled := bf_cancelled ?b\<rparr>"
  from collect_buffered_items [of o' es "\<lparr>bf_items = [], bf_quotas = fo_quotas fin, bf_cancelled = False\<rparr>"]
  have b: "subseq (bf_items ?b) (passing_items o' es)" "bf_cancelled ?b \<longrightarrow> Cancel \<in> set es" by auto
  have "length (bf_items ?b) \<le> length es"
  proof -
    have "length (passing_items o' es) \<le> length (concat (map item_of es))" unfolding passing_items_def by (rule length_filter_le)
    with list_emb_length [OF b(1)] length_passing [of es] show ?thesis by linarith
  qed
  then obtain qs where qs: "arrange env o' (bf_items ?b) = Ok qs" "mset qs = mset (bf_items ?b)"
    using arrange_permutes [of "bf_items ?b" env o'] assms(2) by auto
  have at: "at_start fin (start_text env o' fin) ?st2" by (simp add: at_start_def start_state_def)
  have p: "process_result env o' fin es = run_loop (out_run_of env o') fin
     (oo_append o' \<and> oo_output_file o' \<noteq> None \<and> ev_existing env \<noteq> []) (with_cancel (ev_cancel_after env) qs) ?st2"
    using True qs(1) by (simp add: process_unfold [OF assms(1)] process_opened_def Let_def)
  from run_loop_result [OF assms(1) at refl, where es = "with_cancel (ev_cancel_after env) qs"] obtain ps where ps:
    "subseq ps (filter (matches_options o') qs)" "list_all (renderable env (or_format (out_run_of env o'))) ps"
    "all_written env o' fin ps (process_result env o' fin es)"
    "os_cancelled (snd (process_result env o' fin es)) \<longrightarrow> bf_cancelled ?b \<or> Cancel \<in> set (with_cancel (ev_cancel_after env) qs)"
    "0 < oo_limit o' \<longrightarrow> length ps \<le> oo_limit o'"
    by (auto simp: p passing_with_cancel)
  have "mset ps \<subseteq># mset qs" using subseq_mset [OF ps(1)] by (simp add: subset_mset.order_trans [OF _ multiset_filter_subset])
  also have "\<dots> \<subseteq># mset (passing_items o' es)" using qs(2) subseq_mset [OF b(1)] by simp
  finally show ?thesis unfolding run_writes_def
    using ps b(2) True cancel_in_with_cancel by (intro exI [of _ ps]) blast
qed

end
