(* ===== verification/Cli_Find.thy ===== *)
theory Cli_Find
  imports Cli_Output_Props
begin

text \<open>
  The two validation passes of \<open>find\<close> (\<open>run_find\<close> of \<open>src/cli/main.rs\<close>) over the writer: the
  first pass leaves a JSON document open, the second one probes the recorded candidates and goes
  on with the same document, the same quotas and the limit that is left. What the validator
  yields, and whether the second pass starts, are arguments.
\<close>

section \<open>The model\<close>

datatype start = Started | Start_failed | Start_cancelled

definition START_FAILED :: string where
  "START_FAILED = ''failed to start proxy validator''"

record find_world =
  fw_env1 :: out_env
  fw_events1 :: "event list"
  fw_passed1 :: nat
  fw_candidates :: "proxy list"
  fw_start2 :: start
  fw_env2 :: out_env
  fw_events2 :: "event list"

definition find_quotas :: "type_requests \<Rightarrow> type_quota list" where
  "find_quotas reqs =
     (if tr_quotas reqs = [] \<and> tr_groups reqs = [] then [tq_uncapped (Http Unknown)] else tr_quotas reqs)"

definition find_enforcer :: "type_requests \<Rightarrow> enforcer" where
  "find_enforcer reqs = set_has_groups (tr_groups reqs \<noteq> []) (enforcer_new (find_quotas reqs))"

definition pass1_opts :: "type_requests \<Rightarrow> finalize_opts" where
  "pass1_opts reqs =
     (let may_fallback = (find_quotas reqs \<noteq> [])
      in \<lparr>fo_suppress_empty_json = may_fallback, fo_emit_csv_header = True,
          fo_continue_json = (if may_fallback then Some \<lparr>jc_items = 0, jc_leave_open = True\<rparr> else None),
          fo_stats = Some run_stats_new, fo_quotas = Some (find_enforcer reqs)\<rparr>)"

definition pass2_opts :: "out_state \<Rightarrow> finalize_opts" where
  "pass2_opts st1 =
     \<lparr>fo_suppress_empty_json = False, fo_emit_csv_header = False,
      fo_continue_json = map_option (\<lambda>n. \<lparr>jc_items = n, jc_leave_open = False\<rparr>) (os_doc st1),
      fo_stats = os_stats st1, fo_quotas = os_quotas st1\<rparr>"

definition emitted_so_far :: "find_world \<Rightarrow> out_state \<Rightarrow> nat" where
  "emitted_so_far w st1 = (case os_doc st1 of Some n \<Rightarrow> n | None \<Rightarrow> fw_passed1 w)"

definition pass2_limit :: "find_world \<Rightarrow> bool \<Rightarrow> nat \<Rightarrow> out_state \<Rightarrow> nat" where
  "pass2_limit w has_quotas limit st1 =
     (if 0 < limit then limit - (if has_quotas then emitted_so_far w st1 else fw_passed1 w) else 0)"

record find_result =
  fr_outcome :: "(run_outcome, string) outcome"
  fr_text :: string
  fr_rows :: nat

definition after_close :: "string option \<times> string \<Rightarrow> nat \<Rightarrow> find_result" where
  "after_close r rows =
     \<lparr>fr_outcome = (case fst r of None \<Rightarrow> Ok Finished | Some e \<Rightarrow> Err e), fr_text = snd r, fr_rows = rows\<rparr>"

definition second_pass :: "find_world \<Rightarrow> type_requests \<Rightarrow> output_options \<Rightarrow> out_state \<Rightarrow> find_result" where
  "second_pass w reqs o' st1 =
     (let has_quotas = has_any_quota (find_enforcer reqs);
          options2 = o'\<lparr>oo_limit := pass2_limit w has_quotas (oo_limit o') st1\<rparr>;
          env2 = (fw_env2 w)\<lparr>ev_existing := sk_text (os_sink st1)\<rparr>;
          doc_items = (case os_doc st1 of Some n \<Rightarrow> n | None \<Rightarrow> 0)
      in if fw_candidates w = [] then after_close (close_chained_json env2 options2 doc_items) (os_rows st1)
         else (case fw_start2 w of
             Start_cancelled \<Rightarrow> \<lparr>fr_outcome = Ok Cancelled, fr_text = sk_text (os_sink st1), fr_rows = os_rows st1\<rparr>
           | Start_failed \<Rightarrow> \<lparr>fr_outcome = Err START_FAILED, fr_text = sk_text (os_sink st1), fr_rows = os_rows st1\<rparr>
           | Started \<Rightarrow>
               (case process_result env2 options2 (pass2_opts st1) (fw_events2 w) of
                  (out2, st2) \<Rightarrow> \<lparr>fr_outcome = out2, fr_text = sk_text (os_sink st2), fr_rows = os_rows st1 + os_rows st2\<rparr>)))"

definition falls_back :: "find_world \<Rightarrow> type_requests \<Rightarrow> output_options \<Rightarrow> out_state \<Rightarrow> bool" where
  "falls_back w reqs o' st1 =
     needs_fallback (has_any_quota (find_enforcer reqs))
       (case os_quotas st1 of Some e \<Rightarrow> e | None \<Rightarrow> find_enforcer reqs)
       (tr_groups reqs \<noteq> []) (find_quotas reqs \<noteq> []) (oo_limit o') (emitted_so_far w st1) (fw_passed1 w)"

definition run_find :: "find_world \<Rightarrow> string list \<Rightarrow> output_options \<Rightarrow> find_result" where
  "run_find w types o' =
     (let reqs = split_type_requests types
      in case process_result (fw_env1 w) o' (pass1_opts reqs) (fw_events1 w) of
           (out1, st1) \<Rightarrow>
             (if out1 \<noteq> Ok Finished then \<lparr>fr_outcome = out1, fr_text = sk_text (os_sink st1), fr_rows = os_rows st1\<rparr>
              else if falls_back w reqs o' st1 then second_pass w reqs o' st1
              else (case os_doc st1 of
                  Some n \<Rightarrow>
                    after_close (close_chained_json ((fw_env2 w)\<lparr>ev_existing := sk_text (os_sink st1)\<rparr>) o' n) (os_rows st1)
                | None \<Rightarrow> \<lparr>fr_outcome = out1, fr_text = sk_text (os_sink st1), fr_rows = os_rows st1\<rparr>)))"

section \<open>The limit\<close>

lemma out_loop_items: "os_rows (out_loop run es st) \<le> os_rows st + length (concat (map item_of es))"
proof (induction run es st rule: out_loop.induct)
  case (3 run p es st)
  obtain g q where g: "loop_gate run p (os_quotas st) = (g, q)" by (cases "loop_gate run p (os_quotas st)")
  obtain b st1 where e: "emit_item run p (st\<lparr>os_quotas := q\<rparr>) = (b, st1)" by (cases "emit_item run p (st\<lparr>os_quotas := q\<rparr>)")
  have r: "os_rows st1 \<le> Suc (os_rows st)" using emit_item_rows [OF e] by simp
  show ?case
  proof (cases "matches_options (or_options run) p")
    case False
    with 3(1) show ?thesis by (simp add: matches_fold)
  next
    case True
    show ?thesis
    proof (cases g)
      case EmitItem
      show ?thesis
      proof (cases "b \<or> limit_reached run (os_rows st1) \<or> \<not> or_quotas_applied run \<and> quotas_satisfied (os_quotas st1)")
        case stop: True
        with True g e EmitItem have "out_loop run (Item p # es) st = st1" by (cases b) (auto simp: matches_fold)
        with r show ?thesis by simp
      next
        case False
        with True g e EmitItem have "out_loop run (Item p # es) st = out_loop run es st1" by (cases b) (auto simp: matches_fold)
        with 3(2) [of EmitItem q False st1] True g e EmitItem False r show ?thesis
          by (cases b) (auto simp: matches_fold)
      qed
    qed (use 3(3) [of SkipItem q] True g in \<open>simp_all add: matches_fold\<close>)
  qed
qed simp_all

lemma header_fields:
  "csv_header_step run h a st = (b, st1) \<Longrightarrow> os_rows st1 = os_rows st \<and> os_doc st1 = os_doc st"
  by (auto simp: csv_header_step_def split: if_splits prod.splits write_result.splits)

lemma finalize_fields [simp]:
  "os_rows (finalize_json_output run s c st) = os_rows st" "os_doc (finalize_json_output run s c st) = os_doc st"
  by (simp_all add: finalize_json_output_def split: prod.split)

lemma flush_fields [simp]: "os_rows (flush_output run st) = os_rows st" "os_doc (flush_output run st) = os_doc st"
  by (simp_all add: flush_output_def)

lemma pac_loop_rows:
  "ps_rows st \<le> ps_rows (pac_loop run es st) \<and> ps_rows (pac_loop run es st) \<le> ps_rows st + length (concat (map item_of es)) \<and>
   length (ps_proxies (pac_loop run es st)) + ps_rows st = length (ps_proxies st) + ps_rows (pac_loop run es st)"
proof (induction run es st rule: pac_loop.induct)
  case (3 run p es st)
  obtain g q where g: "loop_gate run p (ps_quotas st) = (g, q)" by (cases "loop_gate run p (ps_quotas st)")
  show ?case
  proof (cases "matches_options (or_options run) p")
    case False
    with 3(1) show ?thesis by (simp add: matches_fold)
  next
    case True
    show ?thesis
    proof (cases g)
      case EmitItem
      with 3(2) [of EmitItem q] True g show ?thesis by (auto simp: matches_fold Let_def)
    qed (use 3(3) [of SkipItem q] True g in \<open>simp_all add: matches_fold\<close>)
  qed
qed simp_all

lemma pac_loop_limit:
  "0 < oo_limit (or_options run) \<Longrightarrow> ps_rows st < oo_limit (or_options run) \<Longrightarrow>
   ps_rows (pac_loop run es st) \<le> oo_limit (or_options run)"
proof (induction run es st rule: pac_loop.induct)
  case (3 run p es st)
  obtain g q where g: "loop_gate run p (ps_quotas st) = (g, q)" by (cases "loop_gate run p (ps_quotas st)")
  show ?case
  proof (cases "matches_options (or_options run) p")
    case False
    with 3 show ?thesis by (simp add: matches_fold)
  next
    case True
    show ?thesis
    proof (cases g)
      case EmitItem
      with 3(2) [of EmitItem q] 3(4,5) True g show ?thesis by (auto simp: matches_fold Let_def limit_reached_def)
    qed (use 3 True g in \<open>simp_all add: matches_fold\<close>)
  qed
qed simp_all

text \<open>A pass and its counter: the document counts the rows, except that no PAC row is a row of a document.\<close>

definition counted :: "bool \<Rightarrow> nat \<Rightarrow> nat" where
  "counted pac rows = (if pac then 0 else rows)"

definition rows_ok :: "bool \<Rightarrow> nat \<Rightarrow> nat \<Rightarrow> nat option \<Rightarrow> out_state \<Rightarrow> bool" where
  "rows_ok pac limit bound doc st \<longleftrightarrow> (0 < limit \<longrightarrow> os_rows st \<le> limit) \<and> os_rows st \<le> bound \<and>
     os_doc st = map_option (\<lambda>n. n + counted pac (os_rows st)) doc"

lemma run_loop_rows:
  assumes "os_rows st = 0"
  shows "rows_ok (or_format run = ''pac'') (oo_limit (or_options run)) (length (concat (map item_of es))) (os_doc st) (snd (run_loop run fin a es st))"
proof (cases "or_format run = ''pac''")
  case True
  let ?ps = "pac_loop run es \<lparr>ps_proxies = [], ps_rows = os_rows st, ps_quotas = os_quotas st, ps_cancelled = os_cancelled st\<rparr>"
  from True have "os_rows (snd (run_loop run fin a es st)) = ps_rows ?ps \<and> os_doc (snd (run_loop run fin a es st)) = os_doc st"
    by (auto simp: run_loop_def pac_finish_def Let_def split: prod.split write_result.split)
  then show ?thesis
    using assms True pac_loop_rows [where run = run and es = es and st = "\<lparr>ps_proxies = [], ps_rows = os_rows st, ps_quotas = os_quotas st, ps_cancelled = os_cancelled st\<rparr>"]
      pac_loop_limit [of run "\<lparr>ps_proxies = [], ps_rows = os_rows st, ps_quotas = os_quotas st, ps_cancelled = os_cancelled st\<rparr>" es]
    by (simp add: rows_ok_def counted_def option.map_ident)
next
  case False
  obtain b st1 where h: "csv_header_step run (fo_emit_csv_header fin) a st = (b, st1)"
    by (cases "csv_header_step run (fo_emit_csv_header fin) a st")
  note hf = header_fields [OF h]
  show ?thesis
  proof (cases b)
    case True
    with False h hf assms show ?thesis by (simp add: run_loop_def rows_ok_def counted_def option.map_ident)
  next
    case b: False
    let ?st2 = "out_loop run es st1"
    have "rows_ok False (oo_limit (or_options run)) (length (concat (map item_of es))) (os_doc st) ?st2"
      using out_loop_items [of run es st1] out_loop_rows [of st1 run es] out_loop_limit [of run st1 es] hf assms
      by (simp add: rows_ok_def counted_def)
    moreover have "os_rows (snd (run_loop run fin a es st)) = os_rows ?st2 \<and> os_doc (snd (run_loop run fin a es st)) = os_doc ?st2"
      using False b h by (simp add: run_loop_def Let_def)
    ultimately show ?thesis using False by (simp add: rows_ok_def)
  qed
qed

lemma length_arrange: "arrange env o' ps = Ok qs \<Longrightarrow> length ps < 2 ^ 63 \<Longrightarrow> length qs = length ps"
  by (metis arrange_permutes outcome.inject(1) size_mset)

lemma concat_items [simp]: "concat (map (item_of \<circ> Item) xs) = xs"
  by (induction xs) simp_all

lemma length_with_cancel: "length (concat (map item_of (with_cancel k qs))) = length qs"
  by (simp add: with_cancel_def split: option.split)

lemma process_result_rows:
  assumes "length es < 2 ^ 63"
  shows "rows_ok (or_format (out_run_of env o') = ''pac'') (oo_limit o') (length (concat (map item_of es))) (map_option jc_items (fo_continue_json fin))
    (snd (process_result env o' fin es))"
proof -
  have z: "os_rows st = 0 \<Longrightarrow> rows_ok c l n (os_doc st) st" for c st l n by (simp add: rows_ok_def counted_def option.map_ident)
  have opened: "rows_ok (or_format (out_run_of env o') = ''pac'') (oo_limit o') (length (concat (map item_of es))) (os_doc st) (snd (process_opened (out_run_of env o') fin a es st))"
    if r: "os_rows st = 0" for a st
  proof (cases "buffered_path o'")
    case False
    then show ?thesis using run_loop_rows [OF r, of "out_run_of env o'" es fin a] by (simp add: process_opened_def)
  next
    case True
    let ?b = "collect_buffered o' es \<lparr>bf_items = [], bf_quotas = os_quotas st, bf_cancelled = False\<rparr>"
    from collect_buffered_items [of o' es "\<lparr>bf_items = [], bf_quotas = os_quotas st, bf_cancelled = False\<rparr>"]
    have b: "subseq (bf_items ?b) (passing_items o' es)" by auto
    have len: "length (bf_items ?b) \<le> length (concat (map item_of es))"
      using list_emb_length [OF b] unfolding passing_items_def by (meson le_trans length_filter_le)
    then obtain qs where qs: "arrange env o' (bf_items ?b) = Ok qs" "length qs = length (bf_items ?b)"
      using arrange_permutes [of "bf_items ?b" env o'] length_arrange assms length_passing [of es]
      by (metis (no_types, lifting) order_le_less_trans)
    have "length (concat (map item_of (with_cancel (ev_cancel_after env) qs))) = length qs"
      by (rule length_with_cancel)
    with run_loop_rows [of "st\<lparr>os_quotas := bf_quotas ?b, os_cancelled := bf_cancelled ?b\<rparr>" "out_run_of env o'"
        "with_cancel (ev_cancel_after env) qs" fin a] qs len r True
    show ?thesis by (auto simp: process_opened_def Let_def rows_ok_def)
  qed
  show ?thesis
    using opened [of "start_state sk fin" for sk] z [of "start_state sk fin" for sk]
    by (simp add: process_result_def Let_def start_state_def)
qed

lemma pass1_fields [simp]:
  "fo_continue_json (pass1_opts reqs) = (if find_quotas reqs \<noteq> [] then Some \<lparr>jc_items = 0, jc_leave_open = True\<rparr> else None)"
  "fo_suppress_empty_json (pass1_opts reqs) = (find_quotas reqs \<noteq> [])" "fo_emit_csv_header (pass1_opts reqs)"
  "fo_quotas (pass1_opts reqs) = Some (find_enforcer reqs)"
  by (simp_all add: pass1_opts_def Let_def)

lemma format_pac_env: "or_format (out_run_of env o') = ''pac'' \<longleftrightarrow> or_format (out_run_of env' o') = ''pac''"
  by (simp add: out_run_of_def effective_format_def split: option.split)

text \<open>C2: with a limit, the two passes of \<open>find\<close> together emit at most that many proxies, whatever the
  quotas, the sorting and the writes: what the second pass may emit is never zero, which would
  mean no limit. In the PAC format under quotas only each pass has the limit, so the run has twice
  it: no PAC proxy is counted in the document from which the second pass takes what is left.\<close>

theorem find_respects_limit:
  assumes "0 < oo_limit o'" and "length (concat (map item_of (fw_events1 w))) \<le> fw_passed1 w"
    and "length (fw_events1 w) < 2 ^ 63" and "length (fw_events2 w) < 2 ^ 63"
  shows "fr_rows (run_find w types o') \<le>
    (if effective_format (oo_format o') (oo_output_file o') (ev_tty (fw_env1 w)) = ''pac'' \<and>
        has_any_quota (find_enforcer (split_type_requests types))
     then 2 * oo_limit o' else oo_limit o')"
proof -
  let ?reqs = "split_type_requests types" and ?pac = "or_format (out_run_of (fw_env1 w) o') = ''pac''"
  define bound where "bound = (if ?pac \<and> has_any_quota (find_enforcer ?reqs) then 2 * oo_limit o' else oo_limit o')"
  obtain out1 st1 where p1: "process_result (fw_env1 w) o' (pass1_opts ?reqs) (fw_events1 w) = (out1, st1)" by fastforce
  have r1: "os_rows st1 \<le> oo_limit o'" "os_rows st1 \<le> fw_passed1 w"
    "find_quotas ?reqs \<noteq> [] \<Longrightarrow> os_doc st1 = Some (counted ?pac (os_rows st1))"
    using process_result_rows [OF assms(3), of "fw_env1 w" o' "pass1_opts ?reqs"] assms(1,2)
    by (auto simp: p1 rows_ok_def)
  have second: "fr_rows (second_pass w ?reqs o' st1) \<le> bound" if fb: "falls_back w ?reqs o' st1"
  proof -
    let ?lim = "pass2_limit w (has_any_quota (find_enforcer ?reqs)) (oo_limit o') st1"
    let ?o2 = "o'\<lparr>oo_limit := ?lim\<rparr>" and ?env2 = "(fw_env2 w)\<lparr>ev_existing := sk_text (os_sink st1)\<rparr>"
    have may: "find_quotas ?reqs \<noteq> []" using fb by (auto simp: falls_back_def needs_fallback_def Let_def split: if_splits)
    then have doc: "emitted_so_far w st1 = counted ?pac (os_rows st1)" using r1(3) by (simp add: emitted_so_far_def)
    have lim: "0 < ?lim" "os_rows st1 + ?lim \<le> bound"
      using fb assms(1) r1 doc
      by (auto simp: bound_def falls_back_def needs_fallback_def pass2_limit_def counted_def Let_def split: if_splits)
    have "os_rows (snd (process_result ?env2 ?o2 (pass2_opts st1) (fw_events2 w))) \<le> ?lim"
      using process_result_rows [OF assms(4), of ?env2 ?o2 "pass2_opts st1"] lim(1) by (simp add: rows_ok_def)
    moreover obtain out2 st2 where "process_result ?env2 ?o2 (pass2_opts st1) (fw_events2 w) = (out2, st2)" by fastforce
    ultimately show ?thesis using lim
      by (simp add: second_pass_def Let_def after_close_def split: start.split)
  qed
  have "os_rows st1 \<le> bound" using r1(1) by (simp add: bound_def)
  with second have "fr_rows (run_find w types o') \<le> bound"
    by (simp add: run_find_def Let_def p1 after_close_def split: option.split)
  then show ?thesis by (simp add: bound_def out_run_of_def)
qed

section \<open>One JSON document\<close>

definition bodies :: "out_env \<Rightarrow> proxy list \<Rightarrow> string list" where
  "bodies env ps = map (\<lambda>p. the (ev_json env (proxy_json p))) ps"

definition json_document :: "string list \<Rightarrow> string" where
  "json_document bs =
     (if bs = [] then ''[]'' @ [linefeed]
      else [CHR ''['', linefeed] @ ''  '' @ join ([CHR '','', linefeed] @ ''  '') bs @ [linefeed, CHR '']'', linefeed])"

lemma rendered_json_Suc:
  "list_all (renderable env ''json'') ps \<Longrightarrow>
   rendered env ''json'' (Suc n) ps = concat (map (\<lambda>b. [CHR '','', linefeed] @ ''  '' @ b) (bodies env ps))"
proof (induction ps arbitrary: n)
  case (Cons p ps)
  then have "render_item env ''json'' (Suc n) p \<noteq> None" by (simp add: renderable_any)
  then obtain b where "ev_json env (proxy_json p) = Some b" by (auto simp: render_item_def write_json_item_def split: option.splits)
  with Cons show ?case by (simp add: rendered_Cons render_item_def write_json_item_def bodies_def)
qed (simp add: bodies_def)

lemma join_concat: "join sep (b # bs) = b @ concat (map (\<lambda>x. sep @ x) bs)"
  by (induction bs arbitrary: b) auto

lemma rendered_json:
  assumes "list_all (renderable env ''json'') ps"
  shows "rendered env ''json'' 0 ps @ json_closing (length ps) False True = json_document (bodies env ps)"
proof (cases ps)
  case Nil
  then show ?thesis by (simp add: json_document_def json_closing_def bodies_def)
next
  case (Cons p qs)
  with assms have "render_item env ''json'' 0 p \<noteq> None" by (simp add: renderable_any)
  then obtain b where b: "ev_json env (proxy_json p) = Some b" by (auto simp: render_item_def write_json_item_def split: option.splits)
  have "bodies env ps = b # bodies env qs" using Cons b by (simp add: bodies_def)
  with Cons b assms show ?thesis
    by (simp add: json_document_def json_closing_def rendered_Cons render_item_def write_json_item_def
        rendered_json_Suc [of env qs 0, simplified] join_concat)
qed

lemma rendered_env: "ev_json env' = ev_json env \<Longrightarrow> rendered env' ''json'' n ps = rendered env ''json'' n ps"
  by (simp add: rendered_def render_item_def write_json_item_def)

lemma renderable_env: "ev_json env' = ev_json env \<Longrightarrow> renderable env' ''json'' = renderable env ''json''"
  by (simp add: fun_eq_iff renderable_def render_item_def write_json_item_def)

lemma close_writes:
  assumes "sound_env env o'" and "is_json (or_format (out_run_of env o'))" and "ev_flush env = None"
  shows "close_chained_json env o' n = (None, ev_existing env @ json_closing n False True)"
proof -
  have s: "ev_plan env = []" "oo_output_file o' = None \<or> ev_open_error env = None"
    using assms(1) unfolding sound_env_def by metis+
  have fl: "ev_flush env = None" by (rule assms(3))
  have j: "is_json (effective_format (oo_format o') (oo_output_file o') (ev_tty env))" using assms(2) by (simp add: out_run_of_def)
  show ?thesis
    using s j fl by (auto simp: close_chained_json_def Let_def write_output_def write_to_plain open_output_def file_flush_def
        json_closing_def split: option.split)
qed

definition quiet_world :: "out_env \<Rightarrow> event list \<Rightarrow> bool" where
  "quiet_world env es \<longleftrightarrow> Cancel \<notin> set es \<and> ev_cancel_after env = None \<and> ev_flush env = None \<and> length es < 2 ^ 63"

lemma quiet_run:
  assumes "sound_env env o'" and "quiet_world env es"
  shows "\<exists>ps. mset ps \<subseteq># mset (passing_items o' es) \<and> list_all (renderable env (or_format (out_run_of env o'))) ps \<and>
    all_written env o' fin ps (process_result env o' fin es) \<and> \<not> os_cancelled (snd (process_result env o' fin es))"
  using process_result_writes [OF assms(1), of es fin] assms(2) by (auto simp: quiet_world_def run_writes_def)

lemma closing_json:
  "or_format (out_run_of env o') = ''json'' \<Longrightarrow> closing_text env o' fin False n =
     json_closing n (fo_suppress_empty_json fin)
       (\<not> (case fo_continue_json fin of None \<Rightarrow> False | Some c \<Rightarrow> jc_leave_open c))"
  by (simp add: closing_text_def is_json_def)

lemma header_json: "or_format (out_run_of env o') = ''json'' \<Longrightarrow> header_text env o' fin = []"
  by (simp add: header_text_def)

lemma first_pass_json:
  assumes "or_format (out_run_of env o') = ''json''" and "sound_env env o'" and "quiet_world env es"
  shows "\<exists>ps st1. process_result env o' (pass1_opts reqs) es = (Ok Finished, st1) \<and>
     mset ps \<subseteq># mset (passing_items o' es) \<and> list_all (renderable env ''json'') ps \<and> os_rows st1 = length ps \<and>
     os_doc st1 = (if find_quotas reqs \<noteq> [] then Some (length ps) else None) \<and>
     sk_text (os_sink st1) = (if oo_output_file o' = None then ev_existing env else []) @ rendered env ''json'' 0 ps @
       (if find_quotas reqs \<noteq> [] then [] else json_closing (length ps) False True)"
proof -
  have app: "\<not> oo_append o'" using assms(1,2) by (simp add: sound_env_def is_json_def)
  obtain out1 st1 where p1: "process_result env o' (pass1_opts reqs) es = (out1, st1)" by fastforce
  from quiet_run [OF assms(2,3), of "pass1_opts reqs"] obtain ps where ps: "mset ps \<subseteq># mset (passing_items o' es)"
    "list_all (renderable env ''json'') ps" "all_written env o' (pass1_opts reqs) ps (out1, st1)" "\<not> os_cancelled st1"
    by (auto simp: p1 assms(1))
  have fl: "flushed env o' t = t" for t using assms(3) by (simp add: flushed_def quiet_world_def)
  have st: "start_text env o' (pass1_opts reqs) = (if oo_output_file o' = None then ev_existing env else [])"
    "start_items (pass1_opts reqs) = 0" by (simp_all add: start_text_def app continuing_json_def start_items_def)
  show ?thesis using ps(3,4)
    by (intro exI [of _ ps] exI [of _ st1] conjI)
      (auto simp: all_written_def p1 ps(1,2) st fl assms(1) header_json closing_json json_closing_def)
qed

lemma second_pass_json:
  assumes "or_format (out_run_of (fw_env2 w) o') = ''json''" and "sound_env (fw_env2 w) o'"
    and "quiet_world (fw_env2 w) (fw_events2 w)" and "fw_start2 w = Started" and "fw_candidates w \<noteq> []" and "os_doc st1 = Some n"
  shows "\<exists>qs. mset qs \<subseteq># mset (passing_items o' (fw_events2 w)) \<and> list_all (renderable (fw_env2 w) ''json'') qs \<and>
     second_pass w reqs o' st1 =
       \<lparr>fr_outcome = Ok Finished,
        fr_text = sk_text (os_sink st1) @ rendered (fw_env2 w) ''json'' n qs @ json_closing (n + length qs) False True,
        fr_rows = os_rows st1 + length qs\<rparr>"
proof -
  let ?o2 = "o'\<lparr>oo_limit := pass2_limit w (has_any_quota (find_enforcer reqs)) (oo_limit o') st1\<rparr>"
  let ?e2 = "(fw_env2 w)\<lparr>ev_existing := sk_text (os_sink st1)\<rparr>"
  have s2: "sound_env ?e2 ?o2" "or_format (out_run_of ?e2 ?o2) = ''json''" "quiet_world ?e2 (fw_events2 w)"
    using assms(1-3) by (simp_all add: sound_env_def out_run_of_def quiet_world_def)
  obtain out2 st2 where p2: "process_result ?e2 ?o2 (pass2_opts st1) (fw_events2 w) = (out2, st2)" by fastforce
  from quiet_run [OF s2(1,3), of "pass2_opts st1"]
  obtain qs where qs: "mset qs \<subseteq># mset (passing_items ?o2 (fw_events2 w))" "list_all (renderable ?e2 ''json'') qs"
    "all_written ?e2 ?o2 (pass2_opts st1) qs (out2, st2)" "\<not> os_cancelled st2" by (auto simp: p2 s2)
  have fl: "flushed ?e2 ?o2 t = t" for t using s2(3) by (simp add: flushed_def quiet_world_def)
  have fin2: "start_text ?e2 ?o2 (pass2_opts st1) = sk_text (os_sink st1)" "start_items (pass2_opts st1) = n"
    "fo_suppress_empty_json (pass2_opts st1) = False" "fo_continue_json (pass2_opts st1) = Some \<lparr>jc_items = n, jc_leave_open = False\<rparr>"
    using assms(6) by (simp_all add: start_text_def continuing_json_def start_items_def pass2_opts_def)
  have w2: "out2 = Ok Finished" "os_rows st2 = length qs"
    "sk_text (os_sink st2) = sk_text (os_sink st1) @ rendered ?e2 ''json'' n qs @ json_closing (n + length qs) False True"
    using qs(3,4) by (auto simp: all_written_def fin2 fl s2 header_json closing_json)
  have "passing_items ?o2 es = passing_items o' es" for es
    by (simp add: passing_items_def matches_options_def filter_options_def)
  moreover have "rendered ?e2 ''json'' n qs = rendered (fw_env2 w) ''json'' n qs" by (intro rendered_env) simp
  moreover have "renderable ?e2 ''json'' = renderable (fw_env2 w) ''json''" by (intro renderable_env) simp
  ultimately show ?thesis
    using w2 qs(1,2) by (intro exI [of _ qs]) (simp add: second_pass_def Let_def assms(4,5) p2)
qed

text \<open>C1: over both passes of \<open>find\<close> the JSON output is one document: when the writes succeed and
  nothing is cancelled, the destination ends with one array of the proxies emitted by the first
  and then by the second pass, separated by single commas, and empty when there is none.\<close>

theorem find_writes_one_json_document:
  assumes "effective_format (oo_format o') (oo_output_file o') (ev_tty (fw_env1 w)) = ''json''"
    and "ev_tty (fw_env2 w) = ev_tty (fw_env1 w)" and "ev_json (fw_env2 w) = ev_json (fw_env1 w)"
    and "sound_env (fw_env1 w) o'" and "sound_env (fw_env2 w) o'"
    and "quiet_world (fw_env1 w) (fw_events1 w)" and "quiet_world (fw_env2 w) (fw_events2 w)"
    and "fw_start2 w = Started"
  shows "\<exists>ps qs. fr_outcome (run_find w types o') = Ok Finished \<and>
     fr_text (run_find w types o') =
       (if oo_output_file o' = None then ev_existing (fw_env1 w) else []) @ json_document (bodies (fw_env1 w) (ps @ qs)) \<and>
     fr_rows (run_find w types o') = length (ps @ qs) \<and>
     mset ps \<subseteq># mset (passing_items o' (fw_events1 w)) \<and> mset qs \<subseteq># mset (passing_items o' (fw_events2 w))"
proof -
  let ?reqs = "split_type_requests types" and ?e1 = "fw_env1 w" and ?e2 = "fw_env2 w"
  have f1: "or_format (out_run_of ?e1 o') = ''json''" and f2: "or_format (out_run_of ?e2 o') = ''json''"
    using assms(1,2) by (simp_all add: out_run_of_def)
  from first_pass_json [OF f1 assms(4,6)] obtain ps st1 where
    p1: "process_result ?e1 o' (pass1_opts ?reqs) (fw_events1 w) = (Ok Finished, st1)" and
    ps: "mset ps \<subseteq># mset (passing_items o' (fw_events1 w))" "list_all (renderable ?e1 ''json'') ps" and
    w1: "os_rows st1 = length ps" "os_doc st1 = (if find_quotas ?reqs \<noteq> [] then Some (length ps) else None)"
      "sk_text (os_sink st1) = (if oo_output_file o' = None then ev_existing ?e1 else []) @ rendered ?e1 ''json'' 0 ps @
         (if find_quotas ?reqs \<noteq> [] then [] else json_closing (length ps) False True)" by blast
  have closed: ?thesis if "run_find w types o' = after_close (None, sk_text (os_sink st1) @ json_closing (length ps) False True) (length ps)"
      and "find_quotas ?reqs \<noteq> []"
    using that w1 ps(1) rendered_json [OF ps(2)] by (intro exI [of _ ps] exI [of _ "[]"]) (simp add: after_close_def)
  have close: "close_chained_json (?e2\<lparr>ev_existing := t\<rparr>) (o'\<lparr>oo_limit := l\<rparr>) n = (None, t @ json_closing n False True)" for t l n
    using close_writes [of "?e2\<lparr>ev_existing := t\<rparr>" "o'\<lparr>oo_limit := l\<rparr>" n] assms(5,7) f2
    by (simp add: is_json_def sound_env_def out_run_of_def quiet_world_def)
  show ?thesis
  proof (cases "falls_back w ?reqs o' st1")
    case False
    with p1 w1(1,2) close [of _ "oo_limit o'"] show ?thesis
      using w1(3) ps(1) rendered_json [OF ps(2)] closed
      by (cases "find_quotas ?reqs = []")
        (auto simp: run_find_def Let_def after_close_def intro: exI [of _ ps] exI [of _ "[]"])
  next
    case True
    then have q: "find_quotas ?reqs \<noteq> []" by (auto simp: falls_back_def needs_fallback_def Let_def split: if_splits)
    have r: "run_find w types o' = second_pass w ?reqs o' st1" using True p1 by (simp add: run_find_def Let_def)
    show ?thesis
    proof (cases "fw_candidates w = []")
      case True
      with q w1(1,2) r show ?thesis by (intro closed) (simp_all add: second_pass_def Let_def close)
    next
      case False
      from second_pass_json [OF f2 assms(5,7,8) False, of st1 "length ps" ?reqs] w1(2) q obtain qs where
        qs: "mset qs \<subseteq># mset (passing_items o' (fw_events2 w))" "list_all (renderable ?e2 ''json'') qs"
          "second_pass w ?reqs o' st1 = \<lparr>fr_outcome = Ok Finished,
             fr_text = sk_text (os_sink st1) @ rendered ?e2 ''json'' (length ps) qs @ json_closing (length ps + length qs) False True,
             fr_rows = os_rows st1 + length qs\<rparr>" by auto
      have "list_all (renderable ?e1 ''json'') (ps @ qs)" using ps(2) qs(2) renderable_env [OF assms(3)] by simp
      with rendered_json [OF this] rendered_env [OF assms(3)] r w1 q ps(1) qs show ?thesis
        by (intro exI [of _ ps] exI [of _ qs]) (simp add: rendered_append)
    qed
  qed
qed

section \<open>Examples\<close>

definition demo_env :: out_env where
  "demo_env = \<lparr>ev_tty = False, ev_open_error = None, ev_existing = [], ev_plan = [], ev_flush = None, ev_nanos = 1,
     ev_pid = 2, ev_cancel_after = None, ev_json = (\<lambda>_. Some ''{}''), ev_pretty = (\<lambda>_. Some ''{}'')\<rparr>"

definition demo_output :: "string \<Rightarrow> nat \<Rightarrow> output_options" where
  "demo_output format limit = \<lparr>oo_format = format, oo_limit = limit, oo_output_file = None, oo_sort = None, oo_order = ''asc'',
     oo_min_anonymity = None, oo_levels = [], oo_max_response_time = None, oo_min_response_time = None, oo_min_score = None,
     oo_health_file = None, oo_no_health = True, oo_exclude_type = [], oo_shuffle = False, oo_append = False\<rparr>"

definition demo_found :: proxy where
  "demo_found = proxy_new (Ipv4 1 2 3 4) 80"

definition demo_world :: find_world where
  "demo_world = \<lparr>fw_env1 = demo_env, fw_events1 = [Item demo_found], fw_passed1 = 1, fw_candidates = [demo_found],
     fw_start2 = Started, fw_env2 = demo_env, fw_events2 = [Item demo_found]\<rparr>"

definition demo_enforcer :: enforcer where
  "demo_enforcer = \<lparr>qe_quotas = [\<lparr>tq_protocol = Http Unknown, tq_quota = Some 2\<rparr>], qe_hits = [0], qe_has_groups = False\<rparr>"

lemma demo_requests:
  "split_type_requests [''HTTP=2''] =
     \<lparr>tr_quotas = [\<lparr>tq_protocol = Http Unknown, tq_quota = Some 2\<rparr>], tr_groups = [], tr_reported = []\<rparr>"
  by (simp add: split_type_requests_def split_token_def parse_single_type_def rsplit_once_def split_once_def parse_usize_def
      parse_uint_def is_digit_def dec_val_def digit_val_def parse_protocol_opt_def parse_protocol_def)

lemma demo_pac_pass:
  assumes "fo_quotas fin = Some demo_enforcer"
  shows "\<exists>st. process_result (demo_env\<lparr>ev_existing := t\<rparr>) (demo_output ''pac'' 1) fin [Item demo_found] = (Ok Finished, st) \<and>
    os_rows st = 1 \<and> os_quotas st = Some demo_enforcer \<and> os_doc st = map_option jc_items (fo_continue_json fin)"
proof -
  have m: "matches_options (demo_output ''pac'' 1) demo_found"
    by (simp add: matches_options_def filter_matches_def filter_from_options_def filter_options_def demo_output_def List.map_filter_simps)
  have g: "quota_gate demo_found (Some demo_enforcer) = (EmitItem, Some demo_enforcer)"
    by (simp add: quota_gate_def should_emit_def shares_family_def carried_types_def demo_found_def proxy_new_def demo_enforcer_def)
  have f: "out_run_of (demo_env\<lparr>ev_existing := t\<rparr>) (demo_output ''pac'' 1) =
      \<lparr>or_env = demo_env\<lparr>ev_existing := t\<rparr>, or_options = demo_output ''pac'' 1, or_format = ''pac'', or_to_file = False,
       or_quotas_applied = False\<rparr>"
    by (simp add: out_run_of_def effective_format_def demo_output_def buffered_path_def)
  have o: "\<not> oo_append (demo_output ''pac'' 1)" "\<not> buffered_path (demo_output ''pac'' 1)" "oo_limit (demo_output ''pac'' 1) = 1"
    "ev_plan (demo_env\<lparr>ev_existing := t\<rparr>) = []"
    by (simp_all add: demo_output_def buffered_path_def demo_env_def)
  show ?thesis
    unfolding process_result_def Let_def f
    by (simp add: o process_opened_def run_loop_def matches_fold m start_state_def assms loop_gate_def g Let_def limit_reached_def
        pac_finish_def write_to_plain flush_output_def del: One_nat_def)
qed

text \<open>The bound for PAC under quotas is reached: two proxies with a limit of one.\<close>

lemma demo_pac_rows: "fr_rows (run_find demo_world [''HTTP=2''] (demo_output ''pac'' 1)) = 2"
proof -
  let ?reqs = "split_type_requests [''HTTP=2'']" and ?o = "demo_output ''pac'' 1"
  have e: "find_enforcer ?reqs = demo_enforcer" "find_quotas ?reqs \<noteq> []" "has_any_quota demo_enforcer" "tr_groups ?reqs = []"
    by (simp_all add: demo_requests find_enforcer_def find_quotas_def set_has_groups_def enforcer_new_def demo_enforcer_def
        has_any_quota_def)
  have w: "fw_env1 demo_world = demo_env\<lparr>ev_existing := []\<rparr>" "fw_env2 demo_world = demo_env" "fw_start2 demo_world = Started"
    "fw_events1 demo_world = [Item demo_found]" "fw_events2 demo_world = [Item demo_found]" "fw_candidates demo_world \<noteq> []"
    by (simp_all add: demo_world_def demo_env_def)
  have o: "oo_limit ?o = 1" "?o\<lparr>oo_limit := 1\<rparr> = ?o" by (simp_all add: demo_output_def)
  from demo_pac_pass [of "pass1_opts ?reqs" "[]"] obtain st1 where
    p1: "process_result (fw_env1 demo_world) ?o (pass1_opts ?reqs) (fw_events1 demo_world) = (Ok Finished, st1)"
      "os_rows st1 = 1" "os_quotas st1 = Some demo_enforcer" "os_doc st1 = Some 0"
    by (auto simp: w e)
  from demo_pac_pass [of "pass2_opts st1" "sk_text (os_sink st1)"] obtain st2 where
    p2: "process_result (demo_env\<lparr>ev_existing := sk_text (os_sink st1)\<rparr>) ?o (pass2_opts st1) [Item demo_found] = (Ok Finished, st2)"
      "os_rows st2 = 1"
    by (auto simp: pass2_opts_def p1)
  have "falls_back demo_world ?reqs ?o st1" "pass2_limit demo_world True 1 st1 = 1"
    by (simp_all add: falls_back_def needs_fallback_def e p1 o emitted_so_far_def pass2_limit_def Let_def del: One_nat_def)
  then show ?thesis
    by (simp add: run_find_def Let_def p1 [unfolded w] second_pass_def e w o p2 del: One_nat_def)
qed

theorem find_respects_limit_witness:
  "fr_rows (run_find demo_world [''HTTP''] (demo_output ''json'' 2)) \<le> 2 \<and>
   fr_rows (run_find demo_world [''HTTP=2''] (demo_output ''pac'' 1)) = 2"
  using find_respects_limit [of "demo_output ''json'' 2" demo_world "[''HTTP'']"] demo_pac_rows
  by (simp add: demo_output_def demo_world_def effective_format_def)

theorem find_writes_one_json_document_witness:
  "\<exists>ps qs. fr_text (run_find demo_world [''HTTP''] (demo_output ''json'' 2)) = json_document (bodies demo_env (ps @ qs)) \<and>
     set (ps @ qs) \<subseteq> {demo_found}"
proof -
  have "\<exists>ps qs. fr_outcome (run_find demo_world [''HTTP''] (demo_output ''json'' 2)) = Ok Finished \<and>
     fr_text (run_find demo_world [''HTTP''] (demo_output ''json'' 2)) =
       (if oo_output_file (demo_output ''json'' 2) = None then ev_existing (fw_env1 demo_world) else []) @
       json_document (bodies (fw_env1 demo_world) (ps @ qs)) \<and>
     fr_rows (run_find demo_world [''HTTP''] (demo_output ''json'' 2)) = length (ps @ qs) \<and>
     mset ps \<subseteq># mset (passing_items (demo_output ''json'' 2) (fw_events1 demo_world)) \<and>
     mset qs \<subseteq># mset (passing_items (demo_output ''json'' 2) (fw_events2 demo_world))"
    by (rule find_writes_one_json_document)
      (simp_all add: demo_output_def demo_world_def demo_env_def effective_format_def sound_env_def out_run_of_def is_json_def quiet_world_def)
  then obtain ps qs where "fr_text (run_find demo_world [''HTTP''] (demo_output ''json'' 2)) = json_document (bodies demo_env (ps @ qs))"
    "mset ps \<subseteq># mset (passing_items (demo_output ''json'' 2) [Item demo_found])"
    "mset qs \<subseteq># mset (passing_items (demo_output ''json'' 2) [Item demo_found])"
    by (auto simp: demo_output_def demo_world_def demo_env_def)
  then show ?thesis
    by (intro exI [of _ ps] exI [of _ qs]) (auto dest!: set_mset_mono split: if_splits)
qed

section \<open>One run over a stream\<close>

text \<open>C3: an unsorted run without quotas writes exactly the first proxies, up to the limit, that the
  filter keeps and the format can render, in the order of the stream, after the header and
  before the closing of the format. A failing flush loses the end of the file, and the run is
  still reported as finished.\<close>

theorem streamed_output_exact:
  assumes "sound_env env o'" and "\<not> buffered_path o'" and "fo_quotas fin = None"
    and "ps = first_of (oo_limit o') 0 (filter (\<lambda>p. matches_options o' p \<and> renderable env (or_format (out_run_of env o')) p) xs)"
  shows "fst (process_result env o' fin (map Item xs)) = Ok Finished \<and>
    os_rows (snd (process_result env o' fin (map Item xs))) = length ps \<and>
    sk_text (os_sink (snd (process_result env o' fin (map Item xs)))) = flushed env o'
      (start_text env o' fin @ header_text env o' fin @
       rendered env (or_format (out_run_of env o')) (start_items fin) ps @
       closing_text env o' fin False (start_items fin + length ps))"
proof -
  let ?run = "out_run_of env o'" and ?a = "oo_append o' \<and> oo_output_file o' \<noteq> None \<and> ev_existing env \<noteq> []"
  let ?st = "start_state \<lparr>sk_text = start_text env o' fin, sk_plan = []\<rparr> fin"
  let ?st1 = "?st\<lparr>os_sink := \<lparr>sk_text = start_text env o' fin @ header_text env o' fin, sk_plan = []\<rparr>\<rparr>"
  have z: "os_rows ?st1 = 0" "os_quotas ?st1 = None" "os_cancelled ?st1 = False"
    using assms(3) by (simp_all add: start_state_def)
  have "out_loop ?run (map Item xs) ?st1 = written ?run ps None False ?st1"
    using out_loop_exact [of ?st1 ?run xs] z assms(4) by (cases "oo_limit o' = 0") (simp_all add: output_items_def)
  from run_loop_written [OF assms(1) start_state_ok refl this] assms(2)
  have "all_written env o' fin ps (process_result env o' fin (map Item xs)) \<and>
      \<not> os_cancelled (snd (process_result env o' fin (map Item xs)))"
    by (simp add: process_unfold [OF assms(1)] process_opened_def)
  then show ?thesis by (simp add: all_written_def)
qed

theorem streamed_output_exact_witness:
  "sk_text (os_sink (snd (process_result demo_env (demo_output ''text'' 1) finalize_default (map Item [demo_found, demo_found])))) =
     ''1.2.3.4:80'' @ [linefeed]"
proof -
  have m: "matches_options (demo_output ''text'' 1) demo_found"
    by (simp add: matches_options_def filter_matches_def filter_from_options_def filter_options_def demo_output_def List.map_filter_simps)
  have r: "or_format (out_run_of demo_env (demo_output ''text'' 1)) = ''text''"
    by (simp add: out_run_of_def effective_format_def demo_output_def)
  have t: "px_text demo_found = ''1.2.3.4:80''" by (simp add: demo_found_def proxy_new_def) code_simp
  show ?thesis
    using streamed_output_exact [of demo_env "demo_output ''text'' 1" finalize_default "[demo_found]" "[demo_found, demo_found]"]
      m r t
    by (simp add: sound_env_def demo_env_def demo_output_def buffered_path_def finalize_default_def renderable_def
        render_item_def first_of_def flushed_def start_text_def continuing_json_def header_text_def closing_text_def
        rendered_Cons is_json_def)
qed















section \<open>PAC files\<close>

lemma pac_not_cancelled: "Cancel \<notin> set es \<Longrightarrow> ps_cancelled (pac_loop run es st) = ps_cancelled st"
  by (induction run es st rule: pac_loop.induct) (auto simp: Let_def split: prod.split gate.split)

lemma pac_run:
  assumes "or_format (out_run_of env o') = ''pac''" and "ev_plan env = []" and "quiet_world env es"
    and "oo_output_file o' = None \<or> ev_open_error env = None" and "\<not> buffered_path o'"
  shows "\<exists>ps st. process_result env o' fin es = (Ok Finished, st) \<and> os_doc st = map_option jc_items (fo_continue_json fin) \<and>
    sk_text (os_sink st) = start_text env o' fin @ render_pac ps"
proof -
  have o: "\<not> (or_to_file (out_run_of env o') \<and> ev_open_error env \<noteq> None)" using assms(4) by (auto simp: out_run_of_def)
  have j: "\<not> (oo_append o' \<and> is_json (or_format (out_run_of env o')))" by (simp add: assms(1) is_json_def)
  have q: "ev_flush env = None" "Cancel \<notin> set es" using assms(3) by (simp_all add: quiet_world_def)
  have f: "or_to_file (out_run_of env o') = (oo_output_file o' \<noteq> None)" by (simp add: out_run_of_def)
  let ?sk = "\<lparr>sk_text = start_text env o' fin, sk_plan = []\<rparr>"
  have p: "process_result env o' fin es =
      process_opened (out_run_of env o') fin (oo_append o' \<and> oo_output_file o' \<noteq> None \<and> ev_existing env \<noteq> []) es (start_state ?sk fin)"
    unfolding process_result_def Let_def if_not_P [OF j] if_not_P [OF o]
    by (simp add: f assms(2) open_output_def start_text_def start_state_def)
  let ?ps = "pac_loop (out_run_of env o') es \<lparr>ps_proxies = [], ps_rows = os_rows (start_state ?sk fin), ps_quotas = os_quotas (start_state ?sk fin), ps_cancelled = os_cancelled (start_state ?sk fin)\<rparr>"
  have "\<not> ps_cancelled ?ps" using pac_not_cancelled [OF q(2)] by simp
  then show ?thesis unfolding p
    by (intro exI [of _ "ps_proxies ?ps"])
      (simp add: process_opened_def assms(1,5) run_loop_def pac_finish_def Let_def write_to_plain flush_output_def
        file_flush_def q(1) start_state_def)
qed

text \<open>A PAC output whose first pass stayed below the limit holds two functions of the same name
  after the second pass, so the proxies of the first pass are not used by a reader, for whom
  the last definition counts.\<close>

theorem find_pac_writes_two_functions:
  assumes "effective_format (oo_format o') (oo_output_file o') (ev_tty (fw_env1 w)) = ''pac''"
    and "ev_tty (fw_env2 w) = ev_tty (fw_env1 w)" and "ev_plan (fw_env1 w) = []" and "ev_plan (fw_env2 w) = []"
    and "quiet_world (fw_env1 w) (fw_events1 w)" and "quiet_world (fw_env2 w) (fw_events2 w)"
    and "oo_output_file o' = None \<or> ev_open_error (fw_env1 w) = None \<and> ev_open_error (fw_env2 w) = None"
    and "\<not> buffered_path o'" and "find_quotas (split_type_requests types) \<noteq> []"
    and "\<not> has_any_quota (find_enforcer (split_type_requests types))" and "fw_passed1 w < oo_limit o'"
    and "fw_candidates w \<noteq> []" and "fw_start2 w = Started"
  shows "\<exists>start ps qs. fr_outcome (run_find w types o') = Ok Finished \<and>
    fr_text (run_find w types o') = start @ render_pac ps @ render_pac qs"
proof -
  let ?reqs = "split_type_requests types"
  have f1: "or_format (out_run_of (fw_env1 w) o') = ''pac''" using assms(1) by (simp add: out_run_of_def)
  have o1: "oo_output_file o' = None \<or> ev_open_error (fw_env1 w) = None" using assms(7) by auto
  have o2: "oo_output_file o' = None \<or> ev_open_error (fw_env2 w) = None" using assms(7) by auto
  from pac_run [OF f1 assms(3,5) o1 assms(8), of "pass1_opts ?reqs"] obtain ps st1 where
    p1: "process_result (fw_env1 w) o' (pass1_opts ?reqs) (fw_events1 w) = (Ok Finished, st1)"
      "os_doc st1 = Some 0" "sk_text (os_sink st1) = start_text (fw_env1 w) o' (pass1_opts ?reqs) @ render_pac ps"
    using assms(9) by auto
  have fb: "falls_back w ?reqs o' st1"
    using assms(9-11) by (simp add: falls_back_def needs_fallback_def)
  let ?e2 = "(fw_env2 w)\<lparr>ev_existing := sk_text (os_sink st1)\<rparr>"
  let ?o2 = "o'\<lparr>oo_limit := pass2_limit w (has_any_quota (find_enforcer ?reqs)) (oo_limit o') st1\<rparr>"
  have "\<exists>qs st2. process_result ?e2 ?o2 (pass2_opts st1) (fw_events2 w) = (Ok Finished, st2) \<and>
      os_doc st2 = map_option jc_items (fo_continue_json (pass2_opts st1)) \<and>
      sk_text (os_sink st2) = start_text ?e2 ?o2 (pass2_opts st1) @ render_pac qs"
    using assms(1,2,4,6,8) o2 by (intro pac_run) (simp_all add: out_run_of_def quiet_world_def buffered_path_def)
  moreover have "start_text ?e2 ?o2 (pass2_opts st1) = sk_text (os_sink st1)"
    by (simp add: start_text_def continuing_json_def pass2_opts_def p1(2))
  ultimately obtain qs st2 where p2: "process_result ?e2 ?o2 (pass2_opts st1) (fw_events2 w) = (Ok Finished, st2)"
    "sk_text (os_sink st2) = start_text (fw_env1 w) o' (pass1_opts ?reqs) @ render_pac ps @ render_pac qs" using p1(3) by auto
  show ?thesis
    by (intro exI [of _ "start_text (fw_env1 w) o' (pass1_opts ?reqs)"] exI [of _ ps] exI [of _ qs])
      (simp add: run_find_def second_pass_def Let_def p1(1) fb assms(12,13) p2)
qed

theorem find_pac_writes_two_functions_witness:
  "\<exists>start ps qs. fr_text (run_find demo_world [''SOCKS5''] (demo_output ''pac'' 2)) = start @ render_pac ps @ render_pac qs"
proof -
  have t: "split_type_requests [''SOCKS5''] = \<lparr>tr_quotas = [tq_uncapped Socks5], tr_groups = [], tr_reported = []\<rparr>"
    by code_simp
  have "\<exists>start ps qs. fr_outcome (run_find demo_world [''SOCKS5''] (demo_output ''pac'' 2)) = Ok Finished \<and>
    fr_text (run_find demo_world [''SOCKS5''] (demo_output ''pac'' 2)) = start @ render_pac ps @ render_pac qs"
    by (rule find_pac_writes_two_functions)
      (simp_all add: t demo_world_def demo_env_def demo_output_def effective_format_def quiet_world_def buffered_path_def
        find_quotas_def find_enforcer_def set_has_groups_def enforcer_new_def has_any_quota_def tq_uncapped_def)
  then show ?thesis by blast
qed

end
