(* ===== verification/Proxynova.thy ===== *)
theory Proxynova
  imports Rust_Chars Parsers_Text Body_Fetch "HOL-Library.Extended_Nat"
begin

text \<open>
  The decoder of the obfuscated addresses of one provider (\<open>src/providers/proxynova.rs\<close>): a recursive
  descent evaluator of a small expression language over texts and arrays. The parser's state is
  the rest of its input. The recursion of \<open>parse_expr\<close> through the arguments of \<open>concat\<close> is cut at a
  depth, which stands for the stack; \<open>Deep\<close> says that it was reached. Base64 is a parameter.
\<close>

section \<open>Values and results\<close>

definition MAX_EVAL_LEN :: nat where "MAX_EVAL_LEN = 512"

definition MAX_CHARCODE_LEN :: nat where "MAX_CHARCODE_LEN = 64"

datatype elem = Num int | Txt string

datatype val = Str string | Arr "elem list"

datatype 'a parsed = Parsed 'a string | Failed | Deep

fun pbind :: "'a parsed \<Rightarrow> ('a \<Rightarrow> string \<Rightarrow> 'b parsed) \<Rightarrow> 'b parsed" where
  "pbind (Parsed x r) f = f x r"
| "pbind Failed f = Failed"
| "pbind Deep f = Deep"

definition of_opt :: "'a option \<Rightarrow> string \<Rightarrow> 'a parsed" where
  "of_opt x r = (case x of None \<Rightarrow> Failed | Some v \<Rightarrow> Parsed v r)"

definition in_i64 :: "int \<Rightarrow> int option" where
  "in_i64 n = (if - (2 ^ 63) \<le> n \<and> n < 2 ^ 63 then Some n else None)"

section \<open>Tokens\<close>

definition skip_ws :: "string \<Rightarrow> string" where
  "skip_ws s = dropWhile is_ascii_ws s"

text \<open>\<open>peek() == Some(c)\<close> and the rest after it.\<close>

definition peeks :: "char \<Rightarrow> string \<Rightarrow> string option" where
  "peeks c s = (case s of [] \<Rightarrow> None | d # r \<Rightarrow> (if d = c then Some r else None))"

definition expect_byte :: "char \<Rightarrow> string \<Rightarrow> unit parsed" where
  "expect_byte c s = (case peeks c (skip_ws s) of None \<Rightarrow> Failed | Some r \<Rightarrow> Parsed () r)"

definition ident_char :: "char \<Rightarrow> bool" where
  "ident_char c \<longleftrightarrow> is_alpha c \<or> is_digit c \<or> c = CHR ''_'' \<or> c = CHR ''$''"

definition parse_ident :: "string \<Rightarrow> string parsed" where
  "parse_ident s =
     (case skip_ws s of
        [] \<Rightarrow> Failed
      | c # r \<Rightarrow>
          (if is_alpha c \<or> c = CHR ''_'' \<or> c = CHR ''$''
           then Parsed (c # takeWhile ident_char r) (dropWhile ident_char r) else Failed))"

definition quote :: char where "quote = char_of (34 :: nat)"

definition backslash :: char where "backslash = char_of (92 :: nat)"

definition unescape :: "char \<Rightarrow> char option" where
  "unescape c =
     (if c = quote \<or> c = backslash then Some c
      else if c = CHR ''n'' then Some (char_of (10 :: nat))
      else if c = CHR ''t'' then Some (char_of (9 :: nat))
      else if c = CHR ''r'' then Some (char_of (13 :: nat))
      else None)"

text \<open>The body of a literal. It is a part of a text between ASCII bytes, so it is valid UTF-8 again.\<close>

fun string_body :: "string \<Rightarrow> string parsed" where
  "string_body [] = Failed"
| "string_body (c # r) =
     (if c = quote then Parsed [] r
      else if c = backslash then
        (case r of
           [] \<Rightarrow> Failed
         | e # r' \<Rightarrow>
             (case unescape e of
                None \<Rightarrow> Failed
              | Some b \<Rightarrow> pbind (string_body r') (\<lambda>bs. Parsed (b # bs))))
      else pbind (string_body r) (\<lambda>bs. Parsed (c # bs)))"

definition parse_string :: "string \<Rightarrow> string parsed" where
  "parse_string s = pbind (expect_byte quote s) (\<lambda>_. string_body)"

definition parse_number :: "string \<Rightarrow> int parsed" where
  "parse_number s =
     (let t = skip_ws s;
          (sign, ds) = (case peeks (CHR ''-'') t of Some r \<Rightarrow> (''-'', r) | None \<Rightarrow> ([], t))
      in if takeWhile is_digit ds = [] then Failed
         else of_opt (parse_i64 (sign @ takeWhile is_digit ds)) (dropWhile is_digit ds))"

lemma dropWhile_length [simp]: "length (dropWhile P s) \<le> length s"
  by (rule length_dropWhile_le)

lemma skip_ws_length [simp]: "length (skip_ws s) \<le> length s"
  by (simp add: skip_ws_def)

lemma peeks_length: "peeks c s = Some r \<Longrightarrow> length r < length s"
  by (auto simp: peeks_def split: list.splits if_splits)

lemma peeks_skip_length: "peeks c (skip_ws s) = Some r \<Longrightarrow> length r < length s"
  using peeks_length skip_ws_length less_le_trans by blast

lemma dropWhile_less: "takeWhile P s \<noteq> [] \<Longrightarrow> length (dropWhile P s) < length s"
  by (cases s) (auto simp: le_imp_less_Suc length_dropWhile_le split: if_splits)

lemma parse_number_length: "parse_number s = Parsed n r \<Longrightarrow> length r < length s"
proof -
  assume a: "parse_number s = Parsed n r"
  obtain sign ds where d: "(case peeks (CHR ''-'') (skip_ws s) of Some r \<Rightarrow> (''-'', r) | None \<Rightarrow> ([], skip_ws s)) = (sign, ds)"
    by fastforce
  then have "length ds \<le> length s"
    using peeks_skip_length [of "CHR ''-''" s] skip_ws_length [of s] by (auto split: option.splits simp del: skip_ws_length)
  moreover from a d have "takeWhile is_digit ds \<noteq> []" "r = dropWhile is_digit ds"
    by (auto simp: parse_number_def Let_def of_opt_def split: if_splits option.splits prod.splits)
  ultimately show ?thesis using dropWhile_less [of is_digit ds] by simp
qed

text \<open>The rest of a sum, and of an array of numbers.\<close>

function arith_loop :: "int \<Rightarrow> string \<Rightarrow> int parsed" where
  "arith_loop v s =
     (case skip_ws s of
        [] \<Rightarrow> Parsed v []
      | c # r \<Rightarrow>
          (if c = CHR ''+'' \<or> c = CHR ''-''
           then (case parse_number r of
                   Parsed n r' \<Rightarrow>
                     (case in_i64 (if c = CHR ''+'' then v + n else v - n) of
                        None \<Rightarrow> Failed | Some v' \<Rightarrow> arith_loop v' r')
                 | Failed \<Rightarrow> Failed | Deep \<Rightarrow> Deep)
           else Parsed v (c # r)))"
  by pat_completeness auto
termination
proof (relation "measure (\<lambda>(_, s). length s)", goal_cases)
  case (2 v s c r n r' v')
  then have "length r' < length r" "length (c # r) \<le> length s" using parse_number_length skip_ws_length by metis+
  then show ?case by simp
qed simp

definition parse_arith :: "string \<Rightarrow> int parsed" where
  "parse_arith s = pbind (parse_number s) arith_loop"

function array_loop :: "elem list \<Rightarrow> string \<Rightarrow> elem list parsed" where
  "array_loop xs s =
     (case parse_number s of
        Parsed n r \<Rightarrow>
          (case skip_ws r of
             [] \<Rightarrow> Failed
           | c # r' \<Rightarrow>
               (if c = CHR '','' then array_loop (xs @ [Num n]) r'
                else if c = CHR '']'' then Parsed (xs @ [Num n]) r' else Failed))
      | Failed \<Rightarrow> Failed | Deep \<Rightarrow> Deep)"
  by pat_completeness auto
termination
proof (relation "measure (\<lambda>(_, s). length s)", goal_cases)
  case (2 xs s n r c r')
  then have "length r < length s" "length (c # r') \<le> length r" using parse_number_length skip_ws_length by metis+
  then show ?case by simp
qed simp

declare arith_loop.simps [simp del] array_loop.simps [simp del]

definition parse_array :: "string \<Rightarrow> elem list parsed" where
  "parse_array s =
     pbind (expect_byte (CHR ''['') s) (\<lambda>_ r.
       case peeks (CHR '']'') (skip_ws r) of Some r' \<Rightarrow> Parsed [] r' | None \<Rightarrow> array_loop [] r)"

section \<open>Methods\<close>

definition valid_text :: "string \<Rightarrow> bool" where
  "valid_text s \<longleftrightarrow> valid_utf8 (map (\<lambda>c. of_nat (byte c)) s)"

definition parse_primary :: "(string \<Rightarrow> string option) \<Rightarrow> string \<Rightarrow> val parsed" where
  "parse_primary base64 s =
     (case skip_ws s of
        [] \<Rightarrow> Failed
      | c # r \<Rightarrow>
          (if c = quote then pbind (parse_string (c # r)) (\<lambda>t. Parsed (Str t))
           else if c = CHR ''['' then pbind (parse_array (c # r)) (\<lambda>xs. Parsed (Arr xs))
           else pbind (parse_ident (c # r)) (\<lambda>name r.
             if name \<noteq> ''atob'' then Failed
             else pbind (expect_byte (CHR ''('') r) (\<lambda>_ r.
               pbind (parse_string r) (\<lambda>payload r.
                 pbind (expect_byte (CHR '')'') r) (\<lambda>_ r.
                   case base64 (trim payload) of
                     None \<Rightarrow> Failed
                   | Some t \<Rightarrow> (if valid_text t then Parsed (Str t) r else Failed)))))))"

definition as_str :: "val \<Rightarrow> string \<Rightarrow> string parsed" where
  "as_str v r = (case v of Str t \<Rightarrow> Parsed t r | Arr _ \<Rightarrow> Failed)"

definition as_arr :: "val \<Rightarrow> string \<Rightarrow> elem list parsed" where
  "as_arr v r = (case v of Arr xs \<Rightarrow> Parsed xs r | Str _ \<Rightarrow> Failed)"

definition substring_of :: "string \<Rightarrow> int \<Rightarrow> int \<Rightarrow> string" where
  "substring_of text start until =
     (let chars = utf8_chars text; len = int (length chars);
          a = max 0 (min start len); b = max 0 (min until len)
      in concat (take (nat (max a b) - nat (min a b)) (drop (nat (min a b)) chars)))"

definition I64_MAX :: int where "I64_MAX = 2 ^ 63 - 1"

definition apply_substring :: "val \<Rightarrow> string \<Rightarrow> val parsed" where
  "apply_substring v s =
     pbind (expect_byte (CHR ''('') s) (\<lambda>_ r.
       pbind (parse_arith r) (\<lambda>start r.
         pbind (case peeks (CHR '','') (skip_ws r) of Some r' \<Rightarrow> parse_arith r' | None \<Rightarrow> Parsed I64_MAX (skip_ws r)) (\<lambda>until r.
           pbind (expect_byte (CHR '')'') r) (\<lambda>_ r.
             pbind (as_str v r) (\<lambda>text. Parsed (Str (substring_of text start until)))))))"

definition apply_repeat :: "val \<Rightarrow> string \<Rightarrow> val parsed" where
  "apply_repeat v s =
     pbind (expect_byte (CHR ''('') s) (\<lambda>_ r.
       pbind (parse_arith r) (\<lambda>n r.
         pbind (expect_byte (CHR '')'') r) (\<lambda>_ r.
           pbind (as_str v r) (\<lambda>text r.
             if n < 0 \<or> MAX_EVAL_LEN < length text * nat n then Failed
             else Parsed (Str (if text = [] then [] else concat (replicate (nat n) text))) r))))"

definition apply_split :: "val \<Rightarrow> string \<Rightarrow> val parsed" where
  "apply_split v s =
     pbind (expect_byte (CHR ''('') s) (\<lambda>_ r.
       pbind (parse_string r) (\<lambda>sep r.
         pbind (expect_byte (CHR '')'') r) (\<lambda>_ r.
           pbind (as_str v r) (\<lambda>text.
             Parsed (Arr (map Txt (if sep = [] then utf8_chars text else split_str sep text)))))))"

definition elem_text :: "elem \<Rightarrow> string" where
  "elem_text e = (case e of Num n \<Rightarrow> show_int n | Txt t \<Rightarrow> t)"

fun join_loop :: "string \<Rightarrow> string \<Rightarrow> elem list \<Rightarrow> string option" where
  "join_loop sep out [] = Some out"
| "join_loop sep out (e # es) =
     (if MAX_EVAL_LEN < length (out @ elem_text e) then None
      else (case es of [] \<Rightarrow> Some (out @ elem_text e) | _ \<Rightarrow> join_loop sep (out @ elem_text e @ sep) es))"

definition apply_join :: "val \<Rightarrow> string \<Rightarrow> val parsed" where
  "apply_join v s =
     pbind (expect_byte (CHR ''('') s) (\<lambda>_ r.
       pbind (parse_string r) (\<lambda>sep r.
         pbind (expect_byte (CHR '')'') r) (\<lambda>_ r.
           case v of
             Str text \<Rightarrow> Parsed (Str text) r
           | Arr es \<Rightarrow> of_opt (map_option Str (join_loop sep [] es)) r)))"

definition apply_reverse :: "val \<Rightarrow> string \<Rightarrow> val parsed" where
  "apply_reverse v s =
     pbind (expect_byte (CHR ''('') s) (\<lambda>_ r.
       pbind (expect_byte (CHR '')'') r) (\<lambda>_ r.
         pbind (as_arr v r) (\<lambda>es. Parsed (Arr (rev es)))))"

text \<open>The arguments of \<open>concat\<close>, evaluated by \<open>p\<close>; \<open>n\<close> bounds their number.\<close>

fun concat_args :: "(string \<Rightarrow> val parsed) \<Rightarrow> nat \<Rightarrow> string \<Rightarrow> string \<Rightarrow> val parsed" where
  "concat_args p 0 text s = Deep"
| "concat_args p (Suc n) text s =
     pbind (p s) (\<lambda>v r. pbind (as_str v r) (\<lambda>part r.
       if MAX_EVAL_LEN < length (text @ part) then Failed
       else (case skip_ws r of
               [] \<Rightarrow> Failed
             | c # r' \<Rightarrow>
                 (if c = CHR '','' then concat_args p n (text @ part) r'
                  else if c = CHR '')'' then Parsed (Str (text @ part)) r' else Failed))))"

definition apply_concat :: "(string \<Rightarrow> val parsed) \<Rightarrow> val \<Rightarrow> string \<Rightarrow> val parsed" where
  "apply_concat p v s =
     pbind (expect_byte (CHR ''('') s) (\<lambda>_ r.
       pbind (as_str v r) (\<lambda>text r.
         case peeks (CHR '')'') (skip_ws r) of
           Some r' \<Rightarrow> Parsed (Str text) r'
         | None \<Rightarrow> concat_args p (Suc (length r)) text (skip_ws r)))"

text \<open>A code that does not fit or is no character is skipped; too long a result is an error.\<close>

fun from_char_codes :: "int \<Rightarrow> string \<Rightarrow> elem list \<Rightarrow> string option" where
  "from_char_codes offset out [] = Some out"
| "from_char_codes offset out (Txt t # es) = None"
| "from_char_codes offset out (Num code # es) =
     (case in_i64 (code - offset) of
        None \<Rightarrow> from_char_codes offset out es
      | Some k \<Rightarrow>
          (if k < 0 \<or> 2 ^ 32 \<le> k then from_char_codes offset out es
           else (case encode_char (nat k) of
                   None \<Rightarrow> from_char_codes offset out es
                 | Some ch \<Rightarrow>
                     (if MAX_CHARCODE_LEN < length out + length ch then None
                      else from_char_codes offset (out @ ch) es))))"

definition parse_map_body :: "val \<Rightarrow> string \<Rightarrow> string \<Rightarrow> val parsed" where
  "parse_map_body v param s =
     pbind (case peeks (CHR ''S'') (skip_ws s) of
              None \<Rightarrow> Parsed () (skip_ws s)
            | Some _ \<Rightarrow> pbind (parse_ident s) (\<lambda>name r. if name \<noteq> ''String'' then Failed else expect_byte (CHR ''.'') r)) (\<lambda>_ r.
       pbind (parse_ident r) (\<lambda>name r.
         if name \<noteq> ''fromCharCode'' then Failed
         else pbind (expect_byte (CHR ''('') r) (\<lambda>_ r.
           pbind (parse_ident r) (\<lambda>name r.
             if name \<noteq> param then Failed
             else pbind (case peeks (CHR ''-'') (skip_ws r) of Some r' \<Rightarrow> parse_number r' | None \<Rightarrow> Parsed 0 (skip_ws r)) (\<lambda>offset r.
               pbind (expect_byte (CHR '')'') r) (\<lambda>_ r.
                 pbind (expect_byte (CHR '')'') r) (\<lambda>_ r.
                   pbind (as_arr v r) (\<lambda>es. of_opt (map_option Str (from_char_codes offset [] es))))))))))"

definition expect_arrow :: "string \<Rightarrow> unit parsed" where
  "expect_arrow s = pbind (expect_byte (CHR ''='') s) (\<lambda>_. expect_byte (CHR ''>''))"

definition apply_map :: "val \<Rightarrow> string \<Rightarrow> val parsed" where
  "apply_map v s =
     pbind (expect_byte (CHR ''('') s) (\<lambda>_ r.
       case peeks (CHR ''('') (skip_ws r) of
         Some r' \<Rightarrow>
           pbind (parse_ident r') (\<lambda>param r.
             pbind (expect_byte (CHR '')'') r) (\<lambda>_ r.
               pbind (expect_arrow r) (\<lambda>_. parse_map_body v param)))
       | None \<Rightarrow>
           pbind (parse_ident r) (\<lambda>param r.
             pbind (expect_arrow r) (\<lambda>_. parse_map_body v param)))"

section \<open>Expressions\<close>

definition apply_method :: "(string \<Rightarrow> val parsed) \<Rightarrow> string \<Rightarrow> val \<Rightarrow> string \<Rightarrow> val parsed" where
  "apply_method p name v s =
     (if name = ''substring'' then apply_substring v s
      else if name = ''repeat'' then apply_repeat v s
      else if name = ''split'' then apply_split v s
      else if name = ''reverse'' then apply_reverse v s
      else if name = ''join'' then apply_join v s
      else if name = ''concat'' then apply_concat p v s
      else if name = ''map'' then apply_map v s
      else Failed)"

text \<open>The chain of methods; \<open>n\<close> bounds its length.\<close>

fun methods :: "(string \<Rightarrow> val parsed) \<Rightarrow> nat \<Rightarrow> val \<Rightarrow> string \<Rightarrow> val parsed" where
  "methods p 0 v s = Deep"
| "methods p (Suc n) v s =
     (case peeks (CHR ''.'') (skip_ws s) of
        None \<Rightarrow> Parsed v (skip_ws s)
      | Some r \<Rightarrow> pbind (parse_ident r) (\<lambda>name r. pbind (apply_method p name v r) (methods p n)))"

primrec parse_expr :: "(string \<Rightarrow> string option) \<Rightarrow> nat \<Rightarrow> string \<Rightarrow> val parsed" where
  "parse_expr base64 0 s = Deep"
| "parse_expr base64 (Suc depth) s =
     pbind (parse_primary base64 s) (\<lambda>v r. methods (parse_expr base64 depth) (Suc (length r)) v r)"

definition eval_expr :: "(string \<Rightarrow> string option) \<Rightarrow> nat \<Rightarrow> string \<Rightarrow> string parsed" where
  "eval_expr base64 depth raw =
     pbind (parse_expr base64 depth raw) (\<lambda>v r. if skip_ws r \<noteq> [] then Failed else as_str v [])"

definition decode_ip :: "(string \<Rightarrow> string option) \<Rightarrow> nat \<Rightarrow> string \<Rightarrow> ipv4 parsed" where
  "decode_ip base64 depth raw =
     (let raw = trim raw
      in case parse_ipv4 raw of
           Some ip \<Rightarrow> Parsed ip []
         | None \<Rightarrow> pbind (eval_expr base64 depth raw) (\<lambda>t _. of_opt (parse_ipv4 (trim t)) []))"

section \<open>A logic for the parser\<close>

text \<open>\<open>good k Q m\<close>: the depth sufficed, and a result leaves at most \<open>k\<close> bytes and satisfies \<open>Q\<close>.\<close>

definition good :: "nat \<Rightarrow> ('a \<Rightarrow> bool) \<Rightarrow> 'a parsed \<Rightarrow> bool" where
  "good k Q m \<longleftrightarrow> (case m of Parsed v r \<Rightarrow> length r \<le> k \<and> Q v | Failed \<Rightarrow> True | Deep \<Rightarrow> False)"

lemma good_simps [simp]:
  "good k Q (Parsed v r) \<longleftrightarrow> length r \<le> k \<and> Q v" "good k Q Failed" "\<not> good k Q Deep"
  by (simp_all add: good_def)

lemma good_bind: "good j P m \<Longrightarrow> (\<And>v r. length r \<le> j \<Longrightarrow> P v \<Longrightarrow> good k Q (f v r)) \<Longrightarrow> good k Q (pbind m f)"
  by (cases m) simp_all

lemma good_weaken: "good j P m \<Longrightarrow> j \<le> k \<Longrightarrow> (\<And>v. P v \<Longrightarrow> Q v) \<Longrightarrow> good k Q m"
  by (cases m) simp_all

lemma good_of_opt: "length r \<le> k \<Longrightarrow> (\<And>v. x = Some v \<Longrightarrow> Q v) \<Longrightarrow> good k Q (of_opt x r)"
  by (simp add: of_opt_def split: option.split)

lemma good_expect: "length s \<le> Suc k \<Longrightarrow> good k (\<lambda>_. True) (expect_byte c s)"
  using peeks_skip_length [of c s] by (auto simp: expect_byte_def split: option.split)

lemma good_ident: "length s \<le> Suc k \<Longrightarrow> good k (\<lambda>_. True) (parse_ident s)"
proof -
  assume a: "length s \<le> Suc k"
  show ?thesis
  proof (cases "skip_ws s")
    case (Cons c r)
    have "length (dropWhile ident_char r) \<le> length r" by simp
    also have "length r \<le> k" using skip_ws_length [of s] Cons a by simp
    finally show ?thesis by (simp add: parse_ident_def Cons)
  qed (simp add: parse_ident_def)
qed

lemma good_string_body: "length s \<le> Suc k \<Longrightarrow> good k (\<lambda>t. length t \<le> k) (string_body s)"
proof (induction s arbitrary: k rule: string_body.induct)
  case (2 c r)
  have step: "good k (\<lambda>t. length t \<le> k) (pbind (string_body t) (\<lambda>bs. Parsed (b # bs)))"
    if "\<And>j. length t \<le> Suc j \<Longrightarrow> good j (\<lambda>t. length t \<le> j) (string_body t)" "length t \<le> k" for b t
  proof (cases k)
    case 0
    with that(2) show ?thesis by simp
  next
    case (Suc j)
    show ?thesis by (rule good_bind [OF that(1) [of j]]) (use that(2) Suc in simp_all)
  qed
  show ?case
  proof (cases "c = quote \<or> c \<noteq> backslash")
    case True
    with 2 step [of r c] show ?thesis by auto
  next
    case False
    with 2 step show ?thesis by (auto split: list.split option.split)
  qed
qed simp

lemma good_string: "length s \<le> Suc k \<Longrightarrow> good k (\<lambda>t. length t \<le> k) (parse_string s)"
proof -
  assume a: "length s \<le> Suc k"
  show ?thesis
    unfolding parse_string_def
    by (rule good_bind [OF good_expect [OF a]]) (simp add: good_string_body)
qed

lemma good_number: "length s \<le> Suc k \<Longrightarrow> good k (\<lambda>_. True) (parse_number s)"
proof -
  assume "length s \<le> Suc k"
  moreover have "parse_number s \<noteq> Deep" by (auto simp: parse_number_def Let_def of_opt_def split: option.split prod.split)
  ultimately show ?thesis using parse_number_length [of s] by (cases "parse_number s") fastforce+
qed

lemma number_not_Deep [simp]: "parse_number s \<noteq> Deep"
  using good_number [of s "length s"] by auto

lemma good_arith_loop: "good (length s) (\<lambda>_. True) (arith_loop v s)"
proof (induction v s rule: arith_loop.induct)
  case (1 v s)
  show ?case
  proof (cases "skip_ws s")
    case (Cons c r)
    have l: "Suc (length r) \<le> length s" using skip_ws_length [of s] Cons by simp
    show ?thesis
    proof (cases "parse_number r")
      case (Parsed n r')
      from parse_number_length [OF this] l have "length r' \<le> length s" by simp
      with 1 [OF Cons _ Parsed] Parsed l show ?thesis
        by (auto simp: arith_loop.simps [of v s] Cons split: option.split intro: good_weaken)
    qed (use l in \<open>simp_all add: arith_loop.simps [of v s] Cons\<close>)
  qed (simp add: arith_loop.simps [of v s])
qed

lemma good_arith: "length s \<le> Suc k \<Longrightarrow> good k (\<lambda>_. True) (parse_arith s)"
  unfolding parse_arith_def
  by (rule good_bind [OF good_number]) (auto intro: good_weaken [OF good_arith_loop])

lemma good_array_loop: "length s \<le> Suc k \<Longrightarrow> good k (\<lambda>_. True) (array_loop xs s)"
proof (induction xs s arbitrary: k rule: array_loop.induct)
  case (1 xs s)
  show ?case
  proof (cases "parse_number s")
    case (Parsed n r)
    show ?thesis
    proof (cases "skip_ws r")
      case (Cons c r')
      have "Suc (length r') \<le> length r" using skip_ws_length [of r] Cons by simp
      with parse_number_length [OF Parsed] 1(2) have "length r' \<le> k" by simp
      with 1(1) [OF Parsed Cons, of k] show ?thesis by (simp add: array_loop.simps [of xs s] Parsed Cons)
    qed (simp add: array_loop.simps [of xs s] Parsed)
  qed (simp_all add: array_loop.simps [of xs s])
qed

lemma good_array: "length s \<le> Suc k \<Longrightarrow> good k (\<lambda>_. True) (parse_array s)"
proof -
  assume a: "length s \<le> Suc k"
  show ?thesis unfolding parse_array_def
  proof (rule good_bind [OF good_expect [OF a]])
    fix v r assume r: "length (r :: string) \<le> k"
    show "good k (\<lambda>_. True) (case peeks (CHR '']'') (skip_ws r) of Some r' \<Rightarrow> Parsed [] r' | None \<Rightarrow> array_loop [] r)"
      using r peeks_skip_length [of "CHR '']''" r] good_array_loop [of r k "[]"] by (auto split: option.split)
  qed
qed

section \<open>What the evaluator computes\<close>

definition fits :: "enat \<Rightarrow> val \<Rightarrow> bool" where
  "fits N v \<longleftrightarrow> (case v of Str t \<Rightarrow> enat (length t) \<le> N | Arr _ \<Rightarrow> True)"

definition base64_fits :: "enat \<Rightarrow> (string \<Rightarrow> string option) \<Rightarrow> bool" where
  "base64_fits N base64 \<longleftrightarrow> (\<forall>p t. enat (length p) \<le> N \<longrightarrow> base64 p = Some t \<longrightarrow> enat (length t) \<le> N)"

lemma fits_simps [simp]: "fits N (Arr es)" "fits N (Str t) \<longleftrightarrow> enat (length t) \<le> N"
  by (simp_all add: fits_def)

lemma enat_le: "m \<le> n \<Longrightarrow> enat n \<le> N \<Longrightarrow> enat m \<le> N"
  by (meson enat_ord_simps(1) order_trans)

lemma trim_length: "length (trim s) \<le> length s"
  using trim_sublist sublist_length_le by blast

text \<open>The rules for a token followed by the rest of a definition.\<close>

named_theorems token_rules

lemma good_expect_bind [token_rules]:
  "length s \<le> Suc k \<Longrightarrow> (\<And>u r. length r \<le> k \<Longrightarrow> good k Q (f u r)) \<Longrightarrow> good k Q (pbind (expect_byte c s) f)"
  by (rule good_bind [OF good_expect])

lemma good_ident_bind [token_rules]:
  "length s \<le> Suc k \<Longrightarrow> (\<And>u r. length r \<le> k \<Longrightarrow> good k Q (f u r)) \<Longrightarrow> good k Q (pbind (parse_ident s) f)"
  by (rule good_bind [OF good_ident])

lemma good_string_bind [token_rules]:
  "length s \<le> Suc k \<Longrightarrow> (\<And>t r. length r \<le> k \<Longrightarrow> length t \<le> k \<Longrightarrow> good k Q (f t r)) \<Longrightarrow> good k Q (pbind (parse_string s) f)"
  by (rule good_bind [OF good_string])

lemma good_arith_bind [token_rules]:
  "length s \<le> Suc k \<Longrightarrow> (\<And>u r. length r \<le> k \<Longrightarrow> good k Q (f u r)) \<Longrightarrow> good k Q (pbind (parse_arith s) f)"
  by (rule good_bind [OF good_arith])

lemma good_arrow_bind [token_rules]:
  assumes "length s \<le> Suc k" and "\<And>u r. length r \<le> k \<Longrightarrow> good k Q (f u r)"
  shows "good k Q (pbind (expect_arrow s) f)"
proof -
  have "good k (\<lambda>_. True) (expect_arrow s)"
    unfolding expect_arrow_def by (rule good_bind [OF good_expect [OF assms(1)]]) (simp add: good_expect)
  then show ?thesis by (rule good_bind) (rule assms(2))
qed

lemma good_array_bind [token_rules]:
  "length s \<le> Suc k \<Longrightarrow> (\<And>u r. length r \<le> k \<Longrightarrow> good k Q (f u r)) \<Longrightarrow> good k Q (pbind (parse_array s) f)"
  by (rule good_bind [OF good_array])

lemma good_str_bind [token_rules]:
  "length r \<le> k \<Longrightarrow> (\<And>t. v = Str t \<Longrightarrow> good k Q (f t r)) \<Longrightarrow> good k Q (pbind (as_str v r) f)"
  by (cases v) (simp_all add: as_str_def)

lemma good_arr_bind [token_rules]:
  "length r \<le> k \<Longrightarrow> (\<And>es. good k Q (f es r)) \<Longrightarrow> good k Q (pbind (as_arr v r) f)"
  by (cases v) (simp_all add: as_arr_def)

lemma good_peeks [token_rules]:
  "length s \<le> k \<Longrightarrow> (\<And>r. length r \<le> k \<Longrightarrow> length r < length s \<Longrightarrow> good k Q (f r)) \<Longrightarrow> good k Q g \<Longrightarrow>
   good k Q (case peeks c (skip_ws s) of None \<Rightarrow> g | Some r \<Rightarrow> f r)"
  using peeks_skip_length [of c s] by (fastforce split: option.split)

lemma good_case_bind [token_rules]:
  "good k (\<lambda>_. True) (case_option g h x) \<Longrightarrow> (\<And>u r. length r \<le> k \<Longrightarrow> good k Q (f u r)) \<Longrightarrow>
   good k Q (pbind (case_option g h x) f)"
  by (rule good_bind)

lemma skip_ws_le [token_rules]: "length s \<le> k \<Longrightarrow> length (skip_ws s) \<le> k"
  using skip_ws_length le_trans by blast

lemma good_primary_exact:
  assumes "length s \<le> Suc k" and "enat k \<le> N" and "base64_fits N base64"
  shows "good k (fits N) (parse_primary base64 s)"
proof (cases "skip_ws s")
  case (Cons c r)
  have l: "length (c # r) \<le> Suc k" using skip_ws_length [of s] assms(1) unfolding Cons by linarith
  have b: "enat (length t) \<le> N" if "length payload \<le> k" "base64 (trim payload) = Some t" for payload t
  proof -
    have "enat (length (trim payload)) \<le> N" by (rule enat_le [OF order_trans [OF trim_length that(1)] assms(2)])
    with assms(3) that(2) show ?thesis by (simp add: base64_fits_def)
  qed
  have n: "enat (length t) \<le> N" if "length t \<le> k" for t :: string using that assms(2) by (rule enat_le)
  show ?thesis unfolding parse_primary_def Cons
    using l by (auto intro!: token_rules intro: n dest!: b [rotated] split: option.split)
qed (simp add: parse_primary_def)

lemma good_primary:
  assumes "length s \<le> Suc k" and "enat (length s) \<le> N" and "base64_fits N base64"
  shows "good k (fits N) (parse_primary base64 s)"
proof (rule good_weaken [OF good_primary_exact [of s "length s - 1" N]])
  show "enat (length s - 1) \<le> N" by (rule enat_le [OF diff_le_self assms(2)])
qed (use assms in auto)

lemma substring_length: "length (substring_of text a b) \<le> length text"
proof -
  have "length (concat (take m (drop n xs))) \<le> length (concat xs)" for m n and xs :: "string list"
    by (metis append_take_drop_id concat_append length_append le_add1 le_add2 order_trans)
  from this [of _ _ "utf8_chars text"] show ?thesis by (simp add: substring_of_def Let_def)
qed

lemma repeat_length: "length (concat (replicate n t)) = length t * n"
  by (induction n) simp_all

lemma join_length: "length out \<le> 512 \<or> es \<noteq> [] \<Longrightarrow> join_loop sep out es = Some t \<Longrightarrow> length t \<le> 512"
  by (induction sep out es arbitrary: t rule: join_loop.induct) (auto simp: MAX_EVAL_LEN_def split: if_splits list.splits)

lemma char_codes_length: "length out \<le> 64 \<Longrightarrow> from_char_codes offset out es = Some t \<Longrightarrow> length t \<le> 64"
  by (induction offset out es arbitrary: t rule: from_char_codes.induct)
    (auto simp: MAX_CHARCODE_LEN_def split: if_splits option.splits)

text \<open>Every method leaves less input than it got and keeps its result in the bound.\<close>

lemma good_methods_fixed:
  assumes "length s \<le> Suc k" and "512 \<le> N" and "fits N v"
  shows "good k (fits N) (apply_substring v s)" and "good k (fits N) (apply_repeat v s)" and "good k (fits N) (apply_split v s)"
    and "good k (fits N) (apply_join v s)" and "good k (fits N) (apply_reverse v s)" and "good k (fits N) (apply_map v s)"
proof -
  have small: "enat m \<le> N" if "m \<le> 512" for m
    using that assms(2) by (metis enat_ord_simps(1) numeral_eq_enat order_trans)
  have number: "good k (\<lambda>_. True) (parse_number t)" if "length t \<le> k" for t
    using that by (intro good_number) simp
  have arith: "good k (\<lambda>_. True) (parse_arith t)" if "length t \<le> k" for t
    using that by (intro good_arith) simp
  show "good k (fits N) (apply_substring v s)" unfolding apply_substring_def
    using assms by (auto intro!: token_rules arith enat_le [OF substring_length])
  show "good k (fits N) (apply_repeat v s)" unfolding apply_repeat_def
    using assms by (auto intro!: token_rules small simp: repeat_length MAX_EVAL_LEN_def)
  show "good k (fits N) (apply_split v s)" unfolding apply_split_def
    using assms by (auto intro!: token_rules)
  show "good k (fits N) (apply_join v s)" unfolding apply_join_def
    using assms(1,3) small join_length [of "[]"]
    by (cases v) (auto intro!: token_rules good_of_opt)
  show "good k (fits N) (apply_reverse v s)" unfolding apply_reverse_def
    using assms by (auto intro!: token_rules)
  have body: "good k (fits N) (parse_map_body v param t)" if "length t \<le> k" for param t
    unfolding parse_map_body_def
    using that char_codes_length [of "[]"] by (auto intro!: token_rules number good_of_opt good_expect small dest!: char_codes_length [of "[]", rotated])
  show "good k (fits N) (apply_map v s)" unfolding apply_map_def
    using assms by (auto intro!: token_rules body)
qed

definition parses :: "enat \<Rightarrow> nat \<Rightarrow> (string \<Rightarrow> val parsed) \<Rightarrow> bool" where
  "parses N l p \<longleftrightarrow> (\<forall>t k. length t \<le> l \<longrightarrow> length t \<le> Suc k \<longrightarrow> good k (fits N) (p t))"

lemma good_concat_args:
  assumes "parses N (length s) p" and "length s < n" and "length s \<le> Suc k" and "512 \<le> N"
  shows "good k (fits N) (concat_args p n out s)"
  using assms(1-3)
proof (induction n arbitrary: out s)
  case (Suc n)
  have small: "enat m \<le> N" if "m \<le> 512" for m
    using that assms(4) by (metis enat_ord_simps(1) numeral_eq_enat order_trans)
  have p: "good (length s - 1) (fits N) (p s)" using Suc.prems(1) by (simp add: parses_def)
  show ?case
    unfolding concat_args.simps
  proof (rule good_bind [OF p])
    fix v and r :: string assume r: "length r \<le> length s - 1" "fits N v"
    have "length r \<le> k" using r(1) Suc.prems(3) by linarith
    then show "good k (fits N) (pbind (as_str v r) (\<lambda>part r. if MAX_EVAL_LEN < length (out @ part) then Failed
        else case skip_ws r of [] \<Rightarrow> Failed
          | c # r' \<Rightarrow> if c = CHR '','' then concat_args p n (out @ part) r'
              else if c = CHR '')'' then Parsed (Str (out @ part)) r' else Failed))"
    proof (rule good_str_bind)
      fix part
      have cont: "good k (fits N) (concat_args p n (out @ part) r')" if "skip_ws r = c # r'" for c r'
      proof -
        have "Suc (length r') \<le> length r" using skip_ws_length [of r] that by simp
        then have "length r' < n" "length r' \<le> length s" "length r' \<le> Suc k" using r(1) Suc.prems(2,3) by linarith+
        with Suc.IH [of r' "out @ part"] Suc.prems(1) show ?thesis by (simp add: parses_def)
      qed
      have len: "length r' \<le> k" if "skip_ws r = c # r'" for c r'
        using skip_ws_length [of r] that \<open>length r \<le> k\<close> by simp
      show "good k (fits N) (if MAX_EVAL_LEN < length (out @ part) then Failed
        else case skip_ws r of [] \<Rightarrow> Failed
          | c # r' \<Rightarrow> if c = CHR '','' then concat_args p n (out @ part) r'
              else if c = CHR '')'' then Parsed (Str (out @ part)) r' else Failed)"
        using cont len small [of "length out + length part"]
        by (auto simp: MAX_EVAL_LEN_def split: list.split)
    qed
  qed
qed simp

lemma parses_mono: "parses N l p \<Longrightarrow> j \<le> l \<Longrightarrow> parses N j p"
  by (simp add: parses_def)

lemma good_concat:
  assumes "parses N (length s) p" and "length s \<le> Suc k" and "512 \<le> N" and "fits N v"
  shows "good k (fits N) (apply_concat p v s)"
proof -
  have "good (length s - 1) (fits N) (apply_concat p v s)"
    unfolding apply_concat_def
  proof (rule good_expect_bind)
    fix r :: string assume r: "length r \<le> length s - 1"
    have "good (length s - 1) (fits N) (concat_args p (Suc (length r)) out (skip_ws r))" for out
    proof (rule good_concat_args)
      have "length (skip_ws r) \<le> length r" by simp
      then have "length (skip_ws r) \<le> length s" using r by linarith
      then show "parses N (length (skip_ws r)) p" by (rule parses_mono [OF assms(1)])
      show "length (skip_ws r) < Suc (length r)" by (simp add: le_imp_less_Suc)
      show "length (skip_ws r) \<le> Suc (length s - 1)" using \<open>length (skip_ws r) \<le> length s\<close> by linarith
    qed (rule assms(3))
    with r assms(4) show "good (length s - 1) (fits N) (pbind (as_str v r) (\<lambda>text r.
         case peeks (CHR '')'') (skip_ws r) of
           Some r' \<Rightarrow> Parsed (Str text) r' | None \<Rightarrow> concat_args p (Suc (length r)) text (skip_ws r)))"
      by (auto intro!: token_rules)
  qed simp
  then show ?thesis by (rule good_weaken) (use assms(2) in auto)
qed

lemma good_apply_method:
  assumes "parses N (length s) p" and "length s \<le> Suc k" and "512 \<le> N" and "fits N v"
  shows "good k (fits N) (apply_method p name v s)"
  using good_methods_fixed [OF assms(2-4)] good_concat [OF assms] by (simp add: apply_method_def)

lemma good_chain:
  assumes "parses N (length s) p" and "length s < n" and "512 \<le> N" and "fits N v"
  shows "good (length s) (fits N) (methods p n v s)"
  using assms(1,2,4)
proof (induction n arbitrary: v s)
  case (Suc n)
  have l: "length (skip_ws s) \<le> length s" by simp
  have dot: "good (length s) (fits N) (pbind (parse_ident r) (\<lambda>name r. pbind (apply_method p name v r) (methods p n)))"
    if "length r < length s" for r
  proof (rule good_bind [OF good_ident [of r "length r"]])
    fix name r1 assume r1: "length (r1 :: string) \<le> length r"
    have p: "parses N j p" if "j \<le> length s" for j by (rule parses_mono [OF Suc.prems(1) that])
    show "good (length s) (fits N) (pbind (apply_method p name v r1) (methods p n))"
    proof (rule good_bind [OF good_apply_method [of N r1 p "length r1"]])
      fix v1 and r2 :: string assume r2: "length r2 \<le> length r1" "fits N v1"
      have "length r2 < n" using r1 r2(1) that Suc.prems(2) by linarith
      moreover have "length r2 \<le> length s" using r1 r2(1) that by linarith
      ultimately show "good (length s) (fits N) (methods p n v1 r2)"
        using Suc.IH [OF p _ r2(2), of r2] by (auto intro: good_weaken)
    qed (use r1 that Suc.prems(3) assms(3) p in auto)
  qed simp
  show ?case using dot l Suc.prems(3) peeks_skip_length [of "CHR ''.''" s] by (auto split: option.split)
qed simp

lemma good_expr:
  assumes "length s < depth" and "512 \<le> N" and "enat (length s) \<le> N" and "base64_fits N base64" and "length s \<le> Suc k"
  shows "good k (fits N) (parse_expr base64 depth s)"
  using assms(1,3,5)
proof (induction depth arbitrary: s k)
  case (Suc d)
  have "good (length s - 1) (fits N) (parse_expr base64 (Suc d) s)"
    unfolding parse_expr.simps
  proof (cases "s = []")
    case False
    show "good (length s - 1) (fits N) (pbind (parse_primary base64 s) (\<lambda>v r. methods (parse_expr base64 d) (Suc (length r)) v r))"
    proof (rule good_bind [OF good_primary [OF _ Suc.prems(2) assms(4), of "length s - 1"]])
      fix v and r :: string assume r: "length r \<le> length s - 1" "fits N v"
      have "parses N (length r) (parse_expr base64 d)"
        unfolding parses_def
      proof (intro allI impI)
        fix t :: string and k assume t: "length t \<le> length r" "length t \<le> Suc k"
        have "length t < d" using t(1) r(1) Suc.prems(1) False by (cases s) auto
        moreover have "enat (length t) \<le> N" by (rule enat_le [OF _ Suc.prems(2)]) (use t(1) r(1) in linarith)
        ultimately show "good k (fits N) (parse_expr base64 d t)" using t(2) by (rule Suc.IH)
      qed
      then have "good (length r) (fits N) (methods (parse_expr base64 d) (Suc (length r)) v r)"
        by (rule good_chain) (use r(2) assms(2) in simp_all)
      then show "good (length s - 1) (fits N) (methods (parse_expr base64 d) (Suc (length r)) v r)"
        by (rule good_weaken) (use r(1) in simp_all)
    qed simp
  qed (simp add: parse_primary_def skip_ws_def)
  then show ?case by (rule good_weaken) (use Suc.prems(3) in auto)
qed simp

section \<open>The depth does not matter once it suffices\<close>

definition deeper :: "'a parsed \<Rightarrow> 'a parsed \<Rightarrow> bool" where
  "deeper m m' \<longleftrightarrow> m = Deep \<or> m = m'"

lemma deeper_bind: "deeper m m' \<Longrightarrow> (\<And>v r. deeper (f v r) (f' v r)) \<Longrightarrow> deeper (pbind m f) (pbind m' f')"
  unfolding deeper_def by (cases m) (simp_all, metis pbind.simps(1))

lemma deeper_refl [simp]: "deeper m m"
  by (simp add: deeper_def)

lemma deeper_concat_args: "(\<And>s. deeper (p s) (q s)) \<Longrightarrow> deeper (concat_args p n out s) (concat_args q n out s)"
  by (induction n arbitrary: out s) (auto simp del: append.simps intro!: deeper_bind split: list.split)

lemma deeper_method: "(\<And>s. deeper (p s) (q s)) \<Longrightarrow> deeper (apply_method p name v s) (apply_method q name v s)"
  by (auto simp: apply_method_def apply_concat_def simp del: concat_args.simps intro!: deeper_bind deeper_concat_args split: option.split)

lemma deeper_methods: "(\<And>s. deeper (p s) (q s)) \<Longrightarrow> deeper (methods p n v s) (methods q n v s)"
  by (induction n arbitrary: v s) (auto intro!: deeper_bind deeper_method split: option.split)

lemma deeper_expr: "deeper (parse_expr base64 d s) (parse_expr base64 (Suc d) s)"
proof (induction d arbitrary: s)
  case (Suc d)
  have "deeper (pbind (parse_primary base64 s) (\<lambda>v r. methods (parse_expr base64 d) (Suc (length r)) v r))
      (pbind (parse_primary base64 s) (\<lambda>v r. methods (parse_expr base64 (Suc d)) (Suc (length r)) v r))"
    by (intro deeper_bind deeper_methods Suc.IH) (rule deeper_refl)
  then show ?case by (simp only: parse_expr.simps)
qed (simp add: deeper_def)

lemma deeper_expr_le: "d \<le> d' \<Longrightarrow> deeper (parse_expr base64 d s) (parse_expr base64 d' s)"
proof (induction d' rule: dec_induct)
  case (step n)
  with deeper_expr [of base64 n s] show ?case unfolding deeper_def by metis
qed simp

lemma deeper_decode: "d \<le> d' \<Longrightarrow> deeper (decode_ip base64 d s) (decode_ip base64 d' s)"
  unfolding decode_ip_def eval_expr_def Let_def
  by (auto intro!: deeper_bind deeper_expr_le split: option.split)

section \<open>Properties\<close>

text \<open>C25: The evaluation of an address ends: a recursion depth beyond the length of the text is never
  reached, and any two depths that suffice give the same answer.\<close>

theorem decode_ip_terminates:
  assumes "length raw < depth"
  shows "decode_ip base64 depth raw \<noteq> Deep \<and> decode_ip base64 depth raw = decode_ip base64 (Suc (length raw)) raw"
proof
  have "length (trim raw) < Suc (length raw)" using trim_length [of raw] by simp
  then have "good (length (trim raw)) (fits \<infinity>) (parse_expr base64 (Suc (length raw)) (trim raw))"
    by (intro good_expr) (simp_all add: base64_fits_def)
  then have n: "decode_ip base64 (Suc (length raw)) raw \<noteq> Deep"
    by (cases "parse_expr base64 (Suc (length raw)) (trim raw)")
      (auto simp: decode_ip_def eval_expr_def of_opt_def as_str_def Let_def simp del: parse_expr.simps split: option.split val.splits)
  moreover have "deeper (decode_ip base64 (Suc (length raw)) raw) (decode_ip base64 depth raw)"
    by (rule deeper_decode) (use assms in simp)
  ultimately show "decode_ip base64 depth raw = decode_ip base64 (Suc (length raw)) raw" by (simp add: deeper_def)
  with n show "decode_ip base64 depth raw \<noteq> Deep" by simp
qed

theorem decode_ip_terminates_witness:
  "decode_ip (\<lambda>_. None) 20 ''1.2.3.4'' \<noteq> Deep"
  by (rule conjunct1 [OF decode_ip_terminates]) simp

text \<open>Whatever the feed sends, no evaluated text is longer than 512 bytes or the text that was sent
  (base64 never makes a text longer).\<close>

theorem eval_expr_bounded:
  assumes "\<forall>p t. base64 p = Some t \<longrightarrow> length t \<le> length p" and "eval_expr base64 depth raw = Parsed t r"
  shows "length t \<le> max 512 (length raw)"
proof -
  let ?N = "enat (max 512 (length raw))"
  let ?d = "Suc (depth + length raw)"
  have "base64_fits ?N base64" using assms(1) by (auto simp: base64_fits_def intro: order_trans)
  moreover have "512 \<le> ?N" by (simp add: numeral_eq_enat)
  ultimately have g: "good (length raw) (fits ?N) (parse_expr base64 ?d raw)" by (intro good_expr) simp_all
  have "deeper (eval_expr base64 depth raw) (eval_expr base64 ?d raw)"
    unfolding eval_expr_def by (intro deeper_bind deeper_expr_le) simp_all
  with assms(2) have "eval_expr base64 ?d raw = Parsed t r" by (simp add: deeper_def)
  with g show ?thesis
    by (cases "parse_expr base64 ?d raw") (auto simp: eval_expr_def as_str_def simp del: parse_expr.simps split: if_splits val.splits)
qed

lemma string_body_plain: "quote \<notin> set t \<Longrightarrow> backslash \<notin> set t \<Longrightarrow> string_body (t @ quote # r) = Parsed t r"
  by (induction t) auto

lemma skip_ws_Cons [simp]: "skip_ws (c # r) = (if is_ascii_ws c then skip_ws r else c # r)" "skip_ws [] = []"
  by (simp_all add: skip_ws_def)

lemma quote_ws [simp]: "\<not> is_ascii_ws quote"
  by (simp add: is_ascii_ws_def quote_def)

lemma parse_string_plain: "quote \<notin> set t \<Longrightarrow> backslash \<notin> set t \<Longrightarrow> parse_string (quote # t @ quote # r) = Parsed t r"
  by (simp add: parse_string_def expect_byte_def peeks_def string_body_plain quote_ws)

definition reversed_text :: "string \<Rightarrow> string" where
  "reversed_text t =
     quote # rev t @ quote # ''.split('' @ quote # quote # '').reverse().join('' @ quote # quote # '')''"

lemma tokens:
  "parse_ident (''split'' @ CHR ''('' # r) = Parsed ''split'' (CHR ''('' # r)"
  "parse_ident (''reverse'' @ CHR ''('' # r) = Parsed ''reverse'' (CHR ''('' # r)"
  "parse_ident (''join'' @ CHR ''('' # r) = Parsed ''join'' (CHR ''('' # r)"
  "parse_ident (''concat'' @ CHR ''('' # r) = Parsed ''concat'' (CHR ''('' # r)"
  by (simp_all add: parse_ident_def is_ascii_ws_def ident_char_def is_alpha_def is_digit_def)

lemma expect_here: "\<not> is_ascii_ws c \<Longrightarrow> expect_byte c (c # r) = Parsed () r"
  by (simp add: expect_byte_def peeks_def)

lemma join_chars: "length out + length t \<le> 512 \<Longrightarrow> join_loop [] out (map (\<lambda>c. Txt [c]) t) = Some (out @ t)"
proof (induction t arbitrary: out)
  case (Cons c t)
  show ?case
  proof (cases t)
    case Nil
    with Cons.prems show ?thesis by (simp add: elem_text_def MAX_EVAL_LEN_def)
  next
    case (Cons d u)
    with Cons.IH [of "out @ [c]"] Cons.prems show ?thesis by (simp add: elem_text_def MAX_EVAL_LEN_def)
  qed
qed simp

text \<open>The method names followed by their argument list.\<close>

lemma chain_step:
  assumes "parse_ident (name @ CHR ''('' # r) = Parsed name (CHR ''('' # r)"
    and "apply_method p name v (CHR ''('' # r) = Parsed v' r'"
  shows "methods p (Suc n) v (CHR ''.'' # name @ CHR ''('' # r) = methods p n v' r'"
  using assms by (simp add: peeks_def is_ascii_ws_def)

lemma show_ipv4_chars: "\<forall>c \<in> set (show_ipv4 ip). \<not> continues c \<and> c \<noteq> quote \<and> c \<noteq> backslash"
  using set_show_ipv4 by (fastforce simp: continues_def is_digit_def quote_def backslash_def)

lemma show_nat_short: "length (show_nat (unat (a :: u8))) \<le> 3"
  by (rule show_nat_len3) (use u8_less [of a] in linarith)

lemma show_ipv4_length: "length (show_ipv4 ip) \<le> 15"
proof (cases ip)
  case (Ipv4 a b c d)
  then show ?thesis using show_nat_short [of a] show_nat_short [of b] show_nat_short [of c] show_nat_short [of d] by simp
qed

lemma reversed_eval:
  assumes "\<forall>c \<in> set t. \<not> continues c \<and> c \<noteq> quote \<and> c \<noteq> backslash" and "length t \<le> 512"
  shows "parse_expr base64 (Suc d) (reversed_text t) = Parsed (Str t) []"
proof -
  let ?tail = "''.join('' @ quote # quote # '')''"
  let ?tail2 = "''.reverse()'' @ ?tail"
  have prim: "parse_primary base64 (reversed_text t) = Parsed (Str (rev t)) (''.split('' @ quote # quote # '')'' @ ?tail2)"
  proof -
    have "quote \<notin> set (rev t)" "backslash \<notin> set (rev t)" using assms(1) by auto
    from parse_string_plain [OF this, of "''.split('' @ quote # quote # '')'' @ ?tail2"]
    have "parse_string (reversed_text t) = Parsed (rev t) (''.split('' @ quote # quote # '')'' @ ?tail2)"
      by (simp add: reversed_text_def)
    then show ?thesis by (simp add: parse_primary_def reversed_text_def)
  qed
  have nil: "parse_string (quote # quote # r) = Parsed [] r" for r
    using parse_string_plain [of "[]" r] by simp
  have ws: "\<not> is_ascii_ws (CHR ''('')" "\<not> is_ascii_ws (CHR '')'')" by (simp_all add: is_ascii_ws_def)
  have chars: "utf8_chars (rev t) = map (\<lambda>c. [c]) (rev t)" using assms(1) by (intro ascii_chars) simp
  have split: "apply_method p ''split'' (Str (rev t)) (CHR ''('' # quote # quote # CHR '')'' # r) = Parsed (Arr (map (\<lambda>c. Txt [c]) (rev t))) r" for p r
    by (simp add: apply_method_def apply_split_def expect_here ws nil as_str_def chars comp_def)
  have reverse: "apply_method p ''reverse'' (Arr es) (CHR ''('' # CHR '')'' # r) = Parsed (Arr (rev es)) r" for p es r
    by (simp add: apply_method_def apply_reverse_def expect_here ws as_arr_def)
  have join: "apply_method p ''join'' (Arr (map (\<lambda>c. Txt [c]) t)) (CHR ''('' # quote # quote # CHR '')'' # r) = Parsed (Str t) r" for p r
    using join_chars [of "[]" t] assms(2) by (simp add: apply_method_def apply_join_def expect_here ws nil of_opt_def)
  let ?p = "parse_expr base64 d"
  have 1: "methods ?p (Suc n) (Str (rev t)) (''.split('' @ quote # quote # '')'' @ r) = methods ?p n (Arr (map (\<lambda>c. Txt [c]) (rev t))) r" for n r
    using chain_step [OF tokens(1) split] by simp
  have 2: "methods ?p (Suc n) (Arr (map (\<lambda>c. Txt [c]) (rev t))) (''.reverse()'' @ r) = methods ?p n (Arr (map (\<lambda>c. Txt [c]) t)) r" for n r
    using chain_step [OF tokens(2) reverse] by (simp add: rev_map)
  have 3: "methods ?p (Suc n) (Arr (map (\<lambda>c. Txt [c]) t)) ?tail = methods ?p n (Str t) []" for n
    using chain_step [OF tokens(3) join, of ?p n "[]"] by simp
  have 4: "methods ?p (Suc n) (Str t) [] = Parsed (Str t) []" for n by (simp add: peeks_def)
  have n: "Suc (length (''.split('' @ quote # quote # '')'' @ ?tail2)) = Suc (Suc (Suc (Suc 26)))" by simp
  show ?thesis
    unfolding parse_expr.simps prim pbind.simps n by (simp only: 1 2 3 4)
qed

text \<open>An address written backwards and put back by \<open>split\<close>, \<open>reverse\<close> and \<open>join\<close>, one of the forms of the
  feed, decodes to the address.\<close>

theorem reversed_ip_decodes: "decode_ip base64 (Suc d) (reversed_text (show_ipv4 ip)) = Parsed ip []"
proof -
  have r: "trim (reversed_text (show_ipv4 ip)) = reversed_text (show_ipv4 ip)"
    by (rule trim_graphic) (simp add: reversed_text_def is_graphic_def quote_def)
  have n: "parse_ipv4 (reversed_text (show_ipv4 ip)) = None"
  proof (rule ccontr)
    assume "parse_ipv4 (reversed_text (show_ipv4 ip)) \<noteq> None"
    then obtain ip' where "show_ipv4 ip' = reversed_text (show_ipv4 ip)" using parse_ipv4_canonical by blast
    then have "quote \<in> set (show_ipv4 ip')" by (simp add: reversed_text_def)
    then show False using show_ipv4_chars by blast
  qed
  have e: "parse_expr base64 (Suc d) (reversed_text (show_ipv4 ip)) = Parsed (Str (show_ipv4 ip)) []"
    by (rule reversed_eval [OF show_ipv4_chars]) (use show_ipv4_length [of ip] in simp)
  have t: "trim (show_ipv4 ip) = show_ipv4 ip" by (rule trim_all_graphic [OF show_ipv4_graphic])
  show ?thesis
    by (simp add: decode_ip_def Let_def r n eval_expr_def e as_str_def t of_opt_def del: parse_expr.simps)
qed

text \<open>A literal concatenated to a literal concatenated to a literal, and so on.\<close>

primrec nested :: "nat \<Rightarrow> string" where
  "nested 0 = [quote, quote]"
| "nested (Suc d) = quote # quote # ''.concat('' @ nested d @ '')''"

lemma nested_length: "length (nested d) = 11 * d + 2"
  by (induction d) simp_all

lemma empty_literal: "parse_primary base64 (quote # quote # r) = Parsed (Str []) r"
  using parse_string_plain [of "[]" r] by (simp add: parse_primary_def)

lemma nested_step: "parse_expr base64 (Suc d) (quote # quote # ''.concat('' @ quote # s) =
    methods (parse_expr base64 d) (Suc (length (''.concat('' @ quote # s))) (Str []) (''.concat('' @ quote # s)"
  by (simp only: parse_expr.simps empty_literal pbind.simps)

lemma nested_quote: "\<exists>s. nested d = quote # s"
  by (cases d) simp_all

lemma concat_step:
  "methods p (Suc n) (Str []) (''.concat('' @ quote # s) =
     pbind (concat_args p (Suc (length (quote # s))) [] (quote # s)) (methods p n)"
proof -
  have "apply_concat p (Str []) (CHR ''('' # quote # s) = concat_args p (Suc (length (quote # s))) [] (quote # s)"
    by (simp add: apply_concat_def expect_byte_def peeks_def is_ascii_ws_def as_str_def quote_def del: concat_args.simps)
  then show ?thesis
    using tokens(4) [of "quote # s"] by (simp add: peeks_def is_ascii_ws_def apply_method_def del: concat_args.simps)
qed

lemma nested_deep: "parse_expr base64 d (nested d @ r) = Deep"
proof (induction d arbitrary: r)
  case (Suc d)
  obtain s where s: "nested d @ CHR '')'' # r = quote # s" using nested_quote [of d] by auto
  have "parse_expr base64 d (quote # s) = Deep" using Suc [of "CHR '')'' # r"] by (simp only: s)
  then have c: "concat_args (parse_expr base64 d) (Suc m) [] (quote # s) = Deep" for m by simp
  have "nested (Suc d) @ r = quote # quote # ''.concat('' @ quote # s" using s by simp
  then show ?case by (simp only: nested_step concat_step c pbind.simps)
qed simp

lemma chain_end: "r = [] \<or> hd r = CHR '')'' \<Longrightarrow> methods p (Suc n) v r = Parsed v r"
  by (cases r) (simp_all add: peeks_def is_ascii_ws_def)

lemma nested_value: "r = [] \<or> hd r = CHR '')'' \<Longrightarrow> parse_expr base64 (Suc d) (nested d @ r) = Parsed (Str []) r"
proof (induction d arbitrary: r)
  case 0
  then show ?case by (simp only: nested.simps parse_expr.simps append_Cons append_Nil empty_literal pbind.simps chain_end)
next
  case (Suc d)
  obtain s where s: "nested d @ CHR '')'' # r = quote # s" using nested_quote [of d] by auto
  have "parse_expr base64 (Suc d) (nested d @ CHR '')'' # r) = Parsed (Str []) (CHR '')'' # r)" by (rule Suc.IH) simp
  then have "parse_expr base64 (Suc d) (quote # s) = Parsed (Str []) (CHR '')'' # r)" by (simp only: s)
  then have c: "concat_args (parse_expr base64 (Suc d)) (Suc m) [] (quote # s) = Parsed (Str []) r" for m
    by (simp add: as_str_def is_ascii_ws_def MAX_EVAL_LEN_def del: parse_expr.simps)
  have l: "length (''.concat('' @ quote # s) = Suc (length (''concat('' @ quote # s))" by simp
  have "nested (Suc d) @ r = quote # quote # ''.concat('' @ quote # s" using s by simp
  then show ?case using Suc.prems by (simp only: nested_step concat_step c pbind.simps l chain_end)
qed

text \<open>The recursion follows the nesting of \<open>concat\<close> without a limit: a text of \<open>11 d + 2\<close> bytes that is
  accepted needs \<open>d + 1\<close> calls of \<open>parse_expr\<close> on the stack at once.\<close>

theorem nesting_unbounded:
  "length (nested d) = 11 * d + 2 \<and> eval_expr base64 d (nested d) = Deep \<and>
   eval_expr base64 (Suc d) (nested d) = Parsed [] []"
  using nested_length [of d] nested_deep [of base64 d "[]"] nested_value [of "[]" base64 d]
  by (simp add: eval_expr_def as_str_def del: parse_expr.simps)

end
