(* ===== verification/Parsers_Rows.thy ===== *)
theory Parsers_Rows
  imports Parsers_Text Proxy_Model Proxynova
begin

text \<open>
  The row parsers for the other formats of the sources (\<open>src/providers/parsers.rs\<close>), the schema of JSON
  rows (\<open>models.rs\<close>) and the forwarding of rows as candidates (\<open>scrape_with\<close> of \<open>mod.rs\<close>). What a library
  reads from the body is a parameter: the tables of an HTML document, the matches of a
  regular expression, the values of a JSON text up to its first error.
\<close>

section \<open>Text of an HTML cell\<close>

text \<open>\<open>is_simple_text\<close>: no white space other than single spaces.\<close>

fun simple_from :: "bool \<Rightarrow> string \<Rightarrow> bool" where
  "simple_from previous_space [] = True"
| "simple_from previous_space (c # r) =
     (if c = CHR '' '' then \<not> previous_space \<and> simple_from True r
      else if find (\<lambda>w. w \<noteq> [] \<and> prefix w (c # r)) ws_encodings \<noteq> None then False
      else simple_from False r)"

definition is_simple_text :: "string \<Rightarrow> bool" where
  "is_simple_text text = simple_from False text"

definition push_word :: "string \<Rightarrow> string \<Rightarrow> string" where
  "push_word out word = (if out = [] then word else out @ '' '' @ word)"

text \<open>The text of an element, given as its fragments.\<close>

definition normalized_text :: "string list \<Rightarrow> string" where
  "normalized_text fragments =
     (case fragments of
        [] \<Rightarrow> []
      | first # rest \<Rightarrow>
          (if rest = [] \<and> is_simple_text (trim first) then trim first
           else foldl push_word [] (concat (map split_whitespace fragments))))"

section \<open>HTML tables\<close>

text \<open>A row as the selectors give it: its \<open>th\<close> and its \<open>td\<close> elements.\<close>

record html_row =
  hr_th :: "string list list"
  hr_td :: "string list list"

type_synonym html_table = "html_row list"

definition IP_HEADER_NAMES :: "string list" where "IP_HEADER_NAMES = [''ip address'', ''ip'']"

definition PORT_HEADER_NAMES :: "string list" where "PORT_HEADER_NAMES = [''port'']"

definition PROTOCOL_HEADER_NAMES :: "string list" where "PROTOCOL_HEADER_NAMES = [''version'', ''type'', ''protocol'']"

definition HTTPS_HEADER_NAMES :: "string list" where "HTTPS_HEADER_NAMES = [''https'']"

definition ANONYMITY_HEADER_NAMES :: "string list" where "ANONYMITY_HEADER_NAMES = [''anonymity'']"

record header_columns =
  hc_ip :: nat
  hc_port :: nat
  hc_protocol :: "nat option"
  hc_https :: "nat option"
  hc_anonymity :: "nat option"

text \<open>The map from a text to its first column is a search; \<open>find_column\<close> prefers an exact name, in the order of the names.\<close>

definition find_column :: "string list \<Rightarrow> string list \<Rightarrow> nat option" where
  "find_column cells names =
     (case find (\<lambda>name. name \<in> set cells) names of
        Some name \<Rightarrow> position ((=) name) cells
      | None \<Rightarrow> position (\<lambda>cell. list_ex (contains cell) names) cells)"

definition header_columns_of :: "string list \<Rightarrow> header_columns" where
  "header_columns_of header =
     (let cells = map (\<lambda>cell. lower (trim cell)) header
      in \<lparr>hc_ip = (case find_column cells IP_HEADER_NAMES of Some i \<Rightarrow> i | None \<Rightarrow> 0),
          hc_port = (case find_column cells PORT_HEADER_NAMES of Some i \<Rightarrow> i | None \<Rightarrow> 1),
          hc_protocol = find_column cells PROTOCOL_HEADER_NAMES,
          hc_https = find_column cells HTTPS_HEADER_NAMES,
          hc_anonymity = find_column cells ANONYMITY_HEADER_NAMES\<rparr>)"

record row_cells =
  rc_ip :: "string option"
  rc_port :: "string option"
  rc_type :: "string option"
  rc_https :: "string option"
  rc_anon :: "string option"

fun scan_cells :: "header_columns \<Rightarrow> nat \<Rightarrow> string list list \<Rightarrow> row_cells \<Rightarrow> row_cells" where
  "scan_cells columns index [] found = found"
| "scan_cells columns index (cell # cells) found =
     scan_cells columns (Suc index) cells
       (if index = hc_ip columns then found\<lparr>rc_ip := Some (normalized_text cell)\<rparr>
        else if index = hc_port columns then found\<lparr>rc_port := Some (normalized_text cell)\<rparr>
        else if Some index = hc_protocol columns then found\<lparr>rc_type := Some (normalized_text cell)\<rparr>
        else if Some index = hc_https columns then found\<lparr>rc_https := Some (normalized_text cell)\<rparr>
        else if Some index = hc_anonymity columns then found\<lparr>rc_anon := Some (normalized_text cell)\<rparr>
        else found)"

definition no_cells :: row_cells where
  "no_cells = \<lparr>rc_ip = None, rc_port = None, rc_type = None, rc_https = None, rc_anon = None\<rparr>"

definition with_level :: "anonymity \<Rightarrow> protocol \<Rightarrow> protocol" where
  "with_level level p = (case p of Http _ \<Rightarrow> Http level | Https _ \<Rightarrow> Https level | other \<Rightarrow> other)"

definition row_protocol :: "row_cells \<Rightarrow> protocol option" where
  "row_protocol cells =
     (let typed = Option.bind (rc_type cells) protocol_from_str;
          p = (if typed = None
               then (case rc_https cells of
                       Some cell \<Rightarrow> (if eq_ignore_case (trim cell) ''yes'' then Some (Https Unknown) else None)
                     | None \<Rightarrow> None)
               else typed)
      in case (p, rc_anon cells) of
           (Some current, Some cell) \<Rightarrow> Some (with_level (anonymity_from_str cell) current)
         | _ \<Rightarrow> p)"

definition table_row :: "header_columns \<Rightarrow> html_row \<Rightarrow> parsed_proxy option" where
  "table_row columns row =
     (let cells = scan_cells columns 0 (hr_td row) no_cells
      in case (rc_ip cells, rc_port cells) of
           (Some ip_cell, Some port_cell) \<Rightarrow>
             (case (parse_ipv4 (trim ip_cell), parse_port port_cell) of
                (Some ip, Some port) \<Rightarrow> Some (ip, port, row_protocol cells)
              | _ \<Rightarrow> None)
         | _ \<Rightarrow> None)"

definition table_header :: "html_table \<Rightarrow> string list" where
  "table_header table =
     (case table of
        [] \<Rightarrow> []
      | row # _ \<Rightarrow> map normalized_text (if hr_th row = [] then hr_td row else hr_th row))"

text \<open>\<open>visit_all\<close> also says whether the visitor still wants rows.\<close>

fun visit_all :: "('s \<Rightarrow> 'r \<Rightarrow> 's \<times> bool) \<Rightarrow> 's \<Rightarrow> 'r list \<Rightarrow> 's \<times> bool" where
  "visit_all visit st [] = (st, True)"
| "visit_all visit st (row # rows) =
     (case visit st row of (st', go) \<Rightarrow> if go then visit_all visit st' rows else (st', False))"

fun visit_tables :: "('s \<Rightarrow> parsed_proxy \<Rightarrow> 's \<times> bool) \<Rightarrow> 's \<Rightarrow> html_table list \<Rightarrow> 's" where
  "visit_tables visit st [] = st"
| "visit_tables visit st (table # tables) =
     (case visit_all visit st (List.map_filter (table_row (header_columns_of (table_header table))) table) of
        (st', True) \<Rightarrow> visit_tables visit st' tables
      | (st', False) \<Rightarrow> st')"

section \<open>Matches of regular expressions\<close>

definition pair_row :: "string \<times> string \<Rightarrow> parsed_proxy option" where
  "pair_row m =
     (case (parse_ipv4 (fst m), Option.bind (parse_u16 (snd m)) valid_port) of
        (Some ip, Some port) \<Rightarrow> Some (ip, port, None) | _ \<Rightarrow> None)"

definition visit_regex_pairs :: "(string \<times> string) list \<Rightarrow> ('s \<Rightarrow> parsed_proxy \<Rightarrow> 's \<times> bool) \<Rightarrow> 's \<Rightarrow> 's" where
  "visit_regex_pairs matches visit st = visit_rows visit st (List.map_filter pair_row matches)"

text \<open>The base64 decoder of the library; its 256-byte buffer holds what any shorter text decodes to.\<close>

definition base64_row :: "(string \<Rightarrow> string option) \<Rightarrow> string \<Rightarrow> parsed_proxy option" where
  "base64_row base64 encoded =
     (case base64 encoded of
        None \<Rightarrow> None
      | Some decoded \<Rightarrow>
          (if valid_text decoded
           then map_option (\<lambda>(ip, port). (ip, port, None)) (parse_pair decoded) else None))"

definition visit_base64_rows ::
  "(string \<Rightarrow> string option) \<Rightarrow> string list \<Rightarrow> ('s \<Rightarrow> parsed_proxy \<Rightarrow> 's \<times> bool) \<Rightarrow> 's \<Rightarrow> 's" where
  "visit_base64_rows base64 matches visit st = visit_rows visit st (List.map_filter (base64_row base64) matches)"

section \<open>The schema of JSON rows\<close>

definition json_path_parse :: "string \<Rightarrow> string option" where
  "json_path_parse path =
     (if path = [] then Some path
      else if list_ex ((=) []) (split_by ((=) (CHR ''.'')) path) then None else Some path)"

datatype json_fixed_protocol = FixedHttp | FixedHttps | FixedSocks4 | FixedSocks5

definition as_protocol :: "json_fixed_protocol \<Rightarrow> protocol" where
  "as_protocol f =
     (case f of FixedHttp \<Rightarrow> Http Unknown | FixedHttps \<Rightarrow> Https Unknown | FixedSocks4 \<Rightarrow> Socks4 | FixedSocks5 \<Rightarrow> Socks5)"

record json_rows_config =
  jr_rows_path :: string
  jr_ip_path :: string
  jr_port_path :: string
  jr_protocol_path :: "string option"
  jr_protocols_path :: "string option"
  jr_fixed_protocol :: "json_fixed_protocol option"

definition json_rows_config_new :: "string \<Rightarrow> string \<Rightarrow> string \<Rightarrow> json_rows_config option" where
  "json_rows_config_new rows_path ip_path port_path =
     (case (json_path_parse ip_path, json_path_parse port_path) of
        (Some ip, Some port) \<Rightarrow>
          (if ip = [] \<or> port = [] then None
           else map_option (\<lambda>rows. \<lparr>jr_rows_path = rows, jr_ip_path = ip, jr_port_path = port, jr_protocol_path = None,
                  jr_protocols_path = None, jr_fixed_protocol = None\<rparr>) (json_path_parse rows_path))
      | _ \<Rightarrow> None)"

definition with_protocol_path :: "string \<Rightarrow> json_rows_config \<Rightarrow> json_rows_config option" where
  "with_protocol_path path c =
     (if jr_protocols_path c \<noteq> None then None
      else map_option (\<lambda>p. c\<lparr>jr_protocol_path := Some p\<rparr>) (json_path_parse path))"

definition with_protocols_path :: "string \<Rightarrow> json_rows_config \<Rightarrow> json_rows_config option" where
  "with_protocols_path path c =
     (if jr_protocol_path c \<noteq> None then None
      else map_option (\<lambda>p. c\<lparr>jr_protocols_path := Some p\<rparr>) (json_path_parse path))"

definition with_fixed_protocol :: "json_fixed_protocol \<Rightarrow> json_rows_config \<Rightarrow> json_rows_config" where
  "with_fixed_protocol f c = c\<lparr>jr_fixed_protocol := Some f\<rparr>"

record compiled_rows =
  cr_rows_path :: "string list"
  cr_ip_path :: "string list"
  cr_port_path :: "string list"
  cr_protocol_path :: "string list option"
  cr_protocols_path :: "string list option"
  cr_decode_ip :: "string \<Rightarrow> ipv4 option"
  cr_fixed_protocol :: "protocol option"

definition path_segments :: "string \<Rightarrow> string list" where
  "path_segments path = filter (\<lambda>s. s \<noteq> []) (split_by ((=) (CHR ''.'')) path)"

definition compile_json_rows :: "json_rows_config \<Rightarrow> (string \<Rightarrow> ipv4 option) \<Rightarrow> compiled_rows option" where
  "compile_json_rows c decode =
     (if path_segments (jr_ip_path c) = [] \<or> path_segments (jr_port_path c) = [] then None
      else Some \<lparr>cr_rows_path = path_segments (jr_rows_path c), cr_ip_path = path_segments (jr_ip_path c),
        cr_port_path = path_segments (jr_port_path c), cr_protocol_path = map_option path_segments (jr_protocol_path c),
        cr_protocols_path = map_option path_segments (jr_protocols_path c), cr_decode_ip = decode,
        cr_fixed_protocol = map_option as_protocol (jr_fixed_protocol c)\<rparr>)"

section \<open>JSON rows\<close>

text \<open>\<open>serde_json::Value\<close>; a number is unsigned or of another kind.\<close>

datatype jvalue =
    VNull
  | VBool bool
  | VUnsigned u64
  | VNumber string
  | VString string
  | VArray "jvalue list"
  | VObject "(string \<times> jvalue) list"

fun json_get :: "string \<Rightarrow> jvalue \<Rightarrow> jvalue option" where
  "json_get key (VObject kvs) = map_of kvs key"
| "json_get key _ = None"

primrec json_path :: "string list \<Rightarrow> jvalue \<Rightarrow> jvalue option" where
  "json_path [] v = Some v"
| "json_path (k # ks) v = Option.bind (json_get k v) (json_path ks)"

definition json_str :: "jvalue \<Rightarrow> string option" where
  "json_str v = (case v of VString s \<Rightarrow> Some s | _ \<Rightarrow> None)"

definition json_array :: "jvalue \<Rightarrow> jvalue list option" where
  "json_array v = (case v of VArray vs \<Rightarrow> Some vs | _ \<Rightarrow> None)"

definition json_port :: "jvalue \<Rightarrow> u16 option" where
  "json_port v =
     (case v of
        VUnsigned n \<Rightarrow> (if unat n < 65536 then valid_port (ucast n) else None)
      | VString s \<Rightarrow> Option.bind (parse_u16 (trim s)) valid_port
      | _ \<Rightarrow> None)"

definition visit_json_row ::
  "compiled_rows \<Rightarrow> ('s \<Rightarrow> parsed_proxy \<Rightarrow> 's \<times> bool) \<Rightarrow> 's \<Rightarrow> jvalue \<Rightarrow> 's \<times> bool" where
  "visit_json_row schema visit st row =
     (case Option.bind (Option.bind (json_path (cr_ip_path schema) row) json_str) (cr_decode_ip schema) of
        None \<Rightarrow> (st, True)
      | Some ip \<Rightarrow>
          (case Option.bind (json_path (cr_port_path schema) row) json_port of
             None \<Rightarrow> (st, True)
           | Some port \<Rightarrow>
               (case cr_protocol_path schema of
                  Some path \<Rightarrow>
                    (case Option.bind (Option.bind (json_path path row) json_str) protocol_from_str of
                       None \<Rightarrow> (st, True)
                     | Some protocol \<Rightarrow> visit st (ip, port, Some protocol))
                | None \<Rightarrow>
                    (case cr_protocols_path schema of
                       Some path \<Rightarrow>
                         (case Option.bind (json_path path row) json_array of
                            None \<Rightarrow> (st, True)
                          | Some vs \<Rightarrow>
                              (let ps = List.map_filter (\<lambda>v. Option.bind (json_str v) protocol_from_str) vs
                               in if ps = [] then visit st (ip, port, cr_fixed_protocol schema)
                                  else visit_all visit st (map (\<lambda>p. (ip, port, Some p)) ps)))
                     | None \<Rightarrow> visit st (ip, port, cr_fixed_protocol schema)))))"

text \<open>What the deserializer finds at a position: the elements of an array or the entries of an object up to
  the end or an error, or something else.\<close>

datatype json_read =
    ReadSeq "jvalue list" "string option"
  | ReadMap "(string \<times> json_read) list" "string option"
  | ReadOther "string option"

datatype visit_status = Complete | Stopped | JsonError string

fun read_error :: "json_read \<Rightarrow> string option"
and entries_error :: "(string \<times> json_read) list \<Rightarrow> string option" where
  "read_error (ReadSeq vs e) = e"
| "read_error (ReadMap kvs e) = (case entries_error kvs of Some err \<Rightarrow> Some err | None \<Rightarrow> e)"
| "read_error (ReadOther e) = e"
| "entries_error [] = None"
| "entries_error ((k, r) # kvs) = (case read_error r of Some err \<Rightarrow> Some err | None \<Rightarrow> entries_error kvs)"

definition wrong_kind :: string where "wrong_kind = ''invalid type''"

definition at_end :: "string option \<Rightarrow> visit_status" where
  "at_end e = (case e of None \<Rightarrow> Complete | Some err \<Rightarrow> JsonError err)"

fun visit_seq :: "('s \<Rightarrow> 'r \<Rightarrow> 's \<times> bool) \<Rightarrow> 's \<Rightarrow> 'r list \<Rightarrow> string option \<Rightarrow> 's \<times> visit_status" where
  "visit_seq visit st [] e = (st, at_end e)"
| "visit_seq visit st (row # rows) e =
     (case visit st row of (st', go) \<Rightarrow> if go then visit_seq visit st' rows e else (st', Stopped))"

fun visit_path :: "('s \<Rightarrow> jvalue \<Rightarrow> 's \<times> bool) \<Rightarrow> 's \<Rightarrow> string list \<Rightarrow> json_read \<Rightarrow> 's \<times> visit_status"
and visit_map :: "('s \<Rightarrow> jvalue \<Rightarrow> 's \<times> bool) \<Rightarrow> 's \<Rightarrow> string \<Rightarrow> string list \<Rightarrow> (string \<times> json_read) list \<Rightarrow> string option \<Rightarrow> 's \<times> visit_status" where
  "visit_path visit st [] r =
     (case r of ReadSeq vs e \<Rightarrow> visit_seq visit st vs e | _ \<Rightarrow> (st, JsonError wrong_kind))"
| "visit_path visit st (k # ks) r =
     (case r of ReadMap kvs e \<Rightarrow> visit_map visit st k ks kvs e | _ \<Rightarrow> (st, JsonError wrong_kind))"
| "visit_map visit st k ks [] e = (st, at_end e)"
| "visit_map visit st k ks ((key, r) # kvs) e =
     (case (if key = k then visit_path visit st ks r else (st, at_end (read_error r))) of
        (st', Complete) \<Rightarrow> visit_map visit st' k ks kvs e
      | other \<Rightarrow> other)"

text \<open>A stop of the visitor is a success.\<close>

definition visit_result :: "'s \<times> visit_status \<Rightarrow> 's \<times> string option" where
  "visit_result r = (fst r, case snd r of JsonError e \<Rightarrow> Some e | _ \<Rightarrow> None)"

definition empty_paths :: string where "empty_paths = ''JSON row field paths cannot be empty''"

definition visit_json_rows_with ::
  "json_read \<Rightarrow> json_rows_config \<Rightarrow> (string \<Rightarrow> ipv4 option) \<Rightarrow> ('s \<Rightarrow> parsed_proxy \<Rightarrow> 's \<times> bool) \<Rightarrow> 's \<Rightarrow> 's \<times> string option" where
  "visit_json_rows_with read config decode visit st =
     (case compile_json_rows config decode of
        None \<Rightarrow> (st, Some empty_paths)
      | Some schema \<Rightarrow> visit_result (visit_path (visit_json_row schema visit) st (cr_rows_path schema) read))"

text \<open>An element of the array of texts that is no text is an error.\<close>

fun visit_texts :: "('s \<Rightarrow> parsed_proxy \<Rightarrow> 's \<times> bool) \<Rightarrow> 's \<Rightarrow> jvalue list \<Rightarrow> string option \<Rightarrow> 's \<times> visit_status" where
  "visit_texts visit st [] e = (st, at_end e)"
| "visit_texts visit st (v # vs) e =
     (case json_str v of
        None \<Rightarrow> (st, JsonError wrong_kind)
      | Some text \<Rightarrow>
          (case parse_pair text of
             None \<Rightarrow> visit_texts visit st vs e
           | Some (ip, port) \<Rightarrow>
               (case visit st (ip, port, None) of
                  (st', go) \<Rightarrow> if go then visit_texts visit st' vs e else (st', Stopped))))"

definition visit_json_strings :: "json_read \<Rightarrow> ('s \<Rightarrow> parsed_proxy \<Rightarrow> 's \<times> bool) \<Rightarrow> 's \<Rightarrow> 's \<times> string option" where
  "visit_json_strings read visit st =
     visit_result (case read of ReadSeq vs e \<Rightarrow> visit_texts visit st vs e | _ \<Rightarrow> (st, JsonError wrong_kind))"

section \<open>Scraping a body\<close>

datatype scrape_mode = Plaintext | HtmlTable | RegexPairs | Base64Rows | JsonStringArray | JsonRows json_rows_config

record body_readers =
  br_tables :: "string \<Rightarrow> html_table list"
  br_pairs :: "string \<Rightarrow> (string \<times> string) list"
  br_calls :: "string \<Rightarrow> string list"
  br_base64 :: "string \<Rightarrow> string option"
  br_json :: "string \<Rightarrow> json_read"

definition visit_mode ::
  "body_readers \<Rightarrow> scrape_mode \<Rightarrow> string \<Rightarrow> (string \<Rightarrow> ipv4 option) \<Rightarrow> ('s \<Rightarrow> parsed_proxy \<Rightarrow> 's \<times> bool) \<Rightarrow> 's \<Rightarrow> 's \<times> string option" where
  "visit_mode br mode body decode visit st =
     (case mode of
        Plaintext \<Rightarrow> (visit_plaintext body visit st, None)
      | HtmlTable \<Rightarrow> (visit_tables visit st (br_tables br body), None)
      | RegexPairs \<Rightarrow> (visit_regex_pairs (br_pairs br body) visit st, None)
      | Base64Rows \<Rightarrow> (visit_base64_rows (br_base64 br) (br_calls br body) visit st, None)
      | JsonStringArray \<Rightarrow> visit_json_strings (br_json br body) visit st
      | JsonRows config \<Rightarrow> visit_json_rows_with (br_json br body) config decode visit st)"

text \<open>\<open>scrape_with\<close>: rows become candidates and go to a channel; \<open>send\<close> gives None when its receiver is gone.\<close>

definition row_candidate :: "protocol list \<Rightarrow> parsed_proxy \<Rightarrow> proxy" where
  "row_candidate defaults row =
     (case row of (ip, port, protocol) \<Rightarrow>
        with_expected_types ip port (case protocol of Some p \<Rightarrow> [p] | None \<Rightarrow> defaults))"

definition forward_parsed ::
  "('c \<Rightarrow> proxy \<Rightarrow> 'c option) \<Rightarrow> protocol list \<Rightarrow> 'c \<times> bool \<Rightarrow> parsed_proxy \<Rightarrow> ('c \<times> bool) \<times> bool" where
  "forward_parsed send defaults st row =
     (case st of (chan, gone) \<Rightarrow>
        if gone then ((chan, gone), False)
        else (case send chan (row_candidate defaults row) of
                None \<Rightarrow> ((chan, True), False)
              | Some chan' \<Rightarrow> ((chan', False), True)))"

definition scrape_with ::
  "body_readers \<Rightarrow> (string \<Rightarrow> ipv4 option) \<Rightarrow> ('c \<Rightarrow> proxy \<Rightarrow> 'c option) \<Rightarrow> scrape_mode \<Rightarrow> protocol list \<Rightarrow> string \<Rightarrow> 'c \<Rightarrow> 'c \<times> string option" where
  "scrape_with br decode send mode defaults body chan =
     (case visit_mode br mode body decode (forward_parsed send defaults) (chan, False) of
        ((chan', _), e) \<Rightarrow> (chan', e))"

section \<open>The fast path of a cell's text\<close>

text \<open>Every white-space character starts with a byte that continues none, and goes on with bytes that do.\<close>

lemma ws_shape: "w \<in> set ws_encodings \<Longrightarrow> \<exists>b r. w = b # r \<and> \<not> continues b \<and> (\<forall>c \<in> set r. continues c)"
proof -
  have "list_all (\<lambda>w. w \<noteq> [] \<and> \<not> continues (hd w) \<and> list_all continues (tl w)) ws_encodings"
    by (simp add: ws_encodings_def continues_def byte_def)
  moreover assume "w \<in> set ws_encodings"
  ultimately have "w \<noteq> [] \<and> \<not> continues (hd w) \<and> list_all continues (tl w)" by (simp add: list_all_iff)
  then show ?thesis by (cases w) (simp_all add: list_all_iff)
qed

lemma ws_starts: "prefix w (s @ v) \<Longrightarrow> w \<in> set ws_encodings \<Longrightarrow> v \<in> set ws_encodings \<Longrightarrow> s \<noteq> [] \<Longrightarrow> prefix w s"
proof (rule ccontr)
  assume a: "prefix w (s @ v)" "w \<in> set ws_encodings" "v \<in> set ws_encodings" "s \<noteq> []" "\<not> prefix w s"
  then obtain u where u: "w = s @ u" "prefix u v" "u \<noteq> []" by (metis prefix_append append_Nil2 prefix_order.refl)
  obtain b r where w: "w = b # r" "\<forall>c \<in> set r. continues c" using ws_shape [OF a(2)] by blast
  obtain d q where v: "v = d # q" "\<not> continues d" using ws_shape [OF a(3)] by blast
  have "hd u = d" using u(2,3) v(1) by (cases u) auto
  moreover have "hd u \<in> set r" using u(1,3) a(4) w(1) by (cases s; cases u) auto
  ultimately show False using w(2) v(2) by blast
qed

definition ws_at :: "string \<Rightarrow> string option" where
  "ws_at s = find (\<lambda>w. w \<noteq> [] \<and> prefix w s) ws_encodings"

lemma ws_at_append:
  assumes "v \<in> set ws_encodings" and "s \<noteq> []"
  shows "ws_at (s @ v) = ws_at s"
proof -
  have "prefix w (s @ v) = prefix w s" if "w \<in> set ws_encodings" for w
    using ws_starts [OF _ that assms] by (auto simp: prefix_prefix)
  then show ?thesis unfolding ws_at_def by (intro find_cong) auto
qed

lemma ws_size: "w \<in> set ws_encodings \<Longrightarrow> length w = (if byte (hd w) < 128 then 1 else if byte (hd w) = 194 then 2 else 3)"
proof -
  have "list_all (\<lambda>w. length w = (if byte (hd w) < 128 then 1 else if byte (hd w) = 194 then 2 else 3)) ws_encodings"
    by (simp add: ws_encodings_def byte_def)
  then show "w \<in> set ws_encodings \<Longrightarrow> ?thesis" by (simp only: list_all_iff)
qed

lemma ws_no_prefix: "prefix w v \<Longrightarrow> v \<in> set ws_encodings \<Longrightarrow> w \<in> set ws_encodings \<Longrightarrow> w = v"
proof -
  assume "prefix w v" "v \<in> set ws_encodings" "w \<in> set ws_encodings"
  moreover then obtain b r zs where "w = b # r" "v = w @ zs" using ws_shape [of w] by (auto simp: prefix_def)
  moreover from this have "hd w = hd v" by simp
  ultimately have "length w = length v" using ws_size [of w] ws_size [of v] by metis
  with \<open>prefix w v\<close> show "w = v" by (auto simp: prefix_def)
qed

lemma ws_at_self: "v \<in> set ws_encodings \<Longrightarrow> ws_at (v @ s) = Some v"
proof -
  assume v: "v \<in> set ws_encodings"
  have f: "w = v" if "w \<in> set ws_encodings" "prefix w v \<or> prefix v w" for w
    using ws_no_prefix [OF _ v that(1)] ws_no_prefix [OF _ that(1) v] that by blast
  have "v \<noteq> []" using ws_shape [OF v] by auto
  with v have "ws_at (v @ s) \<noteq> None" by (auto simp: ws_at_def find_None_iff)
  then obtain w where w: "ws_at (v @ s) = Some w" by blast
  then have "w \<in> set ws_encodings" "prefix w (v @ s)" by (auto simp: ws_at_def find_Some_iff)
  then have "w = v" using f [of w] prefix_same_cases [of w "v @ s" v] by auto
  with w show ?thesis by simp
qed

lemma split_ws_at: "split_ws_from acc s = (case ws_at s of
    Some w \<Rightarrow> (if acc = [] then [] else [acc]) @ split_ws_from [] (drop (length w) s)
  | None \<Rightarrow> (case s of [] \<Rightarrow> (if acc = [] then [] else [acc]) | c # r \<Rightarrow> split_ws_from (acc @ [c]) r))"
  unfolding ws_at_def by (rule split_ws_from.simps)

lemma ws_at_Nil [simp]: "ws_at [] = None"
  by (auto simp: ws_at_def find_None_iff)

lemma ws_at_prefix: "ws_at s = Some w \<Longrightarrow> w \<in> set ws_encodings \<and> w \<noteq> [] \<and> prefix w s"
  by (auto simp: ws_at_def find_Some_iff)

lemma split_trailing: "v \<in> set ws_encodings \<Longrightarrow> split_ws_from acc (s @ v) = split_ws_from acc s"
proof (induction acc s rule: split_ws_from.induct)
  case (1 acc s)
  show ?case
  proof (cases "s = []")
    case True
    then show ?thesis using ws_at_self [OF 1(3), of "[]"] by (simp add: split_ws_at [of acc] split_ws_at [of "[]" "[]"])
  next
    case False
    note at = ws_at_append [OF 1(3) False]
    show ?thesis
    proof (cases "ws_at s")
      case None
      with False 1(1) [OF None [unfolded ws_at_def]] 1(3) at show ?thesis
        by (cases s) (simp_all add: split_ws_at [of acc])
    next
      case (Some w)
      from ws_at_prefix [OF Some] have "length w \<le> length s" by (simp add: prefix_length_le)
      with 1(2) [OF Some [unfolded ws_at_def] 1(3)] Some at show ?thesis by (simp add: split_ws_at [of acc])
    qed
  qed
qed

lemma split_trim_end: "split_ws_from acc (trim_end s) = split_ws_from acc s"
proof -
  have "split_ws_from acc (rev (strip_any (map rev ws_encodings) r)) = split_ws_from acc (rev r)" for r
  proof (induction "map rev ws_encodings" r rule: strip_any.induct)
    case (1 r)
    show ?case
    proof (cases "find (\<lambda>w. w \<noteq> [] \<and> prefix w r) (map rev ws_encodings)")
      case (Some w)
      then have w: "w \<in> set (map rev ws_encodings)" "prefix w r" by (auto simp: find_Some_iff)
      then obtain v q where v: "v \<in> set ws_encodings" "w = rev v" "r = w @ q" by (auto simp: prefix_def)
      have "strip_any (map rev ws_encodings) r = strip_any (map rev ws_encodings) q"
        using Some by (subst strip_any.simps) (simp add: v(3))
      moreover have "split_ws_from acc (rev (strip_any (map rev ws_encodings) q)) = split_ws_from acc (rev q)"
        using 1 [OF Some] v(3) by simp
      ultimately show ?thesis using split_trailing [OF v(1), of acc "rev q"] v(2,3) by simp
    qed (simp add: strip_any.simps [of _ r])
  qed
  from this [of "rev s"] show ?thesis by (simp add: trim_end_def)
qed

lemma split_trim_start: "split_ws_from [] (trim_start s) = split_ws_from [] s"
  unfolding trim_start_def
proof (induction ws_encodings s rule: strip_any.induct)
  case (1 s)
  show ?case
  proof (cases "ws_at s")
    case None
    then show ?thesis by (simp add: strip_any.simps [of _ s] ws_at_def)
  next
    case (Some w)
    with 1 [OF Some [unfolded ws_at_def]] show ?thesis
      by (simp add: strip_any.simps [of _ s] split_ws_at [of "[]" s] ws_at_def)
  qed
qed

lemma split_trim: "split_whitespace (trim s) = split_whitespace s"
  by (simp add: split_whitespace_def trim_def split_trim_end split_trim_start)

lemma simple_ws:
  assumes "simple_from previous_space t" and "t \<noteq> []"
  shows "ws_at t = (if hd t = CHR '' '' then Some '' '' else None)"
proof (cases t)
  case (Cons c r)
  have "'' '' \<in> set ws_encodings" by code_simp
  from ws_at_self [OF this, of r] assms(1) Cons show ?thesis by (auto simp: ws_at_def split: if_splits)
qed (use assms in simp)

lemma simple_mono: "simple_from True t \<Longrightarrow> simple_from False t"
  by (cases t) (auto split: if_splits)

text \<open>Splitting a simple text at its single spaces and joining it again changes nothing.\<close>

lemma join_split_simple:
  assumes "simple_from False t" and "acc \<noteq> [] \<or> t = [] \<or> hd t \<noteq> CHR '' ''" and "t = [] \<or> last t \<noteq> CHR '' ''"
  shows "join '' '' (split_ws_from acc t) = acc @ t"
  using assms
proof (induction t arbitrary: acc)
  case Nil
  then show ?case by (simp add: split_ws_at [of acc])
next
  case (Cons c r)
  show ?case
  proof (cases "c = CHR '' ''")
    case True
    with Cons.prems have r: "simple_from True r" "r \<noteq> []" "acc \<noteq> []" by auto
    then have h: "hd r \<noteq> CHR '' ''" by (cases r) auto
    have IH: "join '' '' (split_ws_from [] r) = r"
      using Cons.IH [of "[]"] simple_mono [OF r(1)] r(2) h Cons.prems(3) by simp
    then have n: "split_ws_from [] r \<noteq> []" using r(2) by auto
    have "split_ws_from acc (c # r) = acc # split_ws_from [] r"
      using simple_ws [OF Cons.prems(1)] True r(3) by (simp add: split_ws_at [of acc])
    with IH True join_Cons [OF n] show ?thesis by simp
  next
    case False
    have "split_ws_from acc (c # r) = split_ws_from (acc @ [c]) r"
      using simple_ws [OF Cons.prems(1)] False by (simp add: split_ws_at [of acc])
    moreover have "simple_from False r" using Cons.prems(1) False by (auto split: if_splits)
    ultimately show ?thesis using Cons.IH [of "acc @ [c]"] Cons.prems(3) by (cases "r = []") auto
  qed
qed

lemma split_words_ne: "w \<in> set (split_ws_from acc s) \<Longrightarrow> w \<noteq> []"
proof (induction acc s rule: split_ws_from.induct)
  case (1 acc s)
  show ?case
  proof (cases "ws_at s")
    case None
    with 1(1) [OF None [unfolded ws_at_def]] 1(3) show ?thesis
      by (cases s) (auto simp: split_ws_at [of acc] split: if_splits)
  next
    case (Some v)
    with 1(2) [OF Some [unfolded ws_at_def]] 1(3) show ?thesis by (auto simp: split_ws_at [of acc] split: if_splits)
  qed
qed

lemma push_words: "\<forall>w \<in> set ws. w \<noteq> [] \<Longrightarrow> out \<noteq> [] \<Longrightarrow> foldl push_word out ws = join '' '' (out # ws)"
proof (induction ws arbitrary: out)
  case (Cons w ws)
  from Cons.prems Cons.IH [of "out @ '' '' @ w"] show ?case by (cases ws) (auto simp: push_word_def)
qed simp

lemma push_words_Nil: "\<forall>w \<in> set ws. w \<noteq> [] \<Longrightarrow> foldl push_word [] ws = join '' '' ws"
  by (cases ws) (simp_all add: push_words push_word_def)

lemma trim_ends:
  assumes "trim s \<noteq> []"
  shows "hd (trim s) \<noteq> CHR '' ''" and "last (trim s) \<noteq> CHR '' ''"
proof -
  have sp: "'' '' \<in> set ws_encodings" by code_simp
  have "find (\<lambda>w. w \<noteq> [] \<and> prefix w (rev (trim s))) (map rev ws_encodings) = None"
    using strip_any_fixed [of "map rev ws_encodings" "rev (trim_start s)"] by (simp add: trim_def trim_end_def)
  with sp have "\<not> prefix '' '' (rev (trim s))" by (auto simp: find_None_iff)
  then show "last (trim s) \<noteq> CHR '' ''" using assms by (cases "trim s" rule: rev_cases) auto
  have "prefix (trim s) (trim_start s)"
    using strip_any_suffix [of "map rev ws_encodings" "rev (trim_start s)"]
    by (simp add: trim_def trim_end_def suffix_to_prefix)
  then have "hd (trim s) = hd (trim_start s) \<and> trim_start s \<noteq> []" using assms by (auto simp: prefix_def)
  moreover have "\<not> prefix '' '' (trim_start s)"
    using strip_any_fixed [of ws_encodings s] sp by (auto simp: trim_start_def find_None_iff)
  ultimately show "hd (trim s) \<noteq> CHR '' ''" by (cases "trim_start s") auto
qed

text \<open>The text of a cell is that of its words, separated by single spaces: the shortcut for a cell of one
  fragment, which is not split, gives the same.\<close>

theorem normalized_text_is_words:
  "normalized_text fragments = join '' '' (concat (map split_whitespace fragments))"
proof -
  have slow: "foldl push_word [] (concat (map split_whitespace fs)) = join '' '' (concat (map split_whitespace fs))" for fs
    by (rule push_words_Nil) (auto simp: split_whitespace_def dest: split_words_ne)
  show ?thesis
  proof (cases fragments)
    case (Cons first rest)
    show ?thesis
    proof (cases "rest = [] \<and> is_simple_text (trim first)")
      case True
      then have "join '' '' (split_ws_from [] (trim first)) = [] @ trim first"
        using trim_ends [of first] by (intro join_split_simple) (auto simp: is_simple_text_def)
      with True Cons split_trim [of first] show ?thesis by (simp add: normalized_text_def split_whitespace_def)
    next
      case False
      with Cons slow [of fragments] show ?thesis by (auto simp: normalized_text_def)
    qed
  qed (simp add: normalized_text_def)
qed

section \<open>The rows of a body\<close>

text \<open>A reference for all modes: the rows of a body in order, and the error after the last of them.\<close>

definition json_row_list :: "compiled_rows \<Rightarrow> jvalue \<Rightarrow> parsed_proxy list" where
  "json_row_list schema row =
     (case (Option.bind (Option.bind (json_path (cr_ip_path schema) row) json_str) (cr_decode_ip schema),
            Option.bind (json_path (cr_port_path schema) row) json_port) of
        (Some ip, Some port) \<Rightarrow>
          map (\<lambda>p. (ip, port, p))
            (case (cr_protocol_path schema, cr_protocols_path schema) of
               (Some path, _) \<Rightarrow>
                 (case Option.bind (Option.bind (json_path path row) json_str) protocol_from_str of None \<Rightarrow> [] | Some p \<Rightarrow> [Some p])
             | (None, Some path) \<Rightarrow>
                 (case Option.bind (json_path path row) json_array of
                    None \<Rightarrow> []
                  | Some vs \<Rightarrow>
                      (let ps = List.map_filter (\<lambda>v. Option.bind (json_str v) protocol_from_str) vs
                       in if ps = [] then [cr_fixed_protocol schema] else map Some ps))
             | (None, None) \<Rightarrow> [cr_fixed_protocol schema])
      | _ \<Rightarrow> [])"

fun read_rows :: "string list \<Rightarrow> json_read \<Rightarrow> jvalue list \<times> string option"
and map_rows :: "string \<Rightarrow> string list \<Rightarrow> (string \<times> json_read) list \<Rightarrow> string option \<Rightarrow> jvalue list \<times> string option" where
  "read_rows [] r = (case r of ReadSeq vs e \<Rightarrow> (vs, e) | _ \<Rightarrow> ([], Some wrong_kind))"
| "read_rows (k # ks) r = (case r of ReadMap kvs e \<Rightarrow> map_rows k ks kvs e | _ \<Rightarrow> ([], Some wrong_kind))"
| "map_rows k ks [] e = ([], e)"
| "map_rows k ks ((key, r) # kvs) e =
     (case (if key = k then read_rows ks r else ([], read_error r)) of
        (vs, None) \<Rightarrow> (vs @ fst (map_rows k ks kvs e), snd (map_rows k ks kvs e))
      | (vs, Some err) \<Rightarrow> (vs, Some err))"

fun text_rows :: "jvalue list \<Rightarrow> string option \<Rightarrow> parsed_proxy list \<times> string option" where
  "text_rows [] e = ([], e)"
| "text_rows (v # vs) e =
     (case json_str v of
        None \<Rightarrow> ([], Some wrong_kind)
      | Some text \<Rightarrow>
          (case parse_pair text of
             None \<Rightarrow> text_rows vs e
           | Some (ip, port) \<Rightarrow> ((ip, port, None) # fst (text_rows vs e), snd (text_rows vs e))))"

definition body_rows :: "body_readers \<Rightarrow> scrape_mode \<Rightarrow> string \<Rightarrow> (string \<Rightarrow> ipv4 option) \<Rightarrow> parsed_proxy list \<times> string option" where
  "body_rows br mode body decode =
     (case mode of
        Plaintext \<Rightarrow> (plaintext_rows body, None)
      | HtmlTable \<Rightarrow>
          (concat (map (\<lambda>t. List.map_filter (table_row (header_columns_of (table_header t))) t) (br_tables br body)), None)
      | RegexPairs \<Rightarrow> (List.map_filter pair_row (br_pairs br body), None)
      | Base64Rows \<Rightarrow> (List.map_filter (base64_row (br_base64 br)) (br_calls br body), None)
      | JsonStringArray \<Rightarrow> (case br_json br body of ReadSeq vs e \<Rightarrow> text_rows vs e | _ \<Rightarrow> ([], Some wrong_kind))
      | JsonRows config \<Rightarrow>
          (case compile_json_rows config decode of
             None \<Rightarrow> ([], Some empty_paths)
           | Some schema \<Rightarrow>
               (case read_rows (cr_rows_path schema) (br_json br body) of
                  (vs, e) \<Rightarrow> (concat (map (json_row_list schema) vs), e))))"

text \<open>What a visitor makes of rows and an error after them.\<close>

definition visit_then :: "('s \<Rightarrow> 'r \<Rightarrow> 's \<times> bool) \<Rightarrow> 's \<Rightarrow> 'r list \<Rightarrow> string option \<Rightarrow> 's \<times> visit_status" where
  "visit_then visit st rows e = (case visit_all visit st rows of (st', go) \<Rightarrow> (st', if go then at_end e else Stopped))"

lemma visit_all_append:
  "visit_all visit st (xs @ ys) = (case visit_all visit st xs of (st', go) \<Rightarrow> if go then visit_all visit st' ys else (st', False))"
  by (induction xs arbitrary: st) (auto split: prod.split)

lemma visit_rows_all: "visit_rows visit st rows = fst (visit_all visit st rows)"
  by (induction rows arbitrary: st) (auto split: prod.split)

lemma visit_json_row_list: "visit_json_row schema visit st row = visit_all visit st (json_row_list schema row)"
proof -
  have one: "visit_all visit st [r] = visit st r" for r by (auto split: prod.split)
  show ?thesis
    by (simp add: visit_json_row_def json_row_list_def one Let_def comp_def del: visit_all.simps(2) split: option.split)
qed

lemma visit_seq_then: "visit_seq (\<lambda>st v. visit_all visit st (f v)) st vs e = visit_then visit st (concat (map f vs)) e"
  by (induction vs arbitrary: st) (auto simp: visit_then_def visit_all_append split: prod.split)

lemma visit_path_then:
  "visit_path (\<lambda>st v. visit_all visit st (f v)) st path r = visit_then visit st (concat (map f (fst (read_rows path r)))) (snd (read_rows path r))"
  "visit_map (\<lambda>st v. visit_all visit st (f v)) st k ks kvs e = visit_then visit st (concat (map f (fst (map_rows k ks kvs e)))) (snd (map_rows k ks kvs e))"
proof (induction path r and k ks kvs e arbitrary: st and st rule: read_rows_map_rows.induct)
  case (4 k ks key r kvs e)
  show ?case
  proof (cases "if key = k then read_rows ks r else ([], read_error r)")
    case (Pair vs err)
    have first: "(if key = k then visit_path (\<lambda>st v. visit_all visit st (f v)) st ks r else (st, at_end (read_error r))) =
        visit_then visit st (concat (map f vs)) err"
    proof (cases "key = k")
      case True
      with Pair have "fst (read_rows ks r) = vs" "snd (read_rows ks r) = err" by simp_all
      with True 4(1) show ?thesis by simp
    qed (use Pair in \<open>simp add: visit_then_def\<close>)
    obtain st' go where v: "visit_all visit st (concat (map f vs)) = (st', go)" by fastforce
    show ?thesis
    proof (cases "go \<and> err = None")
      case True
      with first v have "(if key = k then visit_path (\<lambda>st v. visit_all visit st (f v)) st ks r else (st, at_end (read_error r))) = (st', Complete)"
        by (simp add: visit_then_def at_end_def)
      moreover have "visit_map (\<lambda>st v. visit_all visit st (f v)) st' k ks kvs e =
          visit_then visit st' (concat (map f (fst (map_rows k ks kvs e)))) (snd (map_rows k ks kvs e))"
        using 4(2) Pair True by simp
      ultimately show ?thesis using v True Pair by (simp add: visit_then_def visit_all_append)
    next
      case False
      with first v have "(if key = k then visit_path (\<lambda>st v. visit_all visit st (f v)) st ks r else (st, at_end (read_error r))) =
          (st', if go then at_end err else Stopped)"
        by (simp add: visit_then_def)
      with False v Pair show ?thesis
        by (cases go; cases err) (auto simp: visit_then_def visit_all_append at_end_def split: prod.split)
    qed
  qed
qed (auto simp: visit_then_def visit_seq_then at_end_def split: json_read.split prod.split)

lemma visit_texts_then: "visit_texts visit st vs e = visit_then visit st (fst (text_rows vs e)) (snd (text_rows vs e))"
  by (induction vs arbitrary: st) (auto simp: visit_then_def at_end_def split: option.split prod.split)

lemma visit_tables_all:
  "visit_tables visit st ts =
     fst (visit_all visit st (concat (map (\<lambda>t. List.map_filter (table_row (header_columns_of (table_header t))) t) ts)))"
  by (induction ts arbitrary: st) (auto simp: visit_all_append split: prod.split bool.split)

text \<open>In every mode a visitor is given the rows of the body one by one until it refuses one, and the
  error after the rows is reported exactly when it has refused none.\<close>

lemma visit_mode_rows:
  "visit_mode br mode body decode visit st =
     (case visit_all visit st (fst (body_rows br mode body decode)) of
        (st', go) \<Rightarrow> (st', if go then snd (body_rows br mode body decode) else None))"
proof -
  have r: "visit_result (visit_then visit st rows e) = (case visit_all visit st rows of (st', go) \<Rightarrow> (st', if go then e else None))" for rows e
    by (simp add: visit_result_def visit_then_def at_end_def split: prod.split option.split)
  show ?thesis
  proof (cases mode)
    case (JsonRows config)
    show ?thesis
    proof (cases "compile_json_rows config decode")
      case (Some schema)
      have "visit_json_row schema visit = (\<lambda>st v. visit_all visit st (json_row_list schema v))"
        by (simp add: fun_eq_iff visit_json_row_list)
      with JsonRows Some show ?thesis
        by (simp add: visit_mode_def visit_json_rows_with_def body_rows_def visit_path_then r split: prod.split)
    qed (simp add: JsonRows visit_mode_def visit_json_rows_with_def body_rows_def)
  next
    case JsonStringArray
    show ?thesis
    proof (cases "br_json br body")
      case (ReadSeq vs e)
      with JsonStringArray show ?thesis
        by (simp add: visit_mode_def visit_json_strings_def body_rows_def visit_texts_then r split: prod.split)
    qed (simp_all add: JsonStringArray visit_mode_def visit_json_strings_def body_rows_def visit_result_def)
  qed (simp_all add: visit_mode_def body_rows_def visit_plaintext_def visit_regex_pairs_def visit_base64_rows_def visit_rows_all
      visit_tables_all split: prod.split)
qed

section \<open>Candidates\<close>

text \<open>A channel whose receiver goes away after \<open>n\<close> candidates.\<close>

definition send_up_to :: "nat \<Rightarrow> proxy list \<Rightarrow> proxy \<Rightarrow> proxy list option" where
  "send_up_to n sent p = (if length sent < n then Some (sent @ [p]) else None)"

lemma forward_parsed_rows:
  "length sent \<le> n \<Longrightarrow>
   visit_all (forward_parsed (send_up_to n) defaults) (sent, False) rows =
     ((sent @ take (n - length sent) (map (row_candidate defaults) rows), n - length sent < length rows), length rows \<le> n - length sent)"
proof (induction rows arbitrary: sent)
  case (Cons row rows)
  show ?case
  proof (cases "length sent < n")
    case True
    with Cons.IH [of "sent @ [row_candidate defaults row]"] show ?thesis
      by (simp add: forward_parsed_def send_up_to_def Suc_diff_Suc take_Cons') linarith
  next
    case False
    with Cons.prems show ?thesis by (simp add: forward_parsed_def send_up_to_def)
  qed
qed simp

text \<open>C14: scraping a body sends the candidates of its rows in order, as many as are received, and reports the
  error of the body exactly when all of them were.\<close>

theorem scrape_sends_rows:
  "scrape_with br decode (send_up_to n) mode defaults body [] =
     (take n (map (row_candidate defaults) (fst (body_rows br mode body decode))),
      if length (fst (body_rows br mode body decode)) \<le> n then snd (body_rows br mode body decode) else None)"
  using forward_parsed_rows [of "[]" n defaults "fst (body_rows br mode body decode)"]
  by (simp add: scrape_with_def visit_mode_rows)

lemma json_port_nonzero: "json_port v = Some p \<Longrightarrow> p \<noteq> 0"
  by (auto simp: json_port_def bind_eq_Some_conv split: jvalue.splits if_splits)

lemma json_row_port: "(ip, port, p) \<in> set (json_row_list schema row) \<Longrightarrow> port \<noteq> 0"
proof -
  assume a: "(ip, port, p) \<in> set (json_row_list schema row)"
  show "port \<noteq> 0"
  proof (cases "Option.bind (json_path (cr_port_path schema) row) json_port")
    case (Some q)
    with a have "port = q" by (auto simp: json_row_list_def split: option.splits)
    with Some show ?thesis by (auto simp: bind_eq_Some_conv dest: json_port_nonzero)
  qed (use a in \<open>simp add: json_row_list_def split: option.splits\<close>)
qed

lemma text_row_port: "(ip, port, p) \<in> set (fst (text_rows vs e)) \<Longrightarrow> port \<noteq> 0"
  by (induction vs) (auto dest: parse_pair_port split: option.splits)

lemma in_map_filter: "x \<in> set (List.map_filter f xs) \<longleftrightarrow> (\<exists>y \<in> set xs. f y = Some x)"
  by (induction xs) (auto simp: List.map_filter_simps split: option.splits)

lemma table_row_port: "table_row columns row = Some (ip, port, p) \<Longrightarrow> port \<noteq> 0"
  by (auto simp: table_row_def Let_def dest: parse_port_nonzero split: option.splits)

text \<open>Whatever a source sends in whatever mode, no candidate has the port zero.\<close>

theorem scraped_ports_nonzero:
  assumes "(ip, port, p) \<in> set (fst (body_rows br mode body decode))"
  shows "port \<noteq> 0"
proof (cases mode)
  case Plaintext
  with assms show ?thesis by (auto simp: body_rows_def plaintext_rows_def in_map_filter dest: parse_pair_port)
next
  case HtmlTable
  with assms show ?thesis by (auto simp: body_rows_def in_map_filter dest: table_row_port)
next
  case RegexPairs
  with assms show ?thesis by (auto simp: body_rows_def in_map_filter pair_row_def bind_eq_Some_conv split: option.splits)
next
  case Base64Rows
  with assms show ?thesis
    by (auto simp: body_rows_def in_map_filter base64_row_def dest: parse_pair_port split: option.splits if_splits)
next
  case JsonStringArray
  with assms show ?thesis by (auto simp: body_rows_def dest: text_row_port split: json_read.splits)
next
  case (JsonRows config)
  with assms show ?thesis by (auto simp: body_rows_def dest: json_row_port split: option.splits prod.splits)
qed

end
