(* ===== verification/Provider_Registry.thy ===== *)
theory Provider_Registry
  imports Parsers_Rows Rust_Parse
begin

text \<open>
  The providers and their sources (\<open>src/providers/models.rs\<close>, \<open>src/providers/mod.rs\<close> and one file for each
  provider). A URI is what \<open>Uri::from_str\<close> of the HTTP library makes of a text, a parameter; a
  schema that does not parse is a panic, as \<open>expect\<close> makes it. Timeouts are in milliseconds.
\<close>

section \<open>Sources\<close>

datatype provider_tier = Primary | Fallback

record 'u source =
  so_url :: 'u
  so_default_types :: "protocol list"
  so_timeout :: nat
  so_mode :: scrape_mode

definition COMMON_SOURCE_PROTOCOLS :: "protocol list" where
  "COMMON_SOURCE_PROTOCOLS =
     [Http Unknown, Https Unknown, Socks4, Socks5, Connect 25, Connect 80, Connect 443]"

type_synonym 'u uri_parser = "string \<Rightarrow> 'u option"

type_synonym 'u source_outcome = "('u source, string) outcome"

definition source_new :: "'u uri_parser \<Rightarrow> string \<Rightarrow> protocol list \<Rightarrow> 'u source_outcome" where
  "source_new uri url types =
     and_then (ok_or (''invalid provider url: '' @ url) (uri url))
       (\<lambda>u. Ok \<lparr>so_url = u, so_default_types = (if types = [] then COMMON_SOURCE_PROTOCOLS else types),
                so_timeout = 3000, so_mode = Plaintext\<rparr>)"

definition with_mode :: "scrape_mode \<Rightarrow> 'u source \<Rightarrow> 'u source" where
  "with_mode mode s = s\<lparr>so_mode := mode\<rparr>"

definition with_timeout :: "nat \<Rightarrow> 'u source \<Rightarrow> 'u source" where
  "with_timeout t s = s\<lparr>so_timeout := t\<rparr>"

definition source_typed :: "'u uri_parser \<Rightarrow> string \<Rightarrow> protocol \<Rightarrow> 'u source_outcome" where
  "source_typed uri url p = source_new uri url [p]"

definition source_all :: "'u uri_parser \<Rightarrow> string \<Rightarrow> 'u source_outcome" where
  "source_all uri url = source_new uri url []"

definition source_http :: "'u uri_parser \<Rightarrow> string \<Rightarrow> 'u source_outcome" where
  "source_http uri url =
     source_new uri url [Http Unknown, Https Unknown, Connect 80, Connect 25, Connect 443]"

definition source_socks :: "'u uri_parser \<Rightarrow> string \<Rightarrow> 'u source_outcome" where
  "source_socks uri url = source_new uri url [Socks4, Socks5]"

text \<open>\<open>source.map(|s| s.with_mode(mode).with_timeout(t))\<close>; building the mode may panic.\<close>

definition tuned :: "(scrape_mode, string) outcome \<Rightarrow> nat \<Rightarrow> 'u source_outcome \<Rightarrow> 'u source_outcome" where
  "tuned mode t s =
     and_then s (\<lambda>s'. and_then mode (\<lambda>m. Ok (with_timeout t (with_mode m s'))))"

text \<open>\<open>expect\<close> on a schema.\<close>

definition expected :: "json_rows_config option \<Rightarrow> (scrape_mode, string) outcome" where
  "expected c = (case c of None \<Rightarrow> Panic | Some config \<Rightarrow> Ok (JsonRows config))"

fun valid_sources :: "'u source_outcome list \<Rightarrow> ('u source list, string) outcome" where
  "valid_sources [] = Ok []"
| "valid_sources (r # rs) =
     (case r of
        Ok s \<Rightarrow> and_then (valid_sources rs) (\<lambda>ss. Ok (s # ss))
      | Err e \<Rightarrow> valid_sources rs
      | Panic \<Rightarrow> Panic)"

section \<open>The sources of each provider\<close>

definition proxyscrape_sources :: "'u uri_parser \<Rightarrow> ('u source list, string) outcome" where
  "proxyscrape_sources uri =
     valid_sources
       [tuned (Ok Plaintext) 20000 (source_http uri
          ''https://api.proxyscrape.com/v2/?request=displayproxies&protocol=http&timeout=10000&country=all&ssl=all&anonymity=all''),
        tuned (Ok Plaintext) 20000 (source_typed uri
          ''https://api.proxyscrape.com/v2/?request=displayproxies&protocol=socks4&timeout=10000&country=all'' Socks4),
        tuned (Ok Plaintext) 20000 (source_typed uri
          ''https://api.proxyscrape.com/v2/?request=displayproxies&protocol=socks5&timeout=10000&country=all'' Socks5)]"

definition openproxylist_sources :: "'u uri_parser \<Rightarrow> ('u source list, string) outcome" where
  "openproxylist_sources uri =
     valid_sources
       [tuned (Ok Plaintext) 15000 (source_http uri ''https://api.openproxylist.xyz/http.txt''),
        tuned (Ok Plaintext) 15000 (source_typed uri ''https://api.openproxylist.xyz/socks4.txt'' Socks4),
        tuned (Ok Plaintext) 15000 (source_typed uri ''https://api.openproxylist.xyz/socks5.txt'' Socks5)]"

definition geonode_schema :: "json_rows_config option" where
  "geonode_schema = Option.bind (json_rows_config_new ''data'' ''ip'' ''port'') (with_protocols_path ''protocols'')"

definition geonode_sources :: "'u uri_parser \<Rightarrow> ('u source list, string) outcome" where
  "geonode_sources uri =
     valid_sources (map (\<lambda>page. tuned (expected geonode_schema) 8000 (source_all uri
       (''https://proxylist.geonode.com/api/proxy-list?limit='' @ show_nat 500 @ ''&page='' @ show_nat page @
        ''&sort_by=lastChecked&sort_type=desc''))) [1..<4])"

definition free_proxy_list_sources :: "'u uri_parser \<Rightarrow> ('u source list, string) outcome" where
  "free_proxy_list_sources uri =
     valid_sources (map (\<lambda>(url, p). tuned (Ok HtmlTable) 15000
         (case p of Http _ \<Rightarrow> source_http uri url | Https _ \<Rightarrow> source_http uri url | _ \<Rightarrow> source_typed uri url p))
       [(''https://free-proxy-list.net/'', Http Unknown),
        (''https://www.sslproxies.org/'', Https Unknown),
        (''https://us-proxy.org/'', Http Unknown),
        (''https://www.socks-proxy.net/'', Socks4)])"

definition freeproxy_world_sources :: "'u uri_parser \<Rightarrow> ('u source list, string) outcome" where
  "freeproxy_world_sources uri =
     valid_sources (map (\<lambda>page. tuned (Ok HtmlTable) 15000 (source_http uri
       (''https://www.freeproxy.world/?type=&anonymity=&country=&speed=&port=&page='' @ show_nat page))) [1..<16])"

definition proxylist_org_sources :: "'u uri_parser \<Rightarrow> ('u source list, string) outcome" where
  "proxylist_org_sources uri =
     valid_sources (map (\<lambda>page. tuned (Ok Base64Rows) 15000 (source_http uri
       (''https://proxy-list.org/english/index.php?p='' @ show_nat page))) [1..<11])"

definition my_proxy_sources :: "'u uri_parser \<Rightarrow> ('u source list, string) outcome" where
  "my_proxy_sources uri =
     valid_sources [tuned (Ok RegexPairs) 15000 (source_http uri ''https://www.my-proxy.com/free-proxy-list.html'')]"

definition proxynova_schema :: "json_rows_config option" where
  "proxynova_schema = map_option (with_fixed_protocol FixedHttp) (json_rows_config_new ''data'' ''ip'' ''port'')"

definition proxynova_sources :: "'u uri_parser \<Rightarrow> ('u source list, string) outcome" where
  "proxynova_sources uri =
     valid_sources [tuned (expected proxynova_schema) 15000 (source_all uri ''https://api.proxynova.com/proxylist'')]"

definition hproxy_sources :: "'u uri_parser \<Rightarrow> ('u source list, string) outcome" where
  "hproxy_sources uri =
     valid_sources (map (\<lambda>(param, p). tuned (Ok Plaintext) 15000
         (source_typed uri (''https://hproxy.com/api/proxy-list?format=txt&protocol='' @ param) p))
       [(''http'', Http Unknown), (''https'', Https Unknown), (''socks4'', Socks4), (''socks5'', Socks5)])"

definition proxy_db_sources :: "'u uri_parser \<Rightarrow> ('u source list, string) outcome" where
  "proxy_db_sources uri =
     valid_sources (map (\<lambda>page. tuned (Ok HtmlTable) 15000 (source_all uri
       (''https://proxydb.net/?offset='' @ show_nat (page * 100)))) [0..<3])"

definition hide_my_name_sources :: "'u uri_parser \<Rightarrow> ('u source list, string) outcome" where
  "hide_my_name_sources uri =
     valid_sources [tuned (Ok HtmlTable) 10000 (source_all uri ''https://hidemy.name/en/proxy-list/'')]"

definition spys_one_sources :: "'u uri_parser \<Rightarrow> ('u source list, string) outcome" where
  "spys_one_sources uri =
     valid_sources [tuned (Ok HtmlTable) 10000 (source_all uri ''https://spys.one/en/free-proxy-list/'')]"

definition stormsia_schema :: "json_rows_config option" where
  "stormsia_schema = Option.bind (json_rows_config_new [] ''host'' ''port'') (with_protocol_path ''protocol'')"

definition stormsia_sources :: "'u uri_parser \<Rightarrow> ('u source list, string) outcome" where
  "stormsia_sources uri =
     valid_sources [tuned (expected stormsia_schema) 20000
       (source_all uri ''https://stormsia.github.io/proxy-list/proxies.json'')]"

datatype source_kind = KindHttp | KindTyped protocol | KindAll

definition GITHUB_SOURCES :: "(string \<times> source_kind) list" where
  "GITHUB_SOURCES =
     [
      (''https://raw.githubusercontent.com/TheSpeedX/PROXY-List/master/http.txt'', KindHttp),
      (''https://raw.githubusercontent.com/TheSpeedX/PROXY-List/master/socks4.txt'', KindTyped Socks4),
      (''https://raw.githubusercontent.com/TheSpeedX/PROXY-List/master/socks5.txt'', KindTyped Socks5),
      (''https://raw.githubusercontent.com/monosans/proxy-list/main/proxies/http.txt'', KindHttp),
      (''https://raw.githubusercontent.com/monosans/proxy-list/main/proxies/socks4.txt'', KindTyped Socks4),
      (''https://raw.githubusercontent.com/monosans/proxy-list/main/proxies/socks5.txt'', KindTyped Socks5),
      (''https://raw.githubusercontent.com/proxifly/free-proxy-list/main/proxies/protocols/http/data.txt'', KindHttp),
      (''https://raw.githubusercontent.com/proxifly/free-proxy-list/main/proxies/protocols/socks4/data.txt'', KindTyped Socks4),
      (''https://raw.githubusercontent.com/proxifly/free-proxy-list/main/proxies/protocols/socks5/data.txt'', KindTyped Socks5),
      (''https://raw.githubusercontent.com/hookzof/socks5_list/master/proxy.txt'', KindTyped Socks5),
      (''https://raw.githubusercontent.com/ShiftyTR/Proxy-List/master/http.txt'', KindHttp),
      (''https://raw.githubusercontent.com/ErcinDedeoglu/proxies/main/proxies/http.txt'', KindHttp),
      (''https://raw.githubusercontent.com/ErcinDedeoglu/proxies/main/proxies/socks4.txt'', KindTyped Socks4),
      (''https://raw.githubusercontent.com/ErcinDedeoglu/proxies/main/proxies/socks5.txt'', KindTyped Socks5),
      (''https://raw.githubusercontent.com/iplocate/free-proxy-list/main/protocols/http.txt'', KindHttp),
      (''https://raw.githubusercontent.com/iplocate/free-proxy-list/main/protocols/https.txt'', KindHttp),
      (''https://raw.githubusercontent.com/iplocate/free-proxy-list/main/protocols/socks4.txt'', KindTyped Socks4),
      (''https://raw.githubusercontent.com/iplocate/free-proxy-list/main/protocols/socks5.txt'', KindTyped Socks5),
      (''https://raw.githubusercontent.com/zloi-user/hideip.me/main/http.txt'', KindHttp),
      (''https://raw.githubusercontent.com/zloi-user/hideip.me/main/socks4.txt'', KindTyped Socks4),
      (''https://raw.githubusercontent.com/zloi-user/hideip.me/main/socks5.txt'', KindTyped Socks5),
      (''https://raw.githubusercontent.com/roosterkid/openproxylist/main/HTTPS_RAW.txt'', KindHttp),
      (''https://raw.githubusercontent.com/roosterkid/openproxylist/main/SOCKS4_RAW.txt'', KindTyped Socks4),
      (''https://raw.githubusercontent.com/roosterkid/openproxylist/main/SOCKS5_RAW.txt'', KindTyped Socks5),
      (''https://raw.githubusercontent.com/sunny9577/proxy-scraper/master/proxies.txt'', KindHttp),
      (''https://raw.githubusercontent.com/databay-labs/free-proxy-list/master/http.txt'', KindHttp),
      (''https://raw.githubusercontent.com/databay-labs/free-proxy-list/master/socks4.txt'', KindTyped Socks4),
      (''https://raw.githubusercontent.com/databay-labs/free-proxy-list/master/socks5.txt'', KindTyped Socks5),
      (''https://raw.githubusercontent.com/VPSLabCloud/VPSLab-Free-Proxy-List/main/http_all.txt'', KindHttp),
      (''https://raw.githubusercontent.com/VPSLabCloud/VPSLab-Free-Proxy-List/main/socks4_all.txt'', KindTyped Socks4),
      (''https://raw.githubusercontent.com/VPSLabCloud/VPSLab-Free-Proxy-List/main/socks5_all.txt'', KindTyped Socks5),
      (''https://raw.githubusercontent.com/proxmint/free-proxy-list/main/proxies/http.txt'', KindTyped (Http Unknown)),
      (''https://raw.githubusercontent.com/proxmint/free-proxy-list/main/proxies/https.txt'', KindTyped (Https Unknown)),
      (''https://raw.githubusercontent.com/proxmint/free-proxy-list/main/proxies/socks4.txt'', KindTyped Socks4),
      (''https://raw.githubusercontent.com/proxmint/free-proxy-list/main/proxies/socks5.txt'', KindTyped Socks5),
      (''https://raw.githubusercontent.com/proxio-io/proxy-list/main/http.txt'', KindTyped (Http Unknown)),
      (''https://raw.githubusercontent.com/proxio-io/proxy-list/main/https.txt'', KindTyped (Https Unknown)),
      (''https://raw.githubusercontent.com/proxio-io/proxy-list/main/socks4.txt'', KindTyped Socks4),
      (''https://raw.githubusercontent.com/proxio-io/proxy-list/main/socks5.txt'', KindTyped Socks5),
      (''https://vakhov.github.io/fresh-proxy-list/http.txt'', KindTyped (Http Unknown)),
      (''https://vakhov.github.io/fresh-proxy-list/https.txt'', KindTyped (Https Unknown)),
      (''https://vakhov.github.io/fresh-proxy-list/socks4.txt'', KindTyped Socks4),
      (''https://vakhov.github.io/fresh-proxy-list/socks5.txt'', KindTyped Socks5),
      (''https://raw.githubusercontent.com/theriturajps/proxy-list/main/proxies.txt'', KindAll),
      (''https://raw.githubusercontent.com/kael-odin/awesome-free-proxy-list/main/proxies/all.txt'', KindAll)]"

definition github_sources :: "'u uri_parser \<Rightarrow> ('u source list, string) outcome" where
  "github_sources uri =
     valid_sources (map (\<lambda>(url, kind). tuned (Ok Plaintext) 20000
       (case kind of
          KindHttp \<Rightarrow> source_http uri url
        | KindTyped p \<Rightarrow> source_typed uri url p
        | KindAll \<Rightarrow> source_all uri url)) GITHUB_SOURCES)"

section \<open>Providers\<close>

text \<open>A provider as its trait: name, tier, sources and which function decodes the addresses of its JSON rows.\<close>

datatype ip_decoder = DecodePlainIp | DecodeProxynovaIp

record 'u provider =
  pv_name :: string
  pv_tier :: provider_tier
  pv_sources :: "('u source list, string) outcome"
  pv_ip_decoder :: ip_decoder

text \<open>What a provider has when it defines only its name and its sources.\<close>

definition plain_provider :: "string \<Rightarrow> ('u source list, string) outcome \<Rightarrow> 'u provider" where
  "plain_provider name sources =
     \<lparr>pv_name = name, pv_tier = Primary, pv_sources = sources, pv_ip_decoder = DecodePlainIp\<rparr>"

definition all_providers :: "'u uri_parser \<Rightarrow> 'u provider list" where
  "all_providers uri =
     [plain_provider ''proxyscrape'' (proxyscrape_sources uri),
      plain_provider ''openproxylist'' (openproxylist_sources uri),
      plain_provider ''geonode'' (geonode_sources uri),
      plain_provider ''free-proxy-list'' (free_proxy_list_sources uri),
      plain_provider ''freeproxy-world'' (freeproxy_world_sources uri),
      plain_provider ''proxylist-org'' (proxylist_org_sources uri),
      plain_provider ''my-proxy'' (my_proxy_sources uri),
      (plain_provider ''proxynova'' (proxynova_sources uri))\<lparr>pv_ip_decoder := DecodeProxynovaIp\<rparr>,
      plain_provider ''hproxy'' (hproxy_sources uri),
      plain_provider ''proxydb'' (proxy_db_sources uri),
      plain_provider ''hidemy.name'' (hide_my_name_sources uri),
      plain_provider ''spys.one'' (spys_one_sources uri),
      (plain_provider ''stormsia'' (stormsia_sources uri))\<lparr>pv_tier := Fallback\<rparr>,
      (plain_provider ''github-raw'' (github_sources uri))\<lparr>pv_tier := Fallback\<rparr>]"

definition select_providers :: "'u provider list \<Rightarrow> string list \<Rightarrow> string list \<Rightarrow> 'u provider list" where
  "select_providers providers include exclude =
     filter (\<lambda>p. (include = [] \<or> list_ex (\<lambda>name. name = pv_name p) include) \<and>
                 \<not> list_ex (\<lambda>name. name = pv_name p) exclude) providers"

definition custom_provider :: "'u uri_parser \<Rightarrow> string \<Rightarrow> ('u provider, string) outcome" where
  "custom_provider uri url =
     and_then (source_all uri url) (\<lambda>s. Ok (plain_provider ''custom'' (Ok [s])))"

section \<open>The registry\<close>

text \<open>What a source must have for its rows to become candidates: protocols, and a schema that compiles.\<close>

definition usable_source :: "'u source \<Rightarrow> bool" where
  "usable_source s =
     (so_default_types s \<noteq> [] \<and> 0 < so_timeout s \<and>
      (case so_mode s of JsonRows config \<Rightarrow> compile_json_rows config decode_plain_ip \<noteq> None | _ \<Rightarrow> True))"

definition usable_mode :: "(scrape_mode, string) outcome \<Rightarrow> bool" where
  "usable_mode mode =
     (case mode of
        Ok (JsonRows config) \<Rightarrow> compile_json_rows config decode_plain_ip \<noteq> None
      | Ok _ \<Rightarrow> True
      | _ \<Rightarrow> False)"

definition usable_result :: "'u source_outcome \<Rightarrow> bool" where
  "usable_result r = (case r of Ok s \<Rightarrow> usable_source s | Err _ \<Rightarrow> True | Panic \<Rightarrow> False)"

lemma usable_new [simp]: "usable_result (source_new uri url types)"
  by (cases "uri url") (simp_all add: source_new_def usable_result_def usable_source_def COMMON_SOURCE_PROTOCOLS_def)

lemma usable_kinds [simp]:
  "usable_result (source_typed uri url p)" "usable_result (source_all uri url)" "usable_result (source_http uri url)"
  by (simp_all add: source_typed_def source_all_def source_http_def)

lemma usable_kind [simp]:
  "usable_result (case kind of KindHttp \<Rightarrow> source_http uri url | KindTyped p \<Rightarrow> source_typed uri url p | KindAll \<Rightarrow> source_all uri url)"
  by (cases kind) simp_all

lemma usable_tuned [simp]:
  assumes "usable_mode mode" and "0 < t" and "usable_result r"
  shows "usable_result (tuned mode t r)"
  using assms
  by (cases r; cases mode)
    (auto simp: tuned_def usable_result_def usable_source_def usable_mode_def with_mode_def with_timeout_def
      split: scrape_mode.splits)

lemma valid_sources_usable:
  "list_all usable_result rs \<Longrightarrow> \<exists>ss. valid_sources rs = Ok ss \<and> list_all usable_source ss"
proof (induction rs)
  case Nil
  then show ?case by simp
next
  case (Cons r rs)
  then show ?case by (cases r) (auto simp: usable_result_def)
qed

lemma schemas_usable [simp]:
  "usable_mode (expected geonode_schema)" "usable_mode (expected proxynova_schema)" "usable_mode (expected stormsia_schema)"
  by (simp_all add: usable_mode_def expected_def geonode_schema_def proxynova_schema_def stormsia_schema_def
    json_rows_config_new_def json_path_parse_def with_protocols_path_def with_protocol_path_def
    with_fixed_protocol_def compile_json_rows_def path_segments_def)

lemma plain_modes_usable [simp]:
  "usable_mode (Ok Plaintext)" "usable_mode (Ok HtmlTable)" "usable_mode (Ok RegexPairs)" "usable_mode (Ok Base64Rows)"
  by (simp_all add: usable_mode_def)

declare valid_sources.simps [simp del]

definition usable_sources :: "('u source list, string) outcome \<Rightarrow> bool" where
  "usable_sources r = (case r of Ok ss \<Rightarrow> list_all usable_source ss | _ \<Rightarrow> False)"

lemma valid_usable [simp]: "list_all usable_result rs \<Longrightarrow> usable_sources (valid_sources rs)"
  using valid_sources_usable [of rs] by (auto simp: usable_sources_def)

lemmas provider_sources_defs =
  proxyscrape_sources_def openproxylist_sources_def geonode_sources_def free_proxy_list_sources_def
  freeproxy_world_sources_def proxylist_org_sources_def my_proxy_sources_def proxynova_sources_def
  hproxy_sources_def proxy_db_sources_def hide_my_name_sources_def spys_one_sources_def
  stormsia_sources_def github_sources_def

lemma each_provider_usable:
  "usable_sources (proxyscrape_sources uri)" "usable_sources (openproxylist_sources uri)"
  "usable_sources (geonode_sources uri)" "usable_sources (free_proxy_list_sources uri)"
  "usable_sources (freeproxy_world_sources uri)" "usable_sources (proxylist_org_sources uri)"
  "usable_sources (my_proxy_sources uri)" "usable_sources (proxynova_sources uri)"
  "usable_sources (hproxy_sources uri)" "usable_sources (proxy_db_sources uri)"
  "usable_sources (hide_my_name_sources uri)" "usable_sources (spys_one_sources uri)"
  "usable_sources (stormsia_sources uri)" "usable_sources (github_sources uri)"
  by (auto simp: provider_sources_defs list_all_iff intro!: valid_usable)

lemma all_providers_usable: "list_all (\<lambda>p. usable_sources (pv_sources p)) (all_providers uri)"
  by (simp add: all_providers_def plain_provider_def each_provider_usable)

text \<open>C18: whatever URLs the URI parser accepts, building the source list of every built-in provider
  never panics (no JSON schema is rejected), a source it yields has protocols for untyped rows, a
  timeout, and a schema that compiles when it reads JSON; provider names are distinct, so a name in
  a filter means one provider, and none of them is the name of the custom sources.\<close>

theorem registry_well_formed:
  "list_all (\<lambda>p. case pv_sources p of Ok ss \<Rightarrow> list_all usable_source ss | _ \<Rightarrow> False) (all_providers uri) \<and>
   distinct (map pv_name (all_providers uri)) \<and> ''custom'' \<notin> set (map pv_name (all_providers uri))"
  using all_providers_usable [of uri] by (simp add: all_providers_def plain_provider_def usable_sources_def)

lemma set_select:
  "set (select_providers ps include exclude) =
     {p \<in> set ps. (include = [] \<or> pv_name p \<in> set include) \<and> pv_name p \<notin> set exclude}"
  by (auto simp: select_providers_def list_ex_iff)

lemma select_nothing [simp]: "select_providers ps [] [] = ps"
  by (simp add: select_providers_def)

text \<open>A selection made of names keeps the order of the registry and can be made in two steps.\<close>

lemma select_in_steps:
  "select_providers (select_providers ps include []) [] exclude = select_providers ps include exclude"
  by (auto simp: select_providers_def intro: filter_cong)

end
