(* ===== verification/Fetch_Plan.thy ===== *)
theory Fetch_Plan
  imports Provider_Registry Cli_Pipeline
begin

text \<open>
  The start of a fetch and its coordinator (\<open>gather\<close> of \<open>src/fetcher/mod.rs\<close>): the checks of the
  configuration, which sources are fetched in which phase, and the task that starts the phases and
  ends them. Times are milliseconds since the primary phase started. The world is when the tasks
  of a phase would end, when the stop signal comes, and how many candidates were accepted by when.
\<close>

section \<open>Checks and sources\<close>

type_synonym 'u fetch_job = "'u source \<times> 'u provider"

record 'u fetch_plan =
  fp_primary :: "'u fetch_job list"
  fp_fallback :: "'u fetch_job list"

definition CUSTOM :: string where "CUSTOM = ''custom''"

definition unknown_provider :: "string list \<Rightarrow> string list \<Rightarrow> string option" where
  "unknown_provider known names = find (\<lambda>name. \<not> List.member known name) names"

fun custom_providers :: "'u uri_parser \<Rightarrow> string list \<Rightarrow> ('u provider list, string) outcome" where
  "custom_providers uri [] = Ok []"
| "custom_providers uri (url # urls) =
     (case custom_provider uri url of
        Ok p \<Rightarrow> and_then (custom_providers uri urls) (\<lambda>ps. Ok (p # ps))
      | Err e \<Rightarrow> Err (''invalid custom source URL `'' @ url @ ''`'')
      | Panic \<Rightarrow> Panic)"

definition override_timeout :: "nat option \<Rightarrow> 'u source \<Rightarrow> 'u source" where
  "override_timeout timeout s = (case timeout of Some t \<Rightarrow> with_timeout t s | None \<Rightarrow> s)"

fun fill_buckets :: "nat option \<Rightarrow> 'u provider list \<Rightarrow> 'u fetch_plan \<Rightarrow> ('u fetch_plan, string) outcome" where
  "fill_buckets timeout [] plan = Ok plan"
| "fill_buckets timeout (p # ps) plan =
     and_then (pv_sources p) (\<lambda>ss.
       let jobs = map (\<lambda>s. (override_timeout timeout s, p)) ss
       in fill_buckets timeout ps
            (case pv_tier p of
               Primary \<Rightarrow> plan\<lparr>fp_primary := fp_primary plan @ jobs\<rparr>
             | Fallback \<Rightarrow> plan\<lparr>fp_fallback := fp_fallback plan @ jobs\<rparr>))"

definition gather_plan :: "'u uri_parser \<Rightarrow> bool \<Rightarrow> fetcher_cfg \<Rightarrow> ('u fetch_plan, string) outcome" where
  "gather_plan uri geo_ready cfg =
     (if fg_concurrency_limit cfg = 0 then Err ''config.concurrency_limit must be greater than zero''
      else if (fg_countries cfg \<noteq> [] \<or> fg_excluded_countries cfg \<noteq> []) \<and> \<not> fg_enable_geo_lookup cfg
      then Err ''country filter requires enable_geo_lookup=true (GeoIP lookup is currently disabled)''
      else if fg_enable_geo_lookup cfg \<and> \<not> geo_ready then Err ''failed to initialize geo lookup''
      else
        (let registry = all_providers uri;
             known = map pv_name registry @ (if fg_custom_sources cfg = [] then [] else [CUSTOM])
         in case unknown_provider known (fg_providers cfg) of
              Some name \<Rightarrow> Err (''unknown provider `'' @ name @ ''` (available: '' @ join '', '' known @ '')'')
            | None \<Rightarrow>
                and_then (custom_providers uri (fg_custom_sources cfg)) (\<lambda>custom.
                  fill_buckets (fg_provider_timeout cfg)
                    (select_providers registry (fg_providers cfg) (fg_excluded_providers cfg) @ custom)
                    \<lparr>fp_primary = [], fp_fallback = []\<rparr>)))"

lemma custom_providers_Ok:
  "custom_providers uri urls =
     (case find (\<lambda>url. uri url = None) urls of
        Some url \<Rightarrow> Err (''invalid custom source URL `'' @ url @ ''`'')
      | None \<Rightarrow> Ok (map (\<lambda>url. plain_provider CUSTOM (Ok [\<lparr>so_url = the (uri url),
          so_default_types = COMMON_SOURCE_PROTOCOLS, so_timeout = 3000, so_mode = Plaintext\<rparr>])) urls))"
  by (induction urls) (auto simp: custom_provider_def source_all_def source_new_def CUSTOM_def split: option.splits)

text \<open>The jobs of one tier, in the order of the providers.\<close>

definition provider_jobs :: "nat option \<Rightarrow> provider_tier \<Rightarrow> 'u provider \<Rightarrow> 'u fetch_job list" where
  "provider_jobs timeout tier p =
     (if pv_tier p \<noteq> tier then []
      else (case pv_sources p of Ok ss \<Rightarrow> map (\<lambda>s. (override_timeout timeout s, p)) ss | _ \<Rightarrow> []))"

definition tier_jobs :: "nat option \<Rightarrow> provider_tier \<Rightarrow> 'u provider list \<Rightarrow> 'u fetch_job list" where
  "tier_jobs timeout tier ps = concat (map (provider_jobs timeout tier) ps)"

lemma fill_buckets_jobs:
  "list_all (\<lambda>p. usable_sources (pv_sources p)) ps \<Longrightarrow>
   fill_buckets timeout ps plan =
     Ok \<lparr>fp_primary = fp_primary plan @ tier_jobs timeout Primary ps,
         fp_fallback = fp_fallback plan @ tier_jobs timeout Fallback ps\<rparr>"
proof (induction ps arbitrary: plan)
  case Nil
  then show ?case by (cases plan) (simp add: tier_jobs_def)
next
  case (Cons p ps)
  then obtain ss where "pv_sources p = Ok ss" by (auto simp: usable_sources_def split: outcome.splits)
  with Cons show ?case by (cases "pv_tier p") (simp_all add: tier_jobs_def provider_jobs_def Let_def)
qed

lemma select_usable:
  "list_all (\<lambda>p. usable_sources (pv_sources p)) (select_providers (all_providers uri) include exclude)"
  using all_providers_usable [of uri] by (auto simp: list_all_iff set_select)

text \<open>All the providers of a fetch: those selected from the registry, then one for each custom URL.\<close>

definition custom_source :: "'u uri_parser \<Rightarrow> string \<Rightarrow> 'u source" where
  "custom_source uri url =
     \<lparr>so_url = the (uri url), so_default_types = COMMON_SOURCE_PROTOCOLS, so_timeout = 3000, so_mode = Plaintext\<rparr>"

definition chosen_providers :: "'u uri_parser \<Rightarrow> fetcher_cfg \<Rightarrow> 'u provider list" where
  "chosen_providers uri cfg =
     select_providers (all_providers uri) (fg_providers cfg) (fg_excluded_providers cfg) @
     map (\<lambda>url. plain_provider CUSTOM (Ok [custom_source uri url])) (fg_custom_sources cfg)"

definition may_start :: "'u uri_parser \<Rightarrow> bool \<Rightarrow> fetcher_cfg \<Rightarrow> bool" where
  "may_start uri geo_ready cfg =
     (fg_concurrency_limit cfg \<noteq> 0 \<and>
      (fg_enable_geo_lookup cfg \<or> fg_countries cfg = [] \<and> fg_excluded_countries cfg = []) \<and>
      (geo_ready \<or> \<not> fg_enable_geo_lookup cfg) \<and>
      set (fg_providers cfg) \<subseteq>
        set (map pv_name (all_providers uri)) \<union> (if fg_custom_sources cfg = [] then {} else {CUSTOM}) \<and>
      set (fg_custom_sources cfg) \<subseteq> {url. uri url \<noteq> None})"

lemma chosen_usable: "list_all (\<lambda>p. usable_sources (pv_sources p)) (chosen_providers uri cfg)"
  using select_usable [of uri "fg_providers cfg" "fg_excluded_providers cfg"]
  by (auto simp: chosen_providers_def list_all_iff plain_provider_def usable_sources_def usable_source_def
      custom_source_def COMMON_SOURCE_PROTOCOLS_def)

lemma unknown_provider_None: "unknown_provider known names = None \<longleftrightarrow> set names \<subseteq> set known"
  by (auto simp: unknown_provider_def find_None_iff)

lemma gather_plan_cases:
  "if may_start uri geo_ready cfg
   then gather_plan uri geo_ready cfg =
     Ok \<lparr>fp_primary = tier_jobs (fg_provider_timeout cfg) Primary (chosen_providers uri cfg),
         fp_fallback = tier_jobs (fg_provider_timeout cfg) Fallback (chosen_providers uri cfg)\<rparr>
   else \<exists>e. gather_plan uri geo_ready cfg = Err e"
proof (cases "may_start uri geo_ready cfg")
  case True
  have n: "unknown_provider (map pv_name (all_providers uri) @ (if fg_custom_sources cfg = [] then [] else [CUSTOM]))
      (fg_providers cfg) = None"
    using True by (auto simp: unknown_provider_None may_start_def)
  have "find (\<lambda>url. uri url = None) (fg_custom_sources cfg) = None"
    using True by (auto simp: may_start_def find_None_iff)
  then have c: "custom_providers uri (fg_custom_sources cfg) =
      Ok (map (\<lambda>url. plain_provider CUSTOM (Ok [custom_source uri url])) (fg_custom_sources cfg))"
    by (simp add: custom_providers_Ok custom_source_def)
  show ?thesis
    using True n c fill_buckets_jobs [OF chosen_usable [of uri cfg], of "fg_provider_timeout cfg" "\<lparr>fp_primary = [], fp_fallback = []\<rparr>"]
    unfolding gather_plan_def may_start_def chosen_providers_def Let_def
    by (auto simp del: fill_buckets.simps)
next
  case False
  show ?thesis
  proof (cases "find (\<lambda>url. uri url = None) (fg_custom_sources cfg)")
    case None
    then have u: "set (fg_custom_sources cfg) \<subseteq> {url. uri url \<noteq> None}" by (auto simp: find_None_iff)
    let ?known = "map pv_name (all_providers uri) @ (if fg_custom_sources cfg = [] then [] else [CUSTOM])"
    have "set ?known = set (map pv_name (all_providers uri)) \<union> (if fg_custom_sources cfg = [] then {} else {CUSTOM})" by auto
    with False u show ?thesis
      using unknown_provider_None [of ?known "fg_providers cfg"]
      by (auto simp: gather_plan_def may_start_def Let_def split: option.split)
  next
    case (Some url)
    with False show ?thesis
      by (auto simp: gather_plan_def Let_def custom_providers_Ok split: option.split)
  qed
qed

text \<open>A fetch starts exactly with a positive concurrency, no country filter without the lookup, a
  lookup that initializes if it is wanted, provider names that exist (or are the custom one when
  there are custom sources), and custom URLs that parse; otherwise it is an error, never a panic.\<close>

theorem gather_starts:
  "gather_plan uri geo_ready cfg \<noteq> Panic \<and>
   ((\<exists>plan. gather_plan uri geo_ready cfg = Ok plan) =
     (fg_concurrency_limit cfg \<noteq> 0 \<and>
      (fg_enable_geo_lookup cfg \<or> fg_countries cfg = [] \<and> fg_excluded_countries cfg = []) \<and>
      (geo_ready \<or> \<not> fg_enable_geo_lookup cfg) \<and>
      set (fg_providers cfg) \<subseteq>
        set (map pv_name (all_providers uri)) \<union> (if fg_custom_sources cfg = [] then {} else {CUSTOM}) \<and>
      set (fg_custom_sources cfg) \<subseteq> {url. uri url \<noteq> None}))"
  using gather_plan_cases [of uri geo_ready cfg, unfolded may_start_def] by (auto split: if_splits)

text \<open>The jobs of a tier, provider by provider.\<close>

lemma tier_jobs_filter:
  "tier_jobs timeout tier ps =
     concat (map (\<lambda>p. map (\<lambda>s. (override_timeout timeout s, p)) (case pv_sources p of Ok ss \<Rightarrow> ss | _ \<Rightarrow> []))
       (filter (\<lambda>p. pv_tier p = tier) ps))"
  by (induction ps) (auto simp: tier_jobs_def provider_jobs_def split: outcome.split)

text \<open>C17: the jobs of a fetch are exactly these, in this order: in the primary phase those of the primary
  providers, in the fallback phase those of the fallback ones, one for every source of a provider,
  with the timeout given to the fetch in place of its own. The providers are those of the registry that were asked
  for (or nothing was) and not excluded, all of which build their sources, and one for each
  custom URL, whatever names are included or excluded; custom URLs parse and belong to the primary phase.\<close>

theorem gather_jobs:
  assumes "gather_plan uri geo_ready cfg = Ok plan"
  shows "let wanted = (\<lambda>p. pv_name p \<notin> set (fg_excluded_providers cfg) \<and>
               (fg_providers cfg = [] \<or> pv_name p \<in> set (fg_providers cfg)));
             chosen = filter wanted (all_providers uri) @
               map (\<lambda>url. plain_provider CUSTOM (Ok [custom_source uri url])) (fg_custom_sources cfg);
             timed = (\<lambda>s. case fg_provider_timeout cfg of Some t \<Rightarrow> s\<lparr>so_timeout := t\<rparr> | None \<Rightarrow> s);
             jobs = (\<lambda>p. map (\<lambda>s. (timed s, p)) (case pv_sources p of Ok ss \<Rightarrow> ss | _ \<Rightarrow> []))
         in fp_primary plan = concat (map jobs (filter (\<lambda>p. pv_tier p = Primary) chosen)) \<and>
            fp_fallback plan = concat (map jobs (filter (\<lambda>p. pv_tier p = Fallback) chosen)) \<and>
            (\<forall>p \<in> set chosen. \<exists>ss. pv_sources p = Ok ss \<and> list_all usable_source ss) \<and>
            (\<forall>url \<in> set (fg_custom_sources cfg). uri url \<noteq> None \<and>
               (\<exists>(s, p) \<in> set (fp_primary plan). pv_name p = CUSTOM \<and> Some (so_url s) = uri url))"
proof -
  let ?chosen = "chosen_providers uri cfg" and ?timeout = "fg_provider_timeout cfg"
  from assms have m: "may_start uri geo_ready cfg"
    and plan: "plan = \<lparr>fp_primary = tier_jobs ?timeout Primary ?chosen, fp_fallback = tier_jobs ?timeout Fallback ?chosen\<rparr>"
    using gather_plan_cases [of uri geo_ready cfg] by (auto split: if_splits)
  have chosen: "?chosen = filter (\<lambda>p. pv_name p \<notin> set (fg_excluded_providers cfg) \<and>
        (fg_providers cfg = [] \<or> pv_name p \<in> set (fg_providers cfg))) (all_providers uri) @
      map (\<lambda>url. plain_provider CUSTOM (Ok [custom_source uri url])) (fg_custom_sources cfg)"
    by (auto simp: chosen_providers_def select_providers_def list_ex_iff intro!: filter_cong)
  have timed: "override_timeout ?timeout = (\<lambda>s. case ?timeout of Some t \<Rightarrow> s\<lparr>so_timeout := t\<rparr> | None \<Rightarrow> s)"
    by (simp add: fun_eq_iff override_timeout_def with_timeout_def split: option.split)
  have usable: "\<forall>p \<in> set ?chosen. \<exists>ss. pv_sources p = Ok ss \<and> list_all usable_source ss"
  proof
    fix p
    assume "p \<in> set ?chosen"
    then have "usable_sources (pv_sources p)" using chosen_usable [of uri cfg] by (simp add: list_all_iff)
    then show "\<exists>ss. pv_sources p = Ok ss \<and> list_all usable_source ss"
      by (cases "pv_sources p") (simp_all add: usable_sources_def)
  qed
  have custom: "uri url \<noteq> None \<and> (\<exists>(s, p) \<in> set (fp_primary plan). pv_name p = CUSTOM \<and> Some (so_url s) = uri url)"
    if "url \<in> set (fg_custom_sources cfg)" for url
  proof -
    let ?p = "plain_provider CUSTOM (Ok [custom_source uri url])"
    have "(override_timeout ?timeout (custom_source uri url), ?p) \<in> set (fp_primary plan)"
      using that by (force simp: plan tier_jobs_filter chosen_providers_def plain_provider_def)
    moreover have "uri url \<noteq> None" using m that by (auto simp: may_start_def)
    ultimately show ?thesis
      by (intro conjI bexI) (auto simp: plain_provider_def custom_source_def timed split: option.splits)
  qed
  have "fp_primary plan = tier_jobs ?timeout Primary ?chosen \<and> fp_fallback plan = tier_jobs ?timeout Fallback ?chosen"
    by (simp add: plan)
  with usable custom show ?thesis unfolding tier_jobs_filter timed chosen Let_def by blast
qed

definition custom_cfg :: fetcher_cfg where
  "custom_cfg =
     \<lparr>fg_enforce_unique_ip = True, fg_concurrency_limit = 64, fg_enable_geo_lookup = False, fg_countries = [],
      fg_excluded_countries = [], fg_fallback_threshold = None, fg_fallback_phase_timeout = None,
      fg_cache_ttl = None, fg_refresh_cache = False, fg_providers = [''geonode''], fg_excluded_providers = [CUSTOM],
      fg_custom_sources = [''http://x/''], fg_offline = False, fg_fetch_delay = None, fg_provider_timeout = Some 5000\<rparr>"

theorem gather_jobs_witness:
  "\<exists>plan. gather_plan Some True custom_cfg = Ok plan \<and>
     (\<exists>(s, p) \<in> set (fp_primary plan). pv_name p = CUSTOM \<and> so_url s = ''http://x/'')"
proof -
  have "''geonode'' \<in> pv_name ` set (all_providers (Some :: string uri_parser))"
    by (simp add: all_providers_def plain_provider_def)
  then have "may_start (Some :: string uri_parser) True custom_cfg" by (simp add: may_start_def custom_cfg_def)
  then obtain plan where plan: "gather_plan (Some :: string uri_parser) True custom_cfg = Ok plan"
    using gather_plan_cases [of "Some :: string uri_parser" True custom_cfg] by auto
  have "''http://x/'' \<in> set (fg_custom_sources custom_cfg)" by (simp add: custom_cfg_def)
  with gather_jobs [OF plan, unfolded Let_def]
  have "\<exists>(s, p) \<in> set (fp_primary plan). pv_name p = CUSTOM \<and> Some (so_url s) = Some ''http://x/''" by blast
  then have "\<exists>(s, p) \<in> set (fp_primary plan). pv_name p = CUSTOM \<and> so_url s = ''http://x/''" by simp
  with plan show ?thesis by blast
qed

end
