(* ===== verification/Fetch_Coordinator.thy ===== *)
theory Fetch_Coordinator
  imports Fetch_Plan
begin

text \<open>
  The coordinator of a fetch (the task \<open>gather\<close> of \<open>src/fetcher/mod.rs\<close> spawns): it starts the primary
  phase, decides about the fallback phase, and ends both. Its clock is in milliseconds since it
  started. The world says when the tasks of a phase end if nothing aborts them, when the stop
  signal is sent, and how many candidates have been accepted by a time; aborted tasks end at once.
\<close>

section \<open>Waiting for the first of several things\<close>

text \<open>
  \<open>tokio::select!\<close>: each branch has the time it is ready at, or none; the earliest wins, and of several
  ready at the same time the first in a rotation that starts anywhere.
\<close>

fun earliest :: "nat option list \<Rightarrow> nat option" where
  "earliest [] = None"
| "earliest (b # bs) =
     (case (b, earliest bs) of
        (None, e) \<Rightarrow> e
      | (Some t, None) \<Rightarrow> Some t
      | (Some t, Some u) \<Rightarrow> Some (min t u))"

definition select_branch :: "nat \<Rightarrow> nat option list \<Rightarrow> (nat \<times> nat) option" where
  "select_branch start bs =
     (case earliest bs of
        None \<Rightarrow> None
      | Some t \<Rightarrow> map_option (\<lambda>i. (i, t)) (find (\<lambda>i. bs ! i = Some t) (rotate start [0..<length bs])))"

lemma earliest_None: "earliest bs = None \<longleftrightarrow> set bs \<subseteq> {None}"
  by (induction bs) (auto split: option.splits)

lemma earliest_Some: "earliest bs = Some t \<Longrightarrow> Some t \<in> set bs \<and> (\<forall>u. Some u \<in> set bs \<longrightarrow> t \<le> u)"
proof (induction bs arbitrary: t)
  case Nil
  then show ?case by simp
next
  case (Cons b bs)
  show ?case
  proof (cases "earliest bs")
    case None
    then have "set bs \<subseteq> {None}" by (simp add: earliest_None)
    with Cons.prems None show ?thesis by (auto split: option.splits)
  next
    case (Some u)
    with Cons.IH [OF Some] Cons.prems show ?thesis by (cases b) (auto simp: min_def split: if_splits)
  qed
qed

lemma select_branch_Some:
  "select_branch start bs = Some (i, t) \<Longrightarrow>
     i < length bs \<and> bs ! i = Some t \<and> (\<forall>u. Some u \<in> set bs \<longrightarrow> t \<le> u)"
proof -
  assume s: "select_branch start bs = Some (i, t)"
  then have t: "earliest bs = Some t"
    and f: "find (\<lambda>i. bs ! i = Some t) (rotate start [0..<length bs]) = Some i"
    by (auto simp: select_branch_def split: option.splits)
  from f obtain k where "k < length (rotate start [0..<length bs])" "i = rotate start [0..<length bs] ! k" "bs ! i = Some t"
    by (auto simp: find_Some_iff)
  then have "i \<in> set (rotate start [0..<length bs])" and "bs ! i = Some t" by (metis nth_mem)+
  with earliest_Some [OF t] show ?thesis by simp
qed

lemma select_branch_waits: "select_branch start bs = None \<longleftrightarrow> set bs \<subseteq> {None}"
proof
  show "set bs \<subseteq> {None}" if "select_branch start bs = None"
  proof (rule ccontr)
    assume "\<not> set bs \<subseteq> {None}"
    then obtain t where t: "earliest bs = Some t" by (cases "earliest bs") (auto simp: earliest_None)
    then obtain i where "i < length bs" "bs ! i = Some t" using earliest_Some [OF t] by (metis in_set_conv_nth)
    with that t show False by (auto simp: select_branch_def find_None_iff)
  qed
  show "select_branch start bs = None" if "set bs \<subseteq> {None}"
    using that by (simp add: select_branch_def earliest_None [THEN iffD2])
qed

section \<open>The coordinator\<close>

datatype fetch_stage = StagePrimary | StageFallback | StageDone

definition PRIMARY_PHASE_TIMEOUT :: nat where "PRIMARY_PHASE_TIMEOUT = 30000"

definition PRIMARY_FALLBACK_GRACE :: nat where "PRIMARY_FALLBACK_GRACE = 8000"

text \<open>\<open>ce_fallback\<close> is how long the fallback tasks run once started; \<open>ce_turn\<close> the start of the n-th rotation.\<close>

record coord_env =
  ce_primary :: "nat option"
  ce_fallback :: "nat option"
  ce_stop :: "nat option"
  ce_accepted :: "nat \<Rightarrow> nat"
  ce_turn :: "nat \<Rightarrow> nat"

datatype coord_event = Stage fetch_stage | StartPrimary | StartFallback | AbortPrimary | AbortFallback

type_synonym coord_trace = "(nat \<times> coord_event) list"

text \<open>What became ready while nobody waited for it is ready at once.\<close>

definition ready_from :: "nat \<Rightarrow> nat option \<Rightarrow> nat option" where
  "ready_from now b = map_option (max now) b"

text \<open>The last wait: for the fallback tasks, the stop signal, and the timeout if there is one.\<close>

definition fallback_wait :: "nat option \<Rightarrow> coord_env \<Rightarrow> nat \<Rightarrow> nat \<Rightarrow> coord_trace \<times> nat option" where
  "fallback_wait timeout e started now =
     (let ended = ready_from now (map_option ((+) started) (ce_fallback e));
          stop = ready_from now (ce_stop e)
      in case timeout of
           Some d \<Rightarrow>
             (case select_branch (ce_turn e 2) [ended, Some (now + d), stop] of
                None \<Rightarrow> ([], None)
              | Some (b, t) \<Rightarrow> (if b = 0 then [] else [(t, AbortFallback)], Some t))
         | None \<Rightarrow>
             (case select_branch (ce_turn e 2) [ended, stop] of
                None \<Rightarrow> ([], None)
              | Some (b, t) \<Rightarrow> (if b = 0 then [] else [(t, AbortFallback)], Some t)))"

text \<open>The wait for what is left of the primary tasks, when some are; they have until the end of the primary phase.\<close>

definition primary_wait :: "nat option \<Rightarrow> coord_env \<Rightarrow> bool \<Rightarrow> nat \<Rightarrow> coord_trace \<times> nat option" where
  "primary_wait timeout e left now =
     (if left \<and> PRIMARY_PHASE_TIMEOUT - now > 0
      then
        (case select_branch (ce_turn e 1)
            [ready_from now (ce_primary e), Some (now + (PRIMARY_PHASE_TIMEOUT - now)), ready_from now (ce_stop e)] of
           None \<Rightarrow> ([], None)
         | Some (b, t) \<Rightarrow>
             if b = 0 then fallback_wait timeout e now t
             else if b = 1
             then (case fallback_wait timeout e now t of (tr, end) \<Rightarrow> ((t, AbortPrimary) # tr, end))
             else ([(t, AbortPrimary), (t, AbortFallback)], Some t))
      else fallback_wait timeout e now now)"

text \<open>When the wait for the primary tasks ends: \<open>left\<close> when tasks are left to wait for.\<close>

definition decide :: "nat option \<Rightarrow> nat option \<Rightarrow> coord_env \<Rightarrow> bool \<Rightarrow> nat \<Rightarrow> coord_trace \<times> nat option" where
  "decide threshold timeout e left now =
     (if (case ce_stop e of Some s \<Rightarrow> s \<le> now | None \<Rightarrow> False) then ([(now, AbortPrimary)], Some now)
      else if (case threshold of Some n \<Rightarrow> n \<le> ce_accepted e now | None \<Rightarrow> False) then ([(now, AbortPrimary)], Some now)
      else (case primary_wait timeout e left now of
              (tr, end) \<Rightarrow> ((now, Stage StageFallback) # (now, StartFallback) # tr, end)))"

definition coordinate :: "fetcher_cfg \<Rightarrow> coord_env \<Rightarrow> coord_trace \<times> nat option" where
  "coordinate cfg e =
     (case select_branch (ce_turn e 0) [ce_primary e, ce_stop e, Some PRIMARY_FALLBACK_GRACE] of
        None \<Rightarrow> ([], None)
      | Some (b, now) \<Rightarrow>
          (case decide (fg_fallback_threshold cfg) (fg_fallback_phase_timeout cfg) e (b = 2) now of
             (tr, end) \<Rightarrow>
               ([(0, Stage StagePrimary), (0, StartPrimary)] @ tr @
                (case end of Some t \<Rightarrow> [(t, Stage StageDone)] | None \<Rightarrow> []), end)))"

section \<open>When the phases start and end\<close>

lemma fallback_wait_end:
  "case snd (fallback_wait timeout e started now) of
     None \<Rightarrow> timeout = None \<and> ce_stop e = None \<and> ce_fallback e = None
   | Some t \<Rightarrow> now \<le> t \<and> (\<forall>d. timeout = Some d \<longrightarrow> t \<le> now + d) \<and> (\<forall>s. ce_stop e = Some s \<longrightarrow> t \<le> max now s)"
proof (cases timeout)
  case None
  show ?thesis
  proof (cases "select_branch (ce_turn e 2)
      [ready_from now (map_option ((+) started) (ce_fallback e)), ready_from now (ce_stop e)]")
    case N: None
    then have "ready_from now (map_option ((+) started) (ce_fallback e)) = None" "ready_from now (ce_stop e) = None"
      by (simp_all add: select_branch_waits)
    with None N show ?thesis by (simp add: fallback_wait_def ready_from_def)
  next
    case (Some r)
    obtain b t where r: "r = (b, t)" by (cases r)
    from select_branch_Some [OF Some [unfolded r]] have
      "b = 0 \<or> b = Suc 0" "\<forall>u. Some u \<in> {ready_from now (map_option ((+) started) (ce_fallback e)), ready_from now (ce_stop e)} \<longrightarrow> t \<le> u"
      "[ready_from now (map_option ((+) started) (ce_fallback e)), ready_from now (ce_stop e)] ! b = Some t"
      by auto
    with None Some r show ?thesis
      by (auto simp: fallback_wait_def ready_from_def)
  qed
next
  case d: (Some d)
  let ?bs = "[ready_from now (map_option ((+) started) (ce_fallback e)), Some (now + d), ready_from now (ce_stop e)]"
  show ?thesis
  proof (cases "select_branch (ce_turn e 2) ?bs")
    case None
    then show ?thesis by (simp add: select_branch_waits)
  next
    case (Some r)
    obtain b t where r: "r = (b, t)" by (cases r)
    from select_branch_Some [OF Some [unfolded r]] have
      "b = 0 \<or> b = Suc 0 \<or> b = Suc (Suc 0)" "\<forall>u. Some u \<in> set ?bs \<longrightarrow> t \<le> u" "?bs ! b = Some t"
      by auto
    with d Some r show ?thesis
      by (auto simp: fallback_wait_def ready_from_def)
  qed
qed

lemma primary_wait_end:
  assumes "now \<le> PRIMARY_PHASE_TIMEOUT"
  shows "case snd (primary_wait timeout e left now) of
     None \<Rightarrow> timeout = None \<and> ce_stop e = None \<and> ce_fallback e = None
   | Some t \<Rightarrow> now \<le> t \<and> (\<forall>d. timeout = Some d \<longrightarrow> t \<le> PRIMARY_PHASE_TIMEOUT + d) \<and> (\<forall>s. ce_stop e = Some s \<longrightarrow> t \<le> max now s)"
proof (cases "left \<and> PRIMARY_PHASE_TIMEOUT - now > 0")
  case False
  then show ?thesis
    using fallback_wait_end [of timeout e now now] assms
    by (auto simp: primary_wait_def split: option.splits)
next
  case True
  let ?bs = "[ready_from now (ce_primary e), Some (now + (PRIMARY_PHASE_TIMEOUT - now)), ready_from now (ce_stop e)]"
  show ?thesis
  proof (cases "select_branch (ce_turn e 1) ?bs")
    case None
    then show ?thesis by (simp add: select_branch_waits)
  next
    case (Some r)
    obtain b t where r: "r = (b, t)" by (cases r)
    from select_branch_Some [OF Some [unfolded r]] have
      b: "b = 0 \<or> b = Suc 0 \<or> b = Suc (Suc 0)" and "\<forall>u. Some u \<in> set ?bs \<longrightarrow> t \<le> u" and "?bs ! b = Some t"
      by auto
    then have t: "now \<le> t" "t \<le> PRIMARY_PHASE_TIMEOUT" "\<forall>s. ce_stop e = Some s \<longrightarrow> t \<le> max now s"
      using assms by (auto simp: ready_from_def)
    have f: "case snd (fallback_wait timeout e now t) of
       None \<Rightarrow> timeout = None \<and> ce_stop e = None \<and> ce_fallback e = None
     | Some u \<Rightarrow> now \<le> u \<and> (\<forall>d. timeout = Some d \<longrightarrow> u \<le> PRIMARY_PHASE_TIMEOUT + d) \<and> (\<forall>s. ce_stop e = Some s \<longrightarrow> u \<le> max now s)"
      using fallback_wait_end [where timeout = timeout and e = e and started = now and now = t] t
      by (cases "snd (fallback_wait timeout e now t)") fastforce+
    have "snd (primary_wait timeout e left now) = (if b = 2 then Some t else snd (fallback_wait timeout e now t))"
      using True Some r b by (auto simp: primary_wait_def split: prod.splits)
    then show ?thesis using f t by (auto split: option.splits)
  qed
qed

text \<open>The time of the decision: when the primary tasks ended, the stop signal came, or the grace time is over.\<close>

definition decision_time :: "coord_env \<Rightarrow> nat" where
  "decision_time e = the (earliest [ce_primary e, ce_stop e, Some PRIMARY_FALLBACK_GRACE])"

definition no_fallback :: "fetcher_cfg \<Rightarrow> coord_env \<Rightarrow> bool" where
  "no_fallback cfg e =
     ((case ce_stop e of Some s \<Rightarrow> s \<le> decision_time e | None \<Rightarrow> False) \<or>
      (case fg_fallback_threshold cfg of Some n \<Rightarrow> n \<le> ce_accepted e (decision_time e) | None \<Rightarrow> False))"

lemma decision_time_bounds:
  "decision_time e \<le> PRIMARY_FALLBACK_GRACE" "ce_stop e = Some s \<Longrightarrow> decision_time e \<le> s" "ce_primary e = Some p \<Longrightarrow> decision_time e \<le> p"
proof -
  let ?bs = "[ce_primary e, ce_stop e, Some PRIMARY_FALLBACK_GRACE]"
  have "earliest ?bs \<noteq> None" by (simp add: earliest_None del: earliest.simps)
  then have "earliest ?bs = Some (decision_time e)" by (auto simp: decision_time_def)
  from earliest_Some [OF this] show "decision_time e \<le> PRIMARY_FALLBACK_GRACE"
    "ce_stop e = Some s \<Longrightarrow> decision_time e \<le> s" "ce_primary e = Some p \<Longrightarrow> decision_time e \<le> p" by auto
qed

lemma coordinate_cases:
  obtains left where
    "coordinate cfg e =
       (case (if no_fallback cfg e then ([(decision_time e, AbortPrimary)], Some (decision_time e))
              else (case primary_wait (fg_fallback_phase_timeout cfg) e left (decision_time e) of
                 (tr, end) \<Rightarrow> ((decision_time e, Stage StageFallback) # (decision_time e, StartFallback) # tr, end))) of
          (tr, end) \<Rightarrow>
            ([(0, Stage StagePrimary), (0, StartPrimary)] @ tr @ (case end of Some t \<Rightarrow> [(t, Stage StageDone)] | None \<Rightarrow> []), end))"
proof -
  let ?bs = "[ce_primary e, ce_stop e, Some PRIMARY_FALLBACK_GRACE]"
  obtain b t where r: "select_branch (ce_turn e 0) ?bs = Some (b, t)"
    by (cases "select_branch (ce_turn e 0) ?bs") (auto simp: select_branch_waits)
  then have "earliest ?bs = Some t" by (auto simp: select_branch_def split: option.splits)
  then have "decision_time e = t" by (simp add: decision_time_def del: earliest.simps)
  with r show ?thesis
    by (intro that [of "b = 2"])
      (auto simp: coordinate_def decide_def no_fallback_def split: prod.splits option.splits)
qed

lemma waits_start_nothing:
  "(t, StartFallback) \<notin> set (fst (fallback_wait timeout e started now))"
  "(t, Stage s) \<notin> set (fst (fallback_wait timeout e started now))"
  by (auto simp: fallback_wait_def Let_def split: option.splits)

lemma primary_starts_nothing:
  "(t, StartFallback) \<notin> set (fst (primary_wait timeout e left now))"
  "(t, Stage s) \<notin> set (fst (primary_wait timeout e left now))"
  using waits_start_nothing
  by (auto simp: primary_wait_def split: option.splits prod.splits) (metis fst_conv)+

text \<open>C15: the fallback phase starts at the decision time, which is when the primary tasks have ended or
  after the grace time, exactly when by then neither the stop signal has come nor the
  threshold of accepted candidates is reached.\<close>

theorem fallback_starts_iff:
  "(t, StartFallback) \<in> set (fst (coordinate cfg e)) \<longleftrightarrow>
     earliest [ce_primary e, ce_stop e, Some PRIMARY_FALLBACK_GRACE] = Some t \<and>
     \<not> (case ce_stop e of Some s \<Rightarrow> s \<le> t | None \<Rightarrow> False) \<and>
     \<not> (case fg_fallback_threshold cfg of Some n \<Rightarrow> n \<le> ce_accepted e t | None \<Rightarrow> False)"
proof -
  let ?bs = "[ce_primary e, ce_stop e, Some PRIMARY_FALLBACK_GRACE]"
  have "earliest ?bs \<noteq> None" by (simp add: earliest_None del: earliest.simps)
  then have d: "earliest ?bs = Some (decision_time e)" by (auto simp: decision_time_def)
  obtain left where c: "coordinate cfg e =
       (case (if no_fallback cfg e then ([(decision_time e, AbortPrimary)], Some (decision_time e))
              else (case primary_wait (fg_fallback_phase_timeout cfg) e left (decision_time e) of
                 (tr, end) \<Rightarrow> ((decision_time e, Stage StageFallback) # (decision_time e, StartFallback) # tr, end))) of
          (tr, end) \<Rightarrow>
            ([(0, Stage StagePrimary), (0, StartPrimary)] @ tr @ (case end of Some t \<Rightarrow> [(t, Stage StageDone)] | None \<Rightarrow> []), end))"
    by (rule coordinate_cases)
  have "(t, StartFallback) \<in> set (fst (coordinate cfg e)) \<longleftrightarrow> t = decision_time e \<and> \<not> no_fallback cfg e"
    using primary_starts_nothing(1) [of t "fg_fallback_phase_timeout cfg" e left "decision_time e"]
    by (auto simp: c split: prod.splits option.splits)
  then show ?thesis unfolding d by (auto simp: no_fallback_def)
qed

lemma coordinate_end:
  "case snd (coordinate cfg e) of
     None \<Rightarrow> fg_fallback_phase_timeout cfg = None \<and> ce_stop e = None \<and> ce_fallback e = None \<and> \<not> no_fallback cfg e
   | Some t \<Rightarrow> decision_time e \<le> t \<and> (\<forall>d. fg_fallback_phase_timeout cfg = Some d \<longrightarrow> t \<le> PRIMARY_PHASE_TIMEOUT + d) \<and>
       (\<forall>s. ce_stop e = Some s \<longrightarrow> t \<le> s)"
proof -
  obtain left where c: "coordinate cfg e =
       (case (if no_fallback cfg e then ([(decision_time e, AbortPrimary)], Some (decision_time e))
              else (case primary_wait (fg_fallback_phase_timeout cfg) e left (decision_time e) of
                 (tr, end) \<Rightarrow> ((decision_time e, Stage StageFallback) # (decision_time e, StartFallback) # tr, end))) of
          (tr, end) \<Rightarrow>
            ([(0, Stage StagePrimary), (0, StartPrimary)] @ tr @ (case end of Some t \<Rightarrow> [(t, Stage StageDone)] | None \<Rightarrow> []), end))"
    by (rule coordinate_cases)
  have g: "decision_time e \<le> PRIMARY_PHASE_TIMEOUT"
    using decision_time_bounds(1) [of e] by (simp add: PRIMARY_PHASE_TIMEOUT_def PRIMARY_FALLBACK_GRACE_def)
  have "snd (coordinate cfg e) = (if no_fallback cfg e then Some (decision_time e)
      else snd (primary_wait (fg_fallback_phase_timeout cfg) e left (decision_time e)))"
    by (simp add: c split: prod.splits)
  then show ?thesis
    using primary_wait_end [OF g, of "fg_fallback_phase_timeout cfg" e left] decision_time_bounds(2) [of e] g
    by (auto split: option.splits if_splits)
qed

text \<open>A configuration and worlds for the examples.\<close>

definition example_cfg :: "nat option \<Rightarrow> nat option \<Rightarrow> fetcher_cfg" where
  "example_cfg threshold timeout =
     \<lparr>fg_enforce_unique_ip = True, fg_concurrency_limit = 64, fg_enable_geo_lookup = False, fg_countries = [],
      fg_excluded_countries = [], fg_fallback_threshold = threshold, fg_fallback_phase_timeout = timeout,
      fg_cache_ttl = None, fg_refresh_cache = False, fg_providers = [], fg_excluded_providers = [],
      fg_custom_sources = [], fg_offline = False, fg_fetch_delay = None, fg_provider_timeout = None\<rparr>"

definition slow_world :: "nat option \<Rightarrow> coord_env" where
  "slow_world stop = \<lparr>ce_primary = None, ce_fallback = None, ce_stop = stop, ce_accepted = (\<lambda>t. t div 10), ce_turn = (\<lambda>_. 0)\<rparr>"

text \<open>C16: a fetch ends: with a timeout for the fallback phase at most that long after the time of the
  primary phase, and at the stop signal at the latest; it can wait forever only with neither
  of them and a fallback task that never ends.\<close>

theorem fetch_phases_end:
  assumes "fg_fallback_phase_timeout cfg \<noteq> None \<or> ce_stop e \<noteq> None \<or> ce_fallback e \<noteq> None"
  shows "\<exists>t. snd (coordinate cfg e) = Some t \<and>
    (\<forall>d. fg_fallback_phase_timeout cfg = Some d \<longrightarrow> t \<le> PRIMARY_PHASE_TIMEOUT + d) \<and>
    (\<forall>s. ce_stop e = Some s \<longrightarrow> t \<le> s)"
  using assms coordinate_end [of cfg e] by (auto split: option.splits)

theorem fetch_phases_end_witness:
  "\<exists>t. snd (coordinate (example_cfg None None) (slow_world (Some 12000))) = Some t \<and> t \<le> 12000"
  using fetch_phases_end [of "example_cfg None None" "slow_world (Some 12000)"] by (auto simp: slow_world_def)

fun stages_of :: "coord_trace \<Rightarrow> fetch_stage list" where
  "stages_of [] = []"
| "stages_of ((t, ev) # tr) = (case ev of Stage s \<Rightarrow> [s] | _ \<Rightarrow> []) @ stages_of tr"

lemma stages_of_append [simp]: "stages_of (tr @ tr') = stages_of tr @ stages_of tr'"
  by (induction tr) auto

lemma no_stages: "\<forall>t s. (t, Stage s) \<notin> set tr \<Longrightarrow> stages_of tr = []"
proof (induction tr)
  case (Cons x tr)
  obtain t ev where "x = (t, ev)" by (cases x)
  with Cons show ?case by (cases ev) auto
qed simp

text \<open>What the consumer hears of the phases: the primary one first, the fallback one at most once and
  after it, and the end last, exactly when the coordinator ends.\<close>

theorem stages_in_order:
  "stages_of (fst (coordinate cfg e)) =
     [StagePrimary] @ (if \<exists>t. (t, StartFallback) \<in> set (fst (coordinate cfg e)) then [StageFallback] else []) @
     (if snd (coordinate cfg e) = None then [] else [StageDone])"
proof -
  obtain left where c: "coordinate cfg e =
       (case (if no_fallback cfg e then ([(decision_time e, AbortPrimary)], Some (decision_time e))
              else (case primary_wait (fg_fallback_phase_timeout cfg) e left (decision_time e) of
                 (tr, end) \<Rightarrow> ((decision_time e, Stage StageFallback) # (decision_time e, StartFallback) # tr, end))) of
          (tr, end) \<Rightarrow>
            ([(0, Stage StagePrimary), (0, StartPrimary)] @ tr @ (case end of Some t \<Rightarrow> [(t, Stage StageDone)] | None \<Rightarrow> []), end))"
    by (rule coordinate_cases)
  have "stages_of (fst (primary_wait timeout e left now)) = []" for timeout left now
    by (rule no_stages) (simp add: primary_starts_nothing)
  then have p: "primary_wait timeout e left now = (tr, end) \<Longrightarrow> stages_of tr = []" for timeout left now tr "end"
    by (metis fst_conv)
  show ?thesis
    by (auto simp: c p split: prod.split option.split)
qed

text \<open>The timeout of the fallback phase runs from the end of the primary phase, not from its own
  start: while primary tasks keep running, fallback tasks started after the grace time run to the
  end of the primary phase and for the whole timeout after it.\<close>

theorem fallback_outlives_its_timeout:
  assumes "ce_primary e = None" and "ce_fallback e = None" and "ce_stop e = None"
    and "fg_fallback_threshold cfg = None" and "fg_fallback_phase_timeout cfg = Some d"
  shows "coordinate cfg e =
    ([(0, Stage StagePrimary), (0, StartPrimary), (8000, Stage StageFallback), (8000, StartFallback),
      (30000, AbortPrimary), (30000 + d, AbortFallback), (30000 + d, Stage StageDone)], Some (30000 + d))"
proof -
  have s: "select_branch k [None, Some t, None] = Some (1, t)" "select_branch k [None, None, Some t] = Some (2, t)" for k t
  proof -
    show "select_branch k [None, Some t, None] = Some (1, t)"
    proof (cases "select_branch k [None, Some t, None]")
      case None
      then show ?thesis by (simp add: select_branch_waits)
    next
      case (Some r)
      then obtain i u where "select_branch k [None, Some t, None] = Some (i, u)" by (cases r) auto
      with select_branch_Some [OF this] show ?thesis by (auto simp: less_Suc_eq nth_Cons split: nat.splits)
    qed
    show "select_branch k [None, None, Some t] = Some (2, t)"
    proof (cases "select_branch k [None, None, Some t]")
      case None
      then show ?thesis by (simp add: select_branch_waits)
    next
      case (Some r)
      then obtain i u where "select_branch k [None, None, Some t] = Some (i, u)" by (cases r) auto
      with select_branch_Some [OF this] show ?thesis by (auto simp: less_Suc_eq nth_Cons split: nat.splits)
    qed
  qed
  show ?thesis
    using assms
    by (simp add: coordinate_def decide_def primary_wait_def fallback_wait_def ready_from_def s
        PRIMARY_FALLBACK_GRACE_def PRIMARY_PHASE_TIMEOUT_def)
qed

theorem fallback_outlives_its_timeout_witness:
  "(31000, AbortFallback) \<in> set (fst (coordinate (example_cfg None (Some 1000)) (slow_world None)))"
  using fallback_outlives_its_timeout [of "slow_world None" "example_cfg None (Some 1000)" 1000]
  by (simp add: slow_world_def example_cfg_def)

text \<open>The stop signal, which the gate of candidates sends when the threshold is reached, aborts the
  primary tasks that still run, whether or not the fallback phase would have started.\<close>

theorem stop_aborts_primary:
  assumes "ce_primary e = None" and "ce_stop e = Some s" and "s \<le> PRIMARY_FALLBACK_GRACE"
  shows "coordinate cfg e =
    ([(0, Stage StagePrimary), (0, StartPrimary), (s, AbortPrimary), (s, Stage StageDone)], Some s)"
proof -
  have d: "decision_time e = s" using assms by (simp add: decision_time_def min_def)
  then have "no_fallback cfg e" using assms by (simp add: no_fallback_def)
  then show ?thesis using d by (rule_tac cfg = cfg and e = e in coordinate_cases) simp
qed

theorem stop_aborts_primary_witness:
  "coordinate (example_cfg (Some 100) None) (slow_world (Some 1000)) =
    ([(0, Stage StagePrimary), (0, StartPrimary), (1000, AbortPrimary), (1000, Stage StageDone)], Some 1000)"
  by (rule stop_aborts_primary) (simp_all add: slow_world_def PRIMARY_FALLBACK_GRACE_def)

end
