(* ===== verification/Tui_Engine.thy ===== *)
theory Tui_Engine
  imports Tui_App Cli_Find Fetch_Coordinator
begin

text \<open>
  The pipeline behind the terminal interface (\<open>src/cli/tui/engine.rs\<close>): a run is a task that fetches,
  validates and sends what it finds to the interface; two more tasks relay the stages of the
  fetcher and the failures of the validator. Each task is the list of what it does, in order, and a
  run is an interleaving of the three. What fetching and validating yield are arguments.
\<close>

section \<open>The state the interface polls\<close>

datatype phase =
    Starting | Preparing | FetchingPrimary | FetchingFallback | Gathering | CheckingJudges
  | ValidatingPass nat | PhaseFinished | PhaseFailed

definition phase_label :: "phase \<Rightarrow> string" where
  "phase_label p =
     (case p of
        Starting \<Rightarrow> ''starting''
      | Preparing \<Rightarrow> ''preparing''
      | FetchingPrimary \<Rightarrow> ''primary sources''
      | FetchingFallback \<Rightarrow> ''fallback sources''
      | Gathering \<Rightarrow> ''gathering''
      | CheckingJudges \<Rightarrow> ''checking judges''
      | ValidatingPass pass \<Rightarrow> ''validating pass '' @ show_nat pass
      | PhaseFinished \<Rightarrow> ''done''
      | PhaseFailed \<Rightarrow> ''failed'')"

text \<open>The counters behind a handle are those it has when it is read; the gate is whether it is paused.\<close>

record live_state =
  lv_phase :: phase
  lv_phase_started :: nat
  lv_gathered :: "nat option"
  lv_progress :: "(nat \<times> nat) option"
  lv_gate :: "bool option"
  lv_error :: "string option"

definition live_new :: "nat \<Rightarrow> live_state" where
  "live_new now =
     \<lparr>lv_phase = Starting, lv_phase_started = now, lv_gathered = None, lv_progress = None, lv_gate = None, lv_error = None\<rparr>"

definition live_gathered :: "live_state \<Rightarrow> nat" where
  "live_gathered s = (case lv_gathered s of None \<Rightarrow> 0 | Some n \<Rightarrow> n)"

definition live_paused :: "live_state \<Rightarrow> bool" where
  "live_paused s = (lv_gate s = Some True)"

definition phase_elapsed :: "nat \<Rightarrow> live_state \<Rightarrow> nat" where
  "phase_elapsed now s = now - lv_phase_started s"

definition enter_phase :: "nat \<Rightarrow> phase \<Rightarrow> live_state \<Rightarrow> live_state" where
  "enter_phase now p s = s\<lparr>lv_phase := p, lv_phase_started := now\<rparr>"

definition toggle_pause :: "live_state \<Rightarrow> live_state" where
  "toggle_pause s = (case lv_gate s of None \<Rightarrow> s | Some paused \<Rightarrow> s\<lparr>lv_gate := Some (\<not> paused)\<rparr>)"

section \<open>What the tasks do\<close>

datatype run_action = EnterPhase phase | ShowGathered nat | ShowProgress nat nat | ShowError string | Send engine_event

definition live_step :: "nat \<Rightarrow> run_action \<Rightarrow> live_state \<Rightarrow> live_state" where
  "live_step now act s =
     (case act of
        EnterPhase p \<Rightarrow> enter_phase now p s
      | ShowGathered n \<Rightarrow> s\<lparr>lv_gathered := Some n\<rparr>
      | ShowProgress done' passed \<Rightarrow> s\<lparr>lv_progress := Some (done', passed), lv_gate := Some False\<rparr>
      | ShowError e \<Rightarrow> s\<lparr>lv_error := Some e\<rparr>
      | Send ev \<Rightarrow> s)"



fun relay_stages :: "phase \<Rightarrow> fetch_stage list \<Rightarrow> run_action list" where
  "relay_stages done_phase [] = []"
| "relay_stages done_phase (StagePrimary # stages) = EnterPhase FetchingPrimary # relay_stages done_phase stages"
| "relay_stages done_phase (StageFallback # stages) = EnterPhase FetchingFallback # relay_stages done_phase stages"
| "relay_stages done_phase (StageDone # stages) = [EnterPhase done_phase]"

text \<open>
  The channel to the interface, as the number of messages it still takes before it is dropped; None
  when it stays. A send to a dropped channel fails.
\<close>

type_synonym room = "nat option"

definition send_row :: "room \<Rightarrow> room option" where
  "send_row room = (case room of None \<Rightarrow> Some None | Some n \<Rightarrow> (if n = 0 then None else Some (Some (n - 1))))"

definition send_one :: "room \<Rightarrow> engine_event \<Rightarrow> run_action list \<times> room" where
  "send_one room ev = (case send_row room of None \<Rightarrow> ([], room) | Some room1 \<Rightarrow> ([Send ev], room1))"

datatype quota_choice = EmitRow | SkipRow | StopRows

definition quota_decision :: "proxy \<Rightarrow> enforcer \<Rightarrow> quota_choice \<times> enforcer" where
  "quota_decision p e =
     (case should_emit p e of
        (b, e1) \<Rightarrow> (if b then EmitRow else if is_satisfied e1 then StopRows else SkipRow, e1))"

section \<open>Runs\<close>

record validation =
  vl_items :: "proxy list"
  vl_pulled :: nat
  vl_done :: nat
  vl_passed :: nat
  vl_healthy :: nat
  vl_judges :: nat

record engine_world =
  ew_fetch :: "fetcher_cfg \<Rightarrow> string + proxy list"
  ew_files :: "string list \<Rightarrow> string + proxy list"
  ew_validate :: "validator_cfg \<Rightarrow> (enforcer \<Rightarrow> protocol \<Rightarrow> bool) option \<Rightarrow> proxy list \<Rightarrow> string + validation"
  ew_accepted :: nat
  ew_elapsed :: nat

record run_out =
  ro_actions :: "run_action list"
  ro_room :: room
  ro_result :: "string + run_summary"

definition run_filter :: "run_spec \<Rightarrow> proxy_filter" where
  "run_filter spec = filter_from_options (filter_options (sp_output spec))"

fun grab_loop :: "proxy_filter \<Rightarrow> nat \<Rightarrow> room \<Rightarrow> nat \<Rightarrow> proxy list \<Rightarrow> proxy list \<times> room" where
  "grab_loop f limit room emitted [] = ([], room)"
| "grab_loop f limit room emitted (p # ps) =
     (if \<not> filter_matches f p then grab_loop f limit room emitted ps
      else (case send_row room of
              None \<Rightarrow> ([], room)
            | Some room1 \<Rightarrow>
                (if 0 < limit \<and> limit \<le> emitted + 1 then ([p], room1)
                 else (case grab_loop f limit room1 (emitted + 1) ps of (rows, r) \<Rightarrow> (p # rows, r)))))"

definition engine_grab :: "engine_world \<Rightarrow> room \<Rightarrow> run_spec \<Rightarrow> run_out" where
  "engine_grab w room spec =
     (case ew_fetch w (fetcher_config (sp_fetcher spec)) of
        Inl e \<Rightarrow> \<lparr>ro_actions = [EnterPhase Preparing], ro_room = room, ro_result = Inl (''failed to start the proxy fetcher: '' @ e)\<rparr>
      | Inr ps \<Rightarrow>
          (case grab_loop (run_filter spec) (oo_limit (sp_output spec)) room 0 ps of
             (rows, room1) \<Rightarrow>
               \<lparr>ro_actions = [EnterPhase Preparing, ShowGathered (ew_accepted w), EnterPhase FetchingPrimary] @
                  map (\<lambda>p. Send (NewProxy p)) rows,
                ro_room = room1,
                ro_result = Inr \<lparr>sm_gathered = ew_accepted w, sm_valid = length rows, sm_failed = 0, sm_elapsed = ew_elapsed w\<rparr>\<rparr>))"

text \<open>One validation pass: the rows sent, and the enforcer afterwards.\<close>

fun find_loop :: "proxy_filter \<Rightarrow> nat \<Rightarrow> room \<Rightarrow> nat \<Rightarrow> enforcer \<Rightarrow> proxy list \<Rightarrow> proxy list \<times> enforcer \<times> room" where
  "find_loop f limit room emitted e [] = ([], e, room)"
| "find_loop f limit room emitted e (p # ps) =
     (if \<not> filter_matches f p then find_loop f limit room emitted e ps
      else (case quota_decision p e of
              (StopRows, e1) \<Rightarrow> ([], e1, room)
            | (SkipRow, e1) \<Rightarrow> find_loop f limit room emitted e1 ps
            | (EmitRow, e1) \<Rightarrow>
                (case send_row room of
                   None \<Rightarrow> ([], e1, room)
                 | Some room1 \<Rightarrow>
                     (if 0 < limit \<and> limit \<le> emitted + 1 then ([p], e1, room1)
                      else if is_satisfied e1 then ([p], e1, room1)
                      else (case find_loop f limit room1 (emitted + 1) e1 ps of (rows, r) \<Rightarrow> (p # rows, r))))))"

definition find_source :: "engine_world \<Rightarrow> run_spec \<Rightarrow> validator_args \<Rightarrow> run_action list \<times> (string + proxy list)" where
  "find_source w spec va =
     (if va_files va \<noteq> [] then ([EnterPhase CheckingJudges], ew_files w (va_files va))
      else (case ew_fetch w (fetcher_config (sp_fetcher spec)) of
              Inl e \<Rightarrow> ([EnterPhase Preparing], Inl (''failed to start the proxy fetcher: '' @ e))
            | Inr ps \<Rightarrow> ([EnterPhase Preparing, ShowGathered (ew_accepted w)], Inr ps)))"

definition find_gathered :: "engine_world \<Rightarrow> validator_args \<Rightarrow> nat" where
  "find_gathered w va = (if va_files va \<noteq> [] then 0 else ew_accepted w)"

definition requested_protocols :: "type_requests \<Rightarrow> protocol list" where
  "requested_protocols reqs = map tq_protocol (find_quotas reqs)"

definition second_limit :: "nat \<Rightarrow> bool \<Rightarrow> nat \<Rightarrow> nat \<Rightarrow> nat" where
  "second_limit limit has_quotas emitted1 p1_passed =
     (if 0 < limit then limit - (if has_quotas then emitted1 else p1_passed) else 0)"

text \<open>The second pass over the recorded candidates, after the first sent \<open>emitted1\<close> rows and failed \<open>failed1\<close>.\<close>

definition engine_second ::
  "engine_world \<Rightarrow> room \<Rightarrow> run_spec \<Rightarrow> validator_args \<Rightarrow> type_requests \<Rightarrow> enforcer \<Rightarrow> proxy list \<Rightarrow> nat \<Rightarrow> nat \<Rightarrow> nat \<Rightarrow> run_out" where
  "engine_second w room spec va reqs e1 candidates emitted1 p1_passed failed1 =
     (let (note, room1) = send_one room (PassChanged 2);
          has_quotas = has_any_quota (find_enforcer reqs);
          acts = EnterPhase (ValidatingPass 2) # note
      in case ew_validate w (validator_config va (requested_protocols reqs) [] True) (build_probe_gate (find_enforcer reqs)) candidates of
           Inl e \<Rightarrow> \<lparr>ro_actions = acts, ro_room = room1, ro_result = Inl (''failed to start the fallback validator: '' @ e)\<rparr>
         | Inr v \<Rightarrow>
             (case find_loop (run_filter spec) (second_limit (oo_limit (sp_output spec)) has_quotas emitted1 p1_passed) room1 0 e1 (vl_items v) of
                (rows2, e2, room2) \<Rightarrow>
                  \<lparr>ro_actions = acts @ ShowProgress (vl_done v) (vl_passed v) # map (\<lambda>p. Send (NewProxy p)) rows2,
                   ro_room = room2,
                   ro_result = Inr \<lparr>sm_gathered = find_gathered w va, sm_valid = emitted1 + length rows2,
                     sm_failed = failed1 + (vl_done v - vl_passed v), sm_elapsed = ew_elapsed w\<rparr>\<rparr>))"

definition engine_find :: "engine_world \<Rightarrow> room \<Rightarrow> run_spec \<Rightarrow> run_out" where
  "engine_find w room spec =
     (case sp_validator spec of
        None \<Rightarrow> \<lparr>ro_actions = [], ro_room = room, ro_result = Inl ''find needs validator settings''\<rparr>
      | Some va \<Rightarrow>
          (let reqs = split_type_requests (va_types va);
               e0 = find_enforcer reqs;
               protocols = requested_protocols reqs;
               limit = oo_limit (sp_output spec)
           in case find_source w spec va of
                (acts0, Inl e) \<Rightarrow> \<lparr>ro_actions = acts0, ro_room = room, ro_result = Inl e\<rparr>
              | (acts0, Inr source) \<Rightarrow>
                  (case ew_validate w (validator_config va protocols (tr_groups reqs) False) (build_probe_gate e0)
                          (fst (tee_recorder protocols [] source)) of
                     Inl e \<Rightarrow> \<lparr>ro_actions = acts0, ro_room = room, ro_result = Inl (''failed to start the proxy validator: '' @ e)\<rparr>
                   | Inr v \<Rightarrow>
                       (let (note, room1) = send_one room (JudgeHealth (vl_healthy v) (vl_judges v));
                            (rows1, e1, room2) = find_loop (run_filter spec) limit room1 0 e0 (vl_items v);
                            acts1 = acts0 @ [ShowProgress (vl_done v) (vl_passed v), EnterPhase (ValidatingPass 1)] @ note @
                              map (\<lambda>p. Send (NewProxy p)) rows1;
                            candidates = snd (tee_recorder protocols [] (take (vl_pulled v) source));
                            failed1 = vl_done v - vl_passed v
                        in if needs_fallback (has_any_quota e0) e1 (tr_groups reqs \<noteq> []) (protocols \<noteq> []) limit (length rows1) (vl_passed v) \<and>
                             candidates \<noteq> []
                           then (let r = engine_second w room2 spec va reqs e1 candidates (length rows1) (vl_passed v) failed1
                                 in r\<lparr>ro_actions := acts1 @ ro_actions r\<rparr>)
                           else \<lparr>ro_actions = acts1, ro_room = room2,
                                  ro_result = Inr \<lparr>sm_gathered = find_gathered w va, sm_valid = length rows1, sm_failed = failed1,
                                    sm_elapsed = ew_elapsed w\<rparr>\<rparr>))))"

text \<open>The task of a run: the pipeline, then its end.\<close>

definition drive :: "engine_world \<Rightarrow> room \<Rightarrow> run_spec \<Rightarrow> run_action list" where
  "drive w room spec =
     (let r = (if sp_validator spec \<noteq> None then engine_find w room spec else engine_grab w room spec)
      in ro_actions r @
         (case ro_result r of
            Inr summary \<Rightarrow> EnterPhase PhaseFinished # fst (send_one (ro_room r) (RunFinished summary))
          | Inl e \<Rightarrow> ShowError e # EnterPhase PhaseFailed # fst (send_one (ro_room r) (RunError e))))"

text \<open>The task that relays the failures of the first pass, and all tasks together.\<close>

definition relay_failures :: "(ipv4 \<times> u16 \<times> protocol \<times> string) list \<Rightarrow> run_action list" where
  "relay_failures failures = map (\<lambda>(ip, port, protocol, reason). Send (ProbeFailure ip port protocol reason)) failures"

definition done_phase :: "run_spec \<Rightarrow> phase" where
  "done_phase spec = (if sp_validator spec \<noteq> None then CheckingJudges else Gathering)"

definition run_trace ::
  "engine_world \<Rightarrow> run_spec \<Rightarrow> fetch_stage list \<Rightarrow> (ipv4 \<times> u16 \<times> protocol \<times> string) list \<Rightarrow> run_action list \<Rightarrow> bool" where
  "run_trace w spec stages failures t \<longleftrightarrow>
     (\<exists>u \<in> shuffles (drive w None spec) (relay_stages (done_phase spec) stages). t \<in> shuffles u (relay_failures failures))"

definition show_action :: "ui_env \<Rightarrow> run_action \<Rightarrow> app \<Rightarrow> app" where
  "show_action env act a = (case act of Send ev \<Rightarrow> on_engine_event env ev a | _ \<Rightarrow> a)"

definition show_run :: "ui_env \<Rightarrow> run_action list \<Rightarrow> app \<Rightarrow> app" where
  "show_run env t a = foldl (\<lambda>a act. show_action env act a) a t"

fun row_of :: "run_action \<Rightarrow> proxy list" where
  "row_of (Send (NewProxy p)) = [p]"
| "row_of _ = []"

definition rows_sent :: "run_action list \<Rightarrow> proxy list" where
  "rows_sent t = concat (map row_of t)"

end
