(* ===== verification/Tui_Table.thy ===== *)
theory Tui_Table
  imports Tui_View
begin

text \<open>
  The cells of the results table (\<open>src/cli/tui/ui.rs\<close>, \<open>clamp_cells\<close> of \<open>view.rs\<close>): texts are cut to
  the width of their column, and the match of the filter is highlighted by byte ranges.
\<close>

section \<open>The model\<close>

definition ellipsis :: "bool \<Rightarrow> string" where
  "ellipsis ascii = (if ascii then ''~'' else [char_of (226 :: nat), char_of (128 :: nat), char_of (166 :: nat)])"

fun keep_chars :: "unicode \<Rightarrow> nat \<Rightarrow> nat \<Rightarrow> string list \<Rightarrow> string" where
  "keep_chars uc budget used [] = []"
| "keep_chars uc budget used (c # cs) =
     (if budget < used + uc_char_width uc c then [] else c @ keep_chars uc budget (used + uc_char_width uc c) cs)"

definition clamp_cells :: "unicode \<Rightarrow> bool \<Rightarrow> string \<Rightarrow> nat \<Rightarrow> string" where
  "clamp_cells uc ascii text width =
     (if uc_str_width uc text \<le> width then text
      else if width = 0 then []
      else keep_chars uc (width - uc_str_width uc (ellipsis ascii)) 0 (utf8_chars text) @ ellipsis ascii)"

text \<open>A line is its spans, each with the flag of the highlight.\<close>

definition highlighted :: "string \<Rightarrow> nat \<Rightarrow> nat \<Rightarrow> ((string \<times> bool) list, unit) outcome" where
  "highlighted text b e =
     and_then (str_slice text 0 b) (\<lambda>front.
     and_then (str_slice text b e) (\<lambda>mid.
     and_then (str_slice text e (length text)) (\<lambda>back.
     Ok [(front, False), (mid, True), (back, False)])))"

definition body_cell ::
  "unicode \<Rightarrow> bool \<Rightarrow> row_model \<Rightarrow> nat \<Rightarrow> nat \<Rightarrow> nat \<Rightarrow> hit option \<Rightarrow> ((string \<times> bool) list, unit) outcome" where
  "body_cell uc ascii row ordinal index width h =
     (case col_source (COLUMNS ! index) of
        Ordinal \<Rightarrow> Ok [(clamp_cells uc ascii (show_nat ordinal) width, False)]
      | Cell cell \<Rightarrow>
          (let text = clamp_cells uc ascii (rm_cells row ! cell) width
           in case h of
                None \<Rightarrow> Ok [(text, False)]
              | Some hit \<Rightarrow>
                  (if hit_column hit = cell \<and> hit_end hit \<le> length text then highlighted text (hit_begin hit) (hit_end hit)
                   else Ok [(text, False)])))"

section \<open>Boundaries\<close>

lemma is_char_boundary_append:
  assumes "i \<le> length s" and "s' = [] \<or> \<not> continues (hd s')"
  shows "is_char_boundary (s @ s') i \<longleftrightarrow> is_char_boundary s i"
  using assms by (cases s') (auto simp: is_char_boundary_def nth_append le_less)

lemma is_char_boundary_shift:
  assumes "s' = [] \<or> \<not> continues (hd s')" and "is_char_boundary s' i"
  shows "is_char_boundary (s @ s') (length s + i)"
  using assms by (cases s') (auto simp: is_char_boundary_def nth_append hd_conv_nth)

lemma tail_starts: "xs = dropWhile continues cs \<Longrightarrow> xs = [] \<or> \<not> continues (hd xs)"
  using hd_dropWhile by blast

text \<open>The sum of the lengths of the first characters is a boundary.\<close>

lemma prefix_boundary: "is_char_boundary s (length (concat (take k (utf8_chars s))))"
proof (induction s arbitrary: k rule: utf8_chars.induct)
  case 1
  then show ?case by (simp add: is_char_boundary_def)
next
  case (2 c cs)
  show ?case
  proof (cases k)
    case 0
    then show ?thesis by (simp add: is_char_boundary_def)
  next
    case (Suc n)
    have "is_char_boundary ((c # takeWhile continues cs) @ dropWhile continues cs)
        (length (c # takeWhile continues cs) + length (concat (take n (utf8_chars (dropWhile continues cs)))))"
      using 2 tail_starts [OF refl] by (rule is_char_boundary_shift [rotated])
    then show ?thesis by (simp add: Suc)
  qed
qed

lemma find_from_range:
  assumes "find_from uc rule needle index ts = Some (b, e)"
  shows "\<exists>i j. i \<le> j \<and> b = index + length (concat (take i ts)) \<and> e = index + length (concat (take j ts))"
  using assms
proof (induction ts arbitrary: index)
  case (Cons t ts)
  show ?case
  proof (cases "length needle \<le> length (t # ts) \<and> matches_here uc rule needle (t # ts)")
    case True
    with Cons.prems show ?thesis by (intro exI [of _ 0] exI [of _ "length needle"]) simp
  next
    case False
    with Cons.prems have "find_from uc rule needle (index + length t) ts = Some (b, e)"
      by (auto split: if_splits)
    from Cons.IH [OF this] obtain i j where "i \<le> j" "b = index + length t + length (concat (take i ts))"
      "e = index + length t + length (concat (take j ts))" by blast
    then show ?thesis by (intro exI [of _ "Suc i"] exI [of _ "Suc j"]) simp
  qed
qed simp

lemma take_concat_mono: "i \<le> j \<Longrightarrow> length (concat (take i ts)) \<le> length (concat (take j ts))"
  by (metis concat_append length_append le_add1 le_add_diff_inverse take_add)

lemma find_match_range:
  assumes "find_match uc text pat rule = Some (b, e)"
  shows "b \<le> e \<and> e \<le> length text \<and> is_char_boundary text b \<and> is_char_boundary text e"
proof -
  from assms have "find_from uc rule (utf8_chars pat) 0 (utf8_chars text) = Some (b, e)"
    by (simp add: find_match_def split: if_splits)
  from find_from_range [OF this] obtain i j where r: "i \<le> j" "b = length (concat (take i (utf8_chars text)))"
    "e = length (concat (take j (utf8_chars text)))" by auto
  then have "b \<le> e" by (simp only: take_concat_mono)
  moreover have "e \<le> length text"
    by (metis concat_append concat_utf8_chars append_take_drop_id length_append le_add1 r(3))
  ultimately show ?thesis using prefix_boundary r by simp
qed

lemma first_hit_range:
  assumes "first_hit uc rule pat n cells = Some h"
  shows "n \<le> hit_column h \<and> hit_column h < n + length cells \<and>
    find_match uc (cells ! (hit_column h - n)) pat rule = Some (hit_begin h, hit_end h)"
  using assms
proof (induction cells arbitrary: n)
  case (Cons c cells)
  show ?case
  proof (cases "find_match uc c pat rule")
    case None
    with Cons.prems have "first_hit uc rule pat (n + 1) cells = Some h" by simp
    from Cons.IH [OF this] show ?thesis by (auto simp: nth_Cons' Suc_diff_le)
  qed (use Cons.prems in auto)
qed simp

section \<open>When the highlight is safe\<close>

lemma keep_chars_prefix: "\<exists>k. keep_chars uc budget used cs = concat (take k cs)"
proof (induction cs arbitrary: used)
  case (Cons c cs)
  then obtain k where "keep_chars uc budget (used + uc_char_width uc c) cs = concat (take k cs)" by blast
  then show ?case
    by (cases "budget < used + uc_char_width uc c") (auto intro: exI [of _ 0] exI [of _ "Suc k"])
qed simp

lemma highlighted_ok:
  "highlighted text b e \<noteq> Panic \<longleftrightarrow> b \<le> e \<and> is_char_boundary text b \<and> is_char_boundary text e"
proof -
  have z: "is_char_boundary text 0" "is_char_boundary text (length text)" by (auto simp: is_char_boundary_def)
  have le: "is_char_boundary text i \<Longrightarrow> i \<le> length text" for i by (auto simp: is_char_boundary_def)
  show ?thesis using z le by (auto simp: highlighted_def str_slice_def)
qed

lemma boundary_of_prefix:
  assumes "is_char_boundary (s @ s') i" and "i \<le> length s"
  shows "is_char_boundary (s @ CHR ''~'' # []) i"
  using assms by (auto simp: is_char_boundary_def nth_append continues_def byte_def le_less split: if_splits)

lemma cut_boundary:
  assumes "clamp_cells uc True text width = short" and "is_char_boundary text i" and "i \<le> length short"
  shows "is_char_boundary short i"
proof (cases "uc_str_width uc text \<le> width \<or> width = 0")
  case True
  with assms show ?thesis by (cases "uc_str_width uc text \<le> width") (auto simp: clamp_cells_def is_char_boundary_def)
next
  case False
  obtain k where k: "keep_chars uc (width - uc_str_width uc ''~'') 0 (utf8_chars text) = concat (take k (utf8_chars text))"
    using keep_chars_prefix by blast
  let ?kept = "concat (take k (utf8_chars text))"
  have short: "short = ?kept @ ''~''" using False assms(1) k by (auto simp: clamp_cells_def ellipsis_def)
  have t: "text = ?kept @ concat (drop k (utf8_chars text))" by (simp flip: concat_append)
  show ?thesis
  proof (cases "i \<le> length ?kept")
    case True
    then show ?thesis using boundary_of_prefix [of ?kept "concat (drop k (utf8_chars text))" i] assms(2) t short by simp
  next
    case False
    then have "i = length short" using assms(3) short by simp
    then show ?thesis by (simp add: is_char_boundary_def)
  qed
qed

text \<open>A cell of the table is drawn without a slice out of place, whatever the row, the filter and
  the width, when the terminal is in ASCII mode or when the cell is not cut.\<close>

theorem highlight_safe:
  assumes "ascii \<or> (\<forall>cell \<in> set (rm_cells row). uc_str_width uc cell \<le> width)"
    and "length (rm_cells row) = CELL_COUNT" and "index < length COLUMNS"
  shows "body_cell uc ascii row ordinal index width (find_hit uc row pat) \<noteq> Panic"
proof (cases "col_source (COLUMNS ! index)")
  case (Cell cell)
  show ?thesis
  proof (cases "find_hit uc row pat")
    case (Some h)
    let ?text = "clamp_cells uc ascii (rm_cells row ! cell) width"
    show ?thesis
    proof (cases "hit_column h = cell \<and> hit_end h \<le> length ?text")
      case True
      from Some have f: "find_match uc (rm_cells row ! cell) pat (case_of uc pat) = Some (hit_begin h, hit_end h)"
        "cell < length (rm_cells row)"
        using first_hit_range [of uc "case_of uc pat" pat 0 "rm_cells row" h] True by (auto simp: find_hit_def)
      note r = find_match_range [OF f(1)]
      have "is_char_boundary ?text (hit_begin h) \<and> is_char_boundary ?text (hit_end h)"
      proof (cases ascii)
        case True
        with r \<open>hit_column h = cell \<and> hit_end h \<le> length ?text\<close> show ?thesis
          by (simp add: cut_boundary [OF refl])
      next
        case False
        with assms(1) f(2) have "?text = rm_cells row ! cell" by (simp add: clamp_cells_def)
        with r show ?thesis by simp
      qed
      with True Cell Some r highlighted_ok [of ?text "hit_begin h" "hit_end h"] show ?thesis by (simp add: body_cell_def Let_def)
    qed (auto simp: body_cell_def Let_def Cell Some)
  qed (simp add: body_cell_def Let_def Cell)
qed (simp add: body_cell_def)

definition demo_unicode :: unicode where
  "demo_unicode = \<lparr>uc_is_uppercase = (\<lambda>c. list_ex (\<lambda>b. 65 \<le> byte b \<and> byte b \<le> 90) c), uc_to_lowercase = lower,
     uc_char_width = (\<lambda>_. 1), uc_str_width = (\<lambda>s. length (utf8_chars s))\<rparr>"

definition demo_advertised :: proxy where
  "demo_advertised = (proxy_new (Ipv4 1 2 3 4) 80)\<lparr>expected_types := [Http Unknown, Https Unknown, Socks5]\<rparr>"

lemma length_cells [simp]: "length (rm_cells (row_model_new p)) = CELL_COUNT"
  by (simp add: row_model_new_def CELL_COUNT_def)

theorem highlight_safe_witness:
  "body_cell demo_unicode True (row_model_new demo_advertised) 1 2 14 (find_hit demo_unicode (row_model_new demo_advertised) ''soc'') \<noteq> Panic"
  using highlight_safe [of True "row_model_new demo_advertised" demo_unicode 14 2 1 "''soc''"]
  by (simp add: COLUMNS_def)

text \<open>In a terminal of 80 cells with its usual glyphs, typing the filter \<open>soc\<close> ends the program:
  the match in \<open>HTTP+HTTPS+SOCKS5\<close> ends inside the ellipsis of the cell cut to 14 cells.\<close>

theorem highlight_panics:
  "(2, 14) \<in> set (fit_columns 80 1) \<and> rm_cells (row_model_new demo_advertised) ! 1 = ''HTTP+HTTPS+SOCKS5'' \<and>
   body_cell demo_unicode False (row_model_new demo_advertised) 1 2 14
     (find_hit demo_unicode (row_model_new demo_advertised) ''soc'') = Panic"
proof (intro conjI)
  show "(2, 14) \<in> set (fit_columns 80 1)" by code_simp
  have c: "rm_cells (row_model_new demo_advertised) ! 0 = ''1.2.3.4:80''" "rm_cells (row_model_new demo_advertised) ! 1 = ''HTTP+HTTPS+SOCKS5''"
    by (simp_all add: row_model_new_def demo_advertised_def proxy_new_def protocol_label_def) code_simp
  then show "rm_cells (row_model_new demo_advertised) ! 1 = ''HTTP+HTTPS+SOCKS5''" by simp
  have "find_match demo_unicode ''1.2.3.4:80'' ''soc'' Insensitive = None"
    "find_match demo_unicode ''HTTP+HTTPS+SOCKS5'' ''soc'' Insensitive = Some (11, 14)" by code_simp+
  moreover have "case_of demo_unicode ''soc'' = Insensitive" by code_simp
  moreover obtain rest where "rm_cells (row_model_new demo_advertised) = ''1.2.3.4:80'' # ''HTTP+HTTPS+SOCKS5'' # rest"
    using c by (simp add: row_model_new_def)
  ultimately have h: "find_hit demo_unicode (row_model_new demo_advertised) ''soc'' = Some \<lparr>hit_column = 1, hit_begin = 11, hit_end = 14\<rparr>"
    by (simp add: find_hit_def)
  have "highlighted (clamp_cells demo_unicode False ''HTTP+HTTPS+SOCKS5'' 14) 11 14 = Panic"
    "14 \<le> length (clamp_cells demo_unicode False ''HTTP+HTTPS+SOCKS5'' 14)" by code_simp+
  moreover have "col_source (COLUMNS ! 2) = Cell 1" by (simp add: COLUMNS_def mk_column_def)
  ultimately show "body_cell demo_unicode False (row_model_new demo_advertised) 1 2 14
     (find_hit demo_unicode (row_model_new demo_advertised) ''soc'') = Panic"
    using c by (simp add: body_cell_def Let_def h)
qed

end
