(* ===== verification/Tui_Props.thy ===== *)
theory Tui_Props
  imports Tui_App Tui_Table Cli_Find
begin

text \<open>
  Well-formedness of the terminal interface: an invariant of every reachable state, and what follows
  for drawing the rows, for the keys in prompts and for the runs that were started.
\<close>

section \<open>The rows in view\<close>

lemma set_visible: "set (visible_rows uc rows v) = {i. i < length rows \<and> passes_filter uc v (rows ! i)}"
  by (auto simp: visible_rows_def Let_def split: option.split)

lemma distinct_visible: "distinct (visible_rows uc rows v)"
proof -
  have "mset (visible_rows uc rows v) = mset (filter (\<lambda>i. passes_filter uc v (rows ! i)) [0..<length rows])"
    by (simp add: visible_rows_def Let_def split: option.split)
  then show ?thesis by (metis distinct_filter distinct_upt mset_eq_imp_distinct_iff)
qed

lemma length_visible: "length (visible_rows uc rows v) = length (filter (passes_filter uc v) rows)"
proof -
  have "length (visible_rows uc rows v) = length (filter (\<lambda>i. passes_filter uc v (rows ! i)) [0..<length rows])"
    by (simp add: visible_rows_def Let_def split: option.split)
  also have "\<dots> = length (filter (passes_filter uc v) (map ((!) rows) [0..<length rows]))"
    by (simp add: filter_map comp_def)
  finally show ?thesis by (simp add: map_nth)
qed

lemma passes_cong: "vs_filter v = vs_filter v' \<Longrightarrow> passes_filter uc v = passes_filter uc v'"
  by (simp add: passes_filter_def fun_eq_iff)

lemma length_visible_cong: "vs_filter v = vs_filter v' \<Longrightarrow> length (visible_rows uc rows v) = length (visible_rows uc rows v')"
  by (simp add: length_visible passes_cong [of v v'])

section \<open>The invariant\<close>

definition data_ok :: "unicode \<Rightarrow> app \<Rightarrow> bool" where
  "data_ok uc a \<longleftrightarrow> ap_rows a = map row_model_new (ap_results a) \<and> length (ap_results a) \<le> MAX_RESULTS \<and>
     length (ap_failures a) \<le> MAX_FAILURE_LOG \<and> distinct (ap_visible a) \<and>
     (\<forall>i \<in> set (ap_visible a). i < length (ap_rows a)) \<and>
     length (ap_visible a) \<le> length (visible_rows uc (ap_rows a) (ap_view a))"

definition selection_ok :: "app \<Rightarrow> bool" where
  "selection_ok a \<longleftrightarrow> vs_selected (ap_view a) < max 1 (length (ap_visible a))"

definition prompt_ok :: "app \<Rightarrow> input_box \<Rightarrow> bool" where
  "prompt_ok a i \<longleftrightarrow>
     (case ib_purpose i of
        FilterInput \<Rightarrow> vs_filter (ap_view a) = ib_buffer i \<and>
          (ib_original i = vs_filter (ap_view a) \<or> vs_selected (ap_view a) = 0 \<and> \<not> ap_follow a)
      | ExportFormat \<Rightarrow> ib_options i = EXPORT_FORMATS \<and> ib_selected i < length EXPORT_FORMATS \<and>
          ib_buffer i = EXPORT_FORMATS ! ib_selected i
      | ExportPath \<Rightarrow> True)"

definition overlays_ok :: "app \<Rightarrow> bool" where
  "overlays_ok a \<longleftrightarrow> (ap_confirm a \<noteq> None \<longrightarrow> ap_input a = None \<and> \<not> ap_help a) \<and>
     (ap_input a \<noteq> None \<longrightarrow> \<not> ap_help a \<and> prompt_ok a (the (ap_input a)))"

definition runs_ok :: "app \<Rightarrow> bool" where
  "runs_ok a \<longleftrightarrow> ap_tx a \<and> (ap_screen a = Running \<longleftrightarrow> ap_run a \<noteq> None) \<and> (ap_finished_at a = None \<longleftrightarrow> ap_run a \<noteq> None) \<and>
     (\<forall>n. ap_run a = Some n \<longrightarrow> n < ap_next_run a) \<and>
     (\<forall>n < ap_next_run a. ap_run a = Some n \<or> Abort n \<in> set (ap_effects a))"

definition app_ok :: "unicode \<Rightarrow> app \<Rightarrow> bool" where
  "app_ok uc a \<longleftrightarrow> data_ok uc a \<and> selection_ok a \<and> overlays_ok a \<and> runs_ok a"

named_theorems app_defs

declare note_action_def [app_defs] select_row_def [app_defs] set_message_def [app_defs] perform_def [app_defs]
  reset_position_def [app_defs] cycle_sort_def [app_defs] toggle_order_def [app_defs] finish_run_def [app_defs]
  clamp_view_def [app_defs] clamp_selection_def [app_defs] update_follow_def [app_defs] push_count_def [app_defs]

section \<open>The data\<close>

lemma data_ok_refresh:
  assumes "data_ok uc a" and "ue_unicode env = uc"
  shows "data_ok uc (refresh_visible env (a\<lparr>ap_view := v\<rparr>))"
  using assms by (auto simp: data_ok_def refresh_visible_def set_visible distinct_visible)

lemma data_ok_fields:
  assumes "data_ok uc a" and "ap_results b = ap_results a" and "ap_rows b = ap_rows a" and "ap_failures b = ap_failures a"
    and "ap_visible b = ap_visible a" and "vs_filter (ap_view b) = vs_filter (ap_view a)"
  shows "data_ok uc b"
  using assms(1) unfolding data_ok_def assms(2-5) length_visible_cong [OF assms(6)] .

lemma data_ok_begin: "data_ok uc (begin_run env a)"
  by (simp add: data_ok_def begin_run_def spawn_run_def replace_run_def perform_def split: option.split)

lemma data_ok_event:
  assumes "data_ok uc a"
  shows "data_ok uc (on_engine_event env ev a)"
proof (cases ev)
  case (NewProxy p)
  show ?thesis
  proof (cases "length (ap_results a) < MAX_RESULTS")
    case True
    with assms show ?thesis by (auto simp: NewProxy on_engine_event_def data_ok_def length_visible less_Suc_eq)
  qed (use assms in \<open>auto simp: NewProxy on_engine_event_def intro: data_ok_fields\<close>)
next
  case (ProbeFailure ip port protocol reason)
  with assms show ?thesis by (auto simp: on_engine_event_def data_ok_def MAX_FAILURE_LOG_def)
qed (use assms in \<open>auto simp: on_engine_event_def data_ok_def end_run_def replace_run_def app_defs split: option.split sum.split\<close>)

section \<open>Steps that leave the parts of the invariant alone\<close>

definition same_parts :: "app \<Rightarrow> app \<Rightarrow> bool" where
  "same_parts a b \<longleftrightarrow> ap_results b = ap_results a \<and> ap_rows b = ap_rows a \<and> ap_failures b = ap_failures a \<and>
     ap_visible b = ap_visible a \<and> ap_view b = ap_view a \<and> ap_confirm b = ap_confirm a \<and> ap_input b = ap_input a \<and>
     ap_help b = ap_help a \<and> ap_follow b = ap_follow a \<and> ap_tx b = ap_tx a \<and> ap_screen b = ap_screen a \<and>
     ap_run b = ap_run a \<and> ap_finished_at b = ap_finished_at a \<and> ap_next_run b = ap_next_run a \<and>
     set (ap_effects a) \<subseteq> set (ap_effects b)"

lemma runs_ok_fields:
  assumes "runs_ok a" and "ap_tx b = ap_tx a" and "ap_screen b = ap_screen a" and "ap_run b = ap_run a"
    and "ap_finished_at b = ap_finished_at a" and "ap_next_run b = ap_next_run a" and "set (ap_effects a) \<subseteq> set (ap_effects b)"
  shows "runs_ok b"
  using assms(1,7) unfolding runs_ok_def assms(2-6) by blast

lemma prompt_ok_fields:
  "prompt_ok a i \<Longrightarrow> vs_filter (ap_view b) = vs_filter (ap_view a) \<Longrightarrow> vs_selected (ap_view b) = vs_selected (ap_view a) \<Longrightarrow>
   ap_follow b = ap_follow a \<Longrightarrow> prompt_ok b i"
  by (auto simp: prompt_ok_def split: input_purpose.splits)

lemma overlays_ok_fields:
  assumes "overlays_ok a" and "ap_confirm b = ap_confirm a" and "ap_input b = ap_input a" and "ap_help b = ap_help a"
    and "vs_filter (ap_view b) = vs_filter (ap_view a)" and "vs_selected (ap_view b) = vs_selected (ap_view a)"
    and "ap_follow b = ap_follow a"
  shows "overlays_ok b"
  using assms(1) prompt_ok_fields [OF _ assms(5-7)] unfolding overlays_ok_def assms(2-4) by blast

lemma app_ok_same: "app_ok uc a \<Longrightarrow> same_parts a b \<Longrightarrow> app_ok uc b"
  unfolding app_ok_def same_parts_def
  using data_ok_fields [of uc a b] runs_ok_fields [of a b] overlays_ok_fields [of a b] by (simp add: selection_ok_def)

lemma runs_ok_cancel: "runs_ok a \<Longrightarrow> runs_ok (cancel_run env a)"
  by (auto simp: runs_ok_def cancel_run_def replace_run_def app_defs split: option.split)

lemma runs_ok_end: "runs_ok a \<Longrightarrow> runs_ok (end_run env a)"
  by (auto simp: runs_ok_def end_run_def replace_run_def app_defs split: option.split)

lemma runs_ok_begin: "runs_ok a \<Longrightarrow> runs_ok (begin_run env a)"
  by (auto simp: runs_ok_def begin_run_def spawn_run_def replace_run_def app_defs less_Suc_eq split: option.split)

lemma runs_ok_start: "runs_ok (begin_app env (app_new spec))"
  by (simp add: runs_ok_def begin_app_def app_new_def begin_run_def spawn_run_def replace_run_def app_defs)

lemma begin_fields [simp]:
  "ap_input (begin_run env a) = ap_input a" "ap_help (begin_run env a) = ap_help a" "ap_confirm (begin_run env a) = None"
  "ap_visible (begin_run env a) = []" "ap_view (begin_run env a) = reset_position (ap_view a)"
  by (simp_all add: begin_run_def spawn_run_def replace_run_def perform_def split: option.split)

lemma cancel_fields [simp]:
  "ap_input (cancel_run env a) = ap_input a" "ap_help (cancel_run env a) = ap_help a" "ap_confirm (cancel_run env a) = ap_confirm a"
  "ap_visible (cancel_run env a) = ap_visible a" "ap_view (cancel_run env a) = ap_view a" "ap_follow (cancel_run env a) = ap_follow a"
  "ap_results (cancel_run env a) = ap_results a" "ap_rows (cancel_run env a) = ap_rows a" "ap_failures (cancel_run env a) = ap_failures a"
  by (simp_all add: cancel_run_def replace_run_def app_defs split: option.split)

lemma end_fields [simp]:
  "ap_input (end_run env a) = ap_input a" "ap_help (end_run env a) = ap_help a" "ap_confirm (end_run env a) = ap_confirm a"
  "ap_visible (end_run env a) = ap_visible a" "ap_view (end_run env a) = ap_view a" "ap_follow (end_run env a) = ap_follow a"
  "ap_results (end_run env a) = ap_results a" "ap_rows (end_run env a) = ap_rows a" "ap_failures (end_run env a) = ap_failures a"
  by (simp_all add: end_run_def replace_run_def app_defs split: option.split)

lemma app_ok_cancel:
  assumes "app_ok uc a"
  shows "app_ok uc (cancel_run env a)"
  using assms data_ok_fields [of uc a "cancel_run env a"] overlays_ok_fields [of a "cancel_run env a"] runs_ok_cancel [of a env]
  by (simp add: app_ok_def selection_ok_def)

lemma app_ok_end:
  assumes "app_ok uc a"
  shows "app_ok uc (end_run env a)"
  using assms data_ok_fields [of uc a "end_run env a"] overlays_ok_fields [of a "end_run env a"] runs_ok_end [of a env]
  by (simp add: app_ok_def selection_ok_def)

lemma reset_selected [simp]: "vs_selected (reset_position v) = 0" "vs_filter (reset_position v) = vs_filter v"
  by (simp_all add: reset_position_def)

lemma app_ok_start: "app_ok uc (begin_app env (app_new spec))"
  using runs_ok_start [of env spec]
  by (simp add: app_ok_def selection_ok_def overlays_ok_def begin_app_def data_ok_begin app_new_def)

lemma app_ok_begin:
  assumes "app_ok uc a" and "ap_input a = None"
  shows "app_ok uc (begin_run env a)"
  using assms runs_ok_begin [of a env] by (simp add: app_ok_def selection_ok_def overlays_ok_def data_ok_begin)

section \<open>Steps of the prompts\<close>

lemma refresh_fields [simp]:
  "ap_input (refresh_visible env a) = ap_input a" "ap_help (refresh_visible env a) = ap_help a"
  "ap_confirm (refresh_visible env a) = ap_confirm a" "ap_view (refresh_visible env a) = ap_view a"
  "ap_follow (refresh_visible env a) = ap_follow a" "runs_ok (refresh_visible env a) = runs_ok a"
  "ap_rows (refresh_visible env a) = ap_rows a"
  by (simp_all add: refresh_visible_def runs_ok_def)

text \<open>Rows are only added to a view, so computing it again never drops the cursor's row.\<close>

lemma refresh_length:
  assumes "data_ok uc a" and "ue_unicode env = uc" and "ap_rows b = ap_rows a" and "vs_filter (ap_view b) = vs_filter (ap_view a)"
  shows "length (ap_visible a) \<le> length (ap_visible (refresh_visible env b))"
proof -
  have "ap_visible (refresh_visible env b) = visible_rows uc (ap_rows a) (ap_view b)"
    using assms(2,3) by (simp add: refresh_visible_def)
  with assms(1) length_visible_cong [OF assms(4), of uc "ap_rows a"] show ?thesis
    unfolding data_ok_def by metis
qed

lemma app_ok_input:
  assumes "app_ok uc a" and "ap_confirm a = None" and "\<not> ap_help a" and "\<And>j. i = Some j \<Longrightarrow> prompt_ok a j"
  shows "app_ok uc (a\<lparr>ap_input := i\<rparr>)"
proof -
  let ?b = "a\<lparr>ap_input := i\<rparr>"
  have "data_ok uc ?b" using assms(1) by (auto simp: app_ok_def intro: data_ok_fields)
  moreover have "runs_ok ?b" using assms(1) by (auto simp: app_ok_def intro: runs_ok_fields)
  moreover have "overlays_ok ?b"
    using assms(2-4) prompt_ok_fields [of a _ ?b] by (auto simp: overlays_ok_def)
  ultimately show ?thesis using assms(1) by (simp add: app_ok_def selection_ok_def)
qed

text \<open>A new filter text starts at the first row and stops following.\<close>

lemma app_ok_filter:
  assumes "app_ok uc a" and "ue_unicode env = uc" and "\<not> ap_help a" and "ap_confirm a = None"
    and "ap_results b = ap_results a" "ap_rows b = ap_rows a" "ap_failures b = ap_failures a" "runs_ok b"
    and "ap_help b = ap_help a" "ap_confirm b = ap_confirm a" "vs_selected (ap_view b) = 0" "\<not> ap_follow b"
    and "\<And>j. ap_input b = Some j \<Longrightarrow> ib_purpose j = FilterInput \<and> vs_filter (ap_view b) = ib_buffer j"
  shows "app_ok uc (refresh_visible env b)"
proof -
  have "data_ok uc (refresh_visible env b)"
    using assms(1,2,5-7) by (auto simp: app_ok_def data_ok_def refresh_visible_def set_visible distinct_visible)
  moreover have "prompt_ok (refresh_visible env b) j" if "ap_input b = Some j" for j
    using assms(11-13) that by (simp add: prompt_ok_def)
  then have "overlays_ok (refresh_visible env b)" using assms(3,4,9,10) by (auto simp: overlays_ok_def)
  ultimately show ?thesis using assms(8,11) by (simp add: app_ok_def selection_ok_def)
qed

lemma refresh_filter_ok:
  assumes "app_ok uc a" and "ue_unicode env = uc" and "ap_input a = Some i" and "ib_purpose i \<noteq> ExportFormat"
  shows "app_ok uc (refresh_filter_input env (edit_input f a))"
proof -
  from assms(1,3) have ok: "\<not> ap_help a" "ap_confirm a = None" "runs_ok a" by (auto simp: app_ok_def overlays_ok_def)
  let ?e = "edit_input f a"
  show ?thesis
  proof (cases "ib_purpose i = FilterInput")
    case True
    let ?b = "?e\<lparr>ap_view := reset_position ((ap_view ?e)\<lparr>vs_filter := f (ib_buffer i)\<rparr>), ap_follow := False\<rparr>"
    have "refresh_filter_input env ?e = refresh_visible env ?b"
      using True assms(3) by (simp add: refresh_filter_input_def edit_input_def)
    moreover have "runs_ok ?b" by (rule runs_ok_fields [OF ok(3)]) (simp_all add: edit_input_def)
    ultimately show ?thesis
      using app_ok_filter [OF assms(1,2) ok(1,2), of ?b] assms(3) True by (simp add: edit_input_def)
  next
    case False
    with assms(4) have "ib_purpose i = ExportPath" by (cases "ib_purpose i") simp_all
    then show ?thesis
      using app_ok_input [OF assms(1) ok(2,1), of "Some (i\<lparr>ib_buffer := f (ib_buffer i)\<rparr>)"] assms(3)
      by (simp add: refresh_filter_input_def edit_input_def prompt_ok_def)
  qed
qed

lemma cancel_input_ok:
  assumes "app_ok uc a" and "ue_unicode env = uc" and "ap_input a = Some i"
  shows "app_ok uc (cancel_input env a)"
proof -
  from assms(1,3) have ok: "\<not> ap_help a" "ap_confirm a = None" "runs_ok a" "prompt_ok a i" "data_ok uc a" "selection_ok a"
    by (auto simp: app_ok_def overlays_ok_def)
  show ?thesis
  proof (cases "ib_purpose i = FilterInput")
    case True
    let ?b = "a\<lparr>ap_input := None, ap_view := (ap_view a)\<lparr>vs_filter := ib_original i\<rparr>\<rparr>"
    have c: "cancel_input env a = refresh_visible env ?b" using True assms(3) by (simp add: cancel_input_def)
    have "data_ok uc (refresh_visible env ?b)"
      using ok(5) assms(2) by (auto simp: data_ok_def refresh_visible_def set_visible distinct_visible)
    moreover have "runs_ok ?b" by (rule runs_ok_fields [OF ok(3)]) simp_all
    moreover have "vs_selected (ap_view a) < max 1 (length (ap_visible (refresh_visible env ?b)))"
    proof (cases "vs_selected (ap_view a) = 0")
      case False
      with ok(4) True have "ib_original i = vs_filter (ap_view a)" by (simp add: prompt_ok_def)
      then have "length (ap_visible a) \<le> length (ap_visible (refresh_visible env ?b))"
        by (intro refresh_length [OF ok(5) assms(2)]) simp_all
      with ok(6) show ?thesis by (simp add: selection_ok_def)
    qed simp
    ultimately show ?thesis using ok(1,2) by (simp add: c app_ok_def selection_ok_def overlays_ok_def)
  next
    case False
    with assms(3) app_ok_input [OF assms(1) ok(2,1), of None] show ?thesis by (simp add: cancel_input_def)
  qed
qed

lemma format_prompt_ok: "prompt_ok a i \<Longrightarrow> ib_purpose i = ExportFormat \<Longrightarrow>
    ib_options i = EXPORT_FORMATS \<and> ib_selected i < length EXPORT_FORMATS \<and> ib_buffer i = EXPORT_FORMATS ! ib_selected i"
  by (simp add: prompt_ok_def)

lemma pick_format_ok:
  assumes "app_ok uc a" and "ap_input a = Some i" and "ib_purpose i = ExportFormat" and "n < length EXPORT_FORMATS"
  shows "app_ok uc (a\<lparr>ap_input := Some (pick_format n i)\<rparr>)"
proof -
  from assms(1,2) have "\<not> ap_help a" "ap_confirm a = None" "prompt_ok a i" by (auto simp: app_ok_def overlays_ok_def)
  with assms format_prompt_ok [of a i] show ?thesis
    by (intro app_ok_input) (auto simp: prompt_ok_def pick_format_def)
qed

lemma shift_format_ok:
  assumes "app_ok uc a" and "ap_input a = Some i" and "ib_purpose i = ExportFormat"
  shows "app_ok uc (shift_export_format d a)"
proof -
  from assms(1,2) have "prompt_ok a i" by (auto simp: app_ok_def overlays_ok_def)
  then have o: "ib_options i = EXPORT_FORMATS" using assms(3) format_prompt_ok by blast
  have "nat ((int (ib_selected i) + d) mod int (length EXPORT_FORMATS)) < length EXPORT_FORMATS"
    by (simp add: EXPORT_FORMATS_def nat_less_iff)
  from pick_format_ok [OF assms this] show ?thesis
    using assms(2) o by (simp add: shift_export_format_def EXPORT_FORMATS_def)
qed

lemma select_format_ok:
  assumes "app_ok uc a" and "ap_input a = Some i" and "ib_purpose i = ExportFormat" and "n < length EXPORT_FORMATS"
  shows "app_ok uc (select_export_format n a)"
  using pick_format_ok [OF assms] assms(1,2) by (simp add: select_export_format_def)

lemma app_ok_spawn: "app_ok uc a \<Longrightarrow> app_ok uc (spawn_export env p a)"
  by (rule app_ok_same) (auto simp: spawn_export_def Let_def same_parts_def app_defs)

lemma app_ok_message: "app_ok uc a \<Longrightarrow> app_ok uc (set_message env t k a)"
  by (rule app_ok_same) (auto simp: same_parts_def app_defs)

lemma app_ok_confirm:
  assumes "app_ok uc a" and "c \<noteq> None \<Longrightarrow> ap_input a = None \<and> \<not> ap_help a"
  shows "app_ok uc (a\<lparr>ap_confirm := c\<rparr>)"
proof -
  have "data_ok uc (a\<lparr>ap_confirm := c\<rparr>)" using assms(1) by (auto simp: app_ok_def intro: data_ok_fields)
  moreover have "runs_ok (a\<lparr>ap_confirm := c\<rparr>)" using assms(1) by (auto simp: app_ok_def intro: runs_ok_fields)
  moreover have "overlays_ok (a\<lparr>ap_confirm := c\<rparr>)"
    using assms prompt_ok_fields [of a _ "a\<lparr>ap_confirm := c\<rparr>"] by (auto simp: app_ok_def overlays_ok_def)
  ultimately show ?thesis using assms(1) by (simp add: app_ok_def selection_ok_def)
qed

lemma request_export_ok:
  assumes "app_ok uc a" and "ap_input a = None" and "\<not> ap_help a"
  shows "app_ok uc (request_export env p a)"
  using assms by (auto simp: request_export_def intro: app_ok_spawn app_ok_message app_ok_confirm)

lemma submit_ok:
  assumes "app_ok uc a" and "ue_unicode env = uc" and "ap_input a = Some i"
  shows "app_ok uc (submit_input env a)"
proof -
  from assms(1,3) have ok: "\<not> ap_help a" "ap_confirm a = None" "runs_ok a" by (auto simp: app_ok_def overlays_ok_def)
  note input = app_ok_input [OF assms(1) ok(2,1)]
  show ?thesis
  proof (cases "ib_purpose i")
    case FilterInput
    let ?b = "a\<lparr>ap_input := None, ap_view := reset_position ((ap_view a)\<lparr>vs_filter := trim (ib_buffer i)\<rparr>), ap_follow := False\<rparr>"
    have "runs_ok ?b" by (rule runs_ok_fields [OF ok(3)]) simp_all
    then show ?thesis
      using app_ok_filter [OF assms(1,2) ok(1,2), of ?b] assms(3) FilterInput by (simp add: submit_input_def)
  next
    case ExportFormat
    define path where "path = ap_input (submit_input env a)"
    have "same_parts (a\<lparr>ap_input := path\<rparr>) (submit_input env a)"
      using assms(3) ExportFormat by (simp add: submit_input_def Let_def same_parts_def path_def)
    moreover have "app_ok uc (a\<lparr>ap_input := path\<rparr>)"
      using assms(3) ExportFormat by (intro input) (auto simp: path_def submit_input_def Let_def prompt_ok_def)
    ultimately show ?thesis by (rule app_ok_same [rotated])
  next
    case ExportPath
    with assms(3) ok input [of None] show ?thesis by (simp add: submit_input_def request_export_ok)
  qed
qed

lemma handle_typing_ok:
  assumes "app_ok uc a" and "ue_unicode env = uc" and "ap_input a \<noteq> None"
  shows "app_ok uc (handle_typing env act a)"
proof -
  from assms(3) obtain i where i: "ap_input a = Some i" by blast
  from assms(1) i have ok: "\<not> ap_help a" "ap_confirm a = None" by (auto simp: app_ok_def overlays_ok_def)
  show ?thesis
  proof (cases "ib_purpose i = ExportFormat")
    case True
    with i assms(1) shift_format_ok [OF assms(1) i True] select_format_ok [OF assms(1) i True]
      submit_ok [OF assms(1,2) i] app_ok_input [OF assms(1) ok(2,1), of None] show ?thesis
      by (simp add: handle_typing_def split: action.split option.split)
  next
    case False
    with i assms(1) refresh_filter_ok [OF assms(1,2) i False] submit_ok [OF assms(1,2) i] cancel_input_ok [OF assms(1,2) i]
    show ?thesis by (simp add: handle_typing_def split: action.split)
  qed
qed

section \<open>Steps of the overlays and of the table\<close>

lemma interrupt_ok:
  assumes "app_ok uc a" and "ap_input a = None"
  shows "app_ok uc (interrupt env a)"
proof -
  have "a\<lparr>ap_input := None\<rparr> = a" using assms(2) by simp
  then have "interrupt env a = cancel_run env a \<or> interrupt env a = a\<lparr>ap_should_quit := True\<rparr>"
    by (simp add: interrupt_def)
  moreover have "app_ok uc (a\<lparr>ap_should_quit := True\<rparr>)"
    by (rule app_ok_same [OF assms(1)]) (simp add: same_parts_def)
  ultimately show ?thesis using app_ok_cancel [OF assms(1)] by auto
qed

lemma handle_confirm_ok:
  assumes "app_ok uc a" and "ap_confirm a \<noteq> None"
  shows "app_ok uc (handle_confirm env act a)"
proof -
  have c: "app_ok uc (a\<lparr>ap_confirm := None\<rparr>)" by (rule app_ok_confirm [OF assms(1)]) simp
  have "ap_input (a\<lparr>ap_confirm := None\<rparr>) = None" using assms by (simp add: app_ok_def overlays_ok_def)
  with c assms(1) show ?thesis
    by (simp add: handle_confirm_def app_ok_cancel app_ok_spawn interrupt_ok split: action.split option.split confirm_kind.split)
qed

lemma app_ok_help:
  assumes "app_ok uc a"
  shows "app_ok uc (a\<lparr>ap_help := False\<rparr>)"
proof -
  have "data_ok uc (a\<lparr>ap_help := False\<rparr>)" using assms by (auto simp: app_ok_def intro: data_ok_fields)
  moreover have "runs_ok (a\<lparr>ap_help := False\<rparr>)" using assms by (auto simp: app_ok_def intro: runs_ok_fields)
  moreover have "overlays_ok (a\<lparr>ap_help := False\<rparr>)"
    using assms prompt_ok_fields [of a _ "a\<lparr>ap_help := False\<rparr>"] by (auto simp: app_ok_def overlays_ok_def)
  ultimately show ?thesis using assms by (simp add: app_ok_def selection_ok_def)
qed

lemma scroll_same: "same_parts a (a\<lparr>ap_help_scroll := n\<rparr>)" "same_parts a (a\<lparr>ap_detail_scroll := n\<rparr>)"
  by (simp_all add: same_parts_def)

lemma handle_help_ok: "app_ok uc a \<Longrightarrow> app_ok uc (handle_help act a)"
  using app_ok_help [of uc a] app_ok_same [OF _ scroll_same(1), of uc a] by (simp add: handle_help_def split: action.split)

lemma handle_detail_scroll_ok: "app_ok uc a \<Longrightarrow> handle_detail_scroll act a = Some b \<Longrightarrow> app_ok uc b"
  using app_ok_same [OF _ scroll_same(2), of uc a] by (auto simp: handle_detail_scroll_def split: action.splits)

text \<open>The clamp that closes every intent of the table.\<close>

lemma clamp_ok:
  assumes "data_ok uc b" and "runs_ok b" and "rows \<le> length (ap_visible b) \<or> vs_selected (ap_view b) = 0"
    and "ap_confirm b \<noteq> None \<Longrightarrow> ap_input b = None \<and> \<not> ap_help b" and "ap_input b \<noteq> None \<Longrightarrow> \<not> ap_help b"
    and "\<And>c j. ap_input b = Some j \<Longrightarrow> vs_filter (ap_view c) = vs_filter (ap_view b) \<Longrightarrow> prompt_ok c j"
  shows "app_ok uc (update_follow n act (clamp_view rows b))"
proof -
  let ?c = "update_follow n act (clamp_view rows b)"
  have f: "vs_filter (ap_view ?c) = vs_filter (ap_view b)" by (simp add: app_defs)
  have "data_ok uc ?c" using f by (intro data_ok_fields [OF assms(1)]) (simp_all add: app_defs)
  moreover have "runs_ok ?c" by (rule runs_ok_fields [OF assms(2)]) (simp_all add: app_defs)
  moreover have i: "ap_input ?c = ap_input b" "ap_confirm ?c = ap_confirm b" "ap_help ?c = ap_help b" "ap_visible ?c = ap_visible b"
    by (simp_all add: app_defs)
  have "overlays_ok ?c" using assms(4,5) assms(6) [OF _ f] by (auto simp: overlays_ok_def i)
  moreover have "selection_ok ?c"
    using assms(3) by (auto simp: selection_ok_def app_defs)
  ultimately show ?thesis by (simp add: app_ok_def)
qed

lemma perform_fields [simp]:
  "ap_results (perform fx a) = ap_results a" "ap_rows (perform fx a) = ap_rows a" "ap_failures (perform fx a) = ap_failures a"
  "ap_visible (perform fx a) = ap_visible a" "ap_view (perform fx a) = ap_view a" "ap_input (perform fx a) = ap_input a"
  "ap_confirm (perform fx a) = ap_confirm a" "ap_help (perform fx a) = ap_help a"
  by (simp_all add: perform_def)

lemma interrupt_fields [simp]:
  "ap_results (interrupt env a) = ap_results a" "ap_rows (interrupt env a) = ap_rows a" "ap_failures (interrupt env a) = ap_failures a"
  "ap_visible (interrupt env a) = ap_visible a" "ap_view (interrupt env a) = ap_view a"
  "ap_confirm (interrupt env a) = ap_confirm a" "ap_help (interrupt env a) = ap_help a"
  "ap_input a = None \<Longrightarrow> ap_input (interrupt env a) = None"
  by (simp_all add: interrupt_def)

lemma sort_keys_filter [simp]: "vs_filter (cycle_sort v) = vs_filter v" "vs_filter (toggle_order v) = vs_filter v"
  by (simp_all add: cycle_sort_def toggle_order_def)

lemma data_ok_view:
  assumes "data_ok uc a" and "ue_unicode env = uc" and "ap_results b = ap_results a" and "ap_rows b = ap_rows a"
    and "ap_failures b = ap_failures a"
  shows "data_ok uc (refresh_visible env b)"
  using assms by (auto simp: data_ok_def refresh_visible_def set_visible distinct_visible)

lemma browse_data:
  assumes "data_ok uc a" and "ue_unicode env = uc"
  shows "data_ok uc (browse env rows act a)"
proof -
  note same = data_ok_fields [OF assms(1)]
  note fresh = data_ok_view [OF assms]
  show ?thesis
    by (cases act) (simp_all add: browse_def data_ok_begin fresh same open_filter_def open_export_def push_count_def goto_count_def
        select_row_def Let_def assms(1) split: option.split)
qed

lemma interrupt_runs: "runs_ok a \<Longrightarrow> runs_ok (interrupt env a)"
proof -
  assume a: "runs_ok a"
  have "runs_ok (a\<lparr>ap_input := None\<rparr>)" "runs_ok (a\<lparr>ap_should_quit := True\<rparr>)"
    by (rule runs_ok_fields [OF a]; simp)+
  then show ?thesis by (simp add: interrupt_def runs_ok_cancel)
qed

lemma browse_runs:
  assumes "runs_ok a"
  shows "runs_ok (browse env rows act a)"
proof -
  note same = runs_ok_fields [OF assms]
  have p: "runs_ok (perform fx a)" for fx by (rule same) (auto simp: perform_def)
  show ?thesis
    by (cases act) (simp_all add: browse_def runs_ok_begin interrupt_runs same open_filter_def open_export_def push_count_def
        goto_count_def select_row_def p Let_def assms split: option.split)
qed

lemma browse_visible:
  assumes "data_ok uc a" and "ue_unicode env = uc"
  shows "length (ap_visible a) \<le> length (ap_visible (browse env rows act a)) \<or> vs_selected (ap_view (browse env rows act a)) = 0"
proof -
  note more_rows = refresh_length [OF assms]
  show ?thesis
    by (cases act) (simp_all add: browse_def more_rows open_filter_def open_export_def push_count_def
        goto_count_def select_row_def Let_def split: option.split)
qed

lemma browse_overlays:
  assumes "ap_confirm a = None" and "\<not> ap_help a" and "ap_input a = None"
  shows "ap_confirm (browse env rows act a) \<noteq> None \<Longrightarrow> ap_input (browse env rows act a) = None \<and> \<not> ap_help (browse env rows act a)"
    and "ap_input (browse env rows act a) \<noteq> None \<Longrightarrow> \<not> ap_help (browse env rows act a)"
    and "ap_input (browse env rows act a) = Some j \<Longrightarrow> act = EditFilter \<or> act = Export"
  using assms by (cases act; simp add: browse_def open_filter_def open_export_def push_count_def
        goto_count_def select_row_def Let_def split: option.splits if_splits)+

lemma formats_nonempty: "0 < length EXPORT_FORMATS"
  by (simp add: EXPORT_FORMATS_def)

lemma browse_prompt:
  assumes "ap_input a = None" and "ap_confirm a = None" and "\<not> ap_help a" and "ap_input (browse env rows act a) = Some j"
    and "vs_filter (ap_view c) = vs_filter (ap_view (browse env rows act a))"
  shows "prompt_ok c j"
proof -
  consider "act = EditFilter" | "act = Export" using browse_overlays(3) [OF assms(2,3,1,4)] by blast
  then show ?thesis
  proof cases
    case 1
    with assms(4,5) show ?thesis by (auto simp: browse_def open_filter_def prompt_ok_def)
  next
    case 2
    let ?s = "case position ((=) (oo_format (sp_output (ap_spec a)))) EXPORT_FORMATS of Some i \<Rightarrow> i | None \<Rightarrow> 0"
    have "?s < length EXPORT_FORMATS"
      using formats_nonempty by (auto dest: position_eq_Some [THEN iffD1] split: option.split)
    moreover have "j = \<lparr>ib_purpose = ExportFormat, ib_buffer = EXPORT_FORMATS ! ?s, ib_original = [],
        ib_options = EXPORT_FORMATS, ib_selected = ?s\<rparr>"
      using 2 assms(4) by (simp add: browse_def open_export_def Let_def)
    ultimately show ?thesis by (simp add: prompt_ok_def)
  qed
qed

lemma handle_browse_ok:
  assumes "app_ok uc a" and "ue_unicode env = uc" and "ap_confirm a = None" and "\<not> ap_help a" and "ap_input a = None"
  shows "app_ok uc (handle_browse env act a)"
proof -
  from assms(1) have d: "data_ok uc a" "runs_ok a" by (simp_all add: app_ok_def)
  show ?thesis unfolding handle_browse_def Let_def
    by (rule clamp_ok [OF browse_data [OF d(1) assms(2)] browse_runs [OF d(2)] browse_visible [OF d(1) assms(2)]
        browse_overlays(1,2) [OF assms(3-5)] browse_prompt [OF assms(5,3,4)]])
qed

lemma note_action_ok: "app_ok uc a \<Longrightarrow> app_ok uc (note_action act a)"
  by (erule app_ok_same) (simp_all add: same_parts_def note_action_def)

lemma handle_action_ok:
  assumes "app_ok uc a" and "ue_unicode env = uc"
  shows "app_ok uc (handle_action env act a)"
proof -
  have n: "app_ok uc (note_action act a)" by (rule note_action_ok [OF assms(1)])
  show ?thesis
    using handle_confirm_ok [OF n] handle_help_ok [OF n] handle_typing_ok [OF n assms(2)] handle_detail_scroll_ok [OF n]
      handle_browse_ok [OF n assms(2)]
    by (simp add: handle_action_def Let_def split: option.split)
qed

section \<open>The invariant holds\<close>

lemma on_engine_event_ok:
  assumes "app_ok uc a"
  shows "app_ok uc (on_engine_event env ev a)"
proof -
  have s: "app_ok uc (a\<lparr>ap_summary := x\<rparr>)" for x by (rule app_ok_same [OF assms]) (simp add: same_parts_def)
  have d: "data_ok uc (on_engine_event env ev a)" using assms by (simp add: app_ok_def data_ok_event)
  show ?thesis
  proof (cases "(\<exists>x. ev = RunFinished x) \<or> (\<exists>x. ev = RunError x)")
    case True
    then show ?thesis using s app_ok_message [OF assms] by (auto simp: on_engine_event_def app_ok_end)
  next
    case False
    let ?b = "on_engine_event env ev a"
    from False have f: "ap_confirm ?b = ap_confirm a" "ap_input ?b = ap_input a" "ap_help ?b = ap_help a" "ap_view ?b = ap_view a"
      "ap_follow ?b = ap_follow a" "ap_visible ?b = ap_visible a" "ap_tx ?b = ap_tx a" "ap_screen ?b = ap_screen a"
      "ap_run ?b = ap_run a" "ap_finished_at ?b = ap_finished_at a" "ap_next_run ?b = ap_next_run a"
      "set (ap_effects a) \<subseteq> set (ap_effects ?b)"
      by (auto simp: on_engine_event_def app_defs split: engine_event.splits sum.splits)
    have "runs_ok ?b" using assms f by (intro runs_ok_fields [of a ?b]) (simp_all add: app_ok_def)
    moreover have "overlays_ok ?b" using assms f by (intro overlays_ok_fields [of a ?b]) (simp_all add: app_ok_def)
    ultimately show ?thesis using d assms f by (simp add: app_ok_def selection_ok_def)
  qed
qed

lemma update_rate_ok: "app_ok uc a \<Longrightarrow> app_ok uc (update_rate env a)"
  by (rule app_ok_same) (auto simp: same_parts_def update_rate_def split: option.split prod.split)

lemma expire_ok: "app_ok uc a \<Longrightarrow> app_ok uc (expire_message env a)"
  by (rule app_ok_same) (auto simp: same_parts_def expire_message_def split: option.split)

lemma tick_select:
  assumes "app_ok uc a" and "ap_follow a" and "ap_visible a \<noteq> []"
  shows "app_ok uc (select_row (length (ap_visible a) - 1) a)"
proof -
  let ?b = "select_row (length (ap_visible a) - 1) a"
  have "data_ok uc ?b" using assms(1) by (auto simp: app_ok_def select_row_def intro: data_ok_fields)
  moreover have "runs_ok ?b" using assms(1) by (auto simp: app_ok_def select_row_def intro: runs_ok_fields)
  moreover have "prompt_ok ?b j" if "prompt_ok a j" for j
    using that assms(2) by (auto simp: prompt_ok_def select_row_def split: input_purpose.splits)
  then have "overlays_ok ?b" using assms(1) by (auto simp: app_ok_def overlays_ok_def select_row_def)
  moreover have "selection_ok ?b" using assms(3) by (cases "ap_visible a") (simp_all add: selection_ok_def select_row_def)
  ultimately show ?thesis by (simp add: app_ok_def)
qed

text \<open>Clamping to the rows in view changes nothing when the cursor is among them.\<close>

lemma clamp_id:
  assumes "selection_ok a"
  shows "clamp_view (length (ap_visible a)) a = a"
  using assms by (cases "ap_visible a") (auto simp: selection_ok_def app_defs)

lemma refresh_ok:
  assumes "app_ok uc a" and "ue_unicode env = uc"
  shows "app_ok uc (refresh_visible env a)"
proof -
  from assms(1) have d: "data_ok uc a" by (simp add: app_ok_def)
  have "length (ap_visible a) \<le> length (ap_visible (refresh_visible env a))"
    by (rule refresh_length [OF d assms(2)]) simp_all
  moreover have "data_ok uc (refresh_visible env a)" by (rule data_ok_view [OF d assms(2)]) simp_all
  moreover have "overlays_ok (refresh_visible env a)"
    using assms(1) overlays_ok_fields [of a "refresh_visible env a"] by (simp add: app_ok_def)
  ultimately show ?thesis using assms(1) by (auto simp: app_ok_def selection_ok_def)
qed

lemma on_tick_ok:
  assumes "app_ok uc a" and "ue_unicode env = uc"
  shows "app_ok uc (on_tick env a)"
proof -
  have r: "app_ok uc (refresh_visible env (expire_message env a))" by (rule refresh_ok [OF expire_ok [OF assms(1)] assms(2)])
  then have "selection_ok (refresh_visible env (expire_message env a))" by (simp add: app_ok_def)
  with r tick_select [OF r] clamp_id show ?thesis by (simp add: on_tick_def Let_def update_rate_ok)
qed

lemma select_visible_ok:
  assumes "app_ok uc a" and "\<not> overlay_open a"
  shows "app_ok uc (select_visible n a)"
proof (cases "n < length (ap_visible a)")
  case True
  let ?b = "a\<lparr>ap_follow := False, ap_view := (ap_view a)\<lparr>vs_selected := n\<rparr>\<rparr>"
  have "data_ok uc ?b" using assms(1) by (auto simp: app_ok_def intro: data_ok_fields)
  moreover have "runs_ok ?b" using assms(1) by (auto simp: app_ok_def intro: runs_ok_fields)
  moreover have "overlays_ok ?b" "selection_ok ?b"
    using assms(2) True by (auto simp: overlays_ok_def overlay_open_def selection_ok_def)
  ultimately show ?thesis using True by (simp add: select_visible_def app_ok_def)
qed (use assms in \<open>simp add: select_visible_def\<close>)

lemma quit_ok: "app_ok uc a \<Longrightarrow> app_ok uc (a\<lparr>ap_should_quit := True\<rparr>)"
  by (erule app_ok_same) (simp add: same_parts_def)

lemma app_step_ok:
  assumes "app_ok uc a" and "ue_unicode env = uc"
  shows "app_ok uc (app_step env ev a)"
proof (cases ev)
  case (Mouse m)
  with assms handle_action_ok [OF assms] select_visible_ok [OF assms(1)] show ?thesis
    by (cases m) (simp_all add: app_step_def handle_mouse_def split: option.split)
qed (use assms in \<open>simp_all add: app_step_def handle_action_ok on_engine_event_ok on_tick_ok quit_ok split: option.split\<close>)

lemma app_reach_ok: "app_reach uc spec a \<Longrightarrow> app_ok uc a"
  by (induction rule: app_reach.induct) (simp_all add: app_ok_start app_step_ok)

section \<open>Keys in a prompt\<close>

text \<open>With a prompt open no digit and no prefix is pending, so every printable key types.\<close>

definition quiet :: "app \<Rightarrow> bool" where
  "quiet a \<longleftrightarrow> (ap_input a \<noteq> None \<longrightarrow> ap_count a = None \<and> \<not> ap_pending_g a)"

lemma binding_for_scope: "binding_for k context = Some b \<Longrightarrow> b \<in> set KEYMAP \<and> applies (bd_scope b) context"
  by (auto simp: binding_for_def find_Some_iff)

lemma prompt_actions:
  assumes "kc_purpose context \<noteq> None" and "\<not> kc_help context" and "\<not> kc_confirm context"
    and "kc_count context = None" and "\<not> kc_pending_g context" and "action_for_key k context = Some act"
  shows "act \<in> {Interrupt, Submit, ScrollUp, ScrollDown, CancelPrompt, DeleteChar} \<or> (\<exists>c. act = Text c)"
proof -
  have s: "bd_action b \<in> {Submit, ScrollUp, ScrollDown, CancelPrompt, DeleteChar, TEXT_ANY}" if "binding_for k context = Some b" for b
  proof -
    from binding_for_scope [OF that] assms(1-3) have "b \<in> set (filter (\<lambda>b. bd_scope b = Input_scope) KEYMAP)"
      by (cases "bd_scope b") (auto simp: applies_def)
    then have "(bd_keys b, bd_action b) \<in> set (map (\<lambda>b. (bd_keys b, bd_action b)) (filter (\<lambda>b. bd_scope b = Input_scope) KEYMAP))"
      by auto
    then show ?thesis unfolding input_rows by auto
  qed
  show ?thesis
  proof (cases "k = Ctrl ''c''")
    case False
    with assms obtain b where b: "binding_for k context = Some b" by (auto simp: action_for_key_def split: option.splits)
    with s [OF b] False assms show ?thesis
      by (auto simp: action_for_key_def TEXT_ANY_def COUNT_ANY_def split: key.splits if_splits)
  qed (use assms(6) in \<open>simp add: action_for_key_def\<close>)
qed

lemma typing_keeps:
  "ap_count (handle_typing env act a) = ap_count a" "ap_pending_g (handle_typing env act a) = ap_pending_g a"
  by (auto simp: handle_typing_def shift_export_format_def select_export_format_def submit_input_def refresh_filter_input_def
      edit_input_def cancel_input_def refresh_visible_def request_export_def spawn_export_def app_defs Let_def
      split: action.split option.split input_purpose.split)

lemma browse_keeps:
  "act \<in> {EditFilter, Export} \<Longrightarrow> ap_count (browse env rows act a) = ap_count a \<and> ap_pending_g (browse env rows act a) = ap_pending_g a"
  by (auto simp: browse_def open_filter_def open_export_def Let_def)

lemma handle_browse_fields [simp]:
  "ap_input (handle_browse env act a) = ap_input (browse env (length (ap_visible a)) act a)"
  "ap_count (handle_browse env act a) = ap_count (browse env (length (ap_visible a)) act a)"
  "ap_pending_g (handle_browse env act a) = ap_pending_g (browse env (length (ap_visible a)) act a)"
  by (simp_all add: handle_browse_def Let_def app_defs)

lemma handle_browse_quiet:
  assumes "ap_confirm a = None" and "\<not> ap_help a" and "ap_input a = None"
  shows "quiet (handle_browse env act (note_action act a))"
proof -
  let ?n = "note_action act a"
  have n: "ap_confirm ?n = None" "\<not> ap_help ?n" "ap_input ?n = None" using assms by (simp_all add: note_action_def)
  show ?thesis
  proof (cases "act \<in> {EditFilter, Export}")
    case True
    then have "ap_count ?n = None \<and> \<not> ap_pending_g ?n" by (auto simp: note_action_def)
    with browse_keeps [OF True] show ?thesis by (simp add: quiet_def)
  next
    case False
    with browse_overlays(3) [OF n] show ?thesis by (auto simp: quiet_def)
  qed
qed

lemma handle_action_quiet:
  assumes "overlays_ok a" and "ap_input a \<noteq> None \<Longrightarrow> act \<notin> {PrefixG, GotoCount} \<and> (\<forall>n. act \<noteq> Count n)"
  shows "quiet (handle_action env act a)"
proof -
  let ?n = "note_action act a"
  have f: "ap_confirm ?n = ap_confirm a" "ap_help ?n = ap_help a" "ap_input ?n = ap_input a" "ap_view ?n = ap_view a"
    by (simp_all add: note_action_def)
  show ?thesis
  proof (cases "ap_confirm a = None \<and> \<not> ap_help a")
    case shut: True
    show ?thesis
    proof (cases "ap_input a = None")
      case True
      have d: "quiet b" if "handle_detail_scroll act ?n = Some b" for b
        using that True f by (auto simp: quiet_def handle_detail_scroll_def split: action.splits)
      from shut True handle_browse_quiet [of a env act] d show ?thesis
        by (auto simp: handle_action_def Let_def f split: option.split)
    next
      case False
      then have "ap_count ?n = None" "\<not> ap_pending_g ?n" using assms(2) by (auto simp: note_action_def split: action.split)
      with False shut show ?thesis by (simp add: handle_action_def Let_def f quiet_def typing_keeps)
    qed
  next
    case False
    with assms(1) have i: "ap_input ?n = None" by (auto simp: overlays_ok_def f)
    have "ap_input (handle_confirm env act ?n) = None" "ap_input (handle_help act ?n) = None"
      using i by (auto simp: handle_confirm_def handle_help_def spawn_export_def Let_def set_message_def
          split: action.split option.split confirm_kind.split)
    with False show ?thesis by (auto simp: handle_action_def Let_def f quiet_def)
  qed
qed

lemma on_engine_event_quiet: "quiet a \<Longrightarrow> quiet (on_engine_event env ev a)"
  by (auto simp: quiet_def on_engine_event_def end_run_def replace_run_def app_defs split: engine_event.splits option.splits sum.splits)

lemma quiet_cong: "ap_input b = ap_input a \<Longrightarrow> ap_count b = ap_count a \<Longrightarrow> ap_pending_g b = ap_pending_g a \<Longrightarrow> quiet b = quiet a"
  by (simp add: quiet_def)

lemma update_rate_quiet [simp]: "quiet (update_rate env a) = quiet a"
  by (rule quiet_cong) (simp_all add: update_rate_def split: option.split prod.split)

lemma refresh_expire_quiet [simp]: "quiet (refresh_visible env (expire_message env a)) = quiet a"
  by (rule quiet_cong) (simp_all add: refresh_visible_def expire_message_def split: option.split)

lemma select_clamp_quiet: "quiet (select_row i a) = quiet a" "quiet (clamp_view n a) = quiet a"
  by (rule quiet_cong; simp add: select_row_def clamp_view_def)+

lemma on_tick_quiet: "quiet a \<Longrightarrow> quiet (on_tick env a)"
  using refresh_expire_quiet [of env a]
  by (simp add: on_tick_def Let_def select_clamp_quiet del: refresh_fields)

lemma app_step_quiet:
  assumes "app_ok uc a" and "quiet a"
  shows "quiet (app_step env ev a)"
proof -
  from assms(1) have o: "overlays_ok a" by (simp add: app_ok_def)
  have key: "quiet (handle_action env act a)" if "action_for k (key_context_of a) = Some act" for k act
  proof (rule handle_action_quiet [OF o])
    assume i: "ap_input a \<noteq> None"
    from that obtain p where "action_for_key p (key_context_of a) = Some act" by (auto simp: action_for_def split: option.splits)
    from prompt_actions [OF _ _ _ _ _ this] i o assms(2)
    show "act \<notin> {PrefixG, GotoCount} \<and> (\<forall>n. act \<noteq> Count n)"
      by (auto simp: key_context_of_def overlays_ok_def quiet_def)
  qed
  have wheel: "quiet (handle_action env act a)" if "act \<in> {ScrollUp, ScrollDown}" for act
    by (rule handle_action_quiet [OF o]) (use that in auto)
  show ?thesis
  proof (cases ev)
    case (Mouse m)
    with assms(2) wheel show ?thesis
      by (cases m) (auto simp: app_step_def handle_mouse_def select_visible_def quiet_def split: option.split)
  next
    case Terminate
    with assms(2) show ?thesis by (simp add: app_step_def quiet_def)
  qed (use assms(2) key in \<open>simp_all add: app_step_def on_engine_event_quiet on_tick_quiet split: option.split\<close>)
qed

lemma app_reach_quiet: "app_reach uc spec a \<Longrightarrow> quiet a"
proof (induction rule: app_reach.induct)
  case (start env)
  show ?case by (simp add: quiet_def begin_app_def app_new_def)
next
  case (step a env ev)
  with app_step_quiet [OF app_reach_ok [OF step.hyps(1)]] show ?case by blast
qed

section \<open>Properties\<close>

text \<open>C11: In every state the interface can reach, the rendered rows are those of the results, both
  and the failure log keep their bounds, the indices in view are distinct and in range, the cursor
  is on a row in view (or at the top of an empty table), the export prompt points into its
  formats, and at most one run is live: every other run it started has been aborted.\<close>

theorem interface_well_formed:
  assumes "app_reach uc spec a"
  shows "ap_rows a = map row_model_new (ap_results a) \<and> length (ap_results a) \<le> MAX_RESULTS \<and>
    length (ap_failures a) \<le> MAX_FAILURE_LOG \<and> distinct (ap_visible a) \<and> (\<forall>i \<in> set (ap_visible a). i < length (ap_rows a)) \<and>
    vs_selected (ap_view a) < max 1 (length (ap_visible a)) \<and>
    (\<forall>i. ap_input a = Some i \<and> ib_purpose i = ExportFormat \<longrightarrow> ib_selected i < length (ib_options i)) \<and>
    (ap_screen a = Running \<longleftrightarrow> ap_run a \<noteq> None) \<and>
    (\<forall>n < ap_next_run a. ap_run a = Some n \<or> Abort n \<in> set (ap_effects a))"
proof -
  have ok: "data_ok uc a" "selection_ok a" "overlays_ok a" "runs_ok a"
    using app_reach_ok [OF assms] by (simp_all add: app_ok_def)
  have "ib_selected i < length (ib_options i)" if "ap_input a = Some i" "ib_purpose i = ExportFormat" for i
    using ok(3) that by (auto simp: overlays_ok_def prompt_ok_def)
  with ok show ?thesis unfolding data_ok_def selection_ok_def runs_ok_def by blast
qed

text \<open>A character typed into the filter prompt (whatever was pressed before it opened) is added
  to the filter at once: the table is narrowed to the rows that match, with the cursor on the
  first and following switched off.\<close>

theorem typed_text_filters:
  assumes "app_reach uc spec a" and "ap_input a = Some i" and "ib_purpose i = FilterInput" and "ue_unicode env = uc"
    and "ke_code k = CharCode c" and "ke_kind k = Press" and "\<not> is_control c"
    and "\<not> ke_control k" "\<not> ke_alt k" "\<not> ke_super k" "\<not> ke_meta k"
  shows "vs_filter (ap_view (app_step env (KeyPress k) a)) = vs_filter (ap_view a) @ c \<and>
    vs_selected (ap_view (app_step env (KeyPress k) a)) = 0 \<and> \<not> ap_follow (app_step env (KeyPress k) a) \<and>
    set (ap_visible (app_step env (KeyPress k) a)) =
      {j. j < length (ap_rows a) \<and> passes_filter uc (ap_view (app_step env (KeyPress k) a)) (ap_rows a ! j)}"
proof -
  have q: "quiet a" by (rule app_reach_quiet [OF assms(1)])
  have o: "overlays_ok a" using app_reach_ok [OF assms(1)] by (simp add: app_ok_def)
  have ctx: "kc_purpose (key_context_of a) \<noteq> None" "\<not> kc_help (key_context_of a)" "\<not> kc_confirm (key_context_of a)"
      "kc_count (key_context_of a) = None" "\<not> kc_pending_g (key_context_of a)"
    using o q assms(2) by (auto simp: key_context_of_def overlays_ok_def quiet_def)
  have act: "action_for k (key_context_of a) = Some (Text c)"
    using assms(5-11) prompt_takes_text [OF ctx] by (simp add: action_for_def resolve_key_def)
  have "vs_filter (ap_view a) = ib_buffer i" "ap_confirm a = None" "\<not> ap_help a"
    using o assms(2,3) by (auto simp: overlays_ok_def prompt_ok_def)
  then show ?thesis
    using act assms(2-4)
    by (simp add: app_step_def handle_action_def note_action_def handle_typing_def edit_input_def refresh_filter_input_def
        refresh_visible_def set_visible)
qed

text \<open>Opening the filter prompt, typing and deleting any characters and leaving it with Esc
  brings back the filter there was, and the table with it.\<close>

theorem filter_prompt_restores:
  assumes "ap_confirm a = None" and "\<not> ap_help a" and "ap_input a = None"
    and "\<forall>act \<in> set typed. act = DeleteChar \<or> (\<exists>c. act = Text c)"
  shows "(let b = handle_action env CancelPrompt (foldl (\<lambda>a act. handle_action env act a) (handle_action env EditFilter a) typed)
    in ap_input b = None \<and> vs_filter (ap_view b) = vs_filter (ap_view a) \<and>
       length (ap_visible b) = length (filter (passes_filter (ue_unicode env) (ap_view a)) (ap_rows a)))"
proof -
  define prompt where "prompt b \<longleftrightarrow> ap_confirm b = None \<and> \<not> ap_help b \<and> ap_rows b = ap_rows a \<and>
    (\<exists>i. ap_input b = Some i \<and> ib_purpose i = FilterInput \<and> ib_original i = vs_filter (ap_view a))" for b :: app
  have "prompt (handle_action env EditFilter a)"
    using assms(1-3) by (simp add: prompt_def handle_action_def note_action_def handle_detail_scroll_def handle_browse_def browse_def
        open_filter_def clamp_view_def update_follow_def Let_def)
  moreover have "prompt (handle_action env act b)" if "prompt b" "act = DeleteChar \<or> (\<exists>c. act = Text c)" for act b
    using that by (auto simp: prompt_def handle_action_def note_action_def handle_typing_def edit_input_def refresh_filter_input_def)
  ultimately have "prompt (foldl (\<lambda>a act. handle_action env act a) (handle_action env EditFilter a) typed)"
    using assms(4) by (induction typed rule: rev_induct) simp_all
  then obtain b where b: "b = foldl (\<lambda>a act. handle_action env act a) (handle_action env EditFilter a) typed" "prompt b" by blast
  have p: "passes_filter uc ((ap_view b)\<lparr>vs_filter := vs_filter (ap_view a)\<rparr>) = passes_filter uc (ap_view a)" for uc
    by (rule passes_cong) simp
  from b(2) show ?thesis
    unfolding b(1) [symmetric]
    by (auto simp: prompt_def handle_action_def note_action_def handle_typing_def cancel_input_def refresh_visible_def
        Let_def length_visible p)
qed

text \<open>The events carry no run, so the end of a run that was replaced ends the one that is live: its
  task is aborted and the screen says done.\<close>

theorem stale_finish_aborts:
  assumes "ap_run a = Some n"
  shows "ap_run (on_engine_event env (RunFinished old) a) = None \<and> Abort n \<in> set (ap_effects (on_engine_event env (RunFinished old) a)) \<and>
    ap_screen (on_engine_event env (RunFinished old) a) = Done"
  using assms by (simp add: on_engine_event_def end_run_def replace_run_def app_defs)

text \<open>Ctrl+C with the help panel or a prompt open neither cancels the run nor leaves.\<close>

theorem interrupt_ignored:
  assumes "app_reach uc spec a" and "ap_help a \<or> ap_input a \<noteq> None"
    and "ke_code k = CharCode ''c''" "ke_kind k = Press" "ke_control k"
  shows "app_step env (KeyPress k) a = note_action Interrupt a"
proof -
  have "overlays_ok a" using app_reach_ok [OF assms(1)] by (simp add: app_ok_def)
  with assms(2) have "ap_confirm a = None" by (auto simp: overlays_ok_def)
  then show ?thesis
    using assms(2) control_c_interrupts [OF assms(4,5,3)]
    by (auto simp: app_step_def handle_action_def note_action_def handle_help_def handle_typing_def Let_def)
qed

section \<open>A sample run\<close>

definition demo_ui :: ui_env where
  "demo_ui = \<lparr>ue_now = 5, ue_exists = (\<lambda>_. False), ue_unicode = demo_unicode, ue_live_done = None\<rparr>"

definition demo_spec :: run_spec where
  "demo_spec = \<lparr>sp_fetcher = \<lparr>fa_countries = [], fa_exclude_country = [], fa_with_geo = False, fa_provider = [],
       fa_exclude_provider = [], fa_source_url = [], fa_offline = True, fa_dry_run = False, fa_list_providers = False,
       fa_fetch_concurrency = 4, fa_cache_ttl = 0, fa_refresh_cache = False, fa_fetch_delay_ms = 0, fa_fallback_threshold = None, fa_fetch_phase_timeout = 0,
       fa_no_dedup = False, fa_provider_timeout = 0\<rparr>,
     sp_validator = None, sp_output = demo_output ''text'' 1\<rparr>"

definition demo_key :: "string \<Rightarrow> key_event" where
  "demo_key c = \<lparr>ke_code = CharCode c, ke_kind = Press, ke_control = False, ke_alt = False, ke_super = False, ke_meta = False\<rparr>"

text \<open>The interface just after the start, and with the filter prompt open.\<close>

definition demo_start :: app where
  "demo_start = begin_app demo_ui (app_new demo_spec)"

definition demo_filter :: app where
  "demo_filter = app_step demo_ui (KeyPress (demo_key ''/'')) demo_start"

lemma demo_start_reach: "app_reach demo_unicode demo_spec demo_start"
  unfolding demo_start_def by (rule app_reach.start)

lemma demo_start_fields:
  "ap_should_quit demo_start = False" "ap_input demo_start = None" "ap_confirm demo_start = None" "ap_help demo_start = False"
  "ap_run demo_start = Some 0" "ap_screen demo_start = Running" "ap_view demo_start = reset_position view_default"
  "ap_rows demo_start = []" "ap_results demo_start = []" "ap_visible demo_start = []"
  by (simp_all add: demo_start_def begin_app_def app_new_def begin_run_def spawn_run_def replace_run_def perform_def)

lemma demo_filter_reach: "app_reach demo_unicode demo_spec demo_filter"
  unfolding demo_filter_def
  by (rule app_reach.step [OF demo_start_reach]) (simp_all add: demo_start_fields demo_ui_def)

lemma slash_key: "action_for (demo_key ''/'') (key_context_of demo_start) = Some EditFilter"
proof -
  have "key_context_of demo_start = ctx Running None False False"
    by (simp add: key_context_of_def ctx_def demo_start_def begin_app_def app_new_def begin_run_def spawn_run_def replace_run_def perform_def)
  moreover have "action_for (demo_key ''/'') (ctx Running None False False) = Some EditFilter" by code_simp
  ultimately show ?thesis by simp
qed

lemma demo_filter_input:
  "ap_input demo_filter = Some \<lparr>ib_purpose = FilterInput, ib_buffer = [], ib_original = [], ib_options = [], ib_selected = 0\<rparr>"
  "vs_filter (ap_view demo_filter) = []"
  by (simp_all add: demo_filter_def app_step_def slash_key handle_action_def note_action_def demo_start_fields Let_def
      handle_detail_scroll_def browse_def handle_browse_def open_filter_def app_defs view_default_def)

theorem interface_well_formed_witness:
  "vs_selected (ap_view demo_filter) < max 1 (length (ap_visible demo_filter)) \<and> length (ap_results demo_filter) \<le> MAX_RESULTS"
  using interface_well_formed [OF demo_filter_reach] by blast

theorem typed_text_filters_witness:
  "vs_filter (ap_view (app_step demo_ui (KeyPress (demo_key ''s'')) demo_filter)) = ''s''"
proof -
  have "\<not> is_control ''s''" by code_simp
  from typed_text_filters [OF demo_filter_reach demo_filter_input(1), of demo_ui "demo_key ''s''" "''s''"] this
  show ?thesis by (simp add: demo_ui_def demo_key_def demo_filter_input(2))
qed

theorem filter_prompt_restores_witness:
  "(let b = handle_action demo_ui CancelPrompt
      (foldl (\<lambda>a act. handle_action demo_ui act a) (handle_action demo_ui EditFilter demo_start) [Text ''s'', DeleteChar, Text ''q''])
    in vs_filter (ap_view b) = [])"
  using filter_prompt_restores [of demo_start "[Text ''s'', DeleteChar, Text ''q'']" demo_ui]
  by (simp add: demo_start_fields Let_def view_default_def reset_position_def)

theorem stale_finish_aborts_witness:
  "ap_run (on_engine_event demo_ui (RunFinished \<lparr>sm_gathered = 1, sm_valid = 0, sm_failed = 1, sm_elapsed = 9\<rparr>) demo_start) = None"
  using stale_finish_aborts [OF demo_start_fields(5)] by blast

theorem interrupt_ignored_witness:
  "app_step demo_ui (KeyPress \<lparr>ke_code = CharCode ''c'', ke_kind = Press, ke_control = True, ke_alt = False, ke_super = False, ke_meta = False\<rparr>)
     demo_filter = note_action Interrupt demo_filter"
  by (rule interrupt_ignored [OF demo_filter_reach]) (simp_all add: demo_filter_input)

end
