(* ===== verification/Tui_Engine_Props.thy ===== *)
theory Tui_Engine_Props
  imports Tui_Engine Tui_Props
begin

text \<open>
  What a run of the interface finds: the same proxies in the same order as the command line, shown
  whatever the interleaving of the tasks, and none at all with a minimum score.
\<close>

section \<open>The rows of a run\<close>

lemma send_row_None [simp]: "send_row None = Some None"
  by (simp add: send_row_def)

lemma send_one_None [simp]: "send_one None ev = ([Send ev], None)"
  by (simp add: send_one_def)

lemma find_loop_room [simp]: "snd (snd (find_loop f limit None emitted e ps)) = None"
proof (induction ps arbitrary: emitted e)
  case (Cons p ps)
  then show ?case by (auto split: prod.split quota_choice.split) (metis snd_conv)+
qed simp

lemma grab_loop_room [simp]: "snd (grab_loop f limit None emitted ps) = None"
proof (induction ps arbitrary: emitted)
  case (Cons p ps)
  then show ?case by (auto split: prod.split) (metis snd_conv)+
qed simp

lemma find_loop_none: "find_loop f limit None emitted e ps = (rows, e1, r) \<Longrightarrow> r = None"
  using find_loop_room [of f limit emitted e ps] by simp

lemma grab_loop_none: "grab_loop f limit None emitted ps = (rows, r) \<Longrightarrow> r = None"
  using grab_loop_room [of f limit emitted ps] by simp

lemma rows_sent_simps [simp]:
  "rows_sent [] = []" "rows_sent (act # t) = row_of act @ rows_sent t" "rows_sent (s @ t) = rows_sent s @ rows_sent t"
  by (simp_all add: rows_sent_def)

lemma rows_sent_rows [simp]: "rows_sent (map (\<lambda>p. Send (NewProxy p)) ps) = ps"
  by (induction ps) simp_all

lemma rows_sent_relay [simp]: "rows_sent (relay_stages d stages) = []"
  by (induction d stages rule: relay_stages.induct) simp_all

lemma rows_sent_failures [simp]: "rows_sent (relay_failures failures) = []"
  by (induction failures) (auto simp: relay_failures_def)

definition end_actions :: "run_out \<Rightarrow> run_action list" where
  "end_actions r =
     (case ro_result r of
        Inr summary \<Rightarrow> EnterPhase PhaseFinished # fst (send_one (ro_room r) (RunFinished summary))
      | Inl e \<Rightarrow> ShowError e # EnterPhase PhaseFailed # fst (send_one (ro_room r) (RunError e)))"

lemma rows_sent_end [simp]: "rows_sent (end_actions r) = []"
  by (simp add: end_actions_def send_one_def split: sum.split option.split)

lemma drive_parts:
  "drive w room spec = (let r = (if sp_validator spec \<noteq> None then engine_find w room spec else engine_grab w room spec) in ro_actions r @ end_actions r)"
  by (simp add: drive_def end_actions_def Let_def)

section \<open>The rows of the command line\<close>

lemma quota_gate_decision:
  "quota_gate p (Some e) =
     (case quota_decision p e of (EmitRow, e1) \<Rightarrow> (EmitItem, Some e1) | (SkipRow, e1) \<Rightarrow> (SkipItem, Some e1) | (StopRows, e1) \<Rightarrow> (StopRun, Some e1))"
  by (simp add: quota_gate_def quota_decision_def split: prod.split)

text \<open>The formats that write one line for each proxy; a serializer that fails for no proxy is asked of JSON lines.\<close>

definition line_format :: "out_env \<Rightarrow> string \<Rightarrow> bool" where
  "line_format env format \<longleftrightarrow> format \<notin> {''json'', ''pretty-json'', ''pac''} \<and>
     (format = ''json-lines'' \<longrightarrow> (\<forall>p. ev_json env (proxy_json p) \<noteq> None))"

lemma line_format_renders:
  "line_format env format \<Longrightarrow> renderable env format p"
  "line_format env format \<Longrightarrow> ev_json env' = ev_json env \<Longrightarrow> render_item env format n p = render_item env' format 0 p"
  by (auto simp: line_format_def renderable_def render_item_def)

lemma line_format_env: "ev_json env' = ev_json env \<Longrightarrow> line_format env' format = line_format env format"
  by (simp add: line_format_def)

lemma line_format_rendered:
  "line_format env format \<Longrightarrow> ev_json env' = ev_json env \<Longrightarrow> rendered env format n ps = rendered env' format m ps"
proof (induction ps arbitrary: n m)
  case (Cons p ps)
  have "line_format env' format" using Cons.prems line_format_env by blast
  then have "render_item env format n p = render_item env' format m p"
    using line_format_renders(2) [OF Cons.prems, of n p] line_format_renders(2) [of env' format env' m p] by simp
  moreover have "rendered env format (Suc n) ps = rendered env' format (Suc m) ps" by (rule Cons.IH [OF Cons.prems])
  ultimately show ?case by (simp only: rendered_Cons)
qed simp

lemma out_loop_find_loop:
  assumes "line_format (or_env run) (or_format run)" and "\<not> or_quotas_applied run"
  shows "sk_plan (os_sink st) = [] \<Longrightarrow> os_quotas st = Some e \<Longrightarrow>
    find_loop (filter_from_options (filter_options (or_options run))) (oo_limit (or_options run)) None (os_rows st) e ps = (rows, e1, room) \<Longrightarrow>
    out_loop run (map Item ps) st = written run rows (Some e1) (os_cancelled st) st"
proof (induction ps arbitrary: st e rows)
  case Nil
  then show ?case by (simp add: written_Nil)
next
  case (Cons p ps)
  let ?f = "filter_from_options (filter_options (or_options run))"
  show ?case
  proof (cases "filter_matches ?f p")
    case False
    with Cons show ?thesis by simp
  next
    case True
    obtain g e2 where g: "quota_decision p e = (g, e2)" by fastforce
    have gate: "loop_gate run p (os_quotas st) = (case g of EmitRow \<Rightarrow> (EmitItem, Some e2) | SkipRow \<Rightarrow> (SkipItem, Some e2) | StopRows \<Rightarrow> (StopRun, Some e2))"
      using assms(2) Cons.prems(2) g by (simp add: loop_gate_def quota_gate_decision split: quota_choice.split)
    show ?thesis
    proof (cases g)
      case StopRows
      with Cons.prems True g gate show ?thesis by (simp add: written_Nil)
    next
      case SkipRow
      with Cons.prems True g gate Cons.IH [of "st\<lparr>os_quotas := Some e2\<rparr>" e2 rows] show ?thesis
        by (simp add: written_quota)
    next
      case EmitRow
      let ?st = "st\<lparr>os_quotas := Some e2\<rparr>"
      have em: "emit_item run p ?st = (False, written run [p] (Some e2) (os_cancelled st) st)"
        using emit_item_plain [of ?st run p] Cons.prems(1) line_format_renders(1) [OF assms(1)] by (simp add: written_quota)
      show ?thesis
      proof (cases "0 < oo_limit (or_options run) \<and> oo_limit (or_options run) \<le> os_rows st + 1 \<or> is_satisfied e2")
        case stop: True
        then have "rows = [p]" "e1 = e2" using Cons.prems(3) True g EmitRow by (auto split: if_splits)
        with stop True EmitRow gate em assms(2) show ?thesis
          by (auto simp: limit_reached_def quotas_satisfied_def)
      next
        case go: False
        obtain rows' e' room' where l: "find_loop ?f (oo_limit (or_options run)) None (os_rows st + 1) e2 ps = (rows', e', room')"
          by (metis prod_cases3)
        with Cons.prems(3) True g EmitRow go have r: "rows = p # rows'" "e1 = e'" "room = room'" by auto
        have "out_loop run (map Item ps) (written run [p] (Some e2) (os_cancelled st) st) =
          written run rows' (Some e1) (os_cancelled st) (written run [p] (Some e2) (os_cancelled st) st)"
          using Cons.IH [of "written run [p] (Some e2) (os_cancelled st) st" e2 rows'] l r by simp
        moreover have "\<not> (limit_reached run (os_rows st + 1) \<or> \<not> or_quotas_applied run \<and> quotas_satisfied (Some e2))"
          using go assms(2) by (auto simp: limit_reached_def quotas_satisfied_def)
        ultimately show ?thesis using True EmitRow gate em r by (auto simp: written_step)
      qed
    qed
  qed
qed

lemma pass_lines:
  assumes "sound_env env o'" and "\<not> buffered_path o'" and "line_format env (or_format (out_run_of env o'))" and "ev_flush env = None"
    and "fo_quotas fin = Some e"
    and "find_loop (filter_from_options (filter_options o')) (oo_limit o') None 0 e ps = (rows, e1, room)"
  shows "\<exists>st. process_result env o' fin (map Item ps) = (Ok Finished, st) \<and> os_rows st = length rows \<and> os_quotas st = Some e1 \<and>
    os_doc st = map_option (\<lambda>c. jc_items c + length rows) (fo_continue_json fin) \<and>
    sk_text (os_sink st) = start_text env o' fin @ header_text env o' fin @ rendered env (or_format (out_run_of env o')) 0 rows"
proof -
  let ?run = "out_run_of env o'" and ?a = "oo_append o' \<and> oo_output_file o' \<noteq> None \<and> ev_existing env \<noteq> []"
  let ?st = "start_state \<lparr>sk_text = start_text env o' fin, sk_plan = []\<rparr> fin"
  let ?st1 = "?st\<lparr>os_sink := \<lparr>sk_text = start_text env o' fin @ header_text env o' fin, sk_plan = []\<rparr>\<rparr>"
  have o: "or_options ?run = o'" "or_env ?run = env" by (simp_all add: out_run_of_def)
  have z: "os_rows ?st1 = 0" "os_quotas ?st1 = Some e" "os_cancelled ?st1 = False" "sk_plan (os_sink ?st1) = []"
    using assms(5) by (simp_all add: start_state_def)
  have "\<not> or_quotas_applied ?run" using assms(2) by (simp add: out_run_of_def)
  from out_loop_find_loop [OF _ this z(4,2), of ps rows e1 room] assms(3,6) z o
  have "out_loop ?run (map Item ps) ?st1 = written ?run rows (Some e1) False ?st1" by simp
  from run_loop_written [OF assms(1) start_state_ok refl this]
  have "all_written env o' fin rows (process_result env o' fin (map Item ps)) \<and>
      \<not> os_cancelled (snd (process_result env o' fin (map Item ps))) \<and> os_quotas (snd (process_result env o' fin (map Item ps))) = Some e1"
    using assms(2) by (simp add: process_unfold [OF assms(1)] process_opened_def o)
  moreover have "\<not> is_json (or_format ?run)" using assms(3) by (auto simp: line_format_def is_json_def)
  ultimately show ?thesis
    using line_format_rendered [OF assms(3) refl, of "start_items fin" rows 0] assms(4)
    by (cases "process_result env o' fin (map Item ps)") (simp add: all_written_def flushed_def closing_text_def)
qed

lemma first_pass_lines:
  assumes "sound_env env o'" and "\<not> buffered_path o'" and "line_format env (or_format (out_run_of env o'))" and "ev_flush env = None"
    and "find_loop (filter_from_options (filter_options o')) (oo_limit o') None 0 (find_enforcer reqs) ps = (rows, e1, room)"
  shows "\<exists>st. process_result env o' (pass1_opts reqs) (map Item ps) = (Ok Finished, st) \<and> os_rows st = length rows \<and> os_quotas st = Some e1 \<and>
    os_doc st = (if find_quotas reqs \<noteq> [] then Some (length rows) else None) \<and>
    sk_text (os_sink st) = start_text env o' (pass1_opts reqs) @ header_text env o' (pass1_opts reqs) @
      rendered env (or_format (out_run_of env o')) 0 rows"
  using pass_lines [OF assms(1-4), of "pass1_opts reqs" "find_enforcer reqs" ps rows e1 room] assms(5) by auto

lemma second_pass_lines:
  assumes "sound_env (fw_env2 cw) o'" and "\<not> buffered_path o'" and "line_format (fw_env2 cw) (or_format (out_run_of (fw_env2 cw) o'))"
    and "ev_flush (fw_env2 cw) = None" and "os_doc st1 = Some n" and "os_quotas st1 = Some e1" and "fw_start2 cw = Started"
    and "fw_candidates cw \<noteq> []" and "fw_events2 cw = map Item ps"
    and "find_loop (filter_from_options (filter_options o')) (pass2_limit cw (has_any_quota (find_enforcer reqs)) (oo_limit o') st1) None 0 e1 ps
      = (rows, e2, room)"
  shows "second_pass cw reqs o' st1 =
    \<lparr>fr_outcome = Ok Finished,
     fr_text = sk_text (os_sink st1) @ rendered (fw_env2 cw) (or_format (out_run_of (fw_env2 cw) o')) 0 rows,
     fr_rows = os_rows st1 + length rows\<rparr>"
proof -
  let ?lim = "pass2_limit cw (has_any_quota (find_enforcer reqs)) (oo_limit o') st1"
  let ?o2 = "o'\<lparr>oo_limit := ?lim\<rparr>" and ?env = "(fw_env2 cw)\<lparr>ev_existing := sk_text (os_sink st1)\<rparr>"
  have same: "or_format (out_run_of ?env ?o2) = or_format (out_run_of (fw_env2 cw) o')" "filter_options ?o2 = filter_options o'"
    by (simp_all add: out_run_of_def filter_options_def)
  have s: "sound_env ?env ?o2" using assms(1) by (simp add: sound_env_def same)
  have "\<not> buffered_path ?o2" using assms(2) by (simp add: buffered_path_def)
  from pass_lines [OF s this, of "pass2_opts st1" e1 ps rows e2 room] assms(3,4,6,10) same line_format_env [of ?env "fw_env2 cw"]
  obtain st where st: "process_result ?env ?o2 (pass2_opts st1) (map Item ps) = (Ok Finished, st)" "os_rows st = length rows"
    "sk_text (os_sink st) = start_text ?env ?o2 (pass2_opts st1) @ header_text ?env ?o2 (pass2_opts st1) @
      rendered ?env (or_format (out_run_of (fw_env2 cw) o')) 0 rows"
    by (auto simp: pass2_opts_def)
  have t: "start_text ?env ?o2 (pass2_opts st1) = sk_text (os_sink st1)" "header_text ?env ?o2 (pass2_opts st1) = []"
    using assms(5) by (simp_all add: start_text_def header_text_def continuing_json_def pass2_opts_def)
  have "rendered ?env (or_format (out_run_of (fw_env2 cw) o')) 0 rows = rendered (fw_env2 cw) (or_format (out_run_of (fw_env2 cw) o')) 0 rows"
    by (rule line_format_rendered) (simp_all add: line_format_env [of ?env "fw_env2 cw"] assms(3))
  with st t assms(7,8,9) show ?thesis by (simp add: second_pass_def Let_def)
qed


section \<open>The interface and the command line\<close>

lemma no_quotas_no_fallback: "\<not> needs_fallback h e g False limit emitted passed"
  by (simp add: needs_fallback_def Let_def)

text \<open>The pieces of a run whose first validator started.\<close>

definition second_of :: "engine_world \<Rightarrow> validator_args \<Rightarrow> proxy list \<Rightarrow> string + validation" where
  "second_of w va candidates =
     ew_validate w (validator_config va (requested_protocols (split_type_requests (va_types va))) [] True)
       (build_probe_gate (find_enforcer (split_type_requests (va_types va)))) candidates"

definition first_of_pass :: "engine_world \<Rightarrow> validator_args \<Rightarrow> proxy list \<Rightarrow> string + validation" where
  "first_of_pass w va source =
     (let reqs = split_type_requests (va_types va)
      in ew_validate w (validator_config va (requested_protocols reqs) (tr_groups reqs) False) (build_probe_gate (find_enforcer reqs)) source)"

definition recorded :: "validator_args \<Rightarrow> proxy list \<Rightarrow> validation \<Rightarrow> proxy list" where
  "recorded va source v = snd (tee_recorder (requested_protocols (split_type_requests (va_types va))) [] (take (vl_pulled v) source))"

lemma requested_none: "requested_protocols reqs \<noteq> [] \<longleftrightarrow> find_quotas reqs \<noteq> []"
  by (simp add: requested_protocols_def)

lemma engine_find_run:
  assumes "sp_validator spec = Some va" and "find_source w spec va = (acts0, Inr source)" and "first_of_pass w va source = Inr v"
    and "find_loop (run_filter spec) (oo_limit (sp_output spec)) None 0 (find_enforcer (split_type_requests (va_types va))) (vl_items v) = (rows1, e1, room)"
  shows "engine_find w None spec =
     (let reqs = split_type_requests (va_types va);
          r = (if needs_fallback (has_any_quota (find_enforcer reqs)) e1 (tr_groups reqs \<noteq> []) (find_quotas reqs \<noteq> []) (oo_limit (sp_output spec))
                 (length rows1) (vl_passed v) \<and> recorded va source v \<noteq> []
               then engine_second w None spec va reqs e1 (recorded va source v) (length rows1) (vl_passed v) (vl_done v - vl_passed v)
               else \<lparr>ro_actions = [], ro_room = None,
                 ro_result = Inr \<lparr>sm_gathered = find_gathered w va, sm_valid = length rows1, sm_failed = vl_done v - vl_passed v, sm_elapsed = ew_elapsed w\<rparr>\<rparr>)
      in r\<lparr>ro_actions := (acts0 @ [ShowProgress (vl_done v) (vl_passed v), EnterPhase (ValidatingPass 1), Send (JudgeHealth (vl_healthy v) (vl_judges v))] @
          map (\<lambda>p. Send (NewProxy p)) rows1) @ ro_actions r\<rparr>)"
proof -
  have "room = None"
    using find_loop_room [of "run_filter spec" "oo_limit (sp_output spec)" 0 "find_enforcer (split_type_requests (va_types va))" "vl_items v"] assms(4)
    by simp
  with assms show ?thesis
    by (simp add: engine_find_def Let_def first_of_pass_def tee_recorder_exact recorded_def requested_none del: prod.case_eq_if)
qed

definition world_of :: "engine_world \<Rightarrow> validator_args \<Rightarrow> proxy list \<Rightarrow> validation \<Rightarrow> out_env \<Rightarrow> out_env \<Rightarrow> find_world" where
  "world_of w va source v env1 env2 =
     \<lparr>fw_env1 = env1, fw_events1 = map Item (vl_items v), fw_passed1 = vl_passed v, fw_candidates = recorded va source v,
      fw_start2 = (case second_of w va (recorded va source v) of Inl _ \<Rightarrow> Start_failed | Inr _ \<Rightarrow> Started),
      fw_env2 = env2,
      fw_events2 = (case second_of w va (recorded va source v) of Inl _ \<Rightarrow> [] | Inr v2 \<Rightarrow> map Item (vl_items v2))\<rparr>"

lemma find_run:
  assumes "process_result env1 o' (pass1_opts (split_type_requests types)) (fw_events1 cw) = (Ok Finished, st1)" and "fw_env1 cw = env1"
    and "\<not> is_json (effective_format (oo_format o') (oo_output_file o') (ev_tty (fw_env2 cw)))"
  shows "run_find cw types o' =
      (if falls_back cw (split_type_requests types) o' st1 \<and> fw_candidates cw \<noteq> [] then second_pass cw (split_type_requests types) o' st1
       else \<lparr>fr_outcome = Ok Finished, fr_text = sk_text (os_sink st1), fr_rows = os_rows st1\<rparr>)"
  using assms by (simp add: run_find_def Let_def after_close_def close_chained_json_def second_pass_def split: option.split)

section \<open>What is shown\<close>

lemma shuffle_rows: "t \<in> shuffles xs ys \<Longrightarrow> rows_sent ys = [] \<Longrightarrow> rows_sent t = rows_sent xs"
proof (induction xs ys arbitrary: t rule: shuffles.induct)
  case (3 x xs y ys)
  then show ?case by (cases t) (auto simp: Cons_in_shuffles_iff)
qed simp_all

lemma trace_rows: "run_trace w spec stages failures t \<Longrightarrow> rows_sent t = rows_sent (drive w None spec)"
  unfolding run_trace_def by (metis rows_sent_failures rows_sent_relay shuffle_rows)

lemma show_run_simps [simp]:
  "show_run env [] a = a" "show_run env (act # t) a = show_run env t (show_action env act a)"
  by (simp_all add: show_run_def)

lemma event_results:
  "ap_results (on_engine_event env ev a) =
     (case ev of NewProxy p \<Rightarrow> if length (ap_results a) < MAX_RESULTS then ap_results a @ [p] else ap_results a | _ \<Rightarrow> ap_results a)"
  "ap_overflow (on_engine_event env ev a) =
     (case ev of NewProxy p \<Rightarrow> if length (ap_results a) < MAX_RESULTS then ap_overflow a else ap_overflow a + 1 | _ \<Rightarrow> ap_overflow a)"
  by (simp_all add: on_engine_event_def app_defs end_run_def replace_run_def split: engine_event.split sum.split option.split)

lemma shown_results:
  "length (ap_results a) \<le> MAX_RESULTS \<Longrightarrow>
   ap_results (show_run env t a) = ap_results a @ take (MAX_RESULTS - length (ap_results a)) (rows_sent t) \<and>
   ap_overflow (show_run env t a) = ap_overflow a + (length (rows_sent t) - (MAX_RESULTS - length (ap_results a)))"
proof (induction t arbitrary: a)
  case (Cons act t)
  show ?case
  proof (cases "\<exists>p. act = Send (NewProxy p)")
    case False
    then have "row_of act = []" by (cases act rule: row_of.cases) auto
    moreover have "ap_results (show_action env act a) = ap_results a" "ap_overflow (show_action env act a) = ap_overflow a"
      using False by (auto simp: show_action_def event_results split: run_action.split engine_event.split)
    ultimately show ?thesis using Cons by simp
  next
    case True
    then obtain p where p: "act = Send (NewProxy p)" by blast
    show ?thesis
    proof (cases "length (ap_results a) < MAX_RESULTS")
      case True
      then have "MAX_RESULTS - length (ap_results a) = Suc (MAX_RESULTS - Suc (length (ap_results a)))" by simp
      with Cons.IH [of "show_action env act a"] True p show ?thesis by (simp add: show_action_def event_results)
    next
      case False
      with Cons.IH [of "show_action env act a"] Cons.prems p show ?thesis by (simp add: show_action_def event_results)
    qed
  qed
qed simp

definition ends_run :: "run_action \<Rightarrow> bool" where
  "ends_run act \<longleftrightarrow> (\<exists>s. act = Send (RunFinished s)) \<or> (\<exists>e. act = Send (RunError e))"

lemma event_screen:
  "ap_screen (on_engine_event env ev a) = (if ends_run (Send ev) then Done else ap_screen a)"
  "ap_run (on_engine_event env ev a) = (if ends_run (Send ev) then None else ap_run a)"
  by (simp_all add: ends_run_def on_engine_event_def app_defs end_run_def replace_run_def split: engine_event.split sum.split option.split)

lemma shown_end:
  "ap_screen (show_run env t a) = (if \<exists>act \<in> set t. ends_run act then Done else ap_screen a) \<and>
   ap_run (show_run env t a) = (if \<exists>act \<in> set t. ends_run act then None else ap_run a)"
proof (induction t arbitrary: a)
  case (Cons act t)
  have "\<not> ends_run act \<or> (\<exists>ev. act = Send ev)" by (auto simp: ends_run_def)
  then show ?case by (cases act) (auto simp: Cons show_action_def event_screen ends_run_def)
qed simp

lemma note_rows: "send_one r (JudgeHealth i j) = (sent, r') \<Longrightarrow> rows_sent sent = []"
  "send_one r (PassChanged k) = (sent, r') \<Longrightarrow> rows_sent sent = []"
  by (auto simp: send_one_def split: option.splits)

lemma engine_find_shape:
  "(\<exists>acts e. engine_find w room spec = \<lparr>ro_actions = acts, ro_room = room, ro_result = Inl e\<rparr> \<and> rows_sent acts = []) \<or>
   (\<exists>cfg gate src v sent room1 rows1 e0 e1 room2 va reqs cands failed r.
      ew_validate w cfg gate src = Inr v \<and> send_one room (JudgeHealth (vl_healthy v) (vl_judges v)) = (sent, room1) \<and>
      find_loop (run_filter spec) (oo_limit (sp_output spec)) room1 0 e0 (vl_items v) = (rows1, e1, room2) \<and>
      (r = engine_second w room2 spec va reqs e1 cands (length rows1) (vl_passed v) failed \<or> ro_actions r = [] \<and> ro_room r = room2) \<and>
      rows_sent (ro_actions (engine_find w room spec)) = rows1 @ rows_sent (ro_actions r) \<and>
      ro_room (engine_find w room spec) = ro_room r)"
proof (cases "sp_validator spec")
  case None
  then show ?thesis by (simp add: engine_find_def)
next
  case (Some va)
  let ?reqs = "split_type_requests (va_types va)"
  obtain acts0 src where src: "find_source w spec va = (acts0, src)" by fastforce
  then have acts0: "rows_sent acts0 = []" by (auto simp: find_source_def split: if_splits sum.splits)
  show ?thesis
  proof (cases src)
    case (Inl e)
    with Some src acts0 show ?thesis by (simp add: engine_find_def Let_def)
  next
    case (Inr source)
    let ?v = "ew_validate w (validator_config va (requested_protocols ?reqs) (tr_groups ?reqs) False) (build_probe_gate (find_enforcer ?reqs))
      (fst (tee_recorder (requested_protocols ?reqs) [] source))"
    show ?thesis
    proof (cases ?v)
      case (Inl e)
      with Some src acts0 Inr show ?thesis by (simp add: engine_find_def Let_def)
    next
      case v: (Inr v)
      obtain sent room1 where sent: "send_one room (JudgeHealth (vl_healthy v) (vl_judges v)) = (sent, room1)" by fastforce
      obtain rows1 e1 room2 where l: "find_loop (run_filter spec) (oo_limit (sp_output spec)) room1 0 (find_enforcer ?reqs) (vl_items v) = (rows1, e1, room2)"
        by (metis prod_cases3)
      define cands where "cands = snd (tee_recorder (requested_protocols ?reqs) [] (take (vl_pulled v) source))"
      define second where "second \<longleftrightarrow> needs_fallback (has_any_quota (find_enforcer ?reqs)) e1 (tr_groups ?reqs \<noteq> [])
        (requested_protocols ?reqs \<noteq> []) (oo_limit (sp_output spec)) (length rows1) (vl_passed v) \<and> cands \<noteq> []"
      define r where "r = (if second then engine_second w room2 spec va ?reqs e1 cands (length rows1) (vl_passed v) (vl_done v - vl_passed v)
        else \<lparr>ro_actions = [], ro_room = room2, ro_result = Inr \<lparr>sm_gathered = find_gathered w va, sm_valid = length rows1,
          sm_failed = vl_done v - vl_passed v, sm_elapsed = ew_elapsed w\<rparr>\<rparr>)"
      have "rows_sent (ro_actions (engine_find w room spec)) = rows1 @ rows_sent (ro_actions r) \<and> ro_room (engine_find w room spec) = ro_room r"
        using Some src Inr v sent l acts0 note_rows(1) [OF sent]
        by (simp add: engine_find_def Let_def r_def second_def cands_def)
      moreover have "r = engine_second w room2 spec va ?reqs e1 cands (length rows1) (vl_passed v) (vl_done v - vl_passed v) \<or>
          ro_actions r = [] \<and> ro_room r = room2" by (simp add: r_def)
      ultimately show ?thesis using v sent l by blast
    qed
  qed
qed

lemma second_room: "ro_room (engine_second w None spec va reqs e1 cands emitted passed failed) = None"
  by (auto simp: engine_second_def Let_def split: sum.split prod.split dest: find_loop_none)

lemma find_room: "ro_room (engine_find w None spec) = None"
  using engine_find_shape [of w None spec] second_room by (auto dest!: find_loop_none)

lemma grab_room: "ro_room (engine_grab w None spec) = None"
  by (auto simp: engine_grab_def split: sum.split prod.split dest: grab_loop_none)

lemma drive_ends: "\<exists>act \<in> set (drive w None spec). ends_run act"
proof -
  let ?r = "if sp_validator spec \<noteq> None then engine_find w None spec else engine_grab w None spec"
  have "ro_room ?r = None" by (simp add: find_room grab_room)
  then show ?thesis unfolding drive_parts Let_def end_actions_def by (cases "ro_result ?r") (auto simp: ends_run_def)
qed

text \<open>C13: However the tasks of a run interleave, the interface ends with exactly the rows of the run in
  their order, those beyond its capacity counted, and the run over.\<close>

theorem interface_shows_run:
  assumes "run_trace w spec stages failures t" and "ap_results a = []" and "ap_overflow a = 0"
  shows "ap_results (show_run env t a) = take MAX_RESULTS (rows_sent (drive w None spec)) \<and>
    ap_overflow (show_run env t a) = length (rows_sent (drive w None spec)) - MAX_RESULTS \<and>
    ap_screen (show_run env t a) = Done \<and> ap_run (show_run env t a) = None"
proof -
  have "\<exists>act \<in> set t. ends_run act"
    using assms(1) drive_ends [of w spec] unfolding run_trace_def by (metis UnI1 set_shuffles)
  then show ?thesis using shown_results [of a env t] shown_end [of env t a] trace_rows [OF assms(1)] assms(2,3) by simp
qed

section \<open>The interface and the command line show the same\<close>

text \<open>C12: Over the same fetcher and validator and over both passes, an unsorted \<open>find\<close> in a format of one line
  per proxy writes exactly the rows the interface is sent, in the same order, and every run of the
  interface ends showing the first of them, up to its capacity, whatever the interleaving of its
  tasks; each ends with a failure of its own exactly when the second pass cannot be started.\<close>

theorem interface_finds_what_find_writes:
  assumes "sp_validator spec = Some va" and "snd (find_source w spec va) = Inr source" and "first_of_pass w va source = Inr v"
    and "sound_env env1 (sp_output spec)" and "sound_env env2 (sp_output spec)" and "ev_tty env2 = ev_tty env1"
    and "ev_json env2 = ev_json env1" and "ev_flush env1 = None" and "ev_flush env2 = None" and "\<not> buffered_path (sp_output spec)"
    and "line_format env1 (or_format (out_run_of env1 (sp_output spec)))"
  shows "let r = run_find (world_of w va source v env1 env2) (va_types va) (sp_output spec);
             fin = pass1_opts (split_type_requests (va_types va));
             rows = rows_sent (drive w None spec)
         in fr_text r = start_text env1 (sp_output spec) fin @ header_text env1 (sp_output spec) fin @
              rendered env1 (or_format (out_run_of env1 (sp_output spec))) 0 rows \<and>
            fr_rows r = length rows \<and>
            fr_outcome r = (case ro_result (engine_find w None spec) of Inr _ \<Rightarrow> Ok Finished | Inl _ \<Rightarrow> Err START_FAILED) \<and>
            (\<forall>stages failures t ui a. run_trace w spec stages failures t \<longrightarrow> ap_results a = [] \<longrightarrow>
               ap_results (show_run ui t a) = take MAX_RESULTS rows)"
proof -
  define o' reqs cw where defs: "o' = sp_output spec" "reqs = split_type_requests (va_types va)" "cw = world_of w va source v env1 env2"
  define fmt where fmt: "fmt = or_format (out_run_of env1 o')"
  have cw: "fw_env1 cw = env1" "fw_events1 cw = map Item (vl_items v)" "fw_passed1 cw = vl_passed v" "fw_candidates cw = recorded va source v"
    "fw_env2 cw = env2" by (simp_all add: defs world_of_def)
  obtain acts0 where src: "find_source w spec va = (acts0, Inr source)" using assms(2) by (cases "find_source w spec va") auto
  have acts0: "rows_sent acts0 = []" using src by (auto simp: find_source_def split: if_splits sum.splits)
  obtain rows1 e1 room where l1: "find_loop (run_filter spec) (oo_limit o') None 0 (find_enforcer reqs) (vl_items v) = (rows1, e1, room)"
    by (metis prod_cases3)
  from first_pass_lines [OF assms(4,10,11,8)] l1 obtain st1 where st1:
    "process_result env1 o' (pass1_opts reqs) (map Item (vl_items v)) = (Ok Finished, st1)" "os_rows st1 = length rows1" "os_quotas st1 = Some e1"
    "os_doc st1 = (if find_quotas reqs \<noteq> [] then Some (length rows1) else None)"
    "sk_text (os_sink st1) = start_text env1 o' (pass1_opts reqs) @ header_text env1 o' (pass1_opts reqs) @ rendered env1 fmt 0 rows1"
    unfolding defs fmt run_filter_def by blast
  define second where "second \<longleftrightarrow> needs_fallback (has_any_quota (find_enforcer reqs)) e1 (tr_groups reqs \<noteq> []) (find_quotas reqs \<noteq> []) (oo_limit o')
      (length rows1) (vl_passed v) \<and> recorded va source v \<noteq> []"
  have fb: "falls_back cw reqs o' st1 \<and> fw_candidates cw \<noteq> [] \<longleftrightarrow> second"
    using st1(3,4) no_quotas_no_fallback
    by (cases "find_quotas reqs = []") (simp_all add: falls_back_def emitted_so_far_def cw second_def)
  have fmt2: "or_format (out_run_of env2 o') = fmt" using assms(6) by (simp add: out_run_of_def defs fmt)
  have l3: "line_format env2 fmt" using assms(11) line_format_env [OF assms(7)] by (simp add: defs fmt)
  have nj: "\<not> is_json (effective_format (oo_format o') (oo_output_file o') (ev_tty (fw_env2 cw)))"
    unfolding cw(5) assms(6) using assms(11) by (simp add: line_format_def is_json_def out_run_of_def defs(1))
  note find = find_run [of env1 o' "va_types va" cw st1, unfolded cw(2), OF st1(1) [unfolded defs(2)] cw(1) nj, folded defs(2), unfolded fb]
  note engine = engine_find_run [OF assms(1) src assms(3) l1 [unfolded defs], unfolded Let_def, folded defs, folded second_def]
  have rows: "rows_sent (drive w None spec) = rows_sent (ro_actions (engine_find w None spec))"
    using assms(1) by (simp add: drive_parts Let_def)
  have shown: "ap_results (show_run ui t a) = take MAX_RESULTS (rows_sent (drive w None spec))"
    if "run_trace w spec stages failures t" "ap_results a = []" for stages failures t ui a
    using shown_results [of a ui t] that trace_rows by simp
  consider (one) "\<not> second" | (failed) e where second "second_of w va (recorded va source v) = Inl e"
    | (two) v2 where second "second_of w va (recorded va source v) = Inr v2"
    by (cases "second_of w va (recorded va source v)") blast+
  then show ?thesis
  proof cases
    case one
    with rows engine find st1 acts0 show ?thesis by (simp add: Let_def shown flip: defs fmt)
  next
    case failed
    then have "fw_start2 cw = Start_failed" by (simp add: defs world_of_def)
    with failed rows engine find st1 acts0 cw show ?thesis
      by (simp add: Let_def shown second_pass_def engine_second_def second_def flip: defs fmt second_of_def [of w va, folded defs])
  next
    case two
    then have fq: "find_quotas reqs \<noteq> []" unfolding second_def using no_quotas_no_fallback by metis
    let ?lim = "second_limit (oo_limit o') (has_any_quota (find_enforcer reqs)) (length rows1) (vl_passed v)"
    obtain rows2 e2 room2 where l2: "find_loop (run_filter spec) ?lim None 0 e1 (vl_items v2) = (rows2, e2, room2)" by (metis prod_cases3)
    have lim: "pass2_limit cw (has_any_quota (find_enforcer reqs)) (oo_limit o') st1 = ?lim"
      using st1(4) fq by (simp add: pass2_limit_def second_limit_def emitted_so_far_def cw)
    have w2: "fw_start2 cw = Started" "fw_events2 cw = map Item (vl_items v2)" using two by (simp_all add: defs world_of_def)
    have "second_pass cw reqs o' st1 =
        \<lparr>fr_outcome = Ok Finished, fr_text = sk_text (os_sink st1) @ rendered env2 fmt 0 rows2, fr_rows = os_rows st1 + length rows2\<rparr>"
      using second_pass_lines [of cw o' st1 "length rows1" e1 "vl_items v2" reqs rows2 e2 room2] assms(5,9,10) l3 st1(3,4) fq two(1) w2 l2 lim fmt2
      by (simp add: cw run_filter_def second_def flip: defs fmt)
    moreover have "rendered env2 fmt 0 rows2 = rendered env1 fmt (length rows1) rows2"
      by (rule line_format_rendered) (use l3 fmt2 assms(7) in \<open>simp_all add: cw\<close>)
    moreover have "ew_validate w (validator_config va (requested_protocols reqs) [] True) (build_probe_gate (find_enforcer reqs)) (recorded va source v) = Inr v2"
      using two(2) by (simp add: second_of_def defs)
    ultimately show ?thesis using two(1) find engine rows acts0 st1(2,5) l2
      by (simp add: Let_def shown engine_second_def rendered_append flip: defs fmt)
  qed
qed

section \<open>Scores\<close>

definition no_scores :: "proxy list \<Rightarrow> bool" where
  "no_scores ps \<longleftrightarrow> list_all (\<lambda>p. px_score p = None) ps"

lemma no_scores_dropped: "oo_min_score (sp_output spec) = Some s \<Longrightarrow> px_score p = None \<Longrightarrow> \<not> filter_matches (run_filter spec) p"
  by (simp add: run_filter_def filter_matches_def filter_from_options_def filter_options_def)

lemma no_scores_grab:
  "oo_min_score (sp_output spec) = Some s \<Longrightarrow> no_scores ps \<Longrightarrow> grab_loop (run_filter spec) limit room emitted ps = ([], room)"
  by (induction ps) (simp_all add: no_scores_def no_scores_dropped)

lemma no_scores_find:
  "oo_min_score (sp_output spec) = Some s \<Longrightarrow> no_scores ps \<Longrightarrow> find_loop (run_filter spec) limit room emitted e ps = ([], e, room)"
  by (induction ps) (simp_all add: no_scores_def no_scores_dropped)

text \<open>The interface opens no health store, so no proxy it meets has a score and with a minimum score
  both of its modes show nothing.\<close>

theorem minimum_score_shows_nothing:
  assumes "oo_min_score (sp_output spec) = Some s"
    and "\<And>cfg ps. ew_fetch w cfg = Inr ps \<Longrightarrow> no_scores ps"
    and "\<And>cfg gate ps v. ew_validate w cfg gate ps = Inr v \<Longrightarrow> no_scores (vl_items v)"
  shows "rows_sent (drive w room spec) = []"
proof -
  have two: "rows_sent (ro_actions (engine_second w r spec va reqs e c i j k)) = []" for r va reqs e c i j k
    using assms(3) no_scores_find [OF assms(1)] note_rows(2)
    by (auto simp: engine_second_def Let_def split: sum.split prod.split)
  have "rows_sent (ro_actions (engine_find w room spec)) = []"
    using engine_find_shape [of w room spec] two assms(3) no_scores_find [OF assms(1)] by fastforce
  moreover have "rows_sent (ro_actions (engine_grab w room spec)) = []"
    using assms(2) no_scores_grab [OF assms(1)] by (auto simp: engine_grab_def split: sum.split)
  ultimately show ?thesis by (simp add: drive_parts Let_def)
qed

section \<open>Phases\<close>

definition live_run :: "nat \<Rightarrow> run_action list \<Rightarrow> live_state \<Rightarrow> live_state" where
  "live_run now t s = foldl (\<lambda>s act. live_step now act s) s t"

text \<open>When the fetcher of a find run ends while the first pass is validating, the phase the header
  shows goes back to the check of the judges and stays there.\<close>

lemma late_stage_wins:
  "lv_phase (live_run now (pre @ [EnterPhase (ValidatingPass 1)] @ mid @ relay_stages CheckingJudges [StageDone]) s) = CheckingJudges"
  by (simp add: live_run_def live_step_def enter_phase_def)

section \<open>Examples\<close>

text \<open>A fetcher of one proxy, and a validator that lets every candidate pass.\<close>

definition demo_engine :: engine_world where
  "demo_engine = \<lparr>ew_fetch = (\<lambda>_. Inr [demo_found]), ew_files = (\<lambda>_. Inr []),
     ew_validate = (\<lambda>_ _ ps. Inr \<lparr>vl_items = ps, vl_pulled = length ps, vl_done = 1, vl_passed = length ps, vl_healthy = 1, vl_judges = 1\<rparr>),
     ew_accepted = 1, ew_elapsed = 7\<rparr>"

definition demo_args :: validator_args where
  "demo_args = \<lparr>va_types = [''HTTP''], va_max_connections = 1, va_max_attempts = 1, va_retry_delay_ms = 0, va_timeout = 8,
     va_http_judge_urls = [], va_https_judge_urls = [], va_no_verify_tls = False, va_support_cookies = False,
     va_support_referer = False, va_report_failures = None, va_files = []\<rparr>"

definition demo_find_spec :: run_spec where
  "demo_find_spec = demo_spec\<lparr>sp_validator := Some demo_args\<rparr>"

definition demo_checked :: validation where
  "demo_checked = \<lparr>vl_items = [demo_found], vl_pulled = 1, vl_done = 1, vl_passed = 1, vl_healthy = 1, vl_judges = 1\<rparr>"

theorem interface_finds_what_find_writes_witness:
  "fr_rows (run_find (world_of demo_engine demo_args [demo_found] demo_checked demo_env demo_env) [''HTTP''] (demo_output ''text'' 1))
     = length (rows_sent (drive demo_engine None demo_find_spec))"
proof -
  have "sp_validator demo_find_spec = Some demo_args" "sp_output demo_find_spec = demo_output ''text'' 1" "va_types demo_args = [''HTTP'']"
    by (simp_all add: demo_find_spec_def demo_spec_def demo_args_def)
  moreover have "snd (find_source demo_engine demo_find_spec demo_args) = Inr [demo_found]"
    by (simp add: find_source_def demo_engine_def demo_args_def)
  moreover have "first_of_pass demo_engine demo_args [demo_found] = Inr demo_checked"
    by (simp add: first_of_pass_def Let_def demo_engine_def demo_checked_def)
  moreover have "sound_env demo_env (demo_output ''text'' 1)" "\<not> buffered_path (demo_output ''text'' 1)"
      "line_format demo_env (or_format (out_run_of demo_env (demo_output ''text'' 1)))" "ev_flush demo_env = None"
    by (simp_all add: sound_env_def demo_env_def demo_output_def is_json_def out_run_of_def effective_format_def buffered_path_def line_format_def)
  ultimately show ?thesis
    using interface_finds_what_find_writes [of demo_find_spec demo_args demo_engine "[demo_found]" demo_checked demo_env demo_env]
    by (simp add: Let_def)
qed

theorem interface_shows_run_witness:
  "ap_screen (show_run demo_ui (drive demo_engine None demo_spec) demo_start) = Done"
proof -
  have t: "run_trace demo_engine demo_spec [] [] (drive demo_engine None demo_spec)"
    unfolding run_trace_def relay_failures_def by simp
  have "ap_overflow demo_start = 0"
    by (simp add: demo_start_def begin_app_def app_new_def begin_run_def spawn_run_def replace_run_def perform_def)
  with interface_shows_run [OF t] demo_start_fields show ?thesis by simp
qed

theorem minimum_score_shows_nothing_witness:
  "rows_sent (drive (demo_engine\<lparr>ew_validate := \<lambda>_ _ _. Inr demo_checked\<rparr>) None
     (demo_find_spec\<lparr>sp_output := (demo_output ''text'' 1)\<lparr>oo_min_score := Some (Fin 1)\<rparr>\<rparr>)) = []"
proof -
  have "px_score demo_found = None" by (simp add: demo_found_def proxy_new_def)
  then show ?thesis
    by (intro minimum_score_shows_nothing [where s = "Fin 1"]) (auto simp: demo_engine_def demo_checked_def no_scores_def)
qed

end
