(* ===== verification/Tui_Export.thy ===== *)
theory Tui_Export
  imports Cli_Find
begin

text \<open>
  The export of the rows in view to a file (\<open>src/cli/tui/export.rs\<close>), in the formats of the command
  line. Writing a JSON value and printing a float are arguments, as are the failures of the file system.
\<close>

section \<open>The model\<close>

record export_env =
  xe_create :: "string option"
  xe_write :: "string option"
  xe_json :: "json \<Rightarrow> string"
  xe_pretty :: "json \<Rightarrow> string"
  xe_float :: "f64 \<Rightarrow> string"

definition EXPORT_CSV_HEADER :: string where
  "EXPORT_CSV_HEADER = ''ip,port,protocol,anonymity,country,ip_type,asn,average_response_time''"

text \<open>\<open>Path::extension\<close> of a path in UTF-8.\<close>

definition infer_format :: "string \<Rightarrow> string \<Rightarrow> string" where
  "infer_format format path =
     (if format \<noteq> ''default'' then format
      else (case path_extension path of
              None \<Rightarrow> ''default''
            | Some ext \<Rightarrow>
                (if ext = ''json'' then ''json''
                 else if ext = ''jsonl'' then ''json-lines''
                 else if ext = ''csv'' then ''csv''
                 else if ext = ''pac'' then ''pac''
                 else if ext = ''txt'' then ''text''
                 else ''default'')))"

text \<open>\<open>max_by_key\<close> keeps the last of the greatest.\<close>

fun best_level :: "proxy_type list \<Rightarrow> anonymity option \<Rightarrow> anonymity option" where
  "best_level [] best = best"
| "best_level (t # ts) best =
     best_level ts
       (case pt_protocol t of
          Http a \<Rightarrow> (case best of None \<Rightarrow> Some a | Some b \<Rightarrow> Some (if rank b \<le> rank a then a else b))
        | Https a \<Rightarrow> (case best of None \<Rightarrow> Some a | Some b \<Rightarrow> Some (if rank b \<le> rank a then a else b))
        | _ \<Rightarrow> best)"

definition anonymity_of :: "proxy \<Rightarrow> string" where
  "anonymity_of p =
     (case best_level (proxy_types p) None of
        Some Elite \<Rightarrow> ''elite''
      | Some Anonymous \<Rightarrow> ''anonymous''
      | Some Transparent \<Rightarrow> ''transparent''
      | Some Unknown \<Rightarrow> ''unknown''
      | None \<Rightarrow> ''unknown'')"

definition first_protocol :: "proxy \<Rightarrow> protocol option" where
  "first_protocol p = (case proxy_types p of [] \<Rightarrow> None | t # _ \<Rightarrow> Some (pt_protocol t))"

definition protocol_of :: "proxy \<Rightarrow> string" where
  "protocol_of p =
     (case (case first_protocol p of Some q \<Rightarrow> Some q | None \<Rightarrow> (case expected_types p of [] \<Rightarrow> None | q # _ \<Rightarrow> Some q)) of
        Some (Http _) \<Rightarrow> ''http''
      | Some (Https _) \<Rightarrow> ''https''
      | Some Socks4 \<Rightarrow> ''socks4''
      | Some Socks5 \<Rightarrow> ''socks5''
      | Some (Connect port) \<Rightarrow> ''connect:'' @ show_nat (unat port)
      | None \<Rightarrow> ''unknown'')"

definition ip_type_of :: "proxy \<Rightarrow> string" where
  "ip_type_of p =
     (case geo_ip_type (px_geo p) of
        Residential \<Rightarrow> ''residential''
      | Datacenter \<Rightarrow> ''datacenter''
      | Mobile \<Rightarrow> ''mobile''
      | UnknownIp \<Rightarrow> ''unknown'')"

definition write_csv_row :: "export_env \<Rightarrow> proxy \<Rightarrow> string" where
  "write_csv_row env p =
     show_ipv4 (px_ip p) @ '','' @ show_nat (unat (px_port p)) @ '','' @ protocol_of p @ '','' @ anonymity_of p @ '','' @
     from_option (iso_code (px_geo p)) @ '','' @ ip_type_of p @ '','' @
     (case geo_asn (px_geo p) of Some asn \<Rightarrow> show_nat (unat asn) | None \<Rightarrow> []) @ '','' @ xe_float env (avg_response_time p) @ [linefeed]"

definition export_scheme :: "proxy \<Rightarrow> string" where
  "export_scheme p =
     (case first_protocol p of
        Some (Https _) \<Rightarrow> ''https''
      | Some Socks4 \<Rightarrow> ''socks4''
      | Some Socks5 \<Rightarrow> ''socks5''
      | _ \<Rightarrow> ''http'')"

definition export_chain_type :: "proxy \<Rightarrow> string" where
  "export_chain_type p =
     (case first_protocol p of
        Some Socks4 \<Rightarrow> ''socks4''
      | Some Socks5 \<Rightarrow> ''socks5''
      | _ \<Rightarrow> ''http'')"

definition export_text :: "export_env \<Rightarrow> string \<Rightarrow> proxy list \<Rightarrow> string" where
  "export_text env format ps =
     (if format = ''text'' then concat (map (\<lambda>p. px_text p @ [linefeed]) ps)
      else if format = ''json'' then xe_json env (JArr (map proxy_json ps)) @ [linefeed]
      else if format = ''pretty-json'' then xe_pretty env (JArr (map proxy_json ps)) @ [linefeed]
      else if format = ''json-lines'' then concat (map (\<lambda>p. xe_json env (proxy_json p) @ [linefeed]) ps)
      else if format = ''csv'' then EXPORT_CSV_HEADER @ [linefeed] @ concat (map (write_csv_row env) ps)
      else if format = ''prefix'' then
        concat (map (\<lambda>p. export_scheme p @ ''://'' @ show_ipv4 (px_ip p) @ '':'' @ show_nat (unat (px_port p)) @ [linefeed]) ps)
      else if format = ''proxychains'' then
        concat (map (\<lambda>p. export_chain_type p @ '' '' @ show_ipv4 (px_ip p) @ '' '' @ show_nat (unat (px_port p)) @ [linefeed]) ps)
      else concat (map (\<lambda>p. show_proxy p @ [linefeed]) ps))"

text \<open>The rows written and the text of the file, or the failure.\<close>

definition write_export :: "export_env \<Rightarrow> string \<Rightarrow> string \<Rightarrow> proxy list \<Rightarrow> string + nat \<times> string" where
  "write_export env path format ps =
     (if infer_format format path = ''pac'' then Inl ''pac export is not available from the TUI yet; use `flx find -f pac -o proxy.pac`''
      else (case xe_create env of
              Some e \<Rightarrow> Inl (''cannot create '' @ path @ '': '' @ e)
            | None \<Rightarrow> (case xe_write env of
                Some e \<Rightarrow> Inl e
              | None \<Rightarrow> Inr (length ps, export_text env (infer_format format path) ps))))"

section \<open>The export and the command line\<close>

lemma rendered_lines: "(\<And>n p. render_item out f n p = Some (g p)) \<Longrightarrow> rendered out f n ps = concat (map g ps)"
  by (induction ps arbitrary: n) (simp_all add: rendered_Cons)

text \<open>The file of an export is what the command line writes of the same proxies, in the formats that are
  one line per proxy without a scheme: the text, the default and the JSON lines.\<close>

theorem export_writes_cli_lines:
  assumes "infer_format format path \<in> {''text'', ''default'', ''json-lines''}" and "xe_create env = None" and "xe_write env = None"
    and "ev_json out = (\<lambda>v. Some (xe_json env v))"
  shows "write_export env path format ps = Inr (length ps, rendered out (infer_format format path) 0 ps)"
proof -
  have "export_text env ''text'' ps = rendered out ''text'' 0 ps" by (simp add: export_text_def rendered_lines render_item_def)
  moreover have "export_text env ''default'' ps = rendered out ''default'' 0 ps" by (simp add: export_text_def rendered_lines render_item_def)
  moreover have "export_text env ''json-lines'' ps = rendered out ''json-lines'' 0 ps"
    using assms(4) by (simp add: export_text_def rendered_lines render_item_def)
  ultimately show ?thesis using assms(1-3) by (elim insertE emptyE) (simp_all add: write_export_def)
qed

theorem export_writes_cli_lines_witness:
  "write_export \<lparr>xe_create = None, xe_write = None, xe_json = (\<lambda>_. ''{}''), xe_pretty = (\<lambda>_. ''{}''), xe_float = (\<lambda>_. ''0'')\<rparr>
     ''found.jsonl'' ''default'' [demo_found] = Inr (1, rendered demo_env ''json-lines'' 0 [demo_found])"
proof -
  have "infer_format ''default'' ''found.jsonl'' = ''json-lines''" by code_simp
  then show ?thesis
    using export_writes_cli_lines [of "''default''" "''found.jsonl''"
        "\<lparr>xe_create = None, xe_write = None, xe_json = (\<lambda>_. ''{}''), xe_pretty = (\<lambda>_. ''{}''), xe_float = (\<lambda>_. ''0'')\<rparr>" demo_env "[demo_found]"]
    by (simp add: demo_env_def)
qed

text \<open>In the other line formats the scheme is that of the first confirmed protocol, where the command line
  looks for a SOCKS protocol first and never says \<open>https\<close>.\<close>

lemma export_scheme_agrees:
  "proxy_types p = [t] \<Longrightarrow> (\<forall>a. pt_protocol t \<noteq> Https a) \<Longrightarrow> export_scheme p = prefix_scheme p"
  "proxy_types p = [t] \<Longrightarrow> export_chain_type p = proxychains_type p"
  by (cases "pt_protocol t"; simp add: export_scheme_def prefix_scheme_def first_protocol_def export_chain_type_def proxychains_type_def)+

definition demo_mixed :: proxy where
  "demo_mixed = demo_found\<lparr>proxy_types := [proxy_type_new (Http Elite), proxy_type_new Socks5]\<rparr>"

definition demo_secure :: proxy where
  "demo_secure = demo_found\<lparr>proxy_types := [proxy_type_new (Https Elite)]\<rparr>"

text \<open>A proxy confirmed for HTTP and then SOCKS5 is exported with the scheme \<open>http\<close> and written with
  \<open>socks5\<close> by the command line; one confirmed for HTTPS is exported with \<open>https\<close>, which the command line writes
  as \<open>http\<close>.\<close>

theorem export_schemes_differ:
  "export_scheme demo_mixed = ''http'' \<and> prefix_scheme demo_mixed = ''socks5'' \<and>
   export_chain_type demo_mixed = ''http'' \<and> proxychains_type demo_mixed = ''socks5'' \<and>
   export_scheme demo_secure = ''https'' \<and> prefix_scheme demo_secure = ''http''"
  by (simp add: demo_mixed_def demo_secure_def export_scheme_def prefix_scheme_def export_chain_type_def proxychains_type_def
      first_protocol_def proxy_type_new_def)

section \<open>Rows of the table\<close>

lemma no_special: "list_all (\<lambda>c. \<not> csv_special c) (protocol_of p)" "list_all (\<lambda>c. \<not> csv_special c) (anonymity_of p)"
    "list_all (\<lambda>c. \<not> csv_special c) (ip_type_of p)"
  using nat_plain
  by (auto simp: protocol_of_def anonymity_of_def ip_type_of_def csv_special_def dquote_def linefeed_def carriage_def
      split: option.split protocol.split anonymity.split ip_type.split list.split)

text \<open>A row of the exported table reads back as its eight fields, whatever the proxy was confirmed for, as long
  as the code of its country needs no quotes, which the export does not write.\<close>

theorem export_row_reads_back:
  assumes "list_all (\<lambda>c. \<not> csv_special c) (from_option (iso_code (px_geo p)))"
    and "list_all (\<lambda>c. \<not> csv_special c) (xe_float env (avg_response_time p))"
  shows "csv_read False [] (butlast (write_csv_row env p)) =
    [show_ipv4 (px_ip p), show_nat (unat (px_port p)), protocol_of p, anonymity_of p, from_option (iso_code (px_geo p)), ip_type_of p,
     (case geo_asn (px_geo p) of Some asn \<Rightarrow> show_nat (unat asn) | None \<Rightarrow> []), xe_float env (avg_response_time p)]"
proof -
  have asn: "list_all (\<lambda>c. \<not> csv_special c) (case geo_asn (px_geo p) of Some asn \<Rightarrow> show_nat (unat asn) | None \<Rightarrow> [])"
    using nat_plain by (simp split: option.split)
  show ?thesis
    by (simp add: write_csv_row_def butlast_append csv_read_plain [OF ipv4_plain] csv_read_plain [OF nat_plain] csv_read_plain [OF no_special(1)]
        csv_read_plain [OF no_special(2)] csv_read_plain [OF no_special(3)] csv_read_plain [OF assms(1)] csv_read_plain [OF asn]
        csv_read_plain_end [OF assms(2)])
qed

theorem export_row_reads_back_witness:
  "length (csv_read False [] (butlast (write_csv_row
     \<lparr>xe_create = None, xe_write = None, xe_json = (\<lambda>_. ''{}''), xe_pretty = (\<lambda>_. ''{}''), xe_float = (\<lambda>_. ''0.5'')\<rparr> demo_mixed))) = 8"
  using export_row_reads_back [of demo_mixed
      "\<lparr>xe_create = None, xe_write = None, xe_json = (\<lambda>_. ''{}''), xe_pretty = (\<lambda>_. ''{}''), xe_float = (\<lambda>_. ''0.5'')\<rparr>"]
  by (simp add: demo_mixed_def demo_found_def proxy_new_def from_option_def geo_default_def csv_special_def dquote_def linefeed_def carriage_def)

end
