(* ===== verification/Public_Ip.thy ===== *)
theory Public_Ip
  imports Rust_Ipv6 Net_Wire Body_Fetch
begin

text \<open>
  Finding the public address (\<open>src/resolver.rs\<close>): the DNS queries and the parsing of their answers, the
  bodies of the HTTP endpoints, the race of the sources and the file that keeps the last address.
  Messages are lists of bytes; an index out of range is \<open>Panic\<close>. Sockets, clocks and files are arguments.
\<close>

unbundle bit_operations_syntax

section \<open>Constants\<close>

definition MAX_IP_BODY_BYTES :: nat where "MAX_IP_BODY_BYTES = 64"

text \<open>In nanoseconds.\<close>

definition PUBLIC_IP_CACHE_TTL :: nat where "PUBLIC_IP_CACHE_TTL = 24 * 60 * 60 * 1000000000"

definition DNS_TYPE_A :: u16 where "DNS_TYPE_A = 1"

definition DNS_TYPE_TXT :: u16 where "DNS_TYPE_TXT = 16"

definition DNS_CLASS_IN :: u16 where "DNS_CLASS_IN = 1"

definition DNS_IP_SOURCES :: "(ipv4 \<times> string \<times> u16) list" where
  "DNS_IP_SOURCES =
     [(Ipv4 8 8 8 8, ''whoami.akamai.net'', DNS_TYPE_A), (Ipv4 216 239 32 10, ''o-o.myaddr.l.google.com'', DNS_TYPE_TXT)]"

definition DNS_HEADER_LEN :: nat where "DNS_HEADER_LEN = 12"

definition DNS_MAX_NAME_LEN :: nat where "DNS_MAX_NAME_LEN = 255"

definition DNS_MAX_LABEL_LEN :: nat where "DNS_MAX_LABEL_LEN = 63"

definition DNS_QUESTION_TAIL_LEN :: nat where "DNS_QUESTION_TAIL_LEN = 4"

definition DNS_ANSWER_FIXED_LEN :: nat where "DNS_ANSWER_FIXED_LEN = 10"

definition DNS_QUERY_BUFFER_LEN :: nat where
  "DNS_QUERY_BUFFER_LEN = DNS_HEADER_LEN + DNS_MAX_NAME_LEN + DNS_QUESTION_TAIL_LEN"

definition DNS_RESPONSE_BUFFER_LEN :: nat where "DNS_RESPONSE_BUFFER_LEN = 512"

definition DNS_QUERY_FLAGS :: u16 where "DNS_QUERY_FLAGS = 0x0100"

definition DNS_FLAG_QR :: u16 where "DNS_FLAG_QR = 0x8000"

definition DNS_FLAG_TC :: u16 where "DNS_FLAG_TC = 0x0200"

definition DNS_RCODE_MASK :: u16 where "DNS_RCODE_MASK = 0x000F"

lemmas dns_lengths = DNS_HEADER_LEN_def DNS_MAX_NAME_LEN_def DNS_MAX_LABEL_LEN_def DNS_QUESTION_TAIL_LEN_def
  DNS_ANSWER_FIXED_LEN_def DNS_QUERY_BUFFER_LEN_def

section \<open>Queries\<close>

text \<open>The identifier of the next query: a counter mixed with the clock. The counter wraps.\<close>

definition next_dns_query_id :: "u16 \<Rightarrow> nat \<Rightarrow> u16 \<times> u16" where
  "next_dns_query_id counter nanos = (counter XOR of_nat nanos, counter + 1)"

text \<open>The labels are appended to the bytes written so far; the buffer has a fixed size.\<close>

fun push_labels :: "u8 list \<Rightarrow> string list \<Rightarrow> (u8 list, string) outcome" where
  "push_labels out [] = Ok out"
| "push_labels out (label # labels) =
     (if label = [] then Err ''empty DNS label''
      else if DNS_MAX_LABEL_LEN < length label then Err ''DNS label exceeds 63 bytes''
      else if DNS_QUERY_BUFFER_LEN < length out + 1 + length label + 1 + DNS_QUESTION_TAIL_LEN
      then Err ''DNS name exceeds the 255-byte wire limit''
      else push_labels (out @ of_nat (length label) # bytes_of label) labels)"

definition query_header :: "u16 \<Rightarrow> u8 list" where
  "query_header query_id = to_be16 query_id @ to_be16 DNS_QUERY_FLAGS @ to_be16 1 @ replicate 6 0"

definition build_dns_query :: "string \<Rightarrow> u16 \<Rightarrow> u16 \<Rightarrow> (u8 list, string) outcome" where
  "build_dns_query domain qtype query_id =
     and_then (push_labels (query_header query_id) (split_by ((=) (CHR ''.'')) domain)) (\<lambda>out.
       Ok (out @ [0] @ to_be16 qtype @ to_be16 DNS_CLASS_IN))"

section \<open>Answers\<close>

definition msg_byte :: "u8 list \<Rightarrow> nat \<Rightarrow> (u8, string) outcome" where
  "msg_byte m i = (if i < length m then Ok (m ! i) else Panic)"

definition u16_at :: "u8 list \<Rightarrow> nat \<Rightarrow> (u16, string) outcome" where
  "u16_at m i = and_then (msg_byte m i) (\<lambda>a. and_then (msg_byte m (i + 1)) (\<lambda>b. Ok (be16 a b)))"

function skip_dns_name :: "u8 list \<Rightarrow> nat \<Rightarrow> nat option" where
  "skip_dns_name m offset =
     (if length m \<le> offset then None
      else if m ! offset AND 0xC0 = 0xC0 then Some (offset + 2)
      else if m ! offset = 0 then Some (offset + 1)
      else skip_dns_name m (offset + 1 + unat (m ! offset)))"
  by pat_completeness auto
termination
  by (relation "measure (\<lambda>(m, offset). length m - offset)") auto

declare skip_dns_name.simps [simp del]

fun skip_questions :: "nat \<Rightarrow> u8 list \<Rightarrow> nat \<Rightarrow> (nat, string) outcome" where
  "skip_questions 0 m offset = Ok offset"
| "skip_questions (Suc n) m offset =
     (case skip_dns_name m offset of
        None \<Rightarrow> Err ''malformed name in question''
      | Some next \<Rightarrow>
          (if length m < next + DNS_QUESTION_TAIL_LEN then Err ''question section overruns the response''
           else skip_questions n m (next + DNS_QUESTION_TAIL_LEN)))"

definition answers_offset :: "u8 list \<Rightarrow> u16 \<Rightarrow> (nat \<times> u16, string) outcome" where
  "answers_offset m query_id =
     (if length m < DNS_HEADER_LEN then Err ''DNS response is shorter than its header''
      else and_then (u16_at m 0) (\<lambda>id.
        if id \<noteq> query_id then Err ''DNS response id does not match query id''
        else and_then (u16_at m 2) (\<lambda>flags.
          if flags AND DNS_FLAG_QR = 0 then Err ''DNS reply is not a response''
          else if flags AND DNS_FLAG_TC \<noteq> 0 then Err ''DNS response was truncated''
          else if flags AND DNS_RCODE_MASK \<noteq> 0 then Err ''DNS server returned rcode''
          else and_then (u16_at m 4) (\<lambda>questions.
            and_then (u16_at m 6) (\<lambda>answers.
              and_then (skip_questions (unat questions) m DNS_HEADER_LEN) (\<lambda>offset. Ok (offset, answers)))))))"

text \<open>\<open>message.get(offset..offset + DNS_ANSWER_FIXED_LEN)\<close>, read as type, length and the bounds of the data.\<close>

definition record_at :: "u8 list \<Rightarrow> nat \<Rightarrow> (u16 \<times> nat \<times> nat, string) outcome" where
  "record_at m offset =
     (case skip_dns_name m offset of
        None \<Rightarrow> Err ''malformed name in answer''
      | Some start \<Rightarrow>
          (if length m < start + DNS_ANSWER_FIXED_LEN then Err ''answer header overruns the response''
           else and_then (u16_at m start) (\<lambda>kind. and_then (u16_at m (start + 8)) (\<lambda>len.
             let rdata = start + DNS_ANSWER_FIXED_LEN
             in if length m < rdata + unat len then Err ''answer record overruns the response''
                else Ok (kind, rdata, rdata + unat len)))))"

fun a_answers :: "nat \<Rightarrow> u8 list \<Rightarrow> nat \<Rightarrow> (ipv4, string) outcome" where
  "a_answers 0 m offset = Err ''DNS response carried no A record''"
| "a_answers (Suc n) m offset =
     and_then (record_at m offset) (\<lambda>(kind, rdata, rdata_end).
       if kind = DNS_TYPE_A \<and> rdata_end - rdata = 4
       then and_then (msg_byte m rdata) (\<lambda>a. and_then (msg_byte m (rdata + 1)) (\<lambda>b.
              and_then (msg_byte m (rdata + 2)) (\<lambda>c. and_then (msg_byte m (rdata + 3)) (\<lambda>d. Ok (Ipv4 a b c d)))))
       else a_answers n m rdata_end)"

definition parse_dns_a_response :: "u8 list \<Rightarrow> u16 \<Rightarrow> (ipv4, string) outcome" where
  "parse_dns_a_response m query_id =
     and_then (answers_offset m query_id) (\<lambda>(offset, answers). a_answers (unat answers) m offset)"

definition text_of_bytes :: "u8 list \<Rightarrow> string" where
  "text_of_bytes bs = map (\<lambda>b. char_of (unat b)) bs"

definition ip_text :: "u8 list \<Rightarrow> (ip_addr, string) outcome" where
  "ip_text bs =
     (if \<not> valid_utf8 bs then Err ''not valid UTF-8''
      else ok_or ''not a valid IP'' (parse_ip (trim (text_of_bytes bs))))"

fun txt_answers :: "nat \<Rightarrow> u8 list \<Rightarrow> nat \<Rightarrow> (ip_addr, string) outcome" where
  "txt_answers 0 m offset = Err ''DNS response carried no TXT record''"
| "txt_answers (Suc n) m offset =
     and_then (record_at m offset) (\<lambda>(kind, rdata, rdata_end).
       if kind = DNS_TYPE_TXT \<and> 1 \<le> rdata_end - rdata
       then and_then (msg_byte m rdata) (\<lambda>len.
              if rdata + 1 + unat len \<le> rdata_end then ip_text (take (unat len) (drop (rdata + 1) m))
              else txt_answers n m rdata_end)
       else txt_answers n m rdata_end)"

definition parse_dns_txt_response :: "u8 list \<Rightarrow> u16 \<Rightarrow> (ip_addr, string) outcome" where
  "parse_dns_txt_response m query_id =
     and_then (answers_offset m query_id) (\<lambda>(offset, answers). txt_answers (unat answers) m offset)"

text \<open>One lookup: the network's answer to the query, a datagram cut at the size of the buffer, or None.\<close>

definition dns_ip_lookup :: "(u8 list \<Rightarrow> u8 list option) \<Rightarrow> string \<Rightarrow> u16 \<Rightarrow> u16 \<Rightarrow> (ip_addr, string) outcome" where
  "dns_ip_lookup network domain qtype query_id =
     and_then (build_dns_query domain qtype query_id) (\<lambda>query.
       case network query of
         None \<Rightarrow> Err ''DNS lookup failed''
       | Some datagram \<Rightarrow>
           (let message = take DNS_RESPONSE_BUFFER_LEN datagram
            in if qtype = DNS_TYPE_A then and_then (parse_dns_a_response message query_id) (\<lambda>ip. Ok (V4 ip))
               else if qtype = DNS_TYPE_TXT then parse_dns_txt_response message query_id
               else Err ''unsupported DNS query type''))"

section \<open>HTTP endpoints\<close>

definition parse_ip_body :: "u8 list \<Rightarrow> (ip_addr, string) outcome" where
  "parse_ip_body body = (if MAX_IP_BODY_BYTES < length body then Err ''response too long'' else ip_text body)"

text \<open>The frames of a body, in order; a frame that cannot be read is None.\<close>

fun read_ip_frames :: "u8 list \<Rightarrow> u8 list option list \<Rightarrow> (u8 list, string) outcome" where
  "read_ip_frames bytes [] = Ok bytes"
| "read_ip_frames bytes (None # frames) = Err ''body was interrupted''"
| "read_ip_frames bytes (Some chunk # frames) =
     (if MAX_IP_BODY_BYTES < length bytes + length chunk then Err ''response too long''
      else read_ip_frames (bytes @ chunk) frames)"

definition fetch_ip_endpoint :: "(nat \<times> u8 list option list) option \<Rightarrow> (ip_addr, string) outcome" where
  "fetch_ip_endpoint response =
     (case response of
        None \<Rightarrow> Err ''request failed''
      | Some (status, frames) \<Rightarrow>
          (if 200 \<le> status \<and> status < 300 then and_then (read_ip_frames [] frames) parse_ip_body
           else Err ''bad status''))"

section \<open>The race and the file\<close>

text \<open>The results in the order in which they arrive: the first success, or all errors.\<close>

fun race :: "string list \<Rightarrow> ('a, string) outcome list \<Rightarrow> ('a, string) outcome" where
  "race errors [] = Err (join ''; '' errors)"
| "race errors (r # rs) =
     (case r of Ok ip \<Rightarrow> Ok ip | Err e \<Rightarrow> race (errors @ [e]) rs | Panic \<Rightarrow> Panic)"

text \<open>The file: its age in nanoseconds (None when the clock is before it) and its text, when it is readable.\<close>

type_synonym ip_file = "(nat option \<times> string option) option"

definition load_cached_public_ip :: "ip_file \<Rightarrow> string option" where
  "load_cached_public_ip file =
     (case file of
        Some (Some age, Some body) \<Rightarrow>
          (if PUBLIC_IP_CACHE_TTL < age then None
           else if parse_ip (trim body) \<noteq> None then Some (trim body) else None)
      | _ \<Rightarrow> None)"

definition stored_ip :: "string \<Rightarrow> string" where
  "stored_ip ip = ip @ [char_of (10 :: nat)]"

text \<open>The result and the text the file has afterwards, when it was written.\<close>

definition resolve_public_ip :: "(string, string) outcome \<Rightarrow> ip_file \<Rightarrow> (string, string) outcome \<times> string option" where
  "resolve_public_ip live file =
     (case live of
        Ok ip \<Rightarrow> (Ok ip, Some (stored_ip ip))
      | Err e \<Rightarrow> (case load_cached_public_ip file of Some ip \<Rightarrow> (Ok ip, None) | None \<Rightarrow> (Err e, None))
      | Panic \<Rightarrow> (Panic, None))"

text \<open>The cell keeps the first success for the life of the process.\<close>

definition my_ip :: "string option \<Rightarrow> (string, string) outcome \<Rightarrow> string option \<times> (string, string) outcome" where
  "my_ip cell resolved =
     (case cell of
        Some ip \<Rightarrow> (cell, Ok ip)
      | None \<Rightarrow> (case resolved of Ok ip \<Rightarrow> (Some ip, Ok ip) | r \<Rightarrow> (None, r)))"

section \<open>No index out of range\<close>

lemma msg_byte_ok: "i < length m \<Longrightarrow> msg_byte m i = Ok (m ! i)"
  by (simp add: msg_byte_def)

lemma u16_at_ok: "i + 1 < length m \<Longrightarrow> u16_at m i = Ok (be16 (m ! i) (m ! (i + 1)))"
  by (simp add: u16_at_def msg_byte_def)

lemma skip_questions_safe: "skip_questions n m offset \<noteq> Panic"
  by (induction n m offset rule: skip_questions.induct) (auto split: option.split)

lemma answers_offset_safe: "answers_offset m query_id \<noteq> Panic"
  by (auto simp: answers_offset_def u16_at_ok dns_lengths and_then_eq_Panic skip_questions_safe)

lemma record_at_safe: "record_at m offset \<noteq> Panic"
  by (auto simp: record_at_def u16_at_ok dns_lengths and_then_eq_Panic Let_def split: option.split)

lemma record_at_bounds: "record_at m offset = Ok (kind, rdata, rdata_end) \<Longrightarrow> rdata \<le> rdata_end \<and> rdata_end \<le> length m"
  by (auto simp: record_at_def and_then_eq_Ok Let_def split: option.splits if_splits)

lemma a_answers_safe: "a_answers n m offset \<noteq> Panic"
proof (induction n arbitrary: offset)
  case (Suc n)
  show ?case
  proof (cases "record_at m offset")
    case (Ok r)
    obtain kind rdata rdata_end where r: "r = (kind, rdata, rdata_end)" by (cases r) auto
    from record_at_bounds [OF Ok [unfolded r]] Suc show ?thesis by (auto simp: Ok r msg_byte_ok)
  qed (use record_at_safe in auto)
qed simp

lemma ip_text_safe: "ip_text bs \<noteq> Panic"
  by (simp add: ip_text_def ok_or_def split: option.split)

lemma txt_answers_safe: "txt_answers n m offset \<noteq> Panic"
proof (induction n arbitrary: offset)
  case (Suc n)
  show ?case
  proof (cases "record_at m offset")
    case (Ok r)
    obtain kind rdata rdata_end where r: "r = (kind, rdata, rdata_end)" by (cases r) auto
    from record_at_bounds [OF Ok [unfolded r]] Suc show ?thesis by (auto simp: Ok r msg_byte_ok ip_text_safe split: if_splits)
  qed (use record_at_safe in auto)
qed simp

text \<open>Whatever bytes come back, parsing a DNS answer never indexes out of range.\<close>

theorem dns_parsers_never_panic:
  "parse_dns_a_response m query_id \<noteq> Panic \<and> parse_dns_txt_response m query_id \<noteq> Panic"
  by (auto simp: parse_dns_a_response_def parse_dns_txt_response_def and_then_eq_Panic answers_offset_safe
      a_answers_safe txt_answers_safe)

section \<open>A query and its answer\<close>

definition wire_label :: "string \<Rightarrow> u8 list" where
  "wire_label label = of_nat (length label) # bytes_of label"

lemma push_labels_wire:
  "push_labels out labels = Ok q \<Longrightarrow> q = out @ concat (map wire_label labels) \<and> (\<forall>l \<in> set labels. l \<noteq> [] \<and> length l \<le> 63)"
  by (induction out labels rule: push_labels.induct) (auto simp: wire_label_def DNS_MAX_LABEL_LEN_def split: if_splits)

lemma push_labels_length:
  "push_labels out labels = Ok q \<Longrightarrow> labels \<noteq> [] \<Longrightarrow> length q + 5 \<le> DNS_QUERY_BUFFER_LEN"
proof (induction out labels rule: push_labels.induct)
  case (2 out label labels)
  then show ?case by (cases labels) (auto simp: DNS_QUESTION_TAIL_LEN_def split: if_splits)
qed simp

lemma small_label_byte:
  assumes "l \<noteq> []" and "length l \<le> 63"
  shows "unat (of_nat (length l) :: u8) = length l" and "(of_nat (length l) :: u8) AND 0xC0 \<noteq> 0xC0" and "(of_nat (length l) :: u8) \<noteq> 0"
proof -
  show u: "unat (of_nat (length l) :: u8) = length l" using assms(2) by (simp add: unat_of_nat)
  show "(of_nat (length l) :: u8) \<noteq> 0" using u assms(1) by auto
  show "(of_nat (length l) :: u8) AND 0xC0 \<noteq> 0xC0"
  proof
    assume a: "(of_nat (length l) :: u8) AND 0xC0 = 0xC0"
    have "(of_nat (length l) :: u8) AND 0xC0 \<le> of_nat (length l)" by (rule word_and_le2)
    with a have "(0xC0 :: u8) \<le> of_nat (length l)" by simp
    then have "unat (0xC0 :: u8) \<le> length l" using u by (simp add: word_le_nat_alt)
    with assms(2) show False by simp
  qed
qed

lemma skip_wire_name:
  assumes "\<forall>l \<in> set labels. l \<noteq> [] \<and> length l \<le> 63"
  shows "skip_dns_name (pre @ concat (map wire_label labels) @ 0 # post) (length pre) =
    Some (length pre + length (concat (map wire_label labels)) + 1)"
  using assms
proof (induction labels arbitrary: pre)
  case Nil
  then show ?case by (subst skip_dns_name.simps) simp
next
  case (Cons l labels)
  let ?m = "pre @ concat (map wire_label (l # labels)) @ 0 # post"
  have l: "l \<noteq> []" "length l \<le> 63" using Cons.prems by auto
  have at: "(pre @ wire_label l @ concat (map wire_label labels) @ 0 # post) ! length pre = of_nat (length l)"
    by (simp add: wire_label_def)
  have "skip_dns_name ?m (length pre) = skip_dns_name ?m (length pre + 1 + length l)"
    using small_label_byte [OF l] by (subst skip_dns_name.simps) (simp add: at del: of_nat_eq_iff)
  moreover have "?m = (pre @ wire_label l) @ concat (map wire_label labels) @ 0 # post" by simp
  moreover have "length pre + 1 + length l = length (pre @ wire_label l)" by (simp add: wire_label_def)
  ultimately have "skip_dns_name ?m (length pre) =
      skip_dns_name ((pre @ wire_label l) @ concat (map wire_label labels) @ 0 # post) (length (pre @ wire_label l))"
    by (simp only:)
  also have "\<dots> = Some (length (pre @ wire_label l) + length (concat (map wire_label labels)) + 1)"
    by (rule Cons.IH) (use Cons.prems in auto)
  finally show ?case by simp
qed

lemma be16_to_be16: "be16 (ucast (drop_bit 8 w)) (ucast w) = (w :: u16)"
  unfolding be16_def by (rule bit_word_eqI) (auto simp: bit_simps)

lemma u16_at_append: "length xs = n \<Longrightarrow> u16_at (xs @ to_be16 w @ ys) n = Ok w"
  by (auto simp: u16_at_def msg_byte_def to_be16_def nth_append be16_to_be16)

text \<open>The reply of a server that repeats the question and answers it with one address.\<close>

definition dns_reply :: "u16 \<Rightarrow> u8 list \<Rightarrow> u8 list \<Rightarrow> ipv4 \<Rightarrow> u8 list" where
  "dns_reply query_id query ttl ip =
     to_be16 query_id @ to_be16 0x8180 @ to_be16 1 @ to_be16 1 @ replicate 4 0 @ drop DNS_HEADER_LEN query @
     [0xC0, 0x0C] @ to_be16 DNS_TYPE_A @ to_be16 DNS_CLASS_IN @ ttl @ to_be16 4 @ octets ip"

lemma query_shape:
  assumes "build_dns_query domain qtype query_id = Ok query"
  obtains labels where "\<forall>l \<in> set labels. l \<noteq> [] \<and> length l \<le> 63"
    and "query = query_header query_id @ concat (map wire_label labels) @ [0] @ to_be16 qtype @ to_be16 DNS_CLASS_IN"
    and "length query \<le> DNS_QUERY_BUFFER_LEN"
proof -
  let ?labels = "split_by ((=) (CHR ''.'')) domain"
  from assms obtain out where o: "push_labels (query_header query_id) ?labels = Ok out"
    "query = out @ [0] @ to_be16 qtype @ to_be16 DNS_CLASS_IN"
    by (auto simp: build_dns_query_def and_then_eq_Ok)
  from push_labels_wire [OF o(1)] push_labels_length [OF o(1)] o(2) that [of ?labels] show thesis
    by (simp add: to_be16_def)
qed

lemma header_length: "length (query_header query_id) = 12"
  by (simp add: query_header_def to_be16_def)

lemma answers_offset_reply:
  assumes "build_dns_query domain qtype query_id = Ok query"
  shows "answers_offset (dns_reply query_id query ttl ip) query_id = Ok (length query, 1)"
proof -
  obtain labels where l: "\<forall>l \<in> set labels. l \<noteq> [] \<and> length l \<le> 63"
    and q: "query = query_header query_id @ concat (map wire_label labels) @ [0] @ to_be16 qtype @ to_be16 DNS_CLASS_IN"
    using query_shape [OF assms] by blast
  let ?pre = "to_be16 query_id @ to_be16 0x8180 @ to_be16 1 @ to_be16 1 @ replicate 4 0"
  let ?post = "to_be16 qtype @ to_be16 DNS_CLASS_IN @ [0xC0, 0x0C] @ to_be16 DNS_TYPE_A @ to_be16 DNS_CLASS_IN @ ttl @ to_be16 4 @ octets ip"
  have m: "dns_reply query_id query ttl ip = ?pre @ concat (map wire_label labels) @ 0 # ?post"
    by (simp add: dns_reply_def q DNS_HEADER_LEN_def header_length)
  have pre: "length ?pre = 12" by (simp add: to_be16_def)
  have skip: "skip_dns_name (dns_reply query_id query ttl ip) 12 = Some (12 + length (concat (map wire_label labels)) + 1)"
    using skip_wire_name [OF l, of ?pre ?post] unfolding m pre .
  have len: "length query = 12 + length (concat (map wire_label labels)) + 5" by (simp add: q header_length to_be16_def)
  have fits: "length query \<le> length (dns_reply query_id query ttl ip)" by (simp add: m len to_be16_def)
  have questions: "skip_questions 1 (dns_reply query_id query ttl ip) 12 = Ok (length query)"
    using skip fits len by (simp add: DNS_QUESTION_TAIL_LEN_def)
  have at: "u16_at (dns_reply query_id query ttl ip) 0 = Ok query_id" "u16_at (dns_reply query_id query ttl ip) 2 = Ok 0x8180"
    "u16_at (dns_reply query_id query ttl ip) 4 = Ok 1" "u16_at (dns_reply query_id query ttl ip) 6 = Ok 1"
  proof -
    have n: "length (to_be16 w) = 2" for w by (simp add: to_be16_def)
    show "u16_at (dns_reply query_id query ttl ip) 0 = Ok query_id"
      unfolding dns_reply_def by (rule u16_at_append [of "[]", simplified]) simp
    show "u16_at (dns_reply query_id query ttl ip) 2 = Ok 0x8180"
      unfolding dns_reply_def by (rule u16_at_append) (rule n)
    have p: "length (to_be16 query_id @ to_be16 0x8180) = 4" "length (to_be16 query_id @ to_be16 0x8180 @ to_be16 1) = 6"
      by (simp_all add: n)
    show "u16_at (dns_reply query_id query ttl ip) 4 = Ok 1" "u16_at (dns_reply query_id query ttl ip) 6 = Ok 1"
      unfolding dns_reply_def using u16_at_append [OF p(1), of 1] u16_at_append [OF p(2), of 1] by (simp_all only: append_assoc)
  qed
  have long: "\<not> length (dns_reply query_id query ttl ip) < DNS_HEADER_LEN" using fits len by (simp add: DNS_HEADER_LEN_def)
  have one: "unat (1 :: u16) = 1" by simp
  show ?thesis
    unfolding answers_offset_def using long at questions
    by (simp add: DNS_FLAG_QR_def DNS_FLAG_TC_def DNS_RCODE_MASK_def DNS_HEADER_LEN_def)
qed

lemma record_at_reply:
  assumes "build_dns_query domain qtype query_id = Ok query" and "length ttl = 4"
  shows "record_at (dns_reply query_id query ttl ip) (length query) = Ok (DNS_TYPE_A, length query + 12, length query + 16)"
    and "drop (length query + 12) (dns_reply query_id query ttl ip) = octets ip"
proof -
  obtain labels where l: "query = query_header query_id @ concat (map wire_label labels) @ [0] @ to_be16 qtype @ to_be16 DNS_CLASS_IN"
    using query_shape [OF assms(1)] by blast
  have lq: "12 \<le> length query" by (simp add: l header_length)
  let ?pre = "to_be16 query_id @ to_be16 0x8180 @ to_be16 1 @ to_be16 1 @ replicate 4 0 @ drop DNS_HEADER_LEN query"
  let ?ans = "[0xC0, 0x0C] @ to_be16 DNS_TYPE_A @ to_be16 DNS_CLASS_IN @ ttl @ to_be16 4 @ octets ip"
  have m: "dns_reply query_id query ttl ip = ?pre @ ?ans" by (simp add: dns_reply_def)
  have pre: "length ?pre = length query" using lq by (simp add: to_be16_def DNS_HEADER_LEN_def)
  obtain t0 t1 t2 t3 where ttl: "ttl = [t0, t1, t2, t3]" using assms(2) by (auto simp: length_Suc_conv numeral_eq_Suc)
  obtain a b c d where ip: "ip = Ipv4 a b c d" by (cases ip)
  have at: "(?pre @ ?ans) ! (length query + i) = ?ans ! i" for i unfolding pre [symmetric] by (rule nth_append_length_plus)
  have len: "length (?pre @ ?ans) = length query + 16" using pre by (simp add: to_be16_def ttl ip)
  have skip: "skip_dns_name (?pre @ ?ans) (length query) = Some (length query + 2)"
    using at [of 0] len by (subst skip_dns_name.simps) simp
  have k: "u16_at (?pre @ ?ans) (length query + 2) = Ok DNS_TYPE_A" "u16_at (?pre @ ?ans) (length query + 2 + 8) = Ok 4"
  proof -
    have n: "length (to_be16 w) = 2" for w by (simp add: to_be16_def)
    have p2: "length (?pre @ [0xC0, 0x0C]) = length query + 2" using pre by simp
    show "u16_at (?pre @ ?ans) (length query + 2) = Ok DNS_TYPE_A"
      using u16_at_append [OF p2, of DNS_TYPE_A "to_be16 DNS_CLASS_IN @ ttl @ to_be16 4 @ octets ip"] by (simp only: append_assoc)
    have p10: "length (?pre @ [0xC0, 0x0C] @ to_be16 DNS_TYPE_A @ to_be16 DNS_CLASS_IN @ ttl) = length query + 2 + 8"
      using pre by (simp add: n assms(2))
    show "u16_at (?pre @ ?ans) (length query + 2 + 8) = Ok 4"
      using u16_at_append [OF p10, of 4 "octets ip"] by (simp only: append_assoc)
  qed
  have four: "unat (4 :: u16) = 4" by simp
  show "record_at (dns_reply query_id query ttl ip) (length query) = Ok (DNS_TYPE_A, length query + 12, length query + 16)"
    unfolding m record_at_def using skip k len by (simp add: DNS_ANSWER_FIXED_LEN_def Let_def)
  have d: "drop (length xs + k) (xs @ ys) = drop k ys" for xs ys :: "u8 list" and k by simp
  have a: "drop (length query + 12) (?pre @ ?ans) = drop 12 ?ans" using d [of ?pre 12 ?ans] unfolding pre .
  have b: "drop 12 ?ans = octets ip" by (simp add: to_be16_def ttl)
  from a b show "drop (length query + 12) (dns_reply query_id query ttl ip) = octets ip"
    unfolding m by (rule trans)
qed

text \<open>C26: a query that can be built fits its buffer, and the reply to it that repeats the question and carries one
  address is read back as that address.\<close>

theorem dns_reply_reads_back:
  assumes "build_dns_query domain qtype query_id = Ok query" and "length ttl = 4"
  shows "length query \<le> DNS_QUERY_BUFFER_LEN \<and> parse_dns_a_response (dns_reply query_id query ttl ip) query_id = Ok ip"
proof
  show "length query \<le> DNS_QUERY_BUFFER_LEN" using query_shape [OF assms(1)] by blast
  let ?m = "dns_reply query_id query ttl ip"
  obtain a b c d where ip: "ip = Ipv4 a b c d" by (cases ip)
  note drop = record_at_reply(2) [OF assms, of ip]
  have nth: "i < 4 \<Longrightarrow> msg_byte ?m (length query + 12 + i) = Ok (octets ip ! i)" for i
  proof -
    assume i: "i < 4"
    have "length (drop (length query + 12) ?m) = 4" unfolding drop by (simp add: ip)
    then have "length query + 12 + i < length ?m" using i by simp
    moreover from this have "drop (length query + 12) ?m ! i = ?m ! (length query + 12 + i)" by (simp add: add.commute)
    ultimately show ?thesis unfolding drop by (simp add: msg_byte_def)
  qed
  have "a_answers 1 ?m (length query) = Ok ip"
    using nth [of 0] nth [of 1] nth [of 2] nth [of 3]
    by (simp add: record_at_reply(1) [OF assms] ip eval_nat_numeral)
  then show "parse_dns_a_response ?m query_id = Ok ip"
    by (simp add: parse_dns_a_response_def answers_offset_reply [OF assms(1)])
qed

theorem dns_reply_reads_back_witness:
  "\<exists>query. build_dns_query ''whoami.akamai.net'' DNS_TYPE_A 7 = Ok query \<and>
     parse_dns_a_response (dns_reply 7 query [0, 0, 0, 60] (Ipv4 9 8 7 6)) 7 = Ok (Ipv4 9 8 7 6)"
proof -
  have "(case build_dns_query ''whoami.akamai.net'' DNS_TYPE_A 7 of Ok _ \<Rightarrow> True | _ \<Rightarrow> False)" by code_simp
  then obtain query where "build_dns_query ''whoami.akamai.net'' DNS_TYPE_A 7 = Ok query" by (auto split: outcome.splits)
  with dns_reply_reads_back [OF this, of "[0, 0, 0, 60]" "Ipv4 9 8 7 6"] show ?thesis by simp
qed

section \<open>The file and the bodies\<close>

lemma read_ip_frames_bound:
  "length bytes \<le> MAX_IP_BODY_BYTES \<Longrightarrow> read_ip_frames bytes frames = Ok body \<Longrightarrow> length body \<le> MAX_IP_BODY_BYTES"
  by (induction bytes frames rule: read_ip_frames.induct) (auto split: if_splits)

lemma read_ip_frames_all:
  "read_ip_frames bytes frames = Ok body \<Longrightarrow> body = bytes @ concat (map the frames)"
  by (induction bytes frames rule: read_ip_frames.induct) (auto split: if_splits)

lemma trim_final_newline:
  assumes "s \<noteq> []" and "\<forall>c \<in> set s. is_graphic c"
  shows "trim (s @ [char_of (10 :: nat)]) = s"
proof -
  have g: "is_graphic (hd s)" "is_graphic (last s)" using assms by simp_all
  have "trim_start (s @ [char_of (10 :: nat)]) = s @ [char_of (10 :: nat)]"
    using assms(1) g(1) by (intro trim_start_graphic) simp
  moreover have "find (\<lambda>w. w \<noteq> [] \<and> prefix w (char_of (10 :: nat) # rev s)) (map rev ws_encodings) = Some [char_of (10 :: nat)]"
    by (simp add: ws_encodings_def)
  then have "strip_any (map rev ws_encodings) (char_of (10 :: nat) # rev s) = strip_any (map rev ws_encodings) (rev s)"
    by (subst strip_any.simps) simp
  then have "trim_end (s @ [char_of (10 :: nat)]) = trim_end s" by (simp add: trim_end_def)
  ultimately show ?thesis using assms(1) g(2) by (simp add: trim_def trim_end_graphic)
qed

text \<open>An address that was found is kept in the file, and is the answer when every live source fails in the
  next 24 hours; after that the failure is reported.\<close>

theorem public_ip_kept_a_day:
  "(case resolve_public_ip (Ok (show_ipv4 ip)) before of
      (Ok found, Some body) \<Rightarrow>
        found = show_ipv4 ip \<and>
        resolve_public_ip (Err e) (Some (Some age, Some body)) =
          (if age \<le> PUBLIC_IP_CACHE_TTL then (Ok (show_ipv4 ip), None) else (Err e, None))
    | _ \<Rightarrow> False)"
proof -
  have "trim (stored_ip (show_ipv4 ip)) = show_ipv4 ip"
    unfolding stored_ip_def by (rule trim_final_newline) (simp_all add: show_ipv4_graphic)
  moreover have "parse_ip (show_ipv4 ip) \<noteq> None" by (simp add: parse_ip_def)
  ultimately show ?thesis by (simp add: resolve_public_ip_def load_cached_public_ip_def)
qed

lemma my_ip_first_success: "my_ip (Some ip) r = (Some ip, Ok ip)" "my_ip None (Ok ip) = (Some ip, Ok ip)" "my_ip None (Err e) = (None, Err e)"
  by (simp_all add: my_ip_def)

end
