(* ===== verification/Ip_Class.thy ===== *)
theory Ip_Class
  imports Proxy_Model
begin

text \<open>
  The classification of an address from its network (\<open>src/geolookup/ip_type.rs\<close>): a list of hosting
  networks searched by halving, and words of carriers and hosting companies searched without
  regard to case.
\<close>

definition HOSTING_ASNS :: "nat list" where
  "HOSTING_ASNS =
     [174, 2906, 8075, 8560, 12222, 12876, 13335, 13415, 14061, 14618, 15169, 16265, 16276, 16509,
      16625, 19318, 19551, 20454, 20473, 20940, 21859, 24940, 26496, 29802, 31898, 33070, 35540,
      36351, 40676, 42708, 46664, 47583, 49981, 51167, 54113, 54290, 61157, 63949, 197540, 199524,
      213230, 396982]"

definition HOSTING_KEYWORDS :: "string list" where
  "HOSTING_KEYWORDS =
     [''amazon'', ''aws'', ''azure'', ''microsoft'', ''google'', ''ibm'', ''oracle'', ''digitalocean'', ''hetzner'', ''ovh'',
      ''linode'', ''akamai'', ''cloudflare'', ''fastly'', ''vultr'', ''choopa'', ''leaseweb'', ''contabo'', ''ionos'', ''hostinger'',
      ''hostgator'', ''bluehost'', ''dreamhost'', ''scaleway'', ''rackspace'', ''softlayer'', ''equinix'', ''cogent'', ''zenlayer'',
      ''gcore'', ''psychz'', ''interserver'', ''hivelocity'', ''kamatera'', ''phoenixnap'', ''netcup'', ''incapsula'', ''hosting'',
      ''colocation'', ''datacenter'', ''data center'', ''dedicated server'', ''vps'']"

definition MOBILE_KEYWORDS :: "string list" where
  "MOBILE_KEYWORDS =
     [''mobile'', ''wireless'', ''cellular'', ''gsm'', ''lte'', ''telekom'', ''vodafone'', ''t-mobile'', ''verizon'', ''at&t mobility'',
      ''movistar'', ''claro'', ''orange'', ''oranje'', ''etisalat'', ''airtel'', ''mtn'', ''singtel'', ''indosat'', ''telkomsel'',
      ''smartfren'', ''xl axiata'', ''optus'', ''telstra'', ''docomo'', ''softbank'', ''sk telecom'']"

text \<open>\<open>windows(n).any(eq_ignore_ascii_case)\<close>.\<close>

fun any_window :: "string \<Rightarrow> string \<Rightarrow> bool" where
  "any_window word [] = False"
| "any_window word (c # s) =
     (length word \<le> length (c # s) \<and> (eq_ignore_case (take (length word) (c # s)) word \<or> any_window word s))"

definition has_keyword :: "string \<Rightarrow> string list \<Rightarrow> bool" where
  "has_keyword name keywords = list_ex (\<lambda>word. word = [] \<or> any_window word name) keywords"

text \<open>\<open>slice::binary_search\<close>: the position of the value in \<open>[lo, hi)\<close>, by halving.\<close>

function bisect :: "nat list \<Rightarrow> nat \<Rightarrow> nat \<Rightarrow> nat \<Rightarrow> nat option" where
  "bisect xs x lo hi =
     (if hi \<le> lo then None
      else let mid = (lo + hi) div 2
           in if xs ! mid = x then Some mid
              else if xs ! mid < x then bisect xs x (mid + 1) hi else bisect xs x lo mid)"
  by pat_completeness auto
termination
  by (relation "measure (\<lambda>(xs, x, lo, hi). hi - lo)") (auto simp: Let_def)

declare bisect.simps [simp del]

definition or_opt :: "'a option \<Rightarrow> 'a option \<Rightarrow> 'a option" where
  "or_opt a b = (case a of Some x \<Rightarrow> Some x | None \<Rightarrow> b)"

definition classify :: "nat option \<Rightarrow> string option \<Rightarrow> string option \<Rightarrow> string option \<Rightarrow> ip_type" where
  "classify asn aso isp organization =
     (let org = or_opt (or_opt aso isp) organization
      in if (case org of Some name \<Rightarrow> has_keyword name MOBILE_KEYWORDS | None \<Rightarrow> False) then Mobile
         else if (case asn of Some n \<Rightarrow> bisect HOSTING_ASNS n 0 (length HOSTING_ASNS) \<noteq> None | None \<Rightarrow> False) \<or>
           (case org of Some name \<Rightarrow> has_keyword name HOSTING_KEYWORDS | None \<Rightarrow> False) then Datacenter
         else if asn \<noteq> None \<or> org \<noteq> None then Residential
         else UnknownIp)"

section \<open>What the searches find\<close>

lemma bisect_found: "bisect xs x lo hi = Some i \<Longrightarrow> lo \<le> i \<and> i < hi \<and> xs ! i = x"
proof (induction xs x lo hi arbitrary: i rule: bisect.induct)
  case (1 xs x lo hi)
  let ?mid = "(lo + hi) div 2"
  show ?case
  proof (cases "hi \<le> lo")
    case False
    then have m: "lo \<le> ?mid" "?mid < hi" by auto
    consider "xs ! ?mid = x" | "xs ! ?mid < x" | "x < xs ! ?mid" by linarith
    then show ?thesis
    proof cases
      case 2
      with 1(1) [OF False refl] 1(3) False m show ?thesis by (auto simp: bisect.simps [of xs x lo hi] Let_def)
    next
      case 3
      with 1(2) [OF False refl] 1(3) False m show ?thesis by (fastforce simp: bisect.simps [of xs x lo hi] Let_def)
    qed (use 1(3) False m in \<open>auto simp: bisect.simps [of xs x lo hi] Let_def\<close>)
  qed (use 1(3) in \<open>simp add: bisect.simps [of xs x lo hi]\<close>)
qed

lemma bisect_complete:
  "sorted xs \<Longrightarrow> hi \<le> length xs \<Longrightarrow> lo \<le> i \<Longrightarrow> i < hi \<Longrightarrow> xs ! i = x \<Longrightarrow> bisect xs x lo hi \<noteq> None"
proof (induction xs x lo hi rule: bisect.induct)
  case (1 xs x lo hi)
  let ?mid = "(lo + hi) div 2"
  have lh: "\<not> hi \<le> lo" using 1(5,6) by simp
  then have m: "lo \<le> ?mid" "?mid < hi" by auto
  consider "xs ! ?mid = x" | "xs ! ?mid < x" | "x < xs ! ?mid" by linarith
  then show ?case
  proof cases
    case 1
    with lh show ?thesis by (simp add: bisect.simps [of xs x lo hi] Let_def)
  next
    case 2
    have "\<not> i \<le> ?mid"
    proof
      assume "i \<le> ?mid"
      then have "xs ! i \<le> xs ! ?mid" using 1(3,4) m by (intro sorted_nth_mono) simp_all
      with 2 1(7) show False by simp
    qed
    with 2 1(1) [OF lh refl] "1.prems" lh show ?thesis by (simp add: bisect.simps [of xs x lo hi] Let_def)
  next
    case 3
    have "\<not> ?mid \<le> i"
    proof
      assume "?mid \<le> i"
      then have "xs ! ?mid \<le> xs ! i" using 1(3,4,6) by (intro sorted_nth_mono) simp_all
      with 3 1(7) show False by simp
    qed
    with 3 1(2) [OF lh refl] "1.prems" lh show ?thesis by (simp add: bisect.simps [of xs x lo hi] Let_def)
  qed
qed

lemma sorted_HOSTING: "sorted HOSTING_ASNS"
  by (simp add: HOSTING_ASNS_def)

lemma bisect_HOSTING: "bisect HOSTING_ASNS n 0 (length HOSTING_ASNS) \<noteq> None \<longleftrightarrow> n \<in> set HOSTING_ASNS"
proof
  assume "bisect HOSTING_ASNS n 0 (length HOSTING_ASNS) \<noteq> None"
  then obtain i where "i < length HOSTING_ASNS" "HOSTING_ASNS ! i = n" using bisect_found by fastforce
  then show "n \<in> set HOSTING_ASNS" by (metis nth_mem)
next
  assume "n \<in> set HOSTING_ASNS"
  then obtain i where "i < length HOSTING_ASNS" "HOSTING_ASNS ! i = n" by (auto simp: in_set_conv_nth)
  then show "bisect HOSTING_ASNS n 0 (length HOSTING_ASNS) \<noteq> None" by (intro bisect_complete [OF sorted_HOSTING]) simp_all
qed

lemma any_window_sublist:
  assumes "word \<noteq> []"
  shows "any_window word s \<longleftrightarrow> sublist (lower word) (lower s)"
proof (induction s)
  case Nil
  with assms show ?case by (simp add: lower_def)
next
  case (Cons c s)
  have take: "eq_ignore_case (take (length word) (c # s)) word \<and> length word \<le> length (c # s) \<longleftrightarrow> prefix (lower word) (lower (c # s))"
  proof
    assume "eq_ignore_case (take (length word) (c # s)) word \<and> length word \<le> length (c # s)"
    then have "lower word = lower (take (length word) (c # s))" by (simp add: eq_ignore_case_def)
    also have "\<dots> = take (length word) (lower (c # s))" unfolding lower_def by (rule take_map [symmetric])
    finally have "lower word = take (length word) (lower (c # s))" .
    then show "prefix (lower word) (lower (c # s))" by (metis take_is_prefix)
  next
    assume p: "prefix (lower word) (lower (c # s))"
    then have "length word \<le> length (c # s)" using prefix_length_le by (fastforce simp: lower_def)
    moreover have "lower word = take (length word) (lower (c # s))" using p by (auto simp: prefix_def lower_def)
    moreover have "take (length word) (lower (c # s)) = lower (take (length word) (c # s))" unfolding lower_def by (rule take_map)
    ultimately show "eq_ignore_case (take (length word) (c # s)) word \<and> length word \<le> length (c # s)"
      by (metis eq_ignore_case_def)
  qed
  have len: "any_window word s \<Longrightarrow> length word \<le> length (c # s)"
    using Cons.IH sublist_length_le [of "lower word" "lower s"] by (simp add: lower_def)
  have "sublist (lower word) (lower (c # s)) \<longleftrightarrow> prefix (lower word) (lower (c # s)) \<or> sublist (lower word) (lower s)"
    by (simp add: lower_def sublist_Cons_right)
  with take len Cons.IH show ?case by auto
qed

text \<open>C27: the class of an address: mobile when the name of its network has a word of a carrier in any case, else a
  datacenter when its number is listed (the list is sorted, so the search by halving finds it) or
  the name has a word of hosting, else residential when anything is known.\<close>

theorem classify_spec:
  "classify asn aso isp organization =
     (let org = or_opt (or_opt aso isp) organization;
          has = (\<lambda>words. \<exists>name word. org = Some name \<and> word \<in> set words \<and> sublist (lower word) (lower name))
      in if has MOBILE_KEYWORDS then Mobile
         else if (\<exists>n \<in> set HOSTING_ASNS. asn = Some n) \<or> has HOSTING_KEYWORDS then Datacenter
         else if asn = None \<and> org = None then UnknownIp else Residential)"
proof -
  have ne: "[] \<notin> set MOBILE_KEYWORDS" "[] \<notin> set HOSTING_KEYWORDS"
    by (simp_all add: MOBILE_KEYWORDS_def HOSTING_KEYWORDS_def)
  have has: "has_keyword name words \<longleftrightarrow> (\<exists>word \<in> set words. sublist (lower word) (lower name))" if "[] \<notin> set words" for name words
  proof -
    have "(word = [] \<or> any_window word name) = sublist (lower word) (lower name)" if "word \<in> set words" for word
      using that \<open>[] \<notin> set words\<close> any_window_sublist [of word name] by auto
    then show ?thesis by (auto simp: has_keyword_def list_ex_iff)
  qed
  have listed: "(case asn of Some n \<Rightarrow> bisect HOSTING_ASNS n 0 (length HOSTING_ASNS) \<noteq> None | None \<Rightarrow> False)
      = (\<exists>n \<in> set HOSTING_ASNS. asn = Some n)"
  proof (cases asn)
    case (Some n)
    have "(\<exists>m \<in> set HOSTING_ASNS. Some n = Some m) \<longleftrightarrow> n \<in> set HOSTING_ASNS" by blast
    with bisect_HOSTING [of n] Some show ?thesis by (simp only: option.case)
  qed simp
  have named: "(case org of Some name \<Rightarrow> has_keyword name words | None \<Rightarrow> False)
      = (\<exists>name word. org = Some name \<and> word \<in> set words \<and> sublist (lower word) (lower name))"
    if "[] \<notin> set words" for org words
    using has [OF that] by (cases org) auto
  have known: "(asn \<noteq> None \<or> org \<noteq> None) = (\<not> (asn = None \<and> org = None))" for org :: "string option" by (rule de_Morgan_conj [symmetric])
  show ?thesis
    unfolding classify_def Let_def listed named [OF ne(1)] named [OF ne(2)] known by (simp only: if_not_P if_P if_cancel split: if_split) simp
qed

end
