(* ===== verification/Geo_Db.thy ===== *)
theory Geo_Db
  imports Ip_Class Fetcher Rust_Parse Body_Fetch
begin

text \<open>
  The GeoIP databases (\<open>src/geolookup/mod.rs\<close>): their installation through a temporary file, the
  migration from the directory above, the marker of the revision, the synchronization with the
  mirror, and the record a lookup builds. The file system is a map from paths to contents; an
  operation yields its result and the file systems it goes through, so that a crash at any time is
  one of them. The mirror, the failures of the operating system and the format of a database are parameters.
\<close>

section \<open>Paths and files\<close>

type_synonym fpath = "string list"

type_synonym files = "fpath \<Rightarrow> string option"

text \<open>\<open>set_file_name\<close>; every path here has a last component.\<close>

definition set_file_name :: "string \<Rightarrow> fpath \<Rightarrow> fpath" where
  "set_file_name name path = butlast path @ [name]"

definition temporary_path :: "fpath \<Rightarrow> fpath" where
  "temporary_path path = set_file_name (''.'' @ last path @ ''.part'') path"

definition lock_path :: "fpath \<Rightarrow> fpath" where
  "lock_path path = set_file_name (''.'' @ last path @ ''.lock'') path"

definition sync_marker_path :: "fpath \<Rightarrow> fpath" where
  "sync_marker_path path = set_file_name (last path @ ''.etag'') path"

definition rename_file :: "fpath \<Rightarrow> fpath \<Rightarrow> files \<Rightarrow> files" where
  "rename_file a b fs = (fs(b := fs a))(a := None)"

text \<open>The same name in the directory above, when there is one.\<close>

definition legacy_path :: "fpath \<Rightarrow> fpath option" where
  "legacy_path path =
     (if path = [] \<or> butlast path = [] then None else Some (butlast (butlast path) @ [last path]))"

text \<open>\<open>renames\<close> tells which renames the system refuses.\<close>

definition migrate_legacy_database :: "(fpath \<Rightarrow> bool) \<Rightarrow> fpath \<Rightarrow> files \<Rightarrow> files" where
  "migrate_legacy_database refused path fs =
     (case legacy_path path of
        None \<Rightarrow> fs
      | Some legacy \<Rightarrow>
          if fs path \<noteq> None \<or> fs legacy = None \<or> refused legacy then fs
          else
            (let fs1 = rename_file legacy path fs;
                 marker = sync_marker_path path
             in case legacy_path marker of
                  None \<Rightarrow> fs1
                | Some legacy_marker \<Rightarrow>
                    if fs1 marker = None \<and> fs1 legacy_marker \<noteq> None \<and> \<not> refused legacy_marker
                    then rename_file legacy_marker marker fs1 else fs1))"

section \<open>Installing a download\<close>

datatype geo_error =
    LockError | CreateError | BodyTimedOut | StreamInterrupted | SizeOverflow | TooLarge nat
  | DownloadAborted | WriteError | FlushError | InvalidDatabase | InstallError | RemoveError
  | BadStatus nat | Unreachable | MarkerError | OpenError

datatype chunk = Chunk string | ChunkFailed | ChunkTimeout

text \<open>What writing a chunk does: everything, or an error after some of its bytes.\<close>

datatype disk_write = Written | WriteShutdown nat | WriteFailed nat

record disk =
  dk_lock_file :: bool
  dk_lock :: bool
  dk_create :: bool
  dk_write :: "nat \<Rightarrow> disk_write"
  dk_sync :: bool
  dk_rename :: bool
  dk_remove :: bool

definition append_file :: "fpath \<Rightarrow> string \<Rightarrow> files \<Rightarrow> files" where
  "append_file path bytes fs = fs(path := Some (the (fs path) @ bytes))"

fun copy_chunks ::
  "disk \<Rightarrow> nat \<Rightarrow> fpath \<Rightarrow> nat \<Rightarrow> nat \<Rightarrow> chunk list \<Rightarrow> files \<Rightarrow> (geo_error + unit) \<times> files list" where
  "copy_chunks dk max_size tmp i downloaded [] fs = (Inr (), [])"
| "copy_chunks dk max_size tmp i downloaded (ChunkTimeout # cs) fs = (Inl BodyTimedOut, [])"
| "copy_chunks dk max_size tmp i downloaded (ChunkFailed # cs) fs = (Inl StreamInterrupted, [])"
| "copy_chunks dk max_size tmp i downloaded (Chunk bytes # cs) fs =
     (if downloaded + length bytes \<ge> 2 ^ 64 then (Inl SizeOverflow, [])
      else if downloaded + length bytes > max_size then (Inl (TooLarge max_size), [])
      else
        (case dk_write dk i of
           Written \<Rightarrow>
             (let fs' = append_file tmp bytes fs
              in case copy_chunks dk max_size tmp (Suc i) (downloaded + length bytes) cs fs' of
                   (r, states) \<Rightarrow> (r, fs' # states))
         | WriteShutdown n \<Rightarrow> (Inl DownloadAborted, [append_file tmp (take n bytes) fs])
         | WriteFailed n \<Rightarrow> (Inl WriteError, [append_file tmp (take n bytes) fs])))"

text \<open>
  The lock is taken on a file of its own, which is created empty when it is missing, never
  truncated and never removed. It may be created although the lock is not obtained in time.
\<close>

definition acquire_download_lock :: "disk \<Rightarrow> fpath \<Rightarrow> files \<Rightarrow> (geo_error + unit) \<times> files list" where
  "acquire_download_lock dk path fs =
     (if \<not> dk_lock_file dk then (Inl LockError, [])
      else
        (let locked = (if fs (lock_path path) = None then fs(lock_path path := Some []) else fs)
         in (if dk_lock dk then Inr () else Inl LockError, [locked])))"

text \<open>\<open>valid\<close> is whether a content opens as a database. The states end with the last one.\<close>

definition write_locked_chunks ::
  "(string \<Rightarrow> bool) \<Rightarrow> disk \<Rightarrow> nat \<Rightarrow> fpath \<Rightarrow> chunk list \<Rightarrow> files \<Rightarrow> (geo_error + unit) \<times> files list" where
  "write_locked_chunks valid dk max_size path cs fs =
     (let tmp = temporary_path path;
          (r, states) =
           (if \<not> dk_create dk then (Inl CreateError, [])
            else
              (let fs0 = fs(tmp := Some []) in
               case copy_chunks dk max_size tmp 0 0 cs fs0 of
                 (Inl err, states) \<Rightarrow> (Inl err, fs0 # states)
               | (Inr _, states) \<Rightarrow>
                   let final = last (fs0 # states) in
                   if \<not> dk_sync dk then (Inl FlushError, fs0 # states)
                   else if \<not> valid (the (final tmp)) then (Inl InvalidDatabase, fs0 # states)
                   else if \<not> dk_rename dk then (Inl InstallError, fs0 # states)
                   else (Inr (), fs0 # states @ [rename_file tmp path final])));
          final = last (fs # states)
      in case r of
           Inr _ \<Rightarrow> (r, states)
         | Inl _ \<Rightarrow>
             if final tmp = None then (r, states)
             else if dk_remove dk then (r, states @ [final(tmp := None)])
             else (Inl RemoveError, states))"

definition write_database_chunks ::
  "(string \<Rightarrow> bool) \<Rightarrow> disk \<Rightarrow> nat \<Rightarrow> fpath \<Rightarrow> chunk list \<Rightarrow> files \<Rightarrow> (geo_error + unit) \<times> files list" where
  "write_database_chunks valid dk max_size path cs fs =
     (case acquire_download_lock dk path fs of
        (Inl err, locked) \<Rightarrow> (Inl err, locked)
      | (Inr _, locked) \<Rightarrow>
          (case write_locked_chunks valid dk max_size path cs (last (fs # locked)) of
             (r, states) \<Rightarrow> (r, locked @ states)))"

section \<open>Synchronization with the mirror\<close>

definition MAX_DATABASE_SIZE :: nat where "MAX_DATABASE_SIZE = 128 * 1024 * 1024"

definition read_synced_etag :: "fpath \<Rightarrow> files \<Rightarrow> string option" where
  "read_synced_etag path fs =
     (case fs (sync_marker_path path) of
        None \<Rightarrow> None
      | Some body \<Rightarrow>
          if \<not> valid_utf8 (map of_char body) then None else if trim body = [] then None else Some (trim body))"

definition write_synced_etag :: "disk \<Rightarrow> fpath \<Rightarrow> string \<Rightarrow> files \<Rightarrow> (geo_error + unit) \<times> files list" where
  "write_synced_etag dk path etag fs =
     (let marker = sync_marker_path path;
          tmp = temporary_path marker
      in if \<not> dk_create dk then (Inl MarkerError, [])
         else
           (let fs1 = fs(tmp := Some etag)
            in if \<not> dk_rename dk then (Inl MarkerError, [fs1])
               else (Inr (), [fs1, rename_file tmp marker fs1])))"

record reply =
  rp_status :: nat
  rp_etag :: "string option"
  rp_length :: "string option"
  rp_chunks :: "chunk list"

definition install_response ::
  "(string \<Rightarrow> bool) \<Rightarrow> disk \<Rightarrow> fpath \<Rightarrow> reply \<Rightarrow> files \<Rightarrow> (geo_error + unit) \<times> files list" where
  "install_response valid dk path rp fs =
     (if \<not> (200 \<le> rp_status rp \<and> rp_status rp < 300) then (Inl (BadStatus (rp_status rp)), [])
      else if (case Option.bind (rp_length rp) parse_usize of Some n \<Rightarrow> n > MAX_DATABASE_SIZE | None \<Rightarrow> False)
      then (Inl (TooLarge MAX_DATABASE_SIZE), [])
      else write_database_chunks valid dk MAX_DATABASE_SIZE path (rp_chunks rp) fs)"

datatype sync_outcome = UpToDate | Synced

text \<open>The mirror answers to the revision a request names, if it names one; None when it cannot be reached.\<close>

type_synonym mirror = "string option \<Rightarrow> reply option"

definition asked_revision :: "(string \<Rightarrow> bool) \<Rightarrow> fpath \<Rightarrow> files \<Rightarrow> string option" where
  "asked_revision valid path fs =
     (if case fs path of Some body \<Rightarrow> valid body | None \<Rightarrow> False then read_synced_etag path fs else None)"

definition sync_one ::
  "(string \<Rightarrow> bool) \<Rightarrow> disk \<Rightarrow> mirror \<Rightarrow> fpath \<Rightarrow> files \<Rightarrow> (geo_error + sync_outcome) \<times> files list" where
  "sync_one valid dk mirror path fs =
     (case mirror (asked_revision valid path fs) of
        None \<Rightarrow> (Inl Unreachable, [])
      | Some rp \<Rightarrow>
          if rp_status rp = 304 then (Inr UpToDate, [])
          else
            (case install_response valid dk path rp fs of
               (Inl err, states) \<Rightarrow> (Inl err, states)
             | (Inr _, states) \<Rightarrow>
                 (case rp_etag rp of
                    None \<Rightarrow> (Inr Synced, states)
                  | Some etag \<Rightarrow>
                      (case write_synced_etag dk path etag (last (fs # states)) of
                         (Inl err, later) \<Rightarrow> (Inl err, states @ later)
                       | (Inr _, later) \<Rightarrow> (Inr Synced, states @ later)))))"

definition both_outcomes :: "sync_outcome \<Rightarrow> sync_outcome \<Rightarrow> sync_outcome" where
  "both_outcomes city asn = (if city = Synced \<or> asn = Synced then Synced else UpToDate)"

text \<open>\<open>ensure_database\<close>: a database that does not open is removed; \<open>None\<close> is a mirror out of reach.\<close>

definition ensure_database ::
  "(string \<Rightarrow> bool) \<Rightarrow> disk \<Rightarrow> mirror \<Rightarrow> fpath \<Rightarrow> files \<Rightarrow> (geo_error + string) \<times> files list" where
  "ensure_database valid dk mirror path fs =
     (let (r, states) =
        (if fs path \<noteq> None then (Inr (), [])
         else (case mirror None of None \<Rightarrow> (Inl Unreachable, []) | Some rp \<Rightarrow> install_response valid dk path rp fs));
        final = last (fs # states)
      in case r of
           Inl err \<Rightarrow> (Inl err, states)
         | Inr _ \<Rightarrow>
             (case final path of
                Some body \<Rightarrow>
                  if valid body then (Inr body, states)
                  else (Inl OpenError, states @ (if dk_remove dk then [final(path := None)] else []))
              | None \<Rightarrow> (Inl OpenError, states)))"

text \<open>\<open>sync_database\<close>: each database is migrated, then synchronized.\<close>

definition sync_database ::
  "(string \<Rightarrow> bool) \<Rightarrow> disk \<Rightarrow> (fpath \<Rightarrow> bool) \<Rightarrow> (string \<Rightarrow> mirror) \<Rightarrow> fpath \<Rightarrow> files \<Rightarrow>
   (geo_error + sync_outcome) \<times> files list" where
  "sync_database valid dk refused mirrors dir fs =
     (let city = dir @ [''geolite2-city.mmdb'']; asn = dir @ [''geolite2-asn.mmdb''];
          fs1 = migrate_legacy_database refused city fs
      in case sync_one valid dk (mirrors ''GeoLite2-City.mmdb'') city fs1 of
           (Inl err, states) \<Rightarrow> (Inl err, fs1 # states)
         | (Inr o1, states) \<Rightarrow>
             (let fs2 = migrate_legacy_database refused asn (last (fs1 # states))
              in case sync_one valid dk (mirrors ''GeoLite2-ASN.mmdb'') asn fs2 of
                   (Inl err, later) \<Rightarrow> (Inl err, fs1 # states @ [fs2] @ later)
                 | (Inr o2, later) \<Rightarrow> (Inr (both_outcomes o1 o2), fs1 # states @ [fs2] @ later)))"

section \<open>A lookup\<close>

text \<open>What the library decodes of a city record and of an ASN record.\<close>

record place =
  pl_code :: "string option"
  pl_english :: "string option"

record city_record =
  ct_country_empty :: bool
  ct_country :: place
  ct_continent :: place
  ct_subdivisions :: "place list"
  ct_city_name :: "string option"
  ct_latitude :: "f64 option"
  ct_longitude :: "f64 option"
  ct_time_zone :: "string option"
  ct_postal :: "string option"

definition extract_country_data :: "city_record \<Rightarrow> geo_data \<Rightarrow> geo_data" where
  "extract_country_data c g =
     (if \<not> ct_country_empty c
      then g\<lparr>iso_code := pl_code (ct_country c), geo_name := pl_english (ct_country c)\<rparr>
      else g\<lparr>iso_code := pl_code (ct_continent c), geo_name := pl_english (ct_continent c)\<rparr>)"

definition extract_continent_data :: "city_record \<Rightarrow> geo_data \<Rightarrow> geo_data" where
  "extract_continent_data c g =
     g\<lparr>continent_code := pl_code (ct_continent c), continent_name := pl_english (ct_continent c)\<rparr>"

definition extract_region_data :: "city_record \<Rightarrow> geo_data \<Rightarrow> geo_data" where
  "extract_region_data c g =
     (case ct_subdivisions c of
        [] \<Rightarrow> g
      | d # _ \<Rightarrow> g\<lparr>region_iso_code := pl_code d, region_name := pl_english d\<rparr>)"

definition extract_city_data :: "city_record \<Rightarrow> geo_data \<Rightarrow> geo_data" where
  "extract_city_data c g = g\<lparr>city_name := ct_city_name c\<rparr>"

definition extract_location_data :: "city_record \<Rightarrow> geo_data \<Rightarrow> geo_data" where
  "extract_location_data c g =
     g\<lparr>latitude := ct_latitude c, longitude := ct_longitude c, timezone := ct_time_zone c\<rparr>"

definition extract_postal_data :: "city_record \<Rightarrow> geo_data \<Rightarrow> geo_data" where
  "extract_postal_data c g = g\<lparr>zip_code := ct_postal c\<rparr>"

definition extract_ip_type :: "(32 word option \<times> string option) option \<Rightarrow> geo_data \<Rightarrow> geo_data" where
  "extract_ip_type rec g =
     (case (case rec of Some r \<Rightarrow> r | None \<Rightarrow> (None, None)) of
        (asn, aso) \<Rightarrow> g\<lparr>geo_asn := asn, geo_aso := aso, geo_ip_type := classify (map_option unat asn) aso None None\<rparr>)"

text \<open>The readers: None is a lookup that fails, \<open>Some None\<close> one without a decodable record.\<close>

definition geo_lookup ::
  "(ipv4 \<Rightarrow> city_record option option) \<Rightarrow> (ipv4 \<Rightarrow> (32 word option \<times> string option) option) \<Rightarrow> ipv4 \<Rightarrow> geo_data" where
  "geo_lookup cities asns ip =
     (case cities ip of
        None \<Rightarrow> geo_default
      | Some found \<Rightarrow>
          extract_ip_type (asns ip)
            (case found of
               None \<Rightarrow> geo_default
             | Some c \<Rightarrow>
                 extract_postal_data c (extract_location_data c (extract_city_data c
                   (extract_region_data c (extract_continent_data c (extract_country_data c geo_default)))))))"

section \<open>Installation is atomic\<close>

fun chunk_bytes :: "chunk list \<Rightarrow> string" where
  "chunk_bytes [] = []"
| "chunk_bytes (Chunk bytes # cs) = bytes @ chunk_bytes cs"
| "chunk_bytes (c # cs) = chunk_bytes cs"

lemma other_name: "length (f (last path)) \<noteq> length (last path) \<Longrightarrow> set_file_name (f (last path)) path \<noteq> path"
  unfolding set_file_name_def by (metis last_snoc)

lemma temporary_differs [simp]: "temporary_path path \<noteq> path" "path \<noteq> temporary_path path"
  using other_name [of "\<lambda>name. ''.'' @ name @ ''.part''" path] by (auto simp: temporary_path_def)

lemma lock_differs [simp]:
  "lock_path path \<noteq> path" "path \<noteq> lock_path path" "lock_path path \<noteq> temporary_path path" "temporary_path path \<noteq> lock_path path"
  using other_name [of "\<lambda>name. ''.'' @ name @ ''.lock''" path] by (auto simp: lock_path_def temporary_path_def set_file_name_def)

lemma copy_chunks_facts:
  assumes "copy_chunks dk max_size tmp i downloaded cs fs = (r, states)" and "fs tmp = Some body"
  shows "(\<forall>s \<in> set states. \<forall>q. q \<noteq> tmp \<longrightarrow> s q = fs q) \<and> last (fs # states) tmp \<noteq> None \<and>
    (r = Inr () \<longrightarrow> last (fs # states) tmp = Some (body @ chunk_bytes cs) \<and> (downloaded \<le> max_size \<longrightarrow> downloaded + length (chunk_bytes cs) \<le> max_size))"
  using assms
proof (induction dk max_size tmp i downloaded cs fs arbitrary: r states body rule: copy_chunks.induct)
  case (4 dk max_size tmp i downloaded bytes cs fs)
  show ?case
  proof (cases "downloaded + length bytes \<ge> 2 ^ 64 \<or> downloaded + length bytes > max_size \<or> dk_write dk i \<noteq> Written")
    case True
    with 4 show ?thesis by (auto simp: append_file_def split: if_splits disk_write.splits)
  next
    case False
    let ?fs = "append_file tmp bytes fs"
    obtain r' states' where c: "copy_chunks dk max_size tmp (Suc i) (downloaded + length bytes) cs ?fs = (r', states')"
      by (metis surj_pair)
    have f: "?fs tmp = Some (body @ bytes)" using "4.prems"(2) by (simp add: append_file_def)
    from False c "4.prems"(1) have r: "r = r'" "states = ?fs # states'" by auto
    from "4.IH" [OF _ _ _ refl c f] False have
      "(\<forall>s \<in> set states'. \<forall>q. q \<noteq> tmp \<longrightarrow> s q = ?fs q) \<and> last (?fs # states') tmp \<noteq> None \<and>
       (r' = Inr () \<longrightarrow> last (?fs # states') tmp = Some ((body @ bytes) @ chunk_bytes cs) \<and>
         (downloaded + length bytes \<le> max_size \<longrightarrow> downloaded + length bytes + length (chunk_bytes cs) \<le> max_size))"
      by auto
    then show ?thesis using False r by (auto simp: append_file_def)
  qed
qed auto

lemma last_state: "P fs \<Longrightarrow> \<forall>s \<in> set states. P s \<Longrightarrow> P (last (fs # states))"
  by (metis last_in_set list.discI set_ConsD)

lemma write_locked_facts:
  assumes "write_locked_chunks valid dk max_size path cs fs = (r, states)"
  shows "(\<forall>s \<in> set states.
      (s path = fs path \<or> s path = Some (chunk_bytes cs) \<and> valid (chunk_bytes cs) \<and> length (chunk_bytes cs) \<le> max_size) \<and>
      (\<forall>q. q \<noteq> path \<longrightarrow> q \<noteq> temporary_path path \<longrightarrow> s q = fs q)) \<and>
    (case r of
       Inr _ \<Rightarrow> last (fs # states) path = Some (chunk_bytes cs) \<and> valid (chunk_bytes cs)
     | Inl _ \<Rightarrow> last (fs # states) path = fs path) \<and>
    (r \<noteq> Inl RemoveError \<longrightarrow> last (fs # states) (temporary_path path) = None)"
proof -
  let ?tmp = "temporary_path path"
  let ?fs0 = "fs(?tmp := Some [])"
  obtain r1 states1 where c: "copy_chunks dk max_size ?tmp 0 0 cs ?fs0 = (r1, states1)" by (metis surj_pair)
  let ?fin = "last (?fs0 # states1)"
  have k: "\<forall>s \<in> set states1. \<forall>q. q \<noteq> ?tmp \<longrightarrow> s q = ?fs0 q" "?fin ?tmp \<noteq> None"
    "r1 = Inr () \<Longrightarrow> ?fin ?tmp = Some (chunk_bytes cs) \<and> length (chunk_bytes cs) \<le> max_size"
    using copy_chunks_facts [OF c] by auto
  have e: "\<forall>q. q \<noteq> ?tmp \<longrightarrow> ?fin q = fs q"
    using last_state [of "\<lambda>s. \<forall>q. q \<noteq> ?tmp \<longrightarrow> s q = fs q" ?fs0 states1] k(1) by auto
  show ?thesis
  proof (cases "dk_create dk")
    case False
    with assms show ?thesis by (auto simp: write_locked_chunks_def Let_def split: if_splits)
  next
    case lc: True
    show ?thesis
    proof (cases "r1 = Inr () \<and> dk_sync dk \<and> valid (chunk_bytes cs) \<and> dk_rename dk")
      case True
      then have "states = ?fs0 # states1 @ [rename_file ?tmp path ?fin]" "r = Inr ()"
        using assms lc c k by (auto simp: write_locked_chunks_def Let_def)
      then show ?thesis using True k e by (auto simp: rename_file_def)
    next
      case False
      then have "\<exists>err. r = Inl err \<and> (states = ?fs0 # states1 \<and> err = RemoveError \<or> states = ?fs0 # states1 @ [?fin(?tmp := None)])"
        using assms lc c k by (cases r1) (auto simp: write_locked_chunks_def Let_def split: if_splits)
      then show ?thesis using k e by auto
    qed
  qed
qed

lemma lock_facts:
  assumes "acquire_download_lock dk path fs = (r, locked)"
  shows "(\<forall>s \<in> set locked. \<forall>q. q \<noteq> lock_path path \<longrightarrow> s q = fs q) \<and>
    (\<forall>s \<in> set locked. s (lock_path path) = Some (case fs (lock_path path) of None \<Rightarrow> [] | Some body \<Rightarrow> body)) \<and>
    (r = Inr () \<longrightarrow> locked \<noteq> []) \<and> (\<forall>e. r = Inl e \<longrightarrow> e = LockError)"
  using assms by (auto simp: acquire_download_lock_def Let_def split: if_splits option.splits)

lemma write_chunks_facts:
  assumes "write_database_chunks valid dk max_size path cs fs = (r, states)"
  shows "(\<forall>s \<in> set states.
      (s path = fs path \<or> s path = Some (chunk_bytes cs) \<and> valid (chunk_bytes cs) \<and> length (chunk_bytes cs) \<le> max_size) \<and>
      s (lock_path path) = Some (case fs (lock_path path) of None \<Rightarrow> [] | Some body \<Rightarrow> body) \<and>
      (\<forall>q. q \<noteq> path \<longrightarrow> q \<noteq> temporary_path path \<longrightarrow> q \<noteq> lock_path path \<longrightarrow> s q = fs q)) \<and>
    (case r of
       Inr _ \<Rightarrow> last (fs # states) path = Some (chunk_bytes cs) \<and> valid (chunk_bytes cs)
     | Inl _ \<Rightarrow> last (fs # states) path = fs path) \<and>
    (r \<noteq> Inl RemoveError \<longrightarrow> r \<noteq> Inl LockError \<longrightarrow> last (fs # states) (temporary_path path) = None)"
proof -
  obtain r0 locked where l: "acquire_download_lock dk path fs = (r0, locked)" by (metis surj_pair)
  note lf = lock_facts [OF l]
  show ?thesis
  proof (cases r0)
    case (Inl err)
    with assms l have "r = Inl err" "states = locked" by (simp_all add: write_database_chunks_def)
    moreover have "last (fs # locked) path = fs path"
      using last_state [of "\<lambda>s. \<forall>q. q \<noteq> lock_path path \<longrightarrow> s q = fs q" fs locked] lf by auto
    ultimately show ?thesis using lf Inl by auto
  next
    case (Inr u)
    define start where "start = last (fs # locked)"
    obtain states1 where w: "write_locked_chunks valid dk max_size path cs start = (r, states1)" "states = locked @ states1"
      using assms l Inr unfolding write_database_chunks_def start_def by (auto split: prod.splits)
    from lf Inr have ne: "locked \<noteq> []" by simp
    then have start: "start \<in> set locked" by (simp add: start_def)
    have last: "last (fs # states) = last (start # states1)" using ne by (simp add: w(2) start_def last_append)
    have at: "start q = fs q" if "q \<noteq> lock_path path" for q using lf start that by blast
    have lk: "start (lock_path path) = Some (case fs (lock_path path) of None \<Rightarrow> [] | Some body \<Rightarrow> body)"
      using lf start by blast
    define P where "P s \<longleftrightarrow> (s path = fs path \<or> s path = Some (chunk_bytes cs) \<and> valid (chunk_bytes cs) \<and> length (chunk_bytes cs) \<le> max_size) \<and>
      s (lock_path path) = Some (case fs (lock_path path) of None \<Rightarrow> [] | Some body \<Rightarrow> body) \<and>
      (\<forall>q. q \<noteq> path \<longrightarrow> q \<noteq> temporary_path path \<longrightarrow> q \<noteq> lock_path path \<longrightarrow> s q = fs q)" for s :: files
    note f = write_locked_facts [OF w(1)]
    have "P s" if "s \<in> set locked" for s using lf that by (simp add: P_def)
    moreover have "P s" if "s \<in> set states1" for s using f that at lk unfolding P_def by (metis lock_differs)
    ultimately have "\<forall>s \<in> set states. P s" by (auto simp: w(2))
    with f show ?thesis unfolding last P_def at [OF lock_differs(2)] by blast
  qed
qed

text \<open>C19: installing a download is atomic. Whatever the download, the disk and the moment it stops at, the
  database is what it was or the whole download, which is then a valid database within the size
  limit; no other file changes but the temporary one and the lock file, which is there from then on
  with the content it had; a success installs the download, a failure keeps the old database; and
  the temporary file is gone unless it could not be removed or the lock was not obtained.\<close>

theorem install_is_atomic:
  assumes "write_database_chunks valid dk max_size path cs fs = (r, states)"
  shows "(\<forall>s \<in> set states.
      (s path = fs path \<or> s path = Some (chunk_bytes cs) \<and> valid (chunk_bytes cs) \<and> length (chunk_bytes cs) \<le> max_size) \<and>
      s (lock_path path) = Some (case fs (lock_path path) of None \<Rightarrow> [] | Some body \<Rightarrow> body) \<and>
      (\<forall>q. q \<noteq> path \<longrightarrow> q \<noteq> temporary_path path \<longrightarrow> q \<noteq> lock_path path \<longrightarrow> s q = fs q)) \<and>
    (case r of
       Inr _ \<Rightarrow> last (fs # states) path = Some (chunk_bytes cs)
     | Inl _ \<Rightarrow> last (fs # states) path = fs path) \<and>
    (r \<noteq> Inl RemoveError \<longrightarrow> r \<noteq> Inl LockError \<longrightarrow> last (fs # states) (temporary_path path) = None)"
  using write_chunks_facts [OF assms] by (cases r) auto

text \<open>A disk that fails at its n-th write, and a file system with one database.\<close>

definition failing_disk :: "nat \<Rightarrow> disk" where
  "failing_disk n =
     \<lparr>dk_lock_file = True, dk_lock = True, dk_create = True, dk_write = (\<lambda>i. if i < n then Written else WriteFailed 1),
      dk_sync = True, dk_rename = True, dk_remove = True\<rparr>"

definition old_files :: files where
  "old_files = [[''flx'', ''db''] \<mapsto> ''old'']"

theorem install_is_atomic_witness:
  "list_all (\<lambda>s. s [''flx'', ''db''] = Some ''old'')
     (snd (write_database_chunks (\<lambda>s. s = ''new'') (failing_disk 1) 10 [''flx'', ''db''] [Chunk ''n'', Chunk ''ewer''] old_files))"
  using install_is_atomic [of "\<lambda>s. s = ''new''" "failing_disk 1" 10 "[''flx'', ''db'']" "[Chunk ''n'', Chunk ''ewer'']" old_files]
  by (cases "write_database_chunks (\<lambda>s. s = ''new'') (failing_disk 1) 10 [''flx'', ''db''] [Chunk ''n'', Chunk ''ewer''] old_files")
    (auto simp: list_all_iff old_files_def)

section \<open>Revisions\<close>

lemma marker_differs [simp]:
  "sync_marker_path path \<noteq> path" "path \<noteq> sync_marker_path path"
  "temporary_path (sync_marker_path path) \<noteq> path" "path \<noteq> temporary_path (sync_marker_path path)"
proof -
  have l: "last (sync_marker_path path) = last path @ ''.etag''"
    "last (temporary_path (sync_marker_path path)) = ''.'' @ last path @ ''.etag'' @ ''.part''"
    by (simp_all add: sync_marker_path_def temporary_path_def set_file_name_def)
  show "sync_marker_path path \<noteq> path"
    using arg_cong [of "last (sync_marker_path path)" "last path" length] l by auto
  then show "path \<noteq> sync_marker_path path" by metis
  show "temporary_path (sync_marker_path path) \<noteq> path"
    using arg_cong [of "last (temporary_path (sync_marker_path path))" "last path" length] l by auto
  then show "path \<noteq> temporary_path (sync_marker_path path)" by metis
qed

lemma install_response_Ok:
  assumes "install_response valid dk path rp fs = (Inr u, states)"
  shows "last (fs # states) path = Some (chunk_bytes (rp_chunks rp))" and "valid (chunk_bytes (rp_chunks rp))"
proof -
  have w: "write_database_chunks valid dk MAX_DATABASE_SIZE path (rp_chunks rp) fs = (Inr u, states)"
    using assms by (auto simp: install_response_def split: if_splits)
  note f = write_chunks_facts [OF w]
  show "last (fs # states) path = Some (chunk_bytes (rp_chunks rp))" "valid (chunk_bytes (rp_chunks rp))" using f by simp_all
qed

text \<open>After a download with a revision is installed, the next synchronization asks the mirror about
  exactly that revision, so an answer that nothing changed is about the database that is installed.\<close>

theorem synced_revision_is_asked:
  assumes "sync_one valid dk mirror path fs = (Inr Synced, states)"
    and "mirror (asked_revision valid path fs) = Some rp" and "rp_etag rp = Some etag"
    and "valid_utf8 (map of_char etag)" and "trim etag = etag" and "etag \<noteq> []"
  shows "last (fs # states) path = Some (chunk_bytes (rp_chunks rp)) \<and>
    asked_revision valid path (last (fs # states)) = Some etag"
proof -
  obtain r st where i: "install_response valid dk path rp fs = (r, st)" by (metis surj_pair)
  from assms(1-3) i have "r = Inr ()" and n: "rp_status rp \<noteq> 304"
    by (cases r; auto simp: sync_one_def split: if_splits)+
  with i have i: "install_response valid dk path rp fs = (Inr (), st)" by simp
  let ?mid = "last (fs # st)" and ?tmp = "temporary_path (sync_marker_path path)"
  have st: "states = st @ [?mid(?tmp := Some etag), rename_file ?tmp (sync_marker_path path) (?mid(?tmp := Some etag))]"
    using assms(1-3) i n by (auto simp: sync_one_def write_synced_etag_def Let_def split: if_splits)
  have l: "last (fs # states) = rename_file ?tmp (sync_marker_path path) (?mid(?tmp := Some etag))"
    by (simp add: st)
  have "last (fs # states) path = ?mid path" "last (fs # states) (sync_marker_path path) = Some etag"
    by (simp_all add: l rename_file_def del: last.simps)
  then show ?thesis
    using install_response_Ok [OF i] assms(4-6)
    by (simp add: asked_revision_def read_synced_etag_def del: last.simps)
qed

definition answers :: "string \<Rightarrow> string \<Rightarrow> mirror" where
  "answers etag body asked =
     Some (if asked = Some etag then \<lparr>rp_status = 304, rp_etag = Some etag, rp_length = None, rp_chunks = []\<rparr>
           else \<lparr>rp_status = 200, rp_etag = Some etag, rp_length = None, rp_chunks = [Chunk body]\<rparr>)"

lemma example_revision: "valid_utf8 (map of_char ''e2'')" "trim ''e2'' = ''e2''"
  by (code_simp, simp add: trim_all_graphic is_graphic_def)

theorem synced_revision_is_asked_witness:
  "asked_revision (\<lambda>_. True) [''flx'', ''db'']
     (last (old_files # snd (sync_one (\<lambda>_. True) (failing_disk 9) (answers ''e2'' ''new'') [''flx'', ''db''] old_files))) = Some ''e2''"
proof -
  let ?run = "sync_one (\<lambda>_. True) (failing_disk 9) (answers ''e2'' ''new'') [''flx'', ''db''] old_files"
  have a: "asked_revision (\<lambda>_. True) [''flx'', ''db''] old_files = None"
    by (simp add: asked_revision_def read_synced_etag_def old_files_def sync_marker_path_def set_file_name_def)
  have "?run = (Inr Synced, snd ?run)"
    by (simp add: sync_one_def a answers_def install_response_def write_database_chunks_def acquire_download_lock_def write_locked_chunks_def failing_disk_def
        write_synced_etag_def Let_def append_file_def MAX_DATABASE_SIZE_def)
  from synced_revision_is_asked [OF this, of "the (answers ''e2'' ''new'' None)" "''e2''"] show ?thesis
    using example_revision by (simp add: a answers_def)
qed

text \<open>A database migrated from the directory above next to a marker that is already there is never
  updated: the mirror is asked about the revision of the marker, and while it has that revision
  the old database stays.\<close>

theorem migrated_database_stays_stale:
  assumes "legacy_path path = Some legacy" and "fs path = None" and "fs legacy = Some old" and "valid old"
    and "\<not> refused legacy" and "sync_marker_path path \<noteq> legacy"
    and "fs (sync_marker_path path) = Some etag" and "valid_utf8 (map of_char etag)" and "trim etag \<noteq> []"
    and "mirror (Some (trim etag)) = Some rp" and "rp_status rp = 304"
  shows "migrate_legacy_database refused path fs path = Some old \<and>
    sync_one valid dk mirror path (migrate_legacy_database refused path fs) = (Inr UpToDate, [])"
proof -
  have "length legacy < length path"
    using assms(1) length_greater_0_conv [of "butlast path"] by (auto simp: legacy_path_def split: if_splits)
  then have d: "legacy \<noteq> path" by auto
  let ?fs = "rename_file legacy path fs"
  have m: "?fs (sync_marker_path path) = Some etag" using assms(6,7) by (simp add: rename_file_def)
  then have e: "migrate_legacy_database refused path fs = ?fs"
    using assms(1-3,5) by (simp add: migrate_legacy_database_def Let_def split: option.split)
  have p: "?fs path = Some old" using d assms(3) by (simp add: rename_file_def)
  have "asked_revision valid path ?fs = Some (trim etag)"
    using assms(4,8,9) p m by (simp add: asked_revision_def read_synced_etag_def)
  then show ?thesis using assms(10,11) p by (simp add: e sync_one_def)
qed

theorem migrated_database_stays_stale_witness:
  "sync_one (\<lambda>_. True) (failing_disk 9) (answers ''e2'' ''new'') [''flx'', ''db'']
     (migrate_legacy_database (\<lambda>_. False) [''flx'', ''db''] [[''db''] \<mapsto> ''old'', [''flx'', ''db.etag''] \<mapsto> ''e2''])
   = (Inr UpToDate, [])"
  using migrated_database_stays_stale
    [of "[''flx'', ''db'']" "[''db'']" "[[''db''] \<mapsto> ''old'', [''flx'', ''db.etag''] \<mapsto> ''e2'']" "''old''" "\<lambda>_. True" "\<lambda>_. False"
      "''e2''" "answers ''e2'' ''new''" "the (answers ''e2'' ''new'' (Some ''e2''))" "failing_disk 9"]
  using example_revision by (simp add: legacy_path_def sync_marker_path_def set_file_name_def answers_def)

section \<open>Country filters\<close>

text \<open>An address known only by its continent passes a filter that allows the country whose code is
  that of the continent: South America passes as Saudi Arabia, Africa as Afghanistan.\<close>

theorem continent_passes_country_filter:
  assumes "cities (px_ip p) = Some (Some c)" and "ct_country_empty c" and "pl_code (ct_continent c) = Some code"
    and "\<not> enforce_unique_ip cfg" and "code \<in> fc_countries cfg" and "code \<notin> fc_excluded_countries cfg"
  shows "fst (accept_proxy hash (\<lambda>ip. Some (geo_lookup cities asns ip)) cfg g p) =
    Some (p\<lparr>px_geo := geo_lookup cities asns (px_ip p)\<rparr>)"
proof -
  have "iso_code (geo_lookup cities asns (px_ip p)) = Some code"
    using assms(1-3)
    by (simp add: geo_lookup_def extract_ip_type_def extract_postal_data_def extract_location_data_def extract_city_data_def
        extract_region_data_def extract_continent_data_def extract_country_data_def split: prod.split list.split)
  then show ?thesis using assms(4-6) by (auto simp: accept_proxy_def)
qed

definition south_america :: city_record where
  "south_america =
     \<lparr>ct_country_empty = True, ct_country = \<lparr>pl_code = None, pl_english = None\<rparr>,
      ct_continent = \<lparr>pl_code = Some ''SA'', pl_english = Some ''South America''\<rparr>, ct_subdivisions = [],
      ct_city_name = None, ct_latitude = None, ct_longitude = None, ct_time_zone = None, ct_postal = None\<rparr>"

theorem continent_passes_country_filter_witness:
  "fst (accept_proxy (\<lambda>_. 0) (\<lambda>ip. Some (geo_lookup (\<lambda>_. Some (Some south_america)) (\<lambda>_. None) ip))
     \<lparr>enforce_unique_ip = False, fc_countries = {''SA''}, fc_excluded_countries = {}, fallback_threshold = None\<rparr>
     gate_new (with_expected_types (Ipv4 1 2 3 4) 80 [])) \<noteq> None"
  by (subst continent_passes_country_filter [of _ _ south_america "''SA''"]) (simp_all add: south_america_def)

end
