(* ===== verification/Facade.thy ===== *)
theory Facade
  imports Fetch_Plan Cli_Filters Stream_Filters Validator_Work
begin

text \<open>
  The library's front: the source of proxies in a file (\<open>ProxySource\<close> of \<open>src/lib.rs\<close>), the builder
  \<open>Flx\<close> with its setters, and the pipeline it starts (\<open>src/api.rs\<close>). Fetching, opening the store,
  and validating are parameters; durations are in milliseconds.
\<close>

section \<open>The lines of a file\<close>

definition FILE_DEFAULT_PROTOCOLS :: "protocol list" where
  "FILE_DEFAULT_PROTOCOLS = [Http Unknown, Https Unknown, Socks4, Socks5]"

text \<open>What a line of a file gives, if anything.\<close>

definition line_proxy :: "string \<Rightarrow> proxy option" where
  "line_proxy line =
     (if trim line = [] then None
      else
        (case parse_proxy (trim line) of
           Inl _ \<Rightarrow> None
         | Inr p \<Rightarrow> Some (if expected_types p = [] then p\<lparr>expected_types := FILE_DEFAULT_PROTOCOLS\<rparr> else p)))"

text \<open>The i-th answer of the reader: a line, an error, or the end.\<close>

datatype line_read = Line string | LineError | LinesEnd

type_synonym line_reader = "nat \<Rightarrow> line_read"

text \<open>\<open>next\<close> returns the proxy and where the reader stands; None is a call that never returns.\<close>

partial_function (option) source_next :: "line_reader \<Rightarrow> nat \<Rightarrow> (proxy option \<times> nat) option" where
  "source_next reader i =
     (case reader i of
        LinesEnd \<Rightarrow> Some (None, i)
      | LineError \<Rightarrow> source_next reader (Suc i)
      | Line line \<Rightarrow>
          (case line_proxy line of
             None \<Rightarrow> source_next reader (Suc i)
           | Some p \<Rightarrow> Some (Some p, Suc i)))"

text \<open>The reader of a file that can be read: its lines, then the end.\<close>

definition file_reader :: "string list \<Rightarrow> line_reader" where
  "file_reader lines i = (if i < length lines then Line (lines ! i) else LinesEnd)"

text \<open>All that is read of a file, by calling \<open>next\<close> to the end.\<close>

partial_function (option) read_all :: "line_reader \<Rightarrow> nat \<Rightarrow> proxy list option" where
  "read_all reader i =
     Option.bind (source_next reader i)
       (\<lambda>(found, j). case found of
          None \<Rightarrow> Some []
        | Some p \<Rightarrow> Option.bind (read_all reader j) (\<lambda>ps. Some (p # ps)))"

lemma read_all_skip:
  "source_next reader i = source_next reader j \<Longrightarrow> read_all reader i = read_all reader j"
  by (subst (1 2) read_all.simps) simp

text \<open>Reading a file gives the proxies of the lines that parse, in order, with the default protocols
  where the line names none; and it ends.\<close>

theorem file_source_reads_lines:
  "read_all (file_reader lines) i = Some (List.map_filter line_proxy (drop i lines))"
proof (induction "length lines - i" arbitrary: i)
  case 0
  then show ?case
    by (subst read_all.simps, subst source_next.simps) (simp add: file_reader_def map_filter_simps)
next
  case (Suc n)
  then have i: "i < length lines" "n = length lines - Suc i" by auto
  then have d: "drop i lines = lines ! i # drop (Suc i) lines" by (simp add: Cons_nth_drop_Suc)
  note IH = Suc.hyps(1) [OF i(2)]
  show ?case
  proof (cases "line_proxy (lines ! i)")
    case None
    then have "source_next (file_reader lines) i = source_next (file_reader lines) (Suc i)"
      using i by (subst source_next.simps) (simp add: file_reader_def)
    from read_all_skip [OF this] show ?thesis using IH None by (simp add: d map_filter_simps)
  next
    case (Some p)
    then have "source_next (file_reader lines) i = Some (Some p, Suc i)"
      using i by (subst source_next.simps) (simp add: file_reader_def)
    then show ?thesis using IH Some by (subst read_all.simps) (simp add: d map_filter_simps)
  qed
qed

lemma source_next_reads: "source_next reader i = Some y \<Longrightarrow> \<exists>k. reader k \<noteq> LineError"
proof (rule source_next.raw_induct [of "\<lambda>r _ _. \<exists>k. r k \<noteq> LineError" reader i y])
  fix f :: "line_reader \<Rightarrow> nat \<Rightarrow> (proxy option \<times> nat) option" and r j z
  assume "\<And>r j z. f r j = Some z \<Longrightarrow> \<exists>k. r k \<noteq> LineError"
    and "(case r j of
        LinesEnd \<Rightarrow> Some (None, j)
      | LineError \<Rightarrow> f r (Suc j)
      | Line line \<Rightarrow> (case line_proxy line of None \<Rightarrow> f r (Suc j) | Some p \<Rightarrow> Some (Some p, Suc j))) = Some z"
  then show "\<exists>k. r k \<noteq> LineError" by (cases "r j = LineError") auto
qed

text \<open>A reader whose error stays, as reading a directory that was opened as a file, is asked again for
  ever: the call never returns.\<close>

theorem persistent_error_never_returns:
  "source_next (\<lambda>_. LineError) i = None"
  using source_next_reads [of "\<lambda>_. LineError" i] by (cases "source_next (\<lambda>_. LineError) i") auto

section \<open>The builder\<close>

datatype source_choice = FromFetcher | FromFiles "string list"

datatype validation_choice = Unset | Explicit | Skip

record flx =
  fx_source :: source_choice
  fx_fetcher :: fetcher_cfg
  fx_validator :: validator_cfg
  fx_choice :: validation_choice
  fx_limit :: nat
  fx_health :: bool
  fx_health_path :: "string option"
  fx_min_score :: "f64 option"
  fx_sort :: "(sort_key \<times> sort_order) option"

definition fetcher_default :: fetcher_cfg where
  "fetcher_default =
     \<lparr>fg_enforce_unique_ip = True, fg_concurrency_limit = 64, fg_enable_geo_lookup = False, fg_countries = [],
      fg_excluded_countries = [], fg_fallback_threshold = None, fg_fallback_phase_timeout = None,
      fg_cache_ttl = Some (from_secs (saturating_mul 15 60)), fg_refresh_cache = False, fg_providers = [],
      fg_excluded_providers = [], fg_custom_sources = [], fg_offline = False, fg_fetch_delay = None,
      fg_provider_timeout = None\<rparr>"

definition validator_default :: validator_cfg where
  "validator_default =
     \<lparr>vc_concurrency_limit = 500, vc_request_timeout = 3, vc_types = [], vc_groups = [], vc_max_attempts = 1,
      vc_http_judge_urls = [''http://azenv.net/'', ''http://wfuchs.de/azenv.php'', ''http://proxyjudge.us/'', ''http://shinh.org/env.cgi''],
      vc_https_judge_urls = [''https://aranguren.org/azenv.php'', ''https://wfuchs.de/azenv.php''],
      vc_insecure = False, vc_probe_missed_types = False, vc_support_cookies = False, vc_support_referer = False,
      vc_retry_delay = 0, vc_report_failures = False, vc_probe_gate = None\<rparr>"

definition flx_default :: flx where
  "flx_default =
     \<lparr>fx_source = FromFetcher, fx_fetcher = fetcher_default, fx_validator = validator_default, fx_choice = Unset,
      fx_limit = 0, fx_health = False, fx_health_path = None, fx_min_score = None, fx_sort = None\<rparr>"

text \<open>\<open>fetch\<close> is the default; \<open>from_files\<close> fails when a file does not open, and \<open>-\<close> is the standard input.\<close>

definition from_files :: "(string \<Rightarrow> bool) \<Rightarrow> string list \<Rightarrow> flx option" where
  "from_files opens paths =
     (if list_ex (\<lambda>path. path \<noteq> ''-'' \<and> \<not> opens path) paths then None
      else Some (flx_default\<lparr>fx_source := FromFiles paths\<rparr>))"

text \<open>The setters.\<close>

datatype builder_call =
    SetTypes "protocol list" | SetGroups "protocol list list" | ValidateHttp | NoValidate
  | Concurrency nat | FetchConcurrency nat | Timeout u64 | MaxAttempts nat | RetryDelay u64
  | ReportFailures | Insecure bool | SupportCookies | SupportReferer | WithGeo
  | Providers "string list" | ExcludeProviders "string list" | SourceUrls "string list"
  | FallbackThreshold nat | FetchPhaseTimeout u64 | Countries "string list" | CacheTtl u64
  | RefreshCache | Offline | FetchDelay u64 | ProviderTimeout u64
  | HttpJudges "string list" | HttpsJudges "string list" | ProbeMissedTypes bool
  | Limit nat | EnableHealth | HealthFile string | MinScore f64 | SortScore sort_order

definition on_fetcher :: "(fetcher_cfg \<Rightarrow> fetcher_cfg) \<Rightarrow> flx \<Rightarrow> flx" where
  "on_fetcher f b = b\<lparr>fx_fetcher := f (fx_fetcher b)\<rparr>"

definition on_validator :: "(validator_cfg \<Rightarrow> validator_cfg) \<Rightarrow> flx \<Rightarrow> flx" where
  "on_validator f b = b\<lparr>fx_validator := f (fx_validator b)\<rparr>"

definition set_types :: "protocol list \<Rightarrow> flx \<Rightarrow> flx" where
  "set_types types b = (on_validator (\<lambda>c. c\<lparr>vc_types := types\<rparr>) b)\<lparr>fx_choice := Explicit\<rparr>"

fun apply_call :: "builder_call \<Rightarrow> flx \<Rightarrow> flx" where
  "apply_call (SetTypes types) b = set_types types b"
| "apply_call (SetGroups groups) b = (on_validator (\<lambda>c. c\<lparr>vc_groups := groups\<rparr>) b)\<lparr>fx_choice := Explicit\<rparr>"
| "apply_call ValidateHttp b = set_types [Http Unknown] b"
| "apply_call NoValidate b = (on_validator (\<lambda>c. c\<lparr>vc_types := [], vc_groups := []\<rparr>) b)\<lparr>fx_choice := Skip\<rparr>"
| "apply_call (Concurrency n) b = on_validator (\<lambda>c. c\<lparr>vc_concurrency_limit := n\<rparr>) b"
| "apply_call (FetchConcurrency n) b = on_fetcher (\<lambda>c. c\<lparr>fg_concurrency_limit := n\<rparr>) b"
| "apply_call (Timeout seconds) b = on_validator (\<lambda>c. c\<lparr>vc_request_timeout := seconds\<rparr>) b"
| "apply_call (MaxAttempts n) b = on_validator (\<lambda>c. c\<lparr>vc_max_attempts := n\<rparr>) b"
| "apply_call (RetryDelay ms) b = on_validator (\<lambda>c. c\<lparr>vc_retry_delay := unat ms\<rparr>) b"
| "apply_call ReportFailures b = on_validator (\<lambda>c. c\<lparr>vc_report_failures := True\<rparr>) b"
| "apply_call (Insecure x) b = on_validator (\<lambda>c. c\<lparr>vc_insecure := x\<rparr>) b"
| "apply_call SupportCookies b = on_validator (\<lambda>c. c\<lparr>vc_support_cookies := True\<rparr>) b"
| "apply_call SupportReferer b = on_validator (\<lambda>c. c\<lparr>vc_support_referer := True\<rparr>) b"
| "apply_call WithGeo b = on_fetcher (\<lambda>c. c\<lparr>fg_enable_geo_lookup := True\<rparr>) b"
| "apply_call (Providers names) b = on_fetcher (\<lambda>c. c\<lparr>fg_providers := names\<rparr>) b"
| "apply_call (ExcludeProviders names) b = on_fetcher (\<lambda>c. c\<lparr>fg_excluded_providers := names\<rparr>) b"
| "apply_call (SourceUrls urls) b = on_fetcher (\<lambda>c. c\<lparr>fg_custom_sources := urls\<rparr>) b"
| "apply_call (FallbackThreshold n) b = on_fetcher (\<lambda>c. c\<lparr>fg_fallback_threshold := Some n\<rparr>) b"
| "apply_call (FetchPhaseTimeout s) b = on_fetcher (\<lambda>c. c\<lparr>fg_fallback_phase_timeout := when_positive s (from_secs s)\<rparr>) b"
| "apply_call (Countries codes) b = on_fetcher (\<lambda>c. c\<lparr>fg_enable_geo_lookup := True, fg_countries := codes\<rparr>) b"
| "apply_call (CacheTtl minutes) b =
     on_fetcher (\<lambda>c. c\<lparr>fg_cache_ttl := when_positive minutes (from_secs (saturating_mul minutes 60))\<rparr>) b"
| "apply_call RefreshCache b = on_fetcher (\<lambda>c. c\<lparr>fg_refresh_cache := True\<rparr>) b"
| "apply_call Offline b = on_fetcher (\<lambda>c. c\<lparr>fg_offline := True\<rparr>) b"
| "apply_call (FetchDelay ms) b = on_fetcher (\<lambda>c. c\<lparr>fg_fetch_delay := when_positive ms (unat ms)\<rparr>) b"
| "apply_call (ProviderTimeout s) b = on_fetcher (\<lambda>c. c\<lparr>fg_provider_timeout := when_positive s (from_secs s)\<rparr>) b"
| "apply_call (HttpJudges urls) b = on_validator (\<lambda>c. c\<lparr>vc_http_judge_urls := urls\<rparr>) b"
| "apply_call (HttpsJudges urls) b = on_validator (\<lambda>c. c\<lparr>vc_https_judge_urls := urls\<rparr>) b"
| "apply_call (ProbeMissedTypes x) b = on_validator (\<lambda>c. c\<lparr>vc_probe_missed_types := x\<rparr>) b"
| "apply_call (Limit n) b = b\<lparr>fx_limit := n\<rparr>"
| "apply_call EnableHealth b = b\<lparr>fx_health := True\<rparr>"
| "apply_call (HealthFile path) b = b\<lparr>fx_health := True, fx_health_path := Some path\<rparr>"
| "apply_call (MinScore m) b = b\<lparr>fx_min_score := Some m, fx_health := True\<rparr>"
| "apply_call (SortScore order) b = b\<lparr>fx_sort := Some (Score, order), fx_health := True\<rparr>"

definition build :: "builder_call list \<Rightarrow> flx \<Rightarrow> flx" where
  "build calls b = fold apply_call calls b"

section \<open>The pipeline\<close>

definition load_proxy_files :: "(string \<Rightarrow> string list option) \<Rightarrow> string list \<Rightarrow> proxy list option" where
  "load_proxy_files read_lines paths =
     (if list_ex (\<lambda>path. read_lines path = None) paths then None
      else Some (concat (map (\<lambda>path. List.map_filter line_proxy (the (read_lines path))) paths)))"

datatype flx_error = FetchError string | ValidateError string | IoError | ConfigError string

text \<open>\<open>fe_lines\<close> gives the lines of a file, \<open>fe_validate\<close> what a validation sends.\<close>

record flx_env =
  fe_gather :: "fetcher_cfg \<Rightarrow> string + proxy list"
  fe_lines :: "string \<Rightarrow> string list option"
  fe_store :: "string option \<Rightarrow> health_store option"
  fe_validate :: "proxy list \<Rightarrow> validator_cfg \<Rightarrow> health_store option \<Rightarrow> string + proxy list"

definition score_in_range :: "f64 \<Rightarrow> bool" where
  "score_in_range m = (is_finite m \<and> f_le (Fin 0) m \<and> f_le m (Fin 100))"

definition finish_output :: "flx \<Rightarrow> proxy list \<Rightarrow> proxy list" where
  "finish_output b output =
     (let scored = (case fx_min_score b of Some m \<Rightarrow> filter (keep_min_score m) output | None \<Rightarrow> output);
          ordered = (case fx_sort b of Some (key, order) \<Rightarrow> sort_proxies scored key order | None \<Rightarrow> scored)
      in if fx_limit b > 0 then take (fx_limit b) ordered else ordered)"

definition source_items :: "flx_env \<Rightarrow> flx \<Rightarrow> flx_error + proxy list" where
  "source_items e b =
     (case fx_source b of
        FromFetcher \<Rightarrow> (case fe_gather e (fx_fetcher b) of Inl err \<Rightarrow> Inl (FetchError err) | Inr ps \<Rightarrow> Inr ps)
      | FromFiles paths \<Rightarrow> (case load_proxy_files (fe_lines e) paths of None \<Rightarrow> Inl IoError | Some ps \<Rightarrow> Inr ps))"

definition open_health :: "flx_env \<Rightarrow> flx \<Rightarrow> flx_error + health_store option" where
  "open_health e b =
     (if \<not> fx_health b then Inr None
      else (case fe_store e (fx_health_path b) of None \<Rightarrow> Inl IoError | Some store \<Rightarrow> Inr (Some store)))"

definition stream_with_progress :: "flx_env \<Rightarrow> flx \<Rightarrow> flx_error + proxy list" where
  "stream_with_progress e b =
     (let v = fx_validator b in
      if (case fx_min_score b of Some m \<Rightarrow> \<not> score_in_range m | None \<Rightarrow> False)
      then Inl (ConfigError ''min score must be finite and between 0 and 100'')
      else if fx_choice b = Unset
      then Inl (ConfigError ''no validation target selected; call .types(..), .groups(..), .validate_http(), or .no_validate()'')
      else if fx_choice b = Explicit \<and> vc_types v = [] \<and> vc_groups v = []
      then Inl (ConfigError ''validation target is empty; pass at least one type to .types(..) or .groups(..), or call .no_validate()'')
      else
        res_bind (source_items e b) (\<lambda>source.
        res_bind (open_health e b) (\<lambda>health.
        res_bind
          (if vc_types v = [] \<and> vc_groups v = []
           then Inr (case health of Some store \<Rightarrow> annotate_health store source | None \<Rightarrow> source)
           else (case fe_validate e source v health of Inl err \<Rightarrow> Inl (ValidateError err) | Inr ps \<Rightarrow> Inr ps))
          (\<lambda>output. Inr (finish_output b output)))))"

section \<open>What the builder keeps\<close>

definition built_ok :: "flx \<Rightarrow> bool" where
  "built_ok b =
     ((fx_choice b \<noteq> Explicit \<longrightarrow> vc_types (fx_validator b) = [] \<and> vc_groups (fx_validator b) = []) \<and>
      (fx_min_score b \<noteq> None \<or> fx_sort b \<noteq> None \<or> fx_health_path b \<noteq> None \<longrightarrow> fx_health b) \<and>
      (fg_countries (fx_fetcher b) \<noteq> [] \<longrightarrow> fg_enable_geo_lookup (fx_fetcher b)) \<and>
      fg_excluded_countries (fx_fetcher b) = [])"

lemmas call_defs = built_ok_def on_fetcher_def on_validator_def set_types_def

lemma apply_call_ok: "built_ok b \<Longrightarrow> built_ok (apply_call c b)"
  by (cases c) (auto simp: call_defs)

lemma build_ok: "built_ok b \<Longrightarrow> built_ok (build calls b)"
  by (induction calls arbitrary: b) (simp_all add: build_def apply_call_ok)

lemma defaults_ok: "built_ok flx_default" "from_files opens paths = Some b \<Longrightarrow> built_ok b"
  by (auto simp: built_ok_def flx_default_def fetcher_default_def validator_default_def from_files_def split: if_splits)

text \<open>Any sequence of calls on a new builder keeps its invariant: protocols are configured only with a
  validation target, a minimum score, a sort by score or a store path turns the health store on,
  and a country filter turns the lookup on, which is what the check of a fetch asks for.\<close>

theorem builder_invariant:
  "case build calls flx_default of b \<Rightarrow>
     (fx_choice b = Explicit \<or> vc_types (fx_validator b) = [] \<and> vc_groups (fx_validator b) = []) \<and>
     (fx_health b \<or> fx_min_score b = None \<and> fx_sort b = None \<and> fx_health_path b = None) \<and>
     (fg_enable_geo_lookup (fx_fetcher b) \<or> fg_countries (fx_fetcher b) = [] \<and> fg_excluded_countries (fx_fetcher b) = [])"
  using build_ok [OF defaults_ok(1), of calls] by (auto simp: built_ok_def)

text \<open>The stream of a builder has at most as many proxies as its limit, and with a minimum score only
  proxies whose score reaches it.\<close>

theorem facade_output:
  assumes "stream_with_progress e b = Inr out"
  shows "(fx_limit b > 0 \<longrightarrow> length out \<le> fx_limit b) \<and>
    (\<forall>m. fx_min_score b = Some m \<longrightarrow> (\<forall>p \<in> set out. keep_min_score m p))"
proof -
  obtain sent where "out = finish_output b sent"
    using assms by (auto simp: stream_with_progress_def Let_def res_bind_eq_Inr split: if_splits)
  then show ?thesis
    by (auto simp: finish_output_def Let_def sort_proxies_def split: option.splits if_splits dest: in_set_takeD)
qed

text \<open>Without validation nothing is probed, whatever was configured before: the stream does not
  depend on the validator. With a target it is what the validator sends, filtered and sorted.\<close>

theorem no_validate_skips_validator:
  "stream_with_progress (e\<lparr>fe_validate := v\<rparr>) (build (calls @ [NoValidate]) flx_default) =
   stream_with_progress (e\<lparr>fe_validate := w\<rparr>) (build (calls @ [NoValidate]) flx_default)"
  by (simp add: stream_with_progress_def build_def on_validator_def source_items_def open_health_def Let_def cong: source_choice.case_cong)

definition example_env :: flx_env where
  "example_env =
     \<lparr>fe_gather = (\<lambda>_. Inr [proxy_new (Ipv4 10 0 0 1) 80, proxy_new (Ipv4 10 0 0 2) 80]), fe_lines = (\<lambda>_. None),
      fe_store = (\<lambda>_. None), fe_validate = (\<lambda>_ _ _. Inl [])\<rparr>"

theorem facade_output_witness:
  "\<exists>out. stream_with_progress example_env (build [NoValidate, Limit 1] flx_default) = Inr out \<and> length out \<le> 1"
proof -
  have r: "stream_with_progress example_env (build [NoValidate, Limit 1] flx_default) = Inr [proxy_new (Ipv4 10 0 0 1) 80]"
    by (simp add: stream_with_progress_def build_def on_validator_def source_items_def open_health_def finish_output_def
        example_env_def flx_default_def Let_def)
  have l: "fx_limit (build [NoValidate, Limit 1] flx_default) = 1" by (simp add: build_def)
  from facade_output [OF r] r l show ?thesis by auto
qed

end
