(* ===== verification/Cli_Version.thy ===== *)
theory Cli_Version
  imports Rust_Parse
begin

text \<open>
  Whether a new version is out (\<open>src/cli/version.rs\<close>): the comparison of version texts and the
  cached answer of the last check. The age of the cache file is a parameter, in seconds.
\<close>

definition version_numbers :: "string \<Rightarrow> nat list" where
  "version_numbers version =
     List.map_filter (\<lambda>part. parse_uint (2 ^ 64) (takeWhile is_digit part))
       (split_by ((=) (CHR ''.'')) (dropWhile ((=) (CHR ''v'')) (trim version)))"

definition check_version :: "string \<Rightarrow> string \<Rightarrow> bool" where
  "check_version current latest =
     (let ours = version_numbers current; theirs = version_numbers latest
      in case find (\<lambda>(a, b). a \<noteq> b) (zip ours theirs) of
           Some (a, b) \<Rightarrow> a < b
         | None \<Rightarrow> length ours < length theirs)"

definition VERSION_CACHE_TTL :: nat where "VERSION_CACHE_TTL = 24 * 60 * 60"

text \<open>The first line of a text; \<open>age\<close> is None when there is no file or it is from the future.\<close>

definition cached_latest_version :: "nat option \<Rightarrow> string \<Rightarrow> string option" where
  "cached_latest_version age body =
     (case age of
        None \<Rightarrow> None
      | Some a \<Rightarrow>
          if a > VERSION_CACHE_TTL then None
          else if body = [] then None
          else
            (let version = trim (hd (split_by ((=) (CHR 0x0A)) body))
             in if version = [] then None else Some version))"

definition cache_latest_version :: "string \<Rightarrow> string" where
  "cache_latest_version version = version @ [CHR 0x0A]"

lemma differs_lexord:
  "(case find (\<lambda>(a, b). a \<noteq> b) (zip xs ys) of Some (a, b) \<Rightarrow> a < b | None \<Rightarrow> length xs < length ys) \<longleftrightarrow>
     (xs, ys) \<in> lexord {(a, b). a < (b :: nat)}"
proof (induction xs arbitrary: ys)
  case Nil
  then show ?case by (cases ys) auto
next
  case (Cons x xs)
  show ?case
  proof (cases ys)
    case (Cons y zs)
    then show ?thesis
      using Cons.IH [of zs] by (cases "x = y"; cases "find (\<lambda>(a, b). a \<noteq> b) (zip xs zs)") simp_all
  qed simp
qed

text \<open>A version is newer exactly when the list of its numbers is later in the lexicographic order, so
  nothing is newer than itself, no two versions are each newer than the other, and being
  newer is transitive.\<close>

theorem newer_is_lexicographic:
  "check_version current latest \<longleftrightarrow>
     (version_numbers current, version_numbers latest) \<in> lexord {(a, b). a < b}"
  by (simp add: check_version_def Let_def differs_lexord)

text \<open>A trailing zero makes a version newer.\<close>

theorem trailing_zero_is_newer: "check_version ''v1.2'' ''1.2.0''"
proof -
  have t: "trim ''v1.2'' = ''v1.2''" "trim ''1.2.0'' = ''1.2.0''"
    by (simp_all add: trim_all_graphic is_graphic_def)
  have d: "is_digit CHR ''0''" "is_digit CHR ''1''" "is_digit CHR ''2''" by (simp_all add: is_digit_def byte_def)
  have v: "dec_val ''0'' = 0" "dec_val ''1'' = 1" "dec_val ''2'' = 2" by (simp_all add: dec_val_def digit_val_def byte_def)
  have p: "parse_uint b ''0'' = (if 0 < b then Some 0 else None)" "parse_uint b ''1'' = (if 1 < b then Some 1 else None)"
    "parse_uint b ''2'' = (if 2 < b then Some 2 else None)" for b
    by (simp_all add: parse_uint_def d v Let_def)
  show ?thesis
    by (simp add: check_version_def version_numbers_def t d p map_filter_simps Let_def)
qed

text \<open>The version written to the cache is read back while the cache is fresh.\<close>

theorem cached_version_reads_back:
  assumes "trim version = version" and "version \<noteq> []" and "CHR 0x0A \<notin> set version" and "age \<le> VERSION_CACHE_TTL"
  shows "cached_latest_version (Some age) (cache_latest_version version) = Some version"
proof -
  have "hd (split_by ((=) (CHR 0x0A)) (version @ [CHR 0x0A])) = version"
    using assms(3)
  proof (induction version)
    case (Cons c v)
    then show ?case by (cases "split_by ((=) (CHR 0x0A)) (v @ [CHR 0x0A])") auto
  qed simp
  with assms show ?thesis by (simp add: cached_latest_version_def cache_latest_version_def)
qed

theorem cached_version_reads_back_witness:
  "cached_latest_version (Some 60) (cache_latest_version ''1.2'') = Some ''1.2''"
proof -
  have "trim ''1.2'' = ''1.2''" by (simp add: trim_all_graphic is_graphic_def)
  then show ?thesis by (rule cached_version_reads_back) (simp_all add: VERSION_CACHE_TTL_def)
qed

end
