(* ===== verification/Serve_Loop.thy ===== *)
theory Serve_Loop
  imports Rotator_Server Cli_Pipeline
begin

text \<open>
  The serve command (\<open>run_serve\<close> of \<open>src/cli/main.rs\<close>) and the wait for a ready pool
  (\<open>src/rotator/mod.rs\<close>): the options, the rounds that feed the pool from validated streams, the
  pause of the validation while the pool is full, and the end of the server. What the branches of
  a wait yield, and what the server does to the pool meanwhile, is a script of events.
\<close>

section \<open>Options\<close>

definition parse_serve_credentials :: "string \<Rightarrow> (string \<times> string, string) outcome" where
  "parse_serve_credentials raw =
     (case split_once CHR '':'' raw of
        None \<Rightarrow> Err ''--auth must be in `user:pass` form''
      | Some (user, pass) \<Rightarrow> Ok (user, pass))"

definition serve_should_pause :: "nat \<Rightarrow> nat \<Rightarrow> bool" where
  "serve_should_pause len limit = (len \<ge> max limit 1)"

definition clamp :: "nat \<Rightarrow> nat \<Rightarrow> nat \<Rightarrow> nat" where
  "clamp low high n = max low (min high n)"

record serve_command =
  sv_types :: "string list"
  sv_files :: "string list"
  sv_pool_size :: nat
  sv_min_ready :: nat
  sv_strategy :: string
  sv_refresh_secs :: "u64 option"
  sv_request_timeout :: "u64 option"
  sv_auth :: "string option"
  sv_dry_run :: bool

record serve_options =
  so_strategy :: strategy
  so_pool_size :: nat
  so_min_ready :: nat
  so_refresh_secs :: u64
  so_request_timeout :: nat
  so_auth :: "(string \<times> string) option"

definition serve_protocols :: "string list \<Rightarrow> (protocol list \<times> protocol list list, string) outcome" where
  "serve_protocols types =
     (let r = split_type_requests types; protocols = map tq_protocol (tr_quotas r) in
      if list_ex (\<lambda>q. tq_quota q \<noteq> None) (tr_quotas r)
      then Err ''type quotas like HTTP=8 are not supported by `flx serve`; pass plain types instead''
      else Ok (if protocols = [] \<and> tr_groups r = [] then [Http Unknown] else protocols, tr_groups r))"

definition serve_options_of :: "serve_command \<Rightarrow> (serve_options, string) outcome" where
  "serve_options_of a =
     (let limit = clamp 1 MAX_POOL_SIZE (sv_pool_size a) in
      and_then (ok_or ''unknown rotation strategy'' (strategy_parse (sv_strategy a))) (\<lambda>s.
      and_then (case sv_auth a of None \<Rightarrow> Ok None | Some raw \<Rightarrow> and_then (parse_serve_credentials raw) (\<lambda>c. Ok (Some c))) (\<lambda>auth.
        Ok \<lparr>so_strategy = s, so_pool_size = limit, so_min_ready = clamp 1 limit (sv_min_ready a),
            so_refresh_secs = (case sv_refresh_secs a of Some r \<Rightarrow> r | None \<Rightarrow> 300),
            so_request_timeout = from_secs (case sv_request_timeout a of Some r \<Rightarrow> r | None \<Rightarrow> 30),
            so_auth = auth\<rparr>)))"

section \<open>Waiting for a ready pool\<close>

definition READY_POLL_INTERVAL :: nat where "READY_POLL_INTERVAL = 100"

definition READY_WAIT_TIMEOUT :: nat where "READY_WAIT_TIMEOUT = 120000"

text \<open>
  When the wait ends, in milliseconds; \<open>ready k\<close> is whether the pool is ready, or the gate bypassed,
  at the k-th look. \<open>n\<close> counts the looks left before the timeout.
\<close>

fun wait_ready_from :: "(nat \<Rightarrow> bool) \<Rightarrow> nat \<Rightarrow> nat \<Rightarrow> nat" where
  "wait_ready_from ready k 0 = READY_WAIT_TIMEOUT"
| "wait_ready_from ready k (Suc n) = (if ready k then k * READY_POLL_INTERVAL else wait_ready_from ready (Suc k) n)"

definition wait_for_ready :: "(nat \<Rightarrow> bool) \<Rightarrow> nat" where
  "wait_for_ready ready = wait_ready_from ready 0 (READY_WAIT_TIMEOUT div READY_POLL_INTERVAL)"

section \<open>Feeding the pool\<close>

datatype serve_end = ServerOk | ServerError string | ServerCrash string

text \<open>One turn of the wait: the stream, the shutdown signal, the tick, the server; \<open>FeedServed\<close> is an operation of the server on the pool.\<close>

datatype feed_event =
    FeedNext "proxy option" | FeedShutdown | FeedTick | FeedServer serve_end | FeedServed pool_op

datatype serve_result = Cancelled | ServeError string | ServePanic

record feeder =
  fd_pool :: pool
  fd_paused :: bool
  fd_taken :: bool

datatype feed_end = RoundOver | RoundReturns serve_result | RoundWaits

definition is_full :: "nat \<Rightarrow> feeder \<Rightarrow> bool" where
  "is_full limit f = serve_should_pause (pool_len (fd_pool f)) limit"

text \<open>The end of a turn: the gate follows the room in the pool; None ends the round of a static pool.\<close>

definition check_room :: "bool \<Rightarrow> nat \<Rightarrow> feeder \<Rightarrow> feeder option" where
  "check_room static limit f =
     (if is_full limit f \<and> static then None
      else if is_full limit f \<and> \<not> fd_paused f then Some (f\<lparr>fd_paused := True\<rparr>)
      else if \<not> is_full limit f \<and> fd_paused f then Some (f\<lparr>fd_paused := False\<rparr>)
      else Some f)"

definition server_failed :: "serve_end \<Rightarrow> serve_result option" where
  "server_failed s =
     (case s of
        ServerOk \<Rightarrow> None
      | ServerError err \<Rightarrow> Some (ServeError err)
      | ServerCrash err \<Rightarrow> Some (ServeError (''serve task failed: '' @ err)))"

fun feed_loop :: "bool \<Rightarrow> nat \<Rightarrow> feed_event list \<Rightarrow> feeder \<Rightarrow> feeder \<times> feed_end" where
  "feed_loop static limit [] f = (f, RoundWaits)"
| "feed_loop static limit (FeedServed op # evs) f =
     feed_loop static limit evs (f\<lparr>fd_pool := pool_apply op (fd_pool f)\<rparr>)"
| "feed_loop static limit (FeedNext None # evs) f = (f, RoundOver)"
| "feed_loop static limit (FeedNext (Some p) # evs) f =
     (let f' = f\<lparr>fd_pool := snd (pool_add p (fd_pool f))\<rparr> in
      case check_room static limit f' of None \<Rightarrow> (f', RoundOver) | Some f2 \<Rightarrow> feed_loop static limit evs f2)"
| "feed_loop static limit (FeedShutdown # evs) f = (f, RoundOver)"
| "feed_loop static limit (FeedTick # evs) f =
     (case check_room static limit f of None \<Rightarrow> (f, RoundOver) | Some f2 \<Rightarrow> feed_loop static limit evs f2)"
| "feed_loop static limit (FeedServer s # evs) f =
     (if fd_taken f then (f, RoundReturns ServePanic) else case server_failed s of
        None \<Rightarrow> (f\<lparr>fd_taken := True\<rparr>, RoundOver)
      | Some r \<Rightarrow> (f\<lparr>fd_taken := True\<rparr>, RoundReturns r))"

text \<open>A round starts with a new stream and an open gate, closed at once when the pool is full.\<close>

definition feed_round :: "bool \<Rightarrow> nat \<Rightarrow> feed_event list \<Rightarrow> feeder \<Rightarrow> feeder \<times> feed_end" where
  "feed_round static limit evs f =
     (if is_full limit f \<and> static then (f\<lparr>fd_paused := False\<rparr>, RoundOver)
      else feed_loop static limit evs (f\<lparr>fd_paused := is_full limit f\<rparr>))"

text \<open>A round of the outer loop: how the stream starts, its events, and whether the wait for the refresh ends by shutdown.\<close>

record serve_round =
  rd_start_error :: "string option"
  rd_events :: "feed_event list"
  rd_shutdown :: bool

text \<open>After the rounds the server task is awaited; awaiting a task whose result was taken is a panic. \<open>None\<close> is still running.\<close>

definition await_server :: "serve_end \<Rightarrow> feeder \<Rightarrow> serve_result" where
  "await_server s f =
     (if fd_taken f then ServePanic else case server_failed s of None \<Rightarrow> Cancelled | Some r \<Rightarrow> r)"

fun serve_rounds :: "bool \<Rightarrow> nat \<Rightarrow> serve_end \<Rightarrow> serve_round list \<Rightarrow> feeder \<Rightarrow> feeder \<times> serve_result option" where
  "serve_rounds static limit s [] f = (f, None)"
| "serve_rounds static limit s (r # rs) f =
     (case rd_start_error r of
        Some err \<Rightarrow> (f, Some (ServeError err))
      | None \<Rightarrow>
          (case feed_round static limit (rd_events r) f of
             (f', RoundWaits) \<Rightarrow> (f', None)
           | (f', RoundReturns res) \<Rightarrow> (f', Some res)
           | (f', RoundOver) \<Rightarrow>
               if static \<or> rd_shutdown r then (f', Some (await_server s f'))
               else serve_rounds static limit s rs f'))"

section \<open>Options are in range\<close>

text \<open>Accepted options are in range: a pool of 1 to the maximum, a readiness target within the pool that
  the rotator keeps as it is.\<close>

theorem serve_options_in_range:
  assumes "serve_options_of a = Ok opts"
  shows "1 \<le> so_min_ready opts \<and> so_min_ready opts \<le> so_pool_size opts \<and> so_pool_size opts \<le> MAX_POOL_SIZE \<and>
    ready_target (so_pool_size opts) (so_min_ready opts) = so_min_ready opts"
  using assms
  by (auto simp: serve_options_of_def Let_def and_then_eq_Ok clamp_def ready_target_def MAX_POOL_SIZE_def)

lemma wait_ready_from_spec:
  "wait_ready_from ready k n =
     (case find ready [k..<k + n] of Some i \<Rightarrow> i * READY_POLL_INTERVAL | None \<Rightarrow> READY_WAIT_TIMEOUT)"
proof (induction n arbitrary: k)
  case (Suc n)
  have "[k..<k + Suc n] = k # [Suc k..<Suc k + n]" by (simp add: upt_conv_Cons)
  then show ?case using Suc [of "Suc k"] by simp
qed simp

text \<open>The wait ends at the first look at which the pool is ready, and after the timeout at the latest.\<close>

theorem wait_for_ready_ends:
  "wait_for_ready ready \<le> READY_WAIT_TIMEOUT \<and>
   wait_for_ready ready =
     (case find ready [0..<1200] of Some i \<Rightarrow> i * READY_POLL_INTERVAL | None \<Rightarrow> READY_WAIT_TIMEOUT)"
proof -
  have e: "wait_for_ready ready =
     (case find ready [0..<1200] of Some i \<Rightarrow> i * READY_POLL_INTERVAL | None \<Rightarrow> READY_WAIT_TIMEOUT)"
    unfolding wait_for_ready_def wait_ready_from_spec by (simp add: READY_WAIT_TIMEOUT_def READY_POLL_INTERVAL_def)
  show ?thesis
  proof (cases "find ready [0..<1200]")
    case (Some i)
    then have "i < 1200" by (auto simp: find_Some_iff)
    then show ?thesis using e Some by (simp add: READY_WAIT_TIMEOUT_def READY_POLL_INTERVAL_def)
  qed (simp add: e)
qed

section \<open>The feed\<close>

lemma served_len: "\<forall>p. op \<noteq> Add p \<Longrightarrow> pool_len (pool_apply op pl) \<le> pool_len pl"
  by (cases op)
    (auto simp: pool_len_def pick_entries report_success_def report_failure_def Let_def split: option.split)

text \<open>What the server does to the pool: it adds nothing.\<close>

definition server_only :: "feed_event list \<Rightarrow> bool" where
  "server_only evs = list_all (\<lambda>ev. \<forall>p. ev \<noteq> FeedServed (Add p)) evs"

lemma check_room_facts:
  assumes "check_room static limit f = Some f2"
  shows "fd_pool f2 = fd_pool f \<and> fd_taken f2 = fd_taken f \<and> fd_paused f2 = is_full limit f2 \<and> \<not> (static \<and> is_full limit f2)"
  using assms by (auto simp: check_room_def is_full_def split: if_splits)

lemma check_room_taken: "check_room static limit f = Some f2 \<Longrightarrow> fd_taken f2 = fd_taken f"
  using check_room_facts [of static limit f f2] by blast

lemma add_len: "pool_len (snd (pool_add p pl)) \<le> pool_len pl + 1"
  by (simp add: pool_add_def pool_len_def)

lemma static_loop_bounded:
  "server_only evs \<Longrightarrow> pool_len (fd_pool f) < max limit 1 \<Longrightarrow>
   pool_len (fd_pool (fst (feed_loop True limit evs f))) \<le> max limit 1"
proof (induction True limit evs f rule: feed_loop.induct)
  case (2 limit op evs f)
  then have "\<forall>p. op \<noteq> Add p" by (auto simp: server_only_def)
  from served_len [OF this, of "fd_pool f"] 2 show ?case by (simp add: server_only_def)
next
  case (4 limit p evs f)
  let ?f = "f\<lparr>fd_pool := snd (pool_add p (fd_pool f))\<rparr>"
  show ?case
  proof (cases "check_room True limit ?f")
    case None
    then show ?thesis using "4.prems"(2) add_len [of p "fd_pool f"] by simp
  next
    case (Some f2)
    with check_room_facts [OF Some] have "pool_len (fd_pool f2) < max limit 1"
      by (auto simp: is_full_def serve_should_pause_def)
    then show ?thesis using 4 Some by (simp add: server_only_def Let_def)
  qed
next
  case (6 limit evs f)
  show ?case
  proof (cases "check_room True limit f")
    case None
    then show ?thesis using "6.prems" by simp
  next
    case (Some f2)
    with check_room_facts [OF Some] have "pool_len (fd_pool f2) < max limit 1"
      by (auto simp: is_full_def serve_should_pause_def)
    then show ?thesis using 6 Some by (simp add: server_only_def)
  qed
qed (auto simp: server_only_def split: option.split)

text \<open>A pool fed from files never holds more than its size, whatever the server does meanwhile.\<close>

theorem static_pool_bounded:
  assumes "server_only evs" and "pool_len (fd_pool f) \<le> max limit 1"
  shows "pool_len (fd_pool (fst (feed_round True limit evs f))) \<le> max limit 1"
proof (cases "is_full limit f")
  case True
  then show ?thesis using assms(2) by (simp add: feed_round_def)
next
  case False
  then have "pool_len (fd_pool f) < max limit 1"
    unfolding is_full_def serve_should_pause_def by (simp only: not_le)
  with static_loop_bounded [OF assms(1), of "f\<lparr>fd_paused := False\<rparr>" limit] False show ?thesis
    by (simp add: feed_round_def)
qed

text \<open>A pool fed from providers takes every proxy the stream still yields, also while it is full and the
  validation is paused: only the maximum of all pools bounds it, not its own size.\<close>

theorem provider_feed_ignores_limit:
  "feed_loop False limit (map (\<lambda>p. FeedNext (Some p)) ps) f =
     (f\<lparr>fd_pool := fold (\<lambda>p pl. snd (pool_add p pl)) ps (fd_pool f),
        fd_paused := (if ps = [] then fd_paused f
                      else serve_should_pause (pool_len (fold (\<lambda>p pl. snd (pool_add p pl)) ps (fd_pool f))) limit)\<rparr>,
      RoundWaits)"
proof (induction ps arbitrary: f)
  case (Cons p ps)
  let ?f = "f\<lparr>fd_pool := snd (pool_add p (fd_pool f))\<rparr>"
  have "check_room False limit ?f = Some (?f\<lparr>fd_paused := is_full limit ?f\<rparr>)"
    by (auto simp: check_room_def is_full_def)
  then show ?case using Cons [of "?f\<lparr>fd_paused := is_full limit ?f\<rparr>"] by (cases ps) (auto simp: is_full_def)
qed simp

definition fresh_feeder :: feeder where
  "fresh_feeder = \<lparr>fd_pool = pool_new RoundRobin, fd_paused = False, fd_taken = False\<rparr>"

theorem static_pool_bounded_witness:
  "pool_len (fd_pool (fst (feed_round True 1
     [FeedNext (Some (proxy_new (Ipv4 10 0 0 1) 80)), FeedServed (Pick 0 0), FeedNext (Some (proxy_new (Ipv4 10 0 0 2) 80))]
     fresh_feeder))) \<le> 1"
  using static_pool_bounded
    [of "[FeedNext (Some (proxy_new (Ipv4 10 0 0 1) 80)), FeedServed (Pick 0 0), FeedNext (Some (proxy_new (Ipv4 10 0 0 2) 80))]"
      fresh_feeder 1]
  by (simp add: server_only_def fresh_feeder_def pool_new_def pool_len_def)

theorem serve_options_in_range_witness:
  "\<exists>opts. serve_options_of \<lparr>sv_types = [], sv_files = [], sv_pool_size = 90, sv_min_ready = 0, sv_strategy = ''random'',
      sv_refresh_secs = None, sv_request_timeout = None, sv_auth = Some ''u:p'', sv_dry_run = False\<rparr> = Ok opts \<and>
    1 \<le> so_min_ready opts \<and> so_pool_size opts \<le> MAX_POOL_SIZE"
proof -
  let ?a = "\<lparr>sv_types = [], sv_files = [], sv_pool_size = 90, sv_min_ready = 0, sv_strategy = ''random'',
      sv_refresh_secs = None, sv_request_timeout = None, sv_auth = Some ''u:p'', sv_dry_run = False\<rparr>"
  obtain opts where o: "serve_options_of ?a = Ok opts"
    by (simp add: serve_options_of_def parse_serve_credentials_def strategy_parse_def split_once_def Let_def)
  from serve_options_in_range [OF o] o show ?thesis by blast
qed

section \<open>The end of the server\<close>

lemma feed_loop_append:
  "feed_loop static limit (evs @ more_evs) f =
     (case feed_loop static limit evs f of
        (f', RoundWaits) \<Rightarrow> feed_loop static limit more_evs f'
      | res \<Rightarrow> res)"
  by (induction static limit evs f rule: feed_loop.induct) (auto simp: Let_def split: option.split)

lemma feed_keeps_taken:
  "feed_loop static limit evs f = (f', RoundWaits) \<Longrightarrow> fd_taken f' = fd_taken f"
proof (induction static limit evs f arbitrary: f' rule: feed_loop.induct)
  case (4 static limit p evs f)
  let ?f = "f\<lparr>fd_pool := snd (pool_add p (fd_pool f))\<rparr>"
  show ?case
  proof (cases "check_room static limit ?f")
    case None
    with "4.prems" show ?thesis by simp
  next
    case (Some f2)
    with "4.prems" have "feed_loop static limit evs f2 = (f', RoundWaits)" by (simp add: Let_def)
    from "4.IH" [OF refl Some this] check_room_taken [OF Some] show ?thesis by simp
  qed
next
  case (6 static limit evs f)
  show ?case
  proof (cases "check_room static limit f")
    case None
    with "6.prems" show ?thesis by simp
  next
    case (Some f2)
    with "6.prems" have "feed_loop static limit evs f2 = (f', RoundWaits)" by simp
    from "6.IH" [OF Some this] check_room_taken [OF Some] show ?thesis by simp
  qed
qed (simp_all split: if_splits option.splits)

text \<open>C23: when the end of the server is noticed by the feed before the shutdown signal is, its result is
  taken, and the await after the last round panics.\<close>

theorem server_end_noticed_first_panics:
  assumes "rd_start_error r = None" and "rd_events r = evs @ [FeedServer ServerOk]" and "rd_shutdown r"
    and "\<not> fd_taken f" and "feed_round static limit evs f = (f', RoundWaits)"
  shows "serve_rounds static limit s (r # rs) f = (f'\<lparr>fd_taken := True\<rparr>, Some ServePanic)"
proof -
  have nf: "\<not> (is_full limit f \<and> static)"
    and l: "feed_loop static limit evs (f\<lparr>fd_paused := is_full limit f\<rparr>) = (f', RoundWaits)"
    using assms(5) by (auto simp: feed_round_def split: if_splits)
  have "\<not> fd_taken f'" using feed_keeps_taken [OF l] assms(4) by simp
  moreover have "feed_round static limit (rd_events r) f = feed_loop static limit (rd_events r) (f\<lparr>fd_paused := is_full limit f\<rparr>)"
    using nf by (auto simp: feed_round_def)
  ultimately have "feed_round static limit (rd_events r) f = (f'\<lparr>fd_taken := True\<rparr>, RoundOver)"
    using l assms(2) by (simp add: feed_loop_append server_failed_def)
  then show ?thesis using assms(1,3) by (simp add: await_server_def)
qed

theorem server_end_noticed_first_panics_witness:
  "snd (serve_rounds False 5 ServerOk
     [\<lparr>rd_start_error = None, rd_events = [FeedTick, FeedServer ServerOk], rd_shutdown = True\<rparr>] fresh_feeder) = Some ServePanic"
  using server_end_noticed_first_panics
    [of "\<lparr>rd_start_error = None, rd_events = [FeedTick, FeedServer ServerOk], rd_shutdown = True\<rparr>" "[FeedTick]" fresh_feeder False 5
      fresh_feeder ServerOk "[]"]
  by (simp add: fresh_feeder_def feed_round_def is_full_def serve_should_pause_def check_room_def pool_len_def pool_new_def)

text \<open>With the shutdown signal always noticed first there is no panic: the command ends as cancelled or
  with the error of the server, or of a stream that does not start.\<close>

definition no_server_end :: "feed_event list \<Rightarrow> bool" where
  "no_server_end evs = list_all (\<lambda>ev. \<forall>s. ev \<noteq> FeedServer s) evs"

lemma feed_loop_no_server:
  "no_server_end evs \<Longrightarrow> \<not> fd_taken f \<Longrightarrow>
   \<not> fd_taken (fst (feed_loop static limit evs f)) \<and> (\<forall>res. snd (feed_loop static limit evs f) \<noteq> RoundReturns res)"
proof (induction static limit evs f rule: feed_loop.induct)
  case (4 static limit p evs f)
  let ?f = "f\<lparr>fd_pool := snd (pool_add p (fd_pool f))\<rparr>"
  show ?case
  proof (cases "check_room static limit ?f")
    case None
    with "4.prems" show ?thesis by simp
  next
    case (Some f2)
    have "no_server_end evs" using "4.prems" by (simp add: no_server_end_def)
    moreover have "\<not> fd_taken f2" using check_room_taken [OF Some] "4.prems" by simp
    ultimately show ?thesis using "4.IH" [OF refl Some] Some by (simp add: Let_def)
  qed
next
  case (6 static limit evs f)
  show ?case
  proof (cases "check_room static limit f")
    case None
    with "6.prems" show ?thesis by simp
  next
    case (Some f2)
    have "no_server_end evs" using "6.prems" by (simp add: no_server_end_def)
    moreover have "\<not> fd_taken f2" using check_room_taken [OF Some] "6.prems" by simp
    ultimately show ?thesis using "6.IH" [OF Some] Some by simp
  qed
qed (auto simp: no_server_end_def)

theorem serve_never_panics_otherwise:
  "list_all (\<lambda>r. no_server_end (rd_events r)) rs \<Longrightarrow> \<not> fd_taken f \<Longrightarrow>
   snd (serve_rounds static limit s rs f) \<noteq> Some ServePanic"
proof (induction rs arbitrary: f)
  case (Cons r rs)
  have "\<not> fd_taken (fst (feed_round static limit (rd_events r) f)) \<and>
      (\<forall>res. snd (feed_round static limit (rd_events r) f) \<noteq> RoundReturns res)"
    using Cons.prems feed_loop_no_server [of "rd_events r" "f\<lparr>fd_paused := is_full limit f\<rparr>" static limit]
    by (auto simp: feed_round_def)
  moreover obtain f' res where "feed_round static limit (rd_events r) f = (f', res)" by (metis surj_pair)
  ultimately show ?case
    using Cons by (cases res) (auto simp: await_server_def server_failed_def split: option.splits serve_end.splits)
qed simp

end
