(* ===== verification/Spec2Isabelle.thy ===== *)
theory Spec2Isabelle
  imports Cli_Filters Health_Props Source_Fetch Row_Cache Body_Fetch Rotator_Props
    Cli_Pipeline Judge_Probe_Props Validator_Results Cli_Config_Props Tui_Engine_Props Tui_Export Parsers_Rows Public_Ip Ip_Class
    Fetch_Coordinator Geo_Db Facade Cli_Version Serve_Loop
begin

text \<open>
  A model of flx, a program that collects public proxies from many sources, removes
  duplicates, validates them through judges, and prints them, shows them in a terminal
  interface, or serves them through a rotating endpoint. All sources named below are under
  \<open>src/src/\<close>.

  \<^bold>\<open>How the parts interact.\<close> Providers give sources; the coordinator of a fetch downloads them in
  two phases through a cache of parsed rows; rows become candidates, which the fetcher locates,
  deduplicates and filters by country. The validator probes each candidate through judges it has
  checked, over the handshakes of the proxy protocols, records the outcomes in the health store
  and sends what passed. The commands consume that stream: \<open>grab\<close> and \<open>find\<close> filter, sort, count
  against quotas, and render it; the terminal interface shows it; \<open>serve\<close> feeds a pool from it, which the
  rotating endpoint draws upstream proxies from. The library's builder starts the same pipeline.

  \<^bold>\<open>Theories and what they model.\<close>

  \<^item> \<open>Flx_Prelude\<close>, \<open>Rust_Str\<close>, \<open>Rust_Chars\<close>, \<open>Rust_Parse\<close>, \<open>Rust_F64\<close>, \<open>Rust_Ipv6\<close>, \<open>Text_Codec\<close>, \<open>Stable_Sort\<close>:
    what the code uses of Rust's standard library (outcomes with panics, \<open>str\<close> methods, characters in
    UTF-8, number and address parsing, stable sorting), with the lemmas all components share.
  \<^item> \<open>Protocol_Model\<close>, \<open>Proxy_Model\<close>: \<open>proxy/models.rs\<close>, \<open>error.rs\<close>, \<open>geolookup/models.rs\<close>; \<open>Ip_Class\<close>:
    \<open>geolookup/ip_type.rs\<close>; \<open>Geo_Db\<close>: \<open>geolookup/mod.rs\<close> (installation, migration, synchronization, lookup).
  \<^item> \<open>Provider_Registry\<close>: the providers of \<open>providers/\<close>, their sources and their selection; \<open>Parsers_Text\<close>,
    \<open>Parsers_Rows\<close>, \<open>Proxynova\<close>: \<open>providers/parsers.rs\<close>, \<open>models.rs\<close>, \<open>proxynova.rs\<close>; \<open>Body_Fetch\<close>: the
    download of a source in \<open>providers/mod.rs\<close>.
  \<^item> \<open>Fetch_Plan\<close>, \<open>Fetch_Coordinator\<close>: \<open>gather\<close> and its coordinator in \<open>fetcher/mod.rs\<close>; \<open>Dedup\<close>, \<open>Fetcher\<close>,
    \<open>Source_Fetch\<close>, \<open>Row_Cache\<close>: \<open>fetcher/dedup.rs\<close>, \<open>mod.rs\<close>, \<open>phase.rs\<close>, \<open>cache.rs\<close>.
  \<^item> \<open>Filters\<close>, \<open>Shuffle\<close>, \<open>Stream_Filters\<close>: \<open>filters.rs\<close>; \<open>Cli_Filters\<close>: \<open>cli/filters.rs\<close>.
  \<^item> \<open>Health\<close>, \<open>Health_Props\<close>: \<open>health.rs\<close> and the append of \<open>file_util.rs\<close>.
  \<^item> \<open>Public_Ip\<close>: the DNS queries and answers of \<open>resolver.rs\<close>.
  \<^item> \<open>Net_Wire\<close>, \<open>Negotiators\<close>, \<open>Handshake_Props\<close>: \<open>negotiators/\<close> and \<open>validator/tunnel/negotiate.rs\<close>.
  \<^item> \<open>Judge_Pool\<close>, \<open>Judge_Http\<close>, \<open>Judge_Probe\<close>, \<open>Judge_Probe_Props\<close>: \<open>validator/checker/\<close> and \<open>validator/tunnel/\<close>.
  \<^item> \<open>Validator_Work\<close>, \<open>Validator_Run\<close>, \<open>Validator_Props\<close>, \<open>Validator_Results\<close>: \<open>validator/work.rs\<close> and
    \<open>validator/mod.rs\<close>, the run as a step relation over workers, jobs and groups.
  \<^item> \<open>Quotas\<close>, \<open>Cli_Pipeline\<close>: \<open>cli/quotas.rs\<close>, \<open>cli/pipeline.rs\<close>; \<open>Cli_Config\<close>, \<open>Cli_Config_Props\<close>:
    \<open>cli/config.rs\<close>; \<open>Proxy_Render\<close>, \<open>Cli_Output\<close>, \<open>Cli_Output_Props\<close>, \<open>Cli_Find\<close>: \<open>cli/output.rs\<close> and
    \<open>run_find\<close> of \<open>cli/main.rs\<close>; \<open>Cli_Version\<close>: \<open>cli/version.rs\<close>.
  \<^item> \<open>Tui_View\<close>, \<open>Tui_Table\<close>, \<open>Tui_Keys\<close>, \<open>Tui_App\<close>, \<open>Tui_Props\<close>, \<open>Tui_Engine\<close>, \<open>Tui_Engine_Props\<close>, \<open>Tui_Export\<close>:
    \<open>cli/tui/\<close>.
  \<^item> \<open>Rotator_Pool\<close>, \<open>Rotator_Server\<close>, \<open>Rotator_Props\<close>: \<open>rotator/\<close>; \<open>Serve_Loop\<close>: \<open>run_serve\<close> of \<open>cli/main.rs\<close>.
  \<^item> \<open>Facade\<close>: \<open>api.rs\<close> and the file source of \<open>lib.rs\<close>.

  \<^bold>\<open>How state and effects are modelled.\<close> A struct is a record, an enum a datatype, and an operation a
  function that returns the updated record; what runs concurrently is a step relation or a script of
  events over which a statement quantifies. Errors are sums or the outcome type of the prelude,
  whose \<open>Panic\<close> is a panic of Rust. Texts are lists of UTF-8 bytes; \<open>u8\<close> to \<open>u64\<close> are words where
  wrapping or a width matters, sizes and durations are natural numbers otherwise, with the checks
  of the code written out. A double is an exact real, an infinity or NaN: rounding is not modelled.
  Libraries the sources only call (HTTP, TLS, regular expressions, HTML, JSON and TOML readers,
  base64, the GeoIP format, URI parsing), the operating system, the clock and random numbers are
  parameters, as is whatever a peer sends. What a statement needs of one of them is a premise it
  names: of the JSON reader only that it gives strings, integers and truth values back, floating-point
  numbers only where the statement says so. The lock on a database download is an argument, the lock
  file it leaves behind a part of the modelled file system.

  \<^bold>\<open>What the lemmas show.\<close>

  \<^item> Data and formats: proxies, rows, health records, cache files, DNS messages and exported lines
    read back as they were written; parsers accept exactly what the code says and never panic
    where that is claimed.
  \<^item> Streams: every adapter refines the list function it stands for (filter, sort, shuffle, the first
    of each endpoint), however the upstream is polled.
  \<^item> Fetching: which sources are fetched in which phase, when the fallback phase starts, that a fetch
    ends, that the cache replays the same candidates, that installing a database is atomic.
  \<^item> Validation: what a finished run has sent, that its counters agree, that it ends and never
    panics, that a probe passes only what answered with the judge's marker, that the two socks
    implementations agree.
  \<^item> Output and interface: what is written to the byte, limits and quotas with the exceptions the code
    has (PAC files over both passes, proxies that match several quotas), how a run ends when its
    reader closes the pipe at any write, the documents of the JSON formats, that the interface stays
    well formed and finds what the command writes.
  \<^item> Serving: the invariant of the pool, the accounting of connections, the feed and its end.

  \<^bold>\<open>Bounds and fuel.\<close> The expressions of \<open>Proxynova\<close> are evaluated with a recursion depth; any depth beyond
  the length of the text is enough, which is proved there. Loops
  over a list, a script or a counter that falls are structural or have a measure; the reader of a
  file in \<open>Facade\<close> may run for ever and is a partial function, with the cases that return proved.
  The limits of the code (redirects, attempts, sizes of bodies, pools and tables) are constants.

  \<^bold>\<open>Not modelled.\<close> Drawing and decoration hold no logic of the program: \<open>cli/tui/ui.rs\<close> but for its columns
  and highlights, \<open>cli/tui/theme.rs\<close>, \<open>term.rs\<close>, \<open>cli/progress.rs\<close>, \<open>status_line.rs\<close>, \<open>style.rs\<close>, \<open>guard.rs\<close>. The
  prompts of \<open>cli/wizard.rs\<close> only fill the configuration that \<open>Cli_Config\<close> models. \<open>proxy/client.rs\<close> and
  \<open>validator/tunnel/tls.rs\<close> adapt the HTTP and TLS libraries; \<open>base_dirs.rs\<close>, \<open>user_agent.rs\<close>, \<open>bench.rs\<close> and
  \<open>test_support.rs\<close> read the environment, hold a table, or exist for measuring and testing. Of
  \<open>cli/main.rs\<close> the dispatch of the commands, the signals and the summaries on the error output are
  left out, of \<open>cli/argument.rs\<close> the declarations for the argument parser.
\<close>

end
